(* ===== verification/Scudb_Exception.thy ===== *)
theory Scudb_Exception
  imports Main
begin

text \<open>
  The exceptions of \<^verbatim>\<open>include/common/exception.h\<close>: the enumeration, its printed names, and the
  report each constructor of \<^verbatim>\<open>Exception\<close> writes to the error stream. A thrown exception is a
  value of the sum type of \<^verbatim>\<open>Scudb_Prelude\<close>, which carries the type and the message.
\<close>

datatype ExceptionType =
    EXCEPTION_TYPE_INVALID
  | EXCEPTION_TYPE_OUT_OF_RANGE
  | EXCEPTION_TYPE_CONVERSION
  | EXCEPTION_TYPE_UNKNOWN_TYPE
  | EXCEPTION_TYPE_DECIMAL
  | EXCEPTION_TYPE_MISMATCH_TYPE
  | EXCEPTION_TYPE_DIVIDE_BY_ZERO
  | EXCEPTION_TYPE_OBJECT_SIZE
  | EXCEPTION_TYPE_INCOMPATIBLE_TYPE
  | EXCEPTION_TYPE_SERIALIZATION
  | EXCEPTION_TYPE_TRANSACTION
  | EXCEPTION_TYPE_NOT_IMPLEMENTED
  | EXCEPTION_TYPE_EXPRESSION
  | EXCEPTION_TYPE_CATALOG
  | EXCEPTION_TYPE_PARSER
  | EXCEPTION_TYPE_PLANNER
  | EXCEPTION_TYPE_SCHEDULER
  | EXCEPTION_TYPE_EXECUTOR
  | EXCEPTION_TYPE_CONSTRAINT
  | EXCEPTION_TYPE_INDEX
  | EXCEPTION_TYPE_STAT
  | EXCEPTION_TYPE_CONNECTION
  | EXCEPTION_TYPE_SYNTAX

fun ExpectionTypeToString :: "ExceptionType \<Rightarrow> string" where
  "ExpectionTypeToString EXCEPTION_TYPE_INVALID = ''Invalid''"
| "ExpectionTypeToString EXCEPTION_TYPE_OUT_OF_RANGE = ''Out of Range''"
| "ExpectionTypeToString EXCEPTION_TYPE_CONVERSION = ''Conversion''"
| "ExpectionTypeToString EXCEPTION_TYPE_UNKNOWN_TYPE = ''Unknown Type''"
| "ExpectionTypeToString EXCEPTION_TYPE_DECIMAL = ''Decimal''"
| "ExpectionTypeToString EXCEPTION_TYPE_MISMATCH_TYPE = ''Mismatch Type''"
| "ExpectionTypeToString EXCEPTION_TYPE_DIVIDE_BY_ZERO = ''Divide by Zero''"
| "ExpectionTypeToString EXCEPTION_TYPE_OBJECT_SIZE = ''Object Size''"
| "ExpectionTypeToString EXCEPTION_TYPE_INCOMPATIBLE_TYPE = ''Incompatible type''"
| "ExpectionTypeToString EXCEPTION_TYPE_SERIALIZATION = ''Serialization''"
| "ExpectionTypeToString EXCEPTION_TYPE_TRANSACTION = ''Transaction''"
| "ExpectionTypeToString EXCEPTION_TYPE_NOT_IMPLEMENTED = ''Not implemented''"
| "ExpectionTypeToString EXCEPTION_TYPE_EXPRESSION = ''Expression''"
| "ExpectionTypeToString EXCEPTION_TYPE_CATALOG = ''Catalog''"
| "ExpectionTypeToString EXCEPTION_TYPE_PARSER = ''Parser''"
| "ExpectionTypeToString EXCEPTION_TYPE_PLANNER = ''Planner''"
| "ExpectionTypeToString EXCEPTION_TYPE_SCHEDULER = ''Scheduler''"
| "ExpectionTypeToString EXCEPTION_TYPE_EXECUTOR = ''Executor''"
| "ExpectionTypeToString EXCEPTION_TYPE_CONSTRAINT = ''Constraint''"
| "ExpectionTypeToString EXCEPTION_TYPE_INDEX = ''Index''"
| "ExpectionTypeToString EXCEPTION_TYPE_STAT = ''Stat''"
| "ExpectionTypeToString EXCEPTION_TYPE_CONNECTION = ''Connection''"
| "ExpectionTypeToString EXCEPTION_TYPE_SYNTAX = ''Syntax''"

text \<open>
  The text on the error stream: \<^verbatim>\<open>Exception(message)\<close> reports the message alone,
  \<^verbatim>\<open>Exception(type, message)\<close> the name of the type as well.
\<close>

definition exception_report :: "string \<Rightarrow> string" where
  "exception_report msg = ''Message :: '' @ msg @ [CHR 0x0A]"

definition exception_report_typed :: "ExceptionType \<Rightarrow> string \<Rightarrow> string" where
  "exception_report_typed ty msg =
     [CHR 0x0A] @ ''Exception Type :: '' @ ExpectionTypeToString ty @ [CHR 0x0A] @
     ''Message :: '' @ msg @ [CHR 0x0A]"

lemma ExpectionTypeToString_inject:
  "ExpectionTypeToString a = ExpectionTypeToString b \<longleftrightarrow> a = b"
  by (cases a; cases b; simp)

end
