(* ===== verification/Scudb_Prelude.thy ===== *)
theory Scudb_Prelude
  imports Scudb_Exception "HOL-Library.Word"
begin

text \<open>
  Shared vocabulary of the development: the outcome of a C++ routine as a sum (a fault or a
  result), sequencing of such outcomes, the ordered association list that stands for
  \<^verbatim>\<open>std::map\<close>, and the list and bit lemmas the components use.
\<close>

unbundle bit_operations_syntax

section \<open>Outcomes\<close>

text \<open>
  Every way in which a routine of the program can stop without returning: a failed
  \<^verbatim>\<open>assert\<close>, a null dereference, an access outside an object, an operation the C++ standard
  leaves undefined (a shift or a signed multiplication out of range), a thrown
  \<^verbatim>\<open>Exception\<close> (its type and message), an exception of the standard library that the program
  does not catch, a wait of the only thread for a latch that nobody else can release, and a loop
  that exhausts the bound its model runs under.
\<close>

datatype fault =
    Assertion_Failed
  | Null_Deref
  | Out_Of_Bounds
  | Undefined_Behaviour
  | Thrown ExceptionType string
  | Std_Exception string
  | Blocked
  | Out_Of_Fuel

type_synonym 'a res = "fault + 'a"

abbreviation ok :: "'a \<Rightarrow> 'a res" where
  "ok \<equiv> Inr"

abbreviation fail :: "fault \<Rightarrow> 'a res" where
  "fail \<equiv> Inl"

definition bindE :: "'a res \<Rightarrow> ('a \<Rightarrow> 'b res) \<Rightarrow> 'b res" where
  "bindE m f = (case m of Inl e \<Rightarrow> Inl e | Inr x \<Rightarrow> f x)"

definition assertE :: "bool \<Rightarrow> unit res" where
  "assertE b = (if b then ok () else fail Assertion_Failed)"

named_theorems res_simps \<open>evaluation of sequenced outcomes\<close>

lemma bindE_Inr [simp, res_simps]: "bindE (Inr x) f = f x"
  by (simp add: bindE_def)

lemma bindE_Inl [simp, res_simps]: "bindE (Inl e) f = Inl e"
  by (simp add: bindE_def)

lemma assertE_True [simp, res_simps]: "assertE True = Inr ()"
  by (simp add: assertE_def)

lemma assertE_False [simp, res_simps]: "assertE False = Inl Assertion_Failed"
  by (simp add: assertE_def)

lemma bindE_eq_Inr: "bindE m f = Inr y \<longleftrightarrow> (\<exists>x. m = Inr x \<and> f x = Inr y)"
  by (cases m) auto

lemma bindE_eq_Inl: "bindE m f = Inl e \<longleftrightarrow> m = Inl e \<or> (\<exists>x. m = Inr x \<and> f x = Inl e)"
  by (cases m) auto

lemma assertE_eq_Inr [simp]: "assertE b = Inr u \<longleftrightarrow> b"
  by (cases b) auto

lemma assertE_eq_Inl: "assertE b = Inl e \<longleftrightarrow> \<not> b \<and> e = Assertion_Failed"
  by (cases b) auto

lemma bindE_assoc: "bindE (bindE m f) g = bindE m (\<lambda>x. bindE (f x) g)"
  by (cases m) auto

section \<open>Reading a list with its bound\<close>

definition nth_res :: "'a list \<Rightarrow> nat \<Rightarrow> 'a res" where
  "nth_res xs i = (if i < length xs then ok (xs ! i) else fail Out_Of_Bounds)"

text \<open>\<^verbatim>\<open>v[i]\<close> of an array or vector with an \<^verbatim>\<open>int\<close> index: reading and writing.\<close>

definition vec_at :: "'a list \<Rightarrow> int \<Rightarrow> 'a res" where
  "vec_at xs i = (if 0 \<le> i \<and> i < int (length xs) then ok (xs ! nat i) else fail Out_Of_Bounds)"

definition vec_set :: "'a list \<Rightarrow> int \<Rightarrow> 'a \<Rightarrow> 'a list res" where
  "vec_set xs i x =
     (if 0 \<le> i \<and> i < int (length xs) then ok (xs[nat i := x]) else fail Out_Of_Bounds)"

lemma vec_at_nat [simp]: "i < length xs \<Longrightarrow> vec_at xs (int i) = Inr (xs ! i)"
  by (simp add: vec_at_def)

lemma vec_set_nat [simp]: "i < length xs \<Longrightarrow> vec_set xs (int i) x = Inr (xs[i := x])"
  by (simp add: vec_set_def)

lemma nth_res_in [simp]: "i < length xs \<Longrightarrow> nth_res xs i = Inr (xs ! i)"
  by (simp add: nth_res_def)

lemma nth_res_eq_Inr: "nth_res xs i = Inr x \<longleftrightarrow> i < length xs \<and> xs ! i = x"
  by (auto simp: nth_res_def)

section \<open>The ordered map of the standard library\<close>

text \<open>
  A \<^verbatim>\<open>std::map<K, V>\<close> is the list of its nodes in iteration order. The order of the keys is
  the one of the comparison \<^verbatim>\<open>std::less<K>\<close>; \<open>sm_ok\<close> says that a list is such a map.
  \<open>sm_insert\<close> is the member \<^verbatim>\<open>insert\<close> (an existing key keeps its value), \<open>sm_assign\<close> is
  \<^verbatim>\<open>operator[]\<close> followed by an assignment, \<open>sm_erase\<close> is \<^verbatim>\<open>erase\<close>; \<^verbatim>\<open>find\<close> is
  \<^const>\<open>map_of\<close> and \<^verbatim>\<open>size\<close> is \<^const>\<open>length\<close>.
\<close>

definition sm_ok :: "('k::linorder \<times> 'v) list \<Rightarrow> bool" where
  "sm_ok m \<longleftrightarrow> sorted_wrt (<) (map fst m)"

fun sm_insert :: "'k::linorder \<Rightarrow> 'v \<Rightarrow> ('k \<times> 'v) list \<Rightarrow> ('k \<times> 'v) list" where
  "sm_insert k v [] = [(k, v)]"
| "sm_insert k v ((k', v') # m) =
     (if k < k' then (k, v) # (k', v') # m
      else if k = k' then (k', v') # m
      else (k', v') # sm_insert k v m)"

fun sm_assign :: "'k::linorder \<Rightarrow> 'v \<Rightarrow> ('k \<times> 'v) list \<Rightarrow> ('k \<times> 'v) list" where
  "sm_assign k v [] = [(k, v)]"
| "sm_assign k v ((k', v') # m) =
     (if k < k' then (k, v) # (k', v') # m
      else if k = k' then (k, v) # m
      else (k', v') # sm_assign k v m)"

definition sm_erase :: "'k \<Rightarrow> ('k \<times> 'v) list \<Rightarrow> ('k \<times> 'v) list" where
  "sm_erase k m = filter (\<lambda>p. fst p \<noteq> k) m"

named_theorems sm_simps \<open>laws of the ordered map\<close>

lemma sm_ok_Nil [simp]: "sm_ok []"
  by (simp add: sm_ok_def)

lemma sm_ok_Cons: "sm_ok ((k, v) # m) \<longleftrightarrow> (\<forall>p \<in> set m. k < fst p) \<and> sm_ok m"
  by (auto simp: sm_ok_def)

lemma sm_ok_distinct: "sm_ok m \<Longrightarrow> distinct (map fst m)"
  by (induction m) (fastforce simp: sm_ok_Cons)+

lemma map_of_less_None: "\<forall>p \<in> set m. k < fst p \<Longrightarrow> map_of m (k::'k::linorder) = None"
  by (induction m) auto

lemma set_sm_insert: "set (sm_insert k v m) \<subseteq> insert (k, v) (set m)"
  by (induction k v m rule: sm_insert.induct) auto

lemma set_sm_assign: "set (sm_assign k v m) \<subseteq> insert (k, v) (set m)"
  by (induction k v m rule: sm_assign.induct) auto

lemma sm_ok_insert [sm_simps]: "sm_ok m \<Longrightarrow> sm_ok (sm_insert k v m)"
proof (induction k v m rule: sm_insert.induct)
  case (2 k v k' v' m)
  then show ?case
    using set_sm_insert [of k v m] by (fastforce simp: sm_ok_Cons)
qed (simp add: sm_ok_def)

lemma sm_ok_assign [sm_simps]: "sm_ok m \<Longrightarrow> sm_ok (sm_assign k v m)"
proof (induction k v m rule: sm_assign.induct)
  case (2 k v k' v' m)
  then show ?case
    using set_sm_assign [of k v m] by (fastforce simp: sm_ok_Cons)
qed (simp add: sm_ok_def)

lemma sm_ok_filter [sm_simps]: "sm_ok m \<Longrightarrow> sm_ok (filter P m)"
  by (induction m) (auto simp: sm_ok_Cons)

lemma sm_ok_erase [sm_simps]: "sm_ok m \<Longrightarrow> sm_ok (sm_erase k m)"
  by (simp add: sm_erase_def sm_ok_filter)

lemma map_of_sm_insert [sm_simps]:
  "sm_ok m \<Longrightarrow> map_of (sm_insert k v m) =
     (if map_of m k = None then (map_of m)(k \<mapsto> v) else map_of m)"
proof (induction k v m rule: sm_insert.induct)
  case (2 k v k' v' m)
  then show ?case
    by (auto simp: sm_ok_Cons fun_eq_iff dest: map_of_less_None split: if_splits)
      (metis map_of_less_None order.strict_trans option.distinct(1))+
qed simp

lemma map_of_sm_assign [sm_simps]:
  "sm_ok m \<Longrightarrow> map_of (sm_assign k v m) = (map_of m)(k \<mapsto> v)"
  by (induction k v m rule: sm_assign.induct) (auto simp: sm_ok_Cons fun_eq_iff)

lemma map_of_sm_erase [sm_simps]: "map_of (sm_erase k m) = (map_of m)(k := None)"
  by (induction m) (auto simp: sm_erase_def fun_eq_iff)

lemma map_of_filter_keys:
  "map_of (filter (\<lambda>p. P (fst p)) m) k = (if P k then map_of m k else None)"
  by (induction m) auto

lemma sm_insert_present: "sm_ok m \<Longrightarrow> map_of m k \<noteq> None \<Longrightarrow> sm_insert k v m = m"
proof (induction k v m rule: sm_insert.induct)
  case (2 k v k' v' m)
  then show ?case
    by (auto simp: sm_ok_Cons split: if_splits)
      (metis map_of_less_None order.strict_trans option.distinct(1))
qed simp

lemma length_sm_insert_absent: "map_of m k = None \<Longrightarrow> length (sm_insert k v m) = Suc (length m)"
  by (induction k v m rule: sm_insert.induct) (auto split: if_splits)

section \<open>Low bits\<close>

text \<open>
  The directory of the page table is indexed by the low bits of a hash value. \<open>take_bit n x\<close>
  is the value of the low \<open>n\<close> bits.
\<close>

lemma take_bit_Suc_split:
  fixes x :: nat
  shows "take_bit (Suc n) x = take_bit n x + (if bit x n then 2 ^ n else 0)"
  by (simp add: take_bit_Suc_from_most of_bool_def)

lemma take_bit_eq_mono:
  fixes x y :: nat
  assumes "take_bit n x = take_bit n y" and "m \<le> n"
  shows "take_bit m x = take_bit m y"
proof -
  have "take_bit m (take_bit n x) = take_bit m (take_bit n y)"
    using assms(1) by simp
  then show ?thesis
    using assms(2) by (simp add: min_absorb1)
qed

lemma take_bit_Suc_eq_iff:
  fixes x y :: nat
  shows "take_bit (Suc n) x = take_bit (Suc n) y \<longleftrightarrow>
    take_bit n x = take_bit n y \<and> (bit x n \<longleftrightarrow> bit y n)"
proof
  assume e: "take_bit (Suc n) x = take_bit (Suc n) y"
  have "take_bit n x = take_bit n y"
    using e by (rule take_bit_eq_mono) simp
  with e show "take_bit n x = take_bit n y \<and> (bit x n \<longleftrightarrow> bit y n)"
    by (auto simp: take_bit_Suc_split split: if_splits)
qed (simp add: take_bit_Suc_split)

lemma and_exp_neq_0_iff:
  fixes x :: nat
  shows "x AND 2 ^ n \<noteq> 0 \<longleftrightarrow> bit x n"
  by (auto simp: and_exp_eq_0_iff_not_bit)

lemma word_and_exp_neq_0_iff:
  fixes w :: "'a::len word"
  shows "w AND 2 ^ n \<noteq> 0 \<longleftrightarrow> bit w n"
  by (auto simp: and_exp_eq_0_iff_not_bit)

lemma unat_and_low_mask:
  fixes w :: "'a::len word"
  shows "unat (w AND (2 ^ n - 1)) = take_bit n (unat w)"
proof -
  have "w AND (2 ^ n - 1) = take_bit n w"
    by (simp add: take_bit_eq_mask mask_eq_exp_minus_1)
  then show ?thesis
    by (simp add: unsigned_take_bit_eq)
qed

end
