(* ===== verification/Extendible_Hash.thy ===== *)
theory Extendible_Hash
  imports Scudb_Prelude
begin

text \<open>
  The in-memory hash table of \<^verbatim>\<open>hash/extendible_hash.h\<close> and \<^verbatim>\<open>hash/extendible_hash.cpp\<close>, the page
  table of the buffer pool.

  A \<^verbatim>\<open>shared_ptr<sBucket>\<close> is an index into \<open>store\<close>, so that two directory entries can share
  one bucket, as they do in the code: the directory \<open>mBuckets\<close> is a list of such indices. The
  function \<^verbatim>\<open>std::hash<K>\<close> is the argument \<open>h\<close> of every operation that calls \<^verbatim>\<open>HashKey\<close>.
  The latches only serialise the operations and are not part of the state.
\<close>

section \<open>State\<close>

record ('k, 'v) sBucket =
  localDepth :: nat
  dataMap :: "('k \<times> 'v) list"

record ('k, 'v) ExtendibleHash =
  mBuckets :: "nat list"
  store :: "('k, 'v) sBucket list"
  mGlobalDepth :: nat
  mBucketSize :: nat
  mBucketNum :: nat

section \<open>Operations\<close>

definition eh_init :: "nat \<Rightarrow> ('k, 'v) ExtendibleHash" where
  "eh_init sz =
     \<lparr>mBuckets = [0], store = [\<lparr>localDepth = 0, dataMap = []\<rparr>],
      mGlobalDepth = 0, mBucketSize = sz, mBucketNum = 1\<rparr>"

text \<open>
  The constructor without arguments calls \<^verbatim>\<open>ExtendibleHash(64)\<close>, which builds another table and
  discards it: the object itself gets an empty directory, and its numbers are what the memory
  \<open>raw\<close> holds.
\<close>

definition eh_default :: "('k, 'v) ExtendibleHash \<Rightarrow> ('k, 'v) ExtendibleHash" where
  "eh_default raw =
     (let temporary = eh_init 64 :: ('k, 'v) ExtendibleHash
      in raw\<lparr>mBuckets := [], store := []\<rparr>)"

text \<open>The expression \<^verbatim>\<open>1 << n\<close> on \<^verbatim>\<open>int\<close>, which is defined up to \<open>n = 30\<close>.\<close>

definition shl1 :: "nat \<Rightarrow> 64 word res" where
  "shl1 n = (if n < 31 then ok (push_bit n 1) else fail Undefined_Behaviour)"

definition eh_HashKey :: "('k \<Rightarrow> 64 word) \<Rightarrow> 'k \<Rightarrow> 64 word" where
  "eh_HashKey h key = h key"

definition eh_GetGlobalDepth :: "('k, 'v) ExtendibleHash \<Rightarrow> nat" where
  "eh_GetGlobalDepth t = mGlobalDepth t"

definition eh_GetLocalDepth :: "('k, 'v) ExtendibleHash \<Rightarrow> nat \<Rightarrow> int res" where
  "eh_GetLocalDepth t bucket_id =
     bindE (nth_res (mBuckets t) bucket_id) (\<lambda>p.
     bindE (nth_res (store t) p) (\<lambda>b.
       ok (if length (dataMap b) = 0 then - 1 else int (localDepth b))))"

definition eh_GetNumBuckets :: "('k, 'v) ExtendibleHash \<Rightarrow> nat" where
  "eh_GetNumBuckets t = mBucketNum t"

definition eh_getBucketIndex ::
  "('k \<Rightarrow> 64 word) \<Rightarrow> ('k, 'v) ExtendibleHash \<Rightarrow> 'k \<Rightarrow> nat res" where
  "eh_getBucketIndex h t key =
     bindE (shl1 (mGlobalDepth t)) (\<lambda>m. ok (unat (eh_HashKey h key AND (m - 1))))"

definition eh_Find ::
  "('k \<Rightarrow> 64 word) \<Rightarrow> ('k, 'v) ExtendibleHash \<Rightarrow> 'k \<Rightarrow> 'v option res" where
  "eh_Find h t key =
     bindE (eh_getBucketIndex h t key) (\<lambda>index.
     bindE (nth_res (mBuckets t) index) (\<lambda>p.
     bindE (nth_res (store t) p) (\<lambda>b.
       ok (map_of (dataMap b) key))))"

definition eh_Remove ::
  "('k \<Rightarrow> 64 word) \<Rightarrow> ('k, 'v) ExtendibleHash \<Rightarrow> 'k \<Rightarrow> (bool \<times> ('k, 'v) ExtendibleHash) res" where
  "eh_Remove h t key =
     bindE (eh_getBucketIndex h t key) (\<lambda>index.
     bindE (nth_res (mBuckets t) index) (\<lambda>p.
     bindE (nth_res (store t) p) (\<lambda>b.
       if map_of (dataMap b) key = None then ok (False, t)
       else ok (True, t\<lparr>store := (store t)[p := b\<lparr>dataMap := sm_erase key (dataMap b)\<rparr>]\<rparr>))))"

text \<open>
  The overflow branch of \<^verbatim>\<open>Insert\<close>, in the order of the code: the local depth grows, the
  directory is doubled when the local depth passes the global one, the entries of the bucket
  whose hash has the new bit move to a fresh bucket, and the directory entries of the bucket
  whose index has that bit are redirected to it.
\<close>

definition eh_double :: "('k, 'v) ExtendibleHash \<Rightarrow> ('k, 'v) ExtendibleHash" where
  "eh_double t =
     t\<lparr>mBuckets := mBuckets t @ mBuckets t, mGlobalDepth := Suc (mGlobalDepth t)\<rparr>"

fun eh_redistribute ::
  "('k::linorder \<Rightarrow> 64 word) \<Rightarrow> 64 word \<Rightarrow> ('k \<times> 'v) list \<Rightarrow> ('k \<times> 'v) list \<Rightarrow> ('k \<times> 'v) list
     \<Rightarrow> ('k \<times> 'v) list \<times> ('k \<times> 'v) list" where
  "eh_redistribute h msk [] kept new = (kept, new)"
| "eh_redistribute h msk ((k, v) # it) kept new =
     (if eh_HashKey h k AND msk \<noteq> 0 then eh_redistribute h msk it kept (sm_assign k v new)
      else eh_redistribute h msk it (kept @ [(k, v)]) new)"

definition eh_relink ::
  "('k::linorder \<Rightarrow> 64 word) \<Rightarrow> nat \<Rightarrow> ('k, 'v) sBucket \<Rightarrow> 64 word \<Rightarrow> ('k, 'v) ExtendibleHash
     \<Rightarrow> ('k, 'v) ExtendibleHash" where
  "eh_relink h cur b msk t =
     (let depth = Suc (localDepth b);
          (kept, new) = eh_redistribute h msk (dataMap b) [] [];
          newBuc = length (store t)
      in t\<lparr>mBucketNum := Suc (mBucketNum t),
           store := (store t)[cur := \<lparr>localDepth = depth, dataMap = kept\<rparr>]
             @ [\<lparr>localDepth = depth, dataMap = new\<rparr>],
           mBuckets := map (\<lambda>i. if mBuckets t ! i = cur \<and> i AND unat msk \<noteq> 0 then newBuc
                               else mBuckets t ! i) [0..<length (mBuckets t)]\<rparr>)"

definition eh_split ::
  "('k::linorder \<Rightarrow> 64 word) \<Rightarrow> nat \<Rightarrow> ('k, 'v) sBucket \<Rightarrow> ('k, 'v) ExtendibleHash
     \<Rightarrow> ('k, 'v) ExtendibleHash res" where
  "eh_split h cur b t =
     bindE (shl1 (localDepth b)) (\<lambda>msk.
       ok (eh_relink h cur b msk
             (if Suc (localDepth b) > mGlobalDepth t then eh_double t else t)))"

text \<open>
  The loop of \<^verbatim>\<open>Insert\<close>. Each round that does not stop raises the depth of the bucket of the
  key, and a shift by 31 is undefined, so 32 rounds are enough
  (\<open>eh_Insert_loop_enough_fuel\<close> below).
\<close>

fun eh_Insert_loop ::
  "('k::linorder \<Rightarrow> 64 word) \<Rightarrow> nat \<Rightarrow> 'k \<Rightarrow> 'v \<Rightarrow> nat \<Rightarrow> ('k, 'v) ExtendibleHash
     \<Rightarrow> ('k, 'v) ExtendibleHash res" where
  "eh_Insert_loop h 0 key v cur t = fail Out_Of_Fuel"
| "eh_Insert_loop h (Suc fuel) key v cur t =
     bindE (nth_res (store t) cur) (\<lambda>b.
       if map_of (dataMap b) key \<noteq> None \<or> length (dataMap b) < mBucketSize t
       then ok (t\<lparr>store := (store t)[cur := b\<lparr>dataMap := sm_insert key v (dataMap b)\<rparr>]\<rparr>)
       else
         bindE (eh_split h cur b t) (\<lambda>t'.
         bindE (eh_getBucketIndex h t' key) (\<lambda>index.
         bindE (nth_res (mBuckets t') index) (\<lambda>cur'.
           eh_Insert_loop h fuel key v cur' t'))))"

definition eh_Insert ::
  "('k::linorder \<Rightarrow> 64 word) \<Rightarrow> ('k, 'v) ExtendibleHash \<Rightarrow> 'k \<Rightarrow> 'v
     \<Rightarrow> ('k, 'v) ExtendibleHash res" where
  "eh_Insert h t key v =
     bindE (eh_getBucketIndex h t key) (\<lambda>index.
     bindE (nth_res (mBuckets t) index) (\<lambda>cur.
       eh_Insert_loop h 32 key v cur t))"

text \<open>No operation on a table of the constructor without arguments is defined.\<close>

lemma eh_default_unusable:
  "isl (eh_Find h (eh_default raw) key)"
  "isl (eh_Insert h (eh_default raw) key v)"
  "isl (eh_Remove h (eh_default raw) key)"
  by (simp_all add: eh_default_def eh_Find_def eh_Insert_def eh_Remove_def eh_getBucketIndex_def shl1_def nth_res_def)

section \<open>Invariant and abstraction\<close>

abbreviation bucket_at :: "('k, 'v) ExtendibleHash \<Rightarrow> nat \<Rightarrow> ('k, 'v) sBucket" where
  "bucket_at t i \<equiv> store t ! (mBuckets t ! i)"

abbreviation hbits :: "('k \<Rightarrow> 64 word) \<Rightarrow> nat \<Rightarrow> 'k \<Rightarrow> nat" where
  "hbits h n k \<equiv> take_bit n (unat (h k))"

text \<open>
  A slot of the directory is well placed when the bucket it names exists, is no deeper than the
  directory, is shared by exactly the slots that agree with it on the bucket's local depth, and
  holds only keys that agree with it there.
\<close>

definition slot_ok :: "('k::linorder \<Rightarrow> 64 word) \<Rightarrow> ('k, 'v) ExtendibleHash \<Rightarrow> nat \<Rightarrow> bool" where
  "slot_ok h t i \<longleftrightarrow>
     mBuckets t ! i < length (store t) \<and>
     localDepth (bucket_at t i) \<le> mGlobalDepth t \<and>
     (\<forall>j < 2 ^ mGlobalDepth t. mBuckets t ! j = mBuckets t ! i \<longleftrightarrow>
        take_bit (localDepth (bucket_at t i)) j = take_bit (localDepth (bucket_at t i)) i) \<and>
     (\<forall>p \<in> set (dataMap (bucket_at t i)).
        hbits h (localDepth (bucket_at t i)) (fst p) = take_bit (localDepth (bucket_at t i)) i) \<and>
     sm_ok (dataMap (bucket_at t i)) \<and>
     length (dataMap (bucket_at t i)) \<le> mBucketSize t"

definition eh_inv :: "('k::linorder \<Rightarrow> 64 word) \<Rightarrow> ('k, 'v) ExtendibleHash \<Rightarrow> bool" where
  "eh_inv h t \<longleftrightarrow>
     length (mBuckets t) = 2 ^ mGlobalDepth t \<and>
     (\<forall>i < 2 ^ mGlobalDepth t. slot_ok h t i) \<and>
     mBucketNum t = length (store t) \<and>
     set (mBuckets t) = {..<length (store t)}"

definition eh_ok :: "('k::linorder \<Rightarrow> 64 word) \<Rightarrow> ('k, 'v) ExtendibleHash \<Rightarrow> bool" where
  "eh_ok h t \<longleftrightarrow> eh_inv h t \<and> mGlobalDepth t < 31"

definition eh_lookup :: "('k \<Rightarrow> 64 word) \<Rightarrow> ('k, 'v) ExtendibleHash \<Rightarrow> 'k \<Rightarrow> 'v option" where
  "eh_lookup h t k = map_of (dataMap (bucket_at t (hbits h (mGlobalDepth t) k))) k"

section \<open>Lemmas\<close>

lemma eh_getBucketIndex_eq:
  "mGlobalDepth t < 31 \<Longrightarrow> eh_getBucketIndex h t k = Inr (hbits h (mGlobalDepth t) k)"
  by (simp add: eh_getBucketIndex_def shl1_def eh_HashKey_def unat_and_low_mask)

lemma eh_getBucketIndex_Inr:
  "eh_getBucketIndex h t k = Inr i \<Longrightarrow> mGlobalDepth t < 31 \<and> i = hbits h (mGlobalDepth t) k"
  by (auto simp: eh_getBucketIndex_def shl1_def eh_HashKey_def unat_and_low_mask split: if_splits)

lemma take_bit_less_exp [simp]: "take_bit n (x::nat) < 2 ^ n"
  by (rule take_bit_nat_less_exp)

lemma slot_okD:
  assumes "slot_ok h t i"
  shows slot_store: "mBuckets t ! i < length (store t)"
    and slot_depth: "localDepth (bucket_at t i) \<le> mGlobalDepth t"
    and slot_share: "j < 2 ^ mGlobalDepth t \<Longrightarrow> mBuckets t ! j = mBuckets t ! i \<longleftrightarrow>
        take_bit (localDepth (bucket_at t i)) j = take_bit (localDepth (bucket_at t i)) i"
    and slot_keys: "p \<in> set (dataMap (bucket_at t i)) \<Longrightarrow>
        hbits h (localDepth (bucket_at t i)) (fst p) = take_bit (localDepth (bucket_at t i)) i"
    and slot_sm: "sm_ok (dataMap (bucket_at t i))"
    and slot_size: "length (dataMap (bucket_at t i)) \<le> mBucketSize t"
  using assms by (auto simp: slot_ok_def)

lemma eh_invD:
  assumes "eh_inv h t"
  shows inv_length: "length (mBuckets t) = 2 ^ mGlobalDepth t"
    and inv_slot: "i < 2 ^ mGlobalDepth t \<Longrightarrow> slot_ok h t i"
    and inv_num: "mBucketNum t = length (store t)"
    and inv_cover: "set (mBuckets t) = {..<length (store t)}"
  using assms by (auto simp: eh_inv_def)

lemma inv_slot_key: "eh_inv h t \<Longrightarrow> slot_ok h t (hbits h (mGlobalDepth t) k)"
  by (simp add: inv_slot)

subsection \<open>Doubling the directory\<close>

lemma nth_double:
  assumes "length xs = 2 ^ n" and "i < 2 ^ Suc n"
  shows "(xs @ xs) ! i = xs ! take_bit n i"
proof (cases "i < 2 ^ n")
  case True
  then show ?thesis
    using assms by (simp add: nth_append take_bit_nat_eq_self)
next
  case False
  then have "take_bit n i = i - 2 ^ n"
    using assms(2) by (simp add: take_bit_eq_mod mod_if)
  then show ?thesis
    using assms(1) False by (simp add: nth_append)
qed

lemma eh_double_slot:
  assumes "eh_inv h t" and "i < 2 ^ Suc (mGlobalDepth t)"
  shows "slot_ok h (eh_double t) i"
proof -
  let ?g = "mGlobalDepth t"
  let ?i = "take_bit ?g i"
  have nth: "(mBuckets t @ mBuckets t) ! j = mBuckets t ! take_bit ?g j" if "j < 2 ^ Suc ?g" for j
    using nth_double [OF inv_length [OF assms(1)] that] .
  have s: "slot_ok h t ?i"
    using assms(1) by (simp add: inv_slot)
  have low: "take_bit (localDepth (bucket_at t ?i)) (take_bit ?g j)
      = take_bit (localDepth (bucket_at t ?i)) j" for j :: nat
    using slot_depth [OF s] by (simp add: min_absorb1)
  have share: "mBuckets t ! take_bit ?g j = mBuckets t ! ?i \<longleftrightarrow>
      take_bit (localDepth (bucket_at t ?i)) j = take_bit (localDepth (bucket_at t ?i)) i" for j
    using slot_share [OF s, of "take_bit ?g j"] low by simp
  show ?thesis
    unfolding slot_ok_def eh_double_def
    using s nth [OF assms(2)] nth share low slot_depth [OF s] slot_keys [OF s]
    by (simp add: slot_ok_def)
qed

lemma eh_double_inv: "eh_inv h t \<Longrightarrow> eh_inv h (eh_double t)"
  using eh_double_slot [of h t]
  by (auto simp: eh_inv_def) (auto simp: eh_double_def)

lemma eh_double_lookup:
  assumes "eh_inv h t"
  shows "eh_lookup h (eh_double t) = eh_lookup h t"
proof
  fix k
  have "(mBuckets t @ mBuckets t) ! hbits h (Suc (mGlobalDepth t)) k =
      mBuckets t ! hbits h (mGlobalDepth t) k"
    by (subst nth_double [OF inv_length [OF assms]])
      (simp_all only: take_bit_less_exp take_bit_take_bit min.absorb1 le_SucI order.refl)
  then show "eh_lookup h (eh_double t) k = eh_lookup h t k"
    by (simp add: eh_lookup_def eh_double_def)
qed

subsection \<open>Splitting a bucket\<close>

lemma sm_assign_last:
  "\<forall>p \<in> set m. fst p < k \<Longrightarrow> sm_assign (k::'k::linorder) v m = m @ [(k, v)]"
  by (induction m) auto

text \<open>The scan of the full bucket separates its entries by the new bit of their hash.\<close>

lemma eh_redistribute_eq:
  assumes "sm_ok m" and "\<forall>q \<in> set new. \<forall>p \<in> set m. fst q < fst p"
  shows "eh_redistribute h msk m kept new =
    (kept @ filter (\<lambda>p. h (fst p) AND msk = 0) m, new @ filter (\<lambda>p. h (fst p) AND msk \<noteq> 0) m)"
  using assms
proof (induction h msk m kept new rule: eh_redistribute.induct)
  case (2 h msk k v it kept new)
  show ?case
  proof (cases "h k AND msk = 0")
    case True
    with 2 show ?thesis by (simp add: eh_HashKey_def sm_ok_Cons)
  next
    case False
    have "sm_assign k v new = new @ [(k, v)]"
      using "2.prems"(2) by (intro sm_assign_last) auto
    with False 2 show ?thesis by (auto simp: eh_HashKey_def sm_ok_Cons)
  qed
qed simp

lemma unat_exp_31:
  assumes "n < 31"
  shows "unat (2 ^ n :: 64 word) = 2 ^ n"
proof -
  have "(2::nat) ^ n < 2 ^ 64"
    using assms by (intro power_strict_increasing) auto
  moreover have "(2 ^ n :: 64 word) = word_of_nat (2 ^ n)"
    by simp
  ultimately show ?thesis
    using assms by (simp only: unsigned_of_nat) (simp add: take_bit_nat_eq_self)
qed

lemma bit_hash: "bit (h k :: 64 word) n \<longleftrightarrow> bit (unat (h k)) n"
  by (simp add: bit_unsigned_iff)

text \<open>The situation in which the entries of a full bucket \<open>b\<close>, stored at \<open>cur\<close>, are divided.\<close>

definition split_pre ::
  "('k::linorder \<Rightarrow> 64 word) \<Rightarrow> ('k, 'v) ExtendibleHash \<Rightarrow> nat \<Rightarrow> ('k, 'v) sBucket \<Rightarrow> nat
     \<Rightarrow> ('k, 'v) ExtendibleHash \<Rightarrow> bool" where
  "split_pre h t cur b d t' \<longleftrightarrow>
     eh_inv h t \<and> cur < length (store t) \<and> b = store t ! cur \<and> d = localDepth b \<and> d < 31 \<and>
     d < mGlobalDepth t \<and> t' = eh_relink h cur b (2 ^ d) t"

lemma split_preD:
  assumes "split_pre h t cur b d t'"
  shows split_inv: "eh_inv h t" and split_cur: "cur < length (store t)"
    and split_b: "b = store t ! cur" and split_d: "d = localDepth b" and split_31: "d < 31"
    and split_dg: "d < mGlobalDepth t" and split_t': "t' = eh_relink h cur b (2 ^ d) t"
  using assms by (auto simp: split_pre_def)

lemma split_slot: "split_pre h t cur b d t' \<Longrightarrow> i < 2 ^ mGlobalDepth t \<Longrightarrow> slot_ok h t i"
  by (simp add: inv_slot split_inv)

lemma split_cur_ex:
  assumes "split_pre h t cur b d t'"
  shows "\<exists>i < 2 ^ mGlobalDepth t. mBuckets t ! i = cur"
  using inv_cover [OF split_inv [OF assms]] inv_length [OF split_inv [OF assms]] split_cur [OF assms]
  by (metis in_set_conv_nth lessThan_iff)

lemma split_sm: "split_pre h t cur b d t' \<Longrightarrow> sm_ok (dataMap b)"
  by (metis split_cur_ex split_slot slot_sm split_b)

lemma split_parts:
  assumes "split_pre h t cur b d t'"
  shows "eh_redistribute h (2 ^ d) (dataMap b) [] [] =
    (filter (\<lambda>p. \<not> bit (unat (h (fst p))) d) (dataMap b),
     filter (\<lambda>p. bit (unat (h (fst p))) d) (dataMap b))"
  using eh_redistribute_eq [OF split_sm [OF assms], of "[]" h "2 ^ d" "[]"]
  by (simp add: and_exp_eq_0_iff_not_bit bit_hash)

lemma split_fields:
  assumes "split_pre h t cur b d t'"
  shows split_store: "store t' = (store t)[cur := \<lparr>localDepth = Suc d,
         dataMap = filter (\<lambda>p. \<not> bit (unat (h (fst p))) d) (dataMap b)\<rparr>]
       @ [\<lparr>localDepth = Suc d, dataMap = filter (\<lambda>p. bit (unat (h (fst p))) d) (dataMap b)\<rparr>]"
    and split_global: "mGlobalDepth t' = mGlobalDepth t"
    and split_size: "mBucketSize t' = mBucketSize t"
    and split_num: "mBucketNum t' = Suc (mBucketNum t)"
    and split_length: "length (mBuckets t') = length (mBuckets t)"
  unfolding split_t' [OF assms] eh_relink_def
  using split_parts [OF assms] split_d [OF assms] by (simp_all add: Let_def)

lemma split_dir:
  assumes "split_pre h t cur b d t'" and "i < 2 ^ mGlobalDepth t"
  shows "mBuckets t' ! i =
    (if mBuckets t ! i = cur \<and> bit i d then length (store t) else mBuckets t ! i)"
  unfolding split_t' [OF assms(1)] eh_relink_def
  using split_parts [OF assms(1)] split_d [OF assms(1)] split_31 [OF assms(1)]
    inv_length [OF split_inv [OF assms(1)]] assms(2)
  by (simp add: Let_def unat_exp_31 and_exp_eq_0_iff_not_bit)

lemma split_old_less:
  "split_pre h t cur b d t' \<Longrightarrow> i < 2 ^ mGlobalDepth t \<Longrightarrow> mBuckets t ! i < length (store t)"
  by (rule slot_store [OF split_slot])

lemma split_bucket_other:
  "split_pre h t cur b d t' \<Longrightarrow> i < 2 ^ mGlobalDepth t \<Longrightarrow> mBuckets t ! i \<noteq> cur \<Longrightarrow>
     bucket_at t' i = bucket_at t i"
  using split_old_less [of h t cur b d t' i]
  by (simp add: split_dir split_store nth_append)

lemma split_bucket_cur:
  "split_pre h t cur b d t' \<Longrightarrow> i < 2 ^ mGlobalDepth t \<Longrightarrow> mBuckets t ! i = cur \<Longrightarrow>
    bucket_at t' i = \<lparr>localDepth = Suc d,
      dataMap = filter (\<lambda>p. bit (unat (h (fst p))) d \<longleftrightarrow> bit i d) (dataMap b)\<rparr>"
  using split_cur [of h t cur b d t'] by (auto simp: split_dir split_store nth_append)

lemma split_share_cur:
  assumes "split_pre h t cur b d t'" "i < 2 ^ mGlobalDepth t" "mBuckets t ! i = cur"
    "j < 2 ^ mGlobalDepth t"
  shows "mBuckets t ! j = cur \<longleftrightarrow> take_bit d j = take_bit d i"
  using slot_share [OF split_slot [OF assms(1,2)] assms(4)] assms(3)
    split_b [OF assms(1)] split_d [OF assms(1)] by simp

lemma split_share_new:
  assumes "split_pre h t cur b d t'" "i < 2 ^ mGlobalDepth t" "mBuckets t ! i = cur"
    "j < 2 ^ mGlobalDepth t"
  shows "mBuckets t' ! j = mBuckets t' ! i \<longleftrightarrow> take_bit (Suc d) j = take_bit (Suc d) i"
  using assms split_share_cur [OF assms] split_old_less [OF assms(1,4)] split_cur [OF assms(1)]
  by (auto simp: split_dir take_bit_Suc_eq_iff)

lemma split_share_old:
  assumes "split_pre h t cur b d t'" "i < 2 ^ mGlobalDepth t" "mBuckets t ! i \<noteq> cur"
    "j < 2 ^ mGlobalDepth t"
  shows "mBuckets t' ! j = mBuckets t' ! i \<longleftrightarrow> mBuckets t ! j = mBuckets t ! i"
  using assms split_old_less [OF assms(1,2)] by (auto simp: split_dir)

lemma split_slot_new:
  assumes p: "split_pre h t cur b d t'" and i: "i < 2 ^ mGlobalDepth t"
  shows "slot_ok h t' i"
proof (cases "mBuckets t ! i = cur")
  case True
  have s: "slot_ok h t i" using p i by (rule split_slot)
  have lt: "mBuckets t' ! i < length (store t')"
    using i split_old_less [OF p i] split_cur [OF p] by (auto simp: split_dir [OF p] split_store [OF p])
  have keys: "hbits h (Suc d) (fst q) = take_bit (Suc d) i"
    if "q \<in> set (dataMap b)" "bit (unat (h (fst q))) d \<longleftrightarrow> bit i d" for q
    using slot_keys [OF s, of q] that True split_b [OF p] split_d [OF p]
    by (simp add: take_bit_Suc_eq_iff)
  have size: "length (filter P (dataMap b)) \<le> mBucketSize t" for P
    using slot_size [OF s] True split_b [OF p] by (metis length_filter_le order.trans)
  show ?thesis
    unfolding slot_ok_def split_bucket_cur [OF p i True] split_global [OF p] split_size [OF p]
    using lt split_dg [OF p] keys size split_share_new [OF p i True] split_sm [OF p]
    by (auto simp: sm_ok_filter)
next
  case False
  have s: "slot_ok h t i" using p i by (rule split_slot)
  have lt: "mBuckets t' ! i < length (store t')"
    using i False split_old_less [OF p i] by (auto simp: split_dir [OF p] split_store [OF p])
  show ?thesis
    unfolding slot_ok_def split_bucket_other [OF p i False] split_global [OF p] split_size [OF p]
    using lt s split_share_old [OF p i False] by (auto simp: slot_ok_def)
qed

lemma split_cover:
  assumes p: "split_pre h t cur b d t'"
  shows "set (mBuckets t') = {..<length (store t')}"
proof -
  let ?g = "mGlobalDepth t"
  obtain i where i: "i < 2 ^ ?g" "mBuckets t ! i = cur"
    using split_cur_ex [OF p] by blast
  have lower: "take_bit d i < 2 ^ ?g"
    using split_dg [OF p] take_bit_less_exp [of d i]
    by (meson less_imp_le order.strict_trans2 power_increasing one_le_numeral)
  have upper: "take_bit d i + 2 ^ d < 2 ^ ?g"
  proof -
    have "(2::nat) ^ Suc d \<le> 2 ^ ?g"
      using split_dg [OF p] by (intro power_increasing) auto
    then have "2 ^ d + (2::nat) ^ d \<le> 2 ^ ?g"
      by simp
    then show ?thesis
      using take_bit_less_exp [of d i] by linarith
  qed
  have "(take_bit d i + 2 ^ d) div 2 ^ d = 1"
    by (simp add: div_add_self2 take_bit_eq_mod)
  then have bits: "\<not> bit (take_bit d i) d" "bit (take_bit d i + 2 ^ d) d"
    "take_bit d (take_bit d i + 2 ^ d) = take_bit d i"
    by (simp_all add: bit_take_bit_iff bit_iff_odd) (simp add: take_bit_eq_mod)
  have "mBuckets t ! take_bit d i = cur" "mBuckets t ! (take_bit d i + 2 ^ d) = cur"
    using split_share_cur [OF p i] lower upper bits by simp_all
  then have "mBuckets t' ! take_bit d i = cur"
    "mBuckets t' ! (take_bit d i + 2 ^ d) = length (store t)"
    using split_dir [OF p] lower upper bits by simp_all
  then have new: "cur \<in> set (mBuckets t')" "length (store t) \<in> set (mBuckets t')"
    using lower upper inv_length [OF split_inv [OF p]] split_length [OF p]
    by (metis nth_mem)+
  have "x \<in> set (mBuckets t')" if "x < length (store t)" for x
  proof (cases "x = cur")
    case False
    from that inv_cover [OF split_inv [OF p]] obtain j where
      "j < 2 ^ ?g" "mBuckets t ! j = x"
      using inv_length [OF split_inv [OF p]] by (metis in_set_conv_nth lessThan_iff)
    with False split_dir [OF p, of j] inv_length [OF split_inv [OF p]] split_length [OF p]
    show ?thesis by (metis nth_mem)
  qed (use new in simp)
  moreover have "x < length (store t')" if "x \<in> set (mBuckets t')" for x
    using that split_slot_new [OF p, THEN slot_store] inv_length [OF split_inv [OF p]]
      split_length [OF p] split_global [OF p]
    by (metis in_set_conv_nth)
  ultimately show ?thesis
    using new by (auto simp: split_store [OF p] less_Suc_eq)
qed

lemma split_inv_new: "split_pre h t cur b d t' \<Longrightarrow> eh_inv h t'"
  unfolding eh_inv_def
  using split_length [of h t cur b d t'] split_global [of h t cur b d t']
    split_slot_new [of h t cur b d t'] split_cover [of h t cur b d t']
    inv_length [OF split_inv [of h t cur b d t']] inv_num [OF split_inv [of h t cur b d t']]
  by (simp add: split_num split_store)

lemma split_lookup:
  assumes p: "split_pre h t cur b d t'"
  shows "eh_lookup h t' = eh_lookup h t"
proof
  fix k
  let ?i = "hbits h (mGlobalDepth t) k"
  have i: "?i < 2 ^ mGlobalDepth t" by simp
  show "eh_lookup h t' k = eh_lookup h t k"
  proof (cases "mBuckets t ! ?i = cur")
    case True
    have "bit (unat (h k)) d \<longleftrightarrow> bit ?i d"
      using split_dg [OF p] by (simp add: bit_take_bit_iff)
    then show ?thesis
      using split_bucket_cur [OF p i True] True split_b [OF p]
      by (simp add: eh_lookup_def split_global [OF p]
          map_of_filter_keys [where P = "\<lambda>k'. bit (unat (h k')) d \<longleftrightarrow> bit ?i d"])
  next
    case False
    then show ?thesis
      using split_bucket_other [OF p i False] by (simp add: eh_lookup_def split_global [OF p])
  qed
qed

lemma split_depth:
  assumes p: "split_pre h t cur b d t'" and "mBuckets t ! hbits h (mGlobalDepth t) k = cur"
  shows "localDepth (bucket_at t' (hbits h (mGlobalDepth t') k)) = Suc d"
  using split_bucket_cur [OF p _ assms(2)] by (simp add: split_global [OF p])

lemma split_pre_double:
  assumes inv: "eh_inv h t" and cur: "cur < length (store t)" and "localDepth (store t ! cur) < 31"
  defines "t0 \<equiv> if Suc (localDepth (store t ! cur)) > mGlobalDepth t then eh_double t else t"
  shows "split_pre h t0 cur (store t ! cur) (localDepth (store t ! cur))
    (eh_relink h cur (store t ! cur) (2 ^ localDepth (store t ! cur)) t0)"
proof -
  obtain i where i: "i < 2 ^ mGlobalDepth t" "mBuckets t ! i = cur"
    using inv_cover [OF inv] inv_length [OF inv] cur by (metis in_set_conv_nth lessThan_iff)
  have "localDepth (store t ! cur) \<le> mGlobalDepth t"
    using slot_depth [OF inv_slot [OF inv i(1)]] i(2) by simp
  then show ?thesis
    using assms eh_double_inv [OF inv] by (auto simp: split_pre_def t0_def eh_double_def)
qed

subsection \<open>One split of the loop\<close>

lemma eh_split_step:
  assumes inv: "eh_inv h t" and cur: "mBuckets t ! hbits h (mGlobalDepth t) k = cur"
    and "b = store t ! cur" and split: "eh_split h cur b t = Inr t'"
  shows "eh_inv h t'" and "eh_lookup h t' = eh_lookup h t" and "mBucketSize t' = mBucketSize t"
    and "localDepth (bucket_at t' (hbits h (mGlobalDepth t') k)) = Suc (localDepth b)"
proof -
  let ?t0 = "if Suc (localDepth b) > mGlobalDepth t then eh_double t else t"
  have lt: "cur < length (store t)"
    using cur slot_store [OF inv_slot_key [OF inv]] by blast
  have d: "localDepth b < 31" and t': "t' = eh_relink h cur b (2 ^ localDepth b) ?t0"
    using split by (auto simp: eh_split_def shl1_def split: if_splits)
  have p: "split_pre h ?t0 cur b (localDepth b) t'"
    using split_pre_double [OF inv lt] d assms(3) t' by simp
  have cur0: "mBuckets ?t0 ! hbits h (mGlobalDepth ?t0) k = cur"
  proof (cases "Suc (localDepth b) > mGlobalDepth t")
    case True
    have "(mBuckets t @ mBuckets t) ! hbits h (Suc (mGlobalDepth t)) k
        = mBuckets t ! take_bit (mGlobalDepth t) (hbits h (Suc (mGlobalDepth t)) k)"
      by (rule nth_double [OF inv_length [OF inv]]) (rule take_bit_less_exp)
    with True cur show ?thesis
      by (simp add: eh_double_def del: take_bit_Suc)
  qed (use cur in simp)
  show "eh_inv h t'" using p by (rule split_inv_new)
  show "eh_lookup h t' = eh_lookup h t"
    using split_lookup [OF p] eh_double_lookup [OF inv] by (simp split: if_splits)
  show "mBucketSize t' = mBucketSize t"
    using split_size [OF p] by (simp add: eh_double_def split: if_splits)
  show "localDepth (bucket_at t' (hbits h (mGlobalDepth t') k)) = Suc (localDepth b)"
    using split_depth [OF p cur0] .
qed

subsection \<open>Replacing the contents of one bucket\<close>

definition eh_put :: "('k, 'v) ExtendibleHash \<Rightarrow> nat \<Rightarrow> ('k \<times> 'v) list \<Rightarrow> ('k, 'v) ExtendibleHash" where
  "eh_put t p m = t\<lparr>store := (store t)[p := (store t ! p)\<lparr>dataMap := m\<rparr>]\<rparr>"

lemma eh_put_fields [simp]:
  "mBuckets (eh_put t p m) = mBuckets t" "mGlobalDepth (eh_put t p m) = mGlobalDepth t"
  "mBucketSize (eh_put t p m) = mBucketSize t" "mBucketNum (eh_put t p m) = mBucketNum t"
  "length (store (eh_put t p m)) = length (store t)"
  by (simp_all add: eh_put_def)

lemma eh_put_bucket:
  "q < length (store t) \<Longrightarrow> store (eh_put t p m) ! q =
     (if q = p then (store t ! p)\<lparr>dataMap := m\<rparr> else store t ! q)"
  by (auto simp: eh_put_def nth_list_update)

lemma eh_put_inv:
  assumes inv: "eh_inv h t" and i: "i < 2 ^ mGlobalDepth t" and p: "p = mBuckets t ! i"
    and m: "sm_ok m" "length m \<le> mBucketSize t"
    and keys: "\<And>q. q \<in> set m \<Longrightarrow>
      hbits h (localDepth (store t ! p)) (fst q) = take_bit (localDepth (store t ! p)) i"
  shows "eh_inv h (eh_put t p m)"
proof -
  have "slot_ok h (eh_put t p m) j" if j: "j < 2 ^ mGlobalDepth t" for j
  proof -
    have s: "slot_ok h t j" using inv j by (rule inv_slot)
    note lt = slot_store [OF s]
    have "take_bit (localDepth (store t ! p)) i = take_bit (localDepth (store t ! p)) j"
      if "mBuckets t ! j = p"
      using slot_share [OF s i] that p by simp
    then show ?thesis
      using s m keys by (auto simp: slot_ok_def eh_put_bucket [OF lt])
  qed
  then show ?thesis
    using inv by (simp add: eh_inv_def)
qed

lemma eh_put_lookup:
  assumes inv: "eh_inv h t" and p: "p = mBuckets t ! hbits h (mGlobalDepth t) k"
    and m: "\<And>k'. k' \<noteq> k \<Longrightarrow> map_of m k' = map_of (dataMap (store t ! p)) k'"
  shows "eh_lookup h (eh_put t p m) = (eh_lookup h t)(k := map_of m k)"
proof
  fix k'
  show "eh_lookup h (eh_put t p m) k' = ((eh_lookup h t)(k := map_of m k)) k'"
    using m [of k'] p slot_store [OF inv_slot_key [OF inv, of k']]
      slot_store [OF inv_slot_key [OF inv, of k]]
    by (cases "k' = k") (auto simp: eh_lookup_def eh_put_bucket)
qed

lemma slot_key_bits:
  "eh_inv h t \<Longrightarrow> b = bucket_at t (hbits h (mGlobalDepth t) k) \<Longrightarrow>
     take_bit (localDepth b) (hbits h (mGlobalDepth t) k) = hbits h (localDepth b) k"
  using slot_depth [OF inv_slot_key, of h t k] by (simp add: min_absorb1)

subsection \<open>The insertion loop\<close>

definition map_insert_new :: "('k \<Rightarrow> 'v option) \<Rightarrow> 'k \<Rightarrow> 'v \<Rightarrow> 'k \<Rightarrow> 'v option" where
  "map_insert_new f k v = (if f k = None then f(k \<mapsto> v) else f)"

lemma eh_Insert_here:
  assumes inv: "eh_inv h t" and cur: "cur = mBuckets t ! hbits h (mGlobalDepth t) k"
    and b: "b = store t ! cur"
    and room: "map_of (dataMap b) k \<noteq> None \<or> length (dataMap b) < mBucketSize t"
    and t'_def: "t' = t\<lparr>store := (store t)[cur := b\<lparr>dataMap := sm_insert k v (dataMap b)\<rparr>]\<rparr>"
  shows "eh_inv h t'" and "eh_lookup h t' = map_insert_new (eh_lookup h t) k v"
proof -
  let ?m = "sm_insert k v (dataMap b)"
  note s = inv_slot_key [OF inv, of k]
  have sm: "sm_ok (dataMap b)" using slot_sm [OF s] cur b by simp
  have t': "t' = eh_put t cur ?m" by (simp add: t'_def eh_put_def b)
  have "length ?m \<le> mBucketSize t"
    using room slot_size [OF s] cur b sm
    by (cases "map_of (dataMap b) k") (auto simp: length_sm_insert_absent sm_insert_present)
  moreover have "hbits h (localDepth b) (fst q) =
      take_bit (localDepth b) (hbits h (mGlobalDepth t) k)" if "q \<in> set ?m" for q
    using that set_sm_insert [of k v "dataMap b"] slot_keys [OF s, of q] slot_key_bits [OF inv, of b k]
      cur b by auto
  ultimately show "eh_inv h t'"
    unfolding t' using eh_put_inv [OF inv _ cur] sm b by (simp add: sm_ok_insert)
  have look: "eh_lookup h t k = map_of (dataMap b) k"
    using cur b by (simp add: eh_lookup_def)
  have "eh_lookup h t' = (eh_lookup h t)(k := map_of ?m k)"
    unfolding t' by (rule eh_put_lookup [OF inv cur]) (simp add: b [symmetric] sm map_of_sm_insert)
  then show "eh_lookup h t' = map_insert_new (eh_lookup h t) k v"
    using look sm by (auto simp: map_of_sm_insert map_insert_new_def)
qed

lemma eh_Insert_loop_correct:
  assumes "eh_Insert_loop h fuel k v cur t = Inr t'" and "eh_inv h t" and "mGlobalDepth t < 31"
    and "cur = mBuckets t ! hbits h (mGlobalDepth t) k"
  shows "eh_inv h t' \<and> eh_lookup h t' = map_insert_new (eh_lookup h t) k v \<and>
    mGlobalDepth t' < 31 \<and> mBucketSize t' = mBucketSize t"
  using assms
proof (induction h fuel k v cur t rule: eh_Insert_loop.induct)
  case (2 h fuel k v cur t)
  let ?b = "store t ! cur"
  have lt: "cur < length (store t)"
    using "2.prems"(4) slot_store [OF inv_slot_key [OF "2.prems"(2)]] by blast
  show ?case
  proof (cases "map_of (dataMap ?b) k \<noteq> None \<or> length (dataMap ?b) < mBucketSize t")
    case True
    then have t': "t' = t\<lparr>store := (store t)[cur := ?b\<lparr>dataMap := sm_insert k v (dataMap ?b)\<rparr>]\<rparr>"
      using "2.prems"(1) lt by (auto split: if_splits)
    show ?thesis
      using eh_Insert_here [OF "2.prems"(2,4) refl True t'] "2.prems"(3) t' by simp
  next
    case False
    with "2.prems"(1) lt obtain t1 i cur' where
      split: "eh_split h cur ?b t = Inr t1" and ix: "eh_getBucketIndex h t1 k = Inr i"
      and cur': "nth_res (mBuckets t1) i = Inr cur'"
      and rest: "eh_Insert_loop h fuel k v cur' t1 = Inr t'"
      by (auto simp: bindE_eq_Inr)
    note st = eh_split_step [OF "2.prems"(2) "2.prems"(4) [symmetric] refl split]
    note g = eh_getBucketIndex_Inr [OF ix]
    have "cur' = mBuckets t1 ! hbits h (mGlobalDepth t1) k"
      using cur' g by (auto simp: nth_res_eq_Inr)
    then show ?thesis
      using "2.IH" [OF False rest] st g by simp
  qed
qed simp

text \<open>A round of the loop that splits leaves a deeper bucket, so the loop never runs out.\<close>

lemma eh_Insert_loop_enough_fuel:
  assumes "eh_inv h t" and "mGlobalDepth t < 31" and "cur = mBuckets t ! hbits h (mGlobalDepth t) k"
    and "32 \<le> fuel + localDepth (store t ! cur)"
  shows "eh_Insert_loop h fuel k v cur t \<noteq> Inl Out_Of_Fuel"
  using assms
proof (induction h fuel k v cur t rule: eh_Insert_loop.induct)
  case (1 h k v cur t)
  then show ?case
    using slot_depth [OF inv_slot_key [OF "1.prems"(1), of k]] by simp
next
  case (2 h fuel k v cur t)
  let ?b = "store t ! cur"
  have lt: "cur < length (store t)"
    using "2.prems"(3) slot_store [OF inv_slot_key [OF "2.prems"(1)]] by blast
  show ?case
  proof
    assume out: "eh_Insert_loop h (Suc fuel) k v cur t = Inl Out_Of_Fuel"
    obtain t1 where split: "eh_split h cur ?b t = Inr t1"
      and full: "\<not> (map_of (dataMap ?b) k \<noteq> None \<or> length (dataMap ?b) < mBucketSize t)"
      using out lt by (auto simp: bindE_eq_Inl eh_split_def shl1_def split: if_splits)
    note st = eh_split_step [OF "2.prems"(1) "2.prems"(3) [symmetric] refl split]
    have g: "mGlobalDepth t1 < 31"
      using out lt full split
      by (cases "mGlobalDepth t1 < 31") (auto simp: eh_getBucketIndex_def shl1_def nth_res_def)
    let ?i = "hbits h (mGlobalDepth t1) k"
    have nth: "nth_res (mBuckets t1) ?i = Inr (mBuckets t1 ! ?i)"
      by (simp add: inv_length [OF st(1)])
    have "eh_Insert_loop h fuel k v (mBuckets t1 ! ?i) t1 \<noteq> Inl Out_Of_Fuel"
      using "2.IH" [OF full st(1) g refl] st(4) "2.prems"(4) by simp
    then show False
      using out lt full split g nth by (simp add: eh_getBucketIndex_eq)
  qed
qed

subsection \<open>When an insertion returns\<close>

text \<open>
  Splitting separates keys by the low bits of their hash, and the shifts are defined up to 30
  bits. So there is room for a key when fewer stored keys than a bucket holds agree with it on
  those 30 bits.
\<close>

definition same_class :: "('k \<Rightarrow> 64 word) \<Rightarrow> ('k, 'v) ExtendibleHash \<Rightarrow> 'k \<Rightarrow> 'k set" where
  "same_class h t k = {k'. eh_lookup h t k' \<noteq> None \<and> hbits h 30 k' = hbits h 30 k}"

definition eh_room :: "('k \<Rightarrow> 64 word) \<Rightarrow> ('k, 'v) ExtendibleHash \<Rightarrow> 'k \<Rightarrow> bool" where
  "eh_room h t k \<longleftrightarrow> card (same_class h t k) < mBucketSize t"

lemma finite_stored:
  assumes "eh_inv h t"
  shows "finite {k. eh_lookup h t k \<noteq> None}"
proof (rule finite_subset)
  show "{k. eh_lookup h t k \<noteq> None} \<subseteq> (\<Union>b \<in> set (store t). fst ` set (dataMap b))"
  proof
    fix k assume "k \<in> {k. eh_lookup h t k \<noteq> None}"
    then obtain v where "(k, v) \<in> set (dataMap (bucket_at t (hbits h (mGlobalDepth t) k)))"
      by (auto simp: eh_lookup_def dest: map_of_SomeD)
    then show "k \<in> (\<Union>b \<in> set (store t). fst ` set (dataMap b))"
      using slot_store [OF inv_slot_key [OF assms, of k]] by force
  qed
qed simp

lemma bucket_keys_stored:
  assumes inv: "eh_inv h t" and b: "b = bucket_at t (hbits h (mGlobalDepth t) k)"
    and q: "q \<in> set (dataMap b)"
  shows "eh_lookup h t (fst q) \<noteq> None" and "hbits h (localDepth b) (fst q) = hbits h (localDepth b) k"
proof -
  note s = inv_slot_key [OF inv, of k]
  show same: "hbits h (localDepth b) (fst q) = hbits h (localDepth b) k"
    using slot_keys [OF s] q b slot_key_bits [OF inv b] by simp
  have "take_bit (localDepth b) (hbits h (mGlobalDepth t) (fst q)) = hbits h (localDepth b) (fst q)"
    using slot_depth [OF s] b by (simp add: min_absorb1)
  then have "mBuckets t ! hbits h (mGlobalDepth t) (fst q) = mBuckets t ! hbits h (mGlobalDepth t) k"
    using slot_share [OF s, of "hbits h (mGlobalDepth t) (fst q)"] same b slot_key_bits [OF inv b]
    by simp
  then show "eh_lookup h t (fst q) \<noteq> None"
    using q b by (simp add: eh_lookup_def map_of_eq_None_iff del: not_None_eq)
qed

lemma full_bucket_shallow:
  assumes inv: "eh_inv h t" and b: "b = bucket_at t (hbits h (mGlobalDepth t) k)"
    and room: "eh_room h t k" and full: "\<not> length (dataMap b) < mBucketSize t"
  shows "localDepth b < 30"
proof (rule ccontr)
  assume "\<not> localDepth b < 30"
  then have "hbits h 30 (fst q) = hbits h 30 k" if "q \<in> set (dataMap b)" for q
    using bucket_keys_stored(2) [OF inv b that] by (auto intro: take_bit_eq_mono)
  then have "fst ` set (dataMap b) \<subseteq> same_class h t k"
    using bucket_keys_stored(1) [OF inv b] by (auto simp: same_class_def)
  moreover have "finite (same_class h t k)"
    using finite_stored [OF inv] by (rule rev_finite_subset) (auto simp: same_class_def)
  ultimately have "card (fst ` set (dataMap b)) \<le> card (same_class h t k)"
    by (simp add: card_mono)
  moreover have "card (fst ` set (dataMap b)) = length (dataMap b)"
    using slot_sm [OF inv_slot_key [OF inv, of k]] b
    by (metis distinct_card length_map list.set_map sm_ok_distinct)
  ultimately show False
    using room full by (simp add: eh_room_def)
qed

lemma eh_split_defined:
  "localDepth b < 30 \<Longrightarrow> mGlobalDepth t < 31 \<Longrightarrow> \<exists>t'. eh_split h cur b t = Inr t' \<and> mGlobalDepth t' < 31"
  by (auto simp: eh_split_def shl1_def eh_relink_def eh_double_def Let_def split: prod.splits)

lemma eh_Insert_loop_returns:
  assumes "eh_inv h t" and "mGlobalDepth t < 31" and "cur = mBuckets t ! hbits h (mGlobalDepth t) k"
    and "eh_room h t k" and "32 \<le> fuel + localDepth (store t ! cur)"
  shows "\<exists>t'. eh_Insert_loop h fuel k v cur t = Inr t'"
  using assms
proof (induction h fuel k v cur t rule: eh_Insert_loop.induct)
  case (1 h k v cur t)
  then show ?case
    using slot_depth [OF inv_slot_key [OF "1.prems"(1), of k]] by simp
next
  case (2 h fuel k v cur t)
  let ?b = "store t ! cur"
  have lt: "cur < length (store t)"
    using "2.prems"(3) slot_store [OF inv_slot_key [OF "2.prems"(1)]] by blast
  show ?case
  proof (cases "map_of (dataMap ?b) k \<noteq> None \<or> length (dataMap ?b) < mBucketSize t")
    case False
    then obtain t1 where split: "eh_split h cur ?b t = Inr t1" and g: "mGlobalDepth t1 < 31"
      using full_bucket_shallow [OF "2.prems"(1) _ "2.prems"(4), of ?b]
        eh_split_defined [OF _ "2.prems"(2), of ?b h cur] "2.prems"(3) by auto
    note st = eh_split_step [OF "2.prems"(1) "2.prems"(3) [symmetric] refl split]
    have "eh_room h t1 k"
      using "2.prems"(4) st by (simp add: eh_room_def same_class_def)
    then have "\<exists>t'. eh_Insert_loop h fuel k v (mBuckets t1 ! hbits h (mGlobalDepth t1) k) t1 = Inr t'"
      using "2.IH" [OF False st(1) g refl] st(4) "2.prems"(5) by simp
    then show ?thesis
      using False lt split g inv_length [OF st(1)] by (simp add: eh_getBucketIndex_eq)
  qed (use lt in simp)
qed

section \<open>The interface of a hash table\<close>

text \<open>
  The abstract class of \<^verbatim>\<open>hash/hash_table.h\<close>: the three operations a client calls, and what a
  client relies on, in terms of the finite map the table stands for. An insertion keeps the value
  of a key that is already present.
\<close>

datatype ('k, 'v) ht_op = HInsert 'k 'v | HRemove 'k

fun ht_run ::
  "('t \<Rightarrow> 'k \<Rightarrow> 'v \<Rightarrow> 't res) \<Rightarrow> ('t \<Rightarrow> 'k \<Rightarrow> (bool \<times> 't) res) \<Rightarrow> 't \<Rightarrow> ('k, 'v) ht_op list \<Rightarrow> 't res" where
  "ht_run ins rem t [] = ok t"
| "ht_run ins rem t (HInsert k v # ops) = bindE (ins t k v) (\<lambda>t'. ht_run ins rem t' ops)"
| "ht_run ins rem t (HRemove k # ops) = bindE (rem t k) (\<lambda>(r, t'). ht_run ins rem t' ops)"

fun ht_spec :: "('k \<Rightarrow> 'v option) \<Rightarrow> ('k, 'v) ht_op list \<Rightarrow> 'k \<Rightarrow> 'v option" where
  "ht_spec f [] = f"
| "ht_spec f (HInsert k v # ops) = ht_spec (map_insert_new f k v) ops"
| "ht_spec f (HRemove k # ops) = ht_spec (f(k := None)) ops"

locale hash_table =
  fixes find :: "'t \<Rightarrow> 'k \<Rightarrow> 'v option res"
    and remove :: "'t \<Rightarrow> 'k \<Rightarrow> (bool \<times> 't) res"
    and insert :: "'t \<Rightarrow> 'k \<Rightarrow> 'v \<Rightarrow> 't res"
    and invar :: "'t \<Rightarrow> bool"
    and lookup :: "'t \<Rightarrow> 'k \<Rightarrow> 'v option"
    and room :: "'t \<Rightarrow> 'k \<Rightarrow> bool"
  assumes find_law: "invar t \<Longrightarrow> find t k = Inr (lookup t k)"
    and remove_law: "invar t \<Longrightarrow>
      \<exists>t'. remove t k = Inr (lookup t k \<noteq> None, t') \<and> invar t' \<and> lookup t' = (lookup t)(k := None)
         \<and> (\<forall>k'. room t k' \<longrightarrow> room t' k')"
    and insert_law: "invar t \<Longrightarrow> insert t k v = Inr t' \<Longrightarrow>
      invar t' \<and> lookup t' = map_insert_new (lookup t) k v"
    and insert_returns: "invar t \<Longrightarrow> room t k \<Longrightarrow> \<exists>t'. insert t k v = Inr t'"
begin

lemma run_refines:
  "invar t \<Longrightarrow> ht_run insert remove t ops = Inr t' \<Longrightarrow> invar t' \<and> lookup t' = ht_spec (lookup t) ops"
proof (induction ops arbitrary: t)
  case (Cons a ops)
  show ?case
  proof (cases a)
    case (HInsert k v)
    with Cons show ?thesis
      using insert_law [of t k v] by (auto simp: bindE_eq_Inr)
  next
    case (HRemove k)
    with Cons.prems remove_law [of t k] obtain b t1 where t1: "remove t k = Inr (b, t1)" "invar t1"
      "lookup t1 = (lookup t)(k := None)" "ht_run insert remove t1 ops = Inr t'"
      by auto
    then show ?thesis
      using Cons.IH [OF t1(2,4)] HRemove by (simp add: fun_upd_def)
  qed
qed simp

text \<open>The step by which the buffer pool gives a frame to another page.\<close>

lemma remap:
  assumes "invar t" and "lookup t new = None" and "room t new"
  shows "\<exists>b t1 t2. remove t old = Inr (b, t1) \<and> insert t1 new v = Inr t2 \<and> invar t2 \<and>
    lookup t2 = ((lookup t)(old := None))(new \<mapsto> v)"
proof -
  obtain b t1 where r: "remove t old = Inr (b, t1)" "invar t1" "lookup t1 = (lookup t)(old := None)"
    "room t1 new"
    using remove_law [OF assms(1), of old] assms(3) by blast
  then obtain t2 where "insert t1 new v = Inr t2"
    using insert_returns by blast
  with r assms(2) insert_law [OF r(2)] show ?thesis
    by (auto simp: map_insert_new_def)
qed

end

lemma eh_okD: "eh_ok h t \<Longrightarrow> eh_inv h t" "eh_ok h t \<Longrightarrow> mGlobalDepth t < 31"
  by (simp_all add: eh_ok_def)

lemma eh_Find_correct: "eh_ok h t \<Longrightarrow> eh_Find h t k = Inr (eh_lookup h t k)"
  using eh_okD [of h t] inv_length [of h t] slot_store [OF inv_slot_key, of h t k]
  by (simp add: eh_Find_def eh_getBucketIndex_eq eh_lookup_def)

lemma eh_Remove_correct:
  assumes "eh_ok h t"
  shows "\<exists>t'. eh_Remove h t k = Inr (eh_lookup h t k \<noteq> None, t') \<and> eh_ok h t' \<and>
    eh_lookup h t' = (eh_lookup h t)(k := None) \<and> mBucketSize t' = mBucketSize t"
proof -
  let ?i = "hbits h (mGlobalDepth t) k"
  let ?p = "mBuckets t ! ?i"
  note inv = eh_okD(1) [OF assms] and g = eh_okD(2) [OF assms]
  note s = inv_slot_key [OF inv, of k]
  let ?t' = "eh_put t ?p (sm_erase k (dataMap (store t ! ?p)))"
  have sub: "set (sm_erase k m) \<subseteq> set m" "length (sm_erase k m) \<le> length m" for m :: "('a \<times> 'b) list"
    by (auto simp: sm_erase_def)
  have "eh_inv h ?t'"
    using slot_sm [OF s] order.trans [OF sub(2) slot_size [OF s]] slot_keys [OF s] sub(1)
    by (intro eh_put_inv [OF inv _ refl]) (auto simp: sm_ok_erase)
  moreover have "eh_lookup h ?t' = (eh_lookup h t)(k := None)"
    by (subst eh_put_lookup [OF inv refl]) (auto simp: map_of_sm_erase)
  moreover have "eh_Remove h t k = Inr (eh_lookup h t k \<noteq> None,
      if eh_lookup h t k \<noteq> None then ?t' else t)"
    using g inv_length [OF inv] slot_store [OF s]
    by (simp add: eh_Remove_def eh_getBucketIndex_eq eh_lookup_def eh_put_def)
  ultimately show ?thesis
    using g inv by (cases "eh_lookup h t k") (auto simp: eh_ok_def fun_upd_idem)
qed

lemma eh_Insert_correct:
  assumes "eh_ok h t" and "eh_Insert h t k v = Inr t'"
  shows "eh_ok h t' \<and> eh_lookup h t' = map_insert_new (eh_lookup h t) k v \<and>
    mBucketSize t' = mBucketSize t"
  using assms eh_Insert_loop_correct [of h 32 k v _ t t'] inv_length [OF eh_okD(1) [OF assms(1)]]
  by (auto simp: eh_ok_def eh_Insert_def eh_getBucketIndex_eq)

lemma eh_Insert_total:
  "eh_ok h t \<Longrightarrow> eh_room h t k \<Longrightarrow> \<exists>t'. eh_Insert h t k v = Inr t'"
  using eh_Insert_loop_returns [of h t _ k 32 v] inv_length [of h t]
  by (simp add: eh_ok_def eh_Insert_def eh_getBucketIndex_eq)

lemma eh_Remove_room:
  assumes "eh_ok h t" and "eh_Remove h t k = Inr (b, t')" and "eh_room h t k'"
  shows "eh_room h t' k'"
proof -
  have l: "eh_lookup h t' = (eh_lookup h t)(k := None)" "mBucketSize t' = mBucketSize t"
    using eh_Remove_correct [OF assms(1), of k] assms(2) by auto
  have "card (same_class h t' k') \<le> card (same_class h t k')"
    by (rule card_mono [OF finite_subset [OF _ finite_stored [OF eh_okD(1) [OF assms(1)]]]])
      (auto simp: same_class_def l)
  then show ?thesis
    using assms(3) l by (simp add: eh_room_def)
qed

interpretation eh_table: hash_table "eh_Find h" "eh_Remove h" "eh_Insert h" "eh_ok h" "eh_lookup h"
  "eh_room h" for h :: "'k::linorder \<Rightarrow> 64 word"
proof unfold_locales
  fix t k
  assume "eh_ok h t"
  then show "\<exists>t'. eh_Remove h t k = Inr (eh_lookup h t k \<noteq> None, t') \<and> eh_ok h t' \<and>
      eh_lookup h t' = (eh_lookup h t)(k := None) \<and> (\<forall>k'. eh_room h t k' \<longrightarrow> eh_room h t' k')"
    using eh_Remove_correct eh_Remove_room by metis
qed (simp_all add: eh_Find_correct eh_Insert_correct eh_Insert_total)

lemma eh_init_ok: "eh_ok h (eh_init n)"
  by (auto simp: eh_ok_def eh_inv_def slot_ok_def eh_init_def)

lemma eh_init_lookup: "eh_lookup h (eh_init n) = (\<lambda>_. None)"
  by (simp add: eh_lookup_def eh_init_def fun_eq_iff)

lemma eh_room_few:
  assumes "eh_ok h t" and "card {k. eh_lookup h t k \<noteq> None} < mBucketSize t"
  shows "eh_room h t k"
proof -
  have "card (same_class h t k) \<le> card {k. eh_lookup h t k \<noteq> None}"
    by (rule card_mono [OF finite_stored [OF eh_okD(1) [OF assms(1)]]]) (auto simp: same_class_def)
  then show ?thesis
    using assms(2) by (simp add: eh_room_def)
qed

section \<open>Properties\<close>

text \<open>
  C11. Whatever sequence of insertions and removals has been run on a new table, \<^verbatim>\<open>Find\<close> returns
  what the abstract map holds after the same sequence: splits, directory doublings and shared
  buckets are invisible. The map is one in which an insertion of a present key keeps the old value:
  that is what \<^verbatim>\<open>std::map::insert\<close> does in the code (\<^verbatim>\<open>hash/extendible_hash.cpp:121\<close>), while the test
  \<^verbatim>\<open>RandomInsertAndDeleteTest\<close> expects the new value.
\<close>

theorem eh_run_Find:
  assumes "ht_run (eh_Insert h) (eh_Remove h) (eh_init n) ops = Inr t"
  shows "eh_Find h t k = Inr (ht_spec (\<lambda>_. None) ops k)"
  using eh_table.run_refines [OF eh_init_ok assms, unfolded eh_init_lookup]
  by (simp add: eh_table.find_law)

theorem eh_run_Find_witness:
  "\<exists>t. ht_run (eh_Insert (\<lambda>k. word_of_int k)) (eh_Remove (\<lambda>k. word_of_int k)) (eh_init 1)
       [HInsert (1::int) (10::int), HInsert 3 30, HInsert 7 70, HInsert 3 31, HRemove 1] = Inr t
     \<and> mGlobalDepth t = 3 \<and> eh_Find (\<lambda>k. word_of_int k) t 3 = Inr (Some 30)"
proof -
  let ?h = "\<lambda>k::int. word_of_int k :: 64 word"
  let ?ops = "[HInsert (1::int) (10::int), HInsert 3 30, HInsert 7 70, HInsert 3 31, HRemove 1]"
  have "case ht_run (eh_Insert ?h) (eh_Remove ?h) (eh_init 1) ?ops of
      Inl e \<Rightarrow> False | Inr t \<Rightarrow> mGlobalDepth t = 3"
    by code_simp
  then obtain t where t: "ht_run (eh_Insert ?h) (eh_Remove ?h) (eh_init 1) ?ops = Inr t"
    and g: "mGlobalDepth t = 3"
    by (auto split: sum.splits)
  have "eh_Find ?h t 3 = Inr (Some 30)"
    using eh_run_Find [OF t, of 3] by (simp add: map_insert_new_def)
  with t g show ?thesis by blast
qed

text \<open>
  C12. An insertion into a well-formed table returns, within the 32 rounds of the loop, whenever
  fewer stored keys than a bucket holds share the low 30 bits of the key's hash; the table stays
  well formed and holds the key, with the given value when the key is new. When the key was present
  its old value stays: this is the behaviour of the code, and not the overwriting that the test
  \<^verbatim>\<open>RandomInsertAndDeleteTest\<close> expects.
\<close>

theorem eh_Insert_returns:
  assumes "eh_ok h t" and "eh_room h t k"
  shows "\<exists>t'. eh_Insert h t k v = Inr t' \<and> eh_ok h t' \<and>
    eh_lookup h t' = map_insert_new (eh_lookup h t) k v \<and> mBucketSize t' = mBucketSize t"
  using eh_Insert_total [OF assms] eh_Insert_correct [OF assms(1)] by blast

theorem eh_Insert_returns_witness:
  "\<exists>t'. eh_Insert (\<lambda>_. 0) (eh_init 1) (5::int) True = Inr t' \<and> eh_ok (\<lambda>_. 0) t' \<and>
    eh_lookup (\<lambda>_. 0) t' = map_insert_new (eh_lookup (\<lambda>_. 0) (eh_init 1)) 5 True \<and>
    mBucketSize t' = mBucketSize (eh_init 1 :: (int, bool) ExtendibleHash)"
  by (rule eh_Insert_returns [OF eh_init_ok])
    (simp add: eh_room_def same_class_def eh_init_lookup, simp add: eh_init_def)

text \<open>
  A removal always returns, reports whether the key was present, and removes exactly that key.
\<close>

theorem eh_Remove_refines:
  assumes "eh_ok h t"
  shows "\<exists>t'. eh_Remove h t k = Inr (eh_lookup h t k \<noteq> None, t') \<and> eh_ok h t' \<and>
    eh_lookup h t' = (eh_lookup h t)(k := None)"
  using eh_Remove_correct [OF assms] by blast

theorem eh_Remove_refines_witness:
  "\<exists>t'. eh_Remove (\<lambda>_. 0) (eh_init 2 :: (int, bool) ExtendibleHash) 7 =
      Inr (eh_lookup (\<lambda>_. 0) (eh_init 2 :: (int, bool) ExtendibleHash) 7 \<noteq> None, t') \<and>
    eh_ok (\<lambda>_. 0) t' \<and>
    eh_lookup (\<lambda>_. 0) t' = (eh_lookup (\<lambda>_. 0) (eh_init 2 :: (int, bool) ExtendibleHash))(7 := None)"
  by (rule eh_Remove_refines [OF eh_init_ok])

end
