(* ===== verification/Lru_Replacer.thy ===== *)
theory Lru_Replacer
  imports Scudb_Prelude "HOL-Library.AList"
begin

text \<open>
  The replacement policy of \<^verbatim>\<open>buffer/lru_replacer.h\<close> and \<^verbatim>\<open>buffer/lru_replacer.cpp\<close>.

  The code keeps a doubly linked list of heap nodes between two sentinels, and an unordered map
  from a value to its node. The model keeps the nodes: a \<^verbatim>\<open>shared_ptr<sNode>\<close> is \<open>None\<close> when null
  and otherwise the index of the node in \<open>heap\<close>, nodes are allocated at the end of \<open>heap\<close>, and
  every assignment through a pointer is one update of \<open>heap\<close>, in the order of the code.
\<close>

section \<open>State\<close>

record 'a sNode =
  data :: 'a
  ptrPrev :: "nat option"
  ptrNext :: "nat option"

record 'a LRUReplacer =
  heap :: "'a sNode list"
  mHead :: nat
  mTail :: nat
  mDataMap :: "('a \<times> nat) list"

section \<open>Pointers\<close>

definition deref :: "'a sNode list \<Rightarrow> nat option \<Rightarrow> 'a sNode res" where
  "deref hp p = (case p of None \<Rightarrow> fail Null_Deref | Some a \<Rightarrow> nth_res hp a)"

definition set_next :: "'a sNode list \<Rightarrow> nat option \<Rightarrow> nat option \<Rightarrow> 'a sNode list res" where
  "set_next hp p q = bindE (deref hp p) (\<lambda>n. ok (hp[the p := n\<lparr>ptrNext := q\<rparr>]))"

definition set_prev :: "'a sNode list \<Rightarrow> nat option \<Rightarrow> nat option \<Rightarrow> 'a sNode list res" where
  "set_prev hp p q = bindE (deref hp p) (\<lambda>n. ok (hp[the p := n\<lparr>ptrPrev := q\<rparr>]))"

section \<open>Operations\<close>

definition lru_init :: "'a::zero LRUReplacer" where
  "lru_init =
     \<lparr>heap = [\<lparr>data = 0, ptrPrev = None, ptrNext = Some 1\<rparr>,
              \<lparr>data = 0, ptrPrev = Some 0, ptrNext = None\<rparr>],
      mHead = 0, mTail = 1, mDataMap = []\<rparr>"

text \<open>The two assignments that take a node out of the list, in \<^verbatim>\<open>Insert\<close> and in \<^verbatim>\<open>Erase\<close>.\<close>

definition lru_unlink :: "'a sNode list \<Rightarrow> nat \<Rightarrow> 'a sNode list res" where
  "lru_unlink hp cur =
     bindE (nth_res hp cur) (\<lambda>c.
     bindE (set_next hp (ptrPrev c) (ptrNext c)) (\<lambda>hp1.
       set_prev hp1 (ptrNext c) (ptrPrev c)))"

definition lru_push_front :: "'a sNode list \<Rightarrow> nat \<Rightarrow> nat \<Rightarrow> 'a sNode list res" where
  "lru_push_front hp hd_ptr cur =
     bindE (nth_res hp hd_ptr) (\<lambda>hn. let fir = ptrNext hn in
     bindE (set_next hp (Some cur) fir) (\<lambda>hp1.
     bindE (set_prev hp1 fir (Some cur)) (\<lambda>hp2.
     bindE (set_prev hp2 (Some cur) (Some hd_ptr)) (\<lambda>hp3.
       set_next hp3 (Some hd_ptr) (Some cur)))))"

definition lru_Insert :: "'a \<Rightarrow> 'a LRUReplacer \<Rightarrow> 'a LRUReplacer res" where
  "lru_Insert v s =
     bindE (case map_of (mDataMap s) v of
              Some cur \<Rightarrow> bindE (lru_unlink (heap s) cur) (\<lambda>hp. ok (cur, hp))
            | None \<Rightarrow> ok (length (heap s),
                heap s @ [\<lparr>data = v, ptrPrev = None, ptrNext = None\<rparr>]))
       (\<lambda>(cur, hp).
          bindE (lru_push_front hp (mHead s) cur) (\<lambda>hp'.
            ok (s\<lparr>heap := hp', mDataMap := AList.update v cur (mDataMap s)\<rparr>)))"

definition lru_Victim :: "'a LRUReplacer \<Rightarrow> ('a option \<times> 'a LRUReplacer) res" where
  "lru_Victim s =
     (if mDataMap s = [] then ok (None, s)
      else
        bindE (nth_res (heap s) (mTail s)) (\<lambda>tn. let last_ptr = ptrPrev tn in
        bindE (deref (heap s) last_ptr) (\<lambda>ln.
        bindE (set_prev (heap s) (Some (mTail s)) (ptrPrev ln)) (\<lambda>hp1.
        bindE (deref hp1 last_ptr) (\<lambda>ln1.
        bindE (set_next hp1 (ptrPrev ln1) (Some (mTail s))) (\<lambda>hp2.
        bindE (deref hp2 last_ptr) (\<lambda>ln2.
          ok (Some (data ln2),
              s\<lparr>heap := hp2, mDataMap := AList.delete (data ln2) (mDataMap s)\<rparr>))))))))"

definition lru_Erase :: "'a \<Rightarrow> 'a LRUReplacer \<Rightarrow> (bool \<times> 'a LRUReplacer) res" where
  "lru_Erase v s =
     bindE (case map_of (mDataMap s) v of
              Some cur \<Rightarrow> lru_unlink (heap s) cur
            | None \<Rightarrow> ok (heap s))
       (\<lambda>hp. ok (map_of (mDataMap s) v \<noteq> None,
              s\<lparr>heap := hp, mDataMap := AList.delete v (mDataMap s)\<rparr>))"

definition lru_Size :: "'a LRUReplacer \<Rightarrow> nat" where
  "lru_Size s = 1"

text \<open>
  The two loops of the destructor, which cut the pointers of the nodes one by one so that no cycle
  of owners is left. A round that goes on leaves one node less with a pointer, so that each loop
  ends on every heap, even on a cyclic one.
\<close>

function lru_cut_next :: "nat option \<Rightarrow> 'a sNode list \<Rightarrow> 'a sNode list res" where
  "lru_cut_next None hp = ok hp"
| "lru_cut_next (Some p) hp =
     (if p < length hp then lru_cut_next (ptrNext (hp ! p)) (hp[p := (hp ! p)\<lparr>ptrNext := None\<rparr>])
      else fail Out_Of_Bounds)"
  by pat_completeness auto

function lru_cut_prev :: "nat option \<Rightarrow> 'a sNode list \<Rightarrow> 'a sNode list res" where
  "lru_cut_prev None hp = ok hp"
| "lru_cut_prev (Some p) hp =
     (if p < length hp then lru_cut_prev (ptrPrev (hp ! p)) (hp[p := (hp ! p)\<lparr>ptrPrev := None\<rparr>])
      else fail Out_Of_Bounds)"
  by pat_completeness auto

lemma filter_update_less:
  assumes "p < length xs" "P (xs ! p)" "\<not> P y"
  shows "length (filter P (xs[p := y])) < length (filter P xs)"
  using assms by (subst (2) id_take_nth_drop [OF assms(1)]) (simp add: upd_conv_take_nth_drop)

lemma filter_update_same:
  assumes "p < length xs" "\<not> P (xs ! p)" "\<not> P y"
  shows "length (filter P (xs[p := y])) = length (filter P xs)"
  using assms by (subst (2) id_take_nth_drop [OF assms(1)]) (simp add: upd_conv_take_nth_drop)

termination lru_cut_next
proof (relation "(\<lambda>(q, hp). length (filter (\<lambda>n. ptrNext n \<noteq> None) hp)) <*mlex*> measure (\<lambda>(q, hp). case q of None \<Rightarrow> 0 | Some p \<Rightarrow> 1)")
  fix p and hp :: "'a sNode list"
  let ?P = "\<lambda>n :: 'a sNode. ptrNext n \<noteq> None" and ?hp = "hp[p := (hp ! p)\<lparr>ptrNext := None\<rparr>]"
  assume "p < length hp"
  then show "((ptrNext (hp ! p), ?hp), Some p, hp) \<in>
      (\<lambda>(q, hp). length (filter ?P hp)) <*mlex*> measure (\<lambda>(q, hp). case q of None \<Rightarrow> 0 | Some p \<Rightarrow> 1)"
    using filter_update_less [of p hp ?P] filter_update_same [of p hp ?P]
    by (cases "ptrNext (hp ! p)") (auto simp: mlex_iff)
qed (simp add: wf_mlex)

termination lru_cut_prev
proof (relation "(\<lambda>(q, hp). length (filter (\<lambda>n. ptrPrev n \<noteq> None) hp)) <*mlex*> measure (\<lambda>(q, hp). case q of None \<Rightarrow> 0 | Some p \<Rightarrow> 1)")
  fix p and hp :: "'a sNode list"
  let ?P = "\<lambda>n :: 'a sNode. ptrPrev n \<noteq> None" and ?hp = "hp[p := (hp ! p)\<lparr>ptrPrev := None\<rparr>]"
  assume "p < length hp"
  then show "((ptrPrev (hp ! p), ?hp), Some p, hp) \<in>
      (\<lambda>(q, hp). length (filter ?P hp)) <*mlex*> measure (\<lambda>(q, hp). case q of None \<Rightarrow> 0 | Some p \<Rightarrow> 1)"
    using filter_update_less [of p hp ?P] filter_update_same [of p hp ?P]
    by (cases "ptrPrev (hp ! p)") (auto simp: mlex_iff)
qed (simp add: wf_mlex)

definition lru_destroy :: "'a LRUReplacer \<Rightarrow> 'a sNode list res" where
  "lru_destroy s = bindE (lru_cut_next (Some (mHead s)) (heap s)) (lru_cut_prev (Some (mTail s)))"

section \<open>The list a replacer stands for\<close>

fun linked :: "'a sNode list \<Rightarrow> nat list \<Rightarrow> bool" where
  "linked hp (p # q # ps) \<longleftrightarrow>
     ptrNext (hp ! p) = Some q \<and> ptrPrev (hp ! q) = Some p \<and> linked hp (q # ps)"
| "linked hp ps \<longleftrightarrow> True"

text \<open>The whole list: neighbours point at each other and the two sentinels at nothing outside.\<close>

definition dlist :: "'a sNode list \<Rightarrow> nat list \<Rightarrow> bool" where
  "dlist hp ps \<longleftrightarrow>
     linked hp ps \<and> ptrPrev (hp ! hd ps) = None \<and> ptrNext (hp ! last ps) = None"

definition lru_shape :: "'a LRUReplacer \<Rightarrow> nat list \<Rightarrow> bool" where
  "lru_shape s ns \<longleftrightarrow>
     distinct (mHead s # ns @ [mTail s]) \<and>
     set (mHead s # ns @ [mTail s]) \<subseteq> {..<length (heap s)} \<and>
     dlist (heap s) (mHead s # ns @ [mTail s]) \<and>
     distinct (map fst (mDataMap s)) \<and>
     (\<forall>v p. map_of (mDataMap s) v = Some p \<longleftrightarrow> p \<in> set ns \<and> data (heap s ! p) = v)"

text \<open>\<open>lru_rep s xs\<close>: the replacer holds the values \<open>xs\<close>, most recently inserted first.\<close>

definition lru_rep :: "'a LRUReplacer \<Rightarrow> 'a list \<Rightarrow> bool" where
  "lru_rep s xs \<longleftrightarrow> (\<exists>ns. lru_shape s ns \<and> xs = map (\<lambda>p. data (heap s ! p)) ns)"

section \<open>Lemmas on the heap\<close>

lemma deref_Some [simp]: "a < length hp \<Longrightarrow> deref hp (Some a) = Inr (hp ! a)"
  by (simp add: deref_def)

lemma set_next_Some [simp]:
  "a < length hp \<Longrightarrow> set_next hp (Some a) q = Inr (hp[a := (hp ! a)\<lparr>ptrNext := q\<rparr>])"
  by (simp add: set_next_def)

lemma set_prev_Some [simp]:
  "a < length hp \<Longrightarrow> set_prev hp (Some a) q = Inr (hp[a := (hp ! a)\<lparr>ptrPrev := q\<rparr>])"
  by (simp add: set_prev_def)

lemma set_tlD: "x \<in> set (tl xs) \<Longrightarrow> x \<in> set xs"
  by (cases xs) auto

lemma linked_cong:
  "(\<And>p. p \<in> set (butlast ps) \<Longrightarrow> ptrNext (hp ! p) = ptrNext (hp' ! p)) \<Longrightarrow>
   (\<And>p. p \<in> set (tl ps) \<Longrightarrow> ptrPrev (hp ! p) = ptrPrev (hp' ! p)) \<Longrightarrow>
   linked hp ps = linked hp' ps"
  by (induction hp ps rule: linked.induct) auto

lemma linked_append: "linked hp (xs @ a # ys) \<longleftrightarrow> linked hp (xs @ [a]) \<and> linked hp (a # ys)"
proof (induction xs)
  case (Cons x xs)
  then show ?case by (cases xs) auto
qed simp

lemma linked_middle:
  "linked hp (xs @ a # b # ys) \<longleftrightarrow>
     linked hp (xs @ [a]) \<and> ptrNext (hp ! a) = Some b \<and> ptrPrev (hp ! b) = Some a \<and> linked hp (b # ys)"
  using linked_append [of hp xs a "b # ys"] by auto

lemma lru_unlink_linked:
  assumes l: "linked hp (xs @ a # c # b # ys)" and d: "distinct (xs @ a # c # b # ys)"
    and len: "a < length hp" "b < length hp" "c < length hp"
  shows "lru_unlink hp c =
      Inr (hp[a := (hp ! a)\<lparr>ptrNext := Some b\<rparr>, b := (hp ! b)\<lparr>ptrPrev := Some a\<rparr>])"
    and "linked (hp[a := (hp ! a)\<lparr>ptrNext := Some b\<rparr>, b := (hp ! b)\<lparr>ptrPrev := Some a\<rparr>])
      (xs @ a # b # ys)"
proof -
  have c: "ptrNext (hp ! c) = Some b" "ptrPrev (hp ! c) = Some a"
    using l by (simp_all add: linked_middle)
  have ab: "a \<noteq> b" using d by auto
  show "lru_unlink hp c =
      Inr (hp[a := (hp ! a)\<lparr>ptrNext := Some b\<rparr>, b := (hp ! b)\<lparr>ptrPrev := Some a\<rparr>])"
    using len c ab by (simp add: lru_unlink_def)
  let ?hp = "hp[a := (hp ! a)\<lparr>ptrNext := Some b\<rparr>, b := (hp ! b)\<lparr>ptrPrev := Some a\<rparr>]"
  have "linked ?hp (xs @ [a]) = linked hp (xs @ [a])"
    using d len by (intro linked_cong) (auto simp: nth_list_update dest: set_tlD)
  moreover have "linked ?hp (b # ys) = linked hp (b # ys)"
    using d len by (intro linked_cong) (auto simp: nth_list_update dest: in_set_butlastD split: if_splits)
  ultimately show "linked ?hp (xs @ a # b # ys)"
    using l len ab by (simp add: linked_middle)
qed

lemma lru_push_front_linked:
  assumes l: "linked hp (h # f # ps)" and d: "distinct (h # f # ps)" "c \<notin> set (h # f # ps)"
    and len: "h < length hp" "f < length hp" "c < length hp"
  shows "\<exists>hp'. lru_push_front hp h c = Inr hp' \<and> linked hp' (h # c # f # ps) \<and>
    length hp' = length hp \<and> (\<forall>p < length hp. data (hp' ! p) = data (hp ! p)) \<and>
    ptrPrev (hp' ! h) = ptrPrev (hp ! h) \<and> (\<forall>p \<in> set (f # ps). ptrNext (hp' ! p) = ptrNext (hp ! p))"
proof -
  let ?hp = "hp[c := (hp ! c)\<lparr>ptrNext := Some f\<rparr>, f := (hp ! f)\<lparr>ptrPrev := Some c\<rparr>,
    c := (hp ! c)\<lparr>ptrNext := Some f, ptrPrev := Some h\<rparr>, h := (hp ! h)\<lparr>ptrNext := Some c\<rparr>]"
  have "lru_push_front hp h c = Inr ?hp"
    using l d len by (auto simp: lru_push_front_def Let_def)
  moreover have "linked ?hp (f # ps) = linked hp (f # ps)"
    using d len by (intro linked_cong) (auto simp: nth_list_update dest: in_set_butlastD split: if_splits)
  then have "linked ?hp (h # c # f # ps)"
    using l d len by (auto simp: nth_list_update)
  ultimately show ?thesis
    using len d by (auto simp: nth_list_update)
qed

lemma dlist_linked: "dlist hp ps \<Longrightarrow> linked hp ps"
  by (simp add: dlist_def)

lemma lru_unlink_dlist:
  assumes l: "dlist hp (xs @ a # c # b # ys)" and d: "distinct (xs @ a # c # b # ys)"
    and len: "a < length hp" "b < length hp" "c < length hp"
  shows "dlist (hp[a := (hp ! a)\<lparr>ptrNext := Some b\<rparr>, b := (hp ! b)\<lparr>ptrPrev := Some a\<rparr>])
      (xs @ a # b # ys)"
proof -
  let ?hp = "hp[a := (hp ! a)\<lparr>ptrNext := Some b\<rparr>, b := (hp ! b)\<lparr>ptrPrev := Some a\<rparr>]"
  have "ptrPrev (?hp ! hd (xs @ a # b # ys)) = None"
    using l d len by (cases xs) (auto simp: dlist_def nth_list_update)
  moreover have "ptrNext (?hp ! last (xs @ a # b # ys)) = None"
    using l d len by (cases ys rule: rev_cases) (auto simp: dlist_def nth_list_update)
  ultimately show ?thesis
    using lru_unlink_linked(2) [OF dlist_linked [OF l] d len] by (simp add: dlist_def)
qed

section \<open>Refinement to lists\<close>

lemma lru_shapeD:
  assumes "lru_shape s ns"
  shows shape_distinct: "distinct (mHead s # ns @ [mTail s])"
    and shape_bound: "p \<in> set (mHead s # ns @ [mTail s]) \<Longrightarrow> p < length (heap s)"
    and shape_dlist: "dlist (heap s) (mHead s # ns @ [mTail s])"
    and shape_keys: "distinct (map fst (mDataMap s))"
    and shape_map: "map_of (mDataMap s) v = Some p \<longleftrightarrow> p \<in> set ns \<and> data (heap s ! p) = v"
  using assms unfolding lru_shape_def by (blast | auto)+

lemmas shape_linked = dlist_linked [OF shape_dlist]

lemma shape_unique:
  "lru_shape s ns \<Longrightarrow> p \<in> set ns \<Longrightarrow> q \<in> set ns \<Longrightarrow> data (heap s ! p) = data (heap s ! q) \<Longrightarrow> p = q"
  by (metis option.inject shape_map)

lemma shape_unlink:
  assumes "lru_shape s (us @ p # vs)"
  shows "\<exists>hp. lru_unlink (heap s) p = Inr hp \<and> dlist hp (mHead s # us @ vs @ [mTail s]) \<and>
    length hp = length (heap s) \<and> (\<forall>q < length (heap s). data (hp ! q) = data (heap s ! q))"
proof -
  obtain xs a where xa: "mHead s # us = xs @ [a]"
    by (metis append_butlast_last_id list.distinct(1))
  obtain b ys where yb: "vs @ [mTail s] = b # ys"
    by (metis list.exhaust snoc_eq_iff_butlast)
  have whole: "mHead s # (us @ p # vs) @ [mTail s] = xs @ a # p # b # ys"
    using xa yb by (metis append.assoc append_Cons append_Nil)
  have rest: "mHead s # us @ vs @ [mTail s] = xs @ a # b # ys"
    using xa yb by (metis append.assoc append_Cons append_Nil)
  note l = shape_dlist [OF assms, unfolded whole] and d = shape_distinct [OF assms, unfolded whole]
    and len = shape_bound [OF assms, unfolded whole]
  have lens: "a < length (heap s)" "b < length (heap s)" "p < length (heap s)"
    by (rule len, simp)+
  show ?thesis
    using lru_unlink_linked(1) [OF dlist_linked [OF l] d lens] lru_unlink_dlist [OF l d lens] lens
    by (auto simp: rest nth_list_update simp del: append_Cons)
qed

lemma map_of_AList_delete:
  "map_of (AList.delete k al) k' = (if k' = k then None else map_of al k')"
  by (simp add: AList.delete_conv')

lemma shape_drop:
  assumes sh: "lru_shape s (us @ p # vs)" and v: "data (heap s ! p) = v"
    and l: "dlist hp (mHead s # us @ vs @ [mTail s])" "length hp = length (heap s)"
      "\<forall>q < length (heap s). data (hp ! q) = data (heap s ! q)"
  shows "lru_rep (s\<lparr>heap := hp, mDataMap := AList.delete v (mDataMap s)\<rparr>)
    (remove1 v (map (\<lambda>q. data (heap s ! q)) (us @ p # vs)))"
proof -
  let ?s = "s\<lparr>heap := hp, mDataMap := AList.delete v (mDataMap s)\<rparr>"
  have d: "distinct (mHead s # us @ p # vs @ [mTail s])"
    using shape_distinct [OF sh] by simp
  have b: "q < length (heap s)" if "q \<in> set (us @ vs) \<or> q = mHead s \<or> q = mTail s" for q
    using shape_bound [OF sh, of q] that by auto
  have not_v: "data (heap s ! q) \<noteq> v" if "q \<in> set (us @ vs)" for q
  proof
    assume "data (heap s ! q) = v"
    then have "p = q"
      using shape_unique [OF sh, of p q] that v by simp
    with that d show False by auto
  qed
  have map: "map_of (AList.delete v (mDataMap s)) w = Some q \<longleftrightarrow>
      q \<in> set (us @ vs) \<and> data (hp ! q) = w" for w q
    using shape_map [OF sh, of w q] not_v v b l(3) by (auto simp: map_of_AList_delete)
  have "lru_shape ?s (us @ vs)"
    using d b l map shape_keys [OF sh] unfolding lru_shape_def
    by (auto simp: AList.distinct_delete)
  moreover have "remove1 v (map (\<lambda>q. data (heap s ! q)) (us @ p # vs)) =
      map (\<lambda>q. data (hp ! q)) (us @ vs)"
  proof -
    have "v \<notin> set (map (\<lambda>q. data (heap s ! q)) us)"
      using not_v by auto
    then show ?thesis
      using v l(3) b by (simp add: remove1_append)
  qed
  ultimately show ?thesis
    unfolding lru_rep_def by auto
qed

lemma shape_push:
  assumes l: "dlist hp (mHead s # ns @ [mTail s])" and d: "distinct (mHead s # ns @ [mTail s])"
    and c: "cur \<notin> set (mHead s # ns @ [mTail s])" "cur < length hp"
    and b: "set (mHead s # ns @ [mTail s]) \<subseteq> {..<length hp}"
    and keys: "distinct (map fst (mDataMap s))"
    and map: "\<And>w q. map_of (AList.update v cur (mDataMap s)) w = Some q \<longleftrightarrow>
      q \<in> set (cur # ns) \<and> data (hp ! q) = w"
  shows "\<exists>hp'. lru_push_front hp (mHead s) cur = Inr hp' \<and>
    lru_rep (s\<lparr>heap := hp', mDataMap := AList.update v cur (mDataMap s)\<rparr>)
      (map (\<lambda>q. data (hp ! q)) (cur # ns))"
proof -
  obtain f ps where f: "ns @ [mTail s] = f # ps"
    by (metis list.exhaust snoc_eq_iff_butlast)
  have fl: "f < length hp" "mHead s < length hp"
    using b f by (metis lessThan_iff list.set_intros subsetD)+
  obtain hp' where hp': "lru_push_front hp (mHead s) cur = Inr hp'"
    "linked hp' (mHead s # cur # ns @ [mTail s])" "length hp' = length hp"
    "\<forall>p < length hp. data (hp' ! p) = data (hp ! p)"
    "ptrPrev (hp' ! mHead s) = ptrPrev (hp ! mHead s)"
    "\<forall>p \<in> set (ns @ [mTail s]). ptrNext (hp' ! p) = ptrNext (hp ! p)"
    using lru_push_front_linked [of hp "mHead s" f ps cur] dlist_linked [OF l] d c fl
    by (auto simp: f)
  have dl: "dlist hp' (mHead s # cur # ns @ [mTail s])"
    using l hp'(2,5,6) by (simp add: dlist_def)
  have in_b: "q < length hp" if "q \<in> set (cur # ns)" for q
    using that b c by auto
  have "lru_shape (s\<lparr>heap := hp', mDataMap := AList.update v cur (mDataMap s)\<rparr>) (cur # ns)"
    using hp'(1,3,4) dl d c b map keys in_b unfolding lru_shape_def
    by (auto simp: AList.distinct_update)
  then show ?thesis
    using hp' in_b unfolding lru_rep_def
    by (intro exI [of _ hp'] conjI exI [of _ "cur # ns"]) auto
qed

lemma lru_Insert_new:
  assumes sh: "lru_shape s ns" and xs: "xs = map (\<lambda>p. data (heap s ! p)) ns"
    and None: "map_of (mDataMap s) v = None"
  shows "\<exists>s'. lru_Insert v s = Inr s' \<and> lru_rep s' (v # xs)"
proof -
  let ?hp = "heap s @ [\<lparr>data = v, ptrPrev = None, ptrNext = None\<rparr>]"
  have b: "q < length (heap s)" if "q \<in> set (mHead s # ns @ [mTail s])" for q
    using shape_bound [OF sh that] .
  have old: "?hp ! q = heap s ! q" if "q \<in> set (mHead s # ns @ [mTail s])" for q
    using b [OF that] by (simp add: nth_append)
  have "linked ?hp (mHead s # ns @ [mTail s])"
    using shape_linked [OF sh] old
    by (subst linked_cong [of _ _ "heap s"]) (auto dest: in_set_butlastD set_tlD split: if_splits)
  then have l: "dlist ?hp (mHead s # ns @ [mTail s])"
    using shape_dlist [OF sh] old by (simp add: dlist_def)
  have map: "map_of (AList.update v (length (heap s)) (mDataMap s)) w = Some q \<longleftrightarrow>
      q \<in> set (length (heap s) # ns) \<and> data (?hp ! q) = w" for w q
    using shape_map [OF sh, of w q] None old b [of q] shape_map [OF sh, of v q]
    by (auto simp: AList.update_conv' nth_append)
  obtain hp' where "lru_push_front ?hp (mHead s) (length (heap s)) = Inr hp'"
    "lru_rep (s\<lparr>heap := hp', mDataMap := AList.update v (length (heap s)) (mDataMap s)\<rparr>)
      (map (\<lambda>q. data (?hp ! q)) (length (heap s) # ns))"
    using shape_push [OF l shape_distinct [OF sh] _ _ _ shape_keys [OF sh] map] b by fastforce
  moreover have "map (\<lambda>q. data (?hp ! q)) (length (heap s) # ns) = v # xs"
    using old by (simp add: xs)
  ultimately show ?thesis
    using None by (simp add: lru_Insert_def)
qed

lemma lru_Insert_present:
  assumes sh: "lru_shape s ns" and xs: "xs = map (\<lambda>p. data (heap s ! p)) ns"
    and Some: "map_of (mDataMap s) v = Some p"
  shows "\<exists>s'. lru_Insert v s = Inr s' \<and> lru_rep s' (v # remove1 v xs)"
proof -
  obtain us vs where ns: "ns = us @ p # vs" and p: "data (heap s ! p) = v"
    using shape_map [OF sh, of v p] Some by (metis split_list)
  obtain hp where hp: "lru_unlink (heap s) p = Inr hp"
    "dlist hp (mHead s # us @ vs @ [mTail s])" "length hp = length (heap s)"
    "\<forall>q < length (heap s). data (hp ! q) = data (heap s ! q)"
    using shape_unlink sh ns by blast
  have b: "q < length (heap s)" if "q \<in> set (mHead s # ns @ [mTail s])" for q
    using shape_bound [OF sh that] .
  have map: "map_of (AList.update v p (mDataMap s)) w = Some q \<longleftrightarrow>
      q \<in> set (p # us @ vs) \<and> data (hp ! q) = w" for w q
    using shape_map [OF sh, of w q] Some hp(4) b [of q] p ns shape_map [OF sh, of v q]
    by (auto simp: AList.update_conv')
  have "\<exists>hp'. lru_push_front hp (mHead s) p = Inr hp' \<and>
      lru_rep (s\<lparr>heap := hp', mDataMap := AList.update v p (mDataMap s)\<rparr>)
        (map (\<lambda>q. data (hp ! q)) (p # us @ vs))"
    using hp b shape_distinct [OF sh] ns shape_keys [OF sh] map by (intro shape_push) auto
  moreover have "v \<notin> set (map (\<lambda>p. data (heap s ! p)) us)"
    using shape_unique [OF sh, of p] p shape_distinct [OF sh] ns by auto
  then have "map (\<lambda>q. data (hp ! q)) (p # us @ vs) = v # remove1 v xs"
    using b ns hp(4) p by (auto simp: xs remove1_append)
  ultimately show ?thesis
    using Some hp by (auto simp: lru_Insert_def)
qed

lemma lru_Insert_correct:
  assumes "lru_rep s xs"
  shows "\<exists>s'. lru_Insert v s = Inr s' \<and> lru_rep s' (v # remove1 v xs)"
proof -
  obtain ns where sh: "lru_shape s ns" and xs: "xs = map (\<lambda>p. data (heap s ! p)) ns"
    using assms by (auto simp: lru_rep_def)
  show ?thesis
  proof (cases "map_of (mDataMap s) v")
    case None
    then have "v \<notin> set xs"
      using shape_map [OF sh, of v] xs by auto
    then show ?thesis
      using lru_Insert_new [OF sh xs None] by (simp add: remove1_idem)
  qed (rule lru_Insert_present [OF sh xs])
qed

lemma lru_Erase_correct:
  assumes "lru_rep s xs"
  shows "\<exists>s'. lru_Erase v s = Inr (v \<in> set xs, s') \<and> lru_rep s' (remove1 v xs)"
proof -
  obtain ns where sh: "lru_shape s ns" and xs: "xs = map (\<lambda>p. data (heap s ! p)) ns"
    using assms by (auto simp: lru_rep_def)
  show ?thesis
  proof (cases "map_of (mDataMap s) v")
    case None
    then have "v \<notin> set xs"
      using shape_map [OF sh, of v] xs by auto
    moreover have "AList.delete v (mDataMap s) = mDataMap s"
      using None by (simp add: AList.delete_idem map_of_eq_None_iff)
    ultimately show ?thesis
      using None assms by (simp add: lru_Erase_def remove1_idem)
  next
    case (Some p)
    then obtain us vs where ns: "ns = us @ p # vs" and p: "data (heap s ! p) = v"
      using shape_map [OF sh, of v p] by (metis split_list)
    obtain hp where hp: "lru_unlink (heap s) p = Inr hp"
      "dlist hp (mHead s # us @ vs @ [mTail s])" "length hp = length (heap s)"
      "\<forall>q < length (heap s). data (hp ! q) = data (heap s ! q)"
      using shape_unlink sh ns by blast
    show ?thesis
      using shape_drop [OF sh [unfolded ns] p hp(2-4)] Some hp(1) p
      by (auto simp: lru_Erase_def xs ns)
  qed
qed

lemma lru_rep_distinct:
  assumes "lru_rep s xs"
  shows "distinct xs"
proof -
  obtain ns where sh: "lru_shape s ns" and xs: "xs = map (\<lambda>p. data (heap s ! p)) ns"
    using assms by (auto simp: lru_rep_def)
  show ?thesis
    using shape_distinct [OF sh] shape_unique [OF sh] by (auto simp: xs distinct_map inj_on_def)
qed

lemma lru_rep_Nil_map:
  assumes "lru_rep s xs"
  shows "mDataMap s = [] \<longleftrightarrow> xs = []"
proof -
  obtain ns where sh: "lru_shape s ns" and xs: "xs = map (\<lambda>p. data (heap s ! p)) ns"
    using assms by (auto simp: lru_rep_def)
  have "mDataMap s = [] \<longleftrightarrow> (\<forall>v. map_of (mDataMap s) v = None)"
    by (metis map_of_eq_empty_iff)
  then show ?thesis
    using shape_map [OF sh] xs by (metis list.map_disc_iff list.set_sel(1) length_greater_0_conv
      in_set_conv_nth list.size(3) not_less0 option.exhaust option.distinct(1))
qed

lemma lru_Victim_correct:
  assumes "lru_rep s (xs @ [x])"
  shows "\<exists>s'. lru_Victim s = Inr (Some x, s') \<and> lru_rep s' xs"
proof -
  obtain ns where sh: "lru_shape s ns" and e: "xs @ [x] = map (\<lambda>p. data (heap s ! p)) ns"
    using assms by (auto simp: lru_rep_def)
  then obtain us p where ns: "ns = us @ [p]" and us: "xs = map (\<lambda>p. data (heap s ! p)) us"
    and p: "data (heap s ! p) = x"
    by (auto simp: append_eq_map_conv)
  obtain ys a where ya: "mHead s # us = ys @ [a]"
    by (metis append_butlast_last_id list.distinct(1))
  let ?t = "mTail s"
  have whole: "mHead s # ns @ [?t] = ys @ a # p # ?t # []"
    using ya ns by (metis append.assoc append_Cons append_Nil)
  note dl = shape_dlist [OF sh, unfolded whole] and d = shape_distinct [OF sh, unfolded whole]
    and b = shape_bound [OF sh, unfolded whole]
  have lens: "a < length (heap s)" "?t < length (heap s)" "p < length (heap s)"
    by (rule b, simp)+
  let ?hp = "(heap s)[a := (heap s ! a)\<lparr>ptrNext := Some ?t\<rparr>, ?t := (heap s ! ?t)\<lparr>ptrPrev := Some a\<rparr>]"
  note l = dlist_linked [OF dl]
  have un: "dlist ?hp (ys @ a # ?t # [])"
    using lru_unlink_dlist [OF dl d lens] by simp
  then have "dlist ?hp (mHead s # us @ [] @ [?t])"
    using ya by (metis append.assoc append_Cons append_Nil)
  moreover have "lru_Victim s = Inr (Some x, s\<lparr>heap := ?hp, mDataMap := AList.delete x (mDataMap s)\<rparr>)"
    using l d lens lru_rep_Nil_map [OF assms] p
    by (auto simp: lru_Victim_def Let_def linked_middle list_update_swap)
  ultimately show ?thesis
    using shape_drop [OF sh [unfolded ns] p, of ?hp] lens lru_rep_distinct [OF assms] us p
    by (auto simp: nth_list_update remove1_append ns)
qed

lemma lru_Victim_empty: "lru_rep s [] \<Longrightarrow> lru_Victim s = Inr (None, s)"
  using lru_rep_Nil_map [of s "[]"] by (simp add: lru_Victim_def)

lemma lru_init_rep: "lru_rep lru_init []"
  by (auto simp: lru_rep_def lru_shape_def dlist_def lru_init_def)

section \<open>The interface of a replacer\<close>

text \<open>
  The abstract class of \<^verbatim>\<open>buffer/replacer.h\<close>, with what the buffer pool relies on: the replacer
  holds a list of distinct values, an insertion moves a value to the front, a victim is the value
  at the back.
\<close>

fun rp_inserts :: "('a \<Rightarrow> 's \<Rightarrow> 's res) \<Rightarrow> 'a list \<Rightarrow> 's \<Rightarrow> 's res" where
  "rp_inserts ins [] s = ok s"
| "rp_inserts ins (v # vs) s = bindE (ins v s) (rp_inserts ins vs)"

fun rp_victims :: "('s \<Rightarrow> ('a option \<times> 's) res) \<Rightarrow> nat \<Rightarrow> 's \<Rightarrow> ('a option list \<times> 's) res" where
  "rp_victims vic 0 s = ok ([], s)"
| "rp_victims vic (Suc n) s =
     bindE (vic s) (\<lambda>(v, s1). bindE (rp_victims vic n s1) (\<lambda>(vs, s2). ok (v # vs, s2)))"

locale replacer =
  fixes insert :: "'a \<Rightarrow> 's \<Rightarrow> 's res"
    and victim :: "'s \<Rightarrow> ('a option \<times> 's) res"
    and erase :: "'a \<Rightarrow> 's \<Rightarrow> (bool \<times> 's) res"
    and rep :: "'s \<Rightarrow> 'a list \<Rightarrow> bool"
  assumes insert_law: "rep s xs \<Longrightarrow> \<exists>s'. insert v s = Inr s' \<and> rep s' (v # remove1 v xs)"
    and victim_empty: "rep s [] \<Longrightarrow> victim s = Inr (None, s)"
    and victim_law: "rep s (xs @ [x]) \<Longrightarrow> \<exists>s'. victim s = Inr (Some x, s') \<and> rep s' xs"
    and erase_law: "rep s xs \<Longrightarrow> \<exists>s'. erase v s = Inr (v \<in> set xs, s') \<and> rep s' (remove1 v xs)"
    and rep_distinct: "rep s xs \<Longrightarrow> distinct xs"
begin

lemma inserts_rep:
  "rep s xs \<Longrightarrow> \<exists>s'. rp_inserts insert vs s = Inr s' \<and> rep s' (fold (\<lambda>v ys. v # remove1 v ys) vs xs)"
proof (induction vs arbitrary: s xs)
  case (Cons v vs)
  then obtain s' where "insert v s = Inr s'" "rep s' (v # remove1 v xs)"
    using insert_law by blast
  with Cons.IH show ?case by simp
qed auto

lemma victims_rep:
  "rep s xs \<Longrightarrow> n \<le> length xs \<Longrightarrow>
     \<exists>s'. rp_victims victim n s = Inr (map Some (take n (rev xs)), s') \<and>
       rep s' (take (length xs - n) xs)"
proof (induction n arbitrary: s xs)
  case (Suc n)
  then obtain ys y where xs: "xs = ys @ [y]"
    by (metis Suc_le_length_iff append_butlast_last_id list.distinct(1))
  then obtain s1 where "victim s = Inr (Some y, s1)" "rep s1 ys"
    using victim_law Suc.prems by blast
  with Suc.IH [of s1 ys] Suc.prems(2) xs show ?case by auto
qed auto

end

interpretation lru: replacer lru_Insert lru_Victim lru_Erase lru_rep
  by unfold_locales
    (simp_all add: lru_Insert_correct lru_Victim_empty lru_Victim_correct lru_Erase_correct
      lru_rep_distinct)

lemma remove1_filter_distinct: "distinct ys \<Longrightarrow> remove1 v ys = filter (\<lambda>y. y \<noteq> v) ys"
  by (auto simp: distinct_remove1_removeAll removeAll_filter_not_eq intro: filter_cong)

lemma fold_move_front:
  "distinct ys \<Longrightarrow> fold (\<lambda>v ys. v # remove1 v ys) vs ys = rev (remdups vs) @ filter (\<lambda>y. y \<notin> set vs) ys"
proof (induction vs arbitrary: ys)
  case (Cons v vs)
  have "filter (\<lambda>y. y \<notin> set vs) (remove1 v ys) = filter (\<lambda>y. y \<notin> set (v # vs)) ys"
    using Cons.prems by (auto simp: remove1_filter_distinct intro: filter_cong)
  with Cons show ?case by simp
qed simp

section \<open>Destruction\<close>

lemma lru_cut_next_path:
  "linked hp (p # ps) \<Longrightarrow> ptrNext (hp ! last (p # ps)) = None \<Longrightarrow> distinct (p # ps) \<Longrightarrow>
   set (p # ps) \<subseteq> {..<length hp} \<Longrightarrow>
   \<exists>hp'. lru_cut_next (Some p) hp = Inr hp' \<and> length hp' = length hp \<and>
     (\<forall>q < length hp. hp' ! q = (if q \<in> set (p # ps) then (hp ! q)\<lparr>ptrNext := None\<rparr> else hp ! q))"
proof (induction ps arbitrary: p hp)
  case (Cons q ps)
  let ?hp = "hp[p := (hp ! p)\<lparr>ptrNext := None\<rparr>]"
  have "linked ?hp (q # ps) = linked hp (q # ps)"
    using Cons.prems by (intro linked_cong) (auto simp: nth_list_update dest: in_set_butlastD split: if_splits)
  then have "\<exists>hp'. lru_cut_next (Some q) ?hp = Inr hp' \<and> length hp' = length ?hp \<and>
      (\<forall>r < length ?hp. hp' ! r = (if r \<in> set (q # ps) then (?hp ! r)\<lparr>ptrNext := None\<rparr> else ?hp ! r))"
    using Cons.prems by (intro Cons.IH) (auto simp: nth_list_update)
  then show ?case
    using Cons.prems by (auto simp: nth_list_update)
qed simp

text \<open>The second loop runs on nodes that the first one has changed: only the pointers back are left.\<close>

abbreviation prev_chain :: "'a sNode list \<Rightarrow> nat list \<Rightarrow> bool" where
  "prev_chain hp \<equiv> successively (\<lambda>p q. ptrPrev (hp ! q) = Some p)"

lemma linked_prev_chain: "linked hp ps \<Longrightarrow> prev_chain hp ps"
  by (induction hp ps rule: linked.induct) auto

lemma lru_cut_prev_path:
  "prev_chain hp (ps @ [p]) \<Longrightarrow> ptrPrev (hp ! hd (ps @ [p])) = None \<Longrightarrow> distinct (ps @ [p]) \<Longrightarrow>
   set (ps @ [p]) \<subseteq> {..<length hp} \<Longrightarrow>
   \<exists>hp'. lru_cut_prev (Some p) hp = Inr hp' \<and>
     (\<forall>q < length hp. hp' ! q = (if q \<in> set (ps @ [p]) then (hp ! q)\<lparr>ptrPrev := None\<rparr> else hp ! q))"
proof (induction ps arbitrary: p hp rule: rev_induct)
  case (snoc q ps)
  let ?hp = "hp[p := (hp ! p)\<lparr>ptrPrev := None\<rparr>]"
  have l: "prev_chain hp (ps @ [q])" "ptrPrev (hp ! p) = Some q"
    using snoc.prems(1) by (auto simp: successively_append_iff)
  have "?hp ! y = hp ! y" if "y \<in> set (ps @ [q])" for y
    using snoc.prems(3) that by (intro nth_list_update_neq) auto
  then have "prev_chain ?hp (ps @ [q]) = prev_chain hp (ps @ [q])"
    by (intro successively_cong) auto
  moreover have "?hp ! hd (ps @ [q]) = hp ! hd (ps @ [q])" "hd ((ps @ [q]) @ [p]) = hd (ps @ [q])"
    using snoc.prems(3) by (cases ps; auto)+
  ultimately have "\<exists>hp'. lru_cut_prev (Some q) ?hp = Inr hp' \<and>
      (\<forall>r < length ?hp. hp' ! r = (if r \<in> set (ps @ [q]) then (?hp ! r)\<lparr>ptrPrev := None\<rparr> else ?hp ! r))"
    using snoc.prems l by (intro snoc.IH) auto
  then show ?case
    using snoc.prems l(2) by (auto simp: nth_list_update)
qed simp

section \<open>Properties\<close>

text \<open>
  C13. Victims come out in order of least recent use. After any sequence \<open>vs\<close> of insertions into a
  new replacer, successive calls of \<^verbatim>\<open>Victim\<close> return the distinct values of \<open>vs\<close> ordered by their
  last insertion (\<^const>\<open>remdups\<close> keeps last occurrences), after which \<^verbatim>\<open>Victim\<close> returns false.
\<close>

theorem lru_victims_by_recency:
  "\<exists>s s'. rp_inserts lru_Insert vs lru_init = Inr s \<and>
     rp_victims lru_Victim (length (remdups vs)) s = Inr (map Some (remdups vs), s') \<and>
     lru_Victim s' = Inr (None, s')"
proof -
  obtain s where s: "rp_inserts lru_Insert vs lru_init = Inr s" "lru_rep s (rev (remdups vs))"
    using lru.inserts_rep [OF lru_init_rep, of vs] by (auto simp: fold_move_front)
  then obtain s' where
    "rp_victims lru_Victim (length (remdups vs)) s = Inr (map Some (remdups vs), s')" "lru_rep s' []"
    using lru.victims_rep [OF s(2), of "length (remdups vs)"] by auto
  with s lru.victim_empty show ?thesis by blast
qed

text \<open>
  C14. On the linked list with its sentinels and its map, every operation is the list operation it
  stands for, and none of them dereferences a null or dangling pointer: an insertion moves the
  value to the front, an erasure reports membership and removes the value.
\<close>

theorem lru_operations_refine:
  assumes "lru_rep s xs"
  shows "(\<exists>s'. lru_Insert v s = Inr s' \<and> lru_rep s' (v # remove1 v xs)) \<and>
    (\<exists>s'. lru_Erase v s = Inr (v \<in> set xs, s') \<and> lru_rep s' (remove1 v xs)) \<and>
    (\<exists>s'. lru_Victim s = Inr (if xs = [] then None else Some (last xs), s') \<and> lru_rep s' (butlast xs))"
proof -
  have "\<exists>s'. lru_Victim s = Inr (if xs = [] then None else Some (last xs), s') \<and> lru_rep s' (butlast xs)"
  proof (cases xs rule: rev_cases)
    case (snoc ys y)
    with assms lru.victim_law [of s ys y] show ?thesis by simp
  qed (use assms lru.victim_empty in auto)
  with lru.insert_law [OF assms] lru.erase_law [OF assms] show ?thesis by blast
qed

theorem lru_operations_refine_witness:
  "(\<exists>s'. lru_Insert 5 (lru_init :: nat LRUReplacer) = Inr s' \<and> lru_rep s' (5 # remove1 5 [])) \<and>
    (\<exists>s'. lru_Erase 5 (lru_init :: nat LRUReplacer) = Inr ((5::nat) \<in> set [], s') \<and>
       lru_rep s' (remove1 5 [])) \<and>
    (\<exists>s'. lru_Victim (lru_init :: nat LRUReplacer) =
       Inr (if ([]::nat list) = [] then None else Some (last []), s') \<and> lru_rep s' (butlast []))"
  by (rule lru_operations_refine [OF lru_init_rep])

text \<open>
  C38. Destroying a replacer ends without a null or dangling dereference and leaves no node of its
  list \<open>ns\<close>, the sentinels included, owning another one: the shared pointers form no cycle any
  more, so that every node is released. (Every state that the operations reach has such a list, by
  \<^const>\<open>lru_rep\<close>.)
\<close>

theorem lru_destroy_releases:
  assumes "lru_shape s ns"
  shows "\<exists>hp. lru_destroy s = Inr hp \<and>
    (\<forall>p \<in> set (mHead s # ns @ [mTail s]). ptrPrev (hp ! p) = None \<and> ptrNext (hp ! p) = None)"
proof -
  let ?ps = "mHead s # ns @ [mTail s]"
  note d = shape_distinct [OF assms]
  have b: "set ?ps \<subseteq> {..<length (heap s)}" using shape_bound [OF assms] by auto
  obtain hp where hp: "lru_cut_next (Some (mHead s)) (heap s) = Inr hp" "length hp = length (heap s)"
    "\<forall>q < length (heap s). hp ! q = (if q \<in> set ?ps then (heap s ! q)\<lparr>ptrNext := None\<rparr> else heap s ! q)"
    using lru_cut_next_path [OF shape_linked [OF assms] _ d b] shape_dlist [OF assms]
    by (auto simp: dlist_def)
  have same: "ptrPrev (hp ! q) = ptrPrev (heap s ! q)" if "q \<in> set ?ps" for q
    using hp(3) b that by auto
  have "prev_chain hp ?ps = prev_chain (heap s) ?ps"
    using same by (intro successively_cong) auto
  then obtain hp' where "lru_cut_prev (Some (mTail s)) hp = Inr hp'"
    "\<forall>q < length hp. hp' ! q = (if q \<in> set ?ps then (hp ! q)\<lparr>ptrPrev := None\<rparr> else hp ! q)"
    using lru_cut_prev_path [of hp "mHead s # ns" "mTail s"] linked_prev_chain [OF shape_linked [OF assms]]
      shape_dlist [OF assms] same [of "mHead s"] d b hp(2) by (auto simp: dlist_def)
  with hp b show ?thesis by (intro exI [of _ hp']) (auto simp: lru_destroy_def)
qed

theorem lru_destroy_releases_witness:
  "\<exists>hp. lru_destroy (lru_init :: nat LRUReplacer) = Inr hp \<and>
    (\<forall>p \<in> set [0, 1]. ptrPrev (hp ! p) = None \<and> ptrNext (hp ! p) = None)"
proof -
  have "lru_shape (lru_init :: nat LRUReplacer) []"
    by (auto simp: lru_shape_def dlist_def lru_init_def)
  from lru_destroy_releases [OF this] show ?thesis by (simp add: lru_init_def)
qed

end
