(* ===== verification/Page_Bytes.thy ===== *)
theory Page_Bytes
  imports Scudb_Prelude
begin

text \<open>
  Memory as the pages and files of the program see it: byte lists, the blocks copied into and out
  of them, and the little-endian two's complement representation of \<^verbatim>\<open>int32_t\<close>
  (\<^verbatim>\<open>page_id_t\<close>, \<^verbatim>\<open>lsn_t\<close> and \<^verbatim>\<open>int\<close>) that \<^verbatim>\<open>memcpy\<close> and \<^verbatim>\<open>reinterpret_cast\<close> expose. The constants
  of \<^verbatim>\<open>common/config.h\<close> are here as well.
\<close>

type_synonym byte = "8 word"

abbreviation PAGE_SIZE :: nat where
  "PAGE_SIZE \<equiv> 512"

abbreviation INVALID_PAGE_ID :: int where
  "INVALID_PAGE_ID \<equiv> - 1"

section \<open>32-bit integers\<close>

text \<open>The value of an integer after conversion to \<^verbatim>\<open>int32_t\<close>.\<close>

definition int32 :: "int \<Rightarrow> int" where
  "int32 i = (i + 2147483648) mod 4294967296 - 2147483648"

abbreviation in32 :: "int \<Rightarrow> bool" where
  "in32 i \<equiv> - 2147483648 \<le> i \<and> i < 2147483648"

lemma int32_in32: "in32 (int32 i)"
  by (simp add: int32_def)

lemma int32_id [simp]: "in32 i \<Longrightarrow> int32 i = i"
  by (simp add: int32_def)

definition enc32 :: "int \<Rightarrow> byte list" where
  "enc32 i = [word_of_int i, word_of_int (i div 256), word_of_int (i div 65536),
     word_of_int (i div 16777216)]"

definition dec32 :: "byte list \<Rightarrow> int" where
  "dec32 bs = int32 (uint (bs ! 0) + 256 * uint (bs ! 1) + 65536 * uint (bs ! 2)
     + 16777216 * uint (bs ! 3))"

lemma length_enc32 [simp]: "length (enc32 i) = 4"
  by (simp add: enc32_def)

lemma digits256:
  fixes i :: int
  shows "i mod 256 + 256 * (i div 256 mod 256) + 65536 * (i div 65536 mod 256)
    + 16777216 * (i div 16777216 mod 256) = i mod 4294967296"
proof -
  have "i mod (256 * 256) = 256 * (i div 256 mod 256) + i mod 256"
    "i mod (65536 * 256) = 65536 * (i div 65536 mod 256) + i mod 65536"
    "i mod (16777216 * 256) = 16777216 * (i div 16777216 mod 256) + i mod 16777216"
    by (rule zmod_zmult2_eq, simp)+
  then show ?thesis by simp
qed

lemma dec32_enc32 [simp]: "dec32 (enc32 i) = int32 i"
proof -
  have "dec32 (enc32 i) = int32 (i mod 4294967296)"
    unfolding dec32_def enc32_def
    by (simp add: unsigned_of_int take_bit_eq_mod digits256)
  then show ?thesis
    by (simp add: int32_def mod_add_left_eq)
qed

lemma dec32_in32: "in32 (dec32 bs)"
  unfolding dec32_def by (rule int32_in32)

section \<open>Blocks\<close>

definition bget :: "byte list \<Rightarrow> nat \<Rightarrow> nat \<Rightarrow> byte list" where
  "bget d off n = take n (drop off d)"

definition bput :: "byte list \<Rightarrow> nat \<Rightarrow> byte list \<Rightarrow> byte list" where
  "bput d off bs = take off d @ bs @ drop (off + length bs) d"

named_theorems block_simps \<open>blocks read and written in a byte list\<close>

lemma length_bget [block_simps]: "off + n \<le> length d \<Longrightarrow> length (bget d off n) = n"
  by (simp add: bget_def)

lemma length_bput [block_simps]: "off + length bs \<le> length d \<Longrightarrow> length (bput d off bs) = length d"
  by (simp add: bput_def)

lemma nth_bput:
  "off + length bs \<le> length d \<Longrightarrow> i < length d \<Longrightarrow>
     bput d off bs ! i = (if off \<le> i \<and> i < off + length bs then bs ! (i - off) else d ! i)"
  by (auto simp: bput_def nth_append)

lemma nth_bget: "off + n \<le> length d \<Longrightarrow> i < n \<Longrightarrow> bget d off n ! i = d ! (off + i)"
  by (simp add: bget_def)

lemma bget_bput_same [block_simps]:
  "off + length bs \<le> length d \<Longrightarrow> length bs = n \<Longrightarrow> bget (bput d off bs) off n = bs"
  by (simp add: bget_def bput_def)

lemma bget_bput_other [block_simps]:
  assumes "off + length bs \<le> length d" and "p + n \<le> length d" and "p + n \<le> off \<or> off + length bs \<le> p"
  shows "bget (bput d off bs) p n = bget d p n"
  using assms by (intro nth_equalityI) (auto simp: length_bget length_bput nth_bget nth_bput)

lemma bget_bput_sub [block_simps]:
  assumes "off + length bs \<le> length d" and "off \<le> p" and "p + n \<le> off + length bs"
  shows "bget (bput d off bs) p n = bget bs (p - off) n"
  using assms by (intro nth_equalityI) (auto simp: length_bget length_bput nth_bget nth_bput)

lemma bget_bget [block_simps]: "b + n \<le> m \<Longrightarrow> bget (bget d a m) b n = bget d (a + b) n"
  by (simp add: bget_def take_drop drop_drop add.commute min_def)

lemma bget_append: "a + b = n \<Longrightarrow> bget d off n = bget d off a @ bget d (off + a) b"
  by (auto simp: bget_def take_add drop_drop add.commute)

section \<open>Accesses with a signed offset\<close>

text \<open>
  Offsets are \<^verbatim>\<open>int\<close> expressions in the code. An access outside the 512 bytes of a page (of the
  byte list) is a fault.
\<close>

definition rd_bytes :: "byte list \<Rightarrow> int \<Rightarrow> int \<Rightarrow> byte list res" where
  "rd_bytes d off n =
     (if 0 \<le> off \<and> 0 \<le> n \<and> off + n \<le> int (length d) then ok (bget d (nat off) (nat n))
      else fail Out_Of_Bounds)"

definition wr_bytes :: "byte list \<Rightarrow> int \<Rightarrow> byte list \<Rightarrow> byte list res" where
  "wr_bytes d off bs =
     (if 0 \<le> off \<and> off + int (length bs) \<le> int (length d) then ok (bput d (nat off) bs)
      else fail Out_Of_Bounds)"

definition rd32 :: "byte list \<Rightarrow> int \<Rightarrow> int res" where
  "rd32 d off = bindE (rd_bytes d off 4) (\<lambda>bs. ok (dec32 bs))"

definition wr32 :: "byte list \<Rightarrow> int \<Rightarrow> int \<Rightarrow> byte list res" where
  "wr32 d off v = wr_bytes d off (enc32 v)"

text \<open>\<^verbatim>\<open>memmove\<close> within one page reads the whole source before it writes.\<close>

definition mem_move :: "byte list \<Rightarrow> int \<Rightarrow> int \<Rightarrow> int \<Rightarrow> byte list res" where
  "mem_move d dst src n = bindE (rd_bytes d src n) (wr_bytes d dst)"

definition get32 :: "byte list \<Rightarrow> nat \<Rightarrow> int" where
  "get32 d off = dec32 (bget d off 4)"

definition put32 :: "byte list \<Rightarrow> nat \<Rightarrow> int \<Rightarrow> byte list" where
  "put32 d off v = bput d off (enc32 v)"

lemma rd32_in [simp]: "off + 4 \<le> length d \<Longrightarrow> rd32 d (int off) = Inr (get32 d off)"
  by (simp add: rd32_def rd_bytes_def get32_def)

lemma wr32_in [simp]: "off + 4 \<le> length d \<Longrightarrow> wr32 d (int off) v = Inr (put32 d off v)"
  by (simp add: wr32_def wr_bytes_def put32_def)

lemma rd_bytes_in [simp]: "off + n \<le> length d \<Longrightarrow> rd_bytes d (int off) (int n) = Inr (bget d off n)"
  by (simp add: rd_bytes_def)

lemma wr_bytes_in [simp]:
  "off + length bs \<le> length d \<Longrightarrow> wr_bytes d (int off) bs = Inr (bput d off bs)"
  by (simp add: wr_bytes_def)

lemma mem_move_in:
  "src + n \<le> length d \<Longrightarrow> dst + n \<le> length d \<Longrightarrow>
     mem_move d (int dst) (int src) (int n) = Inr (bput d dst (bget d src n))"
  by (simp add: mem_move_def length_bget)

lemma length_put32 [block_simps, simp]: "off + 4 \<le> length d \<Longrightarrow> length (put32 d off v) = length d"
  by (simp add: put32_def length_bput)

lemma get32_put32_same [block_simps, simp]:
  "off + 4 \<le> length d \<Longrightarrow> get32 (put32 d off v) off = int32 v"
  by (simp add: get32_def put32_def bget_bput_same)

lemma get32_put32_other [block_simps]:
  "off + 4 \<le> length d \<Longrightarrow> p + 4 \<le> length d \<Longrightarrow> p + 4 \<le> off \<or> off + 4 \<le> p \<Longrightarrow>
     get32 (put32 d off v) p = get32 d p"
  by (simp add: get32_def put32_def bget_bput_other)

lemma bget_put32_other [block_simps]:
  "off + 4 \<le> length d \<Longrightarrow> p + n \<le> length d \<Longrightarrow> p + n \<le> off \<or> off + 4 \<le> p \<Longrightarrow>
     bget (put32 d off v) p n = bget d p n"
  by (simp add: put32_def bget_bput_other)

lemma get32_bput_other [block_simps]:
  "off + length bs \<le> length d \<Longrightarrow> p + 4 \<le> length d \<Longrightarrow> p + 4 \<le> off \<or> off + length bs \<le> p \<Longrightarrow>
     get32 (bput d off bs) p = get32 d p"
  by (simp add: get32_def bget_bput_other)

lemma get32_in32: "in32 (get32 d off)"
  unfolding get32_def by (rule dec32_in32)

end
