(* ===== verification/Disk_Manager.thy ===== *)
theory Disk_Manager
  imports Page_Bytes
begin

text \<open>
  The disk manager of \<^verbatim>\<open>disk/disk_manager.h\<close> and \<^verbatim>\<open>disk/disk_manager.cpp\<close>.

  A file is the list of its bytes. Each \<^verbatim>\<open>std::fstream\<close> is its file together with the bit
  \<open>good\<close> of its state: a read that meets the end of the file sets \<^verbatim>\<open>eofbit\<close> and \<^verbatim>\<open>failbit\<close>, a seek to
  a negative position sets \<^verbatim>\<open>failbit\<close>, and as long as a bit is set every further seek, read and
  write of the stream does nothing, which is what the C++ standard prescribes. Operating system
  failures (\<^verbatim>\<open>badbit\<close>) are outside the model. The offset of a page is an \<^verbatim>\<open>int\<close> product, undefined
  when it leaves 32 bits.
\<close>

section \<open>State\<close>

record DiskManager =
  db_file :: "byte list"
  db_good :: bool
  log_file :: "byte list"
  log_good :: bool
  next_page_id :: int
  num_flushes :: int
  flush_log :: bool
  flush_log_f :: "bool option" \<comment> \<open>whether the future set by \<open>SetFlushLogFuture\<close> becomes ready in time\<close>
  buffer_used :: "nat option" \<comment> \<open>the static pointer to the log buffer written last\<close>

section \<open>Operations\<close>

text \<open>
  A manager whose two streams are open, on files with the given contents, and the constructor: a file
  that does not exist is created empty. A name without a dot opens no stream at all (the result is
  \<^const>\<open>None\<close>, a manager that no operation below is defined for).
\<close>

definition dm_init :: "byte list \<Rightarrow> byte list \<Rightarrow> DiskManager" where
  "dm_init db lg =
     \<lparr>db_file = db, db_good = True, log_file = lg, log_good = True, next_page_id = 0,
      num_flushes = 0, flush_log = False, flush_log_f = None, buffer_used = None\<rparr>"

definition dm_open :: "string \<Rightarrow> byte list option \<Rightarrow> byte list option \<Rightarrow> DiskManager option" where
  "dm_open file_name db lg =
     (if CHR ''.'' \<notin> set file_name then None
      else Some (dm_init (case db of None \<Rightarrow> [] | Some f \<Rightarrow> f) (case lg of None \<Rightarrow> [] | Some f \<Rightarrow> f)))"

definition page_offset :: "int \<Rightarrow> int res" where
  "page_offset page_id =
     (let off = page_id * 512 in if in32 off then ok off else fail Undefined_Behaviour)"

text \<open>A write at a position past the end leaves zero bytes between the end and the position.\<close>

definition write_at :: "byte list \<Rightarrow> nat \<Rightarrow> byte list \<Rightarrow> byte list" where
  "write_at f off bs =
     take off (f @ replicate (off - length f) 0) @ bs @ drop (off + length bs) f"

definition dm_GetFileSize :: "byte list \<Rightarrow> int" where
  "dm_GetFileSize f = int32 (int (length f))"

definition dm_WritePage :: "DiskManager \<Rightarrow> int \<Rightarrow> byte list \<Rightarrow> DiskManager res" where
  "dm_WritePage dm page_id page_data =
     bindE (page_offset page_id) (\<lambda>off.
       if \<not> db_good dm then ok dm
       else if off < 0 then ok (dm\<lparr>db_good := False\<rparr>)
       else ok (dm\<lparr>db_file := write_at (db_file dm) (nat off) (take PAGE_SIZE page_data)\<rparr>))"

definition dm_ReadPage :: "DiskManager \<Rightarrow> int \<Rightarrow> byte list \<Rightarrow> (DiskManager \<times> byte list) res" where
  "dm_ReadPage dm page_id page_data =
     bindE (page_offset page_id) (\<lambda>off.
       if off > dm_GetFileSize (db_file dm) then ok (dm, page_data)
       else if \<not> db_good dm then ok (dm, replicate PAGE_SIZE 0)
       else if off < 0 then ok (dm\<lparr>db_good := False\<rparr>, replicate PAGE_SIZE 0)
       else
         (let got = bget (db_file dm) (nat off) PAGE_SIZE; read_count = length got in
          if read_count < PAGE_SIZE
          then ok (dm\<lparr>db_good := False\<rparr>, got @ replicate (PAGE_SIZE - read_count) 0)
          else ok (dm, got)))"

text \<open>
  The log buffer is identified by its address. \<^verbatim>\<open>size == 0\<close> returns after the swap of the buffer.
\<close>

definition dm_WriteLog :: "DiskManager \<Rightarrow> nat \<Rightarrow> byte list \<Rightarrow> DiskManager res" where
  "dm_WriteLog dm log_data bytes =
     bindE (assertE (buffer_used dm \<noteq> Some log_data)) (\<lambda>_.
     let dm1 = dm\<lparr>buffer_used := Some log_data\<rparr> in
       if bytes = [] then ok dm1
       else
         bindE (assertE (flush_log_f dm1 \<noteq> Some False)) (\<lambda>_.
           ok (dm1\<lparr>num_flushes := num_flushes dm1 + 1,
                   log_file := (if log_good dm1 then log_file dm1 @ bytes else log_file dm1),
                   flush_log := False\<rparr>)))"

definition dm_ReadLog ::
  "DiskManager \<Rightarrow> int \<Rightarrow> int \<Rightarrow> byte list \<Rightarrow> (bool \<times> DiskManager \<times> byte list) res" where
  "dm_ReadLog dm sz off log_data =
     (if off \<ge> dm_GetFileSize (log_file dm) then ok (False, dm, log_data)
      else
        (let dm1 = (if off < 0 then dm\<lparr>log_good := False\<rparr> else dm);
             got = (if log_good dm1 then bget (log_file dm1) (nat off) (nat sz) else []) in
         if int (length got) < sz
         then ok (True, dm1\<lparr>log_good := True\<rparr>, got @ replicate (nat sz - length got) 0)
         else ok (True, dm1, got)))"

definition dm_AllocatePage :: "DiskManager \<Rightarrow> int \<times> DiskManager" where
  "dm_AllocatePage dm = (next_page_id dm, dm\<lparr>next_page_id := int32 (next_page_id dm + 1)\<rparr>)"

definition dm_DeallocatePage :: "DiskManager \<Rightarrow> int \<Rightarrow> DiskManager" where
  "dm_DeallocatePage dm page_id = dm"

definition dm_GetNumFlushes :: "DiskManager \<Rightarrow> int" where
  "dm_GetNumFlushes dm = num_flushes dm"

definition dm_GetFlushState :: "DiskManager \<Rightarrow> bool" where
  "dm_GetFlushState dm = flush_log dm"

definition dm_SetFlushLogFuture :: "DiskManager \<Rightarrow> bool option \<Rightarrow> DiskManager" where
  "dm_SetFlushLogFuture dm f = dm\<lparr>flush_log_f := f\<rparr>"

definition dm_HasFlushLogFuture :: "DiskManager \<Rightarrow> bool" where
  "dm_HasFlushLogFuture dm \<longleftrightarrow> flush_log_f dm \<noteq> None"

section \<open>What the file holds\<close>

text \<open>
  Page numbers below \<open>2 ^ 22 - 1\<close> have a defined offset, and a file of such pages has a size
  that fits the \<^verbatim>\<open>int\<close> of \<^verbatim>\<open>GetFileSize\<close>.
\<close>

definition pid_ok :: "int \<Rightarrow> bool" where
  "pid_ok p \<longleftrightarrow> 0 \<le> p \<and> p < 4194303"

definition dm_ok :: "DiskManager \<Rightarrow> bool" where
  "dm_ok dm \<longleftrightarrow> db_good dm \<and> length (db_file dm) \<le> 512 * 4194303"

definition disk_page :: "DiskManager \<Rightarrow> int \<Rightarrow> byte list option" where
  "disk_page dm p =
     (if 0 \<le> p \<and> nat p * 512 + 512 \<le> length (db_file dm)
      then Some (bget (db_file dm) (nat p * 512) 512) else None)"

lemma length_disk_page: "disk_page dm p = Some d \<Longrightarrow> length d = PAGE_SIZE"
  by (auto simp: disk_page_def length_bget split: if_splits)

lemma page_offset_ok: "pid_ok p \<Longrightarrow> page_offset p = Inr (p * 512)"
  by (simp add: page_offset_def pid_ok_def Let_def)

lemma nat_offset: "pid_ok p \<Longrightarrow> nat (p * 512) = nat p * 512"
  by (simp add: pid_ok_def nat_mult_distrib)

lemma length_write_at: "length (write_at f off bs) = max (length f) (off + length bs)"
  by (auto simp: write_at_def)

lemma bget_write_at_same: "length bs = n \<Longrightarrow> bget (write_at f off bs) off n = bs"
  by (simp add: write_at_def bget_def)

lemma nth_write_at:
  "i < length f \<Longrightarrow> i < off \<or> off + length bs \<le> i \<Longrightarrow> write_at f off bs ! i = f ! i"
  by (auto simp: write_at_def nth_append min_def)

lemma bget_write_at_other:
  assumes "p + n \<le> length f" and "p + n \<le> off \<or> off + length bs \<le> p"
  shows "bget (write_at f off bs) p n = bget f p n"
proof (rule nth_equalityI)
  have len: "p + n \<le> length (write_at f off bs)"
    using assms(1) by (simp add: length_write_at)
  then show "length (bget (write_at f off bs) p n) = length (bget f p n)"
    using assms(1) by (simp add: length_bget)
  fix i assume "i < length (bget (write_at f off bs) p n)"
  with len have i: "i < n" by (simp add: length_bget)
  then show "bget (write_at f off bs) p n ! i = bget f p n ! i"
    using assms by (simp add: nth_bget [OF len] nth_bget [OF assms(1)]) (rule nth_write_at, auto)
qed

section \<open>The interface of a page store\<close>

text \<open>
  What the buffer pool relies on: a page that was written is read back, and a write disturbs no
  other page.
\<close>

locale page_store =
  fixes put_page :: "'d \<Rightarrow> int \<Rightarrow> byte list \<Rightarrow> 'd res"
    and get_page :: "'d \<Rightarrow> int \<Rightarrow> byte list \<Rightarrow> ('d \<times> byte list) res"
    and invar :: "'d \<Rightarrow> bool"
    and valid :: "int \<Rightarrow> bool"
    and content :: "'d \<Rightarrow> int \<Rightarrow> byte list option"
  assumes write_law: "invar d \<Longrightarrow> valid p \<Longrightarrow> length bs = PAGE_SIZE \<Longrightarrow>
      \<exists>d'. put_page d p bs = Inr d' \<and> invar d' \<and> content d' p = Some bs \<and>
        (\<forall>q x. q \<noteq> p \<longrightarrow> content d q = Some x \<longrightarrow> content d' q = Some x)"
    and read_law: "invar d \<Longrightarrow> valid p \<Longrightarrow> content d p = Some bs \<Longrightarrow> get_page d p buf = Inr (d, bs)"
begin

lemma put_then_get:
  assumes "invar d" and "valid p" and "length bs = PAGE_SIZE"
  shows "\<exists>d'. put_page d p bs = Inr d' \<and> get_page d' p buf = Inr (d', bs) \<and>
    (\<forall>q x. q \<noteq> p \<longrightarrow> valid q \<longrightarrow> content d q = Some x \<longrightarrow> get_page d' q buf = Inr (d', x))"
  using write_law [OF assms] assms(2) by (meson read_law)

end

lemma dm_WritePage_ok:
  assumes "dm_ok dm" and "pid_ok p" and "length bs = PAGE_SIZE"
  shows "\<exists>dm'. dm_WritePage dm p bs = Inr dm' \<and> dm_ok dm' \<and> disk_page dm' p = Some bs \<and>
    (\<forall>q x. q \<noteq> p \<longrightarrow> disk_page dm q = Some x \<longrightarrow> disk_page dm' q = Some x)"
proof -
  let ?o = "nat p * 512"
  let ?dm = "dm\<lparr>db_file := write_at (db_file dm) ?o bs\<rparr>"
  have p: "nat p < 4194303" using assms(2) by (auto simp: pid_ok_def)
  have "dm_WritePage dm p bs = Inr ?dm"
    using assms by (auto simp: dm_WritePage_def page_offset_ok nat_offset dm_ok_def pid_ok_def)
  moreover have "dm_ok ?dm"
    using assms p by (simp add: dm_ok_def length_write_at)
  moreover have "disk_page ?dm p = Some bs"
    using assms by (simp add: disk_page_def length_write_at bget_write_at_same pid_ok_def)
  moreover have "disk_page ?dm q = Some x" if q: "q \<noteq> p" "disk_page dm q = Some x" for q x
  proof -
    have q0: "0 \<le> q" "nat q * 512 + 512 \<le> length (db_file dm)"
      "x = bget (db_file dm) (nat q * 512) 512"
      using q(2) by (auto simp: disk_page_def split: if_splits)
    have "nat q \<noteq> nat p" using q(1) q0(1) assms(2) by (auto simp: pid_ok_def)
    then have "nat q * 512 + 512 \<le> ?o \<or> ?o + length bs \<le> nat q * 512"
      using assms(3) by linarith
    then show ?thesis
      using q0 by (simp add: disk_page_def length_write_at bget_write_at_other)
  qed
  ultimately show ?thesis by blast
qed

lemma dm_ReadPage_ok:
  assumes "dm_ok dm" and "pid_ok p" and "disk_page dm p = Some bs"
  shows "dm_ReadPage dm p buf = Inr (dm, bs)"
proof -
  have q: "nat p * 512 + 512 \<le> length (db_file dm)" "bs = bget (db_file dm) (nat p * 512) 512"
    using assms(3) by (auto simp: disk_page_def split: if_splits)
  have "dm_GetFileSize (db_file dm) = int (length (db_file dm))"
    using assms(1) by (simp add: dm_GetFileSize_def dm_ok_def)
  moreover have "\<not> p < 0" "\<not> int (length (db_file dm)) < p * 512"
    using assms(2) q(1) by (auto simp: pid_ok_def)
  ultimately show ?thesis
    using assms q length_bget [OF q(1)]
    by (simp add: dm_ReadPage_def page_offset_ok nat_offset dm_ok_def Let_def)
qed

interpretation disk: page_store dm_WritePage dm_ReadPage dm_ok pid_ok disk_page
  by unfold_locales (rule dm_WritePage_ok dm_ReadPage_ok; assumption)+

text \<open>A sequence of accesses to the file.\<close>

datatype access = DRead int "byte list" | DWrite int "byte list"

fun access_page :: "access \<Rightarrow> int" where
  "access_page (DRead p _) = p"
| "access_page (DWrite p _) = p"

fun dm_run :: "DiskManager \<Rightarrow> access list \<Rightarrow> DiskManager res" where
  "dm_run dm [] = ok dm"
| "dm_run dm (DRead p buf # ops) = bindE (dm_ReadPage dm p buf) (\<lambda>(dm1, _). dm_run dm1 ops)"
| "dm_run dm (DWrite p bs # ops) = bindE (dm_WritePage dm p bs) (\<lambda>dm1. dm_run dm1 ops)"

lemma dm_run_bad:
  "\<not> db_good dm \<Longrightarrow> list_all (\<lambda>a. pid_ok (access_page a)) ops \<Longrightarrow> dm_run dm ops = Inr dm"
  by (induction dm ops rule: dm_run.induct) (simp_all add: dm_ReadPage_def dm_WritePage_def page_offset_ok)

lemma dm_ReadPage_short:
  assumes "db_good dm" and "pid_ok p" and "length (db_file dm) < 2147483648"
    and "nat p * 512 \<le> length (db_file dm)" and "length (db_file dm) < nat p * 512 + 512"
  shows "dm_ReadPage dm p buf = Inr (dm\<lparr>db_good := False\<rparr>,
    drop (nat p * 512) (db_file dm) @ replicate (nat p * 512 + 512 - length (db_file dm)) 0)"
proof -
  have "dm_GetFileSize (db_file dm) = int (length (db_file dm))"
    using assms(3) by (simp add: dm_GetFileSize_def)
  moreover have "\<not> p < 0" "\<not> int (length (db_file dm)) < p * 512"
    using assms(2,4) by (auto simp: pid_ok_def)
  ultimately show ?thesis
    using assms by (auto simp: dm_ReadPage_def page_offset_ok nat_offset Let_def bget_def)
qed

section \<open>Properties\<close>

text \<open>
  C15. What is written to a page is what the next read of the page returns, whatever the buffer
  held, and reading any other page of the file gives what it gave before the write.
\<close>

theorem disk_write_read:
  assumes "dm_ok dm" and "pid_ok p" and "length bs = PAGE_SIZE"
  shows "\<exists>dm'. dm_WritePage dm p bs = Inr dm' \<and> dm_ReadPage dm' p buf = Inr (dm', bs) \<and>
    (\<forall>q x. q \<noteq> p \<longrightarrow> pid_ok q \<longrightarrow> disk_page dm q = Some x \<longrightarrow> dm_ReadPage dm' q buf = Inr (dm', x))"
  using assms by (rule disk.put_then_get)

theorem disk_write_read_witness:
  "\<exists>dm'. dm_WritePage (dm_init [] []) 3 (replicate PAGE_SIZE 7) = Inr dm' \<and>
    dm_ReadPage dm' 3 [] = Inr (dm', replicate PAGE_SIZE 7) \<and>
    (\<forall>q x. q \<noteq> 3 \<longrightarrow> pid_ok q \<longrightarrow> disk_page (dm_init [] []) q = Some x \<longrightarrow>
       dm_ReadPage dm' q [] = Inr (dm', x))"
  by (rule disk_write_read) (simp_all add: dm_ok_def dm_init_def pid_ok_def)

text \<open>
  C16. A read that meets the end of the file disables the stream: nothing clears its state, so that
  from then on, whatever pages are read and written, the file stays as it is (every write is lost,
  to pages that are stored as well as to new ones), and every read of a page that lies in the file
  delivers zeros.
\<close>

theorem disk_short_read_disables_writes:
  assumes "db_good dm" and "pid_ok p" and "length (db_file dm) < 2147483648"
    and "nat p * 512 \<le> length (db_file dm)" and "length (db_file dm) < nat p * 512 + 512"
  shows "\<exists>dm' d. dm_ReadPage dm p buf = Inr (dm', d) \<and> db_file dm' = db_file dm \<and>
    (\<forall>ops. list_all (\<lambda>a. pid_ok (access_page a)) ops \<longrightarrow> dm_run dm' ops = Inr dm') \<and>
    (\<forall>q x buf'. pid_ok q \<longrightarrow> disk_page dm q = Some x \<longrightarrow> dm_ReadPage dm' q buf' = Inr (dm', replicate PAGE_SIZE 0))"
proof -
  have size: "dm_GetFileSize (db_file dm) = int (length (db_file dm))"
    using assms(3) by (simp add: dm_GetFileSize_def)
  have "\<not> int (length (db_file dm)) < q * 512" if "disk_page dm q = Some x" for q x
    using that by (auto simp: disk_page_def split: if_splits)
  then show ?thesis
    unfolding dm_ReadPage_short [OF assms]
    using dm_run_bad by (simp add: dm_ReadPage_def page_offset_ok size) blast
qed

theorem disk_short_read_disables_writes_witness:
  "\<exists>dm' d. dm_ReadPage (dm_init (replicate 512 1) []) 1 [] = Inr (dm', d) \<and>
    dm_run dm' [DWrite 0 (replicate 512 9), DWrite 1 (replicate 512 9), DRead 0 [], DWrite 5 (replicate 512 9)] = Inr dm' \<and>
    db_file dm' = db_file (dm_init (replicate 512 1) []) \<and>
    dm_ReadPage dm' 0 [] = Inr (dm', replicate PAGE_SIZE 0)"
proof -
  have a: "list_all (\<lambda>a. pid_ok (access_page a))
      [DWrite 0 (replicate 512 9), DWrite 1 (replicate 512 9), DRead 0 [], DWrite 5 (replicate 512 9)]"
    by (simp add: pid_ok_def)
  have b: "pid_ok 0" "disk_page (dm_init (replicate 512 1) []) 0 = Some (replicate 512 1)"
    by (simp_all add: pid_ok_def disk_page_def dm_init_def bget_def)
  have "\<exists>dm' d. dm_ReadPage (dm_init (replicate 512 1) []) 1 [] = Inr (dm', d) \<and>
    db_file dm' = db_file (dm_init (replicate 512 1) []) \<and>
    (\<forall>ops. list_all (\<lambda>a. pid_ok (access_page a)) ops \<longrightarrow> dm_run dm' ops = Inr dm') \<and>
    (\<forall>q x buf'. pid_ok q \<longrightarrow> disk_page (dm_init (replicate 512 1) []) q = Some x \<longrightarrow>
      dm_ReadPage dm' q buf' = Inr (dm', replicate PAGE_SIZE 0))"
    by (rule disk_short_read_disables_writes) (simp_all add: dm_init_def pid_ok_def)
  then show ?thesis using a b by blast
qed

text \<open>
  The log is an append-only file: after a write of a non-empty buffer from an address other
  than the last one, \<^verbatim>\<open>ReadLog\<close> at the old end returns exactly those bytes, the number of flushes
  has grown by one, and a second write from the same address is stopped by the assertion.
\<close>

theorem log_write_read:
  assumes "log_good dm" and "buffer_used dm \<noteq> Some a" and "flush_log_f dm \<noteq> Some False"
    and "bytes \<noteq> []" and "length (log_file dm) + length bytes < 2147483648"
  shows "\<exists>dm'. dm_WriteLog dm a bytes = Inr dm' \<and>
    dm_ReadLog dm' (int (length bytes)) (int (length (log_file dm))) buf = Inr (True, dm', bytes) \<and>
    dm_GetNumFlushes dm' = dm_GetNumFlushes dm + 1 \<and>
    dm_WriteLog dm' a bytes2 = Inl Assertion_Failed"
proof -
  let ?dm = "dm\<lparr>buffer_used := Some a, num_flushes := num_flushes dm + 1,
    log_file := log_file dm @ bytes, flush_log := False\<rparr>"
  have "dm_WriteLog dm a bytes = Inr ?dm"
    using assms by (simp add: dm_WriteLog_def Let_def)
  moreover have "dm_ReadLog ?dm (int (length bytes)) (int (length (log_file dm))) buf = Inr (True, ?dm, bytes)"
    using assms by (simp add: dm_ReadLog_def dm_GetFileSize_def Let_def bget_def)
  ultimately show ?thesis
    by (simp add: dm_GetNumFlushes_def dm_WriteLog_def)
qed

theorem log_write_read_witness:
  "\<exists>dm'. dm_WriteLog (dm_init [] [1, 2]) 100 [3, 4, 5] = Inr dm' \<and>
    dm_ReadLog dm' (int (length [3, 4, 5 :: byte])) (int (length (log_file (dm_init [] [1, 2])))) []
      = Inr (True, dm', [3, 4, 5]) \<and>
    dm_GetNumFlushes dm' = dm_GetNumFlushes (dm_init [] [1, 2]) + 1 \<and>
    dm_WriteLog dm' 100 [6] = Inl Assertion_Failed"
  by (rule log_write_read) (simp_all add: dm_init_def)

end
