(* ===== verification/Buffer_Pool.thy ===== *)
theory Buffer_Pool
  imports Extendible_Hash Lru_Replacer Disk_Manager
begin

text \<open>
  The buffer pool of \<^verbatim>\<open>buffer/buffer_pool_manager.h\<close>, \<^verbatim>\<open>buffer/buffer_pool_manager.cpp\<close> and
  \<^verbatim>\<open>page/page.h\<close>: the frames, the page table, the replacer, the free list and the disk.

  A \<^verbatim>\<open>Page *\<close> is a number: 0 is \<^verbatim>\<open>nullptr\<close> and \<open>i + 1\<close> is \<^verbatim>\<open>&pages_[i]\<close>. The argument \<open>h\<close> is the
  hash function of the page table. The pool latch makes every operation atomic, and the page
  latches are the subject of \<open>Rw_Mutex\<close>.
\<close>

section \<open>State\<close>

text \<open>
  The pin count is an unbounded number: the \<^verbatim>\<open>int\<close> of the code differs only after \<open>2 ^ 31\<close> pins of a page
  that is never unpinned.
\<close>

record Page =
  page_data :: "byte list"
  page_id :: int
  pin_count :: int
  is_dirty :: bool

record BufferPoolManager =
  pool_size :: nat
  pages :: "Page list"
  disk_manager :: DiskManager
  page_table :: "(int, nat) ExtendibleHash"
  lru_replacer :: "nat LRUReplacer"
  free_list :: "nat list"

type_synonym page_hash = "int \<Rightarrow> 64 word"

section \<open>Operations\<close>

definition new_frame :: Page where
  "new_frame = \<lparr>page_data = replicate PAGE_SIZE 0, page_id = INVALID_PAGE_ID, pin_count = 0,
     is_dirty = False\<rparr>"

definition pg_ResetMemory :: "Page \<Rightarrow> Page" where
  "pg_ResetMemory p = p\<lparr>page_data := replicate PAGE_SIZE 0\<rparr>"

definition pg_GetLSN :: "Page \<Rightarrow> int res" where
  "pg_GetLSN p = rd32 (page_data p) 4"

definition pg_SetLSN :: "Page \<Rightarrow> int \<Rightarrow> Page res" where
  "pg_SetLSN p lsn = bindE (wr32 (page_data p) 4 lsn) (\<lambda>d. ok (p\<lparr>page_data := d\<rparr>))"

abbreviation BUCKET_SIZE :: nat where
  "BUCKET_SIZE \<equiv> 50"

definition bp_init :: "nat \<Rightarrow> DiskManager \<Rightarrow> BufferPoolManager" where
  "bp_init n dm =
     \<lparr>pool_size = n, pages = replicate n new_frame, disk_manager = dm,
      page_table = eh_init BUCKET_SIZE, lru_replacer = lru_init, free_list = [1..<Suc n]\<rparr>"

text \<open>Reading and writing the members of a frame through its pointer.\<close>

definition bp_page :: "BufferPoolManager \<Rightarrow> nat \<Rightarrow> Page res" where
  "bp_page s tar = (if tar = 0 then fail Null_Deref else nth_res (pages s) (tar - 1))"

definition bp_set :: "BufferPoolManager \<Rightarrow> nat \<Rightarrow> Page \<Rightarrow> BufferPoolManager" where
  "bp_set s tar p = s\<lparr>pages := (pages s)[tar - 1 := p]\<rparr>"

text \<open>What a client does through \<^verbatim>\<open>GetData()\<close>: it reads and overwrites the bytes of a frame.\<close>

definition bp_peek :: "BufferPoolManager \<Rightarrow> nat \<Rightarrow> byte list" where
  "bp_peek s tar = page_data (pages s ! (tar - 1))"

definition bp_poke :: "nat \<Rightarrow> byte list \<Rightarrow> BufferPoolManager \<Rightarrow> BufferPoolManager" where
  "bp_poke tar d s = bp_set s tar ((pages s ! (tar - 1))\<lparr>page_data := d\<rparr>)"

definition bp_GetVictimPage :: "BufferPoolManager \<Rightarrow> (nat \<times> BufferPoolManager) res" where
  "bp_GetVictimPage s =
     bindE
       (case free_list s of
          [] \<Rightarrow>
            if lru_Size (lru_replacer s) = 0 then ok (0, s)
            else bindE (lru_Victim (lru_replacer s)) (\<lambda>(v, r).
                   ok (case v of None \<Rightarrow> 0 | Some t \<Rightarrow> t, s\<lparr>lru_replacer := r\<rparr>))
        | tar # rest \<Rightarrow>
            bindE (bp_page s tar) (\<lambda>p.
            bindE (assertE (page_id p = INVALID_PAGE_ID)) (\<lambda>_.
              ok (tar, s\<lparr>free_list := rest\<rparr>))))
       (\<lambda>(tar, s1).
          if tar \<noteq> 0 then
            bindE (bp_page s1 tar) (\<lambda>p.
            bindE (assertE (pin_count p = 0)) (\<lambda>_. ok (tar, s1)))
          else ok (tar, s1))"

text \<open>
  Steps 2 and 3 of \<^verbatim>\<open>FetchPage\<close> and \<^verbatim>\<open>NewPage\<close>: write the old page back if it is dirty, and give its
  place in the page table to the new page.
\<close>

definition bp_evict ::
  "page_hash \<Rightarrow> int \<Rightarrow> nat \<Rightarrow> BufferPoolManager \<Rightarrow> BufferPoolManager res" where
  "bp_evict h pid tar s =
     bindE (bp_page s tar) (\<lambda>p.
     bindE (if is_dirty p then dm_WritePage (disk_manager s) (page_id p) (page_data p)
            else ok (disk_manager s)) (\<lambda>dm.
     bindE (eh_Remove h (page_table s) (page_id p)) (\<lambda>(r, t).
     bindE (eh_Insert h t pid tar) (\<lambda>t'.
       ok (s\<lparr>disk_manager := dm, page_table := t'\<rparr>)))))"

definition bp_FetchPage ::
  "page_hash \<Rightarrow> int \<Rightarrow> BufferPoolManager \<Rightarrow> (nat \<times> BufferPoolManager) res" where
  "bp_FetchPage h pid s =
     bindE (eh_Find h (page_table s) pid) (\<lambda>f. case f of
       Some tar \<Rightarrow>
         bindE (bp_page s tar) (\<lambda>p.
         bindE (lru_Erase tar (lru_replacer s)) (\<lambda>(e, r).
           ok (tar, (bp_set s tar (p\<lparr>pin_count := pin_count p + 1\<rparr>))\<lparr>lru_replacer := r\<rparr>)))
     | None \<Rightarrow>
         bindE (bp_GetVictimPage s) (\<lambda>(tar, s1).
           if tar = 0 then ok (tar, s1)
           else
             bindE (bp_evict h pid tar s1) (\<lambda>s2.
             bindE (bp_page s2 tar) (\<lambda>p.
             bindE (dm_ReadPage (disk_manager s2) pid (page_data p)) (\<lambda>(dm, d).
               ok (tar, bp_set (s2\<lparr>disk_manager := dm\<rparr>) tar
                     (p\<lparr>page_data := d, pin_count := 1, is_dirty := False, page_id := pid\<rparr>)))))))"

definition bp_UnpinPage ::
  "page_hash \<Rightarrow> int \<Rightarrow> bool \<Rightarrow> BufferPoolManager \<Rightarrow> (bool \<times> BufferPoolManager) res" where
  "bp_UnpinPage h pid dirty s =
     bindE (eh_Find h (page_table s) pid) (\<lambda>f. case f of
       None \<Rightarrow> ok (False, s)
     | Some tar \<Rightarrow>
         bindE (bp_page s tar) (\<lambda>p.
         let p1 = p\<lparr>is_dirty := is_dirty p \<or> dirty\<rparr> in
         bindE (assertE (\<not> pin_count p1 \<le> 0)) (\<lambda>_.
         let p2 = p1\<lparr>pin_count := pin_count p1 - 1\<rparr>; s1 = bp_set s tar p2 in
           if pin_count p2 = 0
           then bindE (lru_Insert tar (lru_replacer s1)) (\<lambda>r. ok (True, s1\<lparr>lru_replacer := r\<rparr>))
           else ok (True, s1))))"

definition bp_FlushPage ::
  "page_hash \<Rightarrow> int \<Rightarrow> BufferPoolManager \<Rightarrow> (bool \<times> BufferPoolManager) res" where
  "bp_FlushPage h pid s =
     bindE (eh_Find h (page_table s) pid) (\<lambda>f. case f of
       None \<Rightarrow> ok (False, s)
     | Some tar \<Rightarrow>
         bindE (bp_page s tar) (\<lambda>p.
           if page_id p = INVALID_PAGE_ID then ok (False, s)
           else if is_dirty p then
             bindE (dm_WritePage (disk_manager s) pid (page_data p)) (\<lambda>dm.
               ok (True, (bp_set s tar (p\<lparr>is_dirty := False\<rparr>))\<lparr>disk_manager := dm\<rparr>))
           else ok (True, s)))"

definition bp_DeletePage ::
  "page_hash \<Rightarrow> int \<Rightarrow> BufferPoolManager \<Rightarrow> (bool \<times> BufferPoolManager) res" where
  "bp_DeletePage h pid s =
     bindE (eh_Find h (page_table s) pid) (\<lambda>f. case f of
       None \<Rightarrow> ok (True, s\<lparr>disk_manager := dm_DeallocatePage (disk_manager s) pid\<rparr>)
     | Some tar \<Rightarrow>
         bindE (bp_page s tar) (\<lambda>p.
           if pin_count p > 0 then ok (False, s)
           else
             bindE (lru_Erase tar (lru_replacer s)) (\<lambda>(e, r).
             bindE (eh_Remove h (page_table s) pid) (\<lambda>(b, t).
               ok (True,
                 (bp_set s tar ((pg_ResetMemory (p\<lparr>is_dirty := False\<rparr>))\<lparr>page_id := INVALID_PAGE_ID\<rparr>))
                 \<lparr>lru_replacer := r, page_table := t, free_list := free_list s @ [tar],
                  disk_manager := dm_DeallocatePage (disk_manager s) pid\<rparr>)))))"

definition bp_NewPage ::
  "page_hash \<Rightarrow> BufferPoolManager \<Rightarrow> (nat \<times> int option \<times> BufferPoolManager) res" where
  "bp_NewPage h s =
     bindE (bp_GetVictimPage s) (\<lambda>(tar, s1).
       if tar = 0 then ok (tar, None, s1)
       else
         (let (pid, dm) = dm_AllocatePage (disk_manager s1) in
          bindE (bp_evict h pid tar (s1\<lparr>disk_manager := dm\<rparr>)) (\<lambda>s2.
          bindE (bp_page s2 tar) (\<lambda>p.
            ok (tar, Some pid, bp_set s2 tar
              ((pg_ResetMemory (p\<lparr>page_id := pid\<rparr>))\<lparr>is_dirty := False, pin_count := 1\<rparr>))))))"

definition bp_CheckAllUnpined :: "BufferPoolManager \<Rightarrow> bool" where
  "bp_CheckAllUnpined s \<longleftrightarrow> list_all (\<lambda>i. pin_count (pages s ! i) = 0) [1..<pool_size s]"

text \<open>The sequence number of a page is bytes 4 to 7 of its data; setting it keeps the rest.\<close>

lemma pg_LSN_roundtrip:
  assumes "length (page_data p) = PAGE_SIZE" "in32 lsn"
  shows "\<exists>p'. pg_SetLSN p lsn = Inr p' \<and> pg_GetLSN p' = Inr lsn \<and>
    page_id p' = page_id p \<and> pin_count p' = pin_count p \<and> is_dirty p' = is_dirty p \<and>
    bget (page_data p') 0 4 = bget (page_data p) 0 4 \<and>
    bget (page_data p') 8 (PAGE_SIZE - 8) = bget (page_data p) 8 (PAGE_SIZE - 8)"
  using assms wr32_in [of 4 "page_data p" lsn] rd32_in [of 4 "put32 (page_data p) 4 lsn"]
  by (simp add: pg_SetLSN_def pg_GetLSN_def bget_put32_other)

section \<open>Invariant\<close>

text \<open>
  \<open>frame s tar\<close> is the frame behind a pointer. \<open>bp_shape h s xs\<close> ties the parts of the pool
  together: the page table maps exactly the page numbers of the frames in use, the replacer holds
  (in the order \<open>xs\<close>) exactly the frames in use that nobody pins, and the free list exactly the
  frames that are not in use.
\<close>

definition frame :: "BufferPoolManager \<Rightarrow> nat \<Rightarrow> Page" where
  "frame s tar = pages s ! (tar - 1)"

definition bp_ptr :: "BufferPoolManager \<Rightarrow> nat \<Rightarrow> bool" where
  "bp_ptr s tar \<longleftrightarrow> 0 < tar \<and> tar \<le> pool_size s"

definition frame_ok :: "Page \<Rightarrow> bool" where
  "frame_ok p \<longleftrightarrow> length (page_data p) = PAGE_SIZE \<and> 0 \<le> pin_count p \<and>
     (page_id p = INVALID_PAGE_ID \<longrightarrow> pin_count p = 0 \<and> \<not> is_dirty p) \<and>
     (page_id p \<noteq> INVALID_PAGE_ID \<longrightarrow> pid_ok (page_id p))"

definition bp_shape :: "page_hash \<Rightarrow> BufferPoolManager \<Rightarrow> nat list \<Rightarrow> bool" where
  "bp_shape h s xs \<longleftrightarrow>
     length (pages s) = pool_size s \<and>
     (\<forall>tar. bp_ptr s tar \<longrightarrow> frame_ok (frame s tar)) \<and>
     eh_ok h (page_table s) \<and> pool_size s \<le> mBucketSize (page_table s) \<and>
     (\<forall>pid tar. eh_lookup h (page_table s) pid = Some tar \<longleftrightarrow>
        bp_ptr s tar \<and> page_id (frame s tar) = pid \<and> pid \<noteq> INVALID_PAGE_ID) \<and>
     lru_rep (lru_replacer s) xs \<and>
     set xs = {tar. bp_ptr s tar \<and> page_id (frame s tar) \<noteq> INVALID_PAGE_ID \<and> pin_count (frame s tar) = 0} \<and>
     distinct (free_list s) \<and>
     set (free_list s) = {tar. bp_ptr s tar \<and> page_id (frame s tar) = INVALID_PAGE_ID}"

definition bp_inv :: "page_hash \<Rightarrow> BufferPoolManager \<Rightarrow> bool" where
  "bp_inv h s \<longleftrightarrow> (\<exists>xs. bp_shape h s xs)"

text \<open>
  \<open>bp_held\<close> is the state between the choice of a victim and its reuse: the frame \<open>tar\<close> has left the
  free list or the replacer, everything else is as in \<open>bp_shape\<close>.
\<close>

definition bp_held :: "page_hash \<Rightarrow> BufferPoolManager \<Rightarrow> nat list \<Rightarrow> nat \<Rightarrow> bool" where
  "bp_held h s xs tar \<longleftrightarrow>
     length (pages s) = pool_size s \<and>
     (\<forall>t. bp_ptr s t \<longrightarrow> frame_ok (frame s t)) \<and>
     eh_ok h (page_table s) \<and> pool_size s \<le> mBucketSize (page_table s) \<and>
     (\<forall>pid t. eh_lookup h (page_table s) pid = Some t \<longleftrightarrow>
        bp_ptr s t \<and> page_id (frame s t) = pid \<and> pid \<noteq> INVALID_PAGE_ID) \<and>
     lru_rep (lru_replacer s) xs \<and> bp_ptr s tar \<and> pin_count (frame s tar) = 0 \<and>
     set xs = {t. bp_ptr s t \<and> page_id (frame s t) \<noteq> INVALID_PAGE_ID \<and> pin_count (frame s t) = 0} - {tar} \<and>
     distinct (free_list s) \<and>
     set (free_list s) = {t. bp_ptr s t \<and> page_id (frame s t) = INVALID_PAGE_ID} - {tar}"

text \<open>
  What a client sees: the content of a page is the content of its frame if it is resident, and of
  the file otherwise. A frame is saved if nothing is lost when it is dropped: it is marked dirty or
  the file holds the same bytes. \<open>bp_sync\<close> asks this of every frame that can be chosen as a victim.
\<close>

definition bp_view :: "page_hash \<Rightarrow> BufferPoolManager \<Rightarrow> int \<Rightarrow> byte list option" where
  "bp_view h s pid = (case eh_lookup h (page_table s) pid of
     Some tar \<Rightarrow> Some (page_data (frame s tar)) | None \<Rightarrow> disk_page (disk_manager s) pid)"

definition bp_saved :: "BufferPoolManager \<Rightarrow> nat \<Rightarrow> bool" where
  "bp_saved s tar \<longleftrightarrow> is_dirty (frame s tar) \<or>
     disk_page (disk_manager s) (page_id (frame s tar)) = Some (page_data (frame s tar))"

definition bp_sync :: "BufferPoolManager \<Rightarrow> bool" where
  "bp_sync s \<longleftrightarrow> (\<forall>tar. bp_ptr s tar \<and> page_id (frame s tar) \<noteq> INVALID_PAGE_ID \<and>
     pin_count (frame s tar) = 0 \<longrightarrow> bp_saved s tar)"

definition bp_good :: "page_hash \<Rightarrow> BufferPoolManager \<Rightarrow> bool" where
  "bp_good h s \<longleftrightarrow> bp_inv h s \<and> bp_sync s \<and> dm_ok (disk_manager s)"

definition bp_avail :: "BufferPoolManager \<Rightarrow> bool" where
  "bp_avail s \<longleftrightarrow> (\<exists>tar. bp_ptr s tar \<and> pin_count (frame s tar) = 0)"

section \<open>Lemmas\<close>

lemma bp_shapeD:
  assumes "bp_shape h s xs"
  shows shape_length: "length (pages s) = pool_size s"
    and shape_frame: "bp_ptr s tar \<Longrightarrow> frame_ok (frame s tar)"
    and shape_table: "eh_ok h (page_table s)"
    and shape_room: "pool_size s \<le> mBucketSize (page_table s)"
    and shape_lookup: "eh_lookup h (page_table s) pid = Some tar \<longleftrightarrow>
        bp_ptr s tar \<and> page_id (frame s tar) = pid \<and> pid \<noteq> INVALID_PAGE_ID"
    and shape_lru: "lru_rep (lru_replacer s) xs"
    and shape_lru_set: "tar \<in> set xs \<longleftrightarrow>
        bp_ptr s tar \<and> page_id (frame s tar) \<noteq> INVALID_PAGE_ID \<and> pin_count (frame s tar) = 0"
    and shape_free: "distinct (free_list s)"
    and shape_free_set: "tar \<in> set (free_list s) \<longleftrightarrow>
        bp_ptr s tar \<and> page_id (frame s tar) = INVALID_PAGE_ID"
  using assms unfolding bp_shape_def by blast+

lemma bp_ptr_set [simp]: "bp_ptr (bp_set s tar p) = bp_ptr s"
  by (simp add: bp_set_def bp_ptr_def fun_eq_iff)

lemma bp_ptr_update [simp]:
  "bp_ptr (s\<lparr>lru_replacer := r\<rparr>) = bp_ptr s" "bp_ptr (s\<lparr>page_table := t\<rparr>) = bp_ptr s"
  "bp_ptr (s\<lparr>free_list := f\<rparr>) = bp_ptr s" "bp_ptr (s\<lparr>disk_manager := d\<rparr>) = bp_ptr s"
  by (simp_all add: bp_ptr_def fun_eq_iff)

lemma frame_update [simp]:
  "frame (s\<lparr>lru_replacer := r\<rparr>) = frame s" "frame (s\<lparr>page_table := t\<rparr>) = frame s"
  "frame (s\<lparr>free_list := f\<rparr>) = frame s" "frame (s\<lparr>disk_manager := d\<rparr>) = frame s"
  by (simp_all add: frame_def fun_eq_iff)

lemma bp_peek_frame: "bp_peek s tar = page_data (frame s tar)"
  by (simp add: bp_peek_def frame_def)

lemma bp_poke_frame: "bp_poke tar d s = bp_set s tar ((frame s tar)\<lparr>page_data := d\<rparr>)"
  by (simp add: bp_poke_def frame_def)

lemma bp_set_fields [simp]:
  "pool_size (bp_set s tar p) = pool_size s" "disk_manager (bp_set s tar p) = disk_manager s"
  "page_table (bp_set s tar p) = page_table s" "lru_replacer (bp_set s tar p) = lru_replacer s"
  "free_list (bp_set s tar p) = free_list s" "length (pages (bp_set s tar p)) = length (pages s)"
  by (simp_all add: bp_set_def)

lemma frame_set:
  "length (pages s) = pool_size s \<Longrightarrow> bp_ptr s tar \<Longrightarrow> bp_ptr s t \<Longrightarrow>
     frame (bp_set s tar p) t = (if t = tar then p else frame s t)"
  by (auto simp: frame_def bp_set_def bp_ptr_def nth_list_update)

lemma bp_page_ptr: "length (pages s) = pool_size s \<Longrightarrow> bp_ptr s tar \<Longrightarrow> bp_page s tar = Inr (frame s tar)"
  by (auto simp: frame_def bp_page_def bp_ptr_def)

lemma shape_inj:
  "bp_shape h s xs \<Longrightarrow> bp_ptr s a \<Longrightarrow> bp_ptr s b \<Longrightarrow> page_id (frame s a) = page_id (frame s b) \<Longrightarrow>
     page_id (frame s a) \<noteq> INVALID_PAGE_ID \<Longrightarrow> a = b"
  by (metis option.inject shape_lookup)

lemma shape_same:
  assumes sh: "bp_shape h s xs" and "eh_lookup h (page_table s) pid = Some tar"
    and "eh_lookup h (page_table s) q = Some u"
  shows "bp_ptr s u" and "u = tar \<longleftrightarrow> q = pid"
  using assms by (simp add: shape_lookup [OF sh], metis option.inject shape_lookup [OF sh])

subsection \<open>Operations on a resident page\<close>

lemma shape_repin:
  assumes sh: "bp_shape h s xs" and p: "bp_ptr s tar" "page_id (frame s tar) \<noteq> INVALID_PAGE_ID"
    and p': "frame_ok p'" "page_id p' = page_id (frame s tar)"
    and r: "lru_rep r ys" "\<And>t. t \<in> set ys \<longleftrightarrow> (if t = tar then pin_count p' = 0 else t \<in> set xs)"
  shows "bp_shape h ((bp_set s tar p')\<lparr>lru_replacer := r\<rparr>) ys"
proof -
  note fs = frame_set [OF shape_length [OF sh] p(1), where p = p']
  let ?s = "(bp_set s tar p')\<lparr>lru_replacer := r\<rparr>"
  have fr: "frame ?s t = (if t = tar then p' else frame s t)" if "bp_ptr s t" for t
    using fs [OF that] by simp
  have ids: "page_id (frame ?s t) = page_id (frame s t)" if "bp_ptr s t" for t
    using fr [OF that] p'(2) by simp
  show ?thesis
    unfolding bp_shape_def
  proof (intro conjI allI impI)
    show "frame_ok (frame ?s t)" if "bp_ptr ?s t" for t
      using that fr p'(1) shape_frame [OF sh] by simp
    show "eh_lookup h (page_table ?s) pid = Some t \<longleftrightarrow>
        bp_ptr ?s t \<and> page_id (frame ?s t) = pid \<and> pid \<noteq> INVALID_PAGE_ID" for pid t
      using shape_lookup [OF sh, of pid t] ids by auto
    show "set ys = {t. bp_ptr ?s t \<and> page_id (frame ?s t) \<noteq> INVALID_PAGE_ID \<and> pin_count (frame ?s t) = 0}"
      using r(2) shape_lru_set [OF sh] fr ids p p'(2) by (auto split: if_splits)
    show "set (free_list ?s) = {t. bp_ptr ?s t \<and> page_id (frame ?s t) = INVALID_PAGE_ID}"
      using shape_free_set [OF sh] ids by auto
  qed (use r(1) sh in \<open>auto simp: shape_length shape_table shape_room shape_free\<close>)
qed

lemma bp_FetchPage_hit:
  assumes sh: "bp_shape h s xs" and l: "eh_lookup h (page_table s) pid = Some tar"
  shows "\<exists>r. bp_FetchPage h pid s =
      Inr (tar, (bp_set s tar ((frame s tar)\<lparr>pin_count := pin_count (frame s tar) + 1\<rparr>))\<lparr>lru_replacer := r\<rparr>) \<and>
    bp_shape h ((bp_set s tar ((frame s tar)\<lparr>pin_count := pin_count (frame s tar) + 1\<rparr>))\<lparr>lru_replacer := r\<rparr>)
      (remove1 tar xs)"
proof -
  have p: "bp_ptr s tar" "page_id (frame s tar) \<noteq> INVALID_PAGE_ID"
    using shape_lookup [OF sh] l by auto
  obtain r where r: "lru_Erase tar (lru_replacer s) = Inr (tar \<in> set xs, r)" "lru_rep r (remove1 tar xs)"
    using lru.erase_law [OF shape_lru [OF sh]] by blast
  have "frame_ok ((frame s tar)\<lparr>pin_count := pin_count (frame s tar) + 1\<rparr>)" "0 \<le> pin_count (frame s tar)"
    using shape_frame [OF sh p(1)] p by (simp_all add: frame_ok_def)
  then have "bp_shape h ((bp_set s tar ((frame s tar)\<lparr>pin_count := pin_count (frame s tar) + 1\<rparr>))
      \<lparr>lru_replacer := r\<rparr>) (remove1 tar xs)"
    using lru.rep_distinct [OF shape_lru [OF sh]] by (intro shape_repin [OF sh p _ _ r(2)]) auto
  then show ?thesis
    using r(1) p(1) l shape_length [OF sh]
    by (intro exI [of _ r]) (simp add: bp_FetchPage_def eh_table.find_law [OF shape_table [OF sh]] bp_page_ptr)
qed

lemma bp_UnpinPage_pinned:
  assumes sh: "bp_shape h s xs" and l: "eh_lookup h (page_table s) pid = Some tar"
    and pin: "0 < pin_count (frame s tar)"
    and p'_def: "p' = (frame s tar)\<lparr>is_dirty := is_dirty (frame s tar) \<or> dirty,
      pin_count := pin_count (frame s tar) - 1\<rparr>"
  shows "\<exists>r. bp_UnpinPage h pid dirty s = Inr (True, (bp_set s tar p')\<lparr>lru_replacer := r\<rparr>) \<and>
    bp_shape h ((bp_set s tar p')\<lparr>lru_replacer := r\<rparr>) (if pin_count (frame s tar) = 1 then tar # xs else xs)"
proof -
  have p: "bp_ptr s tar" "page_id (frame s tar) \<noteq> INVALID_PAGE_ID"
    using shape_lookup [OF sh] l by auto
  have notin: "tar \<notin> set xs"
    using pin shape_lru_set [OF sh] by auto
  obtain r where r: "lru_Insert tar (lru_replacer s) = Inr r" "lru_rep r (tar # xs)"
    using lru.insert_law [OF shape_lru [OF sh], of tar] notin by (auto simp: remove1_idem)
  have fo: "frame_ok p'"
    using shape_frame [OF sh p(1)] pin p by (simp add: frame_ok_def p'_def)
  let ?r = "if pin_count (frame s tar) = 1 then r else lru_replacer s"
  have "bp_shape h ((bp_set s tar p')\<lparr>lru_replacer := ?r\<rparr>) (if pin_count (frame s tar) = 1 then tar # xs else xs)"
    using r(2) shape_lru [OF sh] notin by (intro shape_repin [OF sh p fo]) (auto simp: p'_def)
  moreover have "bp_UnpinPage h pid dirty s = Inr (True, (bp_set s tar p')\<lparr>lru_replacer := ?r\<rparr>)"
    using r(1) p(1) l pin shape_length [OF sh]
    by (simp add: bp_UnpinPage_def eh_table.find_law [OF shape_table [OF sh]] bp_page_ptr Let_def
        p'_def bp_set_def)
  ultimately show ?thesis by blast
qed

subsection \<open>Choosing and reusing a victim\<close>

lemma dm_WritePage_next:
  "dm_WritePage dm p bs = Inr dm' \<Longrightarrow> next_page_id dm' = next_page_id dm"
  by (auto simp: dm_WritePage_def bindE_eq_Inr split: if_splits)

lemma bp_heldD:
  assumes "bp_held h s xs tar"
  shows held_length: "length (pages s) = pool_size s"
    and held_frame: "bp_ptr s t \<Longrightarrow> frame_ok (frame s t)"
    and held_table: "eh_ok h (page_table s)"
    and held_room: "pool_size s \<le> mBucketSize (page_table s)"
    and held_lookup: "eh_lookup h (page_table s) pid = Some t \<longleftrightarrow>
        bp_ptr s t \<and> page_id (frame s t) = pid \<and> pid \<noteq> INVALID_PAGE_ID"
    and held_ptr: "bp_ptr s tar"
    and held_pin: "pin_count (frame s tar) = 0"
    and held_lru_set: "t \<in> set xs \<longleftrightarrow> t \<noteq> tar \<and>
        bp_ptr s t \<and> page_id (frame s t) \<noteq> INVALID_PAGE_ID \<and> pin_count (frame s t) = 0"
    and held_free_set: "t \<in> set (free_list s) \<longleftrightarrow> t \<noteq> tar \<and>
        bp_ptr s t \<and> page_id (frame s t) = INVALID_PAGE_ID"
  using assms unfolding bp_held_def by blast+

text \<open>The victim is the head of the free list, and otherwise the least recently used frame.\<close>

definition bp_choice :: "BufferPoolManager \<Rightarrow> nat list \<Rightarrow> nat" where
  "bp_choice s xs = (case free_list s of t # _ \<Rightarrow> t | [] \<Rightarrow> (if xs = [] then 0 else last xs))"

lemma GetVictimPage_none:
  assumes sh: "bp_shape h s xs" and "free_list s = []" and "xs = []"
  shows "bp_GetVictimPage s = Inr (0, s)"
  using assms lru.victim_empty [of "lru_replacer s"] shape_lru [OF sh]
  by (simp add: bp_GetVictimPage_def)

lemma GetVictimPage_free:
  assumes sh: "bp_shape h s xs" and f: "free_list s = tar # rest"
  shows "bp_GetVictimPage s = Inr (tar, s\<lparr>free_list := rest\<rparr>) \<and> bp_held h (s\<lparr>free_list := rest\<rparr>) xs tar"
proof -
  have p: "bp_ptr s tar" "page_id (frame s tar) = INVALID_PAGE_ID"
    using shape_free_set [OF sh, of tar] f by auto
  then have pin: "pin_count (frame s tar) = 0"
    using shape_frame [OF sh p(1)] by (simp add: frame_ok_def)
  have "bp_page (s\<lparr>free_list := rest\<rparr>) tar = bp_page s tar"
    by (simp add: bp_page_def)
  then have "bp_GetVictimPage s = Inr (tar, s\<lparr>free_list := rest\<rparr>)"
    using f p pin by (simp add: bp_GetVictimPage_def bp_page_ptr [OF shape_length [OF sh] p(1)] bp_ptr_def)
  moreover have "set rest = set (free_list s) - {tar}" "distinct rest"
    using shape_free [OF sh] f by auto
  ultimately show ?thesis
    using sh p pin by (auto simp: bp_held_def bp_shape_def)
qed

lemma GetVictimPage_lru:
  assumes sh: "bp_shape h s (ys @ [tar])" and f: "free_list s = []"
  shows "\<exists>r. bp_GetVictimPage s = Inr (tar, s\<lparr>lru_replacer := r\<rparr>) \<and> bp_held h (s\<lparr>lru_replacer := r\<rparr>) ys tar"
proof -
  obtain r where r: "lru_Victim (lru_replacer s) = Inr (Some tar, r)" "lru_rep r ys"
    using lru.victim_law [OF shape_lru [OF sh]] by blast
  have p: "bp_ptr s tar" "page_id (frame s tar) \<noteq> INVALID_PAGE_ID" "pin_count (frame s tar) = 0"
    using shape_lru_set [OF sh, of tar] by auto
  have "bp_page (s\<lparr>lru_replacer := r\<rparr>) tar = bp_page s tar"
    by (simp add: bp_page_def)
  then have "bp_GetVictimPage s = Inr (tar, s\<lparr>lru_replacer := r\<rparr>)"
    using f p r by (simp add: bp_GetVictimPage_def bp_page_ptr [OF shape_length [OF sh] p(1)] bp_ptr_def lru_Size_def)
  moreover have "set ys = set (ys @ [tar]) - {tar}"
    using lru.rep_distinct [OF shape_lru [OF sh]] by auto
  ultimately show ?thesis
    using sh p r by (auto simp: bp_held_def bp_shape_def)
qed

lemma held_lookup_few:
  assumes he: "bp_held h s xs tar"
  shows "card {k. ((eh_lookup h (page_table s))(page_id (frame s tar) := None)) k \<noteq> None} < pool_size s"
    (is "card ?K < _")
proof -
  have "?K \<subseteq> (\<lambda>t. page_id (frame s t)) ` ({1..pool_size s} - {tar})"
  proof
    fix k assume "k \<in> ?K"
    then obtain t where t: "eh_lookup h (page_table s) k = Some t" "k \<noteq> page_id (frame s tar)"
      by (auto split: if_splits)
    then have "bp_ptr s t" "page_id (frame s t) = k"
      using held_lookup [OF he] by auto
    with t show "k \<in> (\<lambda>t. page_id (frame s t)) ` ({1..pool_size s} - {tar})"
      by (intro image_eqI [of _ _ t]) (auto simp: bp_ptr_def)
  qed
  then have "card ?K \<le> card ({1..pool_size s} - {tar})"
    by (rule surj_card_le [rotated]) simp
  also have "\<dots> < card {1..pool_size s}"
    using held_ptr [OF he] by (intro card_Diff1_less) (auto simp: bp_ptr_def)
  finally show ?thesis by simp
qed

lemma bp_evict_returns:
  assumes he: "bp_held h s xs tar" and new: "eh_lookup h (page_table s) pid = None"
    and dm: "dm_ok (disk_manager s)"
  shows "\<exists>dm t. bp_evict h pid tar s = Inr (s\<lparr>disk_manager := dm, page_table := t\<rparr>) \<and>
    eh_ok h t \<and> mBucketSize t = mBucketSize (page_table s) \<and>
    eh_lookup h t = ((eh_lookup h (page_table s))(page_id (frame s tar) := None))(pid \<mapsto> tar) \<and>
    dm_ok dm \<and> next_page_id dm = next_page_id (disk_manager s) \<and>
    (if is_dirty (frame s tar)
     then disk_page dm (page_id (frame s tar)) = Some (page_data (frame s tar)) \<and>
       (\<forall>q x. q \<noteq> page_id (frame s tar) \<longrightarrow> disk_page (disk_manager s) q = Some x \<longrightarrow> disk_page dm q = Some x)
     else dm = disk_manager s)"
proof -
  let ?p = "frame s tar"
  have fo: "frame_ok ?p" using held_frame [OF he held_ptr [OF he]] .
  obtain dm where d: "(if is_dirty ?p then dm_WritePage (disk_manager s) (page_id ?p) (page_data ?p)
      else ok (disk_manager s)) = Inr dm" "dm_ok dm" "next_page_id dm = next_page_id (disk_manager s)"
    "if is_dirty ?p then disk_page dm (page_id ?p) = Some (page_data ?p) \<and>
       (\<forall>q x. q \<noteq> page_id ?p \<longrightarrow> disk_page (disk_manager s) q = Some x \<longrightarrow> disk_page dm q = Some x)
     else dm = disk_manager s"
    using fo dm disk.write_law [OF dm, of "page_id ?p" "page_data ?p"] dm_WritePage_next
    by (cases "is_dirty ?p") (fastforce simp: frame_ok_def)+
  obtain b t1 where t1: "eh_Remove h (page_table s) (page_id ?p) = Inr (b, t1)" "eh_ok h t1"
    "eh_lookup h t1 = (eh_lookup h (page_table s))(page_id ?p := None)"
    "mBucketSize t1 = mBucketSize (page_table s)"
    using eh_Remove_correct [OF held_table [OF he]] by blast
  have "eh_room h t1 pid"
    using held_lookup_few [OF he] held_room [OF he] t1(3,4) by (intro eh_room_few [OF t1(2)]) simp
  then obtain t where t: "eh_Insert h t1 pid tar = Inr t"
    using eh_table.insert_returns [OF t1(2)] by blast
  moreover have "eh_ok h t" "mBucketSize t = mBucketSize (page_table s)"
    "eh_lookup h t = ((eh_lookup h (page_table s))(page_id ?p := None))(pid \<mapsto> tar)"
    using eh_Insert_correct [OF t1(2) t] t1(3,4) new by (auto simp: map_insert_new_def)
  ultimately show ?thesis
    using d t1(1)
    by (intro exI [of _ dm] exI [of _ t])
      (simp add: bp_evict_def bp_page_ptr [OF held_length [OF he] held_ptr [OF he]])
qed

lemma held_install:
  assumes he: "bp_held h s xs tar" and t: "eh_ok h t" "mBucketSize t = mBucketSize (page_table s)"
    "eh_lookup h t = ((eh_lookup h (page_table s))(page_id (frame s tar) := None))(pid \<mapsto> tar)"
    and new: "eh_lookup h (page_table s) pid = None"
    and p': "frame_ok p'" "page_id p' = pid" "0 < pin_count p'"
  shows "bp_shape h (bp_set (s\<lparr>disk_manager := dm, page_table := t\<rparr>) tar p') xs"
proof -
  let ?s = "bp_set (s\<lparr>disk_manager := dm, page_table := t\<rparr>) tar p'"
  note ptr = held_ptr [OF he]
  have fr: "frame ?s u = (if u = tar then p' else frame s u)" if "bp_ptr s u" for u
    using frame_set [of "s\<lparr>disk_manager := dm, page_table := t\<rparr>" tar u p'] held_length [OF he] ptr that by simp
  have pid: "pid \<noteq> INVALID_PAGE_ID" using p' by (auto simp: frame_ok_def)
  have inj: "u = tar" if "bp_ptr s u" "page_id (frame s u) = page_id (frame s tar)"
    "page_id (frame s u) \<noteq> INVALID_PAGE_ID" for u
    using that held_lookup [OF he, of "page_id (frame s u)"] ptr by (metis option.inject)
  have other: "page_id (frame s u) \<noteq> pid" if "bp_ptr s u" for u
    using held_lookup [OF he, of pid u] new pid that by auto
  show ?thesis
    unfolding bp_shape_def
  proof (intro conjI allI impI)
    show "frame_ok (frame ?s u)" if "bp_ptr ?s u" for u
      using that fr p'(1) held_frame [OF he] by simp
    show "eh_lookup h (page_table ?s) q = Some u \<longleftrightarrow>
        bp_ptr ?s u \<and> page_id (frame ?s u) = q \<and> q \<noteq> INVALID_PAGE_ID" for q u
      using held_lookup [OF he, of q u] fr [of u] p'(2) pid other [of u] inj [of u] ptr
      by (auto simp: t(3) split: if_splits)
    show "set xs = {u. bp_ptr ?s u \<and> page_id (frame ?s u) \<noteq> INVALID_PAGE_ID \<and> pin_count (frame ?s u) = 0}"
      using held_lru_set [OF he] fr p'(3) by (auto split: if_splits)
    show "set (free_list ?s) = {u. bp_ptr ?s u \<and> page_id (frame ?s u) = INVALID_PAGE_ID}"
      using held_free_set [OF he] fr p'(2) pid by (auto split: if_splits)
  qed (use he t(1,2) in \<open>auto simp: bp_held_def\<close>)
qed


lemma bp_view_resident: "eh_lookup h (page_table s) pid = Some tar \<Longrightarrow> bp_view h s pid = Some (page_data (frame s tar))"
  by (simp add: bp_view_def)

lemma bp_view_absent: "eh_lookup h (page_table s) pid = None \<Longrightarrow> bp_view h s pid = disk_page (disk_manager s) pid"
  by (simp add: bp_view_def)

lemma disk_page_valid: "disk_page dm q = Some x \<Longrightarrow> q \<noteq> INVALID_PAGE_ID"
  by (auto simp: disk_page_def)

text \<open>Giving the frame \<open>tar\<close> to page \<open>pid\<close> loses no page.\<close>

lemma held_reuse:
  assumes he: "bp_held h s xs tar" and sync: "bp_sync s"
    and t: "eh_lookup h t = ((eh_lookup h (page_table s))(page_id (frame s tar) := None))(pid \<mapsto> tar)"
    and d: "if is_dirty (frame s tar)
     then disk_page dm (page_id (frame s tar)) = Some (page_data (frame s tar)) \<and>
       (\<forall>q x. q \<noteq> page_id (frame s tar) \<longrightarrow> disk_page (disk_manager s) q = Some x \<longrightarrow> disk_page dm q = Some x)
     else dm = disk_manager s"
    and p': "0 < pin_count p'"
    and s': "s' = bp_set (s\<lparr>disk_manager := dm, page_table := t\<rparr>) tar p'"
  shows "bp_sync s' \<and> bp_view h s' pid = Some (page_data p') \<and>
    (\<forall>q x. q \<noteq> pid \<longrightarrow> bp_view h s q = Some x \<longrightarrow> bp_view h s' q = Some x)"
proof (intro conjI allI impI)
  note ptr = held_ptr [OF he]
  have fr: "frame s' u = (if u = tar then p' else frame s u)" if "bp_ptr s u" for u
    using frame_set [of "s\<lparr>disk_manager := dm, page_table := t\<rparr>" tar u p'] held_length [OF he] ptr that
    by (simp add: s')
  have flds: "bp_ptr s' = bp_ptr s" "disk_manager s' = dm" "page_table s' = t"
    by (simp_all add: s')
  have keep: "disk_page dm q = Some x" if "disk_page (disk_manager s) q = Some x"
    "q \<noteq> page_id (frame s tar)" for q x
    using d that by (auto split: if_splits)
  have inj: "u = tar" if "bp_ptr s u" "page_id (frame s u) = page_id (frame s tar)"
    "page_id (frame s u) \<noteq> INVALID_PAGE_ID" for u
    using that held_lookup [OF he, of "page_id (frame s u)"] ptr by (metis option.inject)
  show "bp_sync s'"
    unfolding bp_sync_def
  proof (intro allI impI)
    fix u assume u: "bp_ptr s' u \<and> page_id (frame s' u) \<noteq> INVALID_PAGE_ID \<and> pin_count (frame s' u) = 0"
    then have "u \<noteq> tar" "bp_ptr s u" "frame s' u = frame s u"
      using fr [of u] p' ptr by (auto simp: flds split: if_splits)
    with u sync inj [of u] keep [of "page_id (frame s u)"] show "bp_saved s' u"
      by (auto simp: bp_sync_def bp_saved_def flds)
  qed
  show "bp_view h s' pid = Some (page_data p')"
    using fr [OF ptr] by (simp add: bp_view_def flds t)
  fix q x assume q: "q \<noteq> pid" "bp_view h s q = Some x"
  show "bp_view h s' q = Some x"
  proof (cases "eh_lookup h (page_table s) q")
    case None
    with q have "disk_page (disk_manager s) q = Some x" by (simp add: bp_view_absent)
    moreover have "q = page_id (frame s tar) \<Longrightarrow> q = INVALID_PAGE_ID"
      using held_lookup [OF he, of q tar] None ptr by auto
    ultimately have "disk_page dm q = Some x" using keep [of q x] disk_page_valid by blast
    with None q(1) show ?thesis by (auto simp: bp_view_def flds t)
  next
    case (Some u)
    then have u: "bp_ptr s u" "page_id (frame s u) = q" "q \<noteq> INVALID_PAGE_ID" "x = page_data (frame s u)"
      using held_lookup [OF he, of q u] q(2) by (auto simp: bp_view_resident)
    show ?thesis
    proof (cases "u = tar")
      case True
      with u have "bp_saved s tar" using he sync by (auto simp: bp_held_def bp_sync_def)
      with u True q(1) d show ?thesis by (auto simp: bp_view_def flds t bp_saved_def split: if_splits)
    next
      case False
      with u q(1) Some inj [of u] fr [of u] show ?thesis by (auto simp: bp_view_def flds t)
    qed
  qed
qed

lemma GetVictimPage_some:
  assumes sh: "bp_shape h s xs" and av: "bp_avail s"
  shows "\<exists>tar ys r f. bp_GetVictimPage s = Inr (tar, s\<lparr>lru_replacer := r, free_list := f\<rparr>) \<and>
    tar = bp_choice s xs \<and> bp_held h (s\<lparr>lru_replacer := r, free_list := f\<rparr>) ys tar"
proof (cases "free_list s")
  case (Cons tar rest)
  have "s\<lparr>lru_replacer := lru_replacer s, free_list := rest\<rparr> = s\<lparr>free_list := rest\<rparr>" by simp
  with GetVictimPage_free [OF sh Cons] Cons show ?thesis
    by (rule_tac exI [of _ tar], rule_tac exI [of _ xs], rule_tac exI [of _ "lru_replacer s"],
        rule_tac exI [of _ rest]) (simp add: bp_choice_def)
next
  case Nil
  then have "xs \<noteq> []"
    using av shape_free_set [OF sh] shape_lru_set [OF sh] by (fastforce simp: bp_avail_def)
  then obtain ys tar where xs: "xs = ys @ [tar]" by (metis append_butlast_last_id)
  obtain r where r: "bp_GetVictimPage s = Inr (tar, s\<lparr>lru_replacer := r\<rparr>)" "bp_held h (s\<lparr>lru_replacer := r\<rparr>) ys tar"
    using GetVictimPage_lru Nil sh xs by blast
  have same: "s\<lparr>lru_replacer := r, free_list := []\<rparr> = s\<lparr>lru_replacer := r\<rparr>" using Nil by (cases s) simp
  from r xs Nil show ?thesis
    by (rule_tac exI [of _ tar], rule_tac exI [of _ ys], rule_tac exI [of _ r],
        rule_tac exI [of _ "[]"]) (simp add: bp_choice_def same)
qed

lemma held_nonnull: "bp_held h s xs tar \<Longrightarrow> tar \<noteq> 0"
  using held_ptr by (auto simp: bp_ptr_def)

lemma not_avail:
  assumes sh: "bp_shape h s xs" and "\<not> bp_avail s"
  shows "free_list s = []" "xs = []"
proof -
  have "t \<notin> set xs" for t
    using assms(2) shape_lru_set [OF sh, of t] by (auto simp: bp_avail_def)
  then show "xs = []" by (metis all_not_in_conv set_empty)
  have "t \<notin> set (free_list s)" for t
    using assms(2) shape_free_set [OF sh, of t] shape_frame [OF sh, of t]
    by (auto simp: bp_avail_def frame_ok_def)
  then show "free_list s = []" by (metis all_not_in_conv set_empty)
qed

lemma bp_good_shape: "bp_good h s \<Longrightarrow> \<exists>xs. bp_shape h s xs"
  by (simp add: bp_good_def bp_inv_def)

lemma bp_saved_update [simp]:
  "bp_saved (s\<lparr>lru_replacer := r\<rparr>) = bp_saved s" "bp_saved (s\<lparr>free_list := f\<rparr>) = bp_saved s"
  "bp_saved (s\<lparr>page_table := t\<rparr>) = bp_saved s"
  by (simp_all add: bp_saved_def fun_eq_iff)

lemma bp_sync_update [simp]:
  "bp_sync (s\<lparr>lru_replacer := r\<rparr>) = bp_sync s" "bp_sync (s\<lparr>free_list := f\<rparr>) = bp_sync s"
  by (simp_all add: bp_sync_def)

lemma bp_view_update [simp]:
  "bp_view h (s\<lparr>lru_replacer := r\<rparr>) = bp_view h s" "bp_view h (s\<lparr>free_list := f\<rparr>) = bp_view h s"
  by (simp_all add: bp_view_def fun_eq_iff split: option.split)

lemma table_disk_commute: "s\<lparr>page_table := t, disk_manager := dm\<rparr> = s\<lparr>disk_manager := dm, page_table := t\<rparr>"
  by simp

lemma page_full:
  "p\<lparr>page_data := a, pin_count := b, is_dirty := c, page_id := d\<rparr> =
     \<lparr>page_data = a, page_id = d, pin_count = b, is_dirty = c\<rparr>"
  by (cases p) simp

lemma page_full_new:
  "p\<lparr>page_id := d, page_data := a, is_dirty := c, pin_count := b\<rparr> =
     \<lparr>page_data = a, page_id = d, pin_count = b, is_dirty = c\<rparr>"
  by (cases p) simp

lemma bp_FetchPage_miss:
  assumes good: "bp_good h s" and sh: "bp_shape h s xs" and av: "bp_avail s"
    and new: "eh_lookup h (page_table s) pid = None" and pid: "pid_ok pid"
    and bs: "disk_page (disk_manager s) pid = Some bs"
  shows "\<exists>s'. bp_FetchPage h pid s = Inr (bp_choice s xs, s') \<and> bp_good h s' \<and>
    eh_lookup h (page_table s') pid = Some (bp_choice s xs) \<and> bp_ptr s (bp_choice s xs) \<and>
    pool_size s' = pool_size s \<and>
    frame s' (bp_choice s xs) = \<lparr>page_data = bs, page_id = pid, pin_count = 1, is_dirty = False\<rparr> \<and>
    (\<forall>u. bp_ptr s u \<longrightarrow> u \<noteq> bp_choice s xs \<longrightarrow> frame s' u = frame s u) \<and>
    (\<forall>q x. bp_view h s q = Some x \<longrightarrow> bp_view h s' q = Some x) \<and>
    disk_page (disk_manager s') pid = Some bs \<and> pin_count (frame s (bp_choice s xs)) = 0 \<and>
    (\<forall>q x. q \<noteq> page_id (frame s (bp_choice s xs)) \<longrightarrow> disk_page (disk_manager s) q = Some x \<longrightarrow>
      disk_page (disk_manager s') q = Some x) \<and>
    next_page_id (disk_manager s') = next_page_id (disk_manager s)"
proof -
  let ?tar = "bp_choice s xs"
  let ?p = "\<lparr>page_data = bs, page_id = pid, pin_count = 1, is_dirty = False\<rparr>"
  obtain ys r f where v: "bp_GetVictimPage s = Inr (?tar, s\<lparr>lru_replacer := r, free_list := f\<rparr>)"
    "bp_held h (s\<lparr>lru_replacer := r, free_list := f\<rparr>) ys ?tar"
    using GetVictimPage_some [OF sh av] by blast
  let ?s1 = "s\<lparr>lru_replacer := r, free_list := f\<rparr>"
  obtain dm t where e: "bp_evict h pid ?tar ?s1 = Inr (?s1\<lparr>disk_manager := dm, page_table := t\<rparr>)"
    "eh_ok h t" "mBucketSize t = mBucketSize (page_table ?s1)"
    "eh_lookup h t = ((eh_lookup h (page_table ?s1))(page_id (frame ?s1 ?tar) := None))(pid \<mapsto> ?tar)"
    "dm_ok dm"
    "if is_dirty (frame ?s1 ?tar)
     then disk_page dm (page_id (frame ?s1 ?tar)) = Some (page_data (frame ?s1 ?tar)) \<and>
       (\<forall>q x. q \<noteq> page_id (frame ?s1 ?tar) \<longrightarrow> disk_page (disk_manager ?s1) q = Some x \<longrightarrow> disk_page dm q = Some x)
     else dm = disk_manager ?s1"
    "next_page_id dm = next_page_id (disk_manager s)"
    using bp_evict_returns [OF v(2), of pid] new good by (auto simp: bp_good_def)
  let ?s2 = "?s1\<lparr>disk_manager := dm, page_table := t\<rparr>"
  let ?s' = "bp_set ?s2 ?tar ?p"
  have new1: "eh_lookup h (page_table ?s1) pid = None" using new by simp
  have ptr: "bp_ptr s ?tar" using held_ptr [OF v(2)] by simp
  have "pid \<noteq> page_id (frame ?s1 ?tar)"
    using held_lookup [OF v(2), of pid ?tar] new1 ptr pid by (auto simp: pid_ok_def)
  then have dp: "disk_page dm pid = Some bs"
    using e(6) bs by (auto split: if_splits)
  have rd: "dm_ReadPage dm pid buf = Inr (dm, bs)" for buf
    using disk.read_law [OF e(5) pid dp] .
  have fo: "frame_ok ?p"
    using pid length_disk_page [OF bs] by (auto simp: frame_ok_def pid_ok_def)
  have "bp_shape h ?s' ys"
    using held_install [OF v(2) e(2,3,4) new1 fo] by simp
  moreover have w: "bp_sync ?s' \<and> bp_view h ?s' pid = Some (page_data ?p) \<and>
    (\<forall>q x. q \<noteq> pid \<longrightarrow> bp_view h ?s1 q = Some x \<longrightarrow> bp_view h ?s' q = Some x)"
    using good by (intro held_reuse [OF v(2) _ e(4,6)]) (simp_all add: bp_good_def)
  then have "bp_view h ?s' q = Some x" if "bp_view h s q = Some x" for q x
    using that bp_view_absent [OF new] bs by (cases "q = pid") auto
  moreover have "bp_FetchPage h pid s = Inr (?tar, ?s')"
    using v(1) held_nonnull [OF v(2)] e(1) rd ptr shape_length [OF sh]
    by (simp add: bp_FetchPage_def eh_table.find_law [OF shape_table [OF sh]] new bp_page_ptr page_full
        table_disk_commute)
  moreover have "frame ?s' u = (if u = ?tar then ?p else frame s u)" if "bp_ptr s u" for u
    using frame_set [of ?s2 ?tar u ?p] shape_length [OF sh] ptr that by simp
  moreover have "pin_count (frame s ?tar) = 0" using held_pin [OF v(2)] by simp
  moreover have "disk_page dm q = Some x" if "q \<noteq> page_id (frame s ?tar)" "disk_page (disk_manager s) q = Some x" for q x
    using e(6) that by (auto split: if_splits)
  ultimately show ?thesis
    using e(4,5,7) ptr w dp by (intro exI [of _ ?s']) (auto simp: bp_good_def bp_inv_def)
qed

lemma bp_NewPage_fresh:
  assumes good: "bp_good h s" and sh: "bp_shape h s xs" and av: "bp_avail s"
    and new: "eh_lookup h (page_table s) pid = None" and pid: "pid_ok pid" "next_page_id (disk_manager s) = pid"
  shows "\<exists>s'. bp_NewPage h s = Inr (bp_choice s xs, Some pid, s') \<and> bp_good h s' \<and>
    eh_lookup h (page_table s') pid = Some (bp_choice s xs) \<and> bp_ptr s (bp_choice s xs) \<and>
    next_page_id (disk_manager s') = int32 (pid + 1) \<and>
    frame s' (bp_choice s xs) =
      \<lparr>page_data = replicate PAGE_SIZE 0, page_id = pid, pin_count = 1, is_dirty = False\<rparr> \<and>
    (\<forall>u. bp_ptr s u \<longrightarrow> u \<noteq> bp_choice s xs \<longrightarrow> frame s' u = frame s u) \<and>
    (\<forall>q x. q \<noteq> pid \<longrightarrow> bp_view h s q = Some x \<longrightarrow> bp_view h s' q = Some x) \<and>
    pin_count (frame s (bp_choice s xs)) = 0 \<and> pool_size s' = pool_size s \<and>
    (\<forall>q x. q \<noteq> page_id (frame s (bp_choice s xs)) \<longrightarrow> disk_page (disk_manager s) q = Some x \<longrightarrow>
      disk_page (disk_manager s') q = Some x)"
proof -
  let ?tar = "bp_choice s xs" and ?z = "replicate PAGE_SIZE (0 :: byte)"
  let ?p = "\<lparr>page_data = ?z, page_id = pid, pin_count = 1, is_dirty = False\<rparr>"
  let ?d = "(disk_manager s)\<lparr>next_page_id := int32 (pid + 1)\<rparr>"
  obtain ys r f where v: "bp_GetVictimPage s = Inr (?tar, s\<lparr>lru_replacer := r, free_list := f\<rparr>)"
    "bp_held h (s\<lparr>lru_replacer := r, free_list := f\<rparr>) ys ?tar"
    using GetVictimPage_some [OF sh av] by blast
  let ?s1 = "s\<lparr>lru_replacer := r, free_list := f, disk_manager := ?d\<rparr>"
  have dp: "disk_page ?d = disk_page (disk_manager s)"
    by (simp add: disk_page_def fun_eq_iff)
  have he: "bp_held h ?s1 ys ?tar"
    using v(2) by (simp add: bp_held_def)
  have new1: "eh_lookup h (page_table ?s1) pid = None" using new by simp
  have "dm_ok ?d" using good by (simp add: bp_good_def dm_ok_def)
  then obtain dm t where e: "bp_evict h pid ?tar ?s1 = Inr (?s1\<lparr>disk_manager := dm, page_table := t\<rparr>)"
    "eh_ok h t" "mBucketSize t = mBucketSize (page_table ?s1)"
    "eh_lookup h t = ((eh_lookup h (page_table ?s1))(page_id (frame ?s1 ?tar) := None))(pid \<mapsto> ?tar)"
    "dm_ok dm" "next_page_id dm = int32 (pid + 1)"
    "if is_dirty (frame ?s1 ?tar)
     then disk_page dm (page_id (frame ?s1 ?tar)) = Some (page_data (frame ?s1 ?tar)) \<and>
       (\<forall>q x. q \<noteq> page_id (frame ?s1 ?tar) \<longrightarrow> disk_page (disk_manager ?s1) q = Some x \<longrightarrow> disk_page dm q = Some x)
     else dm = disk_manager ?s1"
    using bp_evict_returns [OF he new1] by auto
  let ?s2 = "?s1\<lparr>disk_manager := dm, page_table := t\<rparr>"
  let ?s' = "bp_set ?s2 ?tar ?p"
  have ptr: "bp_ptr s ?tar" using held_ptr [OF v(2)] by simp
  have fo: "frame_ok ?p"
    using pid by (auto simp: frame_ok_def pid_ok_def)
  have "bp_sync ?s1" "bp_view h ?s1 = bp_view h s"
    using good by (auto simp: bp_good_def bp_sync_def bp_saved_def bp_view_def dp split: option.split)
  then have "bp_sync ?s' \<and> bp_view h ?s' pid = Some (page_data ?p) \<and>
    (\<forall>q x. q \<noteq> pid \<longrightarrow> bp_view h s q = Some x \<longrightarrow> bp_view h ?s' q = Some x)"
    using held_reuse [OF he _ e(4,7), of ?p ?s'] by simp
  moreover have "bp_shape h ?s' ys"
    using held_install [OF he e(2,3,4) new1 fo] by simp
  moreover have "bp_NewPage h s = Inr (?tar, Some pid, ?s')"
    using v(1) held_nonnull [OF v(2)] e(1) ptr shape_length [OF sh] pid(2)
    by (simp add: bp_NewPage_def dm_AllocatePage_def bp_page_ptr pg_ResetMemory_def page_full_new)
  moreover have "frame ?s' u = (if u = ?tar then ?p else frame s u)" if "bp_ptr s u" for u
    using frame_set [of ?s2 ?tar u ?p] shape_length [OF sh] ptr that by simp
  moreover have "pin_count (frame s ?tar) = 0" using held_pin [OF v(2)] by simp
  moreover have "disk_page dm q = Some x" if "q \<noteq> page_id (frame s ?tar)" "disk_page (disk_manager s) q = Some x" for q x
    using e(7) that dp by (auto split: if_splits)
  ultimately show ?thesis
    using e(4,5,6) ptr by (intro exI [of _ ?s']) (auto simp: bp_good_def bp_inv_def)
qed

lemma repin_view:
  assumes sh: "bp_shape h s xs" and l: "eh_lookup h (page_table s) pid = Some tar"
    and s': "pages s' = pages (bp_set s tar p')" "page_table s' = page_table s" "disk_manager s' = disk_manager s"
      "pool_size s' = pool_size s" "page_id p' = pid"
  shows "bp_view h s' = (bp_view h s)(pid \<mapsto> page_data p')"
    and "bp_sync s \<Longrightarrow> (pin_count p' = 0 \<Longrightarrow> is_dirty p' \<or> disk_page (disk_manager s) pid = Some (page_data p'))
      \<Longrightarrow> bp_sync s'"
proof -
  have ptr: "bp_ptr s tar" using l shape_lookup [OF sh] by auto
  have p: "bp_ptr s' = bp_ptr s" using s'(4) by (simp add: bp_ptr_def fun_eq_iff)
  have fr: "frame s' u = (if u = tar then p' else frame s u)" if "bp_ptr s u" for u
    using frame_set [OF shape_length [OF sh] ptr that] s'(1) by (simp add: frame_def)
  show "bp_view h s' = (bp_view h s)(pid \<mapsto> page_data p')"
  proof
    fix q show "bp_view h s' q = ((bp_view h s)(pid \<mapsto> page_data p')) q"
    proof (cases "eh_lookup h (page_table s) q")
      case (Some u)
      with shape_same [OF sh l Some] fr [of u] s' show ?thesis by (simp add: bp_view_def)
    qed (use l s' in \<open>auto simp: bp_view_def\<close>)
  qed
  show "bp_sync s'" if "bp_sync s"
    "pin_count p' = 0 \<Longrightarrow> is_dirty p' \<or> disk_page (disk_manager s) pid = Some (page_data p')"
    unfolding bp_sync_def
  proof (intro allI impI)
    fix u assume u: "bp_ptr s' u \<and> page_id (frame s' u) \<noteq> INVALID_PAGE_ID \<and> pin_count (frame s' u) = 0"
    then show "bp_saved s' u"
      using fr [of u] that s'(3,5) by (cases "u = tar") (auto simp: p bp_sync_def bp_saved_def)
  qed
qed

section \<open>The interface of a page cache\<close>

text \<open>
  What the tables and the index rely on when they fetch a page, work on its bytes and unpin it:
  fetching gives the current content and disturbs no page, writing through the pointer changes that
  page alone, and unpinning changes no content. \<open>clean\<close> is the right to unpin without the dirty flag.
\<close>

locale page_cache =
  fixes fetch :: "int \<Rightarrow> 's \<Rightarrow> (nat \<times> 's) res"
    and unpin :: "int \<Rightarrow> bool \<Rightarrow> 's \<Rightarrow> (bool \<times> 's) res"
    and peek :: "'s \<Rightarrow> nat \<Rightarrow> byte list"
    and poke :: "nat \<Rightarrow> byte list \<Rightarrow> 's \<Rightarrow> 's"
    and invar :: "'s \<Rightarrow> bool"
    and fetchable :: "'s \<Rightarrow> int \<Rightarrow> bool"
    and pinned :: "'s \<Rightarrow> int \<Rightarrow> nat \<Rightarrow> bool"
    and clean :: "'s \<Rightarrow> nat \<Rightarrow> bool"
    and view :: "'s \<Rightarrow> int \<Rightarrow> byte list option"
  assumes fetch_law: "invar s \<Longrightarrow> fetchable s pid \<Longrightarrow> view s pid = Some d \<Longrightarrow>
      \<exists>tar s'. fetch pid s = Inr (tar, s') \<and> tar \<noteq> 0 \<and> invar s' \<and> pinned s' pid tar \<and> clean s' tar \<and>
        peek s' tar = d \<and> (\<forall>q x. view s q = Some x \<longrightarrow> view s' q = Some x)"
    and poke_law: "invar s \<Longrightarrow> pinned s pid tar \<Longrightarrow> length d = PAGE_SIZE \<Longrightarrow>
      invar (poke tar d s) \<and> pinned (poke tar d s) pid tar \<and> view (poke tar d s) = (view s)(pid \<mapsto> d)"
    and unpin_law: "invar s \<Longrightarrow> pinned s pid tar \<Longrightarrow> dirty \<or> clean s tar \<Longrightarrow>
      \<exists>s'. unpin pid dirty s = Inr (True, s') \<and> invar s' \<and> view s' = view s"
begin

lemma read_cycle:
  assumes "invar s" and "fetchable s pid" and "view s pid = Some d"
  shows "\<exists>tar s1 s2. fetch pid s = Inr (tar, s1) \<and> tar \<noteq> 0 \<and> peek s1 tar = d \<and>
    unpin pid False s1 = Inr (True, s2) \<and> invar s2 \<and> (\<forall>q x. view s q = Some x \<longrightarrow> view s2 q = Some x)"
proof -
  obtain tar s1 where f: "fetch pid s = Inr (tar, s1)" "tar \<noteq> 0" "invar s1" "pinned s1 pid tar" "clean s1 tar"
    "peek s1 tar = d" "\<forall>q x. view s q = Some x \<longrightarrow> view s1 q = Some x"
    using fetch_law [OF assms] by blast
  with unpin_law [OF f(3,4), of False] show ?thesis by fastforce
qed

lemma update_cycle:
  assumes "invar s" and "fetchable s pid" and "view s pid = Some d" and "length d' = PAGE_SIZE"
  shows "\<exists>tar s1 s2. fetch pid s = Inr (tar, s1) \<and> tar \<noteq> 0 \<and> peek s1 tar = d \<and>
    unpin pid True (poke tar d' s1) = Inr (True, s2) \<and> invar s2 \<and> view s2 pid = Some d' \<and>
    (\<forall>q x. q \<noteq> pid \<longrightarrow> view s q = Some x \<longrightarrow> view s2 q = Some x)"
proof -
  obtain tar s1 where f: "fetch pid s = Inr (tar, s1)" "tar \<noteq> 0" "invar s1" "pinned s1 pid tar"
    "peek s1 tar = d" "\<forall>q x. view s q = Some x \<longrightarrow> view s1 q = Some x"
    using fetch_law [OF assms(1-3)] by blast
  note p = poke_law [OF f(3,4) assms(4)]
  then obtain s2 where "unpin pid True (poke tar d' s1) = Inr (True, s2)" "invar s2"
    "view s2 = view (poke tar d' s1)"
    using unpin_law [of "poke tar d' s1" pid tar True] by blast
  with f p show ?thesis by (intro exI [of _ tar] exI [of _ s1] exI [of _ s2]) simp
qed

end

definition bp_fetchable :: "page_hash \<Rightarrow> BufferPoolManager \<Rightarrow> int \<Rightarrow> bool" where
  "bp_fetchable h s pid \<longleftrightarrow> pid_ok pid \<and> (eh_lookup h (page_table s) pid \<noteq> None \<or> bp_avail s)"

definition bp_pinned :: "page_hash \<Rightarrow> BufferPoolManager \<Rightarrow> int \<Rightarrow> nat \<Rightarrow> bool" where
  "bp_pinned h s pid tar \<longleftrightarrow> eh_lookup h (page_table s) pid = Some tar \<and> 0 < pin_count (frame s tar)"

definition bp_clean :: "BufferPoolManager \<Rightarrow> nat \<Rightarrow> bool" where
  "bp_clean s tar \<longleftrightarrow> 1 < pin_count (frame s tar) \<or> bp_saved s tar"

lemma bp_good_hit:
  assumes good: "bp_good h s" and l: "eh_lookup h (page_table s) pid = Some tar"
  shows "\<exists>s'. bp_FetchPage h pid s = Inr (tar, s') \<and> bp_good h s' \<and> bp_pinned h s' pid tar \<and>
    bp_clean s' tar \<and> bp_peek s' tar = page_data (frame s tar) \<and> bp_view h s' = bp_view h s"
proof -
  obtain xs where sh: "bp_shape h s xs" using bp_good_shape [OF good] by blast
  let ?p = "(frame s tar)\<lparr>pin_count := pin_count (frame s tar) + 1\<rparr>"
  obtain r where r: "bp_FetchPage h pid s = Inr (tar, (bp_set s tar ?p)\<lparr>lru_replacer := r\<rparr>)"
    "bp_shape h ((bp_set s tar ?p)\<lparr>lru_replacer := r\<rparr>) (remove1 tar xs)"
    using bp_FetchPage_hit [OF sh l] by blast
  let ?s = "(bp_set s tar ?p)\<lparr>lru_replacer := r\<rparr>"
  have ptr: "bp_ptr s tar" "page_id (frame s tar) = pid" "pid \<noteq> INVALID_PAGE_ID"
    using shape_lookup [OF sh] l by auto
  have pin: "0 \<le> pin_count (frame s tar)"
    using shape_frame [OF sh ptr(1)] by (simp add: frame_ok_def)
  have fr: "frame ?s tar = ?p"
    using frame_set [OF shape_length [OF sh] ptr(1) ptr(1)] by simp
  have "bp_view h ?s = (bp_view h s)(pid \<mapsto> page_data ?p)" "bp_sync s \<Longrightarrow> bp_sync ?s"
    using repin_view [OF sh l, of ?s ?p] ptr pin by auto
  moreover have "pin_count (frame s tar) = 0 \<Longrightarrow> bp_saved s tar"
    using good ptr by (simp add: bp_good_def bp_sync_def)
  ultimately show ?thesis
    using r good l pin fr bp_view_resident [OF l]
    by (intro exI [of _ ?s]) (auto simp: bp_good_def bp_inv_def bp_pinned_def bp_clean_def bp_saved_def
        bp_peek_frame)
qed

lemma bp_fetch_law:
  assumes good: "bp_good h s" and f: "bp_fetchable h s pid" and v: "bp_view h s pid = Some d"
  shows "\<exists>tar s'. bp_FetchPage h pid s = Inr (tar, s') \<and> tar \<noteq> 0 \<and> bp_good h s' \<and> bp_pinned h s' pid tar \<and>
    bp_clean s' tar \<and> bp_peek s' tar = d \<and> (\<forall>q x. bp_view h s q = Some x \<longrightarrow> bp_view h s' q = Some x)"
proof -
  obtain xs where sh: "bp_shape h s xs" using bp_good_shape [OF good] by blast
  show ?thesis
  proof (cases "eh_lookup h (page_table s) pid")
    case None
    with v have "disk_page (disk_manager s) pid = Some d" by (simp add: bp_view_absent)
    with None f obtain s' where s': "bp_FetchPage h pid s = Inr (bp_choice s xs, s')" "bp_good h s'"
      "eh_lookup h (page_table s') pid = Some (bp_choice s xs)" "bp_ptr s (bp_choice s xs)"
      "frame s' (bp_choice s xs) = \<lparr>page_data = d, page_id = pid, pin_count = 1, is_dirty = False\<rparr>"
      "\<forall>q x. bp_view h s q = Some x \<longrightarrow> bp_view h s' q = Some x"
      "disk_page (disk_manager s') pid = Some d"
      using bp_FetchPage_miss [OF good sh] unfolding bp_fetchable_def by blast
    then show ?thesis
      by (intro exI [of _ "bp_choice s xs"] exI [of _ s'])
        (simp add: bp_pinned_def bp_clean_def bp_saved_def bp_peek_frame bp_ptr_def)
  next
    case (Some tar)
    moreover have "tar \<noteq> 0" using Some shape_lookup [OF sh] by (auto simp: bp_ptr_def)
    ultimately show ?thesis
      using bp_good_hit [OF good Some] v by (fastforce simp: bp_view_resident)
  qed
qed

lemma bp_poke_law:
  assumes good: "bp_good h s" and p: "bp_pinned h s pid tar" and d: "length d = PAGE_SIZE"
  shows "bp_good h (bp_poke tar d s) \<and> bp_pinned h (bp_poke tar d s) pid tar \<and>
    bp_view h (bp_poke tar d s) = (bp_view h s)(pid \<mapsto> d)"
proof -
  obtain xs where sh: "bp_shape h s xs" using bp_good_shape [OF good] by blast
  have l: "eh_lookup h (page_table s) pid = Some tar" and pin: "0 < pin_count (frame s tar)"
    using p by (auto simp: bp_pinned_def)
  have ptr: "bp_ptr s tar" "page_id (frame s tar) = pid" "pid \<noteq> INVALID_PAGE_ID"
    using shape_lookup [OF sh] l by auto
  let ?p = "(frame s tar)\<lparr>page_data := d\<rparr>"
  let ?s = "bp_set s tar ?p"
  have "frame_ok ?p" using shape_frame [OF sh ptr(1)] d by (simp add: frame_ok_def)
  then have "bp_shape h (?s\<lparr>lru_replacer := lru_replacer s\<rparr>) xs"
    using shape_lru [OF sh] pin ptr shape_lru_set [OF sh, of tar] by (intro shape_repin [OF sh]) auto
  moreover have "?s\<lparr>lru_replacer := lru_replacer s\<rparr> = ?s" by (simp add: bp_set_def)
  moreover have "bp_view h ?s = (bp_view h s)(pid \<mapsto> page_data ?p)" "bp_sync s \<Longrightarrow> bp_sync ?s"
    using repin_view [OF sh l, of ?s ?p] ptr pin by auto
  ultimately show ?thesis
    using good l pin frame_set [OF shape_length [OF sh] ptr(1) ptr(1), of ?p]
    by (auto simp: bp_poke_frame bp_good_def bp_inv_def bp_pinned_def)
qed

lemma bp_unpin_law:
  assumes good: "bp_good h s" and p: "bp_pinned h s pid tar" and c: "dirty \<or> bp_clean s tar"
  shows "\<exists>s'. bp_UnpinPage h pid dirty s = Inr (True, s') \<and> bp_good h s' \<and> bp_view h s' = bp_view h s \<and>
    frame s' tar = (frame s tar)\<lparr>is_dirty := is_dirty (frame s tar) \<or> dirty, pin_count := pin_count (frame s tar) - 1\<rparr> \<and>
    page_table s' = page_table s"
proof -
  obtain xs where sh: "bp_shape h s xs" using bp_good_shape [OF good] by blast
  have l: "eh_lookup h (page_table s) pid = Some tar" and pin: "0 < pin_count (frame s tar)"
    using p by (auto simp: bp_pinned_def)
  have ptr: "bp_ptr s tar" "page_id (frame s tar) = pid" "pid \<noteq> INVALID_PAGE_ID"
    using shape_lookup [OF sh] l by auto
  let ?p = "(frame s tar)\<lparr>is_dirty := is_dirty (frame s tar) \<or> dirty, pin_count := pin_count (frame s tar) - 1\<rparr>"
  obtain r ys where r: "bp_UnpinPage h pid dirty s = Inr (True, (bp_set s tar ?p)\<lparr>lru_replacer := r\<rparr>)"
    "bp_shape h ((bp_set s tar ?p)\<lparr>lru_replacer := r\<rparr>) ys"
    using bp_UnpinPage_pinned [OF sh l pin refl] by blast
  let ?s = "(bp_set s tar ?p)\<lparr>lru_replacer := r\<rparr>"
  have "bp_view h ?s = (bp_view h s)(pid \<mapsto> page_data ?p)"
    using repin_view(1) [OF sh l, of ?s ?p] ptr by simp
  then have "bp_view h ?s = bp_view h s"
    using bp_view_resident [OF l] by (simp add: fun_upd_idem)
  moreover have "bp_sync ?s"
    using c ptr good by (intro repin_view(2) [OF sh l, of ?s ?p]) (auto simp: bp_clean_def bp_saved_def bp_good_def)
  moreover have "frame ?s tar = ?p"
    using frame_set [OF shape_length [OF sh] ptr(1) ptr(1), of ?p] by simp
  ultimately show ?thesis
    using r good by (intro exI [of _ ?s]) (auto simp: bp_good_def bp_inv_def)
qed

interpretation bpm: page_cache "bp_FetchPage h" "bp_UnpinPage h" bp_peek bp_poke "bp_good h"
  "bp_fetchable h" "bp_pinned h" bp_clean "bp_view h" for h
proof unfold_locales
  show "\<exists>s'. bp_UnpinPage h pid dirty s = Inr (True, s') \<and> bp_good h s' \<and> bp_view h s' = bp_view h s"
    if "bp_good h s" "bp_pinned h s pid tar" "dirty \<or> bp_clean s tar" for s pid tar dirty
    using bp_unpin_law [OF that] by blast
qed (rule bp_fetch_law bp_poke_law; assumption)+

lemma init_frame: "bp_ptr (bp_init n dm) tar \<Longrightarrow> frame (bp_init n dm) tar = new_frame"
  by (auto simp: frame_def bp_init_def bp_ptr_def intro!: nth_replicate)

lemma bp_init_good: "n \<le> 50 \<Longrightarrow> dm_ok dm \<Longrightarrow> bp_good h (bp_init n dm)"
proof -
  assume n: "n \<le> 50" and dm: "dm_ok dm"
  note f = init_frame [of n dm]
  have p: "bp_ptr (bp_init n dm) t \<longleftrightarrow> t \<in> {1..<Suc n}" for t
    by (auto simp: bp_ptr_def bp_init_def)
  have l: "eh_lookup h (page_table (bp_init n dm)) = (\<lambda>_. None)" "eh_ok h (page_table (bp_init n dm))"
    by (simp_all add: bp_init_def eh_init_lookup eh_init_ok)
  have "mBucketSize (page_table (bp_init n dm)) = 50" "pool_size (bp_init n dm) = n"
    "length (pages (bp_init n dm)) = n" "lru_rep (lru_replacer (bp_init n dm)) []"
    "free_list (bp_init n dm) = [1..<Suc n]" "disk_manager (bp_init n dm) = dm"
    by (simp_all add: bp_init_def eh_init_def lru_init_rep)
  then have "bp_shape h (bp_init n dm) []" "bp_sync (bp_init n dm)"
    using n f l by (auto simp: bp_shape_def bp_sync_def new_frame_def frame_ok_def p simp del: upt_Suc)
  with dm show ?thesis by (auto simp: bp_good_def bp_inv_def bp_init_def)
qed

lemma bp_good_set:
  assumes good: "bp_good h s" and l: "eh_lookup h (page_table s) pid = Some tar"
    and p': "frame_ok p'" "page_id p' = pid" "pin_count p' = pin_count (frame s tar)"
    and dm: "dm_ok dm" "disk_page dm pid = Some (page_data p')"
      "\<forall>q x. q \<noteq> pid \<longrightarrow> disk_page (disk_manager s) q = Some x \<longrightarrow> disk_page dm q = Some x"
  shows "bp_good h ((bp_set s tar p')\<lparr>disk_manager := dm\<rparr>)"
proof -
  obtain xs where sh: "bp_shape h s xs" using bp_good_shape [OF good] by blast
  have ptr: "bp_ptr s tar" "page_id (frame s tar) = pid" "pid \<noteq> INVALID_PAGE_ID"
    using shape_lookup [OF sh] l by auto
  let ?s = "bp_set s tar p'"
  have fr: "frame ?s u = (if u = tar then p' else frame s u)" if "bp_ptr s u" for u
    using frame_set [OF shape_length [OF sh] ptr(1) that] .
  have "bp_shape h (?s\<lparr>lru_replacer := lru_replacer s\<rparr>) xs"
    using shape_lru [OF sh] p' ptr shape_lru_set [OF sh, of tar] by (intro shape_repin [OF sh]) auto
  then have "bp_shape h (?s\<lparr>disk_manager := dm\<rparr>) xs"
    by (simp add: bp_shape_def bp_set_def frame_def bp_ptr_def)
  moreover have "bp_sync (?s\<lparr>disk_manager := dm\<rparr>)"
    unfolding bp_sync_def
  proof (intro allI impI)
    fix u assume u: "bp_ptr (?s\<lparr>disk_manager := dm\<rparr>) u \<and> page_id (frame (?s\<lparr>disk_manager := dm\<rparr>) u) \<noteq> INVALID_PAGE_ID \<and>
      pin_count (frame (?s\<lparr>disk_manager := dm\<rparr>) u) = 0"
    show "bp_saved (?s\<lparr>disk_manager := dm\<rparr>) u"
    proof (cases "u = tar")
      case True
      with fr [OF ptr(1)] dm(2) p'(2) show ?thesis by (simp add: bp_saved_def)
    next
      case False
      with u fr have "page_id (frame s u) \<noteq> pid" "bp_saved s u"
        using shape_inj [OF sh, of u tar] ptr good by (auto simp: bp_good_def bp_sync_def)
      with False u fr dm(3) show ?thesis by (auto simp: bp_saved_def)
    qed
  qed
  ultimately show ?thesis using dm(1) by (auto simp: bp_good_def bp_inv_def)
qed

lemma bp_FlushPage_resident:
  assumes good: "bp_good h s" and l: "eh_lookup h (page_table s) pid = Some tar"
    and saved: "bp_saved s tar"
  shows "\<exists>s'. bp_FlushPage h pid s = Inr (True, s') \<and> bp_good h s' \<and>
    disk_page (disk_manager s') pid = Some (page_data (frame s tar)) \<and>
    (\<forall>q x. q \<noteq> pid \<longrightarrow> disk_page (disk_manager s) q = Some x \<longrightarrow> disk_page (disk_manager s') q = Some x) \<and>
    frame s' tar = (frame s tar)\<lparr>is_dirty := False\<rparr> \<and>
    page_table s' = page_table s \<and> lru_replacer s' = lru_replacer s \<and> free_list s' = free_list s"
proof -
  obtain xs where sh: "bp_shape h s xs" using bp_good_shape [OF good] by blast
  have ptr: "bp_ptr s tar" "page_id (frame s tar) = pid" "pid \<noteq> INVALID_PAGE_ID"
    using shape_lookup [OF sh] l by auto
  note find = eh_table.find_law [OF shape_table [OF sh]] and pg = bp_page_ptr [OF shape_length [OF sh] ptr(1)]
  have fo: "frame_ok (frame s tar)" using shape_frame [OF sh ptr(1)] .
  show ?thesis
  proof (cases "is_dirty (frame s tar)")
    case False
    then have "(frame s tar)\<lparr>is_dirty := False\<rparr> = frame s tar" by (cases "frame s tar") simp
    with False saved ptr l good show ?thesis
      by (intro exI [of _ s]) (simp add: bp_FlushPage_def find pg bp_saved_def)
  next
    case True
    obtain dm where d: "dm_WritePage (disk_manager s) pid (page_data (frame s tar)) = Inr dm" "dm_ok dm"
      "disk_page dm pid = Some (page_data (frame s tar))"
      "\<forall>q x. q \<noteq> pid \<longrightarrow> disk_page (disk_manager s) q = Some x \<longrightarrow> disk_page dm q = Some x"
      using disk.write_law [of "disk_manager s" pid "page_data (frame s tar)"] good fo ptr by (auto simp: bp_good_def frame_ok_def)
    let ?p = "(frame s tar)\<lparr>is_dirty := False\<rparr>"
    have "bp_good h ((bp_set s tar ?p)\<lparr>disk_manager := dm\<rparr>)"
      using fo ptr d by (intro bp_good_set [OF good l]) (auto simp: frame_ok_def)
    with True d ptr l frame_set [OF shape_length [OF sh] ptr(1) ptr(1), of ?p] show ?thesis
      by (intro exI [of _ "(bp_set s tar ?p)\<lparr>disk_manager := dm\<rparr>"]) (simp add: bp_FlushPage_def find pg)
  qed
qed

lemma bp_DeletePage_shape:
  assumes sh: "bp_shape h s xs" and l: "eh_lookup h (page_table s) pid = Some tar"
    and pin: "pin_count (frame s tar) = 0"
  shows "\<exists>r t. bp_DeletePage h pid s = Inr (True, (bp_set s tar new_frame)\<lparr>lru_replacer := r, page_table := t,
      free_list := free_list s @ [tar]\<rparr>) \<and> eh_lookup h t = (eh_lookup h (page_table s))(pid := None) \<and>
    bp_shape h ((bp_set s tar new_frame)\<lparr>lru_replacer := r, page_table := t, free_list := free_list s @ [tar]\<rparr>)
      (remove1 tar xs)"
proof -
  have ptr: "bp_ptr s tar" "page_id (frame s tar) = pid" "pid \<noteq> INVALID_PAGE_ID"
    using shape_lookup [OF sh] l by auto
  note fs = frame_set [OF shape_length [OF sh] ptr(1), where p = new_frame]
  obtain r where r: "lru_Erase tar (lru_replacer s) = Inr (tar \<in> set xs, r)" "lru_rep r (remove1 tar xs)"
    using lru.erase_law [OF shape_lru [OF sh]] by blast
  obtain b t where t: "eh_Remove h (page_table s) pid = Inr (b, t)" "eh_ok h t"
    "eh_lookup h t = (eh_lookup h (page_table s))(pid := None)" "mBucketSize t = mBucketSize (page_table s)"
    using eh_Remove_correct [OF shape_table [OF sh]] by blast
  let ?s = "(bp_set s tar new_frame)\<lparr>lru_replacer := r, page_table := t, free_list := free_list s @ [tar]\<rparr>"
  have fr: "frame ?s u = (if u = tar then new_frame else frame s u)" if "bp_ptr s u" for u
    using fs [OF that] by simp
  have nf: "page_id new_frame = INVALID_PAGE_ID" "frame_ok new_frame"
    by (simp_all add: new_frame_def frame_ok_def)
  have inj: "u = tar" if "bp_ptr s u" "page_id (frame s u) = pid" for u
    using shape_inj [OF sh that(1) ptr(1)] that ptr by simp
  have "bp_shape h ?s (remove1 tar xs)"
    unfolding bp_shape_def
  proof (intro conjI allI impI)
    show "frame_ok (frame ?s u)" if "bp_ptr ?s u" for u
      using that fr nf(2) shape_frame [OF sh] by simp
    show "eh_lookup h (page_table ?s) q = Some u \<longleftrightarrow>
        bp_ptr ?s u \<and> page_id (frame ?s u) = q \<and> q \<noteq> INVALID_PAGE_ID" for q u
    proof (cases "u = tar")
      case True
      with shape_same(2) [OF sh l, of q u] fr [of u] nf(1) ptr(1) show ?thesis by (auto simp: t(3))
    next
      case False
      with shape_lookup [OF sh, of q u] fr [of u] inj [of u] show ?thesis by (simp add: t(3)) metis
    qed
    show "set (remove1 tar xs) = {u. bp_ptr ?s u \<and> page_id (frame ?s u) \<noteq> INVALID_PAGE_ID \<and> pin_count (frame ?s u) = 0}"
      using shape_lru_set [OF sh] fr nf(1) lru.rep_distinct [OF shape_lru [OF sh]] by (auto split: if_splits)
    show "set (free_list ?s) = {u. bp_ptr ?s u \<and> page_id (frame ?s u) = INVALID_PAGE_ID}"
      using shape_free_set [OF sh] fr nf(1) ptr by (auto split: if_splits)
    show "distinct (free_list ?s)"
      using shape_free [OF sh] shape_free_set [OF sh, of tar] ptr by simp
  qed (use r(2) t(2,4) sh in \<open>auto simp: shape_length shape_room\<close>)
  moreover have "(pg_ResetMemory ((frame s tar)\<lparr>is_dirty := False\<rparr>))\<lparr>page_id := INVALID_PAGE_ID\<rparr> = new_frame"
    using pin by (cases "frame s tar") (simp add: pg_ResetMemory_def new_frame_def)
  then have "bp_DeletePage h pid s = Inr (True, ?s)"
    using r(1) t(1) l pin ptr(1) shape_length [OF sh]
    by (simp add: bp_DeletePage_def eh_table.find_law [OF shape_table [OF sh]] bp_page_ptr dm_DeallocatePage_def)
  ultimately show ?thesis using t(3) by blast
qed

lemma bp_DeletePage_good:
  assumes good: "bp_good h s" and l: "eh_lookup h (page_table s) pid = Some tar"
    and pin: "pin_count (frame s tar) = 0"
  shows "\<exists>s'. bp_DeletePage h pid s = Inr (True, s') \<and> bp_good h s' \<and> eh_lookup h (page_table s') pid = None \<and>
    disk_manager s' = disk_manager s \<and> frame s' tar = new_frame \<and> free_list s' = free_list s @ [tar] \<and>
    (\<forall>q. q \<noteq> pid \<longrightarrow> bp_view h s' q = bp_view h s q)"
proof -
  obtain xs where sh: "bp_shape h s xs" using bp_good_shape [OF good] by blast
  have ptr: "bp_ptr s tar" using shape_lookup [OF sh] l by auto
  obtain r t where d: "bp_DeletePage h pid s = Inr (True, (bp_set s tar new_frame)\<lparr>lru_replacer := r, page_table := t,
      free_list := free_list s @ [tar]\<rparr>)" "eh_lookup h t = (eh_lookup h (page_table s))(pid := None)"
    "bp_shape h ((bp_set s tar new_frame)\<lparr>lru_replacer := r, page_table := t, free_list := free_list s @ [tar]\<rparr>)
      (remove1 tar xs)" (is "bp_shape h ?s _")
    using bp_DeletePage_shape [OF sh l pin] by blast
  have fr: "frame ?s u = (if u = tar then new_frame else frame s u)" if "bp_ptr s u" for u
    using frame_set [OF shape_length [OF sh] ptr that, of new_frame] by simp
  have "bp_sync ?s"
    using good fr by (auto simp: bp_good_def bp_sync_def bp_saved_def new_frame_def split: if_splits)
  moreover have "bp_view h ?s q = bp_view h s q" if "q \<noteq> pid" for q
  proof (cases "eh_lookup h (page_table s) q")
    case (Some u)
    with shape_same [OF sh l Some] that fr [of u] show ?thesis by (simp add: bp_view_def d(2))
  qed (use that in \<open>simp add: bp_view_def d(2)\<close>)
  ultimately show ?thesis
    using d good fr [OF ptr] by (intro exI [of _ ?s]) (auto simp: bp_good_def bp_inv_def)
qed

section \<open>Properties\<close>

text \<open>
  C10. The pool is a transparent cache for readers. If the page is resident or some frame is not
  pinned, \<^verbatim>\<open>FetchPage\<close> returns a frame that holds the current content of the page; after
  \<^verbatim>\<open>UnpinPage\<close> without the dirty flag the pool is well formed again and no page has changed, even if
  another page was evicted and written back on the way.
\<close>

theorem bp_read_cycle:
  assumes "bp_good h s" and "bp_fetchable h s pid" and "bp_view h s pid = Some d"
  shows "\<exists>tar s1 s2. bp_FetchPage h pid s = Inr (tar, s1) \<and> tar \<noteq> 0 \<and> bp_peek s1 tar = d \<and>
    bp_UnpinPage h pid False s1 = Inr (True, s2) \<and> bp_good h s2 \<and>
    (\<forall>q x. bp_view h s q = Some x \<longrightarrow> bp_view h s2 q = Some x)"
  using assms by (rule bpm.read_cycle)

lemma pool2_facts:
  fixes s defines "s \<equiv> bp_init 2 (dm_init (replicate 512 7) [])"
  shows "bp_good of_int s" "bp_fetchable of_int s 0" "bp_view of_int s 0 = Some (replicate 512 7)"
    "bp_avail s" "next_page_id (disk_manager s) = 0"
proof -
  have "bp_ptr s 1" by (simp add: s_def bp_ptr_def bp_init_def)
  then show "bp_avail s"
    using init_frame [of 2 _ 1] unfolding bp_avail_def s_def
    by (intro exI [of _ 1]) (simp add: new_frame_def)
  then show "bp_fetchable of_int s 0" by (simp add: bp_fetchable_def pid_ok_def)
  show "bp_good of_int s" by (simp add: s_def bp_init_good dm_ok_def dm_init_def)
  show "bp_view of_int s 0 = Some (replicate 512 7)"
    by (simp add: s_def bp_view_def bp_init_def eh_init_lookup disk_page_def dm_init_def bget_def)
  show "next_page_id (disk_manager s) = 0" by (simp add: s_def bp_init_def dm_init_def)
qed

theorem bp_read_cycle_witness:
  "\<exists>tar s1 s2. bp_FetchPage of_int 0 (bp_init 2 (dm_init (replicate 512 7) [])) = Inr (tar, s1) \<and> tar \<noteq> 0 \<and>
    bp_peek s1 tar = replicate 512 7 \<and> bp_UnpinPage of_int 0 False s1 = Inr (True, s2) \<and> bp_good of_int s2 \<and>
    (\<forall>q x. bp_view of_int (bp_init 2 (dm_init (replicate 512 7) [])) q = Some x \<longrightarrow> bp_view of_int s2 q = Some x)"
  using pool2_facts(1-3) by (rule bp_read_cycle)

text \<open>
  C9. The pool is a transparent cache for writers. Fetching a page, overwriting its bytes through
  the returned frame and unpinning it dirty gives the page the new content and leaves every other
  page as it was.
\<close>

theorem bp_update_cycle:
  assumes "bp_good h s" and "bp_fetchable h s pid" and "bp_view h s pid = Some d" and "length d' = PAGE_SIZE"
  shows "\<exists>tar s1 s2. bp_FetchPage h pid s = Inr (tar, s1) \<and> tar \<noteq> 0 \<and> bp_peek s1 tar = d \<and>
    bp_UnpinPage h pid True (bp_poke tar d' s1) = Inr (True, s2) \<and> bp_good h s2 \<and> bp_view h s2 pid = Some d' \<and>
    (\<forall>q x. q \<noteq> pid \<longrightarrow> bp_view h s q = Some x \<longrightarrow> bp_view h s2 q = Some x)"
  using assms by (rule bpm.update_cycle)

theorem bp_update_cycle_witness:
  "\<exists>tar s1 s2. bp_FetchPage of_int 0 (bp_init 2 (dm_init (replicate 512 7) [])) = Inr (tar, s1) \<and> tar \<noteq> 0 \<and>
    bp_peek s1 tar = replicate 512 7 \<and>
    bp_UnpinPage of_int 0 True (bp_poke tar (replicate PAGE_SIZE 9) s1) = Inr (True, s2) \<and> bp_good of_int s2 \<and>
    bp_view of_int s2 0 = Some (replicate PAGE_SIZE 9) \<and>
    (\<forall>q x. q \<noteq> 0 \<longrightarrow> bp_view of_int (bp_init 2 (dm_init (replicate 512 7) [])) q = Some x \<longrightarrow>
       bp_view of_int s2 q = Some x)"
  using pool2_facts(1-3) by (rule bp_update_cycle) simp

text \<open>
  C17. \<^verbatim>\<open>NewPage\<close> hands out the next page number with a zeroed frame that is pinned once, and no other
  page loses its content; the frame comes from the head of the free list, or is the least recently
  used frame when the list is empty.
\<close>

theorem bp_NewPage_zeroed:
  assumes "bp_good h s" and "bp_shape h s xs" and "bp_avail s"
    and "eh_lookup h (page_table s) (next_page_id (disk_manager s)) = None"
    and "pid_ok (next_page_id (disk_manager s))"
  shows "\<exists>s'. bp_NewPage h s = Inr (bp_choice s xs, Some (next_page_id (disk_manager s)), s') \<and> bp_good h s' \<and>
    next_page_id (disk_manager s') = int32 (next_page_id (disk_manager s) + 1) \<and>
    frame s' (bp_choice s xs) = \<lparr>page_data = replicate PAGE_SIZE 0, page_id = next_page_id (disk_manager s),
      pin_count = 1, is_dirty = False\<rparr> \<and>
    (\<forall>q x. q \<noteq> next_page_id (disk_manager s) \<longrightarrow> bp_view h s q = Some x \<longrightarrow> bp_view h s' q = Some x)"
  using bp_NewPage_fresh [OF assms refl] by blast

theorem bp_NewPage_zeroed_witness:
  "\<exists>s xs s'. bp_shape of_int s xs \<and> s = bp_init 2 (dm_init (replicate 512 7) []) \<and>
    bp_NewPage of_int s = Inr (bp_choice s xs, Some 0, s') \<and> bp_good of_int s'"
proof -
  let ?s = "bp_init 2 (dm_init (replicate 512 7) [])"
  obtain xs where sh: "bp_shape of_int ?s xs" using bp_good_shape [OF pool2_facts(1)] by blast
  have "eh_lookup of_int (page_table ?s) (next_page_id (disk_manager ?s)) = None"
    "pid_ok (next_page_id (disk_manager ?s))"
    by (simp_all add: bp_init_def eh_init_lookup pid_ok_def dm_init_def)
  from bp_NewPage_zeroed [OF pool2_facts(1) sh pool2_facts(4) this] sh show ?thesis
    unfolding pool2_facts(5) by blast
qed

text \<open>
  C18. When every frame is pinned, a page that is not resident cannot be fetched and no page can be
  created: both return the null pointer, take no page number and leave the pool as it was.
\<close>

theorem bp_all_pinned:
  assumes "bp_good h s" and "\<not> bp_avail s" and "eh_lookup h (page_table s) pid = None"
  shows "bp_FetchPage h pid s = Inr (0, s) \<and> bp_NewPage h s = Inr (0, None, s)"
proof -
  obtain xs where sh: "bp_shape h s xs" using bp_good_shape [OF assms(1)] by blast
  show ?thesis
    using GetVictimPage_none [OF sh not_avail [OF sh assms(2)]] assms(3)
    by (simp add: bp_NewPage_def bp_FetchPage_def eh_table.find_law [OF shape_table [OF sh]])
qed

text \<open>A pool of one frame, holding page 0 pinned once, and the same page dirty and unpinned.\<close>

lemma pool1_pinned:
  "\<exists>s. bp_good of_int s \<and> eh_lookup of_int (page_table s) 0 = Some 1 \<and> pool_size s = 1 \<and>
     frame s 1 = \<lparr>page_data = replicate 512 7, page_id = 0, pin_count = 1, is_dirty = False\<rparr>"
proof -
  let ?s = "bp_init 1 (dm_init (replicate 512 7) [])"
  have good: "bp_good of_int ?s" by (simp add: bp_init_good dm_ok_def dm_init_def)
  obtain xs where sh: "bp_shape of_int ?s xs" using bp_good_shape [OF good] by blast
  have av: "bp_avail ?s"
    using init_frame [of 1 _ 1] unfolding bp_avail_def
    by (intro exI [of _ 1]) (simp add: new_frame_def bp_ptr_def bp_init_def)
  have "bp_choice ?s xs = 1" by (simp add: bp_choice_def bp_init_def)
  moreover have "eh_lookup of_int (page_table ?s) 0 = None" "pid_ok 0"
    "disk_page (disk_manager ?s) 0 = Some (replicate 512 7)" "pool_size ?s = 1"
    by (simp_all add: bp_init_def eh_init_lookup pid_ok_def disk_page_def dm_init_def bget_def)
  ultimately show ?thesis
    using bp_FetchPage_miss [OF good sh av, of 0 "replicate 512 7"] by auto
qed

lemma pool1_idle:
  "\<exists>s. bp_good of_int s \<and> eh_lookup of_int (page_table s) 0 = Some 1 \<and>
     frame s 1 = \<lparr>page_data = replicate 512 7, page_id = 0, pin_count = 0, is_dirty = True\<rparr>"
proof -
  obtain s where s: "bp_good of_int s" "eh_lookup of_int (page_table s) 0 = Some 1"
    "frame s 1 = \<lparr>page_data = replicate 512 7, page_id = 0, pin_count = 1, is_dirty = False\<rparr>"
    using pool1_pinned by blast
  then have "bp_pinned of_int s 0 1" by (simp add: bp_pinned_def)
  then obtain s' where s': "bp_good of_int s'" "bp_view of_int s' = bp_view of_int s"
    "frame s' 1 = \<lparr>page_data = replicate 512 7, page_id = 0, pin_count = 0, is_dirty = True\<rparr>" "page_table s' = page_table s"
    using bp_unpin_law [OF s(1), of 0 1 True] s(3) by auto
  with s(2) show ?thesis by (intro exI [of _ s']) simp
qed

theorem bp_all_pinned_witness:
  "\<exists>s. bp_good of_int s \<and> pool_size s = 1 \<and> bp_FetchPage of_int 5 s = Inr (0, s) \<and>
    bp_NewPage of_int s = Inr (0, None, s)"
proof -
  obtain s where s: "bp_good of_int s" "eh_lookup of_int (page_table s) 0 = Some 1" "pool_size s = 1"
    "frame s 1 = \<lparr>page_data = replicate 512 7, page_id = 0, pin_count = 1, is_dirty = False\<rparr>"
    using pool1_pinned by blast
  have one: "bp_ptr s t \<longleftrightarrow> t = 1" for t using s(3) by (auto simp: bp_ptr_def)
  obtain xs where sh: "bp_shape of_int s xs" using bp_good_shape [OF s(1)] by blast
  have "\<not> bp_avail s" using s(4) one by (auto simp: bp_avail_def)
  moreover have "page_id (frame s 1) = 0" using s(4) by simp
  then have "eh_lookup of_int (page_table s) 5 \<noteq> Some t" for t
    unfolding shape_lookup [OF sh] one by (metis zero_neq_numeral)
  then have "eh_lookup of_int (page_table s) 5 = None" by (metis not_None_eq)
  ultimately show ?thesis using bp_all_pinned [OF s(1), of 5] s by blast
qed

text \<open>
  \<^verbatim>\<open>FlushPage\<close> on a resident page makes the file hold the bytes of its frame, clears the dirty
  flag and changes no other page of the file; the page stays resident.
\<close>

theorem bp_FlushPage_writes:
  assumes "bp_good h s" and "eh_lookup h (page_table s) pid = Some tar" and "bp_saved s tar"
  shows "\<exists>s'. bp_FlushPage h pid s = Inr (True, s') \<and> bp_good h s' \<and>
    disk_page (disk_manager s') pid = Some (page_data (frame s tar)) \<and>
    (\<forall>q x. q \<noteq> pid \<longrightarrow> disk_page (disk_manager s) q = Some x \<longrightarrow> disk_page (disk_manager s') q = Some x) \<and>
    frame s' tar = (frame s tar)\<lparr>is_dirty := False\<rparr> \<and> page_table s' = page_table s"
  using bp_FlushPage_resident [OF assms] by blast

theorem bp_FlushPage_writes_witness:
  "\<exists>s s'. bp_good of_int s \<and> is_dirty (frame s 1) \<and> bp_FlushPage of_int 0 s = Inr (True, s') \<and>
    disk_page (disk_manager s') 0 = Some (replicate 512 7) \<and> \<not> is_dirty (frame s' 1)"
proof -
  obtain s where s: "bp_good of_int s" "eh_lookup of_int (page_table s) 0 = Some 1"
    "frame s 1 = \<lparr>page_data = replicate 512 7, page_id = 0, pin_count = 0, is_dirty = True\<rparr>"
    using pool1_idle by blast
  have "bp_saved s 1" using s(3) by (simp add: bp_saved_def)
  from bp_FlushPage_writes [OF s(1,2) this] obtain s' where
    "bp_FlushPage of_int 0 s = Inr (True, s')" "disk_page (disk_manager s') 0 = Some (page_data (frame s 1))"
    "frame s' 1 = (frame s 1)\<lparr>is_dirty := False\<rparr>" by blast
  with s show ?thesis by (intro exI [of _ s] exI [of _ s']) simp
qed

text \<open>
  C19. \<^verbatim>\<open>DeletePage\<close> refuses a pinned page and changes nothing; an unpinned resident page leaves the
  page table, its frame is reset and joins the end of the free list, and no other page changes.
\<close>

theorem bp_DeletePage_frees:
  assumes "bp_good h s" and "eh_lookup h (page_table s) pid = Some tar"
  shows "if 0 < pin_count (frame s tar) then bp_DeletePage h pid s = Inr (False, s)
    else \<exists>s'. bp_DeletePage h pid s = Inr (True, s') \<and> bp_good h s' \<and> eh_lookup h (page_table s') pid = None \<and>
      frame s' tar = new_frame \<and> free_list s' = free_list s @ [tar] \<and>
      (\<forall>q. q \<noteq> pid \<longrightarrow> bp_view h s' q = bp_view h s q)"
proof -
  obtain xs where sh: "bp_shape h s xs" using bp_good_shape [OF assms(1)] by blast
  have ptr: "bp_ptr s tar" using shape_lookup [OF sh] assms(2) by auto
  then have "0 \<le> pin_count (frame s tar)" using shape_frame [OF sh] by (auto simp: frame_ok_def)
  then show ?thesis
    using bp_DeletePage_good [OF assms] assms(2) ptr shape_length [OF sh]
    by (auto simp: bp_DeletePage_def eh_table.find_law [OF shape_table [OF sh]] bp_page_ptr)
qed

theorem bp_DeletePage_frees_witness:
  "\<exists>s s'. bp_good of_int s \<and> eh_lookup of_int (page_table s) 0 = Some 1 \<and>
    bp_DeletePage of_int 0 s = Inr (True, s') \<and> eh_lookup of_int (page_table s') 0 = None \<and> frame s' 1 = new_frame"
proof -
  obtain s where s: "bp_good of_int s" "eh_lookup of_int (page_table s) 0 = Some 1"
    "frame s 1 = \<lparr>page_data = replicate 512 7, page_id = 0, pin_count = 0, is_dirty = True\<rparr>"
    using pool1_idle by blast
  have "\<not> 0 < pin_count (frame s 1)" using s(3) by simp
  from bp_DeletePage_frees [OF s(1,2), unfolded if_not_P [OF this]] s(1,2) show ?thesis by blast
qed

text \<open>
  \<^verbatim>\<open>UnpinPage\<close> with the pin already at zero does not return false, as its comment says: it stops
  at the assertion. \<^verbatim>\<open>UnpinPage\<close> and \<^verbatim>\<open>FlushPage\<close> of a page that is not resident return false and
  change nothing.
\<close>

theorem bp_UnpinPage_misuse:
  assumes "bp_good h s"
  shows "case eh_lookup h (page_table s) pid of
      None \<Rightarrow> bp_UnpinPage h pid dirty s = Inr (False, s) \<and> bp_FlushPage h pid s = Inr (False, s)
    | Some tar \<Rightarrow> bp_UnpinPage h pid dirty s = Inl Assertion_Failed \<longleftrightarrow> pin_count (frame s tar) = 0"
proof -
  obtain xs where sh: "bp_shape h s xs" using bp_good_shape [OF assms] by blast
  note find = eh_table.find_law [OF shape_table [OF sh]]
  show ?thesis
  proof (cases "eh_lookup h (page_table s) pid")
    case (Some tar)
    then have ptr: "bp_ptr s tar" using shape_lookup [OF sh] by auto
    have pin: "0 \<le> pin_count (frame s tar)" using shape_frame [OF sh ptr] by (simp add: frame_ok_def)
    show ?thesis
    proof (cases "pin_count (frame s tar) = 0")
      case True
      with Some ptr shape_length [OF sh] show ?thesis by (simp add: bp_UnpinPage_def find bp_page_ptr Let_def)
    next
      case False
      with pin have "0 < pin_count (frame s tar)" by simp
      from bp_UnpinPage_pinned [OF sh Some this refl, of dirty] Some False show ?thesis by auto
    qed
  qed (simp add: bp_UnpinPage_def bp_FlushPage_def find)
qed

theorem bp_UnpinPage_misuse_witness:
  "\<exists>s. bp_good of_int s \<and> bp_UnpinPage of_int 0 True s = Inl Assertion_Failed"
proof -
  obtain s where s: "bp_good of_int s" "eh_lookup of_int (page_table s) 0 = Some 1" "pin_count (frame s 1) = 0"
    using pool1_idle by fastforce
  with bp_UnpinPage_misuse [OF s(1), of 0 True] show ?thesis by auto
qed

end
