(* ===== verification/Header_Page.thy ===== *)
theory Header_Page
  imports Page_Bytes
begin

text \<open>
  The header page of \<^verbatim>\<open>page/header_page.h\<close> and \<^verbatim>\<open>page/header_page.cpp\<close>: page 0 of the file, a count
  followed by records of 36 bytes (a C string in 32 bytes and a root page number). A page is its
  byte list, a \<^verbatim>\<open>std::string\<close> the list of its characters without the terminator.
\<close>

section \<open>Operations\<close>

text \<open>
  \<^verbatim>\<open>strcmp(data + off, name.c_str()) == 0\<close>: bytes are read up to the first difference, and the string
  on the right ends at its first zero byte.
\<close>

fun strcmp_eq :: "byte list \<Rightarrow> nat \<Rightarrow> byte list \<Rightarrow> bool res" where
  "strcmp_eq d off [] = bindE (nth_res d off) (\<lambda>b. ok (b = 0))"
| "strcmp_eq d off (c # cs) =
     bindE (nth_res d off) (\<lambda>b.
       if c = 0 then ok (b = 0) else if b \<noteq> c then ok False else strcmp_eq d (off + 1) cs)"

definition hp_GetRecordCount :: "byte list \<Rightarrow> int res" where
  "hp_GetRecordCount d = rd32 d 0"

definition hp_SetRecordCount :: "byte list \<Rightarrow> int \<Rightarrow> byte list res" where
  "hp_SetRecordCount d record_count = wr32 d 0 record_count"

definition hp_Init :: "byte list \<Rightarrow> byte list res" where
  "hp_Init d = hp_SetRecordCount d 0"

fun hp_scan :: "byte list \<Rightarrow> byte list \<Rightarrow> nat list \<Rightarrow> int res" where
  "hp_scan d name [] = ok (- 1)"
| "hp_scan d name (i # is) =
     bindE (strcmp_eq d (4 + i * 36) name) (\<lambda>e. if e then ok (int i) else hp_scan d name is)"

definition hp_FindRecord :: "byte list \<Rightarrow> byte list \<Rightarrow> int res" where
  "hp_FindRecord d name =
     bindE (hp_GetRecordCount d) (\<lambda>record_num. hp_scan d name [0..<nat record_num])"

definition hp_InsertRecord :: "byte list \<Rightarrow> byte list \<Rightarrow> int \<Rightarrow> (bool \<times> byte list) res" where
  "hp_InsertRecord d name root_id =
     bindE (assertE (length name < 32)) (\<lambda>_.
     bindE (assertE (root_id > INVALID_PAGE_ID)) (\<lambda>_.
     bindE (hp_GetRecordCount d) (\<lambda>record_num.
     let offset = 4 + record_num * 36 in
     bindE (hp_FindRecord d name) (\<lambda>f.
       if f \<noteq> - 1 then ok (False, d)
       else
         bindE (wr_bytes d offset (name @ [0])) (\<lambda>d1.
         bindE (wr32 d1 (offset + 32) root_id) (\<lambda>d2.
         bindE (hp_SetRecordCount d2 (record_num + 1)) (\<lambda>d3. ok (True, d3))))))))"

definition hp_DeleteRecord :: "byte list \<Rightarrow> byte list \<Rightarrow> (bool \<times> byte list) res" where
  "hp_DeleteRecord d name =
     bindE (hp_GetRecordCount d) (\<lambda>record_num.
     bindE (assertE (record_num > 0)) (\<lambda>_.
     bindE (hp_FindRecord d name) (\<lambda>index.
       if index = - 1 then ok (False, d)
       else
         (let offset = index * 36 + 4 in
          bindE (mem_move d offset (offset + 36) ((record_num - index - 1) * 36)) (\<lambda>d1.
          bindE (hp_SetRecordCount d1 (record_num - 1)) (\<lambda>d2. ok (True, d2)))))))"

definition hp_UpdateRecord :: "byte list \<Rightarrow> byte list \<Rightarrow> int \<Rightarrow> (bool \<times> byte list) res" where
  "hp_UpdateRecord d name root_id =
     bindE (assertE (length name < 32)) (\<lambda>_.
     bindE (hp_FindRecord d name) (\<lambda>index.
       if index = - 1 then ok (False, d)
       else
         (let offset = index * 36 + 4 in
          bindE (wr32 d (offset + 32) root_id) (\<lambda>d1. ok (True, d1)))))"

definition hp_GetRootId :: "byte list \<Rightarrow> byte list \<Rightarrow> int option res" where
  "hp_GetRootId d name =
     bindE (assertE (length name < 32)) (\<lambda>_.
     bindE (hp_FindRecord d name) (\<lambda>index.
       if index = - 1 then ok None
       else bindE (rd32 d ((index + 1) * 36)) (\<lambda>root_id. ok (Some root_id))))"

section \<open>The records of a page\<close>

definition hp_count :: "byte list \<Rightarrow> nat" where
  "hp_count d = nat (get32 d 0)"

definition hp_name :: "byte list \<Rightarrow> nat \<Rightarrow> byte list" where
  "hp_name d i = takeWhile (\<lambda>b. b \<noteq> 0) (bget d (4 + i * 36) 32)"

definition hp_root :: "byte list \<Rightarrow> nat \<Rightarrow> int" where
  "hp_root d i = get32 d (36 + i * 36)"

definition hp_entries :: "byte list \<Rightarrow> (byte list \<times> int) list" where
  "hp_entries d = map (\<lambda>i. (hp_name d i, hp_root d i)) [0..<hp_count d]"

definition hp_ok :: "byte list \<Rightarrow> bool" where
  "hp_ok d \<longleftrightarrow> length d = PAGE_SIZE \<and> 0 \<le> get32 d 0 \<and> get32 d 0 \<le> 14 \<and>
     (\<forall>i < hp_count d. 0 \<in> set (bget d (4 + i * 36) 32)) \<and> distinct (map fst (hp_entries d))"

lemma hp_okD:
  assumes "hp_ok d"
  shows "length d = PAGE_SIZE" "hp_count d \<le> 14" "get32 d 0 = int (hp_count d)"
    "i < hp_count d \<Longrightarrow> 0 \<in> set (bget d (4 + i * 36) 32)" "distinct (map fst (hp_entries d))"
  using assms by (auto simp: hp_ok_def hp_count_def)

lemma hp_GetRecordCount_ok: "hp_ok d \<Longrightarrow> hp_GetRecordCount d = Inr (int (hp_count d))"
  using rd32_in [of 0 d] by (simp add: hp_GetRecordCount_def hp_okD)

lemma bget_0: "bget d off 0 = []"
  by (simp add: bget_def)

lemma bget_Cons: "off < length d \<Longrightarrow> bget d off (Suc n) = d ! off # bget d (Suc off) n"
  by (simp add: bget_def Cons_nth_drop_Suc [symmetric])

lemma strcmp_eq_block:
  "0 \<notin> set name \<Longrightarrow> off + n \<le> length d \<Longrightarrow> 0 \<in> set (bget d off n) \<Longrightarrow>
     strcmp_eq d off name = Inr (takeWhile (\<lambda>b. b \<noteq> 0) (bget d off n) = name)"
proof (induction name arbitrary: off n)
  case Nil
  then show ?case by (cases n) (auto simp: bget_Cons bget_0)
next
  case (Cons c cs)
  then obtain m where n: "n = Suc m" by (cases n) (auto simp: bget_0)
  show ?case
  proof (cases "d ! off = c")
    case True
    with Cons.prems n have "strcmp_eq d (off + 1) cs =
        Inr (takeWhile (\<lambda>b. b \<noteq> 0) (bget d (off + 1) m) = cs)"
      by (intro Cons.IH) (auto simp: bget_Cons)
    with True Cons.prems n show ?thesis by (auto simp: bget_Cons)
  qed (use Cons.prems n in \<open>auto simp: bget_Cons\<close>)
qed

lemma strcmp_eq_ok:
  "hp_ok d \<Longrightarrow> i < hp_count d \<Longrightarrow> 0 \<notin> set name \<Longrightarrow>
     strcmp_eq d (4 + i * 36) name = Inr (hp_name d i = name)"
  unfolding hp_name_def using hp_okD(2,4)
  by (intro strcmp_eq_block) (fastforce simp: hp_okD(1))+

lemma hp_scan_ok:
  "hp_ok d \<Longrightarrow> 0 \<notin> set name \<Longrightarrow> \<forall>i \<in> set is. i < hp_count d \<Longrightarrow>
     hp_scan d name is = Inr (case List.find (\<lambda>i. hp_name d i = name) is of None \<Rightarrow> - 1 | Some i \<Rightarrow> int i)"
  by (induction "is") (auto simp: strcmp_eq_ok)

lemma hp_FindRecord_ok:
  "hp_ok d \<Longrightarrow> 0 \<notin> set name \<Longrightarrow> hp_FindRecord d name =
     Inr (case List.find (\<lambda>i. hp_name d i = name) [0..<hp_count d] of None \<Rightarrow> - 1 | Some i \<Rightarrow> int i)"
  by (simp add: hp_FindRecord_def hp_GetRecordCount_ok hp_scan_ok)

lemma hp_FindRecord_present:
  assumes "hp_ok d" and "i < hp_count d" and "hp_name d i = name" and "0 \<notin> set name"
  shows "hp_FindRecord d name = Inr (int i)"
proof -
  have "inj_on (hp_name d) {0..<hp_count d}"
    using hp_okD(5) [OF assms(1)] by (simp add: hp_entries_def comp_def distinct_map)
  then have "List.find (\<lambda>i. hp_name d i = name) [0..<hp_count d] = Some i"
    using assms(2,3) by (force simp: find_Some_iff inj_on_def intro!: exI [of _ i])
  then show ?thesis using assms by (simp add: hp_FindRecord_ok)
qed

lemma hp_FindRecord_absent:
  assumes "hp_ok d" and "name \<notin> fst ` set (hp_entries d)" and "0 \<notin> set name"
  shows "hp_FindRecord d name = Inr (- 1)"
proof -
  have "List.find (\<lambda>i. hp_name d i = name) [0..<hp_count d] = None"
    using assms(2) by (force simp: find_None_iff hp_entries_def)
  then show ?thesis using assms by (simp add: hp_FindRecord_ok)
qed

lemma hp_entry_index: "name \<in> fst ` set (hp_entries d) \<Longrightarrow> \<exists>i < hp_count d. hp_name d i = name"
  by (auto simp: hp_entries_def)

lemma hp_entries_map_of:
  assumes "hp_ok d" and "i < hp_count d"
  shows "map_of (hp_entries d) (hp_name d i) = Some (hp_root d i)"
  using assms(2) by (intro map_of_is_SomeI [OF hp_okD(5) [OF assms(1)]]) (auto simp: hp_entries_def)

lemma hp_GetRootId_ok:
  assumes "hp_ok d" and "0 \<notin> set name" and "length name < 32"
  shows "hp_GetRootId d name = Inr (map_of (hp_entries d) name)"
proof (cases "name \<in> fst ` set (hp_entries d)")
  case True
  then obtain i where i: "i < hp_count d" "hp_name d i = name" using hp_entry_index by blast
  have "rd32 d (int ((i + 1) * 36)) = Inr (get32 d ((i + 1) * 36))"
    using i hp_okD(1,2) [OF assms(1)] by (intro rd32_in) simp
  then have "rd32 d ((int i + 1) * 36) = Inr (hp_root d i)"
    by (simp add: hp_root_def algebra_simps)
  then show ?thesis
    using hp_FindRecord_present [OF assms(1) i assms(2)] hp_entries_map_of [OF assms(1) i(1)] i(2) assms(3)
    by (simp add: hp_GetRootId_def)
next
  case False
  then have "map_of (hp_entries d) name = None" by (simp add: map_of_eq_None_iff)
  then show ?thesis using hp_FindRecord_absent [OF assms(1) False assms(2)] assms(3) by (simp add: hp_GetRootId_def)
qed

lemma takeWhile_terminated: "0 \<notin> set xs \<Longrightarrow> takeWhile (\<lambda>b. b \<noteq> 0) (xs @ 0 # ys) = (xs :: byte list)"
  by (induction xs) auto

text \<open>When a page is built whose records are known, well-formedness follows from the list.\<close>

lemma hp_okI:
  assumes "length d = PAGE_SIZE" and "get32 d 0 = int n" and "n \<le> 14"
    and "\<And>i. i < n \<Longrightarrow> 0 \<in> set (bget d (4 + i * 36) 32)"
    and "\<And>i. i < n \<Longrightarrow> (hp_name d i, hp_root d i) = es ! i" and "length es = n" and "distinct (map fst es)"
  shows "hp_ok d \<and> hp_entries d = es"
proof -
  have "hp_entries d = es"
    using assms(2,5,6) by (intro nth_equalityI) (auto simp: hp_entries_def hp_count_def)
  then show ?thesis using assms by (auto simp: hp_ok_def hp_count_def)
qed

lemma hp_entries_nth: "i < hp_count d \<Longrightarrow> hp_entries d ! i = (hp_name d i, hp_root d i)"
  by (simp add: hp_entries_def)

lemma length_hp_entries [simp]: "length (hp_entries d) = hp_count d"
  by (simp add: hp_entries_def)

lemma hp_InsertRecord_new:
  assumes ok: "hp_ok d" and new: "name \<notin> fst ` set (hp_entries d)" and name: "0 \<notin> set name" "length name < 32"
    and room: "hp_count d < 14" and root: "0 \<le> root" "root < 2147483648"
  shows "\<exists>d'. hp_InsertRecord d name root = Inr (True, d') \<and> hp_ok d' \<and> hp_entries d' = hp_entries d @ [(name, root)]"
proof -
  let ?n = "hp_count d" and ?o = "4 + hp_count d * 36"
  let ?d1 = "bput d ?o (name @ [0])"
  let ?d2 = "put32 ?d1 (?o + 32) root"
  let ?d3 = "put32 ?d2 0 (int ?n + 1)"
  note l = hp_okD(1) [OF ok]
  have len: "length ?d1 = 512" "length ?d2 = 512" "length ?d3 = 512"
    using l name(2) room by (simp_all add: length_bput)
  have "wr_bytes d (4 + int ?n * 36) (name @ [0]) = Inr ?d1"
    using wr_bytes_in [of ?o "name @ [0]" d] l name(2) room by simp
  moreover have "wr32 ?d1 (4 + int ?n * 36 + 32) root = Inr ?d2"
    using wr32_in [of "?o + 32" ?d1 root] len room by simp
  moreover have "hp_SetRecordCount ?d2 (int ?n + 1) = Inr ?d3"
    using wr32_in [of 0 ?d2] len by (simp add: hp_SetRecordCount_def)
  ultimately have "hp_InsertRecord d name root = Inr (True, ?d3)"
    using name root hp_FindRecord_absent [OF ok new name(1)]
    by (simp add: hp_InsertRecord_def hp_GetRecordCount_ok [OF ok] Let_def)
  moreover have "hp_ok ?d3 \<and> hp_entries ?d3 = hp_entries d @ [(name, root)]"
  proof (rule hp_okI [where n = "?n + 1"])
    have old: "bget ?d3 (4 + i * 36) 32 = bget d (4 + i * 36) 32" "hp_root ?d3 i = hp_root d i"
      if "i < ?n" for i
      using that l len name(2) room by (simp_all add: hp_root_def block_simps)
    have blk: "bget ?d3 ?o 32 = name @ 0 # bget d (?o + length name + 1) (31 - length name)"
      using l len name(2) room
      by (simp add: bget_append [of "length name + 1" "31 - length name" 32] block_simps)
    have last: "hp_name ?d3 ?n = name" "hp_root ?d3 ?n = root"
      using blk takeWhile_terminated [OF name(1)] l len name(2) room root
      by (simp_all add: hp_root_def hp_name_def block_simps algebra_simps)
    show "0 \<in> set (bget ?d3 (4 + i * 36) 32)" if "i < ?n + 1" for i
      using that old(1) [of i] hp_okD(4) [OF ok, of i] blk by (cases "i = ?n") auto
    show "(hp_name ?d3 i, hp_root ?d3 i) = (hp_entries d @ [(name, root)]) ! i" if "i < ?n + 1" for i
      using that old [of i] last by (cases "i = ?n") (auto simp: nth_append hp_entries_nth hp_name_def)
  qed (use len room new hp_okD(5) [OF ok] in auto)
  ultimately show ?thesis by blast
qed

lemma hp_UpdateRecord_present:
  assumes ok: "hp_ok d" and i: "i < hp_count d" "hp_name d i = name" and name: "0 \<notin> set name" "length name < 32"
    and root: "in32 root"
  shows "\<exists>d'. hp_UpdateRecord d name root = Inr (True, d') \<and> hp_ok d' \<and> hp_entries d' = (hp_entries d)[i := (name, root)]"
proof -
  let ?d = "put32 d (36 + i * 36) root"
  note l = hp_okD(1) [OF ok]
  have i14: "i < 14" using i hp_okD(2) [OF ok] by simp
  have "wr32 d (int i * 36 + 4 + 32) root = Inr ?d"
    using wr32_in [of "36 + i * 36" d root] l i14 by (simp add: algebra_simps)
  then have "hp_UpdateRecord d name root = Inr (True, ?d)"
    using name hp_FindRecord_present [OF ok i name(1)] by (simp add: hp_UpdateRecord_def Let_def)
  moreover have "hp_ok ?d \<and> hp_entries ?d = (hp_entries d)[i := (name, root)]"
  proof (rule hp_okI [where n = "hp_count d"])
    have blk: "bget ?d (4 + j * 36) 32 = bget d (4 + j * 36) 32" if "j < hp_count d" for j
      using that l i14 hp_okD(2) [OF ok] by (intro bget_put32_other) (auto simp: not_less)
    have root': "hp_root ?d j = (if j = i then root else hp_root d j)" if "j < hp_count d" for j
    proof (cases "j = i")
      case False
      then have "36 + j * 36 + 4 \<le> 36 + i * 36 \<or> 36 + i * 36 + 4 \<le> 36 + j * 36" by linarith
      with False that l i14 hp_okD(2) [OF ok] show ?thesis by (simp add: hp_root_def get32_put32_other)
    qed (use l i14 root in \<open>simp add: hp_root_def\<close>)
    show "0 \<in> set (bget ?d (4 + j * 36) 32)" if "j < hp_count d" for j
      using blk that hp_okD(4) [OF ok] by simp
    show "(hp_name ?d j, hp_root ?d j) = (hp_entries d)[i := (name, root)] ! j" if "j < hp_count d" for j
      using that i blk root' by (auto simp: nth_list_update hp_entries_nth hp_name_def)
    have "(map fst (hp_entries d))[i := name] = map fst (hp_entries d)"
      using i by (metis fst_conv hp_entries_nth length_hp_entries list_update_id nth_map)
    then show "distinct (map fst ((hp_entries d)[i := (name, root)]))"
      using hp_okD(5) [OF ok] by (simp add: map_update)
  qed (use l i14 hp_okD(2,3) [OF ok] in \<open>auto simp: get32_put32_other\<close>)
  ultimately show ?thesis by blast
qed

lemma hp_DeleteRecord_present:
  assumes ok: "hp_ok d" and k: "k < hp_count d" "hp_name d k = name" and name: "0 \<notin> set name"
  shows "\<exists>d'. hp_DeleteRecord d name = Inr (True, d') \<and> hp_ok d' \<and>
    hp_entries d' = take k (hp_entries d) @ drop (Suc k) (hp_entries d)"
proof -
  let ?n = "hp_count d" and ?o = "4 + k * 36"
  let ?m = "(hp_count d - k - 1) * 36"
  let ?d1 = "bput d ?o (bget d (?o + 36) ?m)"
  let ?d = "put32 ?d1 0 (int ?n - 1)"
  note l = hp_okD(1) [OF ok]
  have n14: "?n \<le> 14" using hp_okD(2) [OF ok] .
  have m: "?o + 36 + ?m = 4 + ?n * 36" using k(1) by (simp add: algebra_simps)
  then have bound: "?o + 36 + ?m \<le> 512" using n14 by simp
  have lb: "length (bget d (?o + 36) ?m) = ?m" using bound l by (intro length_bget) simp
  have "length ?d1 = length d" by (rule length_bput) (use l bound lb in simp)
  then have len: "length ?d1 = 512" using l by simp
  have ints: "(int ?n - int k - 1) * 36 = int ?m" "int k * 36 + 4 = int ?o" "int ?o + 36 = int (?o + 36)"
    using k(1) by (simp_all add: of_nat_diff)
  have "mem_move d (int k * 36 + 4) (int k * 36 + 4 + 36) ((int ?n - int k - 1) * 36) = Inr ?d1"
    unfolding ints by (rule mem_move_in) (use bound l in simp_all)
  moreover have "hp_SetRecordCount ?d1 (int ?n - 1) = Inr ?d"
    using wr32_in [of 0 ?d1] len by (simp add: hp_SetRecordCount_def)
  ultimately have "hp_DeleteRecord d name = Inr (True, ?d)"
    using k name hp_FindRecord_present [OF ok k name]
    by (simp add: hp_DeleteRecord_def hp_GetRecordCount_ok [OF ok] Let_def)
  moreover have "hp_ok ?d \<and> hp_entries ?d = take k (hp_entries d) @ drop (Suc k) (hp_entries d)"
  proof (rule hp_okI [where n = "?n - 1"])
    let ?j = "\<lambda>i. if i < k then i else Suc i"
    have blk: "bget ?d (4 + i * 36 + a) b = bget d (4 + ?j i * 36 + a) b"
      if "i < ?n - 1" "a + b \<le> 36" for i a b
    proof (cases "i < k")
      case True
      with that l len lb bound m show ?thesis by (simp add: block_simps)
    next
      case False
      with that have "4 + i * 36 + a + b \<le> ?o + ?m" using m by simp
      with False that l len lb bound show ?thesis by (simp add: block_simps algebra_simps)
    qed
    have jn: "?j i < ?n" if "i < ?n - 1" for i using that by auto
    have nm: "bget ?d (4 + i * 36) 32 = bget d (4 + ?j i * 36) 32" "hp_root ?d i = hp_root d (?j i)"
      if "i < ?n - 1" for i
      using blk [OF that, of 0 32] blk [OF that, of 32 4] by (simp_all add: hp_root_def get32_def add.commute)
    show "0 \<in> set (bget ?d (4 + i * 36) 32)" if "i < ?n - 1" for i
      using nm(1) [OF that] hp_okD(4) [OF ok jn [OF that]] by simp
    show "(hp_name ?d i, hp_root ?d i) = (take k (hp_entries d) @ drop (Suc k) (hp_entries d)) ! i" if "i < ?n - 1" for i
      using nm [OF that] hp_entries_nth [OF jn [OF that]] k(1) that by (auto simp: nth_append hp_name_def min_def)
    have "distinct (map fst (take k (hp_entries d) @ hp_entries d ! k # drop (Suc k) (hp_entries d)))"
      using hp_okD(5) [OF ok] k(1) by (metis id_take_nth_drop length_hp_entries)
    then show "distinct (map fst (take k (hp_entries d) @ drop (Suc k) (hp_entries d)))"
      by auto
  qed (use l len n14 k(1) in \<open>auto simp: of_nat_diff\<close>)
  ultimately show ?thesis by blast
qed

lemma hp_Init_ok:
  assumes "length d = PAGE_SIZE"
  shows "\<exists>d'. hp_Init d = Inr d' \<and> hp_ok d' \<and> hp_entries d' = []"
  using assms wr32_in [of 0 d 0]
  by (auto simp: hp_Init_def hp_SetRecordCount_def hp_ok_def hp_count_def hp_entries_def)

lemma hp_InsertRecord_duplicate:
  assumes "hp_ok d" and "name \<in> fst ` set (hp_entries d)" and "0 \<notin> set name" and "length name < 32" and "0 \<le> root"
  shows "hp_InsertRecord d name root = Inr (False, d)"
proof -
  obtain i where "i < hp_count d" "hp_name d i = name" using hp_entry_index [OF assms(2)] by blast
  then show ?thesis
    using assms hp_FindRecord_present [OF assms(1)]
    by (simp add: hp_InsertRecord_def hp_GetRecordCount_ok Let_def)
qed

lemma filter_other_keys:
  assumes "distinct (map fst (xs @ y # ys))" and "fst y = k"
  shows "filter (\<lambda>e. fst e \<noteq> k) (xs @ y # ys) = xs @ ys"
proof -
  have "k \<notin> fst ` set xs" "k \<notin> fst ` set ys" using assms by auto
  then have "filter (\<lambda>e. fst e \<noteq> k) xs = xs" "filter (\<lambda>e. fst e \<noteq> k) ys = ys"
    by (auto simp: filter_id_conv simp del: image_iff intro: rev_image_eqI)
  then show ?thesis using assms(2) by simp
qed

lemma map_of_list_update:
  "i < length xs \<Longrightarrow> fst (xs ! i) = k \<Longrightarrow> distinct (map fst xs) \<Longrightarrow>
     map_of (xs[i := (k, v)]) = (map_of xs)(k \<mapsto> v)"
proof (induction xs arbitrary: i)
  case (Cons x xs)
  then show ?case
    by (cases i) (auto simp: fun_eq_iff, metis nth_mem image_eqI)
qed simp

lemma map_of_snoc_new: "map_of xs k = None \<Longrightarrow> map_of (xs @ [(k, v)]) = (map_of xs)(k \<mapsto> v)"
  by (auto simp: map_add_def fun_eq_iff split: option.split)

section \<open>The interface of a root directory\<close>

text \<open>
  What the index relies on when it records where its root is: a name that was registered is found
  with the root given last, and no other name is affected.
\<close>

locale root_directory =
  fixes register :: "'d \<Rightarrow> byte list \<Rightarrow> int \<Rightarrow> (bool \<times> 'd) res"
    and change :: "'d \<Rightarrow> byte list \<Rightarrow> int \<Rightarrow> (bool \<times> 'd) res"
    and root_of :: "'d \<Rightarrow> byte list \<Rightarrow> int option res"
    and invar :: "'d \<Rightarrow> bool"
    and valid :: "byte list \<Rightarrow> bool"
    and room :: "'d \<Rightarrow> bool"
    and roots :: "'d \<Rightarrow> byte list \<Rightarrow> int option"
  assumes register_law: "invar d \<Longrightarrow> valid name \<Longrightarrow> 0 \<le> r \<Longrightarrow> in32 r \<Longrightarrow> roots d name = None \<Longrightarrow> room d \<Longrightarrow>
      \<exists>d'. register d name r = Inr (True, d') \<and> invar d' \<and> roots d' = (roots d)(name \<mapsto> r)"
    and change_law: "invar d \<Longrightarrow> valid name \<Longrightarrow> in32 r \<Longrightarrow> roots d name \<noteq> None \<Longrightarrow>
      \<exists>d'. change d name r = Inr (True, d') \<and> invar d' \<and> roots d' = (roots d)(name \<mapsto> r)"
    and root_law: "invar d \<Longrightarrow> valid name \<Longrightarrow> root_of d name = Inr (roots d name)"
begin

lemma last_root_found:
  assumes "invar d" and "valid name" and "0 \<le> r" and "in32 r" and "in32 r'" and "roots d name = None" and "room d"
  shows "\<exists>d1 d2. register d name r = Inr (True, d1) \<and> change d1 name r' = Inr (True, d2) \<and> invar d2 \<and>
    root_of d2 name = Inr (Some r') \<and> (\<forall>other. other \<noteq> name \<longrightarrow> valid other \<longrightarrow> root_of d2 other = root_of d other)"
proof -
  obtain d1 where d1: "register d name r = Inr (True, d1)" "invar d1" "roots d1 = (roots d)(name \<mapsto> r)"
    using register_law [OF assms(1-4,6,7)] by blast
  then obtain d2 where "change d1 name r' = Inr (True, d2)" "invar d2" "roots d2 = (roots d1)(name \<mapsto> r')"
    using change_law [OF d1(2) assms(2,5)] by auto
  with d1 assms(1,2) show ?thesis by (auto simp: root_law)
qed

end

definition name_ok :: "byte list \<Rightarrow> bool" where
  "name_ok name \<longleftrightarrow> 0 \<notin> set name \<and> length name < 32"

interpretation header: root_directory hp_InsertRecord hp_UpdateRecord hp_GetRootId hp_ok name_ok
  "\<lambda>d. hp_count d < 14" "\<lambda>d. map_of (hp_entries d)"
proof unfold_locales
  fix d name r
  assume ok: "hp_ok d" and name: "name_ok name" and r: "in32 r"
  show "\<exists>d'. hp_InsertRecord d name r = Inr (True, d') \<and> hp_ok d' \<and>
      map_of (hp_entries d') = (map_of (hp_entries d))(name \<mapsto> r)"
    if r0: "0 \<le> r" and new: "map_of (hp_entries d) name = None" and room: "hp_count d < 14"
  proof -
    obtain d' where "hp_InsertRecord d name r = Inr (True, d')" "hp_ok d'" "hp_entries d' = hp_entries d @ [(name, r)]"
      using hp_InsertRecord_new [OF ok, of name r] name r0 new room r by (auto simp: name_ok_def map_of_eq_None_iff)
    with map_of_snoc_new [OF new, of r] show ?thesis by auto
  qed
  show "\<exists>d'. hp_UpdateRecord d name r = Inr (True, d') \<and> hp_ok d' \<and>
      map_of (hp_entries d') = (map_of (hp_entries d))(name \<mapsto> r)"
    if old: "map_of (hp_entries d) name \<noteq> None"
  proof -
    obtain i where i: "i < hp_count d" "hp_name d i = name"
      using old hp_entry_index [of name d] by (auto simp: map_of_eq_None_iff)
    obtain d' where "hp_UpdateRecord d name r = Inr (True, d')" "hp_ok d'"
      "hp_entries d' = (hp_entries d)[i := (name, r)]"
      using hp_UpdateRecord_present [OF ok i] name r by (auto simp: name_ok_def)
    moreover have "map_of ((hp_entries d)[i := (name, r)]) = (map_of (hp_entries d))(name \<mapsto> r)"
      using i hp_okD(5) [OF ok] by (intro map_of_list_update) (auto simp: hp_entries_nth)
    ultimately show ?thesis by auto
  qed
next
  show "hp_GetRootId d name = Inr (map_of (hp_entries d) name)" if "hp_ok d" "name_ok name" for d name
    using hp_GetRootId_ok [OF that(1)] that(2) by (simp add: name_ok_def)
qed

section \<open>Properties\<close>

text \<open>
  C20. A name that is registered on a header page with fewer than 14 records and then moved to
  another root is found with the last root, and every other name has the root it had before.
\<close>

theorem header_last_root:
  assumes "hp_ok d" and "name_ok name" and "0 \<le> r" and "in32 r" and "in32 r'"
    and "map_of (hp_entries d) name = None" and "hp_count d < 14"
  shows "\<exists>d1 d2. hp_InsertRecord d name r = Inr (True, d1) \<and> hp_UpdateRecord d1 name r' = Inr (True, d2) \<and>
    hp_ok d2 \<and> hp_GetRootId d2 name = Inr (Some r') \<and>
    (\<forall>other. other \<noteq> name \<longrightarrow> name_ok other \<longrightarrow> hp_GetRootId d2 other = hp_GetRootId d other)"
  using assms by (rule header.last_root_found)

lemma empty_header: "hp_ok (replicate 512 0)" "hp_entries (replicate 512 0) = []" "hp_count (replicate 512 0) = 0"
proof -
  have "get32 (replicate 512 0) 0 = 0"
    by (simp add: get32_def bget_def dec32_def int32_def numeral_eq_Suc)
  then show "hp_ok (replicate 512 0)" "hp_entries (replicate 512 0) = []" "hp_count (replicate 512 0) = 0"
    by (simp_all add: hp_ok_def hp_count_def hp_entries_def)
qed

theorem header_last_root_witness:
  "\<exists>d1 d2. hp_InsertRecord (replicate 512 0) [102, 111] 5 = Inr (True, d1) \<and>
    hp_UpdateRecord d1 [102, 111] 9 = Inr (True, d2) \<and> hp_ok d2 \<and>
    hp_GetRootId d2 [102, 111] = Inr (Some 9) \<and>
    (\<forall>other. other \<noteq> [102, 111] \<longrightarrow> name_ok other \<longrightarrow>
       hp_GetRootId d2 other = hp_GetRootId (replicate 512 0) other)"
  by (rule header_last_root) (simp_all add: empty_header name_ok_def)

text \<open>
  \<^verbatim>\<open>DeleteRecord\<close> of a registered name removes exactly its record and keeps the order of the
  others; of an unknown name it returns false on a page with records and fails its assertion on an
  empty page.
\<close>

theorem hp_DeleteRecord_exact:
  assumes "hp_ok d" and "0 \<notin> set name"
  shows "if name \<in> fst ` set (hp_entries d)
    then \<exists>d'. hp_DeleteRecord d name = Inr (True, d') \<and> hp_ok d' \<and>
      hp_entries d' = filter (\<lambda>e. fst e \<noteq> name) (hp_entries d)
    else hp_DeleteRecord d name = (if hp_entries d = [] then Inl Assertion_Failed else Inr (False, d))"
proof (cases "name \<in> fst ` set (hp_entries d)")
  case True
  then obtain k where k: "k < hp_count d" "hp_name d k = name" using hp_entry_index by blast
  let ?es = "hp_entries d"
  have split: "?es = take k ?es @ ?es ! k # drop (Suc k) ?es"
    using k(1) by (simp add: id_take_nth_drop)
  have "distinct (map fst (take k ?es @ ?es ! k # drop (Suc k) ?es))"
    using hp_okD(5) [OF assms(1)] split by metis
  moreover have "fst (?es ! k) = name" using k by (simp add: hp_entries_nth)
  ultimately have "filter (\<lambda>e. fst e \<noteq> name) (take k ?es @ ?es ! k # drop (Suc k) ?es) =
      take k ?es @ drop (Suc k) ?es"
    by (rule filter_other_keys)
  then have "filter (\<lambda>e. fst e \<noteq> name) ?es = take k ?es @ drop (Suc k) ?es"
    using split by metis
  with True hp_DeleteRecord_present [OF assms(1) k assms(2)] show ?thesis by auto
next
  case False
  moreover have "hp_entries d = [] \<longleftrightarrow> hp_count d = 0" by (simp add: hp_entries_def)
  ultimately show ?thesis
    using hp_FindRecord_absent [OF assms(1) False assms(2)]
    by (simp add: hp_DeleteRecord_def hp_GetRecordCount_ok [OF assms(1)] assertE_def)
qed

text \<open>
  C21. The page has room for 14 records and \<^verbatim>\<open>InsertRecord\<close> does not check it: registering a fifteenth
  name writes past the end of the page.
\<close>

theorem hp_InsertRecord_overflow:
  assumes "hp_ok d" and "name \<notin> fst ` set (hp_entries d)" and "name_ok name" and "0 \<le> root"
    and "hp_count d = 14"
  shows "hp_InsertRecord d name root = Inl Out_Of_Bounds"
proof -
  have f: "hp_FindRecord d name = Inr (- 1)"
    using hp_FindRecord_absent [OF assms(1,2)] assms(3) by (simp add: name_ok_def)
  have l: "length d = 512" using hp_okD(1) [OF assms(1)] .
  show ?thesis
  proof (cases "length name < 4")
    case True
    have "wr_bytes d (int 508) (name @ [0]) = Inr (bput d 508 (name @ [0]))"
      using l True by (intro wr_bytes_in) simp
    moreover have "length (bput d 508 (name @ [0])) = 512"
      using l True length_bput [of 508 "name @ [0]" d] by simp
    ultimately show ?thesis
      using assms f by (simp add: hp_InsertRecord_def hp_GetRecordCount_ok name_ok_def Let_def wr32_def wr_bytes_def)
  next
    case False
    then show ?thesis
      using assms f l by (simp add: hp_InsertRecord_def hp_GetRecordCount_ok name_ok_def Let_def wr_bytes_def)
  qed
qed

lemma filled_header:
  "n \<le> 14 \<Longrightarrow> \<exists>d. hp_ok d \<and> hp_entries d = map (\<lambda>i. (replicate (Suc i) 97, int i)) [0..<n]"
proof (induction n)
  case 0
  then show ?case using empty_header by (intro exI [of _ "replicate 512 0"]) simp
next
  case (Suc n)
  then obtain d where d: "hp_ok d" "hp_entries d = map (\<lambda>i. (replicate (Suc i) 97, int i)) [0..<n]" by auto
  have "hp_count d = n" using arg_cong [OF d(2), of length] by simp
  with d Suc.prems have "\<exists>d'. hp_InsertRecord d (replicate (Suc n) 97) (int n) = Inr (True, d') \<and> hp_ok d' \<and>
      hp_entries d' = hp_entries d @ [(replicate (Suc n) 97, int n)]"
    by (intro hp_InsertRecord_new) (auto dest: arg_cong [where f = length] simp del: replicate_Suc)
  with d show ?case by auto
qed

theorem hp_InsertRecord_overflow_witness:
  "\<exists>d. hp_ok d \<and> hp_count d = 14 \<and> hp_InsertRecord d [98] 7 = Inl Out_Of_Bounds"
proof -
  obtain d where d: "hp_ok d" "hp_entries d = map (\<lambda>i. (replicate (Suc i) 97, int i)) [0..<14]"
    using filled_header [of 14] by auto
  have c: "hp_count d = 14" using arg_cong [OF d(2), of length] by simp
  have "[98] \<notin> fst ` set (hp_entries d)" using d(2) by auto
  from hp_InsertRecord_overflow [OF d(1) this _ _ c, of 7] d(1) c show ?thesis by (auto simp: name_ok_def)
qed

end
