(* ===== verification/Transactions.thy ===== *)
theory Transactions
  imports Page_Bytes
begin

text \<open>
  Record identifiers (\<^verbatim>\<open>common/rid.h\<close>), tuples as the pages see them (\<^verbatim>\<open>table/tuple.h\<close>), transactions
  (\<^verbatim>\<open>concurrency/transaction.h\<close>) and the lock manager (\<^verbatim>\<open>concurrency/lock_manager.cpp\<close>), whose four
  operations are stubs that refuse every lock. The transaction manager needs the tables and is in
  a later theory.
\<close>

section \<open>Record identifiers\<close>

record RID =
  rid_page :: int
  rid_slot :: int

definition rid_invalid :: RID where
  "rid_invalid = \<lparr>rid_page = INVALID_PAGE_ID, rid_slot = - 1\<rparr>"

definition rid_make :: "int \<Rightarrow> int \<Rightarrow> RID" where
  "rid_make page_id slot_num = \<lparr>rid_page = page_id, rid_slot = slot_num\<rparr>"

text \<open>The packing in 64 bits: the page number is shifted left by 32 and the slot, sign-extended to 64
  bits, is or-ed in.\<close>

definition rid_Get :: "RID \<Rightarrow> 64 word" where
  "rid_Get r = push_bit 32 (word_of_int (rid_page r)) OR word_of_int (rid_slot r)"

definition rid_unpack :: "64 word \<Rightarrow> RID" where
  "rid_unpack w = \<lparr>rid_page = int32 (sint w div 4294967296), rid_slot = int32 (sint w)\<rparr>"

definition rid_Set :: "RID \<Rightarrow> int \<Rightarrow> int \<Rightarrow> RID" where
  "rid_Set r page_id slot_num = r\<lparr>rid_page := page_id, rid_slot := slot_num\<rparr>"

definition rid_eq :: "RID \<Rightarrow> RID \<Rightarrow> bool" where
  "rid_eq a b \<longleftrightarrow> (if rid_page a = rid_page b \<and> rid_slot a = rid_slot b then True else False)"

lemma rid_Set_make: "rid_Set r p s = rid_make p s"
  by (cases r) (simp add: rid_Set_def rid_make_def)

lemma rid_eq_iff: "rid_eq a b \<longleftrightarrow> a = b"
  by (cases a, cases b) (simp add: rid_eq_def)

section \<open>Tuples\<close>

text \<open>\<^verbatim>\<open>data_\<close> is the block it points to; \<^verbatim>\<open>size_\<close> may be smaller than the block.\<close>

record Tuple =
  allocated :: bool
  tup_rid :: RID
  tup_size :: int
  tup_data :: "byte list"

definition tuple_dummy :: Tuple where
  "tuple_dummy = \<lparr>allocated = False, tup_rid = rid_invalid, tup_size = 0, tup_data = []\<rparr>"

section \<open>Transactions\<close>

datatype TransactionState = GROWING | SHRINKING | COMMITTED | ABORTED

datatype WType = INSERT | DELETE | UPDATE

text \<open>\<open>wr_table\<close> is the number of the table heap the record points to.\<close>

record WriteRecord =
  wr_rid :: RID
  wr_type :: WType
  wr_tuple :: Tuple
  wr_table :: nat

record Transaction =
  txn_state :: TransactionState
  txn_id :: int
  prev_lsn :: int
  write_set :: "WriteRecord list"
  page_set :: "nat list"
  deleted_page_set :: "int set"
  shared_lock_set :: "RID set"
  exclusive_lock_set :: "RID set"

definition txn_init :: "int \<Rightarrow> Transaction" where
  "txn_init i = \<lparr>txn_state = GROWING, txn_id = i, prev_lsn = - 1, write_set = [], page_set = [],
     deleted_page_set = {}, shared_lock_set = {}, exclusive_lock_set = {}\<rparr>"

definition txn_SetState :: "Transaction \<Rightarrow> TransactionState \<Rightarrow> Transaction" where
  "txn_SetState t st = t\<lparr>txn_state := st\<rparr>"

definition txn_AddIntoPageSet :: "Transaction \<Rightarrow> nat \<Rightarrow> Transaction" where
  "txn_AddIntoPageSet t pg = t\<lparr>page_set := page_set t @ [pg]\<rparr>"

text \<open>The exception object built when the page is not in the page set is dropped, not thrown.\<close>

definition txn_AddIntoDeletedPageSet :: "Transaction \<Rightarrow> int \<Rightarrow> Transaction" where
  "txn_AddIntoDeletedPageSet t p = t\<lparr>deleted_page_set := insert p (deleted_page_set t)\<rparr>"

definition txn_SetPrevLSN :: "Transaction \<Rightarrow> int \<Rightarrow> Transaction" where
  "txn_SetPrevLSN t lsn = t\<lparr>prev_lsn := lsn\<rparr>"

section \<open>The lock manager\<close>

record LockManager =
  strict_2PL :: bool

definition LockShared :: "LockManager \<Rightarrow> Transaction \<Rightarrow> RID \<Rightarrow> bool" where
  "LockShared m t r = False"

definition LockExclusive :: "LockManager \<Rightarrow> Transaction \<Rightarrow> RID \<Rightarrow> bool" where
  "LockExclusive m t r = False"

definition LockUpgrade :: "LockManager \<Rightarrow> Transaction \<Rightarrow> RID \<Rightarrow> bool" where
  "LockUpgrade m t r = False"

definition Unlock :: "LockManager \<Rightarrow> Transaction \<Rightarrow> RID \<Rightarrow> bool" where
  "Unlock m t r = False"

lemmas lock_stubs = LockShared_def LockExclusive_def LockUpgrade_def Unlock_def

section \<open>Packing record identifiers\<close>

lemma int_or_low:
  fixes p s :: int assumes "0 \<le> s" and "s < 4294967296"
  shows "push_bit 32 p OR s = p * 4294967296 + s"
proof -
  have s: "s = take_bit 32 s" using assms by (simp add: take_bit_int_eq_self)
  have "push_bit 32 p OR s = push_bit 32 p + s"
    by (rule disjunctive_add [symmetric]) (subst s, simp add: bit_simps)
  then show ?thesis by (simp add: push_bit_eq_mult)
qed

lemma int_or_negative:
  fixes p s :: int assumes "- 4294967296 \<le> s" and "s < 0"
  shows "push_bit 32 p OR s = s"
proof (rule bit_eqI)
  fix n
  have "bit s n" if "32 \<le> n"
  proof -
    have "NOT s = take_bit 32 (NOT s)" using assms by (simp add: take_bit_int_eq_self not_int_def)
    then have "\<not> bit (NOT s) n" using that by (metis bit_take_bit_iff not_less)
    then show ?thesis by (simp add: bit_not_int_iff)
  qed
  then show "bit (push_bit 32 p OR s) n = bit s n" by (auto simp: bit_simps)
qed

lemma rid_Get_word: "rid_Get r = word_of_int (push_bit 32 (rid_page r) OR rid_slot r)"
  unfolding rid_Get_def by (rule bit_eqI) (auto simp: bit_simps)

lemma sint_word64: "- (2 ^ 63) \<le> i \<Longrightarrow> i < 2 ^ 63 \<Longrightarrow> sint (word_of_int i :: 64 word) = i"
  by (simp add: signed_of_int signed_take_bit_int_eq_self)

section \<open>Properties\<close>

text \<open>
  Packing a record identifier into 64 bits and unpacking it gives it back when the slot is not
  negative; a negative slot overwrites the page number with -1, as its sign extension is or-ed in.
\<close>

theorem rid_roundtrip:
  assumes "in32 p" and "in32 s"
  shows "rid_unpack (rid_Get (rid_make p s)) = (if 0 \<le> s then rid_make p s else rid_make (- 1) s)"
proof (cases "0 \<le> s")
  case True
  then have "rid_Get (rid_make p s) = word_of_int (p * 4294967296 + s)"
    using assms by (simp add: rid_Get_word rid_make_def int_or_low)
  moreover have "sint (word_of_int (p * 4294967296 + s) :: 64 word) = p * 4294967296 + s"
    using assms True by (intro sint_word64) auto
  moreover have "(p * 4294967296 + s) div 4294967296 = p"
    using assms True by simp
  moreover have "int32 (p * 4294967296 + s) = int32 s"
    by (simp add: int32_def add.assoc)
  ultimately show ?thesis using True assms by (simp add: rid_unpack_def rid_make_def)
next
  case False
  then have "rid_Get (rid_make p s) = word_of_int s"
    using assms by (simp add: rid_Get_word rid_make_def int_or_negative)
  moreover have "sint (word_of_int s :: 64 word) = s" "s div 4294967296 = - 1"
    using assms False by (intro sint_word64, auto)
  ultimately show ?thesis using False assms by (simp add: rid_unpack_def rid_make_def)
qed

theorem rid_roundtrip_witness:
  "rid_unpack (rid_Get (rid_make 7 3)) = (if 0 \<le> (3::int) then rid_make 7 3 else rid_make (- 1) 3)"
  by (rule rid_roundtrip) simp_all

end
