(* ===== verification/Table_Page.thy ===== *)
theory Table_Page
  imports Transactions
begin

text \<open>
  The slotted page of \<^verbatim>\<open>page/table_page.h\<close> and \<^verbatim>\<open>page/table_page.cpp\<close>, byte by byte: the header, the
  slot array that grows upwards from byte 24 and the tuples that grow downwards from the end.

  A page is its byte list. The argument \<open>lg\<close> is \<^verbatim>\<open>ENABLE_LOGGING\<close>, and \<open>lm\<close> the lock manager.
  Every operation returns the page and, where the code may change its state, the transaction.
\<close>

section \<open>Header and slots\<close>

definition tp_GetPageId :: "byte list \<Rightarrow> int res" where
  "tp_GetPageId d = rd32 d 0"

definition tp_GetPrevPageId :: "byte list \<Rightarrow> int res" where
  "tp_GetPrevPageId d = rd32 d 8"

definition tp_GetNextPageId :: "byte list \<Rightarrow> int res" where
  "tp_GetNextPageId d = rd32 d 12"

definition tp_SetPrevPageId :: "byte list \<Rightarrow> int \<Rightarrow> byte list res" where
  "tp_SetPrevPageId d v = wr32 d 8 v"

definition tp_SetNextPageId :: "byte list \<Rightarrow> int \<Rightarrow> byte list res" where
  "tp_SetNextPageId d v = wr32 d 12 v"

definition tp_GetTupleOffset :: "byte list \<Rightarrow> int \<Rightarrow> int res" where
  "tp_GetTupleOffset d slot_num = rd32 d (24 + 8 * slot_num)"

definition tp_GetTupleSize :: "byte list \<Rightarrow> int \<Rightarrow> int res" where
  "tp_GetTupleSize d slot_num = rd32 d (28 + 8 * slot_num)"

definition tp_SetTupleOffset :: "byte list \<Rightarrow> int \<Rightarrow> int \<Rightarrow> byte list res" where
  "tp_SetTupleOffset d slot_num v = wr32 d (24 + 8 * slot_num) v"

definition tp_SetTupleSize :: "byte list \<Rightarrow> int \<Rightarrow> int \<Rightarrow> byte list res" where
  "tp_SetTupleSize d slot_num v = wr32 d (28 + 8 * slot_num) v"

definition tp_GetFreeSpacePointer :: "byte list \<Rightarrow> int res" where
  "tp_GetFreeSpacePointer d = rd32 d 16"

definition tp_SetFreeSpacePointer :: "byte list \<Rightarrow> int \<Rightarrow> byte list res" where
  "tp_SetFreeSpacePointer d v = wr32 d 16 v"

definition tp_GetTupleCount :: "byte list \<Rightarrow> int res" where
  "tp_GetTupleCount d = rd32 d 20"

definition tp_SetTupleCount :: "byte list \<Rightarrow> int \<Rightarrow> byte list res" where
  "tp_SetTupleCount d v = wr32 d 20 v"

definition tp_GetFreeSpaceSize :: "byte list \<Rightarrow> int res" where
  "tp_GetFreeSpaceSize d =
     bindE (tp_GetFreeSpacePointer d) (\<lambda>f.
     bindE (tp_GetTupleCount d) (\<lambda>c. ok (f - 24 - c * 8)))"

definition tp_Init :: "byte list \<Rightarrow> int \<Rightarrow> int \<Rightarrow> int \<Rightarrow> byte list res" where
  "tp_Init d page_id page_size prev_page_id =
     bindE (wr32 d 0 page_id) (\<lambda>d.
     bindE (tp_SetPrevPageId d prev_page_id) (\<lambda>d.
     bindE (tp_SetNextPageId d INVALID_PAGE_ID) (\<lambda>d.
     bindE (tp_SetFreeSpacePointer d page_size) (\<lambda>d.
       tp_SetTupleCount d 0))))"

section \<open>Tuples\<close>

text \<open>The bytes \<^verbatim>\<open>memcpy\<close> takes from a tuple.\<close>

definition tuple_bytes :: "Tuple \<Rightarrow> byte list res" where
  "tuple_bytes t = rd_bytes (tup_data t) 0 (tup_size t)"

text \<open>The search for an empty slot; \<open>n\<close> is the value of \<open>i\<close> when the loop ends without one.\<close>

fun tp_free_slot ::
  "bool \<Rightarrow> Transaction \<Rightarrow> byte list \<Rightarrow> nat \<Rightarrow> RID \<Rightarrow> nat list \<Rightarrow> (nat \<times> RID) res" where
  "tp_free_slot lg txn d n rid [] = ok (n, rid)"
| "tp_free_slot lg txn d n rid (i # is) =
     bindE (tp_GetPageId d) (\<lambda>p.
     let rid1 = rid_Set rid p (int i) in
     bindE (tp_GetTupleSize d (int i)) (\<lambda>sz.
       if sz = 0 then
         bindE (assertE (lg \<longrightarrow> rid1 \<notin> shared_lock_set txn \<and> rid1 \<notin> exclusive_lock_set txn))
           (\<lambda>_. ok (i, rid1))
       else tp_free_slot lg txn d n rid1 is))"

definition tp_InsertTuple ::
  "bool \<Rightarrow> LockManager \<Rightarrow> byte list \<Rightarrow> Tuple \<Rightarrow> RID \<Rightarrow> Transaction \<Rightarrow> (bool \<times> RID \<times> byte list) res" where
  "tp_InsertTuple lg lm d tuple rid txn =
     bindE (assertE (tup_size tuple > 0)) (\<lambda>_.
     bindE (tp_GetFreeSpaceSize d) (\<lambda>free.
       if free < tup_size tuple then ok (False, rid, d)
       else
         bindE (tp_GetTupleCount d) (\<lambda>count.
         bindE (tp_free_slot lg txn d (nat count) rid [0..<nat count]) (\<lambda>(i, rid1).
           if int i = count \<and> free < tup_size tuple + 8 then ok (False, rid1, d)
           else
             bindE (tp_GetFreeSpacePointer d) (\<lambda>fsp.
             bindE (tp_SetFreeSpacePointer d (fsp - tup_size tuple)) (\<lambda>d1.
             bindE (tuple_bytes tuple) (\<lambda>bs.
             bindE (tp_GetFreeSpacePointer d1) (\<lambda>fsp1.
             bindE (wr_bytes d1 fsp1 bs) (\<lambda>d2.
             bindE (tp_GetFreeSpacePointer d2) (\<lambda>fsp2.
             bindE (tp_SetTupleOffset d2 (int i) fsp2) (\<lambda>d3.
             bindE (tp_SetTupleSize d3 (int i) (tup_size tuple)) (\<lambda>d4.
             bindE (tp_GetTupleCount d4) (\<lambda>count1.
             bindE (if int i = count1
                    then bindE (tp_GetPageId d4) (\<lambda>p.
                         bindE (tp_SetTupleCount d4 (count1 + 1)) (\<lambda>d5. ok (rid_Set rid1 p (int i), d5)))
                    else ok (rid1, d4)) (\<lambda>(rid2, d5).
             bindE (assertE (lg \<longrightarrow> LockExclusive lm txn (rid_unpack (rid_Get rid2)))) (\<lambda>_.
               ok (True, rid2, d5))))))))))))))))"

text \<open>The exclusive lock that a modification asks for when logging is on; \<open>None\<close> when it is granted.\<close>

definition tp_lock_x :: "bool \<Rightarrow> LockManager \<Rightarrow> Transaction \<Rightarrow> RID \<Rightarrow> bool" where
  "tp_lock_x lg lm txn rid \<longleftrightarrow>
     (if lg then
        (if rid \<in> shared_lock_set txn then LockUpgrade lm txn rid
         else \<not> (rid \<notin> exclusive_lock_set txn \<and> \<not> LockExclusive lm txn rid))
      else True)"

definition tp_abort :: "bool \<Rightarrow> Transaction \<Rightarrow> Transaction" where
  "tp_abort lg txn = (if lg then txn_SetState txn ABORTED else txn)"

definition tp_MarkDelete ::
  "bool \<Rightarrow> LockManager \<Rightarrow> byte list \<Rightarrow> RID \<Rightarrow> Transaction \<Rightarrow> (bool \<times> byte list \<times> Transaction) res" where
  "tp_MarkDelete lg lm d rid txn =
     (let slot_num = rid_slot rid in
      bindE (tp_GetTupleCount d) (\<lambda>count.
        if slot_num \<ge> count then ok (False, d, tp_abort lg txn)
        else
          bindE (tp_GetTupleSize d slot_num) (\<lambda>tuple_size.
            if tuple_size < 0 then ok (False, d, tp_abort lg txn)
            else if \<not> tp_lock_x lg lm txn rid then ok (False, d, txn)
            else
              bindE (if tuple_size > 0 then tp_SetTupleSize d slot_num (- tuple_size) else ok d) (\<lambda>d1.
                ok (True, d1, txn)))))"

text \<open>
  The loop that moves the offsets of the tuples below a point; \<open>live\<close> is the test on the size
  that the caller uses.
\<close>

fun tp_shift :: "(int \<Rightarrow> bool) \<Rightarrow> int \<Rightarrow> int \<Rightarrow> byte list \<Rightarrow> nat list \<Rightarrow> byte list res" where
  "tp_shift live bound delta d [] = ok d"
| "tp_shift live bound delta d (i # is) =
     bindE (tp_GetTupleOffset d (int i)) (\<lambda>tuple_offset_i.
     bindE (tp_GetTupleSize d (int i)) (\<lambda>size_i.
       if live size_i \<and> tuple_offset_i < bound
       then bindE (tp_SetTupleOffset d (int i) (tuple_offset_i + delta)) (\<lambda>d1. tp_shift live bound delta d1 is)
       else tp_shift live bound delta d is))"

definition tp_UpdateTuple ::
  "bool \<Rightarrow> LockManager \<Rightarrow> byte list \<Rightarrow> Tuple \<Rightarrow> Tuple \<Rightarrow> RID \<Rightarrow> Transaction \<Rightarrow>
     (bool \<times> Tuple \<times> byte list \<times> Transaction) res" where
  "tp_UpdateTuple lg lm d new_tuple old_tuple rid txn =
     (let slot_num = rid_slot rid in
      bindE (tp_GetTupleCount d) (\<lambda>count.
        if slot_num \<ge> count then ok (False, old_tuple, d, tp_abort lg txn)
        else
          bindE (tp_GetTupleSize d slot_num) (\<lambda>tuple_size.
            if tuple_size \<le> 0 then ok (False, old_tuple, d, tp_abort lg txn)
            else
              bindE (tp_GetFreeSpaceSize d) (\<lambda>free.
                if free < tup_size new_tuple - tuple_size then ok (False, old_tuple, d, txn)
                else
                  bindE (tp_GetTupleOffset d slot_num) (\<lambda>tuple_offset.
                  bindE (rd_bytes d tuple_offset tuple_size) (\<lambda>old_bs.
                  let old1 = \<lparr>allocated = True, tup_rid = rid, tup_size = tuple_size, tup_data = old_bs\<rparr> in
                  if \<not> tp_lock_x lg lm txn rid then ok (False, old1, d, txn)
                  else
                    bindE (tp_GetFreeSpacePointer d) (\<lambda>fsp.
                    bindE (assertE (tuple_offset \<ge> fsp)) (\<lambda>_.
                    bindE (mem_move d (fsp + tuple_size - tup_size new_tuple) fsp (tuple_offset - fsp)) (\<lambda>d1.
                    bindE (tp_SetFreeSpacePointer d1 (fsp + tuple_size - tup_size new_tuple)) (\<lambda>d2.
                    bindE (tuple_bytes new_tuple) (\<lambda>bs.
                    bindE (wr_bytes d2 (tuple_offset + tuple_size - tup_size new_tuple) bs) (\<lambda>d3.
                    bindE (tp_SetTupleSize d3 slot_num (tup_size new_tuple)) (\<lambda>d4.
                    bindE (tp_GetTupleCount d4) (\<lambda>count1.
                    bindE (tp_shift (\<lambda>z. z > 0) (tuple_offset + tuple_size) (tuple_size - tup_size new_tuple)
                             d4 [0..<nat count1]) (\<lambda>d5.
                      ok (True, old1, d5, txn))))))))))))))))"

definition tp_ApplyDelete ::
  "bool \<Rightarrow> byte list \<Rightarrow> RID \<Rightarrow> Transaction \<Rightarrow> byte list res" where
  "tp_ApplyDelete lg d rid txn =
     (let slot_num = rid_slot rid in
      bindE (tp_GetTupleCount d) (\<lambda>count.
      bindE (assertE (slot_num < count)) (\<lambda>_.
      bindE (tp_GetTupleOffset d slot_num) (\<lambda>tuple_offset.
      bindE (tp_GetTupleSize d slot_num) (\<lambda>sz.
      let tuple_size = (if sz < 0 then - sz else sz) in
      bindE (rd_bytes d tuple_offset tuple_size) (\<lambda>delete_data.
      bindE (assertE (lg \<longrightarrow> rid \<in> exclusive_lock_set txn)) (\<lambda>_.
      bindE (tp_GetFreeSpacePointer d) (\<lambda>fsp.
      bindE (assertE (tuple_offset \<ge> fsp)) (\<lambda>_.
      bindE (mem_move d (fsp + tuple_size) fsp (tuple_offset - fsp)) (\<lambda>d1.
      bindE (tp_SetFreeSpacePointer d1 (fsp + tuple_size)) (\<lambda>d2.
      bindE (tp_SetTupleSize d2 slot_num 0) (\<lambda>d3.
      bindE (tp_SetTupleOffset d3 slot_num 0) (\<lambda>d4.
      bindE (tp_GetTupleCount d4) (\<lambda>count1.
        tp_shift (\<lambda>z. z \<noteq> 0) tuple_offset tuple_size d4 [0..<nat count1]))))))))))))))"

definition tp_RollbackDelete ::
  "bool \<Rightarrow> byte list \<Rightarrow> RID \<Rightarrow> Transaction \<Rightarrow> byte list res" where
  "tp_RollbackDelete lg d rid txn =
     bindE (assertE (lg \<longrightarrow> rid \<in> exclusive_lock_set txn)) (\<lambda>_.
     let slot_num = rid_slot rid in
     bindE (tp_GetTupleCount d) (\<lambda>count.
     bindE (assertE (slot_num < count)) (\<lambda>_.
     bindE (tp_GetTupleSize d slot_num) (\<lambda>tuple_size.
       if tuple_size < 0 then tp_SetTupleSize d slot_num (- tuple_size) else ok d))))"

definition tp_GetTuple ::
  "bool \<Rightarrow> LockManager \<Rightarrow> byte list \<Rightarrow> RID \<Rightarrow> Tuple \<Rightarrow> Transaction \<Rightarrow> (bool \<times> Tuple \<times> Transaction) res" where
  "tp_GetTuple lg lm d rid tuple txn =
     (let slot_num = rid_slot rid in
      bindE (tp_GetTupleCount d) (\<lambda>count.
        if slot_num \<ge> count then ok (False, tuple, tp_abort lg txn)
        else
          bindE (tp_GetTupleSize d slot_num) (\<lambda>tuple_size.
            if tuple_size \<le> 0 then ok (False, tuple, tp_abort lg txn)
            else if lg \<and> rid \<notin> exclusive_lock_set txn \<and> rid \<notin> shared_lock_set txn \<and> \<not> LockShared lm txn rid
            then ok (False, tuple, txn)
            else
              bindE (tp_GetTupleOffset d slot_num) (\<lambda>tuple_offset.
              bindE (rd_bytes d tuple_offset tuple_size) (\<lambda>bs.
                ok (True, \<lparr>allocated = True, tup_rid = rid, tup_size = tuple_size, tup_data = bs\<rparr>, txn))))))"

section \<open>Iteration\<close>

fun tp_first_live :: "byte list \<Rightarrow> int list \<Rightarrow> int option res" where
  "tp_first_live d [] = ok None"
| "tp_first_live d (i # is) =
     bindE (tp_GetTupleSize d i) (\<lambda>sz. if sz > 0 then ok (Some i) else tp_first_live d is)"

definition tp_GetFirstTupleRid :: "byte list \<Rightarrow> RID \<Rightarrow> (bool \<times> RID) res" where
  "tp_GetFirstTupleRid d first_rid =
     bindE (tp_GetTupleCount d) (\<lambda>count.
     bindE (tp_first_live d [0..count - 1]) (\<lambda>r. case r of
       Some i \<Rightarrow> bindE (tp_GetPageId d) (\<lambda>p. ok (True, rid_Set first_rid p i))
     | None \<Rightarrow> ok (False, rid_Set first_rid INVALID_PAGE_ID (- 1))))"

definition tp_GetNextTupleRid :: "byte list \<Rightarrow> RID \<Rightarrow> RID \<Rightarrow> (bool \<times> RID) res" where
  "tp_GetNextTupleRid d cur_rid next_rid =
     bindE (tp_GetPageId d) (\<lambda>p.
     bindE (assertE (rid_page cur_rid = p)) (\<lambda>_.
     bindE (tp_GetTupleCount d) (\<lambda>count.
     bindE (tp_first_live d [rid_slot cur_rid + 1..count - 1]) (\<lambda>r. case r of
       Some i \<Rightarrow> ok (True, rid_Set next_rid p i)
     | None \<Rightarrow> ok (False, next_rid)))))"

section \<open>The fields of a page\<close>

text \<open>
  Total readers and writers of the header and of the slots, and the laws by which a field is read
  after another has been written.
\<close>

definition tp_F :: "byte list \<Rightarrow> int" where "tp_F d = get32 d 16"

definition tp_C :: "byte list \<Rightarrow> int" where "tp_C d = get32 d 20"

definition tp_off :: "byte list \<Rightarrow> nat \<Rightarrow> int" where "tp_off d i = get32 d (24 + 8 * i)"

definition tp_size :: "byte list \<Rightarrow> nat \<Rightarrow> int" where "tp_size d i = get32 d (28 + 8 * i)"

definition tp_links :: "byte list \<Rightarrow> int \<times> int \<times> int" where
  "tp_links d = (get32 d 0, get32 d 8, get32 d 12)"

definition set_F :: "byte list \<Rightarrow> int \<Rightarrow> byte list" where "set_F d v = put32 d 16 v"

definition set_C :: "byte list \<Rightarrow> int \<Rightarrow> byte list" where "set_C d v = put32 d 20 v"

definition set_off :: "byte list \<Rightarrow> nat \<Rightarrow> int \<Rightarrow> byte list" where "set_off d i v = put32 d (24 + 8 * i) v"

definition set_size :: "byte list \<Rightarrow> nat \<Rightarrow> int \<Rightarrow> byte list" where "set_size d i v = put32 d (28 + 8 * i) v"

named_theorems page_simps \<open>fields of a table page after writes\<close>

lemma length_set [page_simps]:
  assumes "length d = PAGE_SIZE"
  shows "length (set_F d v) = PAGE_SIZE" "length (set_C d v) = PAGE_SIZE"
    "i < 61 \<Longrightarrow> length (set_off d i v) = PAGE_SIZE" "i < 61 \<Longrightarrow> length (set_size d i v) = PAGE_SIZE"
  using assms by (simp_all add: set_F_def set_C_def set_off_def set_size_def)

lemma tp_F_set [page_simps]:
  assumes "length d = PAGE_SIZE"
  shows "tp_F (set_F d v) = int32 v" "tp_F (set_C d v) = tp_F d"
    "i < 61 \<Longrightarrow> tp_F (set_off d i v) = tp_F d" "i < 61 \<Longrightarrow> tp_F (set_size d i v) = tp_F d"
    "24 \<le> p \<Longrightarrow> p + length bs \<le> 512 \<Longrightarrow> tp_F (bput d p bs) = tp_F d"
  using assms by (simp_all add: tp_F_def set_F_def set_C_def set_off_def set_size_def block_simps)

lemma tp_C_set [page_simps]:
  assumes "length d = PAGE_SIZE"
  shows "tp_C (set_F d v) = tp_C d" "tp_C (set_C d v) = int32 v"
    "i < 61 \<Longrightarrow> tp_C (set_off d i v) = tp_C d" "i < 61 \<Longrightarrow> tp_C (set_size d i v) = tp_C d"
    "24 \<le> p \<Longrightarrow> p + length bs \<le> 512 \<Longrightarrow> tp_C (bput d p bs) = tp_C d"
  using assms by (simp_all add: tp_C_def set_F_def set_C_def set_off_def set_size_def block_simps)

lemma tp_links_set [page_simps]:
  assumes "length d = PAGE_SIZE"
  shows "tp_links (set_F d v) = tp_links d" "tp_links (set_C d v) = tp_links d"
    "i < 61 \<Longrightarrow> tp_links (set_off d i v) = tp_links d" "i < 61 \<Longrightarrow> tp_links (set_size d i v) = tp_links d"
    "24 \<le> p \<Longrightarrow> p + length bs \<le> 512 \<Longrightarrow> tp_links (bput d p bs) = tp_links d"
  using assms by (simp_all add: tp_links_def set_F_def set_C_def set_off_def set_size_def block_simps)

lemma slots_apart: "(i :: nat) \<noteq> j \<Longrightarrow> 8 * i + 8 \<le> 8 * j \<or> 8 * j + 8 \<le> 8 * i"
  by linarith

lemma tp_off_set [page_simps]:
  assumes "length d = PAGE_SIZE" and "j < 61"
  shows "tp_off (set_F d v) j = tp_off d j" "tp_off (set_C d v) j = tp_off d j"
    "i < 61 \<Longrightarrow> tp_off (set_off d i v) j = (if i = j then int32 v else tp_off d j)"
    "i < 61 \<Longrightarrow> tp_off (set_size d i v) j = tp_off d j"
    "32 + 8 * j \<le> p \<Longrightarrow> p + length bs \<le> 512 \<Longrightarrow> tp_off (bput d p bs) j = tp_off d j"
proof -
  show "tp_off (set_F d v) j = tp_off d j" "tp_off (set_C d v) j = tp_off d j"
    "32 + 8 * j \<le> p \<Longrightarrow> p + length bs \<le> 512 \<Longrightarrow> tp_off (bput d p bs) j = tp_off d j"
    using assms by (simp_all add: tp_off_def set_F_def set_C_def block_simps)
  show "tp_off (set_off d i v) j = (if i = j then int32 v else tp_off d j)" if "i < 61"
    using assms that slots_apart [of i j] by (auto simp: tp_off_def set_off_def get32_put32_other)
  show "tp_off (set_size d i v) j = tp_off d j" if "i < 61"
  proof -
    have "24 + 8 * j + 4 \<le> 28 + 8 * i \<or> 28 + 8 * i + 4 \<le> 24 + 8 * j" by presburger
    with assms that show ?thesis unfolding tp_off_def set_size_def by (intro get32_put32_other) simp_all
  qed
qed

lemma tp_size_set [page_simps]:
  assumes "length d = PAGE_SIZE" and "j < 61"
  shows "tp_size (set_F d v) j = tp_size d j" "tp_size (set_C d v) j = tp_size d j"
    "i < 61 \<Longrightarrow> tp_size (set_size d i v) j = (if i = j then int32 v else tp_size d j)"
    "i < 61 \<Longrightarrow> tp_size (set_off d i v) j = tp_size d j"
    "32 + 8 * j \<le> p \<Longrightarrow> p + length bs \<le> 512 \<Longrightarrow> tp_size (bput d p bs) j = tp_size d j"
proof -
  show "tp_size (set_F d v) j = tp_size d j" "tp_size (set_C d v) j = tp_size d j"
    "32 + 8 * j \<le> p \<Longrightarrow> p + length bs \<le> 512 \<Longrightarrow> tp_size (bput d p bs) j = tp_size d j"
    using assms by (simp_all add: tp_size_def set_F_def set_C_def block_simps)
  show "tp_size (set_size d i v) j = (if i = j then int32 v else tp_size d j)" if "i < 61"
    using assms that slots_apart [of i j] by (auto simp: tp_size_def set_size_def get32_put32_other)
  show "tp_size (set_off d i v) j = tp_size d j" if "i < 61"
  proof -
    have "28 + 8 * j + 4 \<le> 24 + 8 * i \<or> 24 + 8 * i + 4 \<le> 28 + 8 * j" by presburger
    with assms that show ?thesis unfolding tp_size_def set_off_def by (intro get32_put32_other) simp_all
  qed
qed

lemma bget_set [page_simps]:
  assumes "length d = PAGE_SIZE" and "p + n \<le> 512"
  shows "24 \<le> p \<Longrightarrow> bget (set_F d v) p n = bget d p n" "24 \<le> p \<Longrightarrow> bget (set_C d v) p n = bget d p n"
    "32 + 8 * i \<le> p \<Longrightarrow> bget (set_off d i v) p n = bget d p n"
    "32 + 8 * i \<le> p \<Longrightarrow> bget (set_size d i v) p n = bget d p n"
  using assms
  by (cases "n = 0"; auto simp: set_F_def set_C_def set_off_def set_size_def bget_put32_other bget_def [of _ _ 0])+

lemma tp_get [page_simps]:
  assumes "length d = PAGE_SIZE"
  shows "tp_GetFreeSpacePointer d = Inr (tp_F d)" "tp_GetTupleCount d = Inr (tp_C d)"
    "tp_GetPageId d = Inr (fst (tp_links d))" "tp_GetFreeSpaceSize d = Inr (tp_F d - 24 - tp_C d * 8)"
    "i < 61 \<Longrightarrow> tp_GetTupleOffset d (int i) = Inr (tp_off d i)"
    "i < 61 \<Longrightarrow> tp_GetTupleSize d (int i) = Inr (tp_size d i)"
proof -
  show F: "tp_GetFreeSpacePointer d = Inr (tp_F d)" and C: "tp_GetTupleCount d = Inr (tp_C d)"
    and "tp_GetPageId d = Inr (fst (tp_links d))"
    using assms rd32_in [of 16 d] rd32_in [of 20 d] rd32_in [of 0 d]
    by (simp_all add: tp_GetFreeSpacePointer_def tp_GetTupleCount_def tp_GetPageId_def tp_F_def tp_C_def tp_links_def)
  show "tp_GetFreeSpaceSize d = Inr (tp_F d - 24 - tp_C d * 8)"
    by (simp add: tp_GetFreeSpaceSize_def F C)
  show "tp_GetTupleOffset d (int i) = Inr (tp_off d i)" "tp_GetTupleSize d (int i) = Inr (tp_size d i)" if "i < 61"
    using assms that rd32_in [of "24 + 8 * i" d] rd32_in [of "28 + 8 * i" d]
    by (simp_all add: tp_GetTupleOffset_def tp_GetTupleSize_def tp_off_def tp_size_def)
qed

lemma tp_put [page_simps]:
  assumes "length d = PAGE_SIZE"
  shows "tp_SetFreeSpacePointer d v = Inr (set_F d v)" "tp_SetTupleCount d v = Inr (set_C d v)"
    "i < 61 \<Longrightarrow> tp_SetTupleOffset d (int i) v = Inr (set_off d i v)"
    "i < 61 \<Longrightarrow> tp_SetTupleSize d (int i) v = Inr (set_size d i v)"
  using assms wr32_in [of 16 d v] wr32_in [of 20 d v] wr32_in [of "24 + 8 * i" d v] wr32_in [of "28 + 8 * i" d v]
  by (simp_all add: tp_SetFreeSpacePointer_def tp_SetTupleCount_def tp_SetTupleOffset_def tp_SetTupleSize_def
      set_F_def set_C_def set_off_def set_size_def)

section \<open>The slots of a page\<close>

text \<open>
  A page is well formed if the slot array, the free space and the tuples follow each other in this
  order and the tuples of the occupied slots do not overlap. The abstract content of a page is the
  list of its slots: an empty slot, or the size field (negative when the tuple is marked as deleted)
  with the bytes of the tuple.
\<close>

definition tp_n :: "byte list \<Rightarrow> nat" where "tp_n d = nat (tp_C d)"

definition tp_wf :: "byte list \<Rightarrow> bool" where
  "tp_wf d \<longleftrightarrow> length d = PAGE_SIZE \<and> 0 \<le> tp_C d \<and> 24 + 8 * tp_C d \<le> tp_F d \<and> tp_F d \<le> 512 \<and>
     (\<forall>i < tp_n d. tp_size d i \<noteq> 0 \<longrightarrow> tp_F d \<le> tp_off d i \<and> tp_off d i + \<bar>tp_size d i\<bar> \<le> 512) \<and>
     (\<forall>i < tp_n d. \<forall>j < tp_n d. i \<noteq> j \<longrightarrow> tp_size d i \<noteq> 0 \<longrightarrow> tp_size d j \<noteq> 0 \<longrightarrow>
        tp_off d i + \<bar>tp_size d i\<bar> \<le> tp_off d j \<or> tp_off d j + \<bar>tp_size d j\<bar> \<le> tp_off d i)"

definition tp_slot :: "byte list \<Rightarrow> nat \<Rightarrow> (int \<times> byte list) option" where
  "tp_slot d i = (if tp_size d i = 0 then None
     else Some (tp_size d i, bget d (nat (tp_off d i)) (nat \<bar>tp_size d i\<bar>)))"

definition tp_slots :: "byte list \<Rightarrow> (int \<times> byte list) option list" where
  "tp_slots d = map (tp_slot d) [0..<tp_n d]"

definition tp_target :: "byte list \<Rightarrow> nat" where
  "tp_target d = (case List.find (\<lambda>j. tp_size d j = 0) [0..<tp_n d] of Some j \<Rightarrow> j | None \<Rightarrow> tp_n d)"

definition tp_room :: "byte list \<Rightarrow> int \<Rightarrow> bool" where
  "tp_room d sz \<longleftrightarrow> sz + (if tp_target d = tp_n d then 8 else 0) \<le> tp_F d - 24 - tp_C d * 8"

lemma tp_wfD:
  assumes "tp_wf d"
  shows "length d = PAGE_SIZE" "tp_C d = int (tp_n d)" "24 + 8 * int (tp_n d) \<le> tp_F d" "tp_F d \<le> 512" "tp_n d \<le> 61"
    "i < tp_n d \<Longrightarrow> tp_size d i \<noteq> 0 \<Longrightarrow> tp_F d \<le> tp_off d i"
    "i < tp_n d \<Longrightarrow> tp_size d i \<noteq> 0 \<Longrightarrow> tp_off d i + \<bar>tp_size d i\<bar> \<le> 512"
    "i < tp_n d \<Longrightarrow> j < tp_n d \<Longrightarrow> i \<noteq> j \<Longrightarrow> tp_size d i \<noteq> 0 \<Longrightarrow> tp_size d j \<noteq> 0 \<Longrightarrow>
        tp_off d i + \<bar>tp_size d i\<bar> \<le> tp_off d j \<or> tp_off d j + \<bar>tp_size d j\<bar> \<le> tp_off d i"
  using assms by (auto simp: tp_wf_def tp_n_def)

lemma length_tp_slots [simp]: "length (tp_slots d) = tp_n d"
  by (simp add: tp_slots_def)

lemma tp_slots_nth: "i < tp_n d \<Longrightarrow> tp_slots d ! i = tp_slot d i"
  by (simp add: tp_slots_def)

lemma tp_slots_eqI: "tp_n d = length xs \<Longrightarrow> (\<And>i. i < length xs \<Longrightarrow> tp_slot d i = xs ! i) \<Longrightarrow> tp_slots d = xs"
  by (rule nth_equalityI) (simp_all add: tp_slots_nth)

lemma tp_target_cases:
  "(tp_target d < tp_n d \<and> tp_size d (tp_target d) = 0) \<or> (tp_target d = tp_n d \<and> (\<forall>i < tp_n d. tp_size d i \<noteq> 0))"
  by (auto simp: tp_target_def find_Some_iff find_None_iff split: option.split)

lemma tp_free_slot_off:
  "length d = PAGE_SIZE \<Longrightarrow> \<forall>j \<in> set is. j < 61 \<Longrightarrow>
     \<exists>r. tp_free_slot False txn d n rid is = Inr (case List.find (\<lambda>j. tp_size d j = 0) is of
       Some j \<Rightarrow> (j, rid_make (fst (tp_links d)) (int j)) | None \<Rightarrow> (n, r))"
  by (induction "is" arbitrary: rid) (auto simp: page_simps Let_def rid_Set_make)

lemma tp_free_slot_target:
  assumes "tp_wf d"
  shows "\<exists>r. tp_free_slot False txn d (nat (tp_C d)) rid [0..<nat (tp_C d)] = Inr (tp_target d, r) \<and>
    (tp_target d < tp_n d \<longrightarrow> r = rid_make (fst (tp_links d)) (int (tp_target d)))"
proof -
  obtain r where "tp_free_slot False txn d (tp_n d) rid [0..<tp_n d] =
      Inr (case List.find (\<lambda>j. tp_size d j = 0) [0..<tp_n d] of
        Some j \<Rightarrow> (j, rid_make (fst (tp_links d)) (int j)) | None \<Rightarrow> (tp_n d, r))"
    using tp_free_slot_off [OF tp_wfD(1) [OF assms], of "[0..<tp_n d]"] tp_wfD(5) [OF assms] by fastforce
  then show ?thesis
    by (cases "List.find (\<lambda>j. tp_size d j = 0) [0..<tp_n d]") (auto simp: tp_target_def tp_n_def)
qed

text \<open>The page that an insertion writes.\<close>

definition tp_insert_at :: "byte list \<Rightarrow> nat \<Rightarrow> byte list \<Rightarrow> byte list" where
  "tp_insert_at d k bs =
     (let f = tp_F d - int (length bs);
          d4 = set_size (set_off (bput (set_F d f) (nat f) bs) k f) k (int (length bs))
      in if k = tp_n d then set_C d4 (tp_C d + 1) else d4)"

lemma tp_insert_at_fields:
  assumes wf: "tp_wf d" and k: "k \<le> tp_n d" and bs: "bs \<noteq> []"
    and room: "int (length bs) + (if k = tp_n d then 8 else 0) \<le> tp_F d - 24 - tp_C d * 8"
    and d': "d' = tp_insert_at d k bs"
  shows "length d' = PAGE_SIZE" "tp_C d' = (if k = tp_n d then tp_C d + 1 else tp_C d)"
    "tp_F d' = tp_F d - int (length bs)" "tp_links d' = tp_links d" "k < 61"
    "j < tp_n d' \<Longrightarrow> tp_off d' j = (if j = k then tp_F d - int (length bs) else tp_off d j)"
    "j < tp_n d' \<Longrightarrow> tp_size d' j = (if j = k then int (length bs) else tp_size d j)"
    "tp_F d \<le> int p \<Longrightarrow> p + m \<le> 512 \<Longrightarrow> bget d' p m = bget d p m"
    "bget d' (nat (tp_F d - int (length bs))) (length bs) = bs"
proof -
  let ?f = "tp_F d - int (length bs)"
  note w = tp_wfD(1-5) [OF wf]
  have f: "32 + 8 * k \<le> nat ?f" "nat ?f + length bs \<le> 512" "in32 ?f" "int (nat ?f) = ?f" "length bs \<le> 512"
    using room w k by (auto split: if_splits)
  then show k61: "k < 61" using bs by (cases bs) auto
  have i: "int32 ?f = ?f" "int32 (int (length bs)) = int (length bs)" "int32 (tp_C d + 1) = tp_C d + 1"
    using f(3,5) w(2,5) by (auto intro!: int32_id)
  let ?d2 = "bput (set_F d ?f) (nat ?f) bs"
  have l2: "length ?d2 = 512" using w(1) f(2) by (simp add: length_bput page_simps)
  have h: "tp_C ?d2 = tp_C d" "tp_F ?d2 = ?f" "tp_links ?d2 = tp_links d"
    using w(1) f by (simp_all add: page_simps i)
  show "length d' = PAGE_SIZE" and C': "tp_C d' = (if k = tp_n d then tp_C d + 1 else tp_C d)"
    and "tp_F d' = ?f" and "tp_links d' = tp_links d"
    using l2 h k61 w(2,5) by (auto simp: d' tp_insert_at_def Let_def page_simps i)
  have n': "tp_n d' = (if k = tp_n d then Suc (tp_n d) else tp_n d)"
    using C' w(2) by (simp add: tp_n_def [of d'] nat_add_distrib)
  have top: "24 + 8 * int (tp_n d') \<le> ?f" using room w(2) n' by (simp split: if_splits)
  have low: "32 + 8 * j \<le> nat ?f \<and> j < 61" if "j < tp_n d'" for j
    using that top w(4) by linarith
  show "tp_off d' j = (if j = k then ?f else tp_off d j)" "tp_size d' j = (if j = k then int (length bs) else tp_size d j)"
    if "j < tp_n d'"
    using low [OF that] l2 k61 w(1) f by (auto simp: d' tp_insert_at_def Let_def page_simps i)
  show "bget d' p m = bget d p m" if "tp_F d \<le> int p" "p + m \<le> 512"
  proof -
    have p: "nat ?f + length bs \<le> p" "24 \<le> p" using that w(3) f(4) by linarith+
    have "bget ?d2 p m = bget (set_F d ?f) p m"
      using that w(1) f(2) p by (intro bget_bput_other) (simp_all add: page_simps)
    then have "bget ?d2 p m = bget d p m"
      using that w(1) p by (simp add: page_simps)
    with that f(1) l2 k61 show ?thesis by (auto simp: d' tp_insert_at_def Let_def page_simps)
  qed
  have "bget ?d2 (nat ?f) (length bs) = bs"
    using w(1) f(2) by (simp add: bget_bput_same page_simps)
  with f l2 k61 show "bget d' (nat ?f) (length bs) = bs"
    by (auto simp: d' tp_insert_at_def Let_def page_simps)
qed

lemma tp_insert_at_slots:
  assumes wf: "tp_wf d" and k: "k \<le> tp_n d" "k < tp_n d \<Longrightarrow> tp_size d k = 0" and bs: "bs \<noteq> []"
    and room: "int (length bs) + (if k = tp_n d then 8 else 0) \<le> tp_F d - 24 - tp_C d * 8"
  shows "tp_wf (tp_insert_at d k bs) \<and> tp_slots (tp_insert_at d k bs) =
    (if k = tp_n d then tp_slots d @ [Some (int (length bs), bs)] else (tp_slots d)[k := Some (int (length bs), bs)])"
proof -
  let ?d = "tp_insert_at d k bs"
  note fl = tp_insert_at_fields [OF wf k(1) bs room refl]
  note w = tp_wfD [OF wf]
  have n': "tp_n ?d = (if k = tp_n d then Suc (tp_n d) else tp_n d)"
    using fl(2) w(2) by (simp add: tp_n_def [of ?d] nat_add_distrib)
  have old: "j < tp_n d \<and> tp_off ?d j = tp_off d j \<and> tp_size ?d j = tp_size d j" if "j < tp_n ?d" "j \<noteq> k" for j
    using that fl(6,7) [OF that(1)] n' k(1) by (auto split: if_splits)
  have new: "tp_off ?d k = tp_F d - int (length bs)" "tp_size ?d k = int (length bs)"
    using fl(6,7) [of k] n' k(1) by auto
  have "tp_wf ?d"
    unfolding tp_wf_def
  proof (intro conjI allI impI)
    show "24 + 8 * tp_C ?d \<le> tp_F ?d" using fl(2,3) room by (simp split: if_splits)
    show "tp_F ?d \<le> tp_off ?d i" "tp_off ?d i + \<bar>tp_size ?d i\<bar> \<le> 512" if "i < tp_n ?d" "tp_size ?d i \<noteq> 0" for i
      using that old [of i] new w(4) w(6,7) [of i] fl(3) by (cases "i = k"; simp)+
    show "tp_off ?d i + \<bar>tp_size ?d i\<bar> \<le> tp_off ?d j \<or> tp_off ?d j + \<bar>tp_size ?d j\<bar> \<le> tp_off ?d i"
      if "i < tp_n ?d" "j < tp_n ?d" "i \<noteq> j" "tp_size ?d i \<noteq> 0" "tp_size ?d j \<noteq> 0" for i j
      using that old [of i] old [of j] new w(6) [of i] w(6) [of j] w(8) [of i j]
      by (cases "i = k"; cases "j = k") auto
  qed (use fl w in auto)
  moreover have slot: "tp_slot ?d j = (if j = k then Some (int (length bs), bs) else tp_slot d j)" if "j < tp_n ?d" for j
  proof (cases "j = k")
    case True
    with new fl(9) bs show ?thesis by (simp add: tp_slot_def)
  next
    case False
    note o = old [OF that False]
    show ?thesis
    proof (cases "tp_size d j = 0")
      case nz: False
      then have "bget ?d (nat (tp_off d j)) (nat \<bar>tp_size d j\<bar>) = bget d (nat (tp_off d j)) (nat \<bar>tp_size d j\<bar>)"
        using o w(3) w(6,7) [of j] by (intro fl(8)) linarith+
      with o False nz show ?thesis by (simp add: tp_slot_def)
    qed (use o False in \<open>simp add: tp_slot_def\<close>)
  qed
  ultimately show ?thesis
    using n' k by (auto intro!: tp_slots_eqI simp: nth_append tp_slots_nth nth_list_update)
qed

lemma tp_InsertTuple_fits:
  assumes wf: "tp_wf d" and sz: "0 < tup_size t" "tup_size t = int (length (tup_data t))" and room: "tp_room d (tup_size t)"
  shows "tp_InsertTuple False lm d t rid txn =
    Inr (True, rid_make (fst (tp_links d)) (int (tp_target d)), tp_insert_at d (tp_target d) (tup_data t))"
proof -
  let ?k = "tp_target d" and ?bs = "tup_data t"
  let ?f = "tp_F d - int (length ?bs)"
  have bs: "?bs \<noteq> []" using sz by auto
  note w = tp_wfD [OF wf]
  have k: "?k \<le> tp_n d" using tp_target_cases [of d] by auto
  have rm: "int (length ?bs) + (if ?k = tp_n d then 8 else 0) \<le> tp_F d - 24 - tp_C d * 8"
    using room sz(2) by (simp add: tp_room_def)
  note fl = tp_insert_at_fields [OF wf k bs rm refl]
  have f: "nat ?f + length ?bs \<le> 512" "int (nat ?f) = ?f" "32 + 8 * ?k \<le> nat ?f" "int32 ?f = ?f"
    using rm w(2,3,4) k by (auto intro!: int32_id split: if_splits)
  obtain r where r: "tp_free_slot False txn d (nat (tp_C d)) rid [0..<nat (tp_C d)] = Inr (?k, r)"
    "?k < tp_n d \<longrightarrow> r = rid_make (fst (tp_links d)) (int ?k)"
    using tp_free_slot_target [OF wf] by blast
  have tb: "tuple_bytes t = Inr ?bs"
    using rd_bytes_in [of 0 "length ?bs" ?bs] sz(2) by (simp add: tuple_bytes_def bget_def)
  let ?d2 = "bput (set_F d ?f) (nat ?f) ?bs"
  have l2: "length ?d2 = 512" using w(1) f(1) by (simp add: length_bput page_simps)
  have wb: "wr_bytes (set_F d ?f) ?f ?bs = Inr ?d2"
    using wr_bytes_in [of "nat ?f" ?bs "set_F d ?f"] f w(1) by (simp add: page_simps)
  have "tp_F ?d2 = ?f" "tp_C ?d2 = tp_C d" "tp_links ?d2 = tp_links d"
    using w(1) f by (simp_all add: page_simps)
  moreover have "int ?k = tp_C d \<longleftrightarrow> ?k = tp_n d" using w(2) by simp
  ultimately show ?thesis
    using w(1) sz rm r fl(5) tb l2 wb f(4) k
    by (simp add: tp_InsertTuple_def page_simps tp_insert_at_def Let_def rid_Set_make) (auto split: if_splits)
qed

subsection \<open>Reading and marking\<close>

lemma tp_GetTuple_off:
  assumes wf: "tp_wf d" and i: "i < tp_n d" "rid_slot rid = int i"
  shows "tp_GetTuple False lm d rid t txn = Inr (case tp_slot d i of
      Some (sz, bs) \<Rightarrow> if 0 < sz then (True, \<lparr>allocated = True, tup_rid = rid, tup_size = sz, tup_data = bs\<rparr>, txn)
                       else (False, t, txn)
    | None \<Rightarrow> (False, t, txn))"
proof (cases "0 < tp_size d i")
  case True
  note w = tp_wfD [OF wf]
  have "rd_bytes d (tp_off d i) (tp_size d i) = Inr (bget d (nat (tp_off d i)) (nat \<bar>tp_size d i\<bar>))"
    using True w(1,3) w(6,7) [OF i(1)] by (simp add: rd_bytes_def)
  with True w(1,2,5) i show ?thesis by (simp add: tp_GetTuple_def Let_def page_simps tp_slot_def)
next
  case False
  with tp_wfD(1,2,5) [OF wf] i show ?thesis
    by (simp add: tp_GetTuple_def Let_def page_simps tp_slot_def tp_abort_def)
qed

lemma tp_flip:
  assumes wf: "tp_wf d" and i: "i < tp_n d" "tp_slot d i = Some (sz, bs)"
  shows "tp_wf (set_size d i (- sz)) \<and> tp_slots (set_size d i (- sz)) = (tp_slots d)[i := Some (- sz, bs)] \<and>
    tp_links (set_size d i (- sz)) = tp_links d \<and> tp_n (set_size d i (- sz)) = tp_n d"
proof -
  let ?d = "set_size d i (- sz)"
  note w = tp_wfD [OF wf]
  have sz: "sz = tp_size d i" "sz \<noteq> 0" "bs = bget d (nat (tp_off d i)) (nat \<bar>sz\<bar>)"
    using i(2) by (auto simp: tp_slot_def split: if_splits)
  have "int32 (- sz) = - sz"
    using sz w(3,4) w(6,7) [OF i(1)] by (intro int32_id) linarith
  then have fs: "length ?d = 512" "tp_C ?d = tp_C d" "tp_F ?d = tp_F d" "tp_links ?d = tp_links d" "tp_n ?d = tp_n d"
    "j < tp_n d \<Longrightarrow> tp_off ?d j = tp_off d j" "j < tp_n d \<Longrightarrow> tp_size ?d j = (if j = i then - sz else tp_size d j)"
    "j < tp_n d \<Longrightarrow> \<bar>tp_size ?d j\<bar> = \<bar>tp_size d j\<bar>" for j
    using w(1,5) i(1) sz by (auto simp: page_simps tp_n_def)
  have "tp_wf ?d"
    using wf fs sz(1,2) unfolding tp_wf_def by auto
  moreover have "tp_slot ?d j = (if j = i then Some (- sz, bs) else tp_slot d j)" if "j < tp_n d" for j
  proof (cases "tp_size d j = 0")
    case False
    have "bget ?d (nat (tp_off d j)) (nat \<bar>tp_size d j\<bar>) = bget d (nat (tp_off d j)) (nat \<bar>tp_size d j\<bar>)"
      using w(3) w(6,7) [OF that False] i(1) by (intro bget_set(4) [OF w(1)]) linarith+
    with False fs(6,7,8) [OF that] sz show ?thesis by (auto simp: tp_slot_def)
  qed (use fs(7) [OF that] sz in \<open>auto simp: tp_slot_def\<close>)
  ultimately show ?thesis
    using fs(4,5) i(1) by (auto intro!: tp_slots_eqI simp: tp_slots_nth nth_list_update)
qed

lemma tp_MarkDelete_live:
  assumes wf: "tp_wf d" and i: "i < tp_n d" "rid_slot rid = int i" "tp_slot d i = Some (sz, bs)" "0 < sz"
  shows "tp_MarkDelete False lm d rid txn = Inr (True, set_size d i (- sz), txn)"
  using tp_wfD(1,2,5) [OF wf] i
  by (auto simp: tp_MarkDelete_def Let_def page_simps tp_slot_def tp_lock_x_def split: if_splits)

lemma tp_RollbackDelete_marked:
  assumes wf: "tp_wf d" and i: "i < tp_n d" "rid_slot rid = int i" "tp_slot d i = Some (sz, bs)" "sz < 0"
  shows "tp_RollbackDelete False d rid txn = Inr (set_size d i (- sz))"
  using tp_wfD(1,2,5) [OF wf] i
  by (auto simp: tp_RollbackDelete_def Let_def page_simps tp_slot_def split: if_splits)

end
