(* ===== verification/Table_Page_Moves.thy ===== *)
theory Table_Page_Moves
  imports Table_Page
begin

text \<open>
  The two operations of the table page that move tuples: \<^verbatim>\<open>ApplyDelete\<close> closes the gap of a deleted
  tuple and \<^verbatim>\<open>UpdateTuple\<close> makes room for a tuple of another size. Each is shown to change its own slot
  only.
\<close>

section \<open>Moving tuples\<close>

lemma tp_shift_ok:
  "length d = PAGE_SIZE \<Longrightarrow> distinct is \<Longrightarrow> \<forall>j \<in> set is. j < 61 \<Longrightarrow>
     \<exists>d'. tp_shift live bound delta d is = Inr d' \<and> length d' = PAGE_SIZE \<and> tp_F d' = tp_F d \<and> tp_C d' = tp_C d \<and>
       tp_links d' = tp_links d \<and> (\<forall>j < 61. tp_size d' j = tp_size d j) \<and>
       (\<forall>j < 61. tp_off d' j = (if j \<in> set is \<and> live (tp_size d j) \<and> tp_off d j < bound
          then int32 (tp_off d j + delta) else tp_off d j)) \<and>
       (\<forall>p m. (\<forall>j \<in> set is. 32 + 8 * j \<le> p) \<longrightarrow> p + m \<le> 512 \<longrightarrow> bget d' p m = bget d p m)"
proof (induction "is" arbitrary: d)
  case (Cons i "is")
  let ?go = "live (tp_size d i) \<and> tp_off d i < bound"
  let ?d = "if ?go then set_off d i (tp_off d i + delta) else d"
  have i: "i < 61" "i \<notin> set is" and l: "length ?d = 512"
    using Cons.prems by (auto simp: page_simps)
  have step: "tp_shift live bound delta d (i # is) = tp_shift live bound delta ?d is"
    using Cons.prems by (simp add: page_simps)
  obtain d' where d': "tp_shift live bound delta ?d is = Inr d'" "length d' = PAGE_SIZE" "tp_F d' = tp_F ?d"
    "tp_C d' = tp_C ?d" "tp_links d' = tp_links ?d" "\<forall>j < 61. tp_size d' j = tp_size ?d j"
    "\<forall>j < 61. tp_off d' j = (if j \<in> set is \<and> live (tp_size ?d j) \<and> tp_off ?d j < bound
          then int32 (tp_off ?d j + delta) else tp_off ?d j)"
    "\<forall>p m. (\<forall>j \<in> set is. 32 + 8 * j \<le> p) \<longrightarrow> p + m \<le> 512 \<longrightarrow> bget d' p m = bget ?d p m"
    using Cons.IH [OF l] Cons.prems by auto
  have "tp_off d' j = (if j \<in> set (i # is) \<and> live (tp_size d j) \<and> tp_off d j < bound
      then int32 (tp_off d j + delta) else tp_off d j)" if "j < 61" for j
    using d'(7) that i Cons.prems(1) by (auto simp: page_simps)
  moreover have "bget d' p m = bget d p m" if "\<forall>j \<in> set (i # is). 32 + 8 * j \<le> p" "p + m \<le> 512" for p m
    using d'(8) that Cons.prems(1) by (simp add: page_simps)
  ultimately show ?case
    unfolding step using d'(1-6) i Cons.prems(1) by (auto simp: page_simps)
qed simp

lemma nat_block:
  fixes F x a b z :: int
  assumes "0 \<le> F" and "F \<le> x" and "x + a \<le> b" and "0 \<le> a" and "0 \<le> z"
  shows "nat (x + z) - nat (F + z) + nat a \<le> nat (b - F)" "nat F + (nat (x + z) - nat (F + z)) = nat x"
  using assms by linarith+

lemma tp_ApplyDelete_fields:
  assumes wf: "tp_wf d" and k: "k < tp_n d" "rid_slot rid = int k" "tp_size d k \<noteq> 0"
    and z: "z = \<bar>tp_size d k\<bar>" and o: "o' = tp_off d k"
  shows "\<exists>d'. tp_ApplyDelete False d rid txn = Inr d' \<and> length d' = PAGE_SIZE \<and> tp_F d' = tp_F d + z \<and> tp_C d' = tp_C d \<and>
    tp_links d' = tp_links d \<and> (\<forall>j < tp_n d. tp_size d' j = (if j = k then 0 else tp_size d j)) \<and>
    (\<forall>j < tp_n d. j \<noteq> k \<longrightarrow> tp_size d j \<noteq> 0 \<longrightarrow>
       tp_off d' j = (if tp_off d j < o' then tp_off d j + z else tp_off d j)) \<and>
    (\<forall>p m. 24 + 8 * tp_n d \<le> p \<longrightarrow> p + m \<le> 512 \<longrightarrow>
       bget d' p m = bget (bput d (nat (tp_F d + z)) (bget d (nat (tp_F d)) (nat (o' - tp_F d)))) p m)"
proof -
  note w = tp_wfD [OF wf]
  have b: "tp_F d \<le> o'" "o' + z \<le> 512" "0 < z" "24 \<le> tp_F d" "in32 (tp_F d + z)"
    using w(3,4) w(6,7) [OF k(1,3)] k(3) z o by auto
  have k61: "k < 61" using k(1) w(5) by simp
  let ?F = "nat (tp_F d)" and ?Fz = "nat (tp_F d + z)" and ?m = "nat (o' - tp_F d)"
  define d1 where "d1 = bput d ?Fz (bget d ?F ?m)"
  define d4 where "d4 = set_off (set_size (set_F d1 (tp_F d + z)) k 0) k 0"
  have bm: "?F + ?m \<le> 512" "?Fz + ?m \<le> 512" "24 \<le> ?Fz" "24 + 8 * tp_n d \<le> ?Fz" using b w(3) by linarith+
  have lm: "length (bget d ?F ?m) = ?m" using bm w(1) by (simp add: length_bget)
  have l1: "length d1 = 512" using w(1) bm lm by (simp add: length_bput d1_def)
  have ints: "tp_F d + z = int ?Fz" "tp_F d = int ?F" "o' - tp_F d = int ?m" using b by linarith+
  have mv: "mem_move d (tp_F d + z) (tp_F d) (o' - tp_F d) = Inr d1"
    using mem_move_in [of ?F ?m d ?Fz] bm w(1) ints unfolding d1_def by metis
  have f1: "tp_F d1 = tp_F d" "tp_C d1 = tp_C d" "tp_links d1 = tp_links d"
    using w(1) bm lm by (simp_all add: page_simps d1_def)
  have s1: "tp_size d1 j = tp_size d j" "tp_off d1 j = tp_off d j" if "j < tp_n d" for j
    using that w(1,5) bm lm by (simp_all add: page_simps d1_def)
  have l4: "length d4 = 512" and h4: "tp_F d4 = tp_F d + z" "tp_C d4 = tp_C d" "tp_links d4 = tp_links d"
    using l1 f1 k61 b(5) by (simp_all add: page_simps d4_def)
  have s4: "tp_size d4 j = (if j = k then 0 else tp_size d j)" "tp_off d4 j = (if j = k then 0 else tp_off d j)"
    if "j < tp_n d" for j
    using that l1 k61 w(5) s1 [OF that] by (auto simp: page_simps d4_def)
  have g4: "bget d4 p m = bget d1 p m" if "24 + 8 * tp_n d \<le> p" "p + m \<le> 512" for p m
    using that l1 k61 k(1) by (simp add: page_simps d4_def)
  have dist: "distinct [0..<tp_n d]" "\<forall>j \<in> set [0..<tp_n d]. j < 61" using w(5) by auto
  obtain d' where d': "tp_shift (\<lambda>z. z \<noteq> 0) o' z d4 [0..<tp_n d] = Inr d'" "length d' = PAGE_SIZE" "tp_F d' = tp_F d4"
    "tp_C d' = tp_C d4" "tp_links d' = tp_links d4" "\<forall>j < 61. tp_size d' j = tp_size d4 j"
    "\<forall>j < 61. tp_off d' j = (if j \<in> set [0..<tp_n d] \<and> tp_size d4 j \<noteq> 0 \<and> tp_off d4 j < o'
          then int32 (tp_off d4 j + z) else tp_off d4 j)"
    "\<forall>p m. (\<forall>j \<in> set [0..<tp_n d]. 32 + 8 * j \<le> p) \<longrightarrow> p + m \<le> 512 \<longrightarrow> bget d' p m = bget d4 p m"
    using tp_shift_ok [OF l4 dist, of "\<lambda>z. z \<noteq> 0" o' z] by blast
  have rd: "rd_bytes d o' z = Inr (bget d (nat o') (nat z))"
    using w(1) b by (simp add: rd_bytes_def)
  have "tp_ApplyDelete False d rid txn = Inr d'"
  proof -
    have tz: "(if tp_size d k < 0 then - tp_size d k else tp_size d k) = z" using z by simp
    have e: "tp_SetFreeSpacePointer d1 (tp_F d + z) = Inr (set_F d1 (tp_F d + z))"
      "tp_SetTupleSize (set_F d1 (tp_F d + z)) (int k) 0 = Inr (set_size (set_F d1 (tp_F d + z)) k 0)"
      "tp_SetTupleOffset (set_size (set_F d1 (tp_F d + z)) k 0) (int k) 0 = Inr d4"
      "tp_GetTupleCount d4 = Inr (tp_C d)"
      using l1 l4 k61 h4(2) by (simp_all add: page_simps d4_def)
    show ?thesis
      using k w(2) b(1) d'(1)
      by (simp add: tp_ApplyDelete_def Let_def tp_get [OF w(1)] k61 tz rd mv e flip: o)
  qed
  moreover have "tp_off d' j = (if tp_off d j < o' then tp_off d j + z else tp_off d j)"
    if j: "j < tp_n d" "j \<noteq> k" "tp_size d j \<noteq> 0" for j
  proof -
    have "int32 (tp_off d j + z) = tp_off d j + z" if "tp_off d j < o'"
      using that b w(3) w(6,7) [OF j(1,3)] by (intro int32_id) linarith
    then show ?thesis using d'(7) j w(5) s4 [OF j(1)] by auto
  qed
  moreover have "bget d' p m = bget d1 p m" if "24 + 8 * tp_n d \<le> p" "p + m \<le> 512" for p m
    using d'(8) g4 [OF that] that by fastforce
  ultimately show ?thesis
    using d'(2-6) h4 s4 w(5) unfolding d1_def by (intro exI [of _ d']) auto
qed

lemma tp_ApplyDelete_slots:
  assumes wf: "tp_wf d" and k: "k < tp_n d" "rid_slot rid = int k" "tp_slot d k = Some (sz, bs)"
  shows "\<exists>d'. tp_ApplyDelete False d rid txn = Inr d' \<and> tp_wf d' \<and> tp_slots d' = (tp_slots d)[k := None] \<and>
    tp_links d' = tp_links d \<and> tp_F d' = tp_F d + \<bar>sz\<bar>"
proof -
  note w = tp_wfD [OF wf]
  let ?z = "\<bar>tp_size d k\<bar>" and ?o = "tp_off d k"
  have nz: "tp_size d k \<noteq> 0" "sz = tp_size d k" using k(3) by (auto simp: tp_slot_def split: if_splits)
  let ?d1 = "bput d (nat (tp_F d + ?z)) (bget d (nat (tp_F d)) (nat (?o - tp_F d)))"
  obtain d' where d': "tp_ApplyDelete False d rid txn = Inr d'" "length d' = PAGE_SIZE" "tp_F d' = tp_F d + ?z"
    "tp_C d' = tp_C d" "tp_links d' = tp_links d"
    "\<And>j. j < tp_n d \<Longrightarrow> tp_size d' j = (if j = k then 0 else tp_size d j)"
    "\<And>j. j < tp_n d \<Longrightarrow> j \<noteq> k \<Longrightarrow> tp_size d j \<noteq> 0 \<Longrightarrow>
       tp_off d' j = (if tp_off d j < ?o then tp_off d j + ?z else tp_off d j)"
    "\<And>p m. 24 + 8 * tp_n d \<le> p \<Longrightarrow> p + m \<le> 512 \<Longrightarrow> bget d' p m = bget ?d1 p m"
    using tp_ApplyDelete_fields [OF wf k(1,2) nz(1) refl refl, of txn] by blast
  have n': "tp_n d' = tp_n d" using d'(4) by (simp add: tp_n_def)
  have b: "tp_F d \<le> ?o" "?o + ?z \<le> 512" "24 + 8 * int (tp_n d) \<le> tp_F d"
    using w(3,4) w(6,7) [OF k(1) nz(1)] by auto
  have side: "(if tp_off d j < ?o then tp_off d j + \<bar>tp_size d j\<bar> \<le> ?o else ?o + ?z \<le> tp_off d j)"
    if "j < tp_n d" "j \<noteq> k" "tp_size d j \<noteq> 0" for j
    using w(8) [OF that(1) k(1) that(2,3) nz(1)] that(3) nz(1) by (auto split: if_splits)
  have "tp_wf d'"
    unfolding tp_wf_def n'
  proof (intro conjI allI impI)
    show "24 + 8 * tp_C d' \<le> tp_F d'" "tp_F d' \<le> 512" using d'(3,4) b w(2) by auto
    show "tp_F d' \<le> tp_off d' i" "tp_off d' i + \<bar>tp_size d' i\<bar> \<le> 512" if "i < tp_n d" "tp_size d' i \<noteq> 0" for i
      using that d'(3) d'(6) [of i] d'(7) [of i] side [of i] w(6,7) [of i] b by (auto split: if_splits)
    show "tp_off d' i + \<bar>tp_size d' i\<bar> \<le> tp_off d' j \<or> tp_off d' j + \<bar>tp_size d' j\<bar> \<le> tp_off d' i"
      if "i < tp_n d" "j < tp_n d" "i \<noteq> j" "tp_size d' i \<noteq> 0" "tp_size d' j \<noteq> 0" for i j
    proof -
      have nzi: "i \<noteq> k" "tp_size d i \<noteq> 0" "tp_size d' i = tp_size d i" using that(4) d'(6) [OF that(1)] by (auto split: if_splits)
      have nzj: "j \<noteq> k" "tp_size d j \<noteq> 0" "tp_size d' j = tp_size d j" using that(5) d'(6) [OF that(2)] by (auto split: if_splits)
      show ?thesis
        using d'(7) [OF that(1) nzi(1,2)] d'(7) [OF that(2) nzj(1,2)] side [OF that(1) nzi(1,2)] side [OF that(2) nzj(1,2)]
          w(8) [OF that(1-3) nzi(2) nzj(2)] nzi(3) nzj(3) by (auto split: if_splits)
    qed
  qed (use d' w(2) in auto)
  moreover have "tp_slot d' j = (tp_slots d)[k := None] ! j" if "j < tp_n d" for j
  proof (cases "j = k \<or> tp_size d j = 0")
    case True
    with d'(6) [OF that] that k(1) show ?thesis by (auto simp: tp_slot_def tp_slots_nth nth_list_update)
  next
    case False
    then have jk: "j \<noteq> k" "tp_size d j \<noteq> 0" by auto
    note o = w(6,7) [OF that jk(2)] and sd = side [OF that jk] and of = d'(7) [OF that jk]
    have lm: "length (bget d (nat (tp_F d)) (nat (?o - tp_F d))) = nat (?o - tp_F d)"
      using b w(1,3) by (intro length_bget) linarith
    have "bget d' (nat (tp_off d' j)) (nat \<bar>tp_size d j\<bar>) = bget d (nat (tp_off d j)) (nat \<bar>tp_size d j\<bar>)"
    proof (cases "tp_off d j < ?o")
      case True
      then have p: "tp_off d j + \<bar>tp_size d j\<bar> \<le> ?o" "tp_off d' j = tp_off d j + ?z" using sd of by auto
      have "bget d' (nat (tp_off d' j)) (nat \<bar>tp_size d j\<bar>) = bget ?d1 (nat (tp_off d j + ?z)) (nat \<bar>tp_size d j\<bar>)"
        unfolding p(2) using p(1) b o by (intro d'(8)) linarith+
      also have "\<dots> = bget (bget d (nat (tp_F d)) (nat (?o - tp_F d))) (nat (tp_off d j + ?z) - nat (tp_F d + ?z)) (nat \<bar>tp_size d j\<bar>)"
        by (rule bget_bput_sub) (use w(1) lm b o p(1) in linarith)+
      also have "\<dots> = bget d (nat (tp_off d j)) (nat \<bar>tp_size d j\<bar>)"
      proof -
        have "0 \<le> tp_F d" using b(3) by simp
        note nats = nat_block [OF this o(1) p(1) abs_ge_zero abs_ge_zero [of "tp_size d k"]]
        show ?thesis by (simp only: bget_bget [OF nats(1)] nats(2))
      qed
      finally show ?thesis .
    next
      case False
      then have p: "?o + ?z \<le> tp_off d j" "tp_off d' j = tp_off d j" using sd of by auto
      have "bget d' (nat (tp_off d' j)) (nat \<bar>tp_size d j\<bar>) = bget ?d1 (nat (tp_off d j)) (nat \<bar>tp_size d j\<bar>)"
        unfolding p(2) using p(1) b o by (intro d'(8)) linarith+
      also have "\<dots> = bget d (nat (tp_off d j)) (nat \<bar>tp_size d j\<bar>)"
        by (rule bget_bput_other) (use w(1) lm b o p(1) in linarith)+
      finally show ?thesis .
    qed
    with jk d'(6) [OF that] that show ?thesis by (simp add: tp_slot_def tp_slots_nth)
  qed
  ultimately show ?thesis
    using d'(1,3,5) n' nz(2) by (intro exI [of _ d']) (auto intro!: tp_slots_eqI)
qed

lemma bget_bput_set_F:
  assumes "length d = PAGE_SIZE" and "24 \<le> p" and "p + m \<le> 512" and "24 \<le> q" and "q + length bs \<le> 512"
  shows "bget (bput (set_F d v) q bs) p m = bget (bput d q bs) p m"
proof (rule nth_equalityI)
  have l: "length (set_F d v) = 512" using assms(1) by (simp add: page_simps)
  have len: "length (bput (set_F d v) q bs) = 512" "length (bput d q bs) = 512"
    using assms l by (simp_all add: length_bput)
  then show "length (bget (bput (set_F d v) q bs) p m) = length (bget (bput d q bs) p m)"
    using assms(3) by (simp add: length_bget)
  fix i assume "i < length (bget (bput (set_F d v) q bs) p m)"
  then have i: "i < m" using len assms(3) by (simp add: length_bget)
  have "set_F d v ! (p + i) = d ! (p + i)"
    using assms(1-3) i by (simp add: set_F_def put32_def nth_bput)
  then show "bget (bput (set_F d v) q bs) p m ! i = bget (bput d q bs) p m ! i"
    using assms l len i by (simp add: nth_bget nth_bput)
qed

text \<open>The page body after an update: the tuples below the old one are moved and the new bytes written.\<close>

definition tp_moved :: "byte list \<Rightarrow> nat \<Rightarrow> byte list \<Rightarrow> byte list" where
  "tp_moved d k bs =
     (let delta = tp_size d k - int (length bs) in
      bput (bput d (nat (tp_F d + delta)) (bget d (nat (tp_F d)) (nat (tp_off d k - tp_F d))))
        (nat (tp_off d k + delta)) bs)"

lemma tp_UpdateTuple_fields:
  assumes wf: "tp_wf d" and k: "k < tp_n d" "rid_slot rid = int k" "0 < tp_size d k"
    and t: "tup_size t = int (length (tup_data t))" "0 < tup_size t"
    and delta: "delta = tp_size d k - tup_size t" and room: "0 \<le> tp_F d - 24 - tp_C d * 8 + delta"
  shows "\<exists>d'. tp_UpdateTuple False lm d t old rid txn = Inr (True,
      \<lparr>allocated = True, tup_rid = rid, tup_size = tp_size d k,
       tup_data = bget d (nat (tp_off d k)) (nat (tp_size d k))\<rparr>, d', txn) \<and>
    length d' = PAGE_SIZE \<and> tp_F d' = tp_F d + delta \<and> tp_C d' = tp_C d \<and> tp_links d' = tp_links d \<and>
    (\<forall>j < tp_n d. tp_size d' j = (if j = k then tup_size t else tp_size d j)) \<and>
    (\<forall>j < tp_n d. 0 < tp_size d j \<longrightarrow>
       tp_off d' j = (if tp_off d j < tp_off d k + tp_size d k then tp_off d j + delta else tp_off d j)) \<and>
    (\<forall>p m. 24 + 8 * tp_n d \<le> p \<longrightarrow> p + m \<le> 512 \<longrightarrow> bget d' p m = bget (tp_moved d k (tup_data t)) p m)"
proof -
  note w = tp_wfD [OF wf]
  let ?o = "tp_off d k" and ?z = "tp_size d k" and ?bs = "tup_data t"
  have nz: "?z \<noteq> 0" using k(3) by simp
  have b: "tp_F d \<le> ?o" "?o + ?z \<le> 512" "24 + 8 * int (tp_n d) \<le> tp_F d + delta" "delta + int (length ?bs) = ?z"
    "in32 (tp_F d + delta)" "in32 (tup_size t)"
    using w(2,3,4) w(6,7) [OF k(1) nz] k(3) room delta t by auto
  have k61: "k < 61" using k(1) w(5) by simp
  let ?F = "nat (tp_F d)" and ?Fz = "nat (tp_F d + delta)" and ?m = "nat (?o - tp_F d)" and ?oz = "nat (?o + delta)"
  define d1 where "d1 = bput d ?Fz (bget d ?F ?m)"
  define d2 where "d2 = set_F d1 (tp_F d + delta)"
  define d3 where "d3 = bput d2 ?oz ?bs"
  define d4 where "d4 = set_size d3 k (tup_size t)"
  have ints: "tp_F d + delta = int ?Fz" "tp_F d = int ?F" "?o - tp_F d = int ?m" "?o + delta = int ?oz"
    "24 + 8 * tp_n d \<le> ?Fz" "24 \<le> ?Fz"
    using b(1,3) w(3) by linarith+
  then have bm: "?F + ?m \<le> 512" "?Fz + ?m \<le> 512" "?oz + length ?bs \<le> 512" "?Fz \<le> ?oz"
    using b k(3) t(2) delta by linarith+
  have lm: "length (bget d ?F ?m) = ?m" using bm w(1) by (simp add: length_bget)
  have l1: "length d1 = 512" using w(1) bm lm by (simp add: length_bput d1_def)
  have l2: "length d2 = 512" using l1 by (simp add: page_simps d2_def)
  have l3: "length d3 = 512" using l2 bm by (simp add: length_bput d3_def)
  have mv: "mem_move d (tp_F d + ?z - tup_size t) (tp_F d) (?o - tp_F d) = Inr d1"
    using mem_move_in [of ?F ?m d ?Fz] bm w(1) ints delta unfolding d1_def by (metis add_diff_eq)
  have wb: "wr_bytes d2 (?o + ?z - tup_size t) ?bs = Inr d3"
    using wr_bytes_in [of ?oz ?bs d2] bm l2 ints delta unfolding d3_def by (metis add_diff_eq)
  have F2: "tp_F d + ?z - tup_size t = tp_F d + delta" using delta by simp
  have oz24: "24 \<le> ?oz" "\<And>j. j < tp_n d \<Longrightarrow> 32 + 8 * j \<le> ?oz \<and> 32 + 8 * j \<le> ?Fz" using ints bm by fastforce+
  have f3: "tp_F d3 = tp_F d + delta" "tp_C d3 = tp_C d" "tp_links d3 = tp_links d"
    using w(1) l1 l2 bm lm oz24(1) ints(6) b(5) by (simp_all add: page_simps d3_def d2_def, simp_all add: page_simps d1_def)
  have s3: "tp_size d3 j = tp_size d j" "tp_off d3 j = tp_off d j" if "j < tp_n d" for j
    using that w(1,5) l1 l2 bm lm oz24(2) [OF that] by (simp_all add: page_simps d3_def d2_def, simp_all add: page_simps d1_def)
  have l4: "length d4 = 512" and h4: "tp_F d4 = tp_F d + delta" "tp_C d4 = tp_C d" "tp_links d4 = tp_links d"
    using l3 f3 k61 by (simp_all add: page_simps d4_def)
  have s4: "tp_size d4 j = (if j = k then tup_size t else tp_size d j)" "tp_off d4 j = tp_off d j"
    if "j < tp_n d" for j
    using that l3 k61 w(5) s3 [OF that] b(6) by (auto simp: page_simps d4_def)
  have g3: "bget d3 p m = bget (tp_moved d k ?bs) p m" if "24 \<le> p" "p + m \<le> 512" for p m
    using bget_bput_set_F [OF l1 that, of ?oz ?bs "tp_F d + delta"] bm(3) oz24(1) t(1) delta
    by (simp add: tp_moved_def Let_def d3_def d2_def d1_def)
  have dist: "distinct [0..<tp_n d]" "\<forall>j \<in> set [0..<tp_n d]. j < 61" using w(5) by auto
  obtain d' where d': "tp_shift (\<lambda>z. z > 0) (?o + ?z) delta d4 [0..<tp_n d] = Inr d'" "length d' = PAGE_SIZE"
    "tp_F d' = tp_F d4" "tp_C d' = tp_C d4" "tp_links d' = tp_links d4" "\<forall>j < 61. tp_size d' j = tp_size d4 j"
    "\<forall>j < 61. tp_off d' j = (if j \<in> set [0..<tp_n d] \<and> 0 < tp_size d4 j \<and> tp_off d4 j < ?o + ?z
          then int32 (tp_off d4 j + delta) else tp_off d4 j)"
    "\<forall>p m. (\<forall>j \<in> set [0..<tp_n d]. 32 + 8 * j \<le> p) \<longrightarrow> p + m \<le> 512 \<longrightarrow> bget d' p m = bget d4 p m"
    using tp_shift_ok [OF l4 dist, of "\<lambda>z. z > 0" "?o + ?z" delta] by blast
  have rd: "rd_bytes d ?o ?z = Inr (bget d (nat ?o) (nat ?z))"
    using w(1) b w(3) k(3) by (simp add: rd_bytes_def)
  have tb: "tuple_bytes t = Inr ?bs"
    using rd_bytes_in [of 0 "length ?bs" ?bs] t(1) by (simp add: tuple_bytes_def bget_def)
  have "tp_UpdateTuple False lm d t old rid txn = Inr (True,
      \<lparr>allocated = True, tup_rid = rid, tup_size = ?z, tup_data = bget d (nat ?o) (nat ?z)\<rparr>, d', txn)"
  proof -
    have e: "tp_SetFreeSpacePointer d1 (tp_F d + ?z - tup_size t) = Inr d2"
      "tp_SetTupleSize d3 (int k) (tup_size t) = Inr d4" "tp_GetTupleCount d4 = Inr (tp_C d)"
      unfolding F2 using l1 l3 l4 k61 h4(2) by (simp_all add: page_simps d2_def d4_def)
    have sh: "tp_shift (\<lambda>z. z > 0) (?o + ?z) (?z - tup_size t) d4 [0..<tp_n d] = Inr d'"
      using d'(1) delta by simp
    have "\<not> tp_F d - 24 - tp_C d * 8 < tup_size t - ?z" using room delta by simp
    then show ?thesis
      using k b(1) w(2)
      by (simp add: tp_UpdateTuple_def Let_def tp_get [OF w(1)] k61 rd mv wb tb e sh tp_lock_x_def)
  qed
  moreover have "tp_off d' j = (if tp_off d j < ?o + ?z then tp_off d j + delta else tp_off d j)"
    if j: "j < tp_n d" "0 < tp_size d j" for j
  proof -
    have "int32 (tp_off d j + delta) = tp_off d j + delta" if "tp_off d j < ?o + ?z"
      using that b w(3) w(6,7) [OF j(1)] j(2) by (intro int32_id) linarith
    then show ?thesis using d'(7) j w(5) s4 [OF j(1)] t(2) by auto
  qed
  moreover have "bget d' p m = bget (tp_moved d k ?bs) p m" if "24 + 8 * tp_n d \<le> p" "p + m \<le> 512" for p m
  proof -
    have "bget d' p m = bget d4 p m" using d'(8) that by fastforce
    also have "\<dots> = bget d3 p m" using that l3 k61 k(1) by (simp add: page_simps d4_def)
    finally show ?thesis using g3 [of p m] that by simp
  qed
  ultimately show ?thesis
    using d'(2-6) h4 s4 w(5) by (intro exI [of _ d']) auto
qed

lemma tp_moved_bget:
  assumes wf: "tp_wf d" and k: "k < tp_n d" "0 < tp_size d k" and delta: "delta = tp_size d k - int (length bs)"
    and room: "24 + 8 * int (tp_n d) \<le> tp_F d + delta"
  shows "bget (tp_moved d k bs) (nat (tp_off d k + delta)) (length bs) = bs"
    and "tp_F d \<le> x \<Longrightarrow> 0 \<le> a \<Longrightarrow> x + a \<le> tp_off d k \<Longrightarrow>
      bget (tp_moved d k bs) (nat (x + delta)) (nat a) = bget d (nat x) (nat a)"
    and "tp_off d k + tp_size d k \<le> x \<Longrightarrow> 0 \<le> a \<Longrightarrow> x + a \<le> 512 \<Longrightarrow>
      bget (tp_moved d k bs) (nat x) (nat a) = bget d (nat x) (nat a)"
proof -
  note w = tp_wfD [OF wf]
  define F z d1 where "F = tp_F d" and "z = tp_off d k"
    and "d1 = bput d (nat (tp_F d + delta)) (bget d (nat (tp_F d)) (nat (tp_off d k - tp_F d)))"
  have nz: "tp_size d k \<noteq> 0" using k(2) by simp
  have b: "0 \<le> F" "F \<le> z" "z + tp_size d k \<le> 512" "0 \<le> F + delta" "F \<le> 512" "delta + int (length bs) = tp_size d k"
    using w(3,4) w(6,7) [OF k(1) nz] k(2) room delta by (auto simp: F_def z_def)
  have lm: "length (bget d (nat F) (nat (z - F))) = nat (z - F)"
    using b w(1) k(2) by (intro length_bget) linarith
  have n1: "nat (F + delta) + nat (z - F) = nat (z + delta)" using b by linarith
  have n2: "nat (z + delta) + length bs \<le> 512" "nat (z + delta) + length bs = nat (z + tp_size d k)" using b k(2) by linarith+
  have d1: "d1 = bput d (nat (F + delta)) (bget d (nat F) (nat (z - F)))" by (simp add: d1_def F_def z_def)
  have "length d1 = length d" unfolding d1 by (rule length_bput) (use w(1) lm n1 n2 in linarith)
  then have l1: "length d1 = 512" using w(1) by simp
  have mv: "tp_moved d k bs = bput d1 (nat (z + delta)) bs"
    by (simp add: tp_moved_def Let_def d1_def z_def flip: delta)
  show "bget (tp_moved d k bs) (nat (tp_off d k + delta)) (length bs) = bs"
    unfolding mv z_def [symmetric] using l1 n2 by (simp add: bget_bput_same)
  show "bget (tp_moved d k bs) (nat (x + delta)) (nat a) = bget d (nat x) (nat a)"
    if x: "tp_F d \<le> x" "0 \<le> a" "x + a \<le> tp_off d k"
  proof -
    have x': "F \<le> x" "x + a \<le> z" using x by (simp_all add: F_def z_def)
    have s: "nat (x + delta) + nat a \<le> nat (z + delta)" "nat (F + delta) \<le> nat (x + delta)" using x' x(2) b(4) by linarith+
    have "bget (tp_moved d k bs) (nat (x + delta)) (nat a) = bget d1 (nat (x + delta)) (nat a)"
      unfolding mv by (rule bget_bput_other) (use s n2(1) l1 in linarith)+
    also have "\<dots> = bget (bget d (nat F) (nat (z - F))) (nat (x + delta) - nat (F + delta)) (nat a)"
      unfolding d1 by (rule bget_bput_sub) (use s n1 n2(1) w(1) lm in linarith)+
    also have "\<dots> = bget d (nat x) (nat a)"
    proof -
      have "nat (x + delta) - nat (F + delta) = nat x - nat F" using x'(1) b(1,4) by linarith
      moreover have "nat x - nat F + nat a \<le> nat (z - F)" "nat F + (nat x - nat F) = nat x"
        using x' x(2) b(1) by linarith+
      ultimately show ?thesis by (simp only: bget_bget)
    qed
    finally show ?thesis .
  qed
  show "bget (tp_moved d k bs) (nat x) (nat a) = bget d (nat x) (nat a)"
    if x: "tp_off d k + tp_size d k \<le> x" "0 \<le> a" "x + a \<le> 512"
  proof -
    have x': "z + tp_size d k \<le> x" using x by (simp add: z_def)
    have s: "nat (z + delta) + length bs \<le> nat x" "nat x + nat a \<le> 512" "nat (F + delta) + nat (z - F) \<le> nat x"
      using x' x(2,3) n1 n2(2) b(1,2,6) k(2) by linarith+
    have "bget (tp_moved d k bs) (nat x) (nat a) = bget d1 (nat x) (nat a)"
      unfolding mv by (rule bget_bput_other) (use s n2(1) l1 in linarith)+
    also have "\<dots> = bget d (nat x) (nat a)"
      unfolding d1 by (rule bget_bput_other) (use s n1 n2(1) w(1) lm in linarith)+
    finally show ?thesis .
  qed
qed

lemma tp_UpdateTuple_slots:
  assumes wf: "tp_wf d" and k: "k < tp_n d" "rid_slot rid = int k" "tp_slot d k = Some (sz, old_bs)" "0 < sz"
    and unmarked: "\<forall>j < tp_n d. 0 \<le> tp_size d j"
    and t: "tup_size t = int (length (tup_data t))" "0 < tup_size t" and room: "tup_size t - sz \<le> tp_F d - 24 - tp_C d * 8"
  shows "\<exists>d'. tp_UpdateTuple False lm d t old rid txn = Inr (True,
      \<lparr>allocated = True, tup_rid = rid, tup_size = sz, tup_data = old_bs\<rparr>, d', txn) \<and>
    tp_wf d' \<and> tp_slots d' = (tp_slots d)[k := Some (tup_size t, tup_data t)] \<and> tp_links d' = tp_links d"
proof -
  note w = tp_wfD [OF wf]
  have sz: "sz = tp_size d k" "old_bs = bget d (nat (tp_off d k)) (nat sz)"
    using k(3,4) by (auto simp: tp_slot_def split: if_splits)
  define delta where "delta = tp_size d k - tup_size t"
  have kz: "0 < tp_size d k" "tp_size d k \<noteq> 0" using k(4) sz by auto
  have rm: "0 \<le> tp_F d - 24 - tp_C d * 8 + delta" using room sz by (simp add: delta_def)
  obtain d' where d': "tp_UpdateTuple False lm d t old rid txn = Inr (True,
      \<lparr>allocated = True, tup_rid = rid, tup_size = sz, tup_data = old_bs\<rparr>, d', txn)"
    "length d' = PAGE_SIZE" "tp_F d' = tp_F d + delta" "tp_C d' = tp_C d" "tp_links d' = tp_links d"
    "\<And>j. j < tp_n d \<Longrightarrow> tp_size d' j = (if j = k then tup_size t else tp_size d j)"
    "\<And>j. j < tp_n d \<Longrightarrow> 0 < tp_size d j \<Longrightarrow>
       tp_off d' j = (if tp_off d j < tp_off d k + tp_size d k then tp_off d j + delta else tp_off d j)"
    "\<And>p m. 24 + 8 * tp_n d \<le> p \<Longrightarrow> p + m \<le> 512 \<Longrightarrow> bget d' p m = bget (tp_moved d k (tup_data t)) p m"
    using tp_UpdateTuple_fields [OF wf k(1,2) kz(1) t delta_def rm, of lm old txn] sz by auto
  have n': "tp_n d' = tp_n d" using d'(4) by (simp add: tp_n_def)
  have top: "24 + 8 * int (tp_n d) \<le> tp_F d + delta" using rm w(2) by simp
  note mb = tp_moved_bget [OF wf k(1) kz(1) delta_def [unfolded t(1)] top]
  note ok = w(6,7) [OF k(1) kz(2)]
  have side: "(if tp_off d j < tp_off d k + tp_size d k then tp_off d j + tp_size d j \<le> tp_off d k
      else tp_off d k + tp_size d k \<le> tp_off d j)" if "j < tp_n d" "j \<noteq> k" "0 < tp_size d j" for j
    using w(8) [OF that(1) k(1) that(2) _ kz(2)] that(3) kz(1) by (auto split: if_splits)
  have offk: "tp_off d' k = tp_off d k + delta" using d'(7) [OF k(1) kz(1)] kz(1) by simp
  have live: "j \<noteq> k \<Longrightarrow> 0 < tp_size d j \<and> tp_size d' j = tp_size d j" if "j < tp_n d" "tp_size d' j \<noteq> 0" for j
    using that d'(6) [OF that(1)] unmarked by (auto simp: order_less_le split: if_splits)
  have "tp_wf d'"
    unfolding tp_wf_def n'
  proof (intro conjI allI impI)
    show "24 + 8 * tp_C d' \<le> tp_F d'" using d'(3,4) top w(2) by simp
    show "tp_F d' \<le> 512" using d'(3) ok t(2) w(4) by (simp add: delta_def)
    show "tp_F d' \<le> tp_off d' i" "tp_off d' i + \<bar>tp_size d' i\<bar> \<le> 512" if "i < tp_n d" "tp_size d' i \<noteq> 0" for i
    proof -
      have "tp_F d' \<le> tp_off d' i \<and> tp_off d' i + \<bar>tp_size d' i\<bar> \<le> 512"
      proof (cases "i = k")
        case True
        with d'(3) d'(6) [OF k(1)] offk ok t(2) kz show ?thesis by (simp add: delta_def)
      next
        case False
        with live [OF that] have l: "0 < tp_size d i" "tp_size d' i = tp_size d i" by auto
        with d'(3) d'(7) [OF that(1) l(1)] side [OF that(1) False l(1)] w(6,7) [OF that(1)] ok t(2) kz
        show ?thesis by (simp add: delta_def split: if_splits)
      qed
      then show "tp_F d' \<le> tp_off d' i" "tp_off d' i + \<bar>tp_size d' i\<bar> \<le> 512" by auto
    qed
    show "tp_off d' i + \<bar>tp_size d' i\<bar> \<le> tp_off d' j \<or> tp_off d' j + \<bar>tp_size d' j\<bar> \<le> tp_off d' i"
      if ij: "i < tp_n d" "j < tp_n d" "i \<noteq> j" "tp_size d' i \<noteq> 0" "tp_size d' j \<noteq> 0" for i j
    proof -
      have key: "tp_off d' a + \<bar>tp_size d' a\<bar> \<le> tp_off d' k \<or> tp_off d' k + \<bar>tp_size d' k\<bar> \<le> tp_off d' a"
        if "a < tp_n d" "a \<noteq> k" "tp_size d' a \<noteq> 0" for a
        using live [OF that(1,3,2)] d'(7) [OF that(1)] side [OF that(1,2)] d'(6) [OF k(1)] offk t(2)
        by (simp add: delta_def split: if_splits)
      show ?thesis
      proof (cases "i = k \<or> j = k")
        case True
        with ij key [of i] key [of j] show ?thesis by auto
      next
        case False
        then have l: "0 < tp_size d i \<and> tp_size d' i = tp_size d i" "0 < tp_size d j \<and> tp_size d' j = tp_size d j"
          using False live [OF ij(1,4)] live [OF ij(2,5)] by blast+
        then have "tp_off d i + tp_size d i \<le> tp_off d j \<or> tp_off d j + tp_size d j \<le> tp_off d i"
          using w(8) [OF ij(1-3)] by auto
        moreover have "delta < tp_size d k" using t(2) by (simp add: delta_def)
        ultimately show ?thesis
          using l d'(7) [OF ij(1)] d'(7) [OF ij(2)] side [of i] side [of j] False ij by (simp split: if_splits)
      qed
    qed
  qed (use d' w(2) in auto)
  moreover have "tp_slot d' j = (tp_slots d)[k := Some (tup_size t, tup_data t)] ! j" if "j < tp_n d" for j
  proof (cases "j = k")
    case True
    have "bget d' (nat (tp_off d k + delta)) (length (tup_data t)) = tup_data t"
      using d'(8) [of "nat (tp_off d k + delta)" "length (tup_data t)"] mb(1) top ok t
      by (simp add: delta_def)
    with True d'(6) [OF k(1)] offk t k(1) show ?thesis by (simp add: tp_slot_def tp_slots_nth)
  next
    case jk: False
    show ?thesis
    proof (cases "tp_size d j = 0")
      case True
      with jk d'(6) [OF that] that show ?thesis by (simp add: tp_slot_def tp_slots_nth)
    next
      case False
      then have j: "0 < tp_size d j" using unmarked that by (auto simp: order_less_le)
      note oj = w(6,7) [OF that False] and sd = side [OF that jk j] and of = d'(7) [OF that j]
      have "bget d' (nat (tp_off d' j)) (nat (tp_size d j)) = bget d (nat (tp_off d j)) (nat (tp_size d j))"
      proof (cases "tp_off d j < tp_off d k + tp_size d k")
        case True
        then have x: "tp_off d j + tp_size d j \<le> tp_off d k" "tp_off d' j = tp_off d j + delta" using sd of by auto
        have "24 + 8 * tp_n d \<le> nat (tp_off d j + delta)" "nat (tp_off d j + delta) + nat (tp_size d j) \<le> 512"
          using top oj x ok t(2) j by (simp_all add: delta_def)
        from d'(8) [OF this] mb(2) [of "tp_off d j" "tp_size d j"] oj x j show ?thesis by simp
      next
        case False
        then have x: "tp_off d k + tp_size d k \<le> tp_off d j" "tp_off d' j = tp_off d j" using sd of by auto
        have "24 + 8 * tp_n d \<le> nat (tp_off d j)" "nat (tp_off d j) + nat (tp_size d j) \<le> 512"
          using w(3) oj j by linarith+
        from d'(8) [OF this] mb(3) [of "tp_off d j" "tp_size d j"] oj x j show ?thesis by simp
      qed
      with jk j d'(6) [OF that] that show ?thesis by (simp add: tp_slot_def tp_slots_nth)
    qed
  qed
  ultimately show ?thesis
    using d'(1,5) n' by (intro exI [of _ d']) (auto intro!: tp_slots_eqI)
qed

end
