(* ===== verification/Table_Page_Spec.thy ===== *)
theory Table_Page_Spec
  imports Table_Page_Moves
begin

text \<open>
  What a table page promises: iteration over its live slots, and the properties of the operations
  on the abstract list of slots.
\<close>

section \<open>Iteration\<close>

lemma upto_upt: "[int a..int b - 1] = map int [a..<b]"
proof (induction b)
  case (Suc b)
  show ?case
  proof (cases "a \<le> b")
    case True
    then have "[int a..int (Suc b) - 1] = [int a..int b - 1] @ [int b]"
      by (simp add: upto_rec2)
    with Suc True show ?thesis by simp
  qed simp
qed simp

lemma tp_first_live_find:
  "length d = PAGE_SIZE \<Longrightarrow> \<forall>j \<in> set is. j < 61 \<Longrightarrow>
     tp_first_live d (map int is) = Inr (map_option int (List.find (\<lambda>j. 0 < tp_size d j) is))"
  by (induction "is") (auto simp: page_simps)

lemma tp_GetFirstTupleRid_find:
  assumes "tp_wf d"
  shows "tp_GetFirstTupleRid d r = Inr (case List.find (\<lambda>j. 0 < tp_size d j) [0..<tp_n d] of
      Some j \<Rightarrow> (True, rid_make (fst (tp_links d)) (int j)) | None \<Rightarrow> (False, rid_make (- 1) (- 1)))"
proof -
  note w = tp_wfD [OF assms]
  have "tp_first_live d [0..tp_C d - 1] = Inr (map_option int (List.find (\<lambda>j. 0 < tp_size d j) [0..<tp_n d]))"
    using tp_first_live_find [OF w(1), of "[0..<tp_n d]"] w(2,5) upto_upt [of 0 "tp_n d"] by simp
  then show ?thesis
    by (simp add: tp_GetFirstTupleRid_def tp_get [OF w(1)] rid_Set_make split: option.split)
qed

lemma tp_GetNextTupleRid_find:
  assumes "tp_wf d"
  shows "tp_GetNextTupleRid d (rid_make (fst (tp_links d)) (int i)) r =
    Inr (case List.find (\<lambda>j. 0 < tp_size d j) [Suc i..<tp_n d] of
      Some j \<Rightarrow> (True, rid_make (fst (tp_links d)) (int j)) | None \<Rightarrow> (False, r))"
proof -
  note w = tp_wfD [OF assms]
  have suc: "int i + 1 = int (Suc i)" by simp
  have "tp_first_live d [int i + 1..tp_C d - 1] =
      Inr (map_option int (List.find (\<lambda>j. 0 < tp_size d j) [Suc i..<tp_n d]))"
    unfolding suc w(2) upto_upt using w(1,5) by (intro tp_first_live_find) auto
  then show ?thesis
    by (simp add: tp_GetNextTupleRid_def tp_get [OF w(1)] rid_Set_make rid_make_def split: option.split)
qed

lemma find_filter: "List.find P xs = (case filter P xs of [] \<Rightarrow> None | x # _ \<Rightarrow> Some x)"
  by (induction xs) auto

lemma filter_upt_Cons: "filter P [a..<n] = i # rest \<Longrightarrow> rest = filter P [Suc i..<n]"
proof (induction "n - a" arbitrary: a)
  case (Suc m)
  then have "[a..<n] = a # [Suc a..<n]" by (intro upt_conv_Cons) simp
  with Suc.prems Suc.hyps(1) [of "Suc a"] Suc.hyps(2) show ?case by (cases "P a") auto
qed simp

text \<open>The loop by which the table iterator visits a page.\<close>

fun tp_walk :: "nat \<Rightarrow> byte list \<Rightarrow> bool \<times> RID \<Rightarrow> RID list res" where
  "tp_walk 0 d (b, r) = fail Out_Of_Fuel"
| "tp_walk (Suc fuel) d (b, r) =
     (if \<not> b then ok []
      else bindE (tp_GetNextTupleRid d r r) (\<lambda>next. bindE (tp_walk fuel d next) (\<lambda>rs. ok (r # rs))))"

lemma tp_walk_from:
  assumes wf: "tp_wf d"
  shows "tp_n d - a < fuel \<Longrightarrow> tp_walk fuel d (case filter (\<lambda>j. 0 < tp_size d j) [a..<tp_n d] of
      [] \<Rightarrow> (False, r) | i # _ \<Rightarrow> (True, rid_make (fst (tp_links d)) (int i))) =
    Inr (map (\<lambda>i. rid_make (fst (tp_links d)) (int i)) (filter (\<lambda>j. 0 < tp_size d j) [a..<tp_n d]))"
proof (induction fuel arbitrary: a r)
  case (Suc fuel)
  show ?case
  proof (cases "filter (\<lambda>j. 0 < tp_size d j) [a..<tp_n d]")
    case (Cons i rest)
    note rest = filter_upt_Cons [OF Cons]
    have "i \<in> set (filter (\<lambda>j. 0 < tp_size d j) [a..<tp_n d])" using Cons by simp
    then have "a \<le> i" "i < tp_n d" by auto
    then have "tp_n d - Suc i < fuel" using Suc.prems by linarith
    from Suc.IH [OF this, of "rid_make (fst (tp_links d)) (int i)"] show ?thesis
      by (cases rest) (simp_all add: Cons rest [symmetric] tp_GetNextTupleRid_find [OF wf] find_filter)
  qed simp
qed simp

section \<open>The interface of a tuple page\<close>

text \<open>
  What the tables and the transaction manager rely on: a page is a list of slots; inserting fills a
  slot, marking and rolling back change the sign of a size, applying a deletion empties a slot.
\<close>

type_synonym slot = "(int \<times> byte list) option"

locale tuple_page =
  fixes insert :: "'p \<Rightarrow> Tuple \<Rightarrow> (bool \<times> RID \<times> 'p) res"
    and mark :: "'p \<Rightarrow> RID \<Rightarrow> (bool \<times> 'p \<times> Transaction) res"
    and rollback :: "'p \<Rightarrow> RID \<Rightarrow> 'p res"
    and remove :: "'p \<Rightarrow> RID \<Rightarrow> 'p res"
    and invar :: "'p \<Rightarrow> bool"
    and slots :: "'p \<Rightarrow> slot list"
    and target :: "'p \<Rightarrow> nat"
    and room :: "'p \<Rightarrow> int \<Rightarrow> bool"
    and txn :: Transaction
  assumes target_law: "invar d \<Longrightarrow> target d \<le> length (slots d) \<and>
      (target d < length (slots d) \<longrightarrow> slots d ! target d = None)"
    and insert_law: "invar d \<Longrightarrow> 0 < tup_size t \<Longrightarrow> tup_size t = int (length (tup_data t)) \<Longrightarrow> room d (tup_size t) \<Longrightarrow>
      \<exists>rid d'. insert d t = Inr (True, rid, d') \<and> rid_slot rid = int (target d) \<and> invar d' \<and>
        slots d' = (if target d = length (slots d) then slots d @ [Some (tup_size t, tup_data t)]
                    else (slots d)[target d := Some (tup_size t, tup_data t)])"
    and mark_law: "invar d \<Longrightarrow> k < length (slots d) \<Longrightarrow> rid_slot rid = int k \<Longrightarrow> slots d ! k = Some (sz, bs) \<Longrightarrow> 0 < sz \<Longrightarrow>
      \<exists>d'. mark d rid = Inr (True, d', txn) \<and> invar d' \<and> slots d' = (slots d)[k := Some (- sz, bs)]"
    and rollback_law: "invar d \<Longrightarrow> k < length (slots d) \<Longrightarrow> rid_slot rid = int k \<Longrightarrow> slots d ! k = Some (sz, bs) \<Longrightarrow> sz < 0 \<Longrightarrow>
      \<exists>d'. rollback d rid = Inr d' \<and> invar d' \<and> slots d' = (slots d)[k := Some (- sz, bs)]"
    and remove_law: "invar d \<Longrightarrow> k < length (slots d) \<Longrightarrow> rid_slot rid = int k \<Longrightarrow> slots d ! k = Some (sz, bs) \<Longrightarrow>
      \<exists>d'. remove d rid = Inr d' \<and> invar d' \<and> slots d' = (slots d)[k := None]"
begin

lemma undo_insert:
  assumes "invar d" and "0 < tup_size t" and "tup_size t = int (length (tup_data t))" and "room d (tup_size t)"
  shows "\<exists>rid d1 d2. insert d t = Inr (True, rid, d1) \<and> remove d1 rid = Inr d2 \<and> invar d2 \<and>
    slots d2 = (if target d = length (slots d) then slots d @ [None] else slots d)"
proof -
  obtain rid d1 where d1: "insert d t = Inr (True, rid, d1)" "rid_slot rid = int (target d)" "invar d1"
    "slots d1 = (if target d = length (slots d) then slots d @ [Some (tup_size t, tup_data t)]
       else (slots d)[target d := Some (tup_size t, tup_data t)])"
    using insert_law [OF assms] by blast
  have tl: "target d \<le> length (slots d)" "target d < length (slots d) \<Longrightarrow> slots d ! target d = None"
    using target_law [OF assms(1)] by auto
  have "target d < length (slots d1)" "slots d1 ! target d = Some (tup_size t, tup_data t)"
    using d1(4) tl by (auto simp: nth_append)
  from remove_law [OF d1(3) this(1) d1(2) this(2)] d1 tl show ?thesis
    by (auto simp: list_update_append) (metis list_update_id)
qed

lemma undo_delete:
  assumes "invar d" and "k < length (slots d)" and "rid_slot rid = int k" and "slots d ! k = Some (sz, bs)" and "0 < sz"
  shows "\<exists>d1 d2. mark d rid = Inr (True, d1, txn) \<and> rollback d1 rid = Inr d2 \<and> invar d2 \<and> slots d2 = slots d"
proof -
  obtain d1 where d1: "mark d rid = Inr (True, d1, txn)" "invar d1" "slots d1 = (slots d)[k := Some (- sz, bs)]"
    using mark_law [OF assms] by blast
  then have "k < length (slots d1)" "slots d1 ! k = Some (- sz, bs)" "- sz < 0" using assms by auto
  from rollback_law [OF d1(2) this(1) assms(3) this(2,3)] d1 assms(4) show ?thesis
    by auto (metis list_update_id)
qed

lemma commit_delete:
  assumes "invar d" and "k < length (slots d)" and "rid_slot rid = int k" and "slots d ! k = Some (sz, bs)" and "0 < sz"
  shows "\<exists>d1 d2. mark d rid = Inr (True, d1, txn) \<and> remove d1 rid = Inr d2 \<and> invar d2 \<and> slots d2 = (slots d)[k := None]"
proof -
  obtain d1 where d1: "mark d rid = Inr (True, d1, txn)" "invar d1" "slots d1 = (slots d)[k := Some (- sz, bs)]"
    using mark_law [OF assms] by blast
  then have "k < length (slots d1)" "slots d1 ! k = Some (- sz, bs)" using assms by auto
  from remove_law [OF d1(2) this(1) assms(3) this(2)] d1 show ?thesis by auto
qed

end

interpretation table_page: tuple_page "\<lambda>d t. tp_InsertTuple False lm d t rid0 txn" "\<lambda>d rid. tp_MarkDelete False lm d rid txn"
  "\<lambda>d rid. tp_RollbackDelete False d rid txn" "\<lambda>d rid. tp_ApplyDelete False d rid txn" tp_wf tp_slots tp_target tp_room txn
  for lm rid0 txn
proof unfold_locales
  fix d assume wf: "tp_wf d"
  show tl: "tp_target d \<le> length (tp_slots d) \<and> (tp_target d < length (tp_slots d) \<longrightarrow> tp_slots d ! tp_target d = None)"
    using tp_target_cases [of d] by (auto simp: tp_slots_nth tp_slot_def)
  show "\<exists>rid d'. tp_InsertTuple False lm d t rid0 txn = Inr (True, rid, d') \<and> rid_slot rid = int (tp_target d) \<and> tp_wf d' \<and>
      tp_slots d' = (if tp_target d = length (tp_slots d) then tp_slots d @ [Some (tup_size t, tup_data t)]
        else (tp_slots d)[tp_target d := Some (tup_size t, tup_data t)])"
    if t: "0 < tup_size t" "tup_size t = int (length (tup_data t))" "tp_room d (tup_size t)" for t
  proof -
    have "tup_data t \<noteq> []" using t by auto
    from tp_insert_at_slots [OF wf _ _ this, of "tp_target d"] tp_InsertTuple_fits [OF wf t, of lm rid0 txn] t tp_target_cases [of d]
    show ?thesis by (auto simp: tp_room_def rid_make_def)
  qed
next
  fix d k sz bs and rid :: RID
  assume wf: "tp_wf d" and k: "k < length (tp_slots d)" "rid_slot rid = int k" "tp_slots d ! k = Some (sz, bs)"
  then have s: "k < tp_n d" "tp_slot d k = Some (sz, bs)" by (simp_all add: tp_slots_nth)
  show "\<exists>d'. tp_MarkDelete False lm d rid txn = Inr (True, d', txn) \<and> tp_wf d' \<and> tp_slots d' = (tp_slots d)[k := Some (- sz, bs)]"
    if "0 < sz"
    using tp_MarkDelete_live [OF wf s(1) k(2) s(2) that, of lm txn] tp_flip [OF wf s] by auto
  show "\<exists>d'. tp_RollbackDelete False d rid txn = Inr d' \<and> tp_wf d' \<and> tp_slots d' = (tp_slots d)[k := Some (- sz, bs)]"
    if "sz < 0"
    using tp_RollbackDelete_marked [OF wf s(1) k(2) s(2) that, of txn] tp_flip [OF wf s] by auto
  show "\<exists>d'. tp_ApplyDelete False d rid txn = Inr d' \<and> tp_wf d' \<and> tp_slots d' = (tp_slots d)[k := None]"
    using tp_ApplyDelete_slots [OF wf s(1) k(2) s(2), of txn] by blast
qed

lemma tp_InsertTuple_full:
  assumes "tp_wf d" and "0 < tup_size t" and "\<not> tp_room d (tup_size t)"
  shows "\<exists>rid. tp_InsertTuple False lm d t rid0 txn = Inr (False, rid, d)"
proof -
  note w = tp_wfD [OF assms(1)]
  obtain r where r: "tp_free_slot False txn d (nat (tp_C d)) rid0 [0..<nat (tp_C d)] = Inr (tp_target d, r)"
    using tp_free_slot_target [OF assms(1)] by blast
  have "int (tp_target d) = tp_C d \<longleftrightarrow> tp_target d = tp_n d" using w(2) by simp
  with assms(2,3) r show ?thesis
    by (auto simp: tp_InsertTuple_def tp_get [OF w(1)] tp_room_def split: if_splits)
qed

section \<open>Properties\<close>

text \<open>
  C22. Inserting a tuple that fits returns true and the identifier of the first empty slot (or of a
  new one); reading that identifier returns the tuple's bytes, the page stays well formed and every
  other slot keeps its content. A tuple that does not fit leaves the page as it was.
\<close>

theorem tp_insert_get:
  assumes "tp_wf d" and "0 < tup_size t" and "tup_size t = int (length (tup_data t))"
  shows "if tp_room d (tup_size t)
    then \<exists>rid d'. tp_InsertTuple False lm d t rid0 txn = Inr (True, rid, d') \<and> tp_wf d' \<and>
      tp_GetTuple False lm d' rid t0 txn =
        Inr (True, \<lparr>allocated = True, tup_rid = rid, tup_size = tup_size t, tup_data = tup_data t\<rparr>, txn) \<and>
      rid = rid_make (fst (tp_links d)) (int (tp_target d)) \<and>
      (\<forall>i < tp_n d. i \<noteq> tp_target d \<longrightarrow> tp_slots d' ! i = tp_slots d ! i)
    else \<exists>rid. tp_InsertTuple False lm d t rid0 txn = Inr (False, rid, d)"
proof (cases "tp_room d (tup_size t)")
  case True
  let ?k = "tp_target d" and ?d = "tp_insert_at d (tp_target d) (tup_data t)"
  have ins: "tp_InsertTuple False lm d t rid0 txn = Inr (True, rid_make (fst (tp_links d)) (int ?k), ?d)"
    by (rule tp_InsertTuple_fits [OF assms True])
  have "tup_data t \<noteq> []" using assms by auto
  from tp_insert_at_slots [OF assms(1) _ _ this, of ?k] True assms(3) tp_target_cases [of d]
  have s: "tp_wf ?d" "tp_slots ?d = (if ?k = tp_n d then tp_slots d @ [Some (tup_size t, tup_data t)]
      else (tp_slots d)[?k := Some (tup_size t, tup_data t)])"
    by (auto simp: tp_room_def)
  have "tp_n ?d = (if ?k = tp_n d then Suc (tp_n d) else tp_n d)"
    using arg_cong [OF s(2), of length] by simp
  then have k: "?k < tp_n ?d" "tp_slots ?d ! ?k = Some (tup_size t, tup_data t)"
    using s(2) tp_target_cases [of d] by (auto simp: nth_append)
  then have "tp_slot ?d ?k = Some (tup_size t, tup_data t)" by (simp add: tp_slots_nth)
  with tp_GetTuple_off [OF s(1) k(1), of "rid_make (fst (tp_links d)) (int ?k)"] ins s assms(2) True show ?thesis
    by (auto simp: rid_make_def nth_append)
next
  case False
  then show ?thesis using tp_InsertTuple_full [OF assms(1,2) False] by simp
qed

lemma empty_page_wf:
  "\<exists>d. tp_Init (replicate 512 0) 3 512 (- 1) = Inr d \<and> tp_wf d \<and> tp_n d = 0 \<and> tp_F d = 512"
proof -
  define d0 where "d0 = put32 (put32 (put32 (replicate 512 0) 0 3) 8 (- 1)) 12 (- 1)"
  have l: "length d0 = 512" by (simp add: d0_def)
  have "tp_Init (replicate 512 0) 3 512 (- 1) = Inr (set_C (set_F d0 512) 0)"
    using wr32_in [of 0 "replicate 512 0" 3] wr32_in [of 8 "put32 (replicate 512 0) 0 3" "- 1"]
      wr32_in [of 12 "put32 (put32 (replicate 512 0) 0 3) 8 (- 1)" "- 1"] l
    by (simp add: tp_Init_def tp_SetPrevPageId_def tp_SetNextPageId_def page_simps d0_def)
  moreover have "tp_F (set_C (set_F d0 512) 0) = 512" "tp_C (set_C (set_F d0 512) 0) = 0"
    using l by (simp_all add: page_simps)
  ultimately show ?thesis using l by (auto simp: tp_wf_def tp_n_def page_simps)
qed

abbreviation sample_tuple :: Tuple where
  "sample_tuple \<equiv> \<lparr>allocated = True, tup_rid = rid_invalid, tup_size = 3, tup_data = [1, 2, 3]\<rparr>"

lemma empty_page_room: "tp_n d = 0 \<Longrightarrow> tp_F d = 512 \<Longrightarrow> tp_wf d \<Longrightarrow> tp_room d 3"
  using tp_wfD(2) [of d] by (simp add: tp_room_def)

theorem tp_insert_get_witness:
  "\<exists>d rid d'. tp_Init (replicate 512 0) 3 512 (- 1) = Inr d \<and>
    tp_InsertTuple False \<lparr>strict_2PL = True\<rparr> d sample_tuple rid_invalid (txn_init 0) = Inr (True, rid, d') \<and>
    tp_GetTuple False \<lparr>strict_2PL = True\<rparr> d' rid tuple_dummy (txn_init 0) =
      Inr (True, \<lparr>allocated = True, tup_rid = rid, tup_size = 3, tup_data = [1, 2, 3]\<rparr>, txn_init 0)"
proof -
  obtain d where d: "tp_Init (replicate 512 0) 3 512 (- 1) = Inr d" "tp_wf d" "tp_n d = 0" "tp_F d = 512"
    using empty_page_wf by blast
  from tp_insert_get [OF d(2), of sample_tuple "\<lparr>strict_2PL = True\<rparr>" rid_invalid "txn_init 0" tuple_dummy]
    empty_page_room [OF d(3,4,2)] d(1) show ?thesis by auto
qed

text \<open>
  C23. Committing a deletion (marking the tuple and applying the deletion) empties exactly its slot:
  all other tuples are read back unchanged although their bytes have been moved.
\<close>

theorem tp_commit_delete:
  assumes "tp_wf d" and "k < length (tp_slots d)" and "rid_slot r = int k" and "tp_slots d ! k = Some (sz, bs)" and "0 < sz"
  shows "\<exists>d1 d2. tp_MarkDelete False lm d r txn = Inr (True, d1, txn) \<and> tp_ApplyDelete False d1 r txn = Inr d2 \<and>
    tp_wf d2 \<and> tp_slots d2 = (tp_slots d)[k := None]"
  using assms by (rule table_page.commit_delete)

lemma one_tuple_page:
  "\<exists>d. tp_wf d \<and> tp_slots d = [Some (3, [1, 2, 3])] \<and> tp_room d 3 \<and> (\<forall>j < tp_n d. 0 \<le> tp_size d j) \<and> 3 \<le> tp_F d - 24 - tp_C d * 8"
proof -
  obtain d where d: "tp_wf d" "tp_n d = 0" "tp_F d = 512" using empty_page_wf by blast
  let ?d = "tp_insert_at d 0 [1, 2, 3]"
  have rm: "int (length [1, 2, 3 :: byte]) + (if 0 = tp_n d then 8 else 0) \<le> tp_F d - 24 - tp_C d * 8"
    using d tp_wfD(2) [OF d(1)] by simp
  have s: "tp_wf ?d" "tp_slots ?d = [Some (3, [1, 2, 3])]"
    using tp_insert_at_slots [OF d(1), of 0 "[1, 2, 3]"] d rm by (simp_all add: tp_slots_def)
  have n: "tp_n ?d = 1" using arg_cong [OF s(2), of length] by simp
  have ne: "[1, 2, 3 :: byte] \<noteq> []" by simp
  note fl = tp_insert_at_fields [OF d(1) le0 ne rm refl]
  have f: "tp_F ?d = 509" "tp_C ?d = 1" "tp_size ?d 0 = 3"
    using fl(3) fl(7) [of 0] d(3) tp_wfD(2) [OF s(1)] n by auto
  have "tp_room ?d 3" unfolding tp_room_def f by simp
  with s n f show ?thesis by (intro exI [of _ ?d]) auto
qed

theorem tp_commit_delete_witness:
  "\<exists>d d1 d2. tp_slots d = [Some (3, [1, 2, 3])] \<and>
    tp_MarkDelete False \<lparr>strict_2PL = True\<rparr> d (rid_make 3 0) (txn_init 0) = Inr (True, d1, txn_init 0) \<and>
    tp_ApplyDelete False d1 (rid_make 3 0) (txn_init 0) = Inr d2 \<and> tp_slots d2 = [None]"
proof -
  obtain d where d: "tp_wf d" "tp_slots d = [Some (3, [1, 2, 3])]" using one_tuple_page by blast
  from tp_commit_delete [OF d(1), of 0 "rid_make 3 0" 3 "[1, 2, 3]" "\<lparr>strict_2PL = True\<rparr>" "txn_init 0"] d(2)
  show ?thesis by (auto simp: rid_make_def)
qed

text \<open>
  C24. On a page without mark-deleted tuples, updating a live tuple returns the old bytes, stores the
  new ones in the same slot and leaves every other slot as it was, whether the tuple grows or
  shrinks.
\<close>

theorem tp_update_exact:
  assumes "tp_wf d" and "k < tp_n d" and "rid_slot rid = int k" and "tp_slot d k = Some (sz, old_bs)" and "0 < sz"
    and "\<forall>j < tp_n d. 0 \<le> tp_size d j" and "tup_size t = int (length (tup_data t))" and "0 < tup_size t"
    and "tup_size t - sz \<le> tp_F d - 24 - tp_C d * 8"
  shows "\<exists>d'. tp_UpdateTuple False lm d t old rid txn = Inr (True,
      \<lparr>allocated = True, tup_rid = rid, tup_size = sz, tup_data = old_bs\<rparr>, d', txn) \<and>
    tp_wf d' \<and> tp_slots d' = (tp_slots d)[k := Some (tup_size t, tup_data t)]"
  using tp_UpdateTuple_slots [OF assms] by blast

theorem tp_update_exact_witness:
  "\<exists>d d' old. tp_slots d = [Some (3, [1, 2, 3])] \<and>
    tp_UpdateTuple False \<lparr>strict_2PL = True\<rparr> d \<lparr>allocated = True, tup_rid = rid_invalid, tup_size = 2, tup_data = [8, 9]\<rparr>
      tuple_dummy (rid_make 3 0) (txn_init 0) = Inr (True, old, d', txn_init 0) \<and>
    tup_data old = [1, 2, 3] \<and> tp_slots d' = [Some (2, [8, 9])]"
proof -
  obtain d where d: "tp_wf d" "tp_slots d = [Some (3, [1, 2, 3])]" "\<forall>j < tp_n d. 0 \<le> tp_size d j"
    "3 \<le> tp_F d - 24 - tp_C d * 8"
    using one_tuple_page by blast
  have n: "tp_n d = 1" using arg_cong [OF d(2), of length] by simp
  then have "tp_slot d 0 = Some (3, [1, 2, 3])" using tp_slots_nth [of 0 d] d(2) by simp
  from tp_update_exact [OF d(1) _ _ this _ d(3), of "rid_make 3 0" "\<lparr>allocated = True, tup_rid = rid_invalid, tup_size = 2, tup_data = [8, 9]\<rparr>"
      "\<lparr>strict_2PL = True\<rparr>" tuple_dummy "txn_init 0"] n d(2,4)
  show ?thesis by (fastforce simp: rid_make_def)
qed

definition sample :: "byte list \<Rightarrow> Tuple" where
  "sample bs = \<lparr>allocated = True, tup_rid = rid_invalid, tup_size = int (length bs), tup_data = bs\<rparr>"

definition update_next_to_marked :: "byte list res" where
  "update_next_to_marked =
     (let lm = \<lparr>strict_2PL = True\<rparr>; txn = txn_init 0 in
      bindE (tp_Init (replicate 512 0) 3 512 (- 1)) (\<lambda>d.
      bindE (tp_InsertTuple False lm d (sample [1, 1, 1, 1]) rid_invalid txn) (\<lambda>(b, r0, d).
      bindE (tp_InsertTuple False lm d (sample [2, 2]) rid_invalid txn) (\<lambda>(b, r1, d).
      bindE (tp_MarkDelete False lm d r1 txn) (\<lambda>(b, d, txn).
      bindE (tp_UpdateTuple False lm d (sample [3, 4, 5, 6, 7, 8]) tuple_dummy r0 txn) (\<lambda>(b, old, d, txn).
      bindE (tp_RollbackDelete False d r1 txn) (\<lambda>d.
      bindE (tp_GetTuple False lm d r1 tuple_dummy txn) (\<lambda>(b, t, txn). ok (tup_data t)))))))))"

text \<open>
  The hypothesis on marked tuples is needed. The loop of \<^verbatim>\<open>UpdateTuple\<close> that corrects the offsets skips mark-deleted tuples although their
  bytes are moved. Here the second of two tuples is marked as deleted, the first is updated to a
  longer one, and the deletion is rolled back: the second tuple is then read as \<open>[3, 4]\<close>, bytes of
  the first, and not as \<open>[2, 2]\<close>.
\<close>

theorem update_next_to_marked_corrupts: "update_next_to_marked = Inr [3, 4]"
  by code_simp

text \<open>
  C25. Iterating over a page from \<^verbatim>\<open>GetFirstTupleRid\<close> with \<^verbatim>\<open>GetNextTupleRid\<close> ends and visits the
  identifiers of exactly the live slots, in increasing order.
\<close>

theorem tp_iteration_complete:
  assumes "tp_wf d"
  shows "bindE (tp_GetFirstTupleRid d r) (tp_walk (tp_n d + 1) d) =
    Inr (map (\<lambda>i. rid_make (fst (tp_links d)) (int i)) (filter (\<lambda>i. 0 < tp_size d i) [0..<tp_n d]))"
  using tp_walk_from [OF assms, of 0 "tp_n d + 1" "rid_make (- 1) (- 1)"]
  by (simp add: tp_GetFirstTupleRid_find [OF assms] find_filter split: list.splits)

theorem tp_iteration_complete_witness:
  "\<exists>d. tp_n d = 1 \<and> bindE (tp_GetFirstTupleRid d rid_invalid) (tp_walk 2 d) = Inr [rid_make (fst (tp_links d)) 0]"
proof -
  obtain d where d: "tp_wf d" "tp_slots d = [Some (3, [1, 2, 3])]" using one_tuple_page by blast
  have n: "tp_n d = 1" using arg_cong [OF d(2), of length] by simp
  then have "tp_slot d 0 = Some (3, [1, 2, 3])" using tp_slots_nth [of 0 d] d(2) by simp
  then have "tp_size d 0 = 3" by (auto simp: tp_slot_def split: if_splits)
  with n tp_iteration_complete [OF d(1), of rid_invalid] show ?thesis
    by (intro exI [of _ d]) (simp add: numeral_2_eq_2)
qed

text \<open>
  With logging on, no insertion ever succeeds: the lock manager refuses every lock, so an
  insertion that finds room stops at the assertion on the exclusive lock.
\<close>

theorem tp_insert_logging_fails:
  "tp_InsertTuple True lm d t rid txn \<noteq> Inr (True, rid', d')"
proof
  assume "tp_InsertTuple True lm d t rid txn = Inr (True, rid', d')"
  then show False
    by (auto simp: tp_InsertTuple_def bindE_eq_Inr LockExclusive_def split: if_splits prod.splits)
qed

end
