(* ===== verification/Type_Value.thy ===== *)
theory Type_Value
  imports Page_Bytes
begin

text \<open>
  The SQL values of \<^verbatim>\<open>type/value.cpp\<close> and the static part of \<^verbatim>\<open>type/type.cpp\<close>: type identifiers, the
  numeric limits with their NULL sentinels, the tagged representation of a \<^verbatim>\<open>Value\<close>, and its
  constructors. The union \<^verbatim>\<open>value_\<close> is a datatype whose constructor is the member written last;
  reading another member is undefined behaviour, as in C++. The variable-length member is the
  array it points to (\<^verbatim>\<open>None\<close> for the null pointer), so the aliasing of unmanaged data is not
  represented.

  Floating-point arithmetic is a parameter: the record \<^verbatim>\<open>cpp\<close> lists the operations on
  \<^verbatim>\<open>double\<close> the code uses, together with the treatment of signed overflow by the compiler
  (wrap-around, or undefined as the C++ standard has it).
\<close>

section \<open>Type identifiers and limits\<close>

datatype TypeId =
    INVALID | BOOLEAN | TINYINT | SMALLINT | INTEGER | BIGINT | DECIMAL | VARCHAR | TIMESTAMP

datatype CmpBool = CMP_FALSE | CMP_TRUE | CMP_NULL

text \<open>The signed integer types of C++ that carry the four SQL integer types.\<close>

datatype ctype = Int8 | Int16 | Int32 | Int64

fun bits :: "ctype \<Rightarrow> nat" where
  "bits Int8 = 8"
| "bits Int16 = 16"
| "bits Int32 = 32"
| "bits Int64 = 64"

fun PELOTON_INT_MIN :: "ctype \<Rightarrow> int" where
  "PELOTON_INT_MIN Int8 = - 127"
| "PELOTON_INT_MIN Int16 = - 32767"
| "PELOTON_INT_MIN Int32 = - 2147483647"
| "PELOTON_INT_MIN Int64 = - 9223372036854775807"

fun PELOTON_INT_MAX :: "ctype \<Rightarrow> int" where
  "PELOTON_INT_MAX Int8 = 127"
| "PELOTON_INT_MAX Int16 = 32767"
| "PELOTON_INT_MAX Int32 = 2147483647"
| "PELOTON_INT_MAX Int64 = 9223372036854775807"

fun PELOTON_INT_NULL :: "ctype \<Rightarrow> int" where
  "PELOTON_INT_NULL Int8 = - 128"
| "PELOTON_INT_NULL Int16 = - 32768"
| "PELOTON_INT_NULL Int32 = - 2147483648"
| "PELOTON_INT_NULL Int64 = - 9223372036854775808"

definition PELOTON_BOOLEAN_NULL :: int where
  "PELOTON_BOOLEAN_NULL = - 128"

definition PELOTON_VALUE_NULL :: "32 word" where
  "PELOTON_VALUE_NULL = 4294967295"

definition PELOTON_VARCHAR_MAX_LEN :: "32 word" where
  "PELOTON_VARCHAR_MAX_LEN = 4294967295"

definition PELOTON_TIMESTAMP_NULL :: "64 word" where
  "PELOTON_TIMESTAMP_NULL = 18446744073709551615"

definition PELOTON_TIMESTAMP_MAX :: "64 word" where
  "PELOTON_TIMESTAMP_MAX = 11231999986399999999"

section \<open>The arithmetic the code relies on\<close>

datatype 'a parsed = Parsed 'a | Parse_Invalid | Parse_Range

record 'd cpp =
  wraps :: bool
  f_add :: "'d \<Rightarrow> 'd \<Rightarrow> 'd"
  f_sub :: "'d \<Rightarrow> 'd \<Rightarrow> 'd"
  f_mul :: "'d \<Rightarrow> 'd \<Rightarrow> 'd"
  f_div :: "'d \<Rightarrow> 'd \<Rightarrow> 'd"
  f_eq :: "'d \<Rightarrow> 'd \<Rightarrow> bool"
  f_lt :: "'d \<Rightarrow> 'd \<Rightarrow> bool"
  f_le :: "'d \<Rightarrow> 'd \<Rightarrow> bool"
  f_trunc :: "'d \<Rightarrow> 'd"
  f_sqrt :: "'d \<Rightarrow> 'd"
  f_of_int :: "int \<Rightarrow> 'd"
  f_to_int :: "'d \<Rightarrow> int option"
  f_to_string :: "'d \<Rightarrow> string"
  f_stod :: "string \<Rightarrow> 'd parsed"
  f_enc :: "'d \<Rightarrow> byte list"
  f_dec :: "byte list \<Rightarrow> 'd"
  DBL_LOWEST :: 'd
  FLT_LOWEST :: 'd
  DBL_MAX :: 'd

text \<open>
  Conversion to a signed type keeps the low bits. Arithmetic on two operands is carried out in
  the wider of their promoted types, at least \<^verbatim>\<open>int\<close>.
\<close>

definition narrow :: "ctype \<Rightarrow> int \<Rightarrow> int" where
  "narrow t z = signed_take_bit (bits t - 1) z"

definition promote :: "ctype \<Rightarrow> ctype \<Rightarrow> ctype" where
  "promote t1 t2 = (if t1 = Int64 \<or> t2 = Int64 then Int64 else Int32)"

definition in_ctype :: "ctype \<Rightarrow> int \<Rightarrow> bool" where
  "in_ctype t z \<longleftrightarrow> PELOTON_INT_NULL t \<le> z \<and> z \<le> PELOTON_INT_MAX t"

definition c_arith :: "bool \<Rightarrow> ctype \<Rightarrow> int \<Rightarrow> int res" where
  "c_arith w t z =
     (if in_ctype t z then ok z else if w then ok (narrow t z) else fail Undefined_Behaviour)"

section \<open>Values\<close>

datatype 'd Val =
    VNone
  | VBoolean "8 word"
  | VTinyint "8 word"
  | VSmallint "16 word"
  | VInteger "32 word"
  | VBigint "64 word"
  | VDecimal 'd
  | VTimestamp "64 word"
  | VVarlen "byte list option"

record 'd Value =
  v_val :: "'d Val"
  v_len :: "32 word"
  v_manage :: bool
  v_type :: TypeId

definition GetCmpBool :: "bool \<Rightarrow> CmpBool" where
  "GetCmpBool b = (if b then CMP_TRUE else CMP_FALSE)"

definition Value_of_type :: "TypeId \<Rightarrow> 'd Value" where
  "Value_of_type ty =
     \<lparr>v_val = VNone, v_len = PELOTON_VALUE_NULL, v_manage = False, v_type = ty\<rparr>"

definition IsNull :: "'d Value \<Rightarrow> bool" where
  "IsNull v \<longleftrightarrow> v_len v = PELOTON_VALUE_NULL"

definition GetTypeId :: "'d Value \<Rightarrow> TypeId" where
  "GetTypeId v = v_type v"

text \<open>\<^verbatim>\<open>GetAs<T>\<close> for a signed integer type, and the same access to a member of the union.\<close>

fun GetAs_int :: "ctype \<Rightarrow> 'd Value \<Rightarrow> int res" where
  "GetAs_int Int8 v =
     (case v_val v of VTinyint w \<Rightarrow> ok (sint w) | VBoolean w \<Rightarrow> ok (sint w)
      | _ \<Rightarrow> fail Undefined_Behaviour)"
| "GetAs_int Int16 v = (case v_val v of VSmallint w \<Rightarrow> ok (sint w) | _ \<Rightarrow> fail Undefined_Behaviour)"
| "GetAs_int Int32 v = (case v_val v of VInteger w \<Rightarrow> ok (sint w) | _ \<Rightarrow> fail Undefined_Behaviour)"
| "GetAs_int Int64 v = (case v_val v of VBigint w \<Rightarrow> ok (sint w) | _ \<Rightarrow> fail Undefined_Behaviour)"

definition GetAs_double :: "'d Value \<Rightarrow> 'd res" where
  "GetAs_double v = (case v_val v of VDecimal d \<Rightarrow> ok d | _ \<Rightarrow> fail Undefined_Behaviour)"

text \<open>A stored member together with the length field that marks NULL.\<close>

definition stored :: "TypeId \<Rightarrow> 'd Val \<Rightarrow> bool \<Rightarrow> 'd Value" where
  "stored ty x isnull =
     (Value_of_type ty) \<lparr>v_val := x, v_len := (if isnull then PELOTON_VALUE_NULL else 0)\<rparr>"

text \<open>
  The switch shared by the four constructors from a signed integer; they differ in the message of
  the default case.
\<close>

definition value_switch :: "string \<Rightarrow> TypeId \<Rightarrow> int \<Rightarrow> 'd Value res" where
  "value_switch msg ty i =
     (case ty of
        BOOLEAN \<Rightarrow> (let w = word_of_int i in ok (stored ty (VBoolean w) (sint w = PELOTON_BOOLEAN_NULL)))
      | TINYINT \<Rightarrow> (let w = word_of_int i in ok (stored ty (VTinyint w) (sint w = PELOTON_INT_NULL Int8)))
      | SMALLINT \<Rightarrow>
          (let w = word_of_int i in ok (stored ty (VSmallint w) (sint w = PELOTON_INT_NULL Int16)))
      | INTEGER \<Rightarrow>
          (let w = word_of_int i in ok (stored ty (VInteger w) (sint w = PELOTON_INT_NULL Int32)))
      | BIGINT \<Rightarrow>
          (let w = word_of_int i in ok (stored ty (VBigint w) (sint w = PELOTON_INT_NULL Int64)))
      | TIMESTAMP \<Rightarrow>
          (let w = word_of_int i in ok (stored ty (VTimestamp w) (w = PELOTON_TIMESTAMP_NULL)))
      | _ \<Rightarrow> fail (Thrown EXCEPTION_TYPE_INCOMPATIBLE_TYPE msg))"

definition Value_int8 :: "TypeId \<Rightarrow> int \<Rightarrow> 'd Value res" where
  "Value_int8 = value_switch ''Invalid Type for one-byte Value constructor''"

definition Value_int16 :: "TypeId \<Rightarrow> int \<Rightarrow> 'd Value res" where
  "Value_int16 = value_switch ''Invalid Type for two-byte Value constructor''"

definition Value_int32 :: "TypeId \<Rightarrow> int \<Rightarrow> 'd Value res" where
  "Value_int32 = value_switch ''Invalid Type for integer Value constructor''"

definition Value_int64 :: "TypeId \<Rightarrow> int \<Rightarrow> 'd Value res" where
  "Value_int64 = value_switch ''Invalid Type for eight-byte Value constructor''"

text \<open>
  The unsigned constructor stores into \<^verbatim>\<open>value_.boolean\<close> when the type is \<^verbatim>\<open>BIGINT\<close>.
\<close>

definition Value_uint64 :: "TypeId \<Rightarrow> 64 word \<Rightarrow> 'd Value res" where
  "Value_uint64 ty i =
     (case ty of
        BIGINT \<Rightarrow> (let w = ucast i in ok (stored ty (VBoolean w) (sint w = PELOTON_BOOLEAN_NULL)))
      | TIMESTAMP \<Rightarrow> ok (stored ty (VTimestamp i) (i = PELOTON_TIMESTAMP_NULL))
      | _ \<Rightarrow> fail (Thrown EXCEPTION_TYPE_INCOMPATIBLE_TYPE ''Invalid Type for timestamp Value constructor''))"

definition Value_double :: "'d cpp \<Rightarrow> TypeId \<Rightarrow> 'd \<Rightarrow> 'd Value res" where
  "Value_double F ty d =
     (case ty of
        DECIMAL \<Rightarrow> ok (stored ty (VDecimal d) (f_eq F d (DBL_LOWEST F)))
      | _ \<Rightarrow> fail (Thrown EXCEPTION_TYPE_INCOMPATIBLE_TYPE ''Invalid Type for double Value constructor''))"

text \<open>The \<^verbatim>\<open>float\<close> argument is given with its conversion to \<^verbatim>\<open>double\<close>.\<close>

definition Value_float :: "'d cpp \<Rightarrow> ('f \<Rightarrow> 'd) \<Rightarrow> TypeId \<Rightarrow> 'f \<Rightarrow> 'd Value res" where
  "Value_float F widen ty f =
     (case ty of
        DECIMAL \<Rightarrow> ok (stored ty (VDecimal (widen f)) (f_eq F (widen f) (DBL_LOWEST F)))
      | _ \<Rightarrow> fail (Thrown EXCEPTION_TYPE_INCOMPATIBLE_TYPE ''Invalid Type for float value constructor''))"

text \<open>\<^verbatim>\<open>memcpy\<close> of the first \<^verbatim>\<open>len\<close> bytes of an array.\<close>

definition copy_bytes :: "byte list \<Rightarrow> 32 word \<Rightarrow> byte list res" where
  "copy_bytes d n = (if unat n \<le> length d then ok (take (unat n) d) else fail Out_Of_Bounds)"

definition Value_varlen :: "TypeId \<Rightarrow> byte list option \<Rightarrow> 32 word \<Rightarrow> bool \<Rightarrow> 'd Value res" where
  "Value_varlen ty data n mng =
     (case ty of
        VARCHAR \<Rightarrow>
          (case data of
             None \<Rightarrow> ok ((Value_of_type ty) \<lparr>v_val := VVarlen None, v_len := PELOTON_VALUE_NULL\<rparr>)
           | Some d \<Rightarrow>
               if mng then
                 bindE (assertE (n < PELOTON_VARCHAR_MAX_LEN)) (\<lambda>_.
                 bindE (copy_bytes d n) (\<lambda>c.
                 ok ((Value_of_type ty) \<lparr>v_val := VVarlen (Some c), v_len := n, v_manage := True\<rparr>)))
               else ok ((Value_of_type ty) \<lparr>v_val := VVarlen (Some d), v_len := n, v_manage := False\<rparr>))
      | _ \<Rightarrow> fail (Thrown EXCEPTION_TYPE_INCOMPATIBLE_TYPE
                ''Invalid Type  for variable-length Value constructor''))"

definition bytes_of_string :: "string \<Rightarrow> byte list" where
  "bytes_of_string s = map of_char s"

definition string_of_bytes :: "byte list \<Rightarrow> string" where
  "string_of_bytes bs = map (\<lambda>b. char_of (unat b)) bs"

text \<open>
  The \<^verbatim>\<open>std::string\<close> constructor copies the terminating zero of \<^verbatim>\<open>c_str()\<close> as well. The length is
  truncated to 32 bits.
\<close>

definition Value_string :: "TypeId \<Rightarrow> string \<Rightarrow> 'd Value res" where
  "Value_string ty s =
     (case ty of
        VARCHAR \<Rightarrow>
          (let n = word_of_nat (length s + 1) in
           ok ((Value_of_type ty)
             \<lparr>v_val := VVarlen (Some (take (unat n) (bytes_of_string s @ [0]))), v_len := n,
              v_manage := True\<rparr>))
      | _ \<Rightarrow> fail (Thrown EXCEPTION_TYPE_INCOMPATIBLE_TYPE
                ''Invalid Type  for variable-length Value constructor''))"

text \<open>The copy constructor duplicates managed data.\<close>

definition Value_copy :: "'d Value \<Rightarrow> 'd Value res" where
  "Value_copy other =
     (case v_type other of
        VARCHAR \<Rightarrow>
          if v_len other = PELOTON_VALUE_NULL then ok (other \<lparr>v_val := VVarlen None\<rparr>)
          else if v_manage other then
            (case v_val other of
               VVarlen (Some d) \<Rightarrow>
                 bindE (copy_bytes d (v_len other)) (\<lambda>c. ok (other \<lparr>v_val := VVarlen (Some c)\<rparr>))
             | VVarlen None \<Rightarrow> fail Null_Deref
             | _ \<Rightarrow> fail Undefined_Behaviour)
          else ok other
      | _ \<Rightarrow> ok other)"

fun CheckComparable :: "'d Value \<Rightarrow> 'd Value \<Rightarrow> bool" where
  "CheckComparable v o' =
     (case v_type v of
        BOOLEAN \<Rightarrow> v_type o' = BOOLEAN \<or> v_type o' = VARCHAR
      | VARCHAR \<Rightarrow> True
      | INVALID \<Rightarrow> False
      | TIMESTAMP \<Rightarrow> False
      | _ \<Rightarrow>
          (case v_type o' of
             INVALID \<Rightarrow> False | BOOLEAN \<Rightarrow> False | TIMESTAMP \<Rightarrow> False | _ \<Rightarrow> True))"

fun CheckInteger :: "'d Value \<Rightarrow> bool" where
  "CheckInteger v =
     (case v_type v of TINYINT \<Rightarrow> True | SMALLINT \<Rightarrow> True | INTEGER \<Rightarrow> True | BIGINT \<Rightarrow> True
      | _ \<Rightarrow> False)"

section \<open>The static operations of \<^verbatim>\<open>Type\<close>\<close>

text \<open>
  \<^verbatim>\<open>kTypes\<close> has fourteen slots and eight initialisers: the slot of \<^verbatim>\<open>TIMESTAMP\<close> is the null pointer.
\<close>

datatype type_object =
    BaseObj | BooleanObj | TinyintObj | SmallintObj | IntegerObj | BigintObj | DecimalObj | VarlenObj

fun kTypes :: "TypeId \<Rightarrow> type_object option" where
  "kTypes INVALID = Some BaseObj"
| "kTypes BOOLEAN = Some BooleanObj"
| "kTypes TINYINT = Some TinyintObj"
| "kTypes SMALLINT = Some SmallintObj"
| "kTypes INTEGER = Some IntegerObj"
| "kTypes BIGINT = Some BigintObj"
| "kTypes DECIMAL = Some DecimalObj"
| "kTypes VARCHAR = Some VarlenObj"
| "kTypes TIMESTAMP = None"

definition GetInstance :: "TypeId \<Rightarrow> type_object res" where
  "GetInstance ty = (case kTypes ty of Some t \<Rightarrow> ok t | None \<Rightarrow> fail Null_Deref)"

fun GetTypeSize :: "TypeId \<Rightarrow> nat res" where
  "GetTypeSize BOOLEAN = ok 1"
| "GetTypeSize TINYINT = ok 1"
| "GetTypeSize SMALLINT = ok 2"
| "GetTypeSize INTEGER = ok 4"
| "GetTypeSize BIGINT = ok 8"
| "GetTypeSize DECIMAL = ok 8"
| "GetTypeSize TIMESTAMP = ok 8"
| "GetTypeSize VARCHAR = ok 0"
| "GetTypeSize INVALID = fail (Thrown EXCEPTION_TYPE_UNKNOWN_TYPE ''Unknown type.'')"

fun IsCoercableFrom :: "TypeId \<Rightarrow> TypeId \<Rightarrow> bool" where
  "IsCoercableFrom self ty =
     (case self of
        INVALID \<Rightarrow> False
      | BOOLEAN \<Rightarrow> True
      | TIMESTAMP \<Rightarrow> ty = VARCHAR \<or> ty = TIMESTAMP
      | VARCHAR \<Rightarrow> (case ty of INVALID \<Rightarrow> False | _ \<Rightarrow> True)
      | _ \<Rightarrow> (case ty of INVALID \<Rightarrow> False | BOOLEAN \<Rightarrow> False | TIMESTAMP \<Rightarrow> False | _ \<Rightarrow> True))"

fun TypeIdToString :: "TypeId \<Rightarrow> string" where
  "TypeIdToString INVALID = ''INVALID''"
| "TypeIdToString BOOLEAN = ''BOOLEAN''"
| "TypeIdToString TINYINT = ''TINYINT''"
| "TypeIdToString SMALLINT = ''SMALLINT''"
| "TypeIdToString INTEGER = ''INTEGER''"
| "TypeIdToString BIGINT = ''BIGINT''"
| "TypeIdToString DECIMAL = ''DECIMAL''"
| "TypeIdToString TIMESTAMP = ''TIMESTAMP''"
| "TypeIdToString VARCHAR = ''VARCHAR''"

fun GetMinValue :: "'d cpp \<Rightarrow> TypeId \<Rightarrow> 'd Value res" where
  "GetMinValue F BOOLEAN = Value_int32 BOOLEAN 0"
| "GetMinValue F TINYINT = Value_int8 TINYINT (PELOTON_INT_MIN Int8)"
| "GetMinValue F SMALLINT = Value_int16 SMALLINT (PELOTON_INT_MIN Int16)"
| "GetMinValue F INTEGER = Value_int32 INTEGER (PELOTON_INT_MIN Int32)"
| "GetMinValue F BIGINT = Value_int64 BIGINT (PELOTON_INT_MIN Int64)"
| "GetMinValue F DECIMAL = Value_double F DECIMAL (FLT_LOWEST F)"
| "GetMinValue F TIMESTAMP = Value_int32 TIMESTAMP 0"
| "GetMinValue F VARCHAR = Value_string VARCHAR ''''"
| "GetMinValue F INVALID = fail (Thrown EXCEPTION_TYPE_MISMATCH_TYPE ''Cannot get minimal value.'')"

fun GetMaxValue :: "'d cpp \<Rightarrow> TypeId \<Rightarrow> 'd Value res" where
  "GetMaxValue F BOOLEAN = Value_int32 BOOLEAN 1"
| "GetMaxValue F TINYINT = Value_int8 TINYINT (PELOTON_INT_MAX Int8)"
| "GetMaxValue F SMALLINT = Value_int16 SMALLINT (PELOTON_INT_MAX Int16)"
| "GetMaxValue F INTEGER = Value_int32 INTEGER (PELOTON_INT_MAX Int32)"
| "GetMaxValue F BIGINT = Value_int64 BIGINT (PELOTON_INT_MAX Int64)"
| "GetMaxValue F DECIMAL = Value_double F DECIMAL (DBL_MAX F)"
| "GetMaxValue F TIMESTAMP = Value_uint64 TIMESTAMP PELOTON_TIMESTAMP_MAX"
| "GetMaxValue F VARCHAR = Value_varlen VARCHAR None 0 False"
| "GetMaxValue F INVALID = fail (Thrown EXCEPTION_TYPE_MISMATCH_TYPE ''Cannot get max value.'')"

end
