(* ===== verification/Type_Text.thy ===== *)
theory Type_Text
  imports Type_Value
begin

text \<open>
  What the value classes use of the standard library and of the memory representation:
  \<^verbatim>\<open>std::to_string\<close>, \<^verbatim>\<open>std::stoi\<close> and \<^verbatim>\<open>std::stoll\<close> on decimal numerals, \<^verbatim>\<open>memcmp\<close>, and the
  little-endian image of an integer of a given number of bytes. The lemmas are the two round
  trips: a printed integer parses to itself, and an integer written to memory reads back modulo
  its width.
\<close>

section \<open>Printing integers\<close>

definition digit_char :: "nat \<Rightarrow> char" where
  "digit_char n = char_of (48 + n)"

fun digits :: "nat \<Rightarrow> string" where
  "digits n = (if n < 10 then [digit_char n] else digits (n div 10) @ [digit_char (n mod 10)])"

declare digits.simps [simp del]

definition to_string :: "int \<Rightarrow> string" where
  "to_string z = (if z < 0 then CHR ''-'' # digits (nat (- z)) else digits (nat z))"

section \<open>Parsing integers\<close>

definition is_space :: "char \<Rightarrow> bool" where
  "is_space c \<longleftrightarrow> of_char c = (32 :: nat) \<or> (9 \<le> (of_char c :: nat) \<and> (of_char c :: nat) \<le> 13)"

definition is_digit :: "char \<Rightarrow> bool" where
  "is_digit c \<longleftrightarrow> 48 \<le> (of_char c :: nat) \<and> (of_char c :: nat) \<le> 57"

definition num_of :: "string \<Rightarrow> int" where
  "num_of ds = foldl (\<lambda>a c. a * 10 + (int (of_char c) - 48)) 0 ds"

definition unsigned_prefix :: "string \<Rightarrow> int option" where
  "unsigned_prefix s = (let ds = takeWhile is_digit s in if ds = [] then None else Some (num_of ds))"

text \<open>
  The number a string starts with, as \<^verbatim>\<open>strtol\<close> finds it in base ten: leading blanks, a sign, then
  the longest run of digits. \<^verbatim>\<open>None\<close> when there is no digit.
\<close>

definition strto :: "string \<Rightarrow> int option" where
  "strto s =
     (case dropWhile is_space s of
        [] \<Rightarrow> None
      | c # cs \<Rightarrow>
          if c = CHR ''-'' then map_option uminus (unsigned_prefix cs)
          else if c = CHR ''+'' then unsigned_prefix cs
          else unsigned_prefix (c # cs))"

definition sto :: "ctype \<Rightarrow> string \<Rightarrow> int parsed" where
  "sto t s =
     (case strto s of None \<Rightarrow> Parse_Invalid
      | Some z \<Rightarrow> if in_ctype t z then Parsed z else Parse_Range)"

definition stoi :: "string \<Rightarrow> int parsed" where
  "stoi = sto Int32"

definition stoll :: "string \<Rightarrow> int parsed" where
  "stoll = sto Int64"

definition to_lower :: "char \<Rightarrow> char" where
  "to_lower c = (let n = of_char c :: nat in if 65 \<le> n \<and> n \<le> 90 then char_of (n + 32) else c)"

section \<open>Memory\<close>

fun le_enc :: "nat \<Rightarrow> int \<Rightarrow> byte list" where
  "le_enc 0 z = []"
| "le_enc (Suc n) z = word_of_int z # le_enc n (z div 256)"

fun le_dec :: "byte list \<Rightarrow> int" where
  "le_dec [] = 0"
| "le_dec (b # bs) = uint b + 256 * le_dec bs"

text \<open>The sign of \<^verbatim>\<open>memcmp\<close> on two blocks of one length.\<close>

fun memcmp :: "byte list \<Rightarrow> byte list \<Rightarrow> int" where
  "memcmp (a # as) (b # bs) = (if a < b then - 1 else if b < a then 1 else memcmp as bs)"
| "memcmp _ _ = 0"

section \<open>Round trips\<close>

lemma of_char_digit [simp]: "n < 10 \<Longrightarrow> of_char (digit_char n) = 48 + n"
  by (simp add: digit_char_def)

lemma digit_char_is_digit: "n < 10 \<Longrightarrow> is_digit (digit_char n)"
  by (simp add: is_digit_def)

lemma digits_all: "c \<in> set (digits n) \<Longrightarrow> is_digit c"
  by (induction n rule: digits.induct)
    (subst (asm) (2) digits.simps, auto simp: digit_char_is_digit split: if_splits)

lemma digits_not_Nil [simp]: "digits n \<noteq> []"
  by (subst digits.simps) simp

lemma num_of_snoc: "num_of (ds @ [c]) = num_of ds * 10 + (int (of_char c) - 48)"
  by (simp add: num_of_def)

lemma num_of_digits: "num_of (digits n) = int n"
proof (induction n rule: digits.induct)
  case (1 n)
  show ?case
  proof (cases "n < 10")
    case True
    then show ?thesis by (subst digits.simps) (simp add: num_of_def)
  next
    case False
    then have "num_of (digits n) = int (n div 10) * 10 + int (n mod 10)"
      using 1 by (subst digits.simps) (simp add: num_of_snoc)
    then show ?thesis
      by (metis div_mult_mod_eq of_nat_add of_nat_mult of_nat_numeral)
  qed
qed

lemma unsigned_prefix_digits: "unsigned_prefix (digits n) = Some (int n)"
proof -
  have "takeWhile is_digit (digits n) = digits n"
    by (simp add: takeWhile_eq_all_conv digits_all)
  then show ?thesis unfolding unsigned_prefix_def by (simp only: Let_def num_of_digits) simp
qed

lemma is_digit_facts:
  assumes "is_digit c"
  shows "\<not> is_space c" and "c \<noteq> CHR ''-''" and "c \<noteq> CHR ''+''"
  using assms by (auto simp: is_digit_def is_space_def)

lemma strto_to_string [simp]: "strto (to_string z) = Some z"
proof (cases "z < 0")
  case True
  have "\<not> is_space (CHR ''-'')" by (simp add: is_space_def)
  with True show ?thesis
    by (simp add: strto_def to_string_def unsigned_prefix_digits)
next
  case False
  obtain c cs where ds: "digits (nat z) = c # cs"
    by (meson digits_not_Nil list.exhaust)
  then have "is_digit c" using digits_all [of c "nat z"] by simp
  then show ?thesis
    using False ds unsigned_prefix_digits [of "nat z"] is_digit_facts [of c]
    by (simp add: strto_def to_string_def)
qed

lemma sto_to_string: "in_ctype t z \<Longrightarrow> sto t (to_string z) = Parsed z"
  by (simp add: sto_def)

lemma to_string_inject: "to_string a = to_string b \<longleftrightarrow> a = b"
  by (metis option.inject strto_to_string)

lemma length_le_enc [simp]: "length (le_enc n z) = n"
  by (induction n arbitrary: z) auto

lemma le_dec_le_enc: "le_dec (le_enc n z) = z mod 256 ^ n"
proof (induction n arbitrary: z)
  case 0
  then show ?case by simp
next
  case (Suc n)
  have "z mod (256 * 256 ^ n) = 256 * (z div 256 mod 256 ^ n) + z mod 256"
    by (rule zmod_zmult2_eq) simp
  then show ?case
    using Suc [of "z div 256"] by (simp add: unsigned_of_int take_bit_eq_mod)
qed

lemma narrow_in_ctype: "in_ctype t z \<Longrightarrow> narrow t z = z"
  by (cases t) (simp_all add: in_ctype_def narrow_def signed_take_bit_int_eq_self)

lemma in_ctype_narrow: "in_ctype t (narrow t z)"
  using signed_take_bit_int_less_exp [of "bits t - 1" z]
    signed_take_bit_int_greater_eq_minus_exp [of "bits t - 1" z]
  by (cases t) (auto simp: in_ctype_def narrow_def)

lemma narrow_mod: "narrow t (z mod 2 ^ bits t) = narrow t z"
proof -
  have "0 < bits t" by (cases t) auto
  then show ?thesis
    by (simp add: narrow_def signed_take_bit_eq_take_bit_shift flip: take_bit_eq_mod)
      (simp add: take_bit_eq_mod mod_simps)
qed

lemma narrow_le_dec_enc:
  "n = bits t div 8 \<Longrightarrow> in_ctype t z \<Longrightarrow> narrow t (le_dec (le_enc n z)) = z"
proof -
  assume n: "n = bits t div 8" and z: "in_ctype t z"
  have "(256 :: int) ^ n = 2 ^ bits t" using n by (cases t) simp_all
  then show ?thesis using z by (simp add: le_dec_le_enc narrow_mod narrow_in_ctype)
qed

lemma memcmp_refl [simp]: "memcmp xs xs = 0"
  by (induction xs) auto

lemma memcmp_anti: "length xs = length ys \<Longrightarrow> memcmp ys xs = - memcmp xs ys"
  by (induction xs ys rule: list_induct2) auto

lemma memcmp_0: "length xs = length ys \<Longrightarrow> memcmp xs ys = 0 \<longleftrightarrow> xs = ys"
  by (induction xs ys rule: list_induct2) auto

lemma bytes_string [simp]: "string_of_bytes (bytes_of_string s) = s"
proof -
  have "char_of (unat (of_char c :: 8 word)) = c" for c
  proof -
    have "unat (word_of_nat (of_char c) :: 8 word) = of_char c"
      using nat_of_char_less_256 [of c] by (simp add: unat_of_nat del: of_nat_of_char)
    then have "unat (of_char c :: 8 word) = (of_char c :: nat)"
      by (simp only: of_nat_of_char)
    then show ?thesis by (simp only: char_of_char)
  qed
  then show ?thesis by (simp add: string_of_bytes_def bytes_of_string_def map_idI)
qed

end
