(* ===== verification/Type_Convert.thy ===== *)
theory Type_Convert
  imports Type_Text
begin

text \<open>
  The conversions of the value classes: printing, copying, serialisation, casts, the zero test and
  the NULL result of an operation. Each class of \<^verbatim>\<open>src/type\<close> contributes one definition per method
  it overrides; the base class \<^verbatim>\<open>Type\<close> raises \<^verbatim>\<open>NotImplementedException\<close>. The operations of
  \<^verbatim>\<open>Value\<close> dispatch on the object \<^verbatim>\<open>kTypes\<close> holds for the value's type. The methods are grouped
  by operation, since the casts of one class call the printing of another through that dispatch.
\<close>

section \<open>Printing\<close>

definition Type_ToString :: "'d Value \<Rightarrow> string res" where
  "Type_ToString v = fail (Thrown EXCEPTION_TYPE_NOT_IMPLEMENTED ''ToString not implemented'')"

definition BooleanType_ToString :: "'d Value \<Rightarrow> string res" where
  "BooleanType_ToString v =
     bindE (GetAs_int Int8 v) (\<lambda>b.
     if b = 1 then ok ''true'' else if b = 0 then ok ''false'' else ok ''boolean_null'')"

definition TinyintType_ToString :: "'d Value \<Rightarrow> string res" where
  "TinyintType_ToString v =
     bindE (assertE (CheckInteger v)) (\<lambda>_.
     if IsNull v then ok ''tinyint_null'' else bindE (GetAs_int Int8 v) (\<lambda>x. ok (to_string x)))"

definition SmallintType_ToString :: "'d Value \<Rightarrow> string res" where
  "SmallintType_ToString v =
     bindE (assertE (CheckInteger v)) (\<lambda>_.
     case v_type v of
       TINYINT \<Rightarrow> if IsNull v then ok ''tinyint_null'' else bindE (GetAs_int Int8 v) (\<lambda>x. ok (to_string x))
     | SMALLINT \<Rightarrow> if IsNull v then ok ''smallint_null'' else bindE (GetAs_int Int16 v) (\<lambda>x. ok (to_string x))
     | INTEGER \<Rightarrow> if IsNull v then ok ''integer_null'' else bindE (GetAs_int Int32 v) (\<lambda>x. ok (to_string x))
     | BIGINT \<Rightarrow> if IsNull v then ok ''bigint_null'' else bindE (GetAs_int Int64 v) (\<lambda>x. ok (to_string x))
     | _ \<Rightarrow> fail (Thrown EXCEPTION_TYPE_INVALID ''type error''))"

definition IntegerType_ToString :: "'d Value \<Rightarrow> string res" where
  "IntegerType_ToString v =
     bindE (assertE (CheckInteger v)) (\<lambda>_.
     if IsNull v then ok ''integer_null'' else bindE (GetAs_int Int32 v) (\<lambda>x. ok (to_string x)))"

definition BigintType_ToString :: "'d Value \<Rightarrow> string res" where
  "BigintType_ToString v =
     bindE (assertE (CheckInteger v)) (\<lambda>_.
     if IsNull v then ok ''bigint_null'' else bindE (GetAs_int Int64 v) (\<lambda>x. ok (to_string x)))"

definition DecimalType_ToString :: "'d cpp \<Rightarrow> 'd Value \<Rightarrow> string res" where
  "DecimalType_ToString F v =
     (if IsNull v then ok ''decimal_null'' else bindE (GetAs_double v) (\<lambda>x. ok (f_to_string F x)))"

definition VarlenType_GetData :: "'d Value \<Rightarrow> byte list option res" where
  "VarlenType_GetData v =
     (case v_val v of VVarlen d \<Rightarrow> ok d | _ \<Rightarrow> fail Undefined_Behaviour)"

definition VarlenType_GetLength :: "'d Value \<Rightarrow> 32 word" where
  "VarlenType_GetLength v = v_len v"

definition VarlenType_ToString :: "'d Value \<Rightarrow> string res" where
  "VarlenType_ToString v =
     (let n = VarlenType_GetLength v in
      if IsNull v then ok ''varlen_null''
      else if n = PELOTON_VARCHAR_MAX_LEN then ok ''varlen_max''
      else if n = 0 then ok ''''
      else bindE (VarlenType_GetData v) (\<lambda>p.
           case p of None \<Rightarrow> fail Null_Deref
           | Some d \<Rightarrow> bindE (copy_bytes d (n - 1)) (\<lambda>c. ok (string_of_bytes c))))"

definition Value_ToString :: "'d cpp \<Rightarrow> 'd Value \<Rightarrow> string res" where
  "Value_ToString F v =
     bindE (GetInstance (v_type v)) (\<lambda>t.
       case t of
          BaseObj \<Rightarrow> Type_ToString v
        | BooleanObj \<Rightarrow> BooleanType_ToString v
        | TinyintObj \<Rightarrow> TinyintType_ToString v
        | SmallintObj \<Rightarrow> SmallintType_ToString v
        | IntegerObj \<Rightarrow> IntegerType_ToString v
        | BigintObj \<Rightarrow> BigintType_ToString v
        | DecimalObj \<Rightarrow> DecimalType_ToString F v
        | VarlenObj \<Rightarrow> VarlenType_ToString v)"

section \<open>Copying\<close>

definition Type_Copy :: "'d Value \<Rightarrow> 'd Value res" where
  "Type_Copy v = fail (Thrown EXCEPTION_TYPE_NOT_IMPLEMENTED ''Copy not implemented'')"

definition BooleanType_Copy :: "'d Value \<Rightarrow> 'd Value res" where
  "BooleanType_Copy v = bindE (GetAs_int Int8 v) (\<lambda>x. Value_int8 BOOLEAN x)"

definition TinyintType_Copy :: "'d Value \<Rightarrow> 'd Value res" where
  "TinyintType_Copy v =
     bindE (assertE (CheckInteger v)) (\<lambda>_. bindE (GetAs_int Int8 v) (\<lambda>x. Value_int8 TINYINT x))"

definition SmallintType_Copy :: "'d Value \<Rightarrow> 'd Value res" where
  "SmallintType_Copy v =
     bindE (assertE (CheckInteger v)) (\<lambda>_. bindE (GetAs_int Int16 v) (\<lambda>x. Value_int16 SMALLINT x))"

definition IntegerType_Copy :: "'d Value \<Rightarrow> 'd Value res" where
  "IntegerType_Copy v =
     bindE (assertE (CheckInteger v)) (\<lambda>_. bindE (GetAs_int Int32 v) (\<lambda>x. Value_int32 (v_type v) x))"

definition BigintType_Copy :: "'d Value \<Rightarrow> 'd Value res" where
  "BigintType_Copy v = bindE (GetAs_int Int64 v) (\<lambda>x. Value_int64 BIGINT x)"

definition DecimalType_Copy :: "'d cpp \<Rightarrow> 'd Value \<Rightarrow> 'd Value res" where
  "DecimalType_Copy F v = bindE (GetAs_double v) (\<lambda>x. Value_double F DECIMAL x)"

definition VarlenType_Copy :: "'d Value \<Rightarrow> 'd Value res" where
  "VarlenType_Copy v = Value_copy v"

definition Value_Copy :: "'d cpp \<Rightarrow> 'd Value \<Rightarrow> 'd Value res" where
  "Value_Copy F v =
     bindE (GetInstance (v_type v)) (\<lambda>t.
       case t of
          BaseObj \<Rightarrow> Type_Copy v
        | BooleanObj \<Rightarrow> BooleanType_Copy v
        | TinyintObj \<Rightarrow> TinyintType_Copy v
        | SmallintObj \<Rightarrow> SmallintType_Copy v
        | IntegerObj \<Rightarrow> IntegerType_Copy v
        | BigintObj \<Rightarrow> BigintType_Copy v
        | DecimalObj \<Rightarrow> DecimalType_Copy F v
        | VarlenObj \<Rightarrow> VarlenType_Copy v)"

section \<open>Raw data\<close>

definition Type_GetData :: "'d Value \<Rightarrow> byte list option res" where
  "Type_GetData v = fail (Thrown EXCEPTION_TYPE_NOT_IMPLEMENTED ''GetData from value not implemented'')"

definition Type_GetLength :: "'d Value \<Rightarrow> 32 word res" where
  "Type_GetLength v = fail (Thrown EXCEPTION_TYPE_NOT_IMPLEMENTED ''GetLength not implemented'')"

definition Value_GetData :: "'d Value \<Rightarrow> byte list option res" where
  "Value_GetData v =
     bindE (GetInstance (v_type v)) (\<lambda>t.
       case t of
          BaseObj \<Rightarrow> Type_GetData v
        | BooleanObj \<Rightarrow> Type_GetData v
        | TinyintObj \<Rightarrow> Type_GetData v
        | SmallintObj \<Rightarrow> Type_GetData v
        | IntegerObj \<Rightarrow> Type_GetData v
        | BigintObj \<Rightarrow> Type_GetData v
        | DecimalObj \<Rightarrow> Type_GetData v
        | VarlenObj \<Rightarrow> VarlenType_GetData v)"

definition Value_GetLength :: "'d Value \<Rightarrow> 32 word res" where
  "Value_GetLength v =
     bindE (GetInstance (v_type v)) (\<lambda>t.
       case t of
          BaseObj \<Rightarrow> Type_GetLength v
        | BooleanObj \<Rightarrow> Type_GetLength v
        | TinyintObj \<Rightarrow> Type_GetLength v
        | SmallintObj \<Rightarrow> Type_GetLength v
        | IntegerObj \<Rightarrow> Type_GetLength v
        | BigintObj \<Rightarrow> Type_GetLength v
        | DecimalObj \<Rightarrow> Type_GetLength v
        | VarlenObj \<Rightarrow> ok (VarlenType_GetLength v))"

section \<open>Serialisation\<close>

text \<open>The storage pointer is a byte list with an offset into it.\<close>

definition Type_SerializeTo :: "'d Value \<Rightarrow> byte list \<Rightarrow> int \<Rightarrow> byte list res" where
  "Type_SerializeTo v d off = fail (Thrown EXCEPTION_TYPE_NOT_IMPLEMENTED ''SerializeTo not implemented'')"

definition BooleanType_SerializeTo :: "'d Value \<Rightarrow> byte list \<Rightarrow> int \<Rightarrow> byte list res" where
  "BooleanType_SerializeTo v d off =
     bindE (GetAs_int Int8 v) (\<lambda>x. wr_bytes d off (le_enc 1 x))"

definition TinyintType_SerializeTo :: "'d Value \<Rightarrow> byte list \<Rightarrow> int \<Rightarrow> byte list res" where
  "TinyintType_SerializeTo v d off =
     bindE (GetAs_int Int8 v) (\<lambda>x. wr_bytes d off (le_enc 1 x))"

definition SmallintType_SerializeTo :: "'d Value \<Rightarrow> byte list \<Rightarrow> int \<Rightarrow> byte list res" where
  "SmallintType_SerializeTo v d off =
     bindE (GetAs_int Int16 v) (\<lambda>x. wr_bytes d off (le_enc 2 x))"

definition IntegerType_SerializeTo :: "'d Value \<Rightarrow> byte list \<Rightarrow> int \<Rightarrow> byte list res" where
  "IntegerType_SerializeTo v d off =
     bindE (GetAs_int Int32 v) (\<lambda>x. wr_bytes d off (le_enc 4 x))"

definition BigintType_SerializeTo :: "'d Value \<Rightarrow> byte list \<Rightarrow> int \<Rightarrow> byte list res" where
  "BigintType_SerializeTo v d off =
     bindE (GetAs_int Int64 v) (\<lambda>x. wr_bytes d off (le_enc 8 x))"

definition DecimalType_SerializeTo :: "'d cpp \<Rightarrow> 'd Value \<Rightarrow> byte list \<Rightarrow> int \<Rightarrow> byte list res" where
  "DecimalType_SerializeTo F v d off =
     bindE (GetAs_double v) (\<lambda>x. wr_bytes d off (f_enc F x))"

definition VarlenType_SerializeTo :: "'d Value \<Rightarrow> byte list \<Rightarrow> int \<Rightarrow> byte list res" where
  "VarlenType_SerializeTo v d off =
     (let n = VarlenType_GetLength v in
      if n = PELOTON_VALUE_NULL then wr_bytes d off (le_enc 4 (uint n))
      else
        bindE (wr_bytes d off (le_enc 4 (uint n))) (\<lambda>d1.
        bindE (VarlenType_GetData v) (\<lambda>p.
        case p of None \<Rightarrow> fail Null_Deref
        | Some s \<Rightarrow> bindE (copy_bytes s n) (\<lambda>c. wr_bytes d1 (off + 4) c))))"

definition Value_SerializeTo :: "'d cpp \<Rightarrow> 'd Value \<Rightarrow> byte list \<Rightarrow> int \<Rightarrow> byte list res" where
  "Value_SerializeTo F v d off =
     bindE (GetInstance (v_type v)) (\<lambda>t.
       case t of
          BaseObj \<Rightarrow> Type_SerializeTo v d off
        | BooleanObj \<Rightarrow> BooleanType_SerializeTo v d off
        | TinyintObj \<Rightarrow> TinyintType_SerializeTo v d off
        | SmallintObj \<Rightarrow> SmallintType_SerializeTo v d off
        | IntegerObj \<Rightarrow> IntegerType_SerializeTo v d off
        | BigintObj \<Rightarrow> BigintType_SerializeTo v d off
        | DecimalObj \<Rightarrow> DecimalType_SerializeTo F v d off
        | VarlenObj \<Rightarrow> VarlenType_SerializeTo v d off)"

definition Type_DeserializeFrom :: "byte list \<Rightarrow> int \<Rightarrow> 'd Value res" where
  "Type_DeserializeFrom d off = fail (Thrown EXCEPTION_TYPE_NOT_IMPLEMENTED ''DeserializeFrom not implemented'')"

definition BooleanType_DeserializeFrom :: "byte list \<Rightarrow> int \<Rightarrow> 'd Value res" where
  "BooleanType_DeserializeFrom d off =
     bindE (rd_bytes d off 1) (\<lambda>bs. Value_int8 BOOLEAN (narrow Int8 (le_dec bs)))"

definition TinyintType_DeserializeFrom :: "byte list \<Rightarrow> int \<Rightarrow> 'd Value res" where
  "TinyintType_DeserializeFrom d off =
     bindE (rd_bytes d off 1) (\<lambda>bs. Value_int8 TINYINT (narrow Int8 (le_dec bs)))"

definition SmallintType_DeserializeFrom :: "byte list \<Rightarrow> int \<Rightarrow> 'd Value res" where
  "SmallintType_DeserializeFrom d off =
     bindE (rd_bytes d off 2) (\<lambda>bs. Value_int16 SMALLINT (narrow Int16 (le_dec bs)))"

definition IntegerType_DeserializeFrom :: "byte list \<Rightarrow> int \<Rightarrow> 'd Value res" where
  "IntegerType_DeserializeFrom d off =
     bindE (rd_bytes d off 4) (\<lambda>bs. Value_int32 INTEGER (narrow Int32 (le_dec bs)))"

definition BigintType_DeserializeFrom :: "byte list \<Rightarrow> int \<Rightarrow> 'd Value res" where
  "BigintType_DeserializeFrom d off =
     bindE (rd_bytes d off 8) (\<lambda>bs. Value_int64 BIGINT (narrow Int64 (le_dec bs)))"

definition DecimalType_DeserializeFrom :: "'d cpp \<Rightarrow> byte list \<Rightarrow> int \<Rightarrow> 'd Value res" where
  "DecimalType_DeserializeFrom F d off =
     bindE (rd_bytes d off 8) (\<lambda>bs. Value_double F DECIMAL (f_dec F bs))"

definition VarlenType_DeserializeFrom :: "byte list \<Rightarrow> int \<Rightarrow> 'd Value res" where
  "VarlenType_DeserializeFrom d off =
     bindE (rd_bytes d off 4) (\<lambda>bs.
     let n = word_of_int (le_dec bs) in
     if n = PELOTON_VALUE_NULL then Value_varlen VARCHAR None n False
     else Value_varlen VARCHAR (Some (drop (nat (off + 4)) d)) n True)"

definition Value_DeserializeFrom :: "'d cpp \<Rightarrow> byte list \<Rightarrow> int \<Rightarrow> TypeId \<Rightarrow> 'd Value res" where
  "Value_DeserializeFrom F d off ty =
     bindE (GetInstance ty) (\<lambda>t.
       case t of
          BaseObj \<Rightarrow> Type_DeserializeFrom d off
        | BooleanObj \<Rightarrow> BooleanType_DeserializeFrom d off
        | TinyintObj \<Rightarrow> TinyintType_DeserializeFrom d off
        | SmallintObj \<Rightarrow> SmallintType_DeserializeFrom d off
        | IntegerObj \<Rightarrow> IntegerType_DeserializeFrom d off
        | BigintObj \<Rightarrow> BigintType_DeserializeFrom d off
        | DecimalObj \<Rightarrow> DecimalType_DeserializeFrom F d off
        | VarlenObj \<Rightarrow> VarlenType_DeserializeFrom d off)"

section \<open>Zero tests and NULL results\<close>

definition Type_IsZero :: "'d Value \<Rightarrow> bool res" where
  "Type_IsZero v = fail (Thrown EXCEPTION_TYPE_NOT_IMPLEMENTED ''isZero not implemented'')"

definition TinyintType_IsZero :: "'d Value \<Rightarrow> bool res" where
  "TinyintType_IsZero v = bindE (GetAs_int Int8 v) (\<lambda>x. ok (x = 0))"

definition SmallintType_IsZero :: "'d Value \<Rightarrow> bool res" where
  "SmallintType_IsZero v = bindE (GetAs_int Int16 v) (\<lambda>x. ok (x = 0))"

definition IntegerType_IsZero :: "'d Value \<Rightarrow> bool res" where
  "IntegerType_IsZero v = bindE (GetAs_int Int32 v) (\<lambda>x. ok (x = 0))"

definition BigintType_IsZero :: "'d Value \<Rightarrow> bool res" where
  "BigintType_IsZero v = bindE (GetAs_int Int64 v) (\<lambda>x. ok (x = 0))"

definition DecimalType_IsZero :: "'d cpp \<Rightarrow> 'd Value \<Rightarrow> bool res" where
  "DecimalType_IsZero F v = bindE (GetAs_double v) (\<lambda>x. ok (f_eq F x (f_of_int F 0)))"

definition Value_IsZero :: "'d cpp \<Rightarrow> 'd Value \<Rightarrow> bool res" where
  "Value_IsZero F v =
     bindE (GetInstance (v_type v)) (\<lambda>t.
       case t of
          BaseObj \<Rightarrow> Type_IsZero v
        | BooleanObj \<Rightarrow> Type_IsZero v
        | TinyintObj \<Rightarrow> TinyintType_IsZero v
        | SmallintObj \<Rightarrow> SmallintType_IsZero v
        | IntegerObj \<Rightarrow> IntegerType_IsZero v
        | BigintObj \<Rightarrow> BigintType_IsZero v
        | DecimalObj \<Rightarrow> DecimalType_IsZero F v
        | VarlenObj \<Rightarrow> Type_IsZero v)"

definition Type_OperateNull :: "'d Value \<Rightarrow> 'd Value \<Rightarrow> 'd Value res" where
  "Type_OperateNull left right = fail (Thrown EXCEPTION_TYPE_NOT_IMPLEMENTED ''OperateNull not implemented'')"

definition TinyintType_OperateNull :: "'d cpp \<Rightarrow> 'd Value \<Rightarrow> 'd Value \<Rightarrow> 'd Value res" where
  "TinyintType_OperateNull F left right =
     (case v_type right of
        TINYINT \<Rightarrow> Value_int8 TINYINT (PELOTON_INT_NULL Int8)
      | SMALLINT \<Rightarrow> Value_int16 SMALLINT (PELOTON_INT_NULL Int16)
      | INTEGER \<Rightarrow> Value_int32 INTEGER (PELOTON_INT_NULL Int32)
      | BIGINT \<Rightarrow> Value_int64 BIGINT (PELOTON_INT_NULL Int64)
      | DECIMAL \<Rightarrow> Value_double F DECIMAL (DBL_LOWEST F)
      | _ \<Rightarrow> fail (Thrown EXCEPTION_TYPE_INVALID ''type error''))"

definition SmallintType_OperateNull :: "'d cpp \<Rightarrow> 'd Value \<Rightarrow> 'd Value \<Rightarrow> 'd Value res" where
  "SmallintType_OperateNull F left right =
     (case v_type right of
        TINYINT \<Rightarrow> Value_int16 SMALLINT (PELOTON_INT_NULL Int16)
      | SMALLINT \<Rightarrow> Value_int16 SMALLINT (PELOTON_INT_NULL Int16)
      | INTEGER \<Rightarrow> Value_int32 INTEGER (PELOTON_INT_NULL Int32)
      | BIGINT \<Rightarrow> Value_int64 BIGINT (PELOTON_INT_NULL Int64)
      | DECIMAL \<Rightarrow> Value_double F DECIMAL (DBL_LOWEST F)
      | _ \<Rightarrow> fail (Thrown EXCEPTION_TYPE_INVALID ''type error''))"

definition IntegerType_OperateNull :: "'d cpp \<Rightarrow> 'd Value \<Rightarrow> 'd Value \<Rightarrow> 'd Value res" where
  "IntegerType_OperateNull F left right =
     (case v_type right of
        TINYINT \<Rightarrow> Value_int32 INTEGER (PELOTON_INT_NULL Int32)
      | SMALLINT \<Rightarrow> Value_int32 INTEGER (PELOTON_INT_NULL Int32)
      | INTEGER \<Rightarrow> Value_int32 INTEGER (PELOTON_INT_NULL Int32)
      | BIGINT \<Rightarrow> Value_int64 BIGINT (PELOTON_INT_NULL Int64)
      | DECIMAL \<Rightarrow> Value_double F DECIMAL (DBL_LOWEST F)
      | _ \<Rightarrow> fail (Thrown EXCEPTION_TYPE_INVALID ''type error''))"

definition BigintType_OperateNull :: "'d cpp \<Rightarrow> 'd Value \<Rightarrow> 'd Value \<Rightarrow> 'd Value res" where
  "BigintType_OperateNull F left right =
     (case v_type right of
        TINYINT \<Rightarrow> Value_int64 BIGINT (PELOTON_INT_NULL Int64)
      | SMALLINT \<Rightarrow> Value_int64 BIGINT (PELOTON_INT_NULL Int64)
      | INTEGER \<Rightarrow> Value_int64 BIGINT (PELOTON_INT_NULL Int64)
      | BIGINT \<Rightarrow> Value_int64 BIGINT (PELOTON_INT_NULL Int64)
      | DECIMAL \<Rightarrow> Value_double F DECIMAL (DBL_LOWEST F)
      | _ \<Rightarrow> fail (Thrown EXCEPTION_TYPE_INVALID ''type error''))"

definition DecimalType_OperateNull :: "'d cpp \<Rightarrow> 'd Value \<Rightarrow> 'd Value \<Rightarrow> 'd Value res" where
  "DecimalType_OperateNull F left right = Value_double F DECIMAL (DBL_LOWEST F)"

definition Value_OperateNull :: "'d cpp \<Rightarrow> 'd Value \<Rightarrow> 'd Value \<Rightarrow> 'd Value res" where
  "Value_OperateNull F v r =
     bindE (GetInstance (v_type v)) (\<lambda>t.
       case t of
          BaseObj \<Rightarrow> Type_OperateNull v r
        | BooleanObj \<Rightarrow> Type_OperateNull v r
        | TinyintObj \<Rightarrow> TinyintType_OperateNull F v r
        | SmallintObj \<Rightarrow> SmallintType_OperateNull F v r
        | IntegerObj \<Rightarrow> IntegerType_OperateNull F v r
        | BigintObj \<Rightarrow> BigintType_OperateNull F v r
        | DecimalObj \<Rightarrow> DecimalType_OperateNull F v r
        | VarlenObj \<Rightarrow> Type_OperateNull v r)"

section \<open>Casts\<close>

definition Type_CastAs :: "'d Value \<Rightarrow> TypeId \<Rightarrow> 'd Value res" where
  "Type_CastAs v ty = fail (Thrown EXCEPTION_TYPE_NOT_IMPLEMENTED ''CastAs not implemented'')"

definition BooleanType_CastAs :: "'d cpp \<Rightarrow> 'd Value \<Rightarrow> TypeId \<Rightarrow> 'd Value res" where
  "BooleanType_CastAs F v ty =
     (case ty of
        BOOLEAN \<Rightarrow> BooleanType_Copy v
      | VARCHAR \<Rightarrow>
          if IsNull v then Value_varlen VARCHAR None 0 False
          else bindE (Value_ToString F v) (\<lambda>s. Value_string VARCHAR s)
      | _ \<Rightarrow> fail (Thrown EXCEPTION_TYPE_INVALID (''BOOLEAN is not coercable to '' @ TypeIdToString ty)))"

definition TinyintType_CastAs :: "'d cpp \<Rightarrow> 'd Value \<Rightarrow> TypeId \<Rightarrow> 'd Value res" where
  "TinyintType_CastAs F v ty =
     (case ty of
        TINYINT \<Rightarrow>
          if IsNull v then Value_int8 ty (PELOTON_INT_NULL Int8)
          else TinyintType_Copy v
      | SMALLINT \<Rightarrow>
          if IsNull v then Value_int16 ty (PELOTON_INT_NULL Int16)
          else bindE (GetAs_int Int8 v) (\<lambda>x. Value_int16 ty x)
      | INTEGER \<Rightarrow>
          if IsNull v then Value_int32 ty (PELOTON_INT_NULL Int32)
          else bindE (GetAs_int Int8 v) (\<lambda>x. Value_int32 ty x)
      | BIGINT \<Rightarrow>
          if IsNull v then Value_int64 ty (PELOTON_INT_NULL Int64)
          else bindE (GetAs_int Int8 v) (\<lambda>x. Value_int64 ty x)
      | DECIMAL \<Rightarrow>
          if IsNull v then Value_double F ty (DBL_LOWEST F)
          else bindE (GetAs_int Int8 v) (\<lambda>x. Value_double F ty (f_of_int F x))
      | VARCHAR \<Rightarrow>
          if IsNull v then Value_varlen VARCHAR None 0 False
          else bindE (Value_ToString F v) (\<lambda>s. Value_string VARCHAR s)
      | _ \<Rightarrow> fail (Thrown EXCEPTION_TYPE_INVALID (''tinyint is not coercable to '' @ TypeIdToString ty)))"

definition SmallintType_CastAs :: "'d cpp \<Rightarrow> 'd Value \<Rightarrow> TypeId \<Rightarrow> 'd Value res" where
  "SmallintType_CastAs F v ty =
     (case ty of
        TINYINT \<Rightarrow>
          if IsNull v then Value_int8 ty (PELOTON_INT_NULL Int8)
          else bindE (GetAs_int Int16 v) (\<lambda>x.
            if x > PELOTON_INT_MAX Int8 \<or> x < PELOTON_INT_MIN Int8
            then fail (Thrown EXCEPTION_TYPE_OUT_OF_RANGE ''Numeric value out of range.'')
            else Value_int8 ty (narrow Int8 x))
      | SMALLINT \<Rightarrow>
          if IsNull v then Value_int16 ty (PELOTON_INT_NULL Int16)
          else SmallintType_Copy v
      | INTEGER \<Rightarrow>
          if IsNull v then Value_int32 ty (PELOTON_INT_NULL Int32)
          else bindE (GetAs_int Int16 v) (\<lambda>x. Value_int32 ty x)
      | BIGINT \<Rightarrow>
          if IsNull v then Value_int64 ty (PELOTON_INT_NULL Int64)
          else bindE (GetAs_int Int16 v) (\<lambda>x. Value_int64 ty x)
      | DECIMAL \<Rightarrow>
          if IsNull v then Value_double F ty (DBL_LOWEST F)
          else bindE (GetAs_int Int16 v) (\<lambda>x. Value_double F ty (f_of_int F x))
      | VARCHAR \<Rightarrow>
          if IsNull v then Value_varlen VARCHAR None 0 False
          else bindE (Value_ToString F v) (\<lambda>s. Value_string VARCHAR s)
      | _ \<Rightarrow> fail (Thrown EXCEPTION_TYPE_INVALID (''smallint is not coercable to '' @ TypeIdToString ty)))"

definition IntegerType_CastAs :: "'d cpp \<Rightarrow> 'd Value \<Rightarrow> TypeId \<Rightarrow> 'd Value res" where
  "IntegerType_CastAs F v ty =
     (case ty of
        TINYINT \<Rightarrow>
          if IsNull v then Value_int8 ty (PELOTON_INT_NULL Int8)
          else bindE (GetAs_int Int32 v) (\<lambda>x.
            if x > PELOTON_INT_MAX Int8 \<or> x < PELOTON_INT_MIN Int8
            then fail (Thrown EXCEPTION_TYPE_OUT_OF_RANGE ''Numeric value out of range.'')
            else Value_int8 ty (narrow Int8 x))
      | SMALLINT \<Rightarrow>
          if IsNull v then Value_int16 ty (PELOTON_INT_NULL Int16)
          else bindE (GetAs_int Int32 v) (\<lambda>x.
            if x > PELOTON_INT_MAX Int16 \<or> x < PELOTON_INT_MIN Int16
            then fail (Thrown EXCEPTION_TYPE_OUT_OF_RANGE ''Numeric value out of range.'')
            else Value_int16 ty (narrow Int16 x))
      | INTEGER \<Rightarrow>
          if IsNull v then Value_int32 ty (PELOTON_INT_NULL Int32)
          else bindE (GetAs_int Int32 v) (\<lambda>x. Value_int32 ty x)
      | BIGINT \<Rightarrow>
          if IsNull v then Value_int64 ty (PELOTON_INT_NULL Int64)
          else bindE (GetAs_int Int32 v) (\<lambda>x. Value_int64 ty x)
      | DECIMAL \<Rightarrow>
          if IsNull v then Value_double F ty (DBL_LOWEST F)
          else bindE (GetAs_int Int32 v) (\<lambda>x. Value_double F ty (f_of_int F x))
      | VARCHAR \<Rightarrow>
          if IsNull v then Value_varlen VARCHAR None 0 False
          else bindE (Value_ToString F v) (\<lambda>s. Value_string VARCHAR s)
      | _ \<Rightarrow> fail (Thrown EXCEPTION_TYPE_INVALID (''Integer is not coercable to '' @ TypeIdToString ty)))"

definition BigintType_CastAs :: "'d cpp \<Rightarrow> 'd Value \<Rightarrow> TypeId \<Rightarrow> 'd Value res" where
  "BigintType_CastAs F v ty =
     (case ty of
        TINYINT \<Rightarrow>
          if IsNull v then Value_int8 ty (PELOTON_INT_NULL Int8)
          else bindE (GetAs_int Int64 v) (\<lambda>x.
            if x > PELOTON_INT_MAX Int8 \<or> x < PELOTON_INT_MIN Int8
            then fail (Thrown EXCEPTION_TYPE_OUT_OF_RANGE ''Numeric value out of range.'')
            else Value_int8 ty (narrow Int8 x))
      | SMALLINT \<Rightarrow>
          if IsNull v then Value_int16 ty (PELOTON_INT_NULL Int16)
          else bindE (GetAs_int Int64 v) (\<lambda>x.
            if x > PELOTON_INT_MAX Int16 \<or> x < PELOTON_INT_MIN Int16
            then fail (Thrown EXCEPTION_TYPE_OUT_OF_RANGE ''Numeric value out of range.'')
            else Value_int16 ty (narrow Int16 x))
      | INTEGER \<Rightarrow>
          if IsNull v then Value_int32 ty (PELOTON_INT_NULL Int32)
          else bindE (GetAs_int Int64 v) (\<lambda>x.
            if x > PELOTON_INT_MAX Int32 \<or> x < PELOTON_INT_MIN Int32
            then fail (Thrown EXCEPTION_TYPE_OUT_OF_RANGE ''Numeric value out of range.'')
            else Value_int32 ty (narrow Int32 x))
      | BIGINT \<Rightarrow>
          if IsNull v then Value_int64 ty (PELOTON_INT_NULL Int64)
          else BigintType_Copy v
      | DECIMAL \<Rightarrow>
          if IsNull v then Value_double F ty (DBL_LOWEST F)
          else bindE (GetAs_int Int64 v) (\<lambda>x. Value_double F ty (f_of_int F x))
      | VARCHAR \<Rightarrow>
          if IsNull v then Value_varlen VARCHAR None 0 False
          else bindE (Value_ToString F v) (\<lambda>s. Value_string VARCHAR s)
      | _ \<Rightarrow> fail (Thrown EXCEPTION_TYPE_INVALID (''bigint is not coercable to '' @ TypeIdToString ty)))"

text \<open>Conversion of a \<^verbatim>\<open>double\<close> to a signed type, undefined when its integral part does not fit.\<close>

definition c_to_int :: "'d cpp \<Rightarrow> ctype \<Rightarrow> 'd \<Rightarrow> int res" where
  "c_to_int F t x =
     (case f_to_int F x of
        None \<Rightarrow> fail Undefined_Behaviour
      | Some z \<Rightarrow> if in_ctype t z then ok z else fail Undefined_Behaviour)"

definition DecimalType_CastAs :: "'d cpp \<Rightarrow> 'd Value \<Rightarrow> TypeId \<Rightarrow> 'd Value res" where
  "DecimalType_CastAs F v ty =
     (case ty of
        TINYINT \<Rightarrow>
          if IsNull v then Value_int8 ty (PELOTON_INT_NULL Int8)
          else bindE (GetAs_double v) (\<lambda>x.
            if f_lt F (f_of_int F (PELOTON_INT_MAX Int8)) x \<or> f_lt F x (f_of_int F (PELOTON_INT_MIN Int8))
            then fail (Thrown EXCEPTION_TYPE_OUT_OF_RANGE ''Numeric value out of range.'')
            else bindE (c_to_int F Int8 x) (\<lambda>z. Value_int8 ty z))
      | SMALLINT \<Rightarrow>
          if IsNull v then Value_int16 ty (PELOTON_INT_NULL Int16)
          else bindE (GetAs_double v) (\<lambda>x.
            if f_lt F (f_of_int F (PELOTON_INT_MAX Int16)) x \<or> f_lt F x (f_of_int F (PELOTON_INT_MIN Int16))
            then fail (Thrown EXCEPTION_TYPE_OUT_OF_RANGE ''Numeric value out of range.'')
            else bindE (c_to_int F Int16 x) (\<lambda>z. Value_int16 ty z))
      | INTEGER \<Rightarrow>
          if IsNull v then Value_int32 ty (PELOTON_INT_NULL Int32)
          else bindE (GetAs_double v) (\<lambda>x.
            if f_lt F (f_of_int F (PELOTON_INT_MAX Int32)) x \<or> f_lt F x (f_of_int F (PELOTON_INT_MIN Int32))
            then fail (Thrown EXCEPTION_TYPE_OUT_OF_RANGE ''Numeric value out of range.'')
            else bindE (c_to_int F Int32 x) (\<lambda>z. Value_int32 ty z))
      | BIGINT \<Rightarrow>
          if IsNull v then Value_int64 ty (PELOTON_INT_NULL Int64)
          else bindE (GetAs_double v) (\<lambda>x.
            if f_lt F (f_of_int F (PELOTON_INT_MAX Int64)) x \<or> f_lt F x (f_of_int F (PELOTON_INT_MIN Int64))
            then fail (Thrown EXCEPTION_TYPE_OUT_OF_RANGE ''Numeric value out of range.'')
            else bindE (c_to_int F Int64 x) (\<lambda>z. Value_int64 ty z))
      | DECIMAL \<Rightarrow> Value_Copy F v
      | VARCHAR \<Rightarrow>
          if IsNull v then Value_varlen VARCHAR None 0 False
          else bindE (Value_ToString F v) (\<lambda>s. Value_string VARCHAR s)
      | _ \<Rightarrow> fail (Thrown EXCEPTION_TYPE_INVALID (''DECIMAL is not coercable to '' @ TypeIdToString ty)))"

text \<open>
  The numeric casts of a string: \<^verbatim>\<open>std::out_of_range\<close> is caught and raised again as an
  \<^verbatim>\<open>Exception\<close>, \<^verbatim>\<open>std::invalid_argument\<close> is not caught.
\<close>

definition parse_number :: "string \<Rightarrow> 'a parsed \<Rightarrow> 'a res" where
  "parse_number fn p =
     (case p of
        Parsed z \<Rightarrow> ok z
      | Parse_Invalid \<Rightarrow> fail (Std_Exception fn)
      | Parse_Range \<Rightarrow> fail (Thrown EXCEPTION_TYPE_OUT_OF_RANGE ''Numeric value out of range.''))"

definition VarlenType_CastAs :: "'d cpp \<Rightarrow> 'd Value \<Rightarrow> TypeId \<Rightarrow> 'd Value res" where
  "VarlenType_CastAs F v ty =
     (case ty of
        BOOLEAN \<Rightarrow>
          bindE (Value_ToString F v) (\<lambda>s0. let s = map to_lower s0 in
            if s = ''true'' \<or> s = ''1'' \<or> s = ''t'' then Value_int32 ty 1
            else if s = ''false'' \<or> s = ''0'' \<or> s = ''f'' then Value_int32 ty 0
            else fail (Thrown EXCEPTION_TYPE_INVALID ''Boolean value format error.''))
      | TINYINT \<Rightarrow>
          bindE (Value_ToString F v) (\<lambda>s.
          bindE (parse_number ''stoi'' (stoi s)) (\<lambda>i. let x = narrow Int8 i in
            if x < PELOTON_INT_MIN Int8
            then fail (Thrown EXCEPTION_TYPE_OUT_OF_RANGE ''Numeric value out of range.'')
            else Value_int8 ty x))
      | SMALLINT \<Rightarrow>
          bindE (Value_ToString F v) (\<lambda>s.
          bindE (parse_number ''stoi'' (stoi s)) (\<lambda>i. let x = narrow Int16 i in
            if x < PELOTON_INT_MIN Int16
            then fail (Thrown EXCEPTION_TYPE_OUT_OF_RANGE ''Numeric value out of range.'')
            else Value_int16 ty x))
      | INTEGER \<Rightarrow>
          bindE (Value_ToString F v) (\<lambda>s.
          bindE (parse_number ''stoi'' (stoi s)) (\<lambda>x.
            if x > PELOTON_INT_MAX Int32 \<or> x < PELOTON_INT_MIN Int32
            then fail (Thrown EXCEPTION_TYPE_OUT_OF_RANGE ''Numeric value out of range.'')
            else Value_int32 ty x))
      | BIGINT \<Rightarrow>
          bindE (Value_ToString F v) (\<lambda>s.
          bindE (parse_number ''stoll'' (stoll s)) (\<lambda>x.
            if x > PELOTON_INT_MAX Int64 \<or> x < PELOTON_INT_MIN Int64
            then fail (Thrown EXCEPTION_TYPE_OUT_OF_RANGE ''Numeric value out of range.'')
            else Value_int64 ty x))
      | DECIMAL \<Rightarrow>
          bindE (Value_ToString F v) (\<lambda>s.
          bindE (parse_number ''stod'' (f_stod F s)) (\<lambda>x.
            if f_lt F (DBL_MAX F) x \<or> f_lt F x (FLT_LOWEST F)
            then fail (Thrown EXCEPTION_TYPE_OUT_OF_RANGE ''Numeric value out of range.'')
            else Value_double F ty x))
      | VARCHAR \<Rightarrow> Value_Copy F v
      | _ \<Rightarrow> fail (Thrown EXCEPTION_TYPE_INVALID (''VARCHAR is not coercable to '' @ TypeIdToString ty)))"

definition Value_CastAs :: "'d cpp \<Rightarrow> 'd Value \<Rightarrow> TypeId \<Rightarrow> 'd Value res" where
  "Value_CastAs F v ty =
     bindE (GetInstance (v_type v)) (\<lambda>t.
       case t of
          BaseObj \<Rightarrow> Type_CastAs v ty
        | BooleanObj \<Rightarrow> BooleanType_CastAs F v ty
        | TinyintObj \<Rightarrow> TinyintType_CastAs F v ty
        | SmallintObj \<Rightarrow> SmallintType_CastAs F v ty
        | IntegerObj \<Rightarrow> IntegerType_CastAs F v ty
        | BigintObj \<Rightarrow> BigintType_CastAs F v ty
        | DecimalObj \<Rightarrow> DecimalType_CastAs F v ty
        | VarlenObj \<Rightarrow> VarlenType_CastAs F v ty)"

end
