(* ===== verification/Type_Compare.thy ===== *)
theory Type_Compare
  imports Type_Convert
begin

text \<open>
  The six comparisons of every value class. The comparison macros of the sources are definitions
  that take the operator: \<^verbatim>\<open>cmpop\<close> names it, \<^verbatim>\<open>int_op\<close> and \<^verbatim>\<open>dbl_op\<close> apply it to integers (in
  their promoted type, where it is exact) and to doubles. A string compared with a number is cast
  first; a comparison with NULL is \<^verbatim>\<open>CMP_NULL\<close>.
\<close>

datatype cmpop = OpEq | OpNe | OpLt | OpLe | OpGt | OpGe

fun int_op :: "cmpop \<Rightarrow> int \<Rightarrow> int \<Rightarrow> bool" where
  "int_op OpEq x y = (x = y)"
| "int_op OpNe x y = (x \<noteq> y)"
| "int_op OpLt x y = (x < y)"
| "int_op OpLe x y = (x \<le> y)"
| "int_op OpGt x y = (x > y)"
| "int_op OpGe x y = (x \<ge> y)"

fun dbl_op :: "'d cpp \<Rightarrow> cmpop \<Rightarrow> 'd \<Rightarrow> 'd \<Rightarrow> bool" where
  "dbl_op F OpEq x y = f_eq F x y"
| "dbl_op F OpNe x y = (\<not> f_eq F x y)"
| "dbl_op F OpLt x y = f_lt F x y"
| "dbl_op F OpLe x y = f_le F x y"
| "dbl_op F OpGt x y = f_lt F y x"
| "dbl_op F OpGe x y = f_le F y x"

section \<open>The comparison macros\<close>

definition BOOLEAN_COMPARE_FUNC :: "'d cpp \<Rightarrow> cmpop \<Rightarrow> 'd Value \<Rightarrow> 'd Value \<Rightarrow> CmpBool res" where
  "BOOLEAN_COMPARE_FUNC F oper left right =
     bindE (GetAs_int Int8 left) (\<lambda>x.
     bindE (Value_CastAs F right BOOLEAN) (\<lambda>r_value.
     bindE (GetAs_int Int8 r_value) (\<lambda>y. ok (GetCmpBool (int_op oper x y)))))"

definition TINYINT_COMPARE_FUNC :: "'d cpp \<Rightarrow> cmpop \<Rightarrow> 'd Value \<Rightarrow> 'd Value \<Rightarrow> CmpBool res" where
  "TINYINT_COMPARE_FUNC F oper left right =
     bindE (GetAs_int Int8 left) (\<lambda>x.
     case v_type right of
         TINYINT \<Rightarrow> bindE (GetAs_int Int8 right) (\<lambda>y. ok (GetCmpBool (int_op oper x y)))
       | SMALLINT \<Rightarrow> bindE (GetAs_int Int16 right) (\<lambda>y. ok (GetCmpBool (int_op oper x y)))
       | INTEGER \<Rightarrow> bindE (GetAs_int Int32 right) (\<lambda>y. ok (GetCmpBool (int_op oper x y)))
       | BIGINT \<Rightarrow> bindE (GetAs_int Int64 right) (\<lambda>y. ok (GetCmpBool (int_op oper x y)))
       | DECIMAL \<Rightarrow> bindE (GetAs_double right) (\<lambda>y. ok (GetCmpBool (dbl_op F oper (f_of_int F x) y)))
       | VARCHAR \<Rightarrow>
           bindE (Value_CastAs F right TINYINT) (\<lambda>r_value.
           bindE (GetAs_int Int8 r_value) (\<lambda>y. ok (GetCmpBool (int_op oper x y))))
       | _ \<Rightarrow> fail (Thrown EXCEPTION_TYPE_INVALID ''type error''))"

definition SMALLINT_COMPARE_FUNC :: "'d cpp \<Rightarrow> cmpop \<Rightarrow> 'd Value \<Rightarrow> 'd Value \<Rightarrow> CmpBool res" where
  "SMALLINT_COMPARE_FUNC F oper left right =
     bindE (GetAs_int Int16 left) (\<lambda>x.
     case v_type right of
         TINYINT \<Rightarrow> bindE (GetAs_int Int8 right) (\<lambda>y. ok (GetCmpBool (int_op oper x y)))
       | SMALLINT \<Rightarrow> bindE (GetAs_int Int16 right) (\<lambda>y. ok (GetCmpBool (int_op oper x y)))
       | INTEGER \<Rightarrow> bindE (GetAs_int Int32 right) (\<lambda>y. ok (GetCmpBool (int_op oper x y)))
       | BIGINT \<Rightarrow> bindE (GetAs_int Int64 right) (\<lambda>y. ok (GetCmpBool (int_op oper x y)))
       | DECIMAL \<Rightarrow> bindE (GetAs_double right) (\<lambda>y. ok (GetCmpBool (dbl_op F oper (f_of_int F x) y)))
       | VARCHAR \<Rightarrow>
           bindE (Value_CastAs F right SMALLINT) (\<lambda>r_value.
           bindE (GetAs_int Int16 r_value) (\<lambda>y. ok (GetCmpBool (int_op oper x y))))
       | _ \<Rightarrow> fail (Thrown EXCEPTION_TYPE_INVALID ''type error''))"

definition INT_COMPARE_FUNC :: "'d cpp \<Rightarrow> cmpop \<Rightarrow> 'd Value \<Rightarrow> 'd Value \<Rightarrow> CmpBool res" where
  "INT_COMPARE_FUNC F oper left right =
     bindE (GetAs_int Int32 left) (\<lambda>x.
     case v_type right of
         TINYINT \<Rightarrow> bindE (GetAs_int Int8 right) (\<lambda>y. ok (GetCmpBool (int_op oper x y)))
       | SMALLINT \<Rightarrow> bindE (GetAs_int Int16 right) (\<lambda>y. ok (GetCmpBool (int_op oper x y)))
       | INTEGER \<Rightarrow> bindE (GetAs_int Int32 right) (\<lambda>y. ok (GetCmpBool (int_op oper x y)))
       | BIGINT \<Rightarrow> bindE (GetAs_int Int64 right) (\<lambda>y. ok (GetCmpBool (int_op oper x y)))
       | DECIMAL \<Rightarrow> bindE (GetAs_double right) (\<lambda>y. ok (GetCmpBool (dbl_op F oper (f_of_int F x) y)))
       | VARCHAR \<Rightarrow>
           bindE (Value_CastAs F right INTEGER) (\<lambda>r_value.
           bindE (GetAs_int Int32 r_value) (\<lambda>y. ok (GetCmpBool (int_op oper x y))))
       | _ \<Rightarrow> fail (Thrown EXCEPTION_TYPE_INVALID ''type error''))"

definition BIGINT_COMPARE_FUNC :: "'d cpp \<Rightarrow> cmpop \<Rightarrow> 'd Value \<Rightarrow> 'd Value \<Rightarrow> CmpBool res" where
  "BIGINT_COMPARE_FUNC F oper left right =
     bindE (GetAs_int Int64 left) (\<lambda>x.
     case v_type right of
         TINYINT \<Rightarrow> bindE (GetAs_int Int8 right) (\<lambda>y. ok (GetCmpBool (int_op oper x y)))
       | SMALLINT \<Rightarrow> bindE (GetAs_int Int16 right) (\<lambda>y. ok (GetCmpBool (int_op oper x y)))
       | INTEGER \<Rightarrow> bindE (GetAs_int Int32 right) (\<lambda>y. ok (GetCmpBool (int_op oper x y)))
       | BIGINT \<Rightarrow> bindE (GetAs_int Int64 right) (\<lambda>y. ok (GetCmpBool (int_op oper x y)))
       | DECIMAL \<Rightarrow> bindE (GetAs_double right) (\<lambda>y. ok (GetCmpBool (dbl_op F oper (f_of_int F x) y)))
       | VARCHAR \<Rightarrow>
           bindE (Value_CastAs F right BIGINT) (\<lambda>r_value.
           bindE (GetAs_int Int64 r_value) (\<lambda>y. ok (GetCmpBool (int_op oper x y))))
       | _ \<Rightarrow> fail (Thrown EXCEPTION_TYPE_INVALID ''type error''))"

definition DECIMAL_COMPARE_FUNC :: "'d cpp \<Rightarrow> cmpop \<Rightarrow> 'd Value \<Rightarrow> 'd Value \<Rightarrow> CmpBool res" where
  "DECIMAL_COMPARE_FUNC F oper left right =
     bindE (GetAs_double left) (\<lambda>x.
     case v_type right of
         TINYINT \<Rightarrow> bindE (GetAs_int Int8 right) (\<lambda>y. ok (GetCmpBool (dbl_op F oper x (f_of_int F y))))
       | SMALLINT \<Rightarrow> bindE (GetAs_int Int16 right) (\<lambda>y. ok (GetCmpBool (dbl_op F oper x (f_of_int F y))))
       | INTEGER \<Rightarrow> bindE (GetAs_int Int32 right) (\<lambda>y. ok (GetCmpBool (dbl_op F oper x (f_of_int F y))))
       | BIGINT \<Rightarrow> bindE (GetAs_int Int64 right) (\<lambda>y. ok (GetCmpBool (dbl_op F oper x (f_of_int F y))))
       | DECIMAL \<Rightarrow> bindE (GetAs_double right) (\<lambda>y. ok (GetCmpBool (dbl_op F oper x y)))
       | VARCHAR \<Rightarrow>
           bindE (Value_CastAs F right DECIMAL) (\<lambda>r_value.
           bindE (GetAs_double r_value) (\<lambda>y. ok (GetCmpBool (dbl_op F oper x y))))
       | _ \<Rightarrow> fail (Thrown EXCEPTION_TYPE_INVALID ''type error''))"

text \<open>
  \<^verbatim>\<open>TypeUtil::CompareStrings\<close> takes the lengths as \<^verbatim>\<open>int\<close>: the conversion of the unsigned
  \<^verbatim>\<open>GetLength - 1\<close> is the signed reading of the word.
\<close>

definition CompareStrings ::
  "byte list option \<Rightarrow> 32 word \<Rightarrow> byte list option \<Rightarrow> 32 word \<Rightarrow> int res" where
  "CompareStrings str1 n1 str2 n2 =
     bindE (assertE (str1 \<noteq> None)) (\<lambda>_.
     bindE (assertE (0 \<le> sint n1)) (\<lambda>_.
     bindE (assertE (str2 \<noteq> None)) (\<lambda>_.
     bindE (assertE (0 \<le> sint n2)) (\<lambda>_.
     let m = word_of_int (min (sint n1) (sint n2)) in
     bindE (copy_bytes (the str1) m) (\<lambda>a.
     bindE (copy_bytes (the str2) m) (\<lambda>b.
     let ret = memcmp a b in
     ok (if ret = 0 \<and> sint n1 \<noteq> sint n2 then sint n1 - sint n2 else ret)))))))"

definition VARLEN_COMPARE_FUNC :: "'d cpp \<Rightarrow> cmpop \<Rightarrow> 'd Value \<Rightarrow> 'd Value \<Rightarrow> CmpBool res" where
  "VARLEN_COMPARE_FUNC F oper left right =
     bindE (Value_GetData left) (\<lambda>str1. let len1 = VarlenType_GetLength left - 1 in
     if v_type right = VARCHAR then
       bindE (Value_GetData right) (\<lambda>str2. let len2 = VarlenType_GetLength right - 1 in
       bindE (CompareStrings str1 len1 str2 len2) (\<lambda>c. ok (GetCmpBool (int_op oper c 0))))
     else
       bindE (Value_CastAs F right VARCHAR) (\<lambda>r_value.
       bindE (Value_GetData r_value) (\<lambda>str2. let len2 = VarlenType_GetLength r_value - 1 in
       bindE (CompareStrings str1 len1 str2 len2) (\<lambda>c. ok (GetCmpBool (int_op oper c 0))))))"

section \<open>\<^verbatim>\<open>CompareEquals\<close>\<close>

definition Type_CompareEquals :: "'d Value \<Rightarrow> 'd Value \<Rightarrow> CmpBool res" where
  "Type_CompareEquals left right = fail (Thrown EXCEPTION_TYPE_NOT_IMPLEMENTED ''CompareEquals not implemented'')"

definition BooleanType_CompareEquals :: "'d cpp \<Rightarrow> 'd Value \<Rightarrow> 'd Value \<Rightarrow> CmpBool res" where
  "BooleanType_CompareEquals F left right =
     bindE (assertE (CheckComparable left right)) (\<lambda>_.
     if IsNull left \<or> IsNull right then ok CMP_NULL
     else BOOLEAN_COMPARE_FUNC F OpEq left right)"

definition TinyintType_CompareEquals :: "'d cpp \<Rightarrow> 'd Value \<Rightarrow> 'd Value \<Rightarrow> CmpBool res" where
  "TinyintType_CompareEquals F left right =
     bindE (assertE (CheckInteger left)) (\<lambda>_.
     bindE (assertE (CheckComparable left right)) (\<lambda>_.
     if IsNull left \<or> IsNull right then ok CMP_NULL
     else TINYINT_COMPARE_FUNC F OpEq left right))"

definition SmallintType_CompareEquals :: "'d cpp \<Rightarrow> 'd Value \<Rightarrow> 'd Value \<Rightarrow> CmpBool res" where
  "SmallintType_CompareEquals F left right =
     bindE (assertE (CheckInteger left)) (\<lambda>_.
     bindE (assertE (CheckComparable left right)) (\<lambda>_.
     if IsNull left \<or> IsNull right then ok CMP_NULL
     else SMALLINT_COMPARE_FUNC F OpEq left right))"

definition IntegerType_CompareEquals :: "'d cpp \<Rightarrow> 'd Value \<Rightarrow> 'd Value \<Rightarrow> CmpBool res" where
  "IntegerType_CompareEquals F left right =
     bindE (assertE (CheckInteger left)) (\<lambda>_.
     bindE (assertE (CheckComparable left right)) (\<lambda>_.
     if IsNull left \<or> IsNull right then ok CMP_NULL
     else INT_COMPARE_FUNC F OpEq left right))"

definition BigintType_CompareEquals :: "'d cpp \<Rightarrow> 'd Value \<Rightarrow> 'd Value \<Rightarrow> CmpBool res" where
  "BigintType_CompareEquals F left right =
     bindE (assertE (CheckInteger left)) (\<lambda>_.
     bindE (assertE (CheckComparable left right)) (\<lambda>_.
     if IsNull left \<or> IsNull right then ok CMP_NULL
     else BIGINT_COMPARE_FUNC F OpEq left right))"

definition DecimalType_CompareEquals :: "'d cpp \<Rightarrow> 'd Value \<Rightarrow> 'd Value \<Rightarrow> CmpBool res" where
  "DecimalType_CompareEquals F left right =
     bindE (assertE (CheckComparable left right)) (\<lambda>_.
     if IsNull left \<or> IsNull right then ok CMP_NULL
     else DECIMAL_COMPARE_FUNC F OpEq left right)"

definition VarlenType_CompareEquals :: "'d cpp \<Rightarrow> 'd Value \<Rightarrow> 'd Value \<Rightarrow> CmpBool res" where
  "VarlenType_CompareEquals F left right =
     bindE (assertE (CheckComparable left right)) (\<lambda>_.
     if IsNull left \<or> IsNull right then ok CMP_NULL
     else if VarlenType_GetLength left = PELOTON_VARCHAR_MAX_LEN \<or>
             VarlenType_GetLength right = PELOTON_VARCHAR_MAX_LEN
     then ok (GetCmpBool (VarlenType_GetLength left = VarlenType_GetLength right))
     else VARLEN_COMPARE_FUNC F OpEq left right)"

definition Value_CompareEquals :: "'d cpp \<Rightarrow> 'd Value \<Rightarrow> 'd Value \<Rightarrow> CmpBool res" where
  "Value_CompareEquals F v r =
     bindE (GetInstance (v_type v)) (\<lambda>t.
       case t of
          BaseObj \<Rightarrow> Type_CompareEquals v r
        | BooleanObj \<Rightarrow> BooleanType_CompareEquals F v r
        | TinyintObj \<Rightarrow> TinyintType_CompareEquals F v r
        | SmallintObj \<Rightarrow> SmallintType_CompareEquals F v r
        | IntegerObj \<Rightarrow> IntegerType_CompareEquals F v r
        | BigintObj \<Rightarrow> BigintType_CompareEquals F v r
        | DecimalObj \<Rightarrow> DecimalType_CompareEquals F v r
        | VarlenObj \<Rightarrow> VarlenType_CompareEquals F v r)"

section \<open>\<^verbatim>\<open>CompareNotEquals\<close>\<close>

definition Type_CompareNotEquals :: "'d Value \<Rightarrow> 'd Value \<Rightarrow> CmpBool res" where
  "Type_CompareNotEquals left right = fail (Thrown EXCEPTION_TYPE_NOT_IMPLEMENTED ''CompareNotEquals not implemented'')"

definition BooleanType_CompareNotEquals :: "'d cpp \<Rightarrow> 'd Value \<Rightarrow> 'd Value \<Rightarrow> CmpBool res" where
  "BooleanType_CompareNotEquals F left right =
     bindE (assertE (CheckComparable left right)) (\<lambda>_.
     if IsNull left \<or> IsNull right then ok CMP_NULL
     else BOOLEAN_COMPARE_FUNC F OpNe left right)"

definition TinyintType_CompareNotEquals :: "'d cpp \<Rightarrow> 'd Value \<Rightarrow> 'd Value \<Rightarrow> CmpBool res" where
  "TinyintType_CompareNotEquals F left right =
     bindE (assertE (CheckInteger left)) (\<lambda>_.
     bindE (assertE (CheckComparable left right)) (\<lambda>_.
     if IsNull left \<or> IsNull right then ok CMP_NULL
     else TINYINT_COMPARE_FUNC F OpNe left right))"

definition SmallintType_CompareNotEquals :: "'d cpp \<Rightarrow> 'd Value \<Rightarrow> 'd Value \<Rightarrow> CmpBool res" where
  "SmallintType_CompareNotEquals F left right =
     bindE (assertE (CheckInteger left)) (\<lambda>_.
     bindE (assertE (CheckComparable left right)) (\<lambda>_.
     if IsNull left \<or> IsNull right then ok CMP_NULL
     else SMALLINT_COMPARE_FUNC F OpNe left right))"

definition IntegerType_CompareNotEquals :: "'d cpp \<Rightarrow> 'd Value \<Rightarrow> 'd Value \<Rightarrow> CmpBool res" where
  "IntegerType_CompareNotEquals F left right =
     bindE (assertE (CheckInteger left)) (\<lambda>_.
     bindE (assertE (CheckComparable left right)) (\<lambda>_.
     if IsNull left \<or> IsNull right then ok CMP_NULL
     else INT_COMPARE_FUNC F OpNe left right))"

definition BigintType_CompareNotEquals :: "'d cpp \<Rightarrow> 'd Value \<Rightarrow> 'd Value \<Rightarrow> CmpBool res" where
  "BigintType_CompareNotEquals F left right =
     bindE (assertE (CheckInteger left)) (\<lambda>_.
     bindE (assertE (CheckComparable left right)) (\<lambda>_.
     if IsNull left \<or> IsNull right then ok CMP_NULL
     else BIGINT_COMPARE_FUNC F OpNe left right))"

definition DecimalType_CompareNotEquals :: "'d cpp \<Rightarrow> 'd Value \<Rightarrow> 'd Value \<Rightarrow> CmpBool res" where
  "DecimalType_CompareNotEquals F left right =
     bindE (assertE (CheckComparable left right)) (\<lambda>_.
     if IsNull left \<or> IsNull right then ok CMP_NULL
     else DECIMAL_COMPARE_FUNC F OpNe left right)"

definition VarlenType_CompareNotEquals :: "'d cpp \<Rightarrow> 'd Value \<Rightarrow> 'd Value \<Rightarrow> CmpBool res" where
  "VarlenType_CompareNotEquals F left right =
     bindE (assertE (CheckComparable left right)) (\<lambda>_.
     if IsNull left \<or> IsNull right then ok CMP_NULL
     else if VarlenType_GetLength left = PELOTON_VARCHAR_MAX_LEN \<or>
             VarlenType_GetLength right = PELOTON_VARCHAR_MAX_LEN
     then ok (GetCmpBool (VarlenType_GetLength left \<noteq> VarlenType_GetLength right))
     else VARLEN_COMPARE_FUNC F OpNe left right)"

definition Value_CompareNotEquals :: "'d cpp \<Rightarrow> 'd Value \<Rightarrow> 'd Value \<Rightarrow> CmpBool res" where
  "Value_CompareNotEquals F v r =
     bindE (GetInstance (v_type v)) (\<lambda>t.
       case t of
          BaseObj \<Rightarrow> Type_CompareNotEquals v r
        | BooleanObj \<Rightarrow> BooleanType_CompareNotEquals F v r
        | TinyintObj \<Rightarrow> TinyintType_CompareNotEquals F v r
        | SmallintObj \<Rightarrow> SmallintType_CompareNotEquals F v r
        | IntegerObj \<Rightarrow> IntegerType_CompareNotEquals F v r
        | BigintObj \<Rightarrow> BigintType_CompareNotEquals F v r
        | DecimalObj \<Rightarrow> DecimalType_CompareNotEquals F v r
        | VarlenObj \<Rightarrow> VarlenType_CompareNotEquals F v r)"

section \<open>\<^verbatim>\<open>CompareLessThan\<close>\<close>

definition Type_CompareLessThan :: "'d Value \<Rightarrow> 'd Value \<Rightarrow> CmpBool res" where
  "Type_CompareLessThan left right = fail (Thrown EXCEPTION_TYPE_NOT_IMPLEMENTED ''CompareLessThan not implemented'')"

definition BooleanType_CompareLessThan :: "'d cpp \<Rightarrow> 'd Value \<Rightarrow> 'd Value \<Rightarrow> CmpBool res" where
  "BooleanType_CompareLessThan F left right =
     bindE (assertE (CheckComparable left right)) (\<lambda>_.
     if IsNull left \<or> IsNull right then ok CMP_NULL
     else BOOLEAN_COMPARE_FUNC F OpLt left right)"

definition TinyintType_CompareLessThan :: "'d cpp \<Rightarrow> 'd Value \<Rightarrow> 'd Value \<Rightarrow> CmpBool res" where
  "TinyintType_CompareLessThan F left right =
     bindE (assertE (CheckInteger left)) (\<lambda>_.
     bindE (assertE (CheckComparable left right)) (\<lambda>_.
     if IsNull left \<or> IsNull right then ok CMP_NULL
     else TINYINT_COMPARE_FUNC F OpLt left right))"

definition SmallintType_CompareLessThan :: "'d cpp \<Rightarrow> 'd Value \<Rightarrow> 'd Value \<Rightarrow> CmpBool res" where
  "SmallintType_CompareLessThan F left right =
     bindE (assertE (CheckInteger left)) (\<lambda>_.
     bindE (assertE (CheckComparable left right)) (\<lambda>_.
     if IsNull left \<or> IsNull right then ok CMP_NULL
     else SMALLINT_COMPARE_FUNC F OpLt left right))"

definition IntegerType_CompareLessThan :: "'d cpp \<Rightarrow> 'd Value \<Rightarrow> 'd Value \<Rightarrow> CmpBool res" where
  "IntegerType_CompareLessThan F left right =
     bindE (assertE (CheckInteger left)) (\<lambda>_.
     bindE (assertE (CheckComparable left right)) (\<lambda>_.
     if IsNull left \<or> IsNull right then ok CMP_NULL
     else INT_COMPARE_FUNC F OpLt left right))"

definition BigintType_CompareLessThan :: "'d cpp \<Rightarrow> 'd Value \<Rightarrow> 'd Value \<Rightarrow> CmpBool res" where
  "BigintType_CompareLessThan F left right =
     bindE (assertE (CheckInteger left)) (\<lambda>_.
     bindE (assertE (CheckComparable left right)) (\<lambda>_.
     if IsNull left \<or> IsNull right then ok CMP_NULL
     else BIGINT_COMPARE_FUNC F OpLt left right))"

definition DecimalType_CompareLessThan :: "'d cpp \<Rightarrow> 'd Value \<Rightarrow> 'd Value \<Rightarrow> CmpBool res" where
  "DecimalType_CompareLessThan F left right =
     bindE (assertE (CheckComparable left right)) (\<lambda>_.
     if IsNull left \<or> IsNull right then ok CMP_NULL
     else DECIMAL_COMPARE_FUNC F OpLt left right)"

definition VarlenType_CompareLessThan :: "'d cpp \<Rightarrow> 'd Value \<Rightarrow> 'd Value \<Rightarrow> CmpBool res" where
  "VarlenType_CompareLessThan F left right =
     bindE (assertE (CheckComparable left right)) (\<lambda>_.
     if IsNull left \<or> IsNull right then ok CMP_NULL
     else if VarlenType_GetLength left = PELOTON_VARCHAR_MAX_LEN \<or>
             VarlenType_GetLength right = PELOTON_VARCHAR_MAX_LEN
     then ok (GetCmpBool (VarlenType_GetLength left < VarlenType_GetLength right))
     else VARLEN_COMPARE_FUNC F OpLt left right)"

definition Value_CompareLessThan :: "'d cpp \<Rightarrow> 'd Value \<Rightarrow> 'd Value \<Rightarrow> CmpBool res" where
  "Value_CompareLessThan F v r =
     bindE (GetInstance (v_type v)) (\<lambda>t.
       case t of
          BaseObj \<Rightarrow> Type_CompareLessThan v r
        | BooleanObj \<Rightarrow> BooleanType_CompareLessThan F v r
        | TinyintObj \<Rightarrow> TinyintType_CompareLessThan F v r
        | SmallintObj \<Rightarrow> SmallintType_CompareLessThan F v r
        | IntegerObj \<Rightarrow> IntegerType_CompareLessThan F v r
        | BigintObj \<Rightarrow> BigintType_CompareLessThan F v r
        | DecimalObj \<Rightarrow> DecimalType_CompareLessThan F v r
        | VarlenObj \<Rightarrow> VarlenType_CompareLessThan F v r)"

section \<open>\<^verbatim>\<open>CompareLessThanEquals\<close>\<close>

definition Type_CompareLessThanEquals :: "'d Value \<Rightarrow> 'd Value \<Rightarrow> CmpBool res" where
  "Type_CompareLessThanEquals left right = fail (Thrown EXCEPTION_TYPE_NOT_IMPLEMENTED ''CompareLessThanEqual not implemented'')"

definition BooleanType_CompareLessThanEquals :: "'d cpp \<Rightarrow> 'd Value \<Rightarrow> 'd Value \<Rightarrow> CmpBool res" where
  "BooleanType_CompareLessThanEquals F left right =
     bindE (assertE (CheckComparable left right)) (\<lambda>_.
     if IsNull left \<or> IsNull right then ok CMP_NULL
     else BOOLEAN_COMPARE_FUNC F OpLe left right)"

definition TinyintType_CompareLessThanEquals :: "'d cpp \<Rightarrow> 'd Value \<Rightarrow> 'd Value \<Rightarrow> CmpBool res" where
  "TinyintType_CompareLessThanEquals F left right =
     bindE (assertE (CheckInteger left)) (\<lambda>_.
     bindE (assertE (CheckComparable left right)) (\<lambda>_.
     if IsNull left \<or> IsNull right then ok CMP_NULL
     else TINYINT_COMPARE_FUNC F OpLe left right))"

definition SmallintType_CompareLessThanEquals :: "'d cpp \<Rightarrow> 'd Value \<Rightarrow> 'd Value \<Rightarrow> CmpBool res" where
  "SmallintType_CompareLessThanEquals F left right =
     bindE (assertE (CheckInteger left)) (\<lambda>_.
     bindE (assertE (CheckComparable left right)) (\<lambda>_.
     if IsNull left \<or> IsNull right then ok CMP_NULL
     else SMALLINT_COMPARE_FUNC F OpLe left right))"

definition IntegerType_CompareLessThanEquals :: "'d cpp \<Rightarrow> 'd Value \<Rightarrow> 'd Value \<Rightarrow> CmpBool res" where
  "IntegerType_CompareLessThanEquals F left right =
     bindE (assertE (CheckInteger left)) (\<lambda>_.
     bindE (assertE (CheckComparable left right)) (\<lambda>_.
     if IsNull left \<or> IsNull right then ok CMP_NULL
     else INT_COMPARE_FUNC F OpLe left right))"

definition BigintType_CompareLessThanEquals :: "'d cpp \<Rightarrow> 'd Value \<Rightarrow> 'd Value \<Rightarrow> CmpBool res" where
  "BigintType_CompareLessThanEquals F left right =
     bindE (assertE (CheckInteger left)) (\<lambda>_.
     bindE (assertE (CheckComparable left right)) (\<lambda>_.
     if IsNull left \<or> IsNull right then ok CMP_NULL
     else BIGINT_COMPARE_FUNC F OpLe left right))"

definition DecimalType_CompareLessThanEquals :: "'d cpp \<Rightarrow> 'd Value \<Rightarrow> 'd Value \<Rightarrow> CmpBool res" where
  "DecimalType_CompareLessThanEquals F left right =
     bindE (assertE (CheckComparable left right)) (\<lambda>_.
     if IsNull left \<or> IsNull right then ok CMP_NULL
     else DECIMAL_COMPARE_FUNC F OpLe left right)"

definition VarlenType_CompareLessThanEquals :: "'d cpp \<Rightarrow> 'd Value \<Rightarrow> 'd Value \<Rightarrow> CmpBool res" where
  "VarlenType_CompareLessThanEquals F left right =
     bindE (assertE (CheckComparable left right)) (\<lambda>_.
     if IsNull left \<or> IsNull right then ok CMP_NULL
     else if VarlenType_GetLength left = PELOTON_VARCHAR_MAX_LEN \<or>
             VarlenType_GetLength right = PELOTON_VARCHAR_MAX_LEN
     then ok (GetCmpBool (VarlenType_GetLength left \<le> VarlenType_GetLength right))
     else VARLEN_COMPARE_FUNC F OpLe left right)"

definition Value_CompareLessThanEquals :: "'d cpp \<Rightarrow> 'd Value \<Rightarrow> 'd Value \<Rightarrow> CmpBool res" where
  "Value_CompareLessThanEquals F v r =
     bindE (GetInstance (v_type v)) (\<lambda>t.
       case t of
          BaseObj \<Rightarrow> Type_CompareLessThanEquals v r
        | BooleanObj \<Rightarrow> BooleanType_CompareLessThanEquals F v r
        | TinyintObj \<Rightarrow> TinyintType_CompareLessThanEquals F v r
        | SmallintObj \<Rightarrow> SmallintType_CompareLessThanEquals F v r
        | IntegerObj \<Rightarrow> IntegerType_CompareLessThanEquals F v r
        | BigintObj \<Rightarrow> BigintType_CompareLessThanEquals F v r
        | DecimalObj \<Rightarrow> DecimalType_CompareLessThanEquals F v r
        | VarlenObj \<Rightarrow> VarlenType_CompareLessThanEquals F v r)"

section \<open>\<^verbatim>\<open>CompareGreaterThan\<close>\<close>

definition Type_CompareGreaterThan :: "'d Value \<Rightarrow> 'd Value \<Rightarrow> CmpBool res" where
  "Type_CompareGreaterThan left right = fail (Thrown EXCEPTION_TYPE_NOT_IMPLEMENTED ''CompareGreaterThan not implemented'')"

definition BooleanType_CompareGreaterThan :: "'d cpp \<Rightarrow> 'd Value \<Rightarrow> 'd Value \<Rightarrow> CmpBool res" where
  "BooleanType_CompareGreaterThan F left right =
     bindE (assertE (CheckComparable left right)) (\<lambda>_.
     if IsNull left \<or> IsNull right then ok CMP_NULL
     else BOOLEAN_COMPARE_FUNC F OpGt left right)"

definition TinyintType_CompareGreaterThan :: "'d cpp \<Rightarrow> 'd Value \<Rightarrow> 'd Value \<Rightarrow> CmpBool res" where
  "TinyintType_CompareGreaterThan F left right =
     bindE (assertE (CheckInteger left)) (\<lambda>_.
     bindE (assertE (CheckComparable left right)) (\<lambda>_.
     if IsNull left \<or> IsNull right then ok CMP_NULL
     else TINYINT_COMPARE_FUNC F OpGt left right))"

definition SmallintType_CompareGreaterThan :: "'d cpp \<Rightarrow> 'd Value \<Rightarrow> 'd Value \<Rightarrow> CmpBool res" where
  "SmallintType_CompareGreaterThan F left right =
     bindE (assertE (CheckInteger left)) (\<lambda>_.
     bindE (assertE (CheckComparable left right)) (\<lambda>_.
     if IsNull left \<or> IsNull right then ok CMP_NULL
     else SMALLINT_COMPARE_FUNC F OpGt left right))"

definition IntegerType_CompareGreaterThan :: "'d cpp \<Rightarrow> 'd Value \<Rightarrow> 'd Value \<Rightarrow> CmpBool res" where
  "IntegerType_CompareGreaterThan F left right =
     bindE (assertE (CheckInteger left)) (\<lambda>_.
     bindE (assertE (CheckComparable left right)) (\<lambda>_.
     if IsNull left \<or> IsNull right then ok CMP_NULL
     else INT_COMPARE_FUNC F OpGt left right))"

definition BigintType_CompareGreaterThan :: "'d cpp \<Rightarrow> 'd Value \<Rightarrow> 'd Value \<Rightarrow> CmpBool res" where
  "BigintType_CompareGreaterThan F left right =
     bindE (assertE (CheckInteger left)) (\<lambda>_.
     bindE (assertE (CheckComparable left right)) (\<lambda>_.
     if IsNull left \<or> IsNull right then ok CMP_NULL
     else BIGINT_COMPARE_FUNC F OpGt left right))"

definition DecimalType_CompareGreaterThan :: "'d cpp \<Rightarrow> 'd Value \<Rightarrow> 'd Value \<Rightarrow> CmpBool res" where
  "DecimalType_CompareGreaterThan F left right =
     bindE (assertE (CheckComparable left right)) (\<lambda>_.
     if IsNull left \<or> IsNull right then ok CMP_NULL
     else DECIMAL_COMPARE_FUNC F OpGt left right)"

definition VarlenType_CompareGreaterThan :: "'d cpp \<Rightarrow> 'd Value \<Rightarrow> 'd Value \<Rightarrow> CmpBool res" where
  "VarlenType_CompareGreaterThan F left right =
     bindE (assertE (CheckComparable left right)) (\<lambda>_.
     if IsNull left \<or> IsNull right then ok CMP_NULL
     else if VarlenType_GetLength left = PELOTON_VARCHAR_MAX_LEN \<or>
             VarlenType_GetLength right = PELOTON_VARCHAR_MAX_LEN
     then ok (GetCmpBool (VarlenType_GetLength left > VarlenType_GetLength right))
     else VARLEN_COMPARE_FUNC F OpGt left right)"

definition Value_CompareGreaterThan :: "'d cpp \<Rightarrow> 'd Value \<Rightarrow> 'd Value \<Rightarrow> CmpBool res" where
  "Value_CompareGreaterThan F v r =
     bindE (GetInstance (v_type v)) (\<lambda>t.
       case t of
          BaseObj \<Rightarrow> Type_CompareGreaterThan v r
        | BooleanObj \<Rightarrow> BooleanType_CompareGreaterThan F v r
        | TinyintObj \<Rightarrow> TinyintType_CompareGreaterThan F v r
        | SmallintObj \<Rightarrow> SmallintType_CompareGreaterThan F v r
        | IntegerObj \<Rightarrow> IntegerType_CompareGreaterThan F v r
        | BigintObj \<Rightarrow> BigintType_CompareGreaterThan F v r
        | DecimalObj \<Rightarrow> DecimalType_CompareGreaterThan F v r
        | VarlenObj \<Rightarrow> VarlenType_CompareGreaterThan F v r)"

section \<open>\<^verbatim>\<open>CompareGreaterThanEquals\<close>\<close>

definition Type_CompareGreaterThanEquals :: "'d Value \<Rightarrow> 'd Value \<Rightarrow> CmpBool res" where
  "Type_CompareGreaterThanEquals left right = fail (Thrown EXCEPTION_TYPE_NOT_IMPLEMENTED ''CompareGreaterThanEqual not implemented'')"

definition BooleanType_CompareGreaterThanEquals :: "'d cpp \<Rightarrow> 'd Value \<Rightarrow> 'd Value \<Rightarrow> CmpBool res" where
  "BooleanType_CompareGreaterThanEquals F left right =
     bindE (assertE (CheckComparable left right)) (\<lambda>_.
     if IsNull left \<or> IsNull right then ok CMP_NULL
     else BOOLEAN_COMPARE_FUNC F OpGe left right)"

definition TinyintType_CompareGreaterThanEquals :: "'d cpp \<Rightarrow> 'd Value \<Rightarrow> 'd Value \<Rightarrow> CmpBool res" where
  "TinyintType_CompareGreaterThanEquals F left right =
     bindE (assertE (CheckInteger left)) (\<lambda>_.
     bindE (assertE (CheckComparable left right)) (\<lambda>_.
     if IsNull left \<or> IsNull right then ok CMP_NULL
     else TINYINT_COMPARE_FUNC F OpGe left right))"

definition SmallintType_CompareGreaterThanEquals :: "'d cpp \<Rightarrow> 'd Value \<Rightarrow> 'd Value \<Rightarrow> CmpBool res" where
  "SmallintType_CompareGreaterThanEquals F left right =
     bindE (assertE (CheckInteger left)) (\<lambda>_.
     bindE (assertE (CheckComparable left right)) (\<lambda>_.
     if IsNull left \<or> IsNull right then ok CMP_NULL
     else SMALLINT_COMPARE_FUNC F OpGe left right))"

definition IntegerType_CompareGreaterThanEquals :: "'d cpp \<Rightarrow> 'd Value \<Rightarrow> 'd Value \<Rightarrow> CmpBool res" where
  "IntegerType_CompareGreaterThanEquals F left right =
     bindE (assertE (CheckInteger left)) (\<lambda>_.
     bindE (assertE (CheckComparable left right)) (\<lambda>_.
     if IsNull left \<or> IsNull right then ok CMP_NULL
     else INT_COMPARE_FUNC F OpGe left right))"

definition BigintType_CompareGreaterThanEquals :: "'d cpp \<Rightarrow> 'd Value \<Rightarrow> 'd Value \<Rightarrow> CmpBool res" where
  "BigintType_CompareGreaterThanEquals F left right =
     bindE (assertE (CheckInteger left)) (\<lambda>_.
     bindE (assertE (CheckComparable left right)) (\<lambda>_.
     if IsNull left \<or> IsNull right then ok CMP_NULL
     else BIGINT_COMPARE_FUNC F OpGe left right))"

definition DecimalType_CompareGreaterThanEquals :: "'d cpp \<Rightarrow> 'd Value \<Rightarrow> 'd Value \<Rightarrow> CmpBool res" where
  "DecimalType_CompareGreaterThanEquals F left right =
     bindE (assertE (CheckComparable left right)) (\<lambda>_.
     if IsNull left \<or> IsNull right then ok CMP_NULL
     else DECIMAL_COMPARE_FUNC F OpGe left right)"

definition VarlenType_CompareGreaterThanEquals :: "'d cpp \<Rightarrow> 'd Value \<Rightarrow> 'd Value \<Rightarrow> CmpBool res" where
  "VarlenType_CompareGreaterThanEquals F left right =
     bindE (assertE (CheckComparable left right)) (\<lambda>_.
     if IsNull left \<or> IsNull right then ok CMP_NULL
     else if VarlenType_GetLength left = PELOTON_VARCHAR_MAX_LEN \<or>
             VarlenType_GetLength right = PELOTON_VARCHAR_MAX_LEN
     then ok (GetCmpBool (VarlenType_GetLength left \<ge> VarlenType_GetLength right))
     else VARLEN_COMPARE_FUNC F OpGe left right)"

definition Value_CompareGreaterThanEquals :: "'d cpp \<Rightarrow> 'd Value \<Rightarrow> 'd Value \<Rightarrow> CmpBool res" where
  "Value_CompareGreaterThanEquals F v r =
     bindE (GetInstance (v_type v)) (\<lambda>t.
       case t of
          BaseObj \<Rightarrow> Type_CompareGreaterThanEquals v r
        | BooleanObj \<Rightarrow> BooleanType_CompareGreaterThanEquals F v r
        | TinyintObj \<Rightarrow> TinyintType_CompareGreaterThanEquals F v r
        | SmallintObj \<Rightarrow> SmallintType_CompareGreaterThanEquals F v r
        | IntegerObj \<Rightarrow> IntegerType_CompareGreaterThanEquals F v r
        | BigintObj \<Rightarrow> BigintType_CompareGreaterThanEquals F v r
        | DecimalObj \<Rightarrow> DecimalType_CompareGreaterThanEquals F v r
        | VarlenObj \<Rightarrow> VarlenType_CompareGreaterThanEquals F v r)"

end
