(* ===== verification/Type_Arith.thy ===== *)
theory Type_Arith
  imports Type_Compare "HOL-Library.Signed_Division"
begin

text \<open>
  The arithmetic of the value classes: the templates of \<^verbatim>\<open>integer_parent_type.h\<close>, the
  \<^verbatim>\<open>MODIFY\<close> macros that select their instance by the type of the right operand, and the methods
  of each class. The template parameters are the C++ types of the operands; sums, differences and
  products are formed in the promoted type, where an overflow wraps or is undefined as the
  parameter \<^verbatim>\<open>wraps\<close> says.
\<close>

section \<open>The templates\<close>

text \<open>The constructor an integer of each type selects.\<close>

fun Value_of_ctype :: "ctype \<Rightarrow> TypeId \<Rightarrow> int \<Rightarrow> 'd Value res" where
  "Value_of_ctype Int8 ty z = Value_int8 ty z"
| "Value_of_ctype Int16 ty z = Value_int16 ty z"
| "Value_of_ctype Int32 ty z = Value_int32 ty z"
| "Value_of_ctype Int64 ty z = Value_int64 ty z"

definition AddValue :: "'d cpp \<Rightarrow> ctype \<Rightarrow> ctype \<Rightarrow> 'd Value \<Rightarrow> 'd Value \<Rightarrow> 'd Value res" where
  "AddValue F t1 t2 left right =
     bindE (GetAs_int t1 left) (\<lambda>x.
     bindE (GetAs_int t2 right) (\<lambda>y.
     bindE (c_arith (wraps F) (promote t1 t2) (x + y)) (\<lambda>s.
     let s1 = narrow t1 s; s2 = narrow t2 s in
     if s \<noteq> s1 \<and> s \<noteq> s2
     then fail (Thrown EXCEPTION_TYPE_OUT_OF_RANGE ''Numeric value out of range.'')
     else if bits t1 \<ge> bits t2 then
       (if (x > 0 \<and> y > 0 \<and> s1 < 0) \<or> (x < 0 \<and> y < 0 \<and> s1 > 0)
        then fail (Thrown EXCEPTION_TYPE_OUT_OF_RANGE ''Numeric value out of range.'')
        else Value_of_ctype t1 (v_type left) s1)
     else
       (if (x > 0 \<and> y > 0 \<and> s2 < 0) \<or> (x < 0 \<and> y < 0 \<and> s2 > 0)
        then fail (Thrown EXCEPTION_TYPE_OUT_OF_RANGE ''Numeric value out of range.'')
        else Value_of_ctype t2 (v_type right) s2))))"

definition SubtractValue :: "'d cpp \<Rightarrow> ctype \<Rightarrow> ctype \<Rightarrow> 'd Value \<Rightarrow> 'd Value \<Rightarrow> 'd Value res" where
  "SubtractValue F t1 t2 left right =
     bindE (GetAs_int t1 left) (\<lambda>x.
     bindE (GetAs_int t2 right) (\<lambda>y.
     bindE (c_arith (wraps F) (promote t1 t2) (x - y)) (\<lambda>s.
     let s1 = narrow t1 s; s2 = narrow t2 s in
     if s \<noteq> s1 \<and> s \<noteq> s2
     then fail (Thrown EXCEPTION_TYPE_OUT_OF_RANGE ''Numeric value out of range.'')
     else if bits t1 \<ge> bits t2 then
       (if (x > 0 \<and> y < 0 \<and> s1 < 0) \<or> (x < 0 \<and> y > 0 \<and> s1 > 0)
        then fail (Thrown EXCEPTION_TYPE_OUT_OF_RANGE ''Numeric value out of range.'')
        else Value_of_ctype t1 (v_type left) s1)
     else
       (if (x > 0 \<and> y < 0 \<and> s2 < 0) \<or> (x < 0 \<and> y > 0 \<and> s2 > 0)
        then fail (Thrown EXCEPTION_TYPE_OUT_OF_RANGE ''Numeric value out of range.'')
        else Value_of_ctype t2 (v_type right) s2))))"

text \<open>
  Division and remainder truncate towards zero. A zero divisor, and a quotient that does not fit
  the promoted type, are undefined.
\<close>

definition c_div :: "ctype \<Rightarrow> ctype \<Rightarrow> int \<Rightarrow> int \<Rightarrow> int res" where
  "c_div t1 t2 x y =
     (if y = 0 \<or> \<not> in_ctype (promote t1 t2) (x sdiv y) then fail Undefined_Behaviour
      else ok (x sdiv y))"

definition c_mod :: "ctype \<Rightarrow> ctype \<Rightarrow> int \<Rightarrow> int \<Rightarrow> int res" where
  "c_mod t1 t2 x y =
     (if y = 0 \<or> \<not> in_ctype (promote t1 t2) (x sdiv y) then fail Undefined_Behaviour
      else ok (x smod y))"

definition MultiplyValue :: "'d cpp \<Rightarrow> ctype \<Rightarrow> ctype \<Rightarrow> 'd Value \<Rightarrow> 'd Value \<Rightarrow> 'd Value res" where
  "MultiplyValue F t1 t2 left right =
     bindE (GetAs_int t1 left) (\<lambda>x.
     bindE (GetAs_int t2 right) (\<lambda>y.
     bindE (c_arith (wraps F) (promote t1 t2) (x * y)) (\<lambda>p.
     let p1 = narrow t1 p; p2 = narrow t2 p in
     if p \<noteq> p1 \<and> p \<noteq> p2
     then fail (Thrown EXCEPTION_TYPE_OUT_OF_RANGE ''Numeric value out of range.'')
     else if bits t1 \<ge> bits t2 then
       bindE (if y = 0 then ok False else bindE (c_div t1 t2 p1 y) (\<lambda>q. ok (q \<noteq> x))) (\<lambda>bad.
       if bad then fail (Thrown EXCEPTION_TYPE_OUT_OF_RANGE ''Numeric value out of range.'')
       else Value_of_ctype t1 (v_type left) p1)
     else
       bindE (if y = 0 then ok False else bindE (c_div t2 t2 p2 y) (\<lambda>q. ok (q \<noteq> x))) (\<lambda>bad.
       if bad then fail (Thrown EXCEPTION_TYPE_OUT_OF_RANGE ''Numeric value out of range.'')
       else Value_of_ctype t2 (v_type right) p2))))"

definition DivideValue :: "ctype \<Rightarrow> ctype \<Rightarrow> 'd Value \<Rightarrow> 'd Value \<Rightarrow> 'd Value res" where
  "DivideValue t1 t2 left right =
     bindE (GetAs_int t1 left) (\<lambda>x.
     bindE (GetAs_int t2 right) (\<lambda>y.
     if y = 0 then fail (Thrown EXCEPTION_TYPE_DIVIDE_BY_ZERO ''Division by zero.'')
     else bindE (c_div t1 t2 x y) (\<lambda>q.
       if bits t1 \<ge> bits t2 then Value_of_ctype t1 (v_type left) (narrow t1 q)
       else Value_of_ctype t2 (v_type right) (narrow t2 q))))"

definition ModuloValue :: "ctype \<Rightarrow> ctype \<Rightarrow> 'd Value \<Rightarrow> 'd Value \<Rightarrow> 'd Value res" where
  "ModuloValue t1 t2 left right =
     bindE (GetAs_int t1 left) (\<lambda>x.
     bindE (GetAs_int t2 right) (\<lambda>y.
     if y = 0 then fail (Thrown EXCEPTION_TYPE_DIVIDE_BY_ZERO ''Division by zero.'')
     else bindE (c_mod t1 t2 x y) (\<lambda>q.
       if bits t1 \<ge> bits t2 then Value_of_ctype t1 (v_type left) (narrow t1 q)
       else Value_of_ctype t2 (v_type right) (narrow t2 q))))"

definition ValMod :: "'d cpp \<Rightarrow> 'd \<Rightarrow> 'd \<Rightarrow> 'd" where
  "ValMod F x y = f_sub F x (f_mul F (f_trunc F (f_div F x y)) y)"

section \<open>The selection by the right operand\<close>

definition TINYINT_MODIFY_FUNC :: "'d cpp \<Rightarrow> (ctype \<Rightarrow> ctype \<Rightarrow> 'd Value \<Rightarrow> 'd Value \<Rightarrow> 'd Value res) \<Rightarrow> ('d \<Rightarrow> 'd \<Rightarrow> 'd) \<Rightarrow> 'd Value \<Rightarrow> 'd Value \<Rightarrow> 'd Value res" where
  "TINYINT_MODIFY_FUNC F meth dop left right =
     (case v_type right of
        TINYINT \<Rightarrow> meth Int8 Int8 left right
      | SMALLINT \<Rightarrow> meth Int8 Int16 left right
      | INTEGER \<Rightarrow> meth Int8 Int32 left right
      | BIGINT \<Rightarrow> meth Int8 Int64 left right
      | DECIMAL \<Rightarrow>
          bindE (GetAs_int Int8 left) (\<lambda>x.
          bindE (GetAs_double right) (\<lambda>y. Value_double F DECIMAL (dop (f_of_int F x) y)))
      | VARCHAR \<Rightarrow> bindE (Value_CastAs F right TINYINT) (\<lambda>r_value. meth Int8 Int8 left r_value)
      | _ \<Rightarrow> fail (Thrown EXCEPTION_TYPE_INVALID ''type error''))"

definition SMALLINT_MODIFY_FUNC :: "'d cpp \<Rightarrow> (ctype \<Rightarrow> ctype \<Rightarrow> 'd Value \<Rightarrow> 'd Value \<Rightarrow> 'd Value res) \<Rightarrow> ('d \<Rightarrow> 'd \<Rightarrow> 'd) \<Rightarrow> 'd Value \<Rightarrow> 'd Value \<Rightarrow> 'd Value res" where
  "SMALLINT_MODIFY_FUNC F meth dop left right =
     (case v_type right of
        TINYINT \<Rightarrow> meth Int16 Int8 left right
      | SMALLINT \<Rightarrow> meth Int16 Int16 left right
      | INTEGER \<Rightarrow> meth Int16 Int32 left right
      | BIGINT \<Rightarrow> meth Int16 Int64 left right
      | DECIMAL \<Rightarrow>
          bindE (GetAs_int Int16 left) (\<lambda>x.
          bindE (GetAs_double right) (\<lambda>y. Value_double F DECIMAL (dop (f_of_int F x) y)))
      | VARCHAR \<Rightarrow> bindE (Value_CastAs F right SMALLINT) (\<lambda>r_value. meth Int16 Int16 left r_value)
      | _ \<Rightarrow> fail (Thrown EXCEPTION_TYPE_INVALID ''type error''))"

definition INT_MODIFY_FUNC :: "'d cpp \<Rightarrow> (ctype \<Rightarrow> ctype \<Rightarrow> 'd Value \<Rightarrow> 'd Value \<Rightarrow> 'd Value res) \<Rightarrow> ('d \<Rightarrow> 'd \<Rightarrow> 'd) \<Rightarrow> 'd Value \<Rightarrow> 'd Value \<Rightarrow> 'd Value res" where
  "INT_MODIFY_FUNC F meth dop left right =
     (case v_type right of
        TINYINT \<Rightarrow> meth Int32 Int8 left right
      | SMALLINT \<Rightarrow> meth Int32 Int16 left right
      | INTEGER \<Rightarrow> meth Int32 Int32 left right
      | BIGINT \<Rightarrow> meth Int32 Int64 left right
      | DECIMAL \<Rightarrow>
          bindE (GetAs_int Int32 left) (\<lambda>x.
          bindE (GetAs_double right) (\<lambda>y. Value_double F DECIMAL (dop (f_of_int F x) y)))
      | VARCHAR \<Rightarrow> bindE (Value_CastAs F right INTEGER) (\<lambda>r_value. meth Int32 Int32 left r_value)
      | _ \<Rightarrow> fail (Thrown EXCEPTION_TYPE_INVALID ''type error''))"

definition BIGINT_MODIFY_FUNC :: "'d cpp \<Rightarrow> (ctype \<Rightarrow> ctype \<Rightarrow> 'd Value \<Rightarrow> 'd Value \<Rightarrow> 'd Value res) \<Rightarrow> ('d \<Rightarrow> 'd \<Rightarrow> 'd) \<Rightarrow> 'd Value \<Rightarrow> 'd Value \<Rightarrow> 'd Value res" where
  "BIGINT_MODIFY_FUNC F meth dop left right =
     (case v_type right of
        TINYINT \<Rightarrow> meth Int64 Int8 left right
      | SMALLINT \<Rightarrow> meth Int64 Int16 left right
      | INTEGER \<Rightarrow> meth Int64 Int32 left right
      | BIGINT \<Rightarrow> meth Int64 Int64 left right
      | DECIMAL \<Rightarrow>
          bindE (GetAs_int Int64 left) (\<lambda>x.
          bindE (GetAs_double right) (\<lambda>y. Value_double F DECIMAL (dop (f_of_int F x) y)))
      | VARCHAR \<Rightarrow> bindE (Value_CastAs F right BIGINT) (\<lambda>r_value. meth Int64 Int64 left r_value)
      | _ \<Rightarrow> fail (Thrown EXCEPTION_TYPE_INVALID ''type error''))"

definition DECIMAL_MODIFY_FUNC :: "'d cpp \<Rightarrow> ('d \<Rightarrow> 'd \<Rightarrow> 'd) \<Rightarrow> 'd Value \<Rightarrow> 'd Value \<Rightarrow> 'd Value res" where
  "DECIMAL_MODIFY_FUNC F dop left right =
     bindE (GetAs_double left) (\<lambda>x.
     case v_type right of
         TINYINT \<Rightarrow> bindE (GetAs_int Int8 right) (\<lambda>y. Value_double F DECIMAL (dop x (f_of_int F y)))
       | SMALLINT \<Rightarrow> bindE (GetAs_int Int16 right) (\<lambda>y. Value_double F DECIMAL (dop x (f_of_int F y)))
       | INTEGER \<Rightarrow> bindE (GetAs_int Int32 right) (\<lambda>y. Value_double F DECIMAL (dop x (f_of_int F y)))
       | BIGINT \<Rightarrow> bindE (GetAs_int Int64 right) (\<lambda>y. Value_double F DECIMAL (dop x (f_of_int F y)))
       | DECIMAL \<Rightarrow> bindE (GetAs_double right) (\<lambda>y. Value_double F DECIMAL (dop x y))
       | VARCHAR \<Rightarrow>
           bindE (Value_CastAs F right DECIMAL) (\<lambda>r_value.
           bindE (GetAs_double r_value) (\<lambda>y. Value_double F DECIMAL (dop x y)))
       | _ \<Rightarrow> fail (Thrown EXCEPTION_TYPE_INVALID ''type error''))"

section \<open>\<^verbatim>\<open>Add\<close>\<close>

definition Type_Add :: "'d Value \<Rightarrow> 'd Value \<Rightarrow> 'd Value res" where
  "Type_Add left right = fail (Thrown EXCEPTION_TYPE_NOT_IMPLEMENTED ''Add not implemented'')"

definition TinyintType_Add :: "'d cpp \<Rightarrow> 'd Value \<Rightarrow> 'd Value \<Rightarrow> 'd Value res" where
  "TinyintType_Add F left right =
     bindE (assertE (CheckInteger left)) (\<lambda>_.
     bindE (assertE (CheckComparable left right)) (\<lambda>_.
     if IsNull left \<or> IsNull right then Value_OperateNull F left right
     else TINYINT_MODIFY_FUNC F (AddValue F) (f_add F) left right))"

definition SmallintType_Add :: "'d cpp \<Rightarrow> 'd Value \<Rightarrow> 'd Value \<Rightarrow> 'd Value res" where
  "SmallintType_Add F left right =
     bindE (assertE (CheckInteger left)) (\<lambda>_.
     bindE (assertE (CheckComparable left right)) (\<lambda>_.
     if IsNull left \<or> IsNull right then Value_OperateNull F left right
     else SMALLINT_MODIFY_FUNC F (AddValue F) (f_add F) left right))"

definition IntegerType_Add :: "'d cpp \<Rightarrow> 'd Value \<Rightarrow> 'd Value \<Rightarrow> 'd Value res" where
  "IntegerType_Add F left right =
     bindE (assertE (CheckInteger left)) (\<lambda>_.
     bindE (assertE (CheckComparable left right)) (\<lambda>_.
     if IsNull left \<or> IsNull right then Value_OperateNull F left right
     else INT_MODIFY_FUNC F (AddValue F) (f_add F) left right))"

definition BigintType_Add :: "'d cpp \<Rightarrow> 'd Value \<Rightarrow> 'd Value \<Rightarrow> 'd Value res" where
  "BigintType_Add F left right =
     bindE (assertE (CheckInteger left)) (\<lambda>_.
     bindE (assertE (CheckComparable left right)) (\<lambda>_.
     if IsNull left \<or> IsNull right then Value_OperateNull F left right
     else BIGINT_MODIFY_FUNC F (AddValue F) (f_add F) left right))"

definition DecimalType_Add :: "'d cpp \<Rightarrow> 'd Value \<Rightarrow> 'd Value \<Rightarrow> 'd Value res" where
  "DecimalType_Add F left right =
     bindE (assertE (CheckComparable left right)) (\<lambda>_.
     if IsNull left \<or> IsNull right then Value_OperateNull F left right
     else DECIMAL_MODIFY_FUNC F (f_add F) left right)"

definition Value_Add :: "'d cpp \<Rightarrow> 'd Value \<Rightarrow> 'd Value \<Rightarrow> 'd Value res" where
  "Value_Add F v r =
     bindE (GetInstance (v_type v)) (\<lambda>t.
       case t of
          BaseObj \<Rightarrow> Type_Add v r
        | BooleanObj \<Rightarrow> Type_Add v r
        | TinyintObj \<Rightarrow> TinyintType_Add F v r
        | SmallintObj \<Rightarrow> SmallintType_Add F v r
        | IntegerObj \<Rightarrow> IntegerType_Add F v r
        | BigintObj \<Rightarrow> BigintType_Add F v r
        | DecimalObj \<Rightarrow> DecimalType_Add F v r
        | VarlenObj \<Rightarrow> Type_Add v r)"

section \<open>\<^verbatim>\<open>Subtract\<close>\<close>

definition Type_Subtract :: "'d Value \<Rightarrow> 'd Value \<Rightarrow> 'd Value res" where
  "Type_Subtract left right = fail (Thrown EXCEPTION_TYPE_NOT_IMPLEMENTED ''Subtract not implemented'')"

definition TinyintType_Subtract :: "'d cpp \<Rightarrow> 'd Value \<Rightarrow> 'd Value \<Rightarrow> 'd Value res" where
  "TinyintType_Subtract F left right =
     bindE (assertE (CheckInteger left)) (\<lambda>_.
     bindE (assertE (CheckComparable left right)) (\<lambda>_.
     if IsNull left \<or> IsNull right then Value_OperateNull F left right
     else TINYINT_MODIFY_FUNC F (SubtractValue F) (f_sub F) left right))"

definition SmallintType_Subtract :: "'d cpp \<Rightarrow> 'd Value \<Rightarrow> 'd Value \<Rightarrow> 'd Value res" where
  "SmallintType_Subtract F left right =
     bindE (assertE (CheckInteger left)) (\<lambda>_.
     bindE (assertE (CheckComparable left right)) (\<lambda>_.
     if IsNull left \<or> IsNull right then Value_OperateNull F left right
     else SMALLINT_MODIFY_FUNC F (SubtractValue F) (f_sub F) left right))"

definition IntegerType_Subtract :: "'d cpp \<Rightarrow> 'd Value \<Rightarrow> 'd Value \<Rightarrow> 'd Value res" where
  "IntegerType_Subtract F left right =
     bindE (assertE (CheckInteger left)) (\<lambda>_.
     bindE (assertE (CheckComparable left right)) (\<lambda>_.
     if IsNull left \<or> IsNull right then Value_OperateNull F left right
     else INT_MODIFY_FUNC F (SubtractValue F) (f_sub F) left right))"

definition BigintType_Subtract :: "'d cpp \<Rightarrow> 'd Value \<Rightarrow> 'd Value \<Rightarrow> 'd Value res" where
  "BigintType_Subtract F left right =
     bindE (assertE (CheckInteger left)) (\<lambda>_.
     bindE (assertE (CheckComparable left right)) (\<lambda>_.
     if IsNull left \<or> IsNull right then Value_OperateNull F left right
     else BIGINT_MODIFY_FUNC F (SubtractValue F) (f_sub F) left right))"

definition DecimalType_Subtract :: "'d cpp \<Rightarrow> 'd Value \<Rightarrow> 'd Value \<Rightarrow> 'd Value res" where
  "DecimalType_Subtract F left right =
     bindE (assertE (CheckComparable left right)) (\<lambda>_.
     if IsNull left \<or> IsNull right then Value_OperateNull F left right
     else DECIMAL_MODIFY_FUNC F (f_sub F) left right)"

definition Value_Subtract :: "'d cpp \<Rightarrow> 'd Value \<Rightarrow> 'd Value \<Rightarrow> 'd Value res" where
  "Value_Subtract F v r =
     bindE (GetInstance (v_type v)) (\<lambda>t.
       case t of
          BaseObj \<Rightarrow> Type_Subtract v r
        | BooleanObj \<Rightarrow> Type_Subtract v r
        | TinyintObj \<Rightarrow> TinyintType_Subtract F v r
        | SmallintObj \<Rightarrow> SmallintType_Subtract F v r
        | IntegerObj \<Rightarrow> IntegerType_Subtract F v r
        | BigintObj \<Rightarrow> BigintType_Subtract F v r
        | DecimalObj \<Rightarrow> DecimalType_Subtract F v r
        | VarlenObj \<Rightarrow> Type_Subtract v r)"

section \<open>\<^verbatim>\<open>Multiply\<close>\<close>

definition Type_Multiply :: "'d Value \<Rightarrow> 'd Value \<Rightarrow> 'd Value res" where
  "Type_Multiply left right = fail (Thrown EXCEPTION_TYPE_NOT_IMPLEMENTED ''Multiply not implemented'')"

definition TinyintType_Multiply :: "'d cpp \<Rightarrow> 'd Value \<Rightarrow> 'd Value \<Rightarrow> 'd Value res" where
  "TinyintType_Multiply F left right =
     bindE (assertE (CheckInteger left)) (\<lambda>_.
     bindE (assertE (CheckComparable left right)) (\<lambda>_.
     if IsNull left \<or> IsNull right then Value_OperateNull F left right
     else TINYINT_MODIFY_FUNC F (MultiplyValue F) (f_mul F) left right))"

definition SmallintType_Multiply :: "'d cpp \<Rightarrow> 'd Value \<Rightarrow> 'd Value \<Rightarrow> 'd Value res" where
  "SmallintType_Multiply F left right =
     bindE (assertE (CheckInteger left)) (\<lambda>_.
     bindE (assertE (CheckComparable left right)) (\<lambda>_.
     if IsNull left \<or> IsNull right then Value_OperateNull F left right
     else SMALLINT_MODIFY_FUNC F (MultiplyValue F) (f_mul F) left right))"

definition IntegerType_Multiply :: "'d cpp \<Rightarrow> 'd Value \<Rightarrow> 'd Value \<Rightarrow> 'd Value res" where
  "IntegerType_Multiply F left right =
     bindE (assertE (CheckInteger left)) (\<lambda>_.
     bindE (assertE (CheckComparable left right)) (\<lambda>_.
     if IsNull left \<or> IsNull right then Value_OperateNull F left right
     else INT_MODIFY_FUNC F (MultiplyValue F) (f_mul F) left right))"

definition BigintType_Multiply :: "'d cpp \<Rightarrow> 'd Value \<Rightarrow> 'd Value \<Rightarrow> 'd Value res" where
  "BigintType_Multiply F left right =
     bindE (assertE (CheckInteger left)) (\<lambda>_.
     bindE (assertE (CheckComparable left right)) (\<lambda>_.
     if IsNull left \<or> IsNull right then Value_OperateNull F left right
     else BIGINT_MODIFY_FUNC F (MultiplyValue F) (f_mul F) left right))"

definition DecimalType_Multiply :: "'d cpp \<Rightarrow> 'd Value \<Rightarrow> 'd Value \<Rightarrow> 'd Value res" where
  "DecimalType_Multiply F left right =
     bindE (assertE (CheckComparable left right)) (\<lambda>_.
     if IsNull left \<or> IsNull right then Value_OperateNull F left right
     else DECIMAL_MODIFY_FUNC F (f_mul F) left right)"

definition Value_Multiply :: "'d cpp \<Rightarrow> 'd Value \<Rightarrow> 'd Value \<Rightarrow> 'd Value res" where
  "Value_Multiply F v r =
     bindE (GetInstance (v_type v)) (\<lambda>t.
       case t of
          BaseObj \<Rightarrow> Type_Multiply v r
        | BooleanObj \<Rightarrow> Type_Multiply v r
        | TinyintObj \<Rightarrow> TinyintType_Multiply F v r
        | SmallintObj \<Rightarrow> SmallintType_Multiply F v r
        | IntegerObj \<Rightarrow> IntegerType_Multiply F v r
        | BigintObj \<Rightarrow> BigintType_Multiply F v r
        | DecimalObj \<Rightarrow> DecimalType_Multiply F v r
        | VarlenObj \<Rightarrow> Type_Multiply v r)"

section \<open>\<^verbatim>\<open>Divide\<close>\<close>

definition Type_Divide :: "'d Value \<Rightarrow> 'd Value \<Rightarrow> 'd Value res" where
  "Type_Divide left right = fail (Thrown EXCEPTION_TYPE_NOT_IMPLEMENTED ''Divide not implemented'')"

definition TinyintType_Divide :: "'d cpp \<Rightarrow> 'd Value \<Rightarrow> 'd Value \<Rightarrow> 'd Value res" where
  "TinyintType_Divide F left right =
     bindE (assertE (CheckInteger left)) (\<lambda>_.
     bindE (assertE (CheckComparable left right)) (\<lambda>_.
     if IsNull left \<or> IsNull right then Value_OperateNull F left right
     else bindE (Value_IsZero F right) (\<lambda>z.
       if z then fail (Thrown EXCEPTION_TYPE_DIVIDE_BY_ZERO ''Division by zero on right-hand side'')
       else TINYINT_MODIFY_FUNC F (DivideValue) (f_div F) left right)))"

definition SmallintType_Divide :: "'d cpp \<Rightarrow> 'd Value \<Rightarrow> 'd Value \<Rightarrow> 'd Value res" where
  "SmallintType_Divide F left right =
     bindE (assertE (CheckInteger left)) (\<lambda>_.
     bindE (assertE (CheckComparable left right)) (\<lambda>_.
     if IsNull left \<or> IsNull right then Value_OperateNull F left right
     else bindE (Value_IsZero F right) (\<lambda>z.
       if z then fail (Thrown EXCEPTION_TYPE_DIVIDE_BY_ZERO ''Division by zero on right-hand side'')
       else SMALLINT_MODIFY_FUNC F (DivideValue) (f_div F) left right)))"

definition IntegerType_Divide :: "'d cpp \<Rightarrow> 'd Value \<Rightarrow> 'd Value \<Rightarrow> 'd Value res" where
  "IntegerType_Divide F left right =
     bindE (assertE (CheckInteger left)) (\<lambda>_.
     bindE (assertE (CheckComparable left right)) (\<lambda>_.
     if IsNull left \<or> IsNull right then Value_OperateNull F left right
     else bindE (Value_IsZero F right) (\<lambda>z.
       if z then fail (Thrown EXCEPTION_TYPE_DIVIDE_BY_ZERO ''Division by zero on right-hand side'')
       else INT_MODIFY_FUNC F (DivideValue) (f_div F) left right)))"

definition BigintType_Divide :: "'d cpp \<Rightarrow> 'd Value \<Rightarrow> 'd Value \<Rightarrow> 'd Value res" where
  "BigintType_Divide F left right =
     bindE (assertE (CheckInteger left)) (\<lambda>_.
     bindE (assertE (CheckComparable left right)) (\<lambda>_.
     if IsNull left \<or> IsNull right then Value_OperateNull F left right
     else bindE (Value_IsZero F right) (\<lambda>z.
       if z then fail (Thrown EXCEPTION_TYPE_DIVIDE_BY_ZERO ''Division by zero on right-hand side'')
       else BIGINT_MODIFY_FUNC F (DivideValue) (f_div F) left right)))"

definition DecimalType_Divide :: "'d cpp \<Rightarrow> 'd Value \<Rightarrow> 'd Value \<Rightarrow> 'd Value res" where
  "DecimalType_Divide F left right =
     bindE (assertE (CheckComparable left right)) (\<lambda>_.
     if IsNull left \<or> IsNull right then Value_OperateNull F left right
     else bindE (Value_IsZero F right) (\<lambda>z.
       if z then fail (Thrown EXCEPTION_TYPE_DIVIDE_BY_ZERO ''Division by zero on right-hand side'')
       else DECIMAL_MODIFY_FUNC F (f_div F) left right))"

definition Value_Divide :: "'d cpp \<Rightarrow> 'd Value \<Rightarrow> 'd Value \<Rightarrow> 'd Value res" where
  "Value_Divide F v r =
     bindE (GetInstance (v_type v)) (\<lambda>t.
       case t of
          BaseObj \<Rightarrow> Type_Divide v r
        | BooleanObj \<Rightarrow> Type_Divide v r
        | TinyintObj \<Rightarrow> TinyintType_Divide F v r
        | SmallintObj \<Rightarrow> SmallintType_Divide F v r
        | IntegerObj \<Rightarrow> IntegerType_Divide F v r
        | BigintObj \<Rightarrow> BigintType_Divide F v r
        | DecimalObj \<Rightarrow> DecimalType_Divide F v r
        | VarlenObj \<Rightarrow> Type_Divide v r)"

section \<open>\<^verbatim>\<open>Modulo\<close>\<close>

definition Type_Modulo :: "'d Value \<Rightarrow> 'd Value \<Rightarrow> 'd Value res" where
  "Type_Modulo left right = fail (Thrown EXCEPTION_TYPE_NOT_IMPLEMENTED ''Modulo not implemented'')"

definition TinyintType_Modulo :: "'d cpp \<Rightarrow> 'd Value \<Rightarrow> 'd Value \<Rightarrow> 'd Value res" where
  "TinyintType_Modulo F left right =
     bindE (assertE (CheckInteger left)) (\<lambda>_.
     bindE (assertE (CheckComparable left right)) (\<lambda>_.
     if IsNull left \<or> IsNull right then Value_OperateNull F left right
     else bindE (Value_IsZero F right) (\<lambda>z.
       if z then fail (Thrown EXCEPTION_TYPE_DIVIDE_BY_ZERO ''Division by zero on right-hand side'')
       else TINYINT_MODIFY_FUNC F ModuloValue (ValMod F) left right)))"

definition SmallintType_Modulo :: "'d cpp \<Rightarrow> 'd Value \<Rightarrow> 'd Value \<Rightarrow> 'd Value res" where
  "SmallintType_Modulo F left right =
     bindE (assertE (CheckInteger left)) (\<lambda>_.
     bindE (assertE (CheckComparable left right)) (\<lambda>_.
     if IsNull left \<or> IsNull right then Value_OperateNull F left right
     else bindE (Value_IsZero F right) (\<lambda>z.
       if z then fail (Thrown EXCEPTION_TYPE_DIVIDE_BY_ZERO ''Division by zero on right-hand side'')
       else SMALLINT_MODIFY_FUNC F ModuloValue (ValMod F) left right)))"

definition IntegerType_Modulo :: "'d cpp \<Rightarrow> 'd Value \<Rightarrow> 'd Value \<Rightarrow> 'd Value res" where
  "IntegerType_Modulo F left right =
     bindE (assertE (CheckInteger left)) (\<lambda>_.
     bindE (assertE (CheckComparable left right)) (\<lambda>_.
     if IsNull left \<or> IsNull right then Value_OperateNull F left right
     else bindE (Value_IsZero F right) (\<lambda>z.
       if z then fail (Thrown EXCEPTION_TYPE_DIVIDE_BY_ZERO ''Division by zero on right-hand side'')
       else INT_MODIFY_FUNC F ModuloValue (ValMod F) left right)))"

definition BigintType_Modulo :: "'d cpp \<Rightarrow> 'd Value \<Rightarrow> 'd Value \<Rightarrow> 'd Value res" where
  "BigintType_Modulo F left right =
     bindE (assertE (CheckInteger left)) (\<lambda>_.
     bindE (assertE (CheckComparable left right)) (\<lambda>_.
     if IsNull left \<or> IsNull right then Value_OperateNull F left right
     else bindE (Value_IsZero F right) (\<lambda>z.
       if z then fail (Thrown EXCEPTION_TYPE_DIVIDE_BY_ZERO ''Division by zero on right-hand side'')
       else BIGINT_MODIFY_FUNC F ModuloValue (ValMod F) left right)))"

definition DecimalType_Modulo :: "'d cpp \<Rightarrow> 'd Value \<Rightarrow> 'd Value \<Rightarrow> 'd Value res" where
  "DecimalType_Modulo F left right =
     bindE (assertE (CheckComparable left right)) (\<lambda>_.
     if IsNull left \<or> IsNull right then DecimalType_OperateNull F left right
     else bindE (Value_IsZero F right) (\<lambda>z.
       if z then fail (Thrown EXCEPTION_TYPE_DIVIDE_BY_ZERO ''Division by zero on right-hand side'')
       else DECIMAL_MODIFY_FUNC F (ValMod F) left right))"

definition Value_Modulo :: "'d cpp \<Rightarrow> 'd Value \<Rightarrow> 'd Value \<Rightarrow> 'd Value res" where
  "Value_Modulo F v r =
     bindE (GetInstance (v_type v)) (\<lambda>t.
       case t of
          BaseObj \<Rightarrow> Type_Modulo v r
        | BooleanObj \<Rightarrow> Type_Modulo v r
        | TinyintObj \<Rightarrow> TinyintType_Modulo F v r
        | SmallintObj \<Rightarrow> SmallintType_Modulo F v r
        | IntegerObj \<Rightarrow> IntegerType_Modulo F v r
        | BigintObj \<Rightarrow> BigintType_Modulo F v r
        | DecimalObj \<Rightarrow> DecimalType_Modulo F v r
        | VarlenObj \<Rightarrow> Type_Modulo v r)"

section \<open>\<^verbatim>\<open>Sqrt\<close>\<close>

definition Type_Sqrt :: "'d Value \<Rightarrow> 'd Value res" where
  "Type_Sqrt v = fail (Thrown EXCEPTION_TYPE_NOT_IMPLEMENTED ''Sqrt not implemented'')"

definition TinyintType_Sqrt :: "'d cpp \<Rightarrow> 'd Value \<Rightarrow> 'd Value res" where
  "TinyintType_Sqrt F v =
     bindE (assertE (CheckInteger v)) (\<lambda>_.
     if IsNull v then Value_double F DECIMAL (DBL_LOWEST F)
     else bindE (GetAs_int Int8 v) (\<lambda>x.
       if x < 0 then fail (Thrown EXCEPTION_TYPE_DECIMAL ''Cannot take square root of a negative number.'')
       else Value_double F DECIMAL (f_sqrt F (f_of_int F x))))"

definition SmallintType_Sqrt :: "'d cpp \<Rightarrow> 'd Value \<Rightarrow> 'd Value res" where
  "SmallintType_Sqrt F v =
     bindE (assertE (CheckInteger v)) (\<lambda>_.
     if IsNull v then Value_double F DECIMAL (DBL_LOWEST F)
     else bindE (GetAs_int Int16 v) (\<lambda>x.
       if x < 0 then fail (Thrown EXCEPTION_TYPE_DECIMAL ''Cannot take square root of a negative number.'')
       else Value_double F DECIMAL (f_sqrt F (f_of_int F x))))"

definition IntegerType_Sqrt :: "'d cpp \<Rightarrow> 'd Value \<Rightarrow> 'd Value res" where
  "IntegerType_Sqrt F v =
     bindE (assertE (CheckInteger v)) (\<lambda>_.
     if IsNull v then IntegerType_OperateNull F v v
     else bindE (GetAs_int Int32 v) (\<lambda>x.
       if x < 0 then fail (Thrown EXCEPTION_TYPE_DECIMAL ''Cannot take square root of a negative number.'')
       else Value_double F DECIMAL (f_sqrt F (f_of_int F x))))"

definition BigintType_Sqrt :: "'d cpp \<Rightarrow> 'd Value \<Rightarrow> 'd Value res" where
  "BigintType_Sqrt F v =
     bindE (assertE (CheckInteger v)) (\<lambda>_.
     if IsNull v then Value_double F DECIMAL (DBL_LOWEST F)
     else bindE (GetAs_int Int64 v) (\<lambda>x.
       if x < 0 then fail (Thrown EXCEPTION_TYPE_DECIMAL ''Cannot take square root of a negative number.'')
       else Value_double F DECIMAL (f_sqrt F (f_of_int F x))))"

definition DecimalType_Sqrt :: "'d cpp \<Rightarrow> 'd Value \<Rightarrow> 'd Value res" where
  "DecimalType_Sqrt F v =
     (if IsNull v then Value_double F DECIMAL (DBL_LOWEST F)
      else bindE (GetAs_double v) (\<lambda>x.
        if f_lt F x (f_of_int F 0) then fail (Thrown EXCEPTION_TYPE_DECIMAL ''Cannot take square root of a negative number.'')
        else Value_double F DECIMAL (f_sqrt F x)))"

definition Value_Sqrt :: "'d cpp \<Rightarrow> 'd Value \<Rightarrow> 'd Value res" where
  "Value_Sqrt F v =
     bindE (GetInstance (v_type v)) (\<lambda>t.
       case t of
          BaseObj \<Rightarrow> Type_Sqrt v
        | BooleanObj \<Rightarrow> Type_Sqrt v
        | TinyintObj \<Rightarrow> TinyintType_Sqrt F v
        | SmallintObj \<Rightarrow> SmallintType_Sqrt F v
        | IntegerObj \<Rightarrow> IntegerType_Sqrt F v
        | BigintObj \<Rightarrow> BigintType_Sqrt F v
        | DecimalObj \<Rightarrow> DecimalType_Sqrt F v
        | VarlenObj \<Rightarrow> Type_Sqrt v)"

section \<open>\<^verbatim>\<open>Min\<close> and \<^verbatim>\<open>Max\<close>\<close>

definition Type_Min :: "'d Value \<Rightarrow> 'd Value \<Rightarrow> 'd Value res" where
  "Type_Min left right = fail (Thrown EXCEPTION_TYPE_NOT_IMPLEMENTED ''Min not implemented'')"

definition IntegerParentType_Min :: "'d cpp \<Rightarrow> 'd Value \<Rightarrow> 'd Value \<Rightarrow> 'd Value res" where
  "IntegerParentType_Min F left right =
     bindE (assertE (CheckInteger left)) (\<lambda>_.
     bindE (assertE (CheckComparable left right)) (\<lambda>_.
     if IsNull left \<or> IsNull right then Value_OperateNull F left right
     else bindE (Value_CompareLessThan F left right) (\<lambda>c.
       if c = CMP_TRUE then Value_Copy F left else Value_Copy F right)))"

definition DecimalType_Min :: "'d cpp \<Rightarrow> 'd Value \<Rightarrow> 'd Value \<Rightarrow> 'd Value res" where
  "DecimalType_Min F left right =
     bindE (assertE (CheckComparable left right)) (\<lambda>_.
     if IsNull left \<or> IsNull right then Value_OperateNull F left right
     else bindE (Value_CompareLessThanEquals F left right) (\<lambda>c.
       if c = CMP_TRUE then Value_Copy F left else Value_Copy F right))"

definition VarlenType_Min :: "'d cpp \<Rightarrow> 'd Value \<Rightarrow> 'd Value \<Rightarrow> 'd Value res" where
  "VarlenType_Min F left right =
     bindE (assertE (CheckComparable left right)) (\<lambda>_.
     if IsNull left \<or> IsNull right then Value_OperateNull F left right
     else bindE (Value_CompareLessThan F left right) (\<lambda>c.
       if c = CMP_TRUE then Value_Copy F left else Value_Copy F right))"

definition Value_Min :: "'d cpp \<Rightarrow> 'd Value \<Rightarrow> 'd Value \<Rightarrow> 'd Value res" where
  "Value_Min F v r =
     bindE (GetInstance (v_type v)) (\<lambda>t.
       case t of
          BaseObj \<Rightarrow> Type_Min v r
        | BooleanObj \<Rightarrow> Type_Min v r
        | TinyintObj \<Rightarrow> IntegerParentType_Min F v r
        | SmallintObj \<Rightarrow> IntegerParentType_Min F v r
        | IntegerObj \<Rightarrow> IntegerParentType_Min F v r
        | BigintObj \<Rightarrow> IntegerParentType_Min F v r
        | DecimalObj \<Rightarrow> DecimalType_Min F v r
        | VarlenObj \<Rightarrow> VarlenType_Min F v r)"

definition Type_Max :: "'d Value \<Rightarrow> 'd Value \<Rightarrow> 'd Value res" where
  "Type_Max left right = fail (Thrown EXCEPTION_TYPE_NOT_IMPLEMENTED ''Max not implemented'')"

definition IntegerParentType_Max :: "'d cpp \<Rightarrow> 'd Value \<Rightarrow> 'd Value \<Rightarrow> 'd Value res" where
  "IntegerParentType_Max F left right =
     bindE (assertE (CheckInteger left)) (\<lambda>_.
     bindE (assertE (CheckComparable left right)) (\<lambda>_.
     if IsNull left \<or> IsNull right then Value_OperateNull F left right
     else bindE (Value_CompareGreaterThanEquals F left right) (\<lambda>c.
       if c = CMP_TRUE then Value_Copy F left else Value_Copy F right)))"

definition DecimalType_Max :: "'d cpp \<Rightarrow> 'd Value \<Rightarrow> 'd Value \<Rightarrow> 'd Value res" where
  "DecimalType_Max F left right =
     bindE (assertE (CheckComparable left right)) (\<lambda>_.
     if IsNull left \<or> IsNull right then Value_OperateNull F left right
     else bindE (Value_CompareGreaterThanEquals F left right) (\<lambda>c.
       if c = CMP_TRUE then Value_Copy F left else Value_Copy F right))"

definition VarlenType_Max :: "'d cpp \<Rightarrow> 'd Value \<Rightarrow> 'd Value \<Rightarrow> 'd Value res" where
  "VarlenType_Max F left right =
     bindE (assertE (CheckComparable left right)) (\<lambda>_.
     if IsNull left \<or> IsNull right then Value_OperateNull F left right
     else bindE (Value_CompareGreaterThan F left right) (\<lambda>c.
       if c = CMP_TRUE then Value_Copy F left else Value_Copy F right))"

definition Value_Max :: "'d cpp \<Rightarrow> 'd Value \<Rightarrow> 'd Value \<Rightarrow> 'd Value res" where
  "Value_Max F v r =
     bindE (GetInstance (v_type v)) (\<lambda>t.
       case t of
          BaseObj \<Rightarrow> Type_Max v r
        | BooleanObj \<Rightarrow> Type_Max v r
        | TinyintObj \<Rightarrow> IntegerParentType_Max F v r
        | SmallintObj \<Rightarrow> IntegerParentType_Max F v r
        | IntegerObj \<Rightarrow> IntegerParentType_Max F v r
        | BigintObj \<Rightarrow> IntegerParentType_Max F v r
        | DecimalObj \<Rightarrow> DecimalType_Max F v r
        | VarlenObj \<Rightarrow> VarlenType_Max F v r)"

end
