(* ===== verification/Type_Spec.thy ===== *)
theory Type_Spec
  imports Type_Arith
begin

text \<open>
  What the value classes promise. \<^verbatim>\<open>int_val t x\<close> is the SQL integer \<^verbatim>\<open>x\<close> of the type carried by
  the C++ type \<^verbatim>\<open>t\<close>, \<^verbatim>\<open>null_val t\<close> its NULL; \<^verbatim>\<open>str_val s\<close> is a string. The lemmas reduce the
  dispatch to the templates once per operation; the properties characterise arithmetic,
  comparison, casts and the stored image for every pair of types.
\<close>

section \<open>The values the constructors build\<close>

fun sql_type :: "ctype \<Rightarrow> TypeId" where
  "sql_type Int8 = TINYINT"
| "sql_type Int16 = SMALLINT"
| "sql_type Int32 = INTEGER"
| "sql_type Int64 = BIGINT"

fun int_member :: "ctype \<Rightarrow> int \<Rightarrow> 'd Val" where
  "int_member Int8 x = VTinyint (word_of_int x)"
| "int_member Int16 x = VSmallint (word_of_int x)"
| "int_member Int32 x = VInteger (word_of_int x)"
| "int_member Int64 x = VBigint (word_of_int x)"

definition int_val :: "ctype \<Rightarrow> int \<Rightarrow> 'd Value" where
  "int_val t x = stored (sql_type t) (int_member t x) False"

definition null_val :: "ctype \<Rightarrow> 'd Value" where
  "null_val t = stored (sql_type t) (int_member t (PELOTON_INT_NULL t)) True"

definition str_val :: "string \<Rightarrow> 'd Value" where
  "str_val s =
     \<lparr>v_val = VVarlen (Some (bytes_of_string s @ [0])), v_len = word_of_nat (length s + 1),
      v_manage = True, v_type = VARCHAR\<rparr>"

definition in_sql :: "ctype \<Rightarrow> int \<Rightarrow> bool" where
  "in_sql t x \<longleftrightarrow> PELOTON_INT_MIN t \<le> x \<and> x \<le> PELOTON_INT_MAX t"

definition wider :: "ctype \<Rightarrow> ctype \<Rightarrow> ctype" where
  "wider t1 t2 = (if bits t1 \<ge> bits t2 then t1 else t2)"

named_theorems value_simps \<open>evaluation of values, constructors and dispatch\<close>

lemmas value_ctor_simps [value_simps] =
  Value_int8_def Value_int16_def Value_int32_def Value_int64_def value_switch_def Let_def

lemmas value_field_simps [value_simps] =
  int_val_def null_val_def stored_def Value_of_type_def IsNull_def
  PELOTON_VALUE_NULL_def GetInstance_def

lemma in_sql_ctype: "in_sql t x \<Longrightarrow> in_ctype t x"
  by (cases t) (simp_all add: in_sql_def in_ctype_def)

lemma in_ctype_cases: "in_ctype t x \<longleftrightarrow> in_sql t x \<or> x = PELOTON_INT_NULL t"
  by (cases t) (auto simp: in_sql_def in_ctype_def)

lemma in_sql_not_null: "in_sql t x \<Longrightarrow> x \<noteq> PELOTON_INT_NULL t"
  by (cases t) (auto simp: in_sql_def)

lemma sint_word_of_int [simp]:
  "sint (word_of_int x :: 8 word) = narrow Int8 x"
  "sint (word_of_int x :: 16 word) = narrow Int16 x"
  "sint (word_of_int x :: 32 word) = narrow Int32 x"
  "sint (word_of_int x :: 64 word) = narrow Int64 x"
  by (simp_all add: narrow_def signed_of_int)

lemma Value_of_ctype_in:
  "in_sql t x \<Longrightarrow> Value_of_ctype t (sql_type t) x = ok (int_val t x)"
  using narrow_in_ctype [OF in_sql_ctype, of t x] in_sql_not_null [of t x]
  by (cases t) (simp_all add: value_simps)

lemma Value_of_ctype_null:
  "Value_of_ctype t (sql_type t) (PELOTON_INT_NULL t) = ok (null_val t)"
  by (cases t) (simp_all add: value_simps narrow_in_ctype in_ctype_def)

lemma GetAs_int_val [simp]: "in_sql t x \<Longrightarrow> GetAs_int t (int_val t x) = ok x"
  using narrow_in_ctype [OF in_sql_ctype, of t x]
  by (cases t) (simp_all add: value_simps)

lemma int_val_fields [simp]:
  "v_type (int_val t x) = sql_type t" "\<not> IsNull (int_val t x)" "CheckInteger (int_val t x)"
  "v_type (null_val t) = sql_type t" "IsNull (null_val t)" "CheckInteger (null_val t)"
  by (cases t; simp add: value_simps)+

lemma CheckComparable_int [simp]:
  "v_type v = sql_type t1 \<Longrightarrow> v_type w = sql_type t2 \<Longrightarrow> CheckComparable v w"
  by (cases t1; cases t2; simp)

text \<open>
  An instance of the arithmetic parameter for evaluation at concrete inputs: numbers are 64-bit
  integers, division and square root are those of the integers, signed overflow wraps.
\<close>

definition word_cpp :: "64 word cpp" where
  "word_cpp =
     \<lparr>wraps = True, f_add = (+), f_sub = (-), f_mul = (*),
      f_div = (\<lambda>a b. word_of_int (sint a sdiv sint b)), f_eq = (=),
      f_lt = (\<lambda>a b. sint a < sint b), f_le = (\<lambda>a b. sint a \<le> sint b), f_trunc = (\<lambda>a. a),
      f_sqrt = (\<lambda>a. of_nat (last (takeWhile (\<lambda>n. n * n \<le> unat a) [0..<4294967296]))), f_of_int = word_of_int,
      f_to_int = (\<lambda>a. Some (sint a)), f_to_string = (\<lambda>a. to_string (sint a)),
      f_stod = (\<lambda>s. case sto Int64 s of Parsed z \<Rightarrow> Parsed (word_of_int z)
         | Parse_Invalid \<Rightarrow> Parse_Invalid | Parse_Range \<Rightarrow> Parse_Range),
      f_enc = (\<lambda>a. le_enc 8 (uint a)), f_dec = (\<lambda>bs. word_of_int (le_dec bs)),
      DBL_LOWEST = word_of_int (- 9223372036854775808),
      FLT_LOWEST = word_of_int (- 9223372036854775807),
      DBL_MAX = word_of_int 9223372036854775807\<rparr>"

lemma wraps_word_cpp [simp]: "wraps word_cpp"
  by (simp add: word_cpp_def)

section \<open>Dispatch on integer values\<close>

lemmas modify_defs =
  TINYINT_MODIFY_FUNC_def SMALLINT_MODIFY_FUNC_def INT_MODIFY_FUNC_def BIGINT_MODIFY_FUNC_def

lemmas compare_defs =
  TINYINT_COMPARE_FUNC_def SMALLINT_COMPARE_FUNC_def INT_COMPARE_FUNC_def BIGINT_COMPARE_FUNC_def

lemma Value_Add_int:
  "Value_Add F (int_val t1 x) (int_val t2 y) = AddValue F t1 t2 (int_val t1 x) (int_val t2 y)"
  by (cases t1; cases t2;
      simp add: Value_Add_def GetInstance_def TinyintType_Add_def SmallintType_Add_def
        IntegerType_Add_def BigintType_Add_def modify_defs)

lemma Value_Subtract_int:
  "Value_Subtract F (int_val t1 x) (int_val t2 y) =
     SubtractValue F t1 t2 (int_val t1 x) (int_val t2 y)"
  by (cases t1; cases t2;
      simp add: Value_Subtract_def GetInstance_def TinyintType_Subtract_def
        SmallintType_Subtract_def IntegerType_Subtract_def BigintType_Subtract_def modify_defs)

lemma Value_Multiply_int:
  "Value_Multiply F (int_val t1 x) (int_val t2 y) =
     MultiplyValue F t1 t2 (int_val t1 x) (int_val t2 y)"
  by (cases t1; cases t2;
      simp add: Value_Multiply_def GetInstance_def TinyintType_Multiply_def
        SmallintType_Multiply_def IntegerType_Multiply_def BigintType_Multiply_def modify_defs)

section \<open>Wrap-around and its detection\<close>

lemma narrow_neq: "\<not> in_ctype t z \<Longrightarrow> narrow t z \<noteq> z"
  using in_ctype_narrow [of t z] by auto

lemma narrow_over:
  "PELOTON_INT_MAX t < z \<Longrightarrow> z \<le> 2 * PELOTON_INT_MAX t + 1 \<Longrightarrow> narrow t z = z - 2 ^ bits t"
proof -
  assume z: "PELOTON_INT_MAX t < z" "z \<le> 2 * PELOTON_INT_MAX t + 1"
  then have "in_ctype t (z - 2 ^ bits t)" by (cases t) (auto simp: in_ctype_def)
  moreover have "narrow t (z - 2 ^ bits t) = narrow t z"
    using narrow_mod [of t z] narrow_mod [of t "z - 2 ^ bits t"] by simp
  ultimately show ?thesis using narrow_in_ctype by metis
qed

lemma narrow_under:
  "z < PELOTON_INT_NULL t \<Longrightarrow> 2 * PELOTON_INT_NULL t \<le> z \<Longrightarrow> narrow t z = z + 2 ^ bits t"
proof -
  assume z: "z < PELOTON_INT_NULL t" "2 * PELOTON_INT_NULL t \<le> z"
  then have "in_ctype t (z + 2 ^ bits t)" by (cases t) (auto simp: in_ctype_def)
  moreover have "narrow t (z + 2 ^ bits t) = narrow t z"
    using narrow_mod [of t z] narrow_mod [of t "z + 2 ^ bits t"] by simp
  ultimately show ?thesis using narrow_in_ctype by metis
qed

lemma narrow_diff: "\<exists>k. narrow t z = z + k * 2 ^ bits t"
proof -
  have "take_bit (bits t) (narrow t z) = take_bit (bits t) z"
    by (cases t) (simp_all add: narrow_def take_bit_signed_take_bit)
  then have "narrow t z mod 2 ^ bits t = z mod 2 ^ bits t"
    by (simp only: take_bit_eq_mod)
  then have "(2 :: int) ^ bits t dvd narrow t z - z"
    by (simp add: mod_eq_dvd_iff)
  then obtain k where "narrow t z - z = 2 ^ bits t * k" by auto
  then show ?thesis by (intro exI [of _ k]) (simp add: algebra_simps)
qed

text \<open>The wider operand type decides the arithmetic: below 32 bits nothing overflows \<^verbatim>\<open>int\<close>.\<close>

lemma promote_wider: "32 \<le> bits (wider t1 t2) \<Longrightarrow> promote t1 t2 = wider t1 t2"
  by (cases t1; cases t2) (simp_all add: promote_def wider_def)

lemma promote_small: "bits (wider t1 t2) < 32 \<Longrightarrow> promote t1 t2 = Int32"
  by (cases t1; cases t2) (simp_all add: promote_def wider_def)

lemma in_sql_wider:
  "in_sql t1 x \<Longrightarrow> in_sql (wider t1 t2) x" "in_sql t2 x \<Longrightarrow> in_sql (wider t1 t2) x"
  by (cases t1; cases t2; simp add: wider_def in_sql_def)+

lemma in_ctype_wider:
  "in_ctype t1 x \<Longrightarrow> in_ctype (wider t1 t2) x" "in_ctype t2 x \<Longrightarrow> in_ctype (wider t1 t2) x"
  by (cases t1; cases t2; simp add: wider_def in_ctype_def)+

text \<open>
  The outcome of an operation whose exact result is \<^verbatim>\<open>z\<close>, in the type \<^verbatim>\<open>t\<close>: the value, NULL when
  the result is the sentinel, an out-of-range exception, or undefined behaviour when the compiler
  does not wrap and the overflow is one of the promoted type.
\<close>

definition int_outcome :: "bool \<Rightarrow> ctype \<Rightarrow> int \<Rightarrow> 'd Value res" where
  "int_outcome w t z =
     (if in_sql t z then ok (int_val t z)
      else if z = PELOTON_INT_NULL t then ok (null_val t)
      else if w \<or> bits t < 32 then fail (Thrown EXCEPTION_TYPE_OUT_OF_RANGE ''Numeric value out of range.'')
      else fail Undefined_Behaviour)"

lemma Value_of_ctype_outcome:
  "in_ctype t z \<Longrightarrow> Value_of_ctype t (sql_type t) z = int_outcome w t z"
  by (auto simp: in_ctype_cases int_outcome_def Value_of_ctype_in Value_of_ctype_null in_sql_not_null)


text \<open>
  The shape shared by the templates: the promoted result, the two narrowings, the range test, and
  the overflow test \<^verbatim>\<open>chk\<close> of the wider type.
\<close>

abbreviation out_of_range :: "'a res" where
  "out_of_range \<equiv> fail (Thrown EXCEPTION_TYPE_OUT_OF_RANGE ''Numeric value out of range.'')"

lemma checked_template:
  fixes chk1 chk2 :: "int \<Rightarrow> bool res"
  assumes t: "t = wider t1 t2"
    and chk: "chk = (if bits t2 \<le> bits t1 then chk1 else chk2)"
    and small: "bits t < 32 \<Longrightarrow> in_ctype Int32 z"
    and good: "in_ctype t z \<Longrightarrow> chk z = ok False"
    and bad: "\<not> in_ctype t z \<Longrightarrow> 32 \<le> bits t \<Longrightarrow> chk (narrow t z) = ok True"
  shows "bindE (c_arith w (promote t1 t2) z) (\<lambda>s.
     let s1 = narrow t1 s; s2 = narrow t2 s in
     if s \<noteq> s1 \<and> s \<noteq> s2 then out_of_range
     else if bits t1 \<ge> bits t2 then
       bindE (chk1 s1) (\<lambda>b. if b then out_of_range else Value_of_ctype t1 (sql_type t1) s1)
     else
       bindE (chk2 s2) (\<lambda>b. if b then out_of_range else Value_of_ctype t2 (sql_type t2) s2))
    = int_outcome w t z" (is "bindE _ ?body = _")
proof -
  have body: "?body s = (if s \<noteq> narrow t1 s \<and> s \<noteq> narrow t2 s then out_of_range
      else bindE (chk (narrow t s)) (\<lambda>b. if b then out_of_range
        else Value_of_ctype t (sql_type t) (narrow t s)))" for s
    by (simp add: t chk wider_def Let_def cong: if_cong)
  have t12: "s = narrow t s \<Longrightarrow> s = narrow t1 s \<or> s = narrow t2 s" for s
    by (simp add: t wider_def split: if_splits)
  show ?thesis
  proof (cases "in_ctype t z")
    case True
    then have "in_ctype (promote t1 t2) z"
      using small promote_wider [of t1 t2] promote_small [of t1 t2] t by (cases "bits t < 32") auto
    then have "c_arith w (promote t1 t2) z = ok z" by (simp add: c_arith_def)
    moreover have "narrow t z = z" by (rule narrow_in_ctype [OF True])
    ultimately show ?thesis
      using True t12 [of z] by (auto simp: body good Value_of_ctype_outcome [of _ _ w])
  next
    case out: False
    then have n1: "z \<noteq> narrow t1 z" "z \<noteq> narrow t2 z"
      using in_ctype_narrow [of t1 z] in_ctype_narrow [of t2 z] in_ctype_wider [of _ z] t by metis+
    have nsql: "\<not> in_sql t z" "z \<noteq> PELOTON_INT_NULL t" using out by (simp_all add: in_ctype_cases)
    show ?thesis
    proof (cases "bits t < 32")
      case True
      then have "c_arith w (promote t1 t2) z = ok z"
        using small promote_small [of t1 t2] t by (simp add: c_arith_def)
      then show ?thesis using n1 nsql True by (simp add: body int_outcome_def)
    next
      case False
      then have p: "promote t1 t2 = t" using promote_wider [of t1 t2] t by simp
      have idem: "narrow t (narrow t z) = narrow t z" by (rule narrow_in_ctype [OF in_ctype_narrow])
      show ?thesis
        using out p False nsql bad t12 [of "narrow t z"] idem
        by (cases w) (simp_all add: c_arith_def int_outcome_def body)
    qed
  qed
qed

lemma sql_bounds: "in_sql t x \<Longrightarrow> - PELOTON_INT_MAX t \<le> x \<and> x \<le> PELOTON_INT_MAX t"
  by (cases t) (simp_all add: in_sql_def)

lemma ctype_MAX: "PELOTON_INT_NULL t = - PELOTON_INT_MAX t - 1" "2 ^ bits t = 2 * PELOTON_INT_MAX t + 2"
  "0 < PELOTON_INT_MAX t"
  by (cases t; simp)+

lemma small_MAX: "bits t < 32 \<Longrightarrow> PELOTON_INT_MAX t \<le> 32767"
  by (cases t) simp_all

lemma sum_detected:
  fixes m :: int
  assumes "\<not> (- m - 1 \<le> x + y \<and> x + y \<le> m)" "- m \<le> x" "x \<le> m" "- m \<le> y" "y \<le> m"
  shows "m < x + y \<and> x + y \<le> 2 * m \<and> 0 < x \<and> 0 < y \<and> x + y - (2 * m + 2) < 0 \<or>
    x + y < - m - 1 \<and> - 2 * m \<le> x + y \<and> x < 0 \<and> y < 0 \<and> x + y + (2 * m + 2) > 0"
  using assms by linarith

lemma AddValue_int:
  assumes x: "in_sql t1 x" and y: "in_sql t2 y"
  shows "AddValue F t1 t2 (int_val t1 x) (int_val t2 y) =
    int_outcome (wraps F) (wider t1 t2) (x + y)"
proof -
  define t where "t = wider t1 t2"
  define m where "m = PELOTON_INT_MAX t"
  define chk where "chk s = ok (x > 0 \<and> y > 0 \<and> s < 0 \<or> x < 0 \<and> y < 0 \<and> s > (0::int))" for s
  have xt: "in_sql t x" and yt: "in_sql t y" using in_sql_wider x y t_def by auto
  note b = sql_bounds [OF xt, folded m_def] sql_bounds [OF yt, folded m_def]
  have bad: "chk (narrow t (x + y)) = ok True" if out: "\<not> in_ctype t (x + y)"
  proof -
    have "\<not> (- m - 1 \<le> x + y \<and> x + y \<le> m)"
      using out by (simp add: in_ctype_def ctype_MAX(1) m_def)
    then show ?thesis
      using sum_detected [of m x y] b narrow_over [of t "x + y"] narrow_under [of "x + y" t]
      by (auto simp: chk_def ctype_MAX(1,2) simp flip: m_def)
  qed
  have small: "in_ctype Int32 (x + y)" if "bits t < 32"
    using small_MAX [OF that, folded m_def] b by (auto simp: in_ctype_def)
  have "AddValue F t1 t2 (int_val t1 x) (int_val t2 y) =
      bindE (c_arith (wraps F) (promote t1 t2) (x + y)) (\<lambda>s.
     let s1 = narrow t1 s; s2 = narrow t2 s in
     if s \<noteq> s1 \<and> s \<noteq> s2 then out_of_range
     else if bits t1 \<ge> bits t2 then
       bindE (chk s1) (\<lambda>b. if b then out_of_range else Value_of_ctype t1 (sql_type t1) s1)
     else
       bindE (chk s2) (\<lambda>b. if b then out_of_range else Value_of_ctype t2 (sql_type t2) s2))"
    using x y by (simp add: AddValue_def chk_def Let_def cong: if_cong)
  also have "\<dots> = int_outcome (wraps F) t (x + y)"
    by (rule checked_template [where chk = chk])
      (use bad small in \<open>auto simp: t_def chk_def\<close>)
  finally show ?thesis by (simp add: t_def)
qed

lemma SubtractValue_int:
  assumes x: "in_sql t1 x" and y: "in_sql t2 y"
  shows "SubtractValue F t1 t2 (int_val t1 x) (int_val t2 y) =
    int_outcome (wraps F) (wider t1 t2) (x - y)"
proof -
  define t where "t = wider t1 t2"
  define m where "m = PELOTON_INT_MAX t"
  define chk where "chk s = ok (x > 0 \<and> y < 0 \<and> s < 0 \<or> x < 0 \<and> y > 0 \<and> s > (0::int))" for s
  have xt: "in_sql t x" and yt: "in_sql t y" using in_sql_wider x y t_def by auto
  note b = sql_bounds [OF xt, folded m_def] sql_bounds [OF yt, folded m_def]
  have bad: "chk (narrow t (x - y)) = ok True" if out: "\<not> in_ctype t (x - y)"
  proof -
    have "\<not> (- m - 1 \<le> x - y \<and> x - y \<le> m)"
      using out by (simp add: in_ctype_def ctype_MAX(1) m_def)
    then show ?thesis
      using sum_detected [of m x "- y"] b narrow_over [of t "x - y"] narrow_under [of "x - y" t]
      by (auto simp: chk_def ctype_MAX(1,2) simp flip: m_def)
  qed
  have small: "in_ctype Int32 (x - y)" if "bits t < 32"
    using small_MAX [OF that, folded m_def] b by (auto simp: in_ctype_def)
  have "SubtractValue F t1 t2 (int_val t1 x) (int_val t2 y) =
      bindE (c_arith (wraps F) (promote t1 t2) (x - y)) (\<lambda>s.
     let s1 = narrow t1 s; s2 = narrow t2 s in
     if s \<noteq> s1 \<and> s \<noteq> s2 then out_of_range
     else if bits t1 \<ge> bits t2 then
       bindE (chk s1) (\<lambda>b. if b then out_of_range else Value_of_ctype t1 (sql_type t1) s1)
     else
       bindE (chk s2) (\<lambda>b. if b then out_of_range else Value_of_ctype t2 (sql_type t2) s2))"
    using x y by (simp add: SubtractValue_def chk_def Let_def cong: if_cong)
  also have "\<dots> = int_outcome (wraps F) t (x - y)"
    by (rule checked_template [where chk = chk])
      (use bad small in \<open>auto simp: t_def chk_def\<close>)
  finally show ?thesis by (simp add: t_def)
qed

text \<open>
  A wrapped product differs from the exact one by a multiple of the range, so dividing it by a
  factor cannot give back the other factor.
\<close>

lemma prod_detected:
  fixes m :: int
  assumes p: "p = x * y + k * (2 * m + 2)" and out: "p \<noteq> x * y" and y: "y \<noteq> 0" "\<bar>y\<bar> \<le> m"
  shows "p sdiv y \<noteq> x"
proof
  assume "p sdiv y = x"
  then have "p smod y = k * (2 * m + 2)"
    using mult_sdiv_smod_eq [of y p] p by (simp add: mult.commute)
  then have r: "\<bar>k * (2 * m + 2)\<bar> < \<bar>y\<bar>"
    using smod_int_range [OF y(1), of p] by auto
  have "k \<noteq> 0" using p out by auto
  then have "1 \<le> \<bar>k\<bar>" by simp
  then have "2 * m + 2 \<le> \<bar>k\<bar> * (2 * m + 2)"
    using y(2) mult_right_mono [of 1 "\<bar>k\<bar>" "2 * m + 2"] by simp
  also have "\<dots> = \<bar>k * (2 * m + 2)\<bar>" using y(2) by (simp add: abs_mult)
  finally show False using r y(2) by linarith
qed

lemma sdiv_half: "2 \<le> \<bar>y\<bar> \<Longrightarrow> 2 * \<bar>p sdiv y\<bar> \<le> \<bar>p\<bar>" for p y :: int
proof -
  assume y: "2 \<le> \<bar>y\<bar>"
  have "\<bar>p\<bar> div \<bar>y\<bar> \<le> \<bar>p\<bar> div 2" by (rule zdiv_mono2) (use y in auto)
  then have "2 * (\<bar>p\<bar> div \<bar>y\<bar>) \<le> \<bar>p\<bar>" by simp
  moreover have "\<bar>p sdiv y\<bar> = \<bar>p\<bar> div \<bar>y\<bar> \<or> p sdiv y = 0"
    by (auto simp: signed_divide_int_def abs_mult abs_sgn_eq pos_imp_zdiv_nonneg_iff)
  ultimately show ?thesis by auto
qed

lemma in_ctype_abs: "\<bar>z\<bar> \<le> PELOTON_INT_MAX t \<Longrightarrow> in_ctype t z"
  using ctype_MAX(1) [of t] by (auto simp: in_ctype_def)

lemma in_ctype_promote:
  "in_ctype t1 x \<Longrightarrow> in_ctype (promote t1 t2) x" "in_ctype t2 x \<Longrightarrow> in_ctype (promote t1 t2) x"
  by (cases t1; cases t2; simp add: promote_def in_ctype_def)+

lemma quotient_check:
  assumes t: "32 \<le> bits t" and xt: "in_sql t x" and yt: "in_sql t y"
    and out: "\<not> in_ctype t (x * y)" and ab: "promote a b = t"
  shows "y \<noteq> 0 \<and> c_div a b (narrow t (x * y)) y = ok (narrow t (x * y) sdiv y) \<and>
    narrow t (x * y) sdiv y \<noteq> x"
proof -
  define p where "p = narrow t (x * y)"
  define m where "m = PELOTON_INT_MAX t"
  note b = sql_bounds [OF xt, folded m_def] sql_bounds [OF yt, folded m_def]
  have big: "z = 0 \<or> z = x \<or> z = - x \<Longrightarrow> in_ctype t z" for z
    using b by (intro in_ctype_abs) (auto simp flip: m_def)
  have y: "y \<noteq> 0" "y \<noteq> 1" "y \<noteq> - 1" using out big by auto
  then have y2: "2 \<le> \<bar>y\<bar>" by linarith
  have "\<bar>p\<bar> \<le> m + 1"
    using in_ctype_narrow [of t "x * y"] by (auto simp: in_ctype_def ctype_MAX(1) p_def m_def)
  then have "\<bar>p sdiv y\<bar> \<le> m"
    using sdiv_half [OF y2, of p] ctype_MAX(3) [of t, folded m_def] by linarith
  then have "in_ctype t (p sdiv y)" unfolding m_def by (rule in_ctype_abs)
  moreover obtain k where "p = x * y + k * (2 * m + 2)"
    using narrow_diff [of t "x * y"] by (auto simp: p_def m_def ctype_MAX(2))
  then have "p sdiv y \<noteq> x"
    by (rule prod_detected) (use y b narrow_neq [OF out] in \<open>auto simp: p_def\<close>)
  ultimately show ?thesis using y ab by (simp add: c_div_def flip: p_def)
qed

lemma exact_check:
  assumes "y \<noteq> 0" and "in_ctype (promote a b) x"
  shows "c_div a b (x * y) y = ok x"
proof -
  have "x * y sdiv y = x"
    using assms(1) by (simp add: signed_divide_int_def abs_mult sgn_mult mult_sgn_abs mult.assoc)
  with assms show ?thesis by (simp add: c_div_def)
qed

lemma MultiplyValue_int:
  assumes x: "in_sql t1 x" and y: "in_sql t2 y"
  shows "MultiplyValue F t1 t2 (int_val t1 x) (int_val t2 y) =
    int_outcome (wraps F) (wider t1 t2) (x * y)"
proof -
  define t where "t = wider t1 t2"
  define C where
    "C a b s = (if y = 0 then ok False else bindE (c_div a b s y) (\<lambda>q. ok (q \<noteq> x)))" for a b s
  define a where "a = (if bits t2 \<le> bits t1 then t1 else t2)"
  have xt: "in_sql t x" and yt: "in_sql t y" using in_sql_wider x y t_def by auto
  have C: "C a t2 = (if bits t2 \<le> bits t1 then C t1 t2 else C t2 t2)" by (simp add: a_def)
  have prom: "32 \<le> bits t \<Longrightarrow> promote a t2 = t"
    by (cases t1; cases t2) (simp_all add: a_def t_def wider_def promote_def)
  have "in_ctype a x"
    using in_sql_ctype [OF xt] by (simp add: t_def a_def wider_def)
  then have inx: "in_ctype (promote a t2) x" by (rule in_ctype_promote(1))
  have good: "C a t2 (x * y) = ok False"
    using exact_check [OF _ inx, of y] by (simp add: C_def)
  have bad: "C a t2 (narrow t (x * y)) = ok True" if "\<not> in_ctype t (x * y)" "32 \<le> bits t"
    using quotient_check [OF that(2) xt yt that(1) prom [OF that(2)]] by (simp add: C_def)
  have small: "in_ctype Int32 (x * y)" if "bits t < 32"
  proof -
    have "\<bar>x\<bar> * \<bar>y\<bar> \<le> 32767 * 32767"
      using small_MAX [OF that] sql_bounds [OF xt] sql_bounds [OF yt]
      by (intro mult_mono) auto
    then show ?thesis by (auto simp: in_ctype_def simp flip: abs_mult)
  qed
  have "MultiplyValue F t1 t2 (int_val t1 x) (int_val t2 y) =
      bindE (c_arith (wraps F) (promote t1 t2) (x * y)) (\<lambda>s.
     let s1 = narrow t1 s; s2 = narrow t2 s in
     if s \<noteq> s1 \<and> s \<noteq> s2 then out_of_range
     else if bits t1 \<ge> bits t2 then
       bindE (C t1 t2 s1) (\<lambda>b. if b then out_of_range else Value_of_ctype t1 (sql_type t1) s1)
     else
       bindE (C t2 t2 s2) (\<lambda>b. if b then out_of_range else Value_of_ctype t2 (sql_type t2) s2))"
    using x y by (simp add: MultiplyValue_def C_def Let_def cong: if_cong)
  also have "\<dots> = int_outcome (wraps F) t (x * y)"
    by (rule checked_template [OF t_def C]) (use good bad small in auto)
  finally show ?thesis by (simp add: t_def)
qed

lemma Value_IsZero_int: "in_sql t y \<Longrightarrow> Value_IsZero F (int_val t y) = ok (y = 0)"
  using GetAs_int_val [of t y]
  by (cases t) (simp_all add: Value_IsZero_def GetInstance_def TinyintType_IsZero_def
      SmallintType_IsZero_def IntegerType_IsZero_def BigintType_IsZero_def del: GetAs_int.simps)

abbreviation divide_by_zero :: "'a res" where
  "divide_by_zero \<equiv> fail (Thrown EXCEPTION_TYPE_DIVIDE_BY_ZERO ''Division by zero on right-hand side'')"

lemma Value_Divide_int:
  "in_sql t2 y \<Longrightarrow> Value_Divide F (int_val t1 x) (int_val t2 y) =
     (if y = 0 then divide_by_zero else DivideValue t1 t2 (int_val t1 x) (int_val t2 y))"
  using Value_IsZero_int [of t2 y F]
  by (cases t1; cases t2;
      simp add: Value_Divide_def GetInstance_def TinyintType_Divide_def SmallintType_Divide_def
        IntegerType_Divide_def BigintType_Divide_def modify_defs)

lemma Value_Modulo_int:
  "in_sql t2 y \<Longrightarrow> Value_Modulo F (int_val t1 x) (int_val t2 y) =
     (if y = 0 then divide_by_zero else ModuloValue t1 t2 (int_val t1 x) (int_val t2 y))"
  using Value_IsZero_int [of t2 y F]
  by (cases t1; cases t2;
      simp add: Value_Modulo_def GetInstance_def TinyintType_Modulo_def SmallintType_Modulo_def
        IntegerType_Modulo_def BigintType_Modulo_def modify_defs)

lemma sql_abs: "in_sql t x \<longleftrightarrow> \<bar>x\<bar> \<le> PELOTON_INT_MAX t"
  by (cases t) (auto simp: in_sql_def)

lemma quotient_in_sql:
  assumes "in_sql t1 x" "in_sql t2 y"
  shows "in_sql t1 (x sdiv y)"
  using assms(1) sdiv_int_range [of x y] by (auto simp: sql_abs)

lemma remainder_in_sql:
  assumes "in_sql t2 y" "y \<noteq> 0"
  shows "in_sql t2 (x smod y)"
  using assms(1) smod_int_range [OF assms(2), of x] by (auto simp: sql_abs)

lemma Value_of_wider:
  assumes "in_sql (wider t1 t2) q"
  shows "(if bits t2 \<le> bits t1 then Value_of_ctype t1 (sql_type t1) (narrow t1 q)
    else Value_of_ctype t2 (sql_type t2) (narrow t2 q)) = ok (int_val (wider t1 t2) q)"
  using assms narrow_in_ctype [OF in_sql_ctype [OF assms]] Value_of_ctype_in [OF assms]
  by (cases "bits t2 \<le> bits t1") (simp_all add: wider_def)

lemma DivideValue_int:
  assumes x: "in_sql t1 x" and y: "in_sql t2 y" and "y \<noteq> 0"
  shows "DivideValue t1 t2 (int_val t1 x) (int_val t2 y) = ok (int_val (wider t1 t2) (x sdiv y))"
proof -
  note q = quotient_in_sql [OF x y]
  have "c_div t1 t2 x y = ok (x sdiv y)"
    using \<open>y \<noteq> 0\<close> in_ctype_promote(1) [OF in_sql_ctype [OF q]] by (simp add: c_div_def)
  then show ?thesis
    using Value_of_wider [OF in_sql_wider(1) [OF q], of t2] assms
    by (simp add: DivideValue_def cong: if_cong)
qed

lemma ModuloValue_int:
  assumes x: "in_sql t1 x" and y: "in_sql t2 y" and "y \<noteq> 0"
  shows "ModuloValue t1 t2 (int_val t1 x) (int_val t2 y) = ok (int_val (wider t1 t2) (x smod y))"
proof -
  have "c_mod t1 t2 x y = ok (x smod y)"
    using \<open>y \<noteq> 0\<close> in_ctype_promote(1) [OF in_sql_ctype [OF quotient_in_sql [OF x y]]]
    by (simp add: c_mod_def)
  then show ?thesis
    using Value_of_wider [OF in_sql_wider(2) [OF remainder_in_sql [OF y \<open>y \<noteq> 0\<close>]], of t1 x] assms
    by (simp add: ModuloValue_def cong: if_cong)
qed


section \<open>Integer comparison\<close>

text \<open>One constant for the six comparisons, so that they are reduced once.\<close>

fun Value_Compare :: "cmpop \<Rightarrow> 'd cpp \<Rightarrow> 'd Value \<Rightarrow> 'd Value \<Rightarrow> CmpBool res" where
  "Value_Compare OpEq F v w = Value_CompareEquals F v w"
| "Value_Compare OpNe F v w = Value_CompareNotEquals F v w"
| "Value_Compare OpLt F v w = Value_CompareLessThan F v w"
| "Value_Compare OpLe F v w = Value_CompareLessThanEquals F v w"
| "Value_Compare OpGt F v w = Value_CompareGreaterThan F v w"
| "Value_Compare OpGe F v w = Value_CompareGreaterThanEquals F v w"

lemmas compare_method_defs =
  Value_CompareEquals_def TinyintType_CompareEquals_def SmallintType_CompareEquals_def IntegerType_CompareEquals_def BigintType_CompareEquals_def
  Value_CompareNotEquals_def TinyintType_CompareNotEquals_def SmallintType_CompareNotEquals_def IntegerType_CompareNotEquals_def BigintType_CompareNotEquals_def
  Value_CompareLessThan_def TinyintType_CompareLessThan_def SmallintType_CompareLessThan_def IntegerType_CompareLessThan_def BigintType_CompareLessThan_def
  Value_CompareLessThanEquals_def TinyintType_CompareLessThanEquals_def SmallintType_CompareLessThanEquals_def IntegerType_CompareLessThanEquals_def BigintType_CompareLessThanEquals_def
  Value_CompareGreaterThan_def TinyintType_CompareGreaterThan_def SmallintType_CompareGreaterThan_def IntegerType_CompareGreaterThan_def BigintType_CompareGreaterThan_def
  Value_CompareGreaterThanEquals_def TinyintType_CompareGreaterThanEquals_def SmallintType_CompareGreaterThanEquals_def IntegerType_CompareGreaterThanEquals_def BigintType_CompareGreaterThanEquals_def

lemma Value_Compare_int:
  assumes x: "in_sql t1 x" and y: "in_sql t2 y"
  shows "Value_Compare oper F (int_val t1 x) (int_val t2 y) = ok (GetCmpBool (int_op oper x y))"
  using x y
  by (cases oper; cases t1; cases t2;
      simp add: compare_method_defs GetInstance_def compare_defs del: GetAs_int.simps)

lemma Value_Copy_int: "in_sql t x \<Longrightarrow> Value_Copy F (int_val t x) = ok (int_val t x)"
  using GetAs_int_val [of t x] Value_of_ctype_in [of t x]
  by (cases t) (simp_all add: Value_Copy_def GetInstance_def TinyintType_Copy_def
      SmallintType_Copy_def IntegerType_Copy_def BigintType_Copy_def del: GetAs_int.simps)

lemma Value_MinMax_int:
  "Value_Min F (int_val t1 x) (int_val t2 y) =
     IntegerParentType_Min F (int_val t1 x) (int_val t2 y)"
  "Value_Max F (int_val t1 x) (int_val t2 y) =
     IntegerParentType_Max F (int_val t1 x) (int_val t2 y)"
  by (cases t1; simp add: Value_Min_def Value_Max_def GetInstance_def)+

lemma GetCmpBool_True [simp]: "GetCmpBool b = CMP_TRUE \<longleftrightarrow> b"
  by (simp add: GetCmpBool_def)

section \<open>NULL operands\<close>

lemma Value_OperateNull_int:
  "v_type v = sql_type t1 \<Longrightarrow> v_type w = sql_type t2 \<Longrightarrow>
     Value_OperateNull F v w = ok (null_val (wider t1 t2))"
  using Value_of_ctype_null [of t1] Value_of_ctype_null [of t2]
  by (cases t1; cases t2;
      simp add: Value_OperateNull_def GetInstance_def TinyintType_OperateNull_def
        SmallintType_OperateNull_def IntegerType_OperateNull_def BigintType_OperateNull_def
        wider_def)

lemmas arith_method_defs =
  Value_Add_def TinyintType_Add_def SmallintType_Add_def IntegerType_Add_def BigintType_Add_def
  Value_Subtract_def TinyintType_Subtract_def SmallintType_Subtract_def IntegerType_Subtract_def BigintType_Subtract_def
  Value_Multiply_def TinyintType_Multiply_def SmallintType_Multiply_def IntegerType_Multiply_def BigintType_Multiply_def
  Value_Divide_def TinyintType_Divide_def SmallintType_Divide_def IntegerType_Divide_def BigintType_Divide_def
  Value_Modulo_def TinyintType_Modulo_def SmallintType_Modulo_def IntegerType_Modulo_def BigintType_Modulo_def

section \<open>Properties of the integer types\<close>

text \<open>
  C26. Integer arithmetic is exact. For operands of any two of the four integer types, the result
  has the wider type and is the exact sum, difference or product whenever that is a value of the
  type, and a result equal to the sentinel becomes NULL. A result outside the type is reported as out
  of range when the wider type is \<^verbatim>\<open>TINYINT\<close> or \<^verbatim>\<open>SMALLINT\<close>; for \<^verbatim>\<open>INTEGER\<close> and \<^verbatim>\<open>BIGINT\<close> it is
  reported only if the compiler makes signed overflow wrap (\<open>wraps F\<close>), because the code tests the
  range after it has computed the sum, difference or product in that type; in standard C++, and with
  the flags of the build, it is undefined behaviour. Division and remainder truncate towards zero and
  report a zero divisor.
\<close>

theorem int_arith_exact:
  assumes "in_sql t1 x" and "in_sql t2 y"
  shows "Value_Add F (int_val t1 x) (int_val t2 y) = int_outcome (wraps F) (wider t1 t2) (x + y) \<and>
    Value_Subtract F (int_val t1 x) (int_val t2 y) = int_outcome (wraps F) (wider t1 t2) (x - y) \<and>
    Value_Multiply F (int_val t1 x) (int_val t2 y) = int_outcome (wraps F) (wider t1 t2) (x * y) \<and>
    Value_Divide F (int_val t1 x) (int_val t2 y) =
      (if y = 0 then divide_by_zero else ok (int_val (wider t1 t2) (x sdiv y))) \<and>
    Value_Modulo F (int_val t1 x) (int_val t2 y) =
      (if y = 0 then divide_by_zero else ok (int_val (wider t1 t2) (x smod y)))"
  using assms
  by (simp add: Value_Add_int Value_Subtract_int Value_Multiply_int Value_Divide_int
      Value_Modulo_int AddValue_int SubtractValue_int MultiplyValue_int DivideValue_int
      ModuloValue_int)

theorem int_arith_exact_witness:
  "Value_Add word_cpp (int_val Int8 100) (int_val Int16 1000) = ok (int_val Int16 1100) \<and>
   Value_Add word_cpp (int_val Int32 2147483647) (int_val Int8 1) = out_of_range \<and>
   Value_Add word_cpp (int_val Int8 (- 127)) (int_val Int8 (- 1)) = ok (null_val Int8) \<and>
   Value_Multiply word_cpp (int_val Int32 65536) (int_val Int32 65536) = out_of_range \<and>
   Value_Divide word_cpp (int_val Int8 (- 7)) (int_val Int8 2) = ok (int_val Int8 (- 3))"
  using int_arith_exact [where F = word_cpp, of Int8 100 Int16 1000]
    int_arith_exact [where F = word_cpp, of Int32 2147483647 Int8 1]
    int_arith_exact [where F = word_cpp, of Int8 "- 127" Int8 "- 1"]
    int_arith_exact [where F = word_cpp, of Int32 65536 Int32 65536]
    int_arith_exact [where F = word_cpp, of Int8 "- 7" Int8 2]
  by (simp add: in_sql_def int_outcome_def wider_def)

text \<open>
  C27. Comparison of integers of any two types is comparison of the numbers, for all six
  operators, and the minimum and maximum are the smaller and the larger operand in its own type.
\<close>

theorem int_compare_exact:
  assumes "in_sql t1 x" and "in_sql t2 y"
  shows "Value_CompareEquals F (int_val t1 x) (int_val t2 y) = ok (GetCmpBool (x = y)) \<and>
    Value_CompareNotEquals F (int_val t1 x) (int_val t2 y) = ok (GetCmpBool (x \<noteq> y)) \<and>
    Value_CompareLessThan F (int_val t1 x) (int_val t2 y) = ok (GetCmpBool (x < y)) \<and>
    Value_CompareLessThanEquals F (int_val t1 x) (int_val t2 y) = ok (GetCmpBool (x \<le> y)) \<and>
    Value_CompareGreaterThan F (int_val t1 x) (int_val t2 y) = ok (GetCmpBool (x > y)) \<and>
    Value_CompareGreaterThanEquals F (int_val t1 x) (int_val t2 y) = ok (GetCmpBool (x \<ge> y)) \<and>
    Value_Min F (int_val t1 x) (int_val t2 y) = ok (if x < y then int_val t1 x else int_val t2 y) \<and>
    Value_Max F (int_val t1 x) (int_val t2 y) = ok (if x \<ge> y then int_val t1 x else int_val t2 y)"
proof -
  note c = Value_Compare_int [OF assms, of _ F]
  show ?thesis
    using c [of OpEq] c [of OpNe] c [of OpLt] c [of OpLe] c [of OpGt] c [of OpGe] assms
    by (simp add: Value_MinMax_int IntegerParentType_Min_def IntegerParentType_Max_def
        Value_Copy_int del: CheckComparable.simps CheckInteger.simps)
qed

theorem int_compare_exact_witness:
  "Value_CompareLessThan word_cpp (int_val Int64 (- 5)) (int_val Int8 3) = ok CMP_TRUE \<and>
   Value_Max word_cpp (int_val Int64 (- 5)) (int_val Int8 3) = ok (int_val Int8 3)"
  using int_compare_exact [where F = word_cpp, of Int64 "- 5" Int8 3] by (simp add: in_sql_def GetCmpBool_def)

text \<open>
  NULL propagates. When either operand of an integer operation is NULL, the five arithmetic
  operations return the NULL of the wider type (so division by a NULL does not fail, and neither
  does NULL divided by zero), and the six comparisons return \<^verbatim>\<open>CMP_NULL\<close>.
\<close>

theorem int_null_propagates:
  assumes "v_type v = sql_type t1" and "v_type w = sql_type t2" and "IsNull v \<or> IsNull w"
  shows "Value_Add F v w = ok (null_val (wider t1 t2)) \<and>
    Value_Subtract F v w = ok (null_val (wider t1 t2)) \<and>
    Value_Multiply F v w = ok (null_val (wider t1 t2)) \<and>
    Value_Divide F v w = ok (null_val (wider t1 t2)) \<and>
    Value_Modulo F v w = ok (null_val (wider t1 t2)) \<and>
    Value_CompareEquals F v w = ok CMP_NULL \<and> Value_CompareNotEquals F v w = ok CMP_NULL \<and>
    Value_CompareLessThan F v w = ok CMP_NULL \<and> Value_CompareLessThanEquals F v w = ok CMP_NULL \<and>
    Value_CompareGreaterThan F v w = ok CMP_NULL \<and>
    Value_CompareGreaterThanEquals F v w = ok CMP_NULL"
  using assms Value_OperateNull_int [OF assms(1,2), of F]
  by (cases t1; cases t2; simp add: arith_method_defs compare_method_defs GetInstance_def)

theorem int_null_propagates_witness:
  "Value_Divide word_cpp (null_val Int8) (int_val Int32 0) = ok (null_val Int32) \<and>
   Value_CompareEquals word_cpp (null_val Int8) (int_val Int32 0) = ok CMP_NULL"
  using int_null_propagates [where F = word_cpp, of "null_val Int8" Int8 "int_val Int32 0" Int32]
  by (simp add: wider_def)

end
