(* ===== verification/Type_Store.thy ===== *)
theory Type_Store
  imports Type_Spec
begin

text \<open>
  The stored image of a value and the casts: values as the constructors build them
  (\<^verbatim>\<open>Value_wf\<close>), the bytes \<^verbatim>\<open>SerializeTo\<close> writes (\<^verbatim>\<open>value_image\<close>), the round trip through storage,
  the casts between integers and strings, and the order of strings.
\<close>

section \<open>Well-formed values and their image\<close>

definition Value_wf :: "'d cpp \<Rightarrow> 'd Value \<Rightarrow> bool" where
  "Value_wf F v =
     (case (v_type v, v_val v) of
        (BOOLEAN, VBoolean w) \<Rightarrow> v = stored BOOLEAN (VBoolean w) (sint w = PELOTON_BOOLEAN_NULL)
      | (TINYINT, VTinyint w) \<Rightarrow> v = stored TINYINT (VTinyint w) (sint w = PELOTON_INT_NULL Int8)
      | (SMALLINT, VSmallint w) \<Rightarrow> v = stored SMALLINT (VSmallint w) (sint w = PELOTON_INT_NULL Int16)
      | (INTEGER, VInteger w) \<Rightarrow> v = stored INTEGER (VInteger w) (sint w = PELOTON_INT_NULL Int32)
      | (BIGINT, VBigint w) \<Rightarrow> v = stored BIGINT (VBigint w) (sint w = PELOTON_INT_NULL Int64)
      | (DECIMAL, VDecimal x) \<Rightarrow> v = stored DECIMAL (VDecimal x) (f_eq F x (DBL_LOWEST F))
      | (VARCHAR, VVarlen None) \<Rightarrow> v = (Value_of_type VARCHAR) \<lparr>v_val := VVarlen None\<rparr>
      | (VARCHAR, VVarlen (Some bs)) \<Rightarrow>
          length bs < 4294967295 \<and>
          v = (Value_of_type VARCHAR)
            \<lparr>v_val := VVarlen (Some bs), v_len := word_of_nat (length bs), v_manage := True\<rparr>
      | _ \<Rightarrow> False)"

definition value_image :: "'d cpp \<Rightarrow> 'd Value \<Rightarrow> byte list" where
  "value_image F v =
     (case v_val v of
        VBoolean w \<Rightarrow> le_enc 1 (sint w)
      | VTinyint w \<Rightarrow> le_enc 1 (sint w)
      | VSmallint w \<Rightarrow> le_enc 2 (sint w)
      | VInteger w \<Rightarrow> le_enc 4 (sint w)
      | VBigint w \<Rightarrow> le_enc 8 (sint w)
      | VDecimal x \<Rightarrow> f_enc F x
      | VVarlen (Some bs) \<Rightarrow> le_enc 4 (int (length bs)) @ bs
      | VVarlen None \<Rightarrow> le_enc 4 4294967295
      | _ \<Rightarrow> [])"

text \<open>What is relied on of the machine representation of doubles: eight bytes, read back as written.\<close>

definition double_image :: "'d cpp \<Rightarrow> bool" where
  "double_image F \<longleftrightarrow> (\<forall>x. length (f_enc F x) = 8 \<and> f_dec F (f_enc F x) = x)"

lemma sint_in_ctype:
  "in_ctype Int8 (sint (a :: 8 word))" "in_ctype Int16 (sint (b :: 16 word))"
  "in_ctype Int32 (sint (c :: 32 word))" "in_ctype Int64 (sint (e :: 64 word))"
  using in_ctype_narrow [of Int8 "sint a"] in_ctype_narrow [of Int16 "sint b"]
    in_ctype_narrow [of Int32 "sint c"] in_ctype_narrow [of Int64 "sint e"]
  by (simp_all flip: sint_word_of_int)

lemma int_image:
  "narrow Int8 (uint (a :: 8 word)) = sint a"
  "narrow Int16 (le_dec (le_enc 2 (sint (b :: 16 word)))) = sint b"
  "narrow Int32 (le_dec (le_enc 4 (sint (c :: 32 word)))) = sint c"
  "narrow Int64 (le_dec (le_enc 8 (sint (e :: 64 word)))) = sint e"
  by (simp add: narrow_def sint_uint) (simp_all add: narrow_le_dec_enc sint_in_ctype)

lemma wr_bytes_room:
  "0 \<le> off \<Longrightarrow> off + int (length bs) \<le> int (length d) \<Longrightarrow> wr_bytes d off bs = ok (bput d (nat off) bs)"
  by (simp add: wr_bytes_def)

lemma rd_bytes_bput:
  assumes "0 \<le> off" "off + int (length bs) \<le> int (length d)" "n = int (length bs)"
  shows "rd_bytes (bput d (nat off) bs) off n = ok bs"
  using assms by (simp add: rd_bytes_def length_bput bget_bput_same nat_le_iff)

lemma bput_bput:
  assumes "p = off + length a" "off + length a + length b \<le> length d"
  shows "bput (bput d off a) p b = bput d off (a @ b)"
  using assms by (simp add: bput_def ac_simps)

lemma drop_bput:
  "off + length a + length b \<le> length d \<Longrightarrow>
     drop (off + length a) (bput d off (a @ b)) = b @ drop (off + length a + length b) d"
  by (simp add: bput_def ac_simps)

lemma bget_bput_prefix:
  "off + length a + length b \<le> length d \<Longrightarrow> n = length a \<Longrightarrow> bget (bput d off (a @ b)) off n = a"
  by (simp add: bget_def bput_def)

section \<open>The round trip through storage\<close>

lemma Value_wf_cases:
  assumes "Value_wf F v"
  shows "v_type v = BOOLEAN \<Longrightarrow> \<exists>w. v = stored BOOLEAN (VBoolean w) (sint w = PELOTON_BOOLEAN_NULL)"
    and "v_type v = TINYINT \<Longrightarrow> \<exists>w. v = stored TINYINT (VTinyint w) (sint w = PELOTON_INT_NULL Int8)"
    and "v_type v = SMALLINT \<Longrightarrow> \<exists>w. v = stored SMALLINT (VSmallint w) (sint w = PELOTON_INT_NULL Int16)"
    and "v_type v = INTEGER \<Longrightarrow> \<exists>w. v = stored INTEGER (VInteger w) (sint w = PELOTON_INT_NULL Int32)"
    and "v_type v = BIGINT \<Longrightarrow> \<exists>w. v = stored BIGINT (VBigint w) (sint w = PELOTON_INT_NULL Int64)"
    and "v_type v = DECIMAL \<Longrightarrow> \<exists>x. v = stored DECIMAL (VDecimal x) (f_eq F x (DBL_LOWEST F))"
    and "v_type v = VARCHAR \<Longrightarrow> v = (Value_of_type VARCHAR) \<lparr>v_val := VVarlen None\<rparr> \<or>
      (\<exists>bs. length bs < 4294967295 \<and> v = (Value_of_type VARCHAR)
        \<lparr>v_val := VVarlen (Some bs), v_len := word_of_nat (length bs), v_manage := True\<rparr>)"
    and "v_type v \<noteq> INVALID" and "v_type v \<noteq> TIMESTAMP"
  using assms unfolding Value_wf_def
  by (cases "v_val v"; force split: option.splits)+

text \<open>Integers and booleans.\<close>

lemma store_int_cases:
  assumes wf: "Value_wf F v" and ty: "v_type v \<in> {BOOLEAN, TINYINT, SMALLINT, INTEGER, BIGINT}"
    and off: "0 \<le> off" "off + int (length (value_image F v)) \<le> int (length d)"
  shows "Value_SerializeTo F v d off = ok (bput d (nat off) (value_image F v)) \<and>
    Value_DeserializeFrom F (bput d (nat off) (value_image F v)) off (v_type v) = ok v"
proof -
  note defs = Value_SerializeTo_def Value_DeserializeFrom_def GetInstance_def value_image_def
    BooleanType_SerializeTo_def TinyintType_SerializeTo_def SmallintType_SerializeTo_def
    IntegerType_SerializeTo_def BigintType_SerializeTo_def BooleanType_DeserializeFrom_def
    TinyintType_DeserializeFrom_def SmallintType_DeserializeFrom_def
    IntegerType_DeserializeFrom_def BigintType_DeserializeFrom_def
  note ctors = Value_int8_def Value_int16_def Value_int32_def Value_int64_def value_switch_def
  consider (b) w where "v = stored BOOLEAN (VBoolean w) (sint w = PELOTON_BOOLEAN_NULL)"
    | (t) w where "v = stored TINYINT (VTinyint w) (sint w = PELOTON_INT_NULL Int8)"
    | (s) w where "v = stored SMALLINT (VSmallint w) (sint w = PELOTON_INT_NULL Int16)"
    | (i) w where "v = stored INTEGER (VInteger w) (sint w = PELOTON_INT_NULL Int32)"
    | (l) w where "v = stored BIGINT (VBigint w) (sint w = PELOTON_INT_NULL Int64)"
    using Value_wf_cases(1-5) [OF wf] ty by blast
  then show ?thesis
  proof cases
    case b
    with off show ?thesis
      by (simp add: defs ctors stored_def Value_of_type_def wr_bytes_room rd_bytes_bput int_image
          narrow_in_ctype sint_in_ctype Let_def)
  next
    case t
    with off show ?thesis
      by (simp add: defs ctors stored_def Value_of_type_def wr_bytes_room rd_bytes_bput int_image
          narrow_in_ctype sint_in_ctype Let_def)
  next
    case s
    with off show ?thesis
      by (simp add: defs ctors stored_def Value_of_type_def wr_bytes_room rd_bytes_bput int_image
          narrow_in_ctype sint_in_ctype Let_def)
  next
    case i
    with off show ?thesis
      by (simp add: defs ctors stored_def Value_of_type_def wr_bytes_room rd_bytes_bput int_image
          narrow_in_ctype sint_in_ctype Let_def)
  next
    case l
    with off show ?thesis
      by (simp add: defs ctors stored_def Value_of_type_def wr_bytes_room rd_bytes_bput int_image
          narrow_in_ctype sint_in_ctype Let_def)
  qed
qed

lemma store_decimal:
  assumes wf: "Value_wf F v" and ty: "v_type v = DECIMAL" and F: "double_image F"
    and off: "0 \<le> off" "off + int (length (value_image F v)) \<le> int (length d)"
  shows "Value_SerializeTo F v d off = ok (bput d (nat off) (value_image F v)) \<and>
    Value_DeserializeFrom F (bput d (nat off) (value_image F v)) off (v_type v) = ok v"
proof -
  obtain x where v: "v = stored DECIMAL (VDecimal x) (f_eq F x (DBL_LOWEST F))"
    using Value_wf_cases(6) [OF wf ty] by blast
  have "length (f_enc F x) = 8" "f_dec F (f_enc F x) = x" using F by (auto simp: double_image_def)
  with v off show ?thesis
    by (simp add: Value_SerializeTo_def Value_DeserializeFrom_def GetInstance_def value_image_def
        DecimalType_SerializeTo_def DecimalType_DeserializeFrom_def GetAs_double_def Value_double_def
        stored_def Value_of_type_def wr_bytes_room rd_bytes_bput)
qed

lemma unat_len: "n < 4294967296 \<Longrightarrow> unat (word_of_nat n :: 32 word) = n"
  by (simp add: unat_of_nat)

lemma len_not_null: "n < 4294967295 \<Longrightarrow> (word_of_nat n :: 32 word) \<noteq> 4294967295"
proof
  assume n: "n < 4294967295" and "(word_of_nat n :: 32 word) = 4294967295"
  then have "unat (word_of_nat n :: 32 word) = unat (4294967295 :: 32 word)" by simp
  then show False using n by (simp add: unat_len)
qed

lemma len_less_max: "n < 4294967295 \<Longrightarrow> (word_of_nat n :: 32 word) < 4294967295"
  by (simp add: word_less_nat_alt unat_len)

lemma store_varlen:
  assumes wf: "Value_wf F v" and ty: "v_type v = VARCHAR"
    and off: "0 \<le> off" "off + int (length (value_image F v)) \<le> int (length d)"
  shows "Value_SerializeTo F v d off = ok (bput d (nat off) (value_image F v)) \<and>
    Value_DeserializeFrom F (bput d (nat off) (value_image F v)) off (v_type v) = ok v"
  using Value_wf_cases(7) [OF wf ty]
proof (elim disjE exE conjE)
  assume v: "v = (Value_of_type VARCHAR) \<lparr>v_val := VVarlen None\<rparr>"
  then have "off + 4 \<le> int (length d)" using off by (simp add: value_image_def)
  with v off show ?thesis
    by (simp add: Value_SerializeTo_def Value_DeserializeFrom_def GetInstance_def value_image_def
        VarlenType_SerializeTo_def VarlenType_DeserializeFrom_def VarlenType_GetLength_def
        Value_of_type_def PELOTON_VALUE_NULL_def wr_bytes_room rd_bytes_bput le_dec_le_enc
        Value_varlen_def Let_def)
next
  fix bs
  assume n: "length bs < 4294967295" and v: "v = (Value_of_type VARCHAR)
    \<lparr>v_val := VVarlen (Some bs), v_len := word_of_nat (length bs), v_manage := True\<rparr>"
  define hd where "hd = le_enc 4 (int (length bs))"
  have hd: "length hd = 4" "le_dec hd = int (length bs)"
    using n by (simp_all add: hd_def le_dec_le_enc)
  have img: "value_image F v = hd @ bs" by (simp add: v value_image_def hd_def)
  have room: "nat off + length hd + length bs \<le> length d" using off img by simp
  have u: "unat (word_of_nat (length bs) :: 32 word) = length bs"
    "uint (word_of_nat (length bs) :: 32 word) = int (length bs)"
    using n unat_len [of "length bs"] by (simp_all add: uint_nat)
  have w1: "wr_bytes d off hd = ok (bput d (nat off) hd)"
    and w2: "wr_bytes (bput d (nat off) hd) (off + 4) bs = ok (bput d (nat off) (hd @ bs))"
    using room off hd by (simp_all add: wr_bytes_room length_bput bput_bput nat_add_distrib)
  have r: "rd_bytes (bput d (nat off) (hd @ bs)) off 4 = ok hd"
    using room off hd by (simp add: rd_bytes_def length_bput bget_bput_prefix)
  have dr: "drop (nat (off + 4)) (bput d (nat off) (hd @ bs)) =
      bs @ drop (nat off + length hd + length bs) d"
    using drop_bput [OF room] off hd by (simp add: nat_add_distrib)
  note notnull = len_not_null [OF n] len_less_max [OF n]
  have "Value_SerializeTo F v d off = ok (bput d (nat off) (hd @ bs))"
    using u notnull w1 w2
    by (simp add: v Value_SerializeTo_def GetInstance_def VarlenType_SerializeTo_def
        VarlenType_GetLength_def VarlenType_GetData_def Value_of_type_def PELOTON_VALUE_NULL_def
        copy_bytes_def Let_def flip: hd_def)
  moreover have "Value_DeserializeFrom F (bput d (nat off) (hd @ bs)) off VARCHAR = ok v"
    using u notnull
    by (simp add: v Value_DeserializeFrom_def GetInstance_def VarlenType_DeserializeFrom_def r dr hd
        Value_varlen_def Value_of_type_def PELOTON_VALUE_NULL_def PELOTON_VARCHAR_MAX_LEN_def
        copy_bytes_def Let_def)
  ultimately show ?thesis by (simp add: img ty)
qed

lemma store_value:
  assumes "Value_wf F v" and "double_image F"
    and "0 \<le> off" and "off + int (length (value_image F v)) \<le> int (length d)"
  shows "Value_SerializeTo F v d off = ok (bput d (nat off) (value_image F v)) \<and>
    Value_DeserializeFrom F (bput d (nat off) (value_image F v)) off (v_type v) = ok v"
proof (cases "v_type v")
  case DECIMAL
  then show ?thesis using store_decimal [OF assms(1) _ assms(2-4)] by blast
next
  case VARCHAR
  then show ?thesis using store_varlen [OF assms(1) _ assms(3,4)] by blast
next
  case INVALID
  then show ?thesis using Value_wf_cases(8) [OF assms(1)] by blast
next
  case TIMESTAMP
  then show ?thesis using Value_wf_cases(9) [OF assms(1)] by blast
qed (use store_int_cases [OF assms(1) _ assms(3,4)] in auto)

text \<open>
  C28. Every well-formed value survives storage. \<^verbatim>\<open>SerializeTo\<close> at an offset with enough room
  writes exactly the image of the value there and nothing else, and \<^verbatim>\<open>DeserializeFrom\<close> with the
  type of the value reads back an equal value: booleans, the four integer types, decimals (given
  that the eight bytes of a double read back as written), strings, and NULLs of all of them.
\<close>

theorem serialize_roundtrip:
  assumes "Value_wf F v" and "double_image F"
    and "0 \<le> off" and "off + int (length (value_image F v)) \<le> int (length d)"
  shows "Value_SerializeTo F v d off = ok (bput d (nat off) (value_image F v)) \<and>
    Value_DeserializeFrom F (bput d (nat off) (value_image F v)) off (v_type v) = ok v"
  by (rule store_value [OF assms])

lemma double_image_word_cpp: "double_image word_cpp"
proof -
  have "uint x mod 18446744073709551616 = uint x" for x :: "64 word"
    using uint_lt2p [of x] by (intro mod_pos_pos_trivial) simp_all
  then show ?thesis by (simp add: double_image_def word_cpp_def le_dec_le_enc)
qed

theorem serialize_roundtrip_witness:
  "Value_SerializeTo word_cpp (str_val ''ab'') (replicate 9 7) 1 =
     ok (bput (replicate 9 7) 1 (value_image word_cpp (str_val ''ab''))) \<and>
   Value_DeserializeFrom word_cpp (bput (replicate 9 7) 1 (value_image word_cpp (str_val ''ab''))) 1 VARCHAR
     = ok (str_val ''ab'')"
proof -
  have "Value_wf word_cpp (str_val ''ab'')"
    by (simp add: Value_wf_def str_val_def bytes_of_string_def Value_of_type_def)
  then show ?thesis
    using serialize_roundtrip [of word_cpp "str_val ''ab''" 1 "replicate 9 7"] double_image_word_cpp
    by (simp add: value_image_def str_val_def bytes_of_string_def)
qed


section \<open>Casts\<close>

lemma length_digits: "n < 10 ^ k \<Longrightarrow> 0 < k \<Longrightarrow> length (digits n) \<le> k"
proof (induction k arbitrary: n)
  case 0
  then show ?case by simp
next
  case (Suc k)
  show ?case
  proof (cases "n < 10")
    case True
    then show ?thesis by (subst digits.simps) simp
  next
    case False
    then have "0 < k" using Suc.prems by (cases k) auto
    moreover have "n div 10 < 10 ^ k" using Suc.prems by (simp add: less_mult_imp_div_less)
    ultimately show ?thesis using Suc.IH [of "n div 10"] False by (subst digits.simps) simp
  qed
qed

lemma length_to_string: "in_sql t x \<Longrightarrow> length (to_string x) \<le> 20"
proof -
  assume "in_sql t x"
  then have "\<bar>x\<bar> < 10 ^ 19" by (cases t) (auto simp: in_sql_def)
  then have "nat \<bar>x\<bar> < 10 ^ 19" by (simp add: nat_less_iff)
  then have "length (digits (nat \<bar>x\<bar>)) \<le> 19" by (rule length_digits) simp
  then show ?thesis by (auto simp: to_string_def abs_if)
qed

lemma Value_string_str:
  "length s < 4294967295 \<Longrightarrow> Value_string VARCHAR s = ok (str_val s)"
  using unat_len [of "length s + 1"]
  by (simp add: Value_string_def str_val_def Value_of_type_def bytes_of_string_def Let_def)

lemma Value_ToString_str:
  assumes "length s < 4294967294"
  shows "Value_ToString F (str_val s) = ok s"
proof -
  have "(word_of_nat (length s + 1) :: 32 word) - 1 = word_of_nat (length s)" by simp
  moreover have "(word_of_nat (length s + 1) :: 32 word) \<noteq> 0"
  proof
    assume "(word_of_nat (length s + 1) :: 32 word) = 0"
    then have "unat (0 :: 32 word) = length s + 1"
      using unat_len [of "length s + 1"] assms by simp
    then show False by simp
  qed
  ultimately show ?thesis
    using len_not_null [of "length s + 1"] unat_len [of "length s"] assms
    by (simp add: Value_ToString_def str_val_def GetInstance_def VarlenType_ToString_def
        VarlenType_GetLength_def VarlenType_GetData_def IsNull_def PELOTON_VALUE_NULL_def
        PELOTON_VARCHAR_MAX_LEN_def copy_bytes_def bytes_of_string_def Let_def)
      (simp flip: bytes_of_string_def)
qed

lemma Value_ToString_int:
  "in_sql t x \<Longrightarrow> Value_ToString F (int_val t x) = ok (to_string x)"
  by (cases t) (simp_all add: Value_ToString_def GetInstance_def TinyintType_ToString_def
      SmallintType_ToString_def IntegerType_ToString_def BigintType_ToString_def
      del: GetAs_int.simps)

lemma v_type_str [simp]: "v_type (str_val s) = VARCHAR"
  by (simp add: str_val_def)

lemma cast_int_int:
  assumes "in_sql t1 x"
  shows "Value_CastAs F (int_val t1 x) (sql_type t2) =
    (if in_sql t2 x then ok (int_val t2 x) else out_of_range)"
  using assms Value_of_ctype_in [of t2 x] narrow_in_ctype [OF in_sql_ctype, of t2 x]
  by (cases t1; cases t2;
      simp add: Value_CastAs_def GetInstance_def TinyintType_CastAs_def SmallintType_CastAs_def
        IntegerType_CastAs_def BigintType_CastAs_def TinyintType_Copy_def SmallintType_Copy_def
        BigintType_Copy_def del: GetAs_int.simps;
      auto simp: in_sql_def)

lemma cast_int_str:
  assumes "in_sql t x"
  shows "Value_CastAs F (int_val t x) VARCHAR = ok (str_val (to_string x))"
  using Value_ToString_int [OF assms, of F] Value_string_str [of "to_string x"]
    length_to_string [OF assms]
  by (cases t) (simp_all add: Value_CastAs_def GetInstance_def TinyintType_CastAs_def
      SmallintType_CastAs_def IntegerType_CastAs_def BigintType_CastAs_def)

text \<open>The integer a numeral string is cast to, for each target.\<close>

lemma cast_str_int:
  assumes s: "length s < 4294967294"
  shows "Value_CastAs F (str_val s) TINYINT =
      bindE (parse_number ''stoi'' (stoi s)) (\<lambda>i. let x = narrow Int8 i in
        if x < PELOTON_INT_MIN Int8 then out_of_range else Value_int8 TINYINT x)"
    and "Value_CastAs F (str_val s) SMALLINT =
      bindE (parse_number ''stoi'' (stoi s)) (\<lambda>i. let x = narrow Int16 i in
        if x < PELOTON_INT_MIN Int16 then out_of_range else Value_int16 SMALLINT x)"
    and "Value_CastAs F (str_val s) INTEGER =
      bindE (parse_number ''stoi'' (stoi s)) (\<lambda>x.
        if x > PELOTON_INT_MAX Int32 \<or> x < PELOTON_INT_MIN Int32 then out_of_range
        else Value_int32 INTEGER x)"
    and "Value_CastAs F (str_val s) BIGINT =
      bindE (parse_number ''stoll'' (stoll s)) (\<lambda>x.
        if x > PELOTON_INT_MAX Int64 \<or> x < PELOTON_INT_MIN Int64 then out_of_range
        else Value_int64 BIGINT x)"
  using Value_ToString_str [OF s, of F]
  by (simp_all add: Value_CastAs_def GetInstance_def VarlenType_CastAs_def)

lemma in_ctype_mono: "in_sql t x \<Longrightarrow> t \<noteq> Int64 \<Longrightarrow> in_ctype Int32 x"
  by (cases t) (auto simp: in_sql_def in_ctype_def)

lemma parse_to_string:
  "in_ctype Int32 x \<Longrightarrow> stoi (to_string x) = Parsed x"
  "in_ctype Int64 x \<Longrightarrow> stoll (to_string x) = Parsed x"
  by (simp_all add: stoi_def stoll_def sto_to_string)

lemma cast_numeral_back:
  assumes x: "in_sql t x"
  shows "Value_CastAs F (str_val (to_string x)) (sql_type t) = ok (int_val t x)"
proof -
  have len: "length (to_string x) < 4294967294" using length_to_string [OF x] by simp
  note c = cast_str_int [OF len, of F] parse_to_string narrow_in_ctype [OF in_sql_ctype [OF x]]
    Value_of_ctype_in [OF x]
  show ?thesis
    using c in_ctype_mono [OF x] in_sql_ctype [OF x] x
    by (cases t) (simp_all add: parse_number_def in_sql_def Let_def)
qed

text \<open>
  C29. Casts between the integer types keep the number or report that it is out of range: a cast
  to another integer type gives the same number when the target has it and throws otherwise. A
  cast to \<^verbatim>\<open>VARCHAR\<close> gives the decimal numeral, and casting that back gives the original value.
\<close>

theorem int_cast_exact:
  assumes "in_sql t1 x"
  shows "Value_CastAs F (int_val t1 x) (sql_type t2) =
      (if in_sql t2 x then ok (int_val t2 x) else out_of_range) \<and>
    (\<exists>s. Value_CastAs F (int_val t1 x) VARCHAR = ok s \<and> Value_ToString F s = ok (to_string x) \<and>
      Value_CastAs F s (sql_type t1) = ok (int_val t1 x))"
  using cast_int_int [OF assms, of F] cast_int_str [OF assms, of F]
    cast_numeral_back [OF assms, of F] Value_ToString_str [of "to_string x" F]
    length_to_string [OF assms]
  by simp

theorem int_cast_exact_witness:
  "Value_CastAs word_cpp (int_val Int32 300) TINYINT = out_of_range \<and>
   Value_CastAs word_cpp (int_val Int32 300) SMALLINT = ok (int_val Int16 300)"
  using int_cast_exact [where F = word_cpp, of Int32 300 Int8]
    int_cast_exact [where F = word_cpp, of Int32 300 Int16]
  by (simp add: in_sql_def)

text \<open>
  C30. A cast of a numeral string to \<^verbatim>\<open>TINYINT\<close> or \<^verbatim>\<open>SMALLINT\<close> does not check the range of the
  number: any \<^verbatim>\<open>int\<close> is accepted and its low 8 or 16 bits are the result (only the bit pattern of
  the sentinel is reported as out of range). So the string \<^verbatim>\<open>300\<close> is cast to the \<^verbatim>\<open>TINYINT\<close> 44,
  where the cast of the integer 300 throws.
\<close>

theorem varchar_cast_truncates:
  assumes "in_ctype Int32 z"
  shows "Value_CastAs F (str_val (to_string z)) TINYINT =
      (if narrow Int8 z = PELOTON_INT_NULL Int8 then out_of_range
       else ok (int_val Int8 (narrow Int8 z))) \<and>
    Value_CastAs F (str_val (to_string z)) SMALLINT =
      (if narrow Int16 z = PELOTON_INT_NULL Int16 then out_of_range
       else ok (int_val Int16 (narrow Int16 z)))"
proof -
  have "in_sql Int64 z" using assms by (simp add: in_ctype_def in_sql_def)
  then have len: "length (to_string z) < 4294967294"
    using length_to_string [of Int64 z] by simp
  have n: "in_ctype t (narrow t z)" for t by (rule in_ctype_narrow)
  have v: "Value_of_ctype t (sql_type t) (narrow t z) = ok (int_val t (narrow t z))"
    if "narrow t z \<noteq> PELOTON_INT_NULL t" for t
    using n [of t] that by (intro Value_of_ctype_in) (simp add: in_ctype_cases)
  show ?thesis
    using cast_str_int(1,2) [OF len, of F] parse_to_string(1) [OF assms] v [of Int8] v [of Int16]
      n [of Int8] n [of Int16]
    by (auto simp: parse_number_def Let_def in_ctype_def)
qed

theorem varchar_cast_truncates_witness:
  "Value_CastAs word_cpp (str_val (to_string 300)) TINYINT = ok (int_val Int8 44)"
  using varchar_cast_truncates [where F = word_cpp, of 300]
  by (simp add: in_ctype_def narrow_def signed_take_bit_eq_take_bit_shift take_bit_eq_mod)


section \<open>The order of strings\<close>

text \<open>The three-way comparison \<^verbatim>\<open>CompareStrings\<close> computes, on the bytes before the terminator.\<close>

definition cmp_bytes :: "byte list \<Rightarrow> byte list \<Rightarrow> int" where
  "cmp_bytes a b =
     (let m = min (length a) (length b); r = memcmp (take m a) (take m b) in
      if r = 0 \<and> length a \<noteq> length b then int (length a) - int (length b) else r)"

lemma cmp_bytes_simps [simp]:
  "cmp_bytes [] [] = 0"
  "cmp_bytes [] (y # ys) < 0"
  "0 < cmp_bytes (x # xs) []"
  "cmp_bytes (x # xs) (y # ys) = (if x < y then - 1 else if y < x then 1 else cmp_bytes xs ys)"
  by (simp_all add: cmp_bytes_def Let_def)

lemma cmp_bytes_lexord:
  "cmp_bytes a b < 0 \<longleftrightarrow> (a, b) \<in> lexord {(x, y). x < y}"
proof (induction a arbitrary: b)
  case Nil
  then show ?case by (cases b) simp_all
next
  case (Cons x xs)
  then show ?case by (cases b) (auto simp: order_less_imp_not_less dest: less_asym)
qed

lemma cmp_bytes_0: "cmp_bytes a b = 0 \<longleftrightarrow> a = b"
proof (induction a arbitrary: b)
  case Nil
  then show ?case using cmp_bytes_simps(2) by (cases b) (auto simp: less_le)
next
  case (Cons x xs)
  then show ?case
    by (cases b) (auto simp: cmp_bytes_simps(3) less_imp_neq [OF cmp_bytes_simps(3), symmetric])
qed

lemma cmp_bytes_anti: "cmp_bytes b a = - cmp_bytes a b"
proof -
  have "memcmp (take m b) (take m a) = - memcmp (take m a) (take m b)"
    if "m = min (length a) (length b)" for m
    by (rule memcmp_anti) (simp add: that)
  then show ?thesis by (simp add: cmp_bytes_def Let_def min.commute)
qed

lemma sint_len: "n < 2147483648 \<Longrightarrow> sint (word_of_nat n :: 32 word) = int n"
  using narrow_in_ctype [of Int32 "int n"] sint_word_of_int(3) [of "int n"]
  by (simp add: in_ctype_def)

lemma CompareStrings_eq:
  assumes "length a < 2147483648" "length b < 2147483648"
  shows "CompareStrings (Some (a @ x)) (word_of_nat (length a)) (Some (b @ y)) (word_of_nat (length b))
    = ok (cmp_bytes a b)"
proof -
  define m where "m = min (length a) (length b)"
  have "word_of_int (min (int (length a)) (int (length b))) = (word_of_nat m :: 32 word)"
    by (simp add: m_def flip: of_nat_min)
  moreover have "unat (word_of_nat m :: 32 word) = m"
    using assms by (intro unat_len) (simp add: m_def)
  ultimately show ?thesis
    using assms
    by (auto simp: CompareStrings_def sint_len copy_bytes_def cmp_bytes_def Let_def m_def)
qed

lemmas varlen_compare_defs =
  Value_CompareEquals_def Value_CompareNotEquals_def Value_CompareLessThan_def
  Value_CompareLessThanEquals_def Value_CompareGreaterThan_def Value_CompareGreaterThanEquals_def
  VarlenType_CompareEquals_def VarlenType_CompareNotEquals_def VarlenType_CompareLessThan_def
  VarlenType_CompareLessThanEquals_def VarlenType_CompareGreaterThan_def
  VarlenType_CompareGreaterThanEquals_def

lemma VARLEN_COMPARE_str:
  assumes "length a < 2147483648" "length b < 2147483648"
  shows "VARLEN_COMPARE_FUNC F oper (str_val a) (str_val b) =
    ok (GetCmpBool (int_op oper (cmp_bytes (bytes_of_string a) (bytes_of_string b)) 0))"
  using CompareStrings_eq [of "bytes_of_string a" "bytes_of_string b" "[0]" "[0]"] assms
  by (simp add: VARLEN_COMPARE_FUNC_def Value_GetData_def GetInstance_def str_val_def
      VarlenType_GetData_def VarlenType_GetLength_def bytes_of_string_def Let_def)

lemma Value_Compare_str:
  fixes F :: "'a cpp"
  assumes a: "length a < 2147483648" and b: "length b < 2147483648"
  shows "Value_Compare oper F (str_val a) (str_val b) =
    ok (GetCmpBool (int_op oper (cmp_bytes (bytes_of_string a) (bytes_of_string b)) 0))"
proof -
  have "v_len (str_val s :: 'a Value) \<noteq> 4294967295" if "length s < 2147483648" for s
    using len_not_null [of "length s + 1"] that by (simp add: str_val_def)
  note nn = this [OF a] this [OF b]
  show ?thesis
    using nn VARLEN_COMPARE_str [OF a b, of F]
    by (cases oper) (simp_all add: varlen_compare_defs GetInstance_def IsNull_def
        PELOTON_VALUE_NULL_def PELOTON_VARCHAR_MAX_LEN_def VarlenType_GetLength_def)
qed

text \<open>
  C31. Strings are ordered lexicographically by their bytes. For strings whose length is below
  2^31 the six comparisons agree with the lexicographic order on unsigned bytes (a proper prefix
  is smaller), which is a total order: equality, and less-than in either direction.
\<close>

theorem varchar_order_lexicographic:
  assumes "length a < 2147483648" and "length b < 2147483648"
  shows "let less = (\<lambda>u w. (bytes_of_string u, bytes_of_string w) \<in> lexord {(x, y). x < y}) in
    Value_CompareEquals F (str_val a) (str_val b) = ok (GetCmpBool (a = b)) \<and>
    Value_CompareNotEquals F (str_val a) (str_val b) = ok (GetCmpBool (a \<noteq> b)) \<and>
    Value_CompareLessThan F (str_val a) (str_val b) = ok (GetCmpBool (less a b)) \<and>
    Value_CompareLessThanEquals F (str_val a) (str_val b) = ok (GetCmpBool (\<not> less b a)) \<and>
    Value_CompareGreaterThan F (str_val a) (str_val b) = ok (GetCmpBool (less b a)) \<and>
    Value_CompareGreaterThanEquals F (str_val a) (str_val b) = ok (GetCmpBool (\<not> less a b))"
proof -
  define A where "A = bytes_of_string a"
  define B where "B = bytes_of_string b"
  note c = Value_Compare_str [OF assms, of _ F, folded A_def B_def]
  have eq: "cmp_bytes A B = 0 \<longleftrightarrow> a = b"
    using bytes_string by (metis A_def B_def cmp_bytes_0)
  have gt: "0 < cmp_bytes A B \<longleftrightarrow> (B, A) \<in> lexord {(x, y). x < y}"
    using cmp_bytes_lexord [of B A] cmp_bytes_anti [of A B] by simp
  show ?thesis
    using c [of OpEq] c [of OpNe] c [of OpLt] c [of OpLe] c [of OpGt] c [of OpGe] eq gt
      cmp_bytes_lexord [of A B]
    by (simp add: Let_def not_less not_le flip: A_def B_def) (auto simp: not_less)
qed

theorem varchar_order_lexicographic_witness:
  "Value_CompareLessThan word_cpp (str_val ''ab'') (str_val ''abc'') = ok CMP_TRUE \<and>
   Value_CompareEquals word_cpp (str_val ''ab'') (str_val ''abc'') = ok CMP_FALSE"
  using varchar_order_lexicographic [where F = word_cpp, of "''ab''" "''abc''"]
  by (simp add: Let_def GetCmpBool_def bytes_of_string_def)

end
