(* ===== verification/Rw_Mutex.thy ===== *)
theory Rw_Mutex
  imports Scudb_Prelude
begin

text \<open>
  The readers-writer latch of \<^verbatim>\<open>include/common/rwmutex.h\<close> (page latches and the root latch of the
  tree) as a state machine over any number of threads. The critical sections of the monitor are
  the functions \<^verbatim>\<open>rw_WLock\<close>, \<^verbatim>\<open>rw_WUnlock\<close>, \<^verbatim>\<open>rw_RLock\<close> and \<^verbatim>\<open>rw_RUnlock\<close>; a thread that waits
  on a condition variable is asleep until it is notified (or wakes without notification, which
  the standard allows) and then tests its condition again. The theorems are mutual exclusion,
  that no wake-up is lost, and that every request is served.
\<close>

section \<open>The monitor\<close>

record rw_mutex =
  reader_count :: "32 word"
  writer_entered :: bool

definition max_readers :: "32 word" where
  "max_readers = 4294967295"

definition rw_init :: rw_mutex where
  "rw_init = \<lparr>reader_count = 0, writer_entered = False\<rparr>"

text \<open>
  Where a thread stands: outside, asleep in one of the three waits, awake again before the test of
  that wait, or holding the latch.
\<close>

datatype rw_pc =
    Outside
  | Asleep_Enter | Awake_Enter
  | Asleep_Drain | Awake_Drain
  | Asleep_Read | Awake_Read
  | Writing
  | Reading

text \<open>The condition variables a critical section notifies when it ends.\<close>

datatype rw_notify = No_Notify | Reader_All | Reader_One | Writer_One

text \<open>The second loop of \<^verbatim>\<open>WLock\<close>: wait until the readers have left.\<close>

definition rw_drain :: "rw_mutex \<Rightarrow> rw_mutex \<times> rw_pc" where
  "rw_drain m = (m, if reader_count m > 0 then Asleep_Drain else Writing)"

definition rw_WLock :: "rw_mutex \<Rightarrow> rw_mutex \<times> rw_pc" where
  "rw_WLock m =
     (if writer_entered m then (m, Asleep_Enter) else rw_drain (m\<lparr>writer_entered := True\<rparr>))"

definition rw_WUnlock :: "rw_mutex \<Rightarrow> rw_mutex \<times> rw_notify" where
  "rw_WUnlock m = (m\<lparr>writer_entered := False\<rparr>, Reader_All)"

definition rw_RLock :: "rw_mutex \<Rightarrow> rw_mutex \<times> rw_pc" where
  "rw_RLock m =
     (if writer_entered m \<or> reader_count m = max_readers then (m, Asleep_Read)
      else (m\<lparr>reader_count := reader_count m + 1\<rparr>, Reading))"

definition rw_RUnlock :: "rw_mutex \<Rightarrow> rw_mutex \<times> rw_notify" where
  "rw_RUnlock m =
     (let m' = m\<lparr>reader_count := reader_count m - 1\<rparr> in
      (m', if writer_entered m' then (if reader_count m' = 0 then Writer_One else No_Notify)
           else (if reader_count m' = max_readers - 1 then Reader_One else No_Notify)))"

section \<open>Threads\<close>

record rw_state =
  latch :: rw_mutex
  pc :: "nat \<Rightarrow> rw_pc"

text \<open>\<^verbatim>\<open>notify_all\<close> wakes the threads that wait on \<^verbatim>\<open>reader_\<close>: writers at the door and readers.\<close>

fun wake_reader :: "rw_pc \<Rightarrow> rw_pc" where
  "wake_reader Asleep_Enter = Awake_Enter"
| "wake_reader Asleep_Read = Awake_Read"
| "wake_reader p = p"

fun wake_writer :: "rw_pc \<Rightarrow> rw_pc" where
  "wake_writer Asleep_Drain = Awake_Drain"
| "wake_writer p = p"

text \<open>The threads after a notification; \<^verbatim>\<open>notify_one\<close> picks a waiting thread if there is one.\<close>

inductive notified :: "rw_notify \<Rightarrow> (nat \<Rightarrow> rw_pc) \<Rightarrow> (nat \<Rightarrow> rw_pc) \<Rightarrow> bool" where
  none: "notified No_Notify p p"
| all: "notified Reader_All p (wake_reader \<circ> p)"
| one_reader: "wake_reader (p t) \<noteq> p t \<Longrightarrow> notified Reader_One p (p(t := wake_reader (p t)))"
| no_reader: "\<forall>t. wake_reader (p t) = p t \<Longrightarrow> notified Reader_One p p"
| one_writer: "wake_writer (p t) \<noteq> p t \<Longrightarrow> notified Writer_One p (p(t := wake_writer (p t)))"
| no_writer: "\<forall>t. wake_writer (p t) = p t \<Longrightarrow> notified Writer_One p p"

inductive rw_step :: "nat \<Rightarrow> rw_state \<Rightarrow> rw_state \<Rightarrow> bool" for n :: nat where
  wlock: "t < n \<Longrightarrow> pc s t \<in> {Outside, Awake_Enter} \<Longrightarrow> rw_WLock (latch s) = (m, q) \<Longrightarrow>
    rw_step n s (s\<lparr>latch := m, pc := (pc s)(t := q)\<rparr>)"
| drain: "t < n \<Longrightarrow> pc s t = Awake_Drain \<Longrightarrow> rw_drain (latch s) = (m, q) \<Longrightarrow>
    rw_step n s (s\<lparr>latch := m, pc := (pc s)(t := q)\<rparr>)"
| rlock: "t < n \<Longrightarrow> pc s t \<in> {Outside, Awake_Read} \<Longrightarrow> rw_RLock (latch s) = (m, q) \<Longrightarrow>
    rw_step n s (s\<lparr>latch := m, pc := (pc s)(t := q)\<rparr>)"
| wunlock: "t < n \<Longrightarrow> pc s t = Writing \<Longrightarrow> rw_WUnlock (latch s) = (m, e) \<Longrightarrow>
    notified e ((pc s)(t := Outside)) p \<Longrightarrow> rw_step n s (s\<lparr>latch := m, pc := p\<rparr>)"
| runlock: "t < n \<Longrightarrow> pc s t = Reading \<Longrightarrow> rw_RUnlock (latch s) = (m, e) \<Longrightarrow>
    notified e ((pc s)(t := Outside)) p \<Longrightarrow> rw_step n s (s\<lparr>latch := m, pc := p\<rparr>)"
| spurious: "t < n \<Longrightarrow> rw_step n s (s\<lparr>pc := (pc s)(t := wake_writer (wake_reader (pc s t)))\<rparr>)"

inductive_cases notified_cases: "notified e p p'"

inductive rw_reach :: "nat \<Rightarrow> rw_state \<Rightarrow> bool" for n :: nat where
  start: "rw_reach n \<lparr>latch = rw_init, pc = (\<lambda>t. Outside)\<rparr>"
| step: "rw_reach n s \<Longrightarrow> rw_step n s s' \<Longrightarrow> rw_reach n s'"

section \<open>The invariant\<close>

text \<open>A thread has entered as a writer when it waits for the readers or writes.\<close>

definition entered :: "rw_pc \<Rightarrow> bool" where
  "entered q \<longleftrightarrow> q \<in> {Asleep_Drain, Awake_Drain, Writing}"

definition readers :: "nat \<Rightarrow> rw_state \<Rightarrow> nat set" where
  "readers n s = {t. t < n \<and> pc s t = Reading}"

definition rw_inv :: "nat \<Rightarrow> rw_state \<Rightarrow> bool" where
  "rw_inv n s \<longleftrightarrow>
     (\<forall>t. n \<le> t \<longrightarrow> pc s t = Outside) \<and>
     unat (reader_count (latch s)) = card (readers n s) \<and>
     (writer_entered (latch s) \<longleftrightarrow> (\<exists>t. entered (pc s t))) \<and>
     (\<forall>t u. entered (pc s t) \<longrightarrow> entered (pc s u) \<longrightarrow> t = u) \<and>
     (\<forall>t. pc s t = Writing \<longrightarrow> reader_count (latch s) = 0) \<and>
     (\<forall>t. pc s t = Asleep_Drain \<longrightarrow> reader_count (latch s) \<noteq> 0) \<and>
     (\<forall>t. pc s t \<in> {Asleep_Enter, Asleep_Read} \<longrightarrow> writer_entered (latch s))"

lemma entered_simps [simp]:
  "\<not> entered Outside" "\<not> entered Asleep_Enter" "\<not> entered Awake_Enter" "\<not> entered Asleep_Read"
  "\<not> entered Awake_Read" "\<not> entered Reading"
  "entered Asleep_Drain" "entered Awake_Drain" "entered Writing"
  by (simp_all add: entered_def)

lemma wake_reader_simps [simp]:
  "entered (wake_reader q) = entered q" "wake_reader q = Reading \<longleftrightarrow> q = Reading"
  "wake_reader q = Outside \<longleftrightarrow> q = Outside" "wake_reader q = Writing \<longleftrightarrow> q = Writing"
  "wake_reader q = Asleep_Drain \<longleftrightarrow> q = Asleep_Drain"
  "wake_reader q \<noteq> Asleep_Enter" "wake_reader q \<noteq> Asleep_Read"
  by (cases q; simp)+

lemma wake_writer_simps [simp]:
  "entered (wake_writer q) = entered q" "wake_writer q = Reading \<longleftrightarrow> q = Reading"
  "wake_writer q = Outside \<longleftrightarrow> q = Outside" "wake_writer q = Writing \<longleftrightarrow> q = Writing"
  "wake_writer q = Asleep_Enter \<longleftrightarrow> q = Asleep_Enter" "wake_writer q = Asleep_Read \<longleftrightarrow> q = Asleep_Read"
  "wake_writer q \<noteq> Asleep_Drain"
  by (cases q; simp)+

lemma finite_readers [simp]: "finite (readers n s)"
  by (simp add: readers_def)

lemma card_readers_le: "card (readers n s) \<le> n"
  using card_mono [of "{..<n}" "readers n s"] by (auto simp: readers_def)

lemma rw_invD:
  assumes "rw_inv n s"
  shows "n \<le> t \<Longrightarrow> pc s t = Outside"
    and "unat (reader_count (latch s)) = card (readers n s)"
    and "writer_entered (latch s) \<longleftrightarrow> (\<exists>t. entered (pc s t))"
    and "entered (pc s t) \<Longrightarrow> entered (pc s u) \<Longrightarrow> t = u"
    and "pc s t = Writing \<Longrightarrow> reader_count (latch s) = 0"
    and "pc s t = Asleep_Drain \<Longrightarrow> reader_count (latch s) \<noteq> 0"
    and "pc s t \<in> {Asleep_Enter, Asleep_Read} \<Longrightarrow> writer_entered (latch s)"
  using assms unfolding rw_inv_def by blast+

lemma rw_inv_start: "rw_inv n \<lparr>latch = rw_init, pc = (\<lambda>t. Outside)\<rparr>"
  by (simp add: rw_inv_def rw_init_def readers_def)

text \<open>A notification changes no thread other than from asleep to awake.\<close>

lemma notified_keeps:
  assumes "notified e p p'"
  shows "entered (p' t) = entered (p t)" and "p' t = Reading \<longleftrightarrow> p t = Reading"
    and "p' t = Outside \<longleftrightarrow> p t = Outside" and "p' t = Writing \<longleftrightarrow> p t = Writing"
    and "p' t = Asleep_Drain \<Longrightarrow> p t = Asleep_Drain"
    and "p' t \<in> {Asleep_Enter, Asleep_Read} \<Longrightarrow> p t \<in> {Asleep_Enter, Asleep_Read}"
  using assms by (induction rule: notified.induct) (auto split: if_splits)

lemma notified_all:
  "notified Reader_All p p' \<Longrightarrow> p' t \<notin> {Asleep_Enter, Asleep_Read}"
  by (erule notified_cases) auto

lemma notified_writer:
  assumes "notified Writer_One p p'" and "\<forall>t u. entered (p t) \<longrightarrow> entered (p u) \<longrightarrow> t = u"
  shows "p' t \<noteq> Asleep_Drain"
  using assms(1)
proof (rule notified_cases)
  fix u
  assume p': "p' = p(u := wake_writer (p u))" and u: "wake_writer (p u) \<noteq> p u"
  then have "entered (p u)" by (cases "p u") auto
  then have "entered (p t) \<Longrightarrow> t = u" using assms(2) by blast
  then show ?thesis using p' by (cases "t = u") auto
next
  assume "p' = p" and "\<forall>t. wake_writer (p t) = p t"
  then show ?thesis by (metis wake_writer_simps(7))
qed simp_all

lemma readers_other:
  "pc s t \<noteq> Reading \<Longrightarrow> q \<noteq> Reading \<Longrightarrow> readers n (s\<lparr>latch := m, pc := (pc s)(t := q)\<rparr>) = readers n s"
  by (auto simp: readers_def)

lemma rw_inv_same_latch:
  assumes inv: "rw_inv n s"
    and e: "\<And>u. entered (p u) = entered (pc s u)" and r: "\<And>u. p u = Reading \<longleftrightarrow> pc s u = Reading"
    and w: "\<And>u. p u = Writing \<Longrightarrow> pc s u = Writing"
    and d: "\<And>u. p u = Asleep_Drain \<Longrightarrow> pc s u = Asleep_Drain"
    and o: "\<And>u. n \<le> u \<Longrightarrow> p u = Outside"
    and door: "\<And>u. p u \<in> {Asleep_Enter, Asleep_Read} \<Longrightarrow> writer_entered (latch s)"
  shows "rw_inv n (s\<lparr>latch := latch s, pc := p\<rparr>)"
proof -
  have "readers n (s\<lparr>latch := latch s, pc := p\<rparr>) = readers n s" by (simp add: readers_def r)
  then have "unat (reader_count (latch s)) = card (readers n (s\<lparr>latch := latch s, pc := p\<rparr>))"
    using rw_invD(2) [OF inv] by simp
  moreover have "writer_entered (latch s) \<longleftrightarrow> (\<exists>t. entered (p t))" using rw_invD(3) [OF inv] e by simp
  moreover have "\<forall>t u. entered (p t) \<longrightarrow> entered (p u) \<longrightarrow> t = u" using rw_invD(4) [OF inv] e by blast
  moreover have "\<forall>t. p t = Writing \<longrightarrow> reader_count (latch s) = 0" using rw_invD(5) [OF inv] w by blast
  moreover have "\<forall>t. p t = Asleep_Drain \<longrightarrow> reader_count (latch s) \<noteq> 0" using rw_invD(6) [OF inv] d by blast
  ultimately show ?thesis unfolding rw_inv_def using o door by simp
qed

text \<open>A thread that is neither a writer nor a reader may move between the waits of the door.\<close>

lemma inv_neutral:
  assumes inv: "rw_inv n s" and t: "t < n" "\<not> entered (pc s t)" "pc s t \<noteq> Reading"
    and q: "\<not> entered q" "q \<noteq> Reading"
    and we: "q \<in> {Asleep_Enter, Asleep_Read} \<Longrightarrow> writer_entered (latch s)"
  shows "rw_inv n (s\<lparr>latch := latch s, pc := (pc s)(t := q)\<rparr>)"
  by (rule rw_inv_same_latch [OF inv])
    (use t q we rw_invD(1) [OF inv] rw_invD(7) [OF inv] in \<open>force split: if_splits\<close>)+

lemma inv_WLock:
  assumes inv: "rw_inv n s" and t: "t < n" "pc s t \<in> {Outside, Awake_Enter}"
    and lock: "rw_WLock (latch s) = (m, q)"
  shows "rw_inv n (s\<lparr>latch := m, pc := (pc s)(t := q)\<rparr>)"
proof (cases "writer_entered (latch s)")
  case True
  then have "m = latch s" "q = Asleep_Enter" using lock by (auto simp: rw_WLock_def)
  then show ?thesis using inv_neutral [OF inv t(1), of q] t True by auto
next
  case False
  then have none: "\<not> entered (pc s u)" for u using rw_invD(3) [OF inv] by blast
  have m: "m = (latch s)\<lparr>writer_entered := True\<rparr>"
    and q: "q = (if reader_count (latch s) > 0 then Asleep_Drain else Writing)"
    using lock False by (auto simp: rw_WLock_def rw_drain_def)
  have "pc s u \<noteq> Writing" "pc s u \<noteq> Asleep_Drain" for u using none [of u] by auto
  then show ?thesis
    unfolding rw_inv_def using rw_invD [OF inv] t none readers_other [of s t q n m]
    by (auto simp: m q word_gt_0)
qed

lemma inv_drain:
  assumes inv: "rw_inv n s" and t: "t < n" "pc s t = Awake_Drain"
    and lock: "rw_drain (latch s) = (m, q)"
  shows "rw_inv n (s\<lparr>latch := m, pc := (pc s)(t := q)\<rparr>)"
proof -
  have m: "m = latch s" and q: "q = (if reader_count (latch s) > 0 then Asleep_Drain else Writing)"
    using lock by (auto simp: rw_drain_def)
  have only: "entered (pc s u) \<Longrightarrow> u = t" for u using rw_invD(4) [OF inv, of u t] t by simp
  then have "u \<noteq> t \<Longrightarrow> pc s u \<noteq> Writing \<and> pc s u \<noteq> Asleep_Drain" for u
    by (metis entered_simps(7,9))
  moreover have "writer_entered (latch s)" using rw_invD(3) [OF inv] t by (metis entered_simps(8))
  ultimately show ?thesis
    unfolding rw_inv_def using rw_invD [OF inv] t only readers_other [of s t q n m]
    by (auto simp: m q word_gt_0)
qed

lemma unat_inc: "x \<noteq> max_readers \<Longrightarrow> unat (x + 1) = unat x + 1"
proof -
  assume x: "x \<noteq> max_readers"
  have "1 + x \<noteq> 0"
  proof
    assume "1 + x = 0"
    then have "x = - 1" by (simp add: add_eq_0_iff)
    with x show False by (simp add: max_readers_def)
  qed
  then show ?thesis using unatSuc [of x] by (simp add: add.commute)
qed

lemma inv_RLock:
  assumes inv: "rw_inv n s" and n: "n < 4294967295" and t: "t < n" "pc s t \<in> {Outside, Awake_Read}"
    and lock: "rw_RLock (latch s) = (m, q)"
  shows "rw_inv n (s\<lparr>latch := m, pc := (pc s)(t := q)\<rparr>)"
proof -
  have "unat (reader_count (latch s)) < 4294967295"
    using rw_invD(2) [OF inv] card_readers_le [of n s] n by simp
  then have room: "reader_count (latch s) \<noteq> max_readers" by (auto simp: max_readers_def)
  show ?thesis
  proof (cases "writer_entered (latch s)")
    case True
    then have "m = latch s" "q = Asleep_Read" using lock by (auto simp: rw_RLock_def)
    then show ?thesis using inv_neutral [OF inv t(1), of q] t True by auto
  next
    case False
    then have none: "\<not> entered (pc s u)" for u using rw_invD(3) [OF inv] by blast
    have m: "m = (latch s)\<lparr>reader_count := reader_count (latch s) + 1\<rparr>" and q: "q = Reading"
      using lock False room by (auto simp: rw_RLock_def)
    have "readers n (s\<lparr>latch := m, pc := (pc s)(t := q)\<rparr>) = insert t (readers n s)"
      using t q by (auto simp: readers_def)
    moreover have "t \<notin> readers n s" using t by (auto simp: readers_def)
    ultimately have c: "card (readers n (s\<lparr>latch := m, pc := (pc s)(t := q)\<rparr>)) = card (readers n s) + 1"
      by simp
    have "pc s u \<noteq> Writing" "pc s u \<noteq> Asleep_Drain" for u using none [of u] by auto
    then show ?thesis
      unfolding rw_inv_def using rw_invD [OF inv] t none c unat_inc [OF room] False
      by (auto simp: m q)
  qed
qed

lemma inv_WUnlock:
  assumes inv: "rw_inv n s" and t: "t < n" "pc s t = Writing"
    and unlock: "rw_WUnlock (latch s) = (m, e)" and p: "notified e ((pc s)(t := Outside)) p"
  shows "rw_inv n (s\<lparr>latch := m, pc := p\<rparr>)"
proof -
  have m: "m = (latch s)\<lparr>writer_entered := False\<rparr>" and e: "e = Reader_All"
    using unlock by (auto simp: rw_WUnlock_def)
  note keep = notified_keeps [OF p]
  have none: "\<not> entered (p u)" for u
    using keep(1) [of u] rw_invD(4) [OF inv, of u t] t by (cases "u = t") auto
  have "readers n (s\<lparr>latch := m, pc := p\<rparr>) = readers n s"
    using keep(2) t by (auto simp: readers_def)
  moreover have "p u \<noteq> Writing" "p u \<noteq> Asleep_Drain" for u using none [of u] by auto
  moreover have "n \<le> u \<Longrightarrow> p u = Outside" for u using keep(3) [of u] rw_invD(1) [OF inv, of u] by simp
  moreover have "p u \<notin> {Asleep_Enter, Asleep_Read}" for u using notified_all p e by blast
  ultimately show ?thesis
    unfolding rw_inv_def using none rw_invD(2) [OF inv] by (auto simp: m)
qed

lemma inv_RUnlock:
  assumes inv: "rw_inv n s" and t: "t < n" "pc s t = Reading"
    and unlock: "rw_RUnlock (latch s) = (m, e)" and p: "notified e ((pc s)(t := Outside)) p"
  shows "rw_inv n (s\<lparr>latch := m, pc := p\<rparr>)"
proof -
  define c where "c = reader_count (latch s)"
  have m: "m = (latch s)\<lparr>reader_count := c - 1\<rparr>" using unlock by (auto simp: rw_RUnlock_def c_def Let_def)
  have e: "writer_entered (latch s) \<Longrightarrow> c - 1 = 0 \<Longrightarrow> e = Writer_One"
    using unlock by (auto simp: rw_RUnlock_def c_def Let_def)
  note keep = notified_keeps [OF p]
  have ent: "entered (p u) = entered (pc s u)" for u using keep(1) [of u] t by simp
  have w: "p u \<noteq> Writing" for u
  proof
    assume "p u = Writing"
    then have "pc s u = Writing" using keep(4) [of u] by (auto split: if_splits)
    then have "card (readers n s) = 0" using rw_invD(2,5) [OF inv] by simp
    then show False using t by (auto simp: readers_def)
  qed
  have rd: "readers n (s\<lparr>latch := m, pc := p\<rparr>) = readers n s - {t}"
    using keep(2) t by (auto simp: readers_def)
  have tin: "t \<in> readers n s" using t by (simp add: readers_def)
  then have "c \<noteq> 0" using rw_invD(2) [OF inv] by (auto simp: c_def)
  then have cnt: "unat (c - 1) = card (readers n s - {t})"
    using rw_invD(2) [OF inv] tin by (simp add: unat_minus_one c_def)
  have uniq: "\<forall>u v. entered (((pc s)(t := Outside)) u) \<longrightarrow> entered (((pc s)(t := Outside)) v) \<longrightarrow> u = v"
    using rw_invD(4) [OF inv] by simp
  have dr: "p u = Asleep_Drain \<Longrightarrow> c - 1 \<noteq> 0" for u
  proof
    assume u: "p u = Asleep_Drain" and "c - 1 = 0"
    moreover have "writer_entered (latch s)"
      using rw_invD(3) [OF inv] ent [of u] u by (metis entered_simps(7))
    ultimately have "e = Writer_One" using e by blast
    then show False using notified_writer [OF _ uniq] p u by blast
  qed
  moreover have "n \<le> u \<Longrightarrow> p u = Outside" for u using keep(3) [of u] rw_invD(1) [OF inv, of u] by simp
  moreover have "p u \<in> {Asleep_Enter, Asleep_Read} \<Longrightarrow> writer_entered (latch s)" for u
    using keep(6) [of u] rw_invD(7) [OF inv, of u] by (auto split: if_splits)
  ultimately show ?thesis
    unfolding rw_inv_def using ent w rw_invD(3,4) [OF inv] rd cnt by (auto simp: m)
qed

lemma inv_spurious:
  assumes inv: "rw_inv n s" and t: "t < n"
  shows "rw_inv n (s\<lparr>pc := (pc s)(t := wake_writer (wake_reader (pc s t)))\<rparr>)"
proof -
  have "rw_inv n (s\<lparr>latch := latch s, pc := (pc s)(t := wake_writer (wake_reader (pc s t)))\<rparr>)"
    by (rule rw_inv_same_latch [OF inv])
      (use t rw_invD(1) [OF inv] rw_invD(7) [OF inv] in \<open>force split: if_splits\<close>)+
  then show ?thesis by simp
qed

lemma rw_inv_step:
  "rw_step n s s' \<Longrightarrow> rw_inv n s \<Longrightarrow> n < 4294967295 \<Longrightarrow> rw_inv n s'"
  by (induction rule: rw_step.induct)
    (auto intro: inv_WLock inv_drain inv_RLock inv_WUnlock inv_RUnlock inv_spurious)

lemma rw_reach_inv: "rw_reach n s \<Longrightarrow> n < 4294967295 \<Longrightarrow> rw_inv n s"
  by (induction rule: rw_reach.induct) (auto intro: rw_inv_start rw_inv_step)

section \<open>Serving the threads\<close>

text \<open>
  The steps of the threads that already have a request: a thread that was woken tests its condition
  again, and a thread that holds the latch releases it. No thread outside makes a new request and no
  thread wakes without a notification.
\<close>

inductive rw_serve :: "nat \<Rightarrow> rw_state \<Rightarrow> rw_state \<Rightarrow> bool" for n :: nat where
  enter: "t < n \<Longrightarrow> pc s t = Awake_Enter \<Longrightarrow> rw_WLock (latch s) = (m, q) \<Longrightarrow>
    rw_serve n s (s\<lparr>latch := m, pc := (pc s)(t := q)\<rparr>)"
| drain: "t < n \<Longrightarrow> pc s t = Awake_Drain \<Longrightarrow> rw_drain (latch s) = (m, q) \<Longrightarrow>
    rw_serve n s (s\<lparr>latch := m, pc := (pc s)(t := q)\<rparr>)"
| read: "t < n \<Longrightarrow> pc s t = Awake_Read \<Longrightarrow> rw_RLock (latch s) = (m, q) \<Longrightarrow>
    rw_serve n s (s\<lparr>latch := m, pc := (pc s)(t := q)\<rparr>)"
| wunlock: "t < n \<Longrightarrow> pc s t = Writing \<Longrightarrow> rw_WUnlock (latch s) = (m, e) \<Longrightarrow>
    notified e ((pc s)(t := Outside)) p \<Longrightarrow> rw_serve n s (s\<lparr>latch := m, pc := p\<rparr>)"
| runlock: "t < n \<Longrightarrow> pc s t = Reading \<Longrightarrow> rw_RUnlock (latch s) = (m, e) \<Longrightarrow>
    notified e ((pc s)(t := Outside)) p \<Longrightarrow> rw_serve n s (s\<lparr>latch := m, pc := p\<rparr>)"

lemma rw_serve_step: "rw_serve n s s' \<Longrightarrow> rw_step n s s'"
  by (induction rule: rw_serve.induct) (auto intro: rw_step.intros)

lemma rw_serve_reach: "(rw_serve n)\<^sup>*\<^sup>* s s' \<Longrightarrow> rw_reach n s \<Longrightarrow> rw_reach n s'"
  by (induction rule: rtranclp_induct) (auto intro: rw_reach.step rw_serve_step)

text \<open>The work that is left: the threads inside, and those of them that are awake.\<close>

definition awake :: "rw_pc \<Rightarrow> bool" where
  "awake q \<longleftrightarrow> q \<in> {Awake_Enter, Awake_Drain, Awake_Read}"

definition rw_load :: "nat \<Rightarrow> (nat \<Rightarrow> rw_pc) \<Rightarrow> nat" where
  "rw_load n p = card {t. t < n \<and> p t \<noteq> Outside} * Suc n + card {t. t < n \<and> awake (p t)}"

lemma load_sleep:
  assumes "t < n" and "awake (p t)" and "\<not> awake q" and "q \<noteq> Outside"
  shows "rw_load n (p(t := q)) < rw_load n p"
proof -
  have "{u. u < n \<and> (p(t := q)) u \<noteq> Outside} = {u. u < n \<and> p u \<noteq> Outside}"
    using assms by (auto simp: awake_def)
  moreover have "{u. u < n \<and> awake ((p(t := q)) u)} \<subset> {u. u < n \<and> awake (p u)}"
    using assms by (auto split: if_splits)
  then have "card {u. u < n \<and> awake ((p(t := q)) u)} < card {u. u < n \<and> awake (p u)}"
    by (intro psubset_card_mono) auto
  ultimately show ?thesis by (simp only: rw_load_def)
qed

lemma load_leave:
  assumes "t < n" and "p t \<noteq> Outside" and "notified e (p(t := Outside)) p'"
  shows "rw_load n p' < rw_load n p"
proof -
  let ?A = "{u. u < n \<and> p u \<noteq> Outside}"
  have "{u. u < n \<and> p' u \<noteq> Outside} = ?A - {t}"
    using notified_keeps(3) [OF assms(3)] assms(2) by auto
  moreover have "card ?A = Suc (card (?A - {t}))" using card.remove [of ?A t] assms(1,2) by simp
  ultimately have c: "Suc (card {u. u < n \<and> p' u \<noteq> Outside}) = card ?A" by metis
  have "card {u. u < n \<and> awake (p' u)} \<le> n" using card_mono [of "{..<n}" "{u. u < n \<and> awake (p' u)}"] by auto
  then have "rw_load n p' < Suc (card {u. u < n \<and> p' u \<noteq> Outside}) * Suc n" by (simp add: rw_load_def)
  also have "\<dots> \<le> rw_load n p" unfolding c by (simp add: rw_load_def)
  finally show ?thesis .
qed

lemma rw_serve_load: "rw_serve n s s' \<Longrightarrow> rw_load n (pc s') < rw_load n (pc s)"
proof (induction rule: rw_serve.induct)
  case (enter t s m q)
  then have "awake (pc s t)" "\<not> awake q \<and> q \<noteq> Outside"
    by (auto simp: rw_WLock_def rw_drain_def awake_def split: if_splits)
  then show ?case using load_sleep [OF enter(1), of "pc s" q] by (simp del: fun_upd_apply)
next
  case (drain t s m q)
  then have "awake (pc s t)" "\<not> awake q \<and> q \<noteq> Outside" by (auto simp: rw_drain_def awake_def split: if_splits)
  then show ?case using load_sleep [OF drain(1), of "pc s" q] by (simp del: fun_upd_apply)
next
  case (read t s m q)
  then have "awake (pc s t)" "\<not> awake q \<and> q \<noteq> Outside" by (auto simp: rw_RLock_def awake_def split: if_splits)
  then show ?case using load_sleep [OF read(1), of "pc s" q] by (simp del: fun_upd_apply)
next
  case (wunlock t s m e p)
  then show ?case using load_leave [of t n "pc s" e p] by simp
next
  case (runlock t s m e p)
  then show ?case using load_leave [of t n "pc s" e p] by simp
qed

lemma notified_total: "\<exists>p'. notified e p p'"
  by (cases e) (metis notified.intros)+

text \<open>As long as a thread is inside, some thread can move.\<close>

lemma rw_serve_progress:
  assumes inv: "rw_inv n s" and t: "pc s t \<noteq> Outside"
  shows "\<exists>s'. rw_serve n s s'"
proof -
  have lt: "u < n" if "pc s u \<noteq> Outside" for u using rw_invD(1) [OF inv, of u] that by (cases "u < n") auto
  have holds: "\<exists>s'. rw_serve n s s'" if h: "pc s u = Writing \<or> pc s u = Reading \<or> awake (pc s u)" for u
  proof -
    have u: "u < n" using lt h by (auto simp: awake_def)
    consider "pc s u = Writing" | "pc s u = Reading" | "pc s u = Awake_Enter" | "pc s u = Awake_Drain" | "pc s u = Awake_Read"
      using h unfolding awake_def by blast
    then show ?thesis
    proof cases
      case 1
      obtain m e where "rw_WUnlock (latch s) = (m, e)" by fastforce
      with 1 u notified_total [of e "(pc s)(u := Outside)"] show ?thesis by (auto intro: rw_serve.wunlock)
    next
      case 2
      obtain m e where "rw_RUnlock (latch s) = (m, e)" by fastforce
      with 2 u notified_total [of e "(pc s)(u := Outside)"] show ?thesis by (auto intro: rw_serve.runlock)
    next
      case 3
      obtain m q where "rw_WLock (latch s) = (m, q)" by fastforce
      with 3 u show ?thesis by (auto intro: rw_serve.enter)
    next
      case 4
      obtain m q where "rw_drain (latch s) = (m, q)" by fastforce
      with 4 u show ?thesis by (auto intro: rw_serve.drain)
    next
      case 5
      obtain m q where "rw_RLock (latch s) = (m, q)" by fastforce
      with 5 u show ?thesis by (auto intro: rw_serve.read)
    qed
  qed
  have drain: "\<exists>s'. rw_serve n s s'" if "pc s u = Asleep_Drain" for u
  proof -
    have "card (readers n s) \<noteq> 0" using rw_invD(2,6) [OF inv] that by (metis unat_eq_0)
    then obtain v where "v \<in> readers n s" by fastforce
    then show ?thesis using holds [of v] by (simp add: readers_def)
  qed
  show ?thesis
  proof (cases "pc s t \<in> {Asleep_Enter, Asleep_Read}")
    case True
    then obtain u where "entered (pc s u)" using rw_invD(3) [OF inv] rw_invD(7) [OF inv] by blast
    then show ?thesis using holds [of u] drain [of u] by (auto simp: entered_def awake_def)
  next
    case False
    then show ?thesis using holds [of t] drain [of t] t by (cases "pc s t") (auto simp: awake_def)
  qed
qed

lemma rw_serve_ends: "\<not> (\<exists>f. f 0 = s \<and> (\<forall>i. rw_serve n (f i) (f (Suc i))))"
proof
  assume "\<exists>f. f 0 = s \<and> (\<forall>i. rw_serve n (f i) (f (Suc i)))"
  then obtain f where "\<And>i. rw_serve n (f i) (f (Suc i))" by blast
  then have "\<forall>i. (f (Suc i), f i) \<in> measure (\<lambda>s. rw_load n (pc s))" using rw_serve_load by simp
  then show False using wf_measure wf_iff_no_infinite_down_chain by metis
qed

text \<open>A reader inside and a writer that waits for it to leave.\<close>

lemma waiting_writer:
  obtains s where "rw_reach 2 s" and "pc s 0 = Reading" and "pc s 1 = Asleep_Drain"
proof -
  define s0 where "s0 = \<lparr>latch = rw_init, pc = (\<lambda>t. Outside)\<rparr>"
  define s1 where "s1 = s0\<lparr>latch := \<lparr>reader_count = 1, writer_entered = False\<rparr>, pc := (pc s0)(0 := Reading)\<rparr>"
  define s2 where "s2 = s1\<lparr>latch := \<lparr>reader_count = 1, writer_entered = True\<rparr>, pc := (pc s1)(1 := Asleep_Drain)\<rparr>"
  have "rw_reach 2 s0" by (simp add: s0_def rw_reach.start)
  moreover have "rw_step 2 s0 s1"
    unfolding s1_def by (rule rw_step.rlock) (simp_all add: s0_def rw_RLock_def rw_init_def max_readers_def)
  moreover have "rw_step 2 s1 s2"
    unfolding s2_def by (rule rw_step.wlock) (simp_all add: s1_def s0_def rw_WLock_def rw_drain_def)
  ultimately have "rw_reach 2 s2" by (meson rw_reach.step)
  then show thesis by (rule that) (simp_all add: s2_def s1_def)
qed

section \<open>Properties\<close>

text \<open>
  C32. The latch excludes and loses no wake-up. In every reachable state of fewer than 2^32 - 1
  threads, under any interleaving and with spurious wake-ups: a thread that writes is alone (no
  other thread reads or writes); the reader count is the number of reading threads; a thread
  asleep at the door has a writer inside it waits for, and a writer asleep until the readers leave
  has a reader inside - so a thread only sleeps while some thread holds the latch or is about to
  take it, and every notification it needs is still to come.
\<close>

theorem rw_mutex_safe:
  assumes "rw_reach n s" and "n < 4294967295"
  shows "(\<forall>t u. pc s t = Writing \<longrightarrow> u \<noteq> t \<longrightarrow> pc s u \<noteq> Writing \<and> pc s u \<noteq> Reading) \<and>
    unat (reader_count (latch s)) = card {t. t < n \<and> pc s t = Reading} \<and>
    (\<forall>t. pc s t \<in> {Asleep_Enter, Asleep_Read} \<longrightarrow>
      (\<exists>u < n. pc s u \<in> {Writing, Awake_Drain, Asleep_Drain})) \<and>
    (\<forall>t. pc s t = Asleep_Drain \<longrightarrow> (\<exists>u < n. pc s u = Reading))"
proof -
  note inv = rw_reach_inv [OF assms]
  have rd: "u \<in> readers n s \<longleftrightarrow> pc s u = Reading" for u
    using rw_invD(1) [OF inv, of u] by (cases "u < n") (auto simp: readers_def)
  have "pc s u \<noteq> Reading" if "pc s t = Writing" for t u
    using rw_invD(2,5) [OF inv] that rd [of u] by auto
  moreover have "u = t" if "pc s t = Writing" "pc s u = Writing" for t u
    using rw_invD(4) [OF inv, of u t] that by simp
  moreover have "\<exists>u < n. pc s u \<in> {Writing, Awake_Drain, Asleep_Drain}"
    if door: "pc s t \<in> {Asleep_Enter, Asleep_Read}" for t
  proof -
    obtain u where u: "entered (pc s u)" using rw_invD(3) [OF inv] rw_invD(7) [OF inv door] by blast
    then have "u < n" using rw_invD(1) [OF inv, of u] by (cases "u < n") auto
    with u show ?thesis by (auto simp: entered_def)
  qed
  moreover have "\<exists>u < n. pc s u = Reading" if "pc s t = Asleep_Drain" for t
  proof -
    have "card (readers n s) \<noteq> 0"
      using rw_invD(2,6) [OF inv] that by (metis unat_eq_0)
    then obtain u where "u \<in> readers n s" by fastforce
    then show ?thesis by (auto simp: readers_def)
  qed
  ultimately show ?thesis using rw_invD(2) [OF inv] by (auto simp: readers_def)
qed

theorem rw_mutex_safe_witness:
  "\<exists>s. rw_reach 2 s \<and> pc s 0 = Reading \<and> pc s 1 = Asleep_Drain \<and>
     (\<forall>t. pc s t = Asleep_Drain \<longrightarrow> (\<exists>u < 2. pc s u = Reading))"
proof -
  obtain s where s: "rw_reach 2 s" "pc s 0 = Reading" "pc s 1 = Asleep_Drain"
    by (rule waiting_writer)
  then show ?thesis using rw_mutex_safe [of 2 s] by auto
qed

text \<open>
  C37. Nobody waits for ever. From every reachable state of fewer than 2^32 - 1 threads, when the threads
  that hold the latch release it and those that were woken go on, in any order, then this comes to an
  end, and only when every request has been served: no thread is left asleep or inside.
\<close>

theorem rw_mutex_served:
  assumes "rw_reach n s" and "n < 4294967295"
  shows "\<not> (\<exists>f. f 0 = s \<and> (\<forall>i. rw_serve n (f i) (f (Suc i)))) \<and>
    (\<forall>s'. (rw_serve n)\<^sup>*\<^sup>* s s' \<longrightarrow> \<not> (\<exists>s''. rw_serve n s' s'') \<longrightarrow> (\<forall>t. pc s' t = Outside))"
proof (intro conjI allI impI)
  show "\<not> (\<exists>f. f 0 = s \<and> (\<forall>i. rw_serve n (f i) (f (Suc i))))" by (rule rw_serve_ends)
  fix s' t assume run: "(rw_serve n)\<^sup>*\<^sup>* s s'" and stop: "\<not> (\<exists>s''. rw_serve n s' s'')"
  have "rw_inv n s'" using rw_reach_inv [OF rw_serve_reach [OF run assms(1)] assms(2)] .
  then show "pc s' t = Outside" using rw_serve_progress stop by blast
qed

theorem rw_mutex_served_witness:
  "\<exists>s. rw_reach 2 s \<and> pc s 0 = Reading \<and> pc s 1 = Asleep_Drain \<and> \<not> (\<exists>f. f 0 = s \<and> (\<forall>i. rw_serve 2 (f i) (f (Suc i)))) \<and>
     (\<exists>s'. rw_serve 2 s s')"
proof -
  obtain s where s: "rw_reach 2 s" "pc s 0 = Reading" "pc s 1 = Asleep_Drain"
    by (rule waiting_writer)
  have "(2 :: nat) < 4294967295" by simp
  note served = rw_mutex_served [OF s(1) this]
  have "pc s 0 \<noteq> Outside" using s(2) by simp
  then have "\<exists>s'. rw_serve 2 s s'" using served by blast
  with s served show ?thesis by blast
qed

end
