(* ===== verification/Catalog.thy ===== *)
theory Catalog
  imports Type_Store Transactions
begin

text \<open>
  Columns and schemas (\<^verbatim>\<open>catalog/column.cpp\<close>, \<^verbatim>\<open>catalog/schema.cpp\<close> with their headers): the layout of
  a tuple. Lengths and offsets are \<^verbatim>\<open>int32_t\<close>; their signed overflow is a fault of the model.
\<close>

section \<open>Columns\<close>

record Column =
  column_type :: TypeId
  fixed_length :: int
  variable_length :: int
  column_name :: string
  is_inlined :: bool
  column_offset :: int

definition Column_default :: Column where
  "Column_default = \<lparr>column_type = INVALID, fixed_length = - 1, variable_length = - 1,
     column_name = '''', is_inlined = False, column_offset = - 1\<rparr>"

definition Column_SetInlined :: "Column \<Rightarrow> Column" where
  "Column_SetInlined c =
     (case column_type c of VARCHAR \<Rightarrow> c\<lparr>is_inlined := False\<rparr> | _ \<Rightarrow> c\<lparr>is_inlined := True\<rparr>)"

definition Column_SetLength :: "Column \<Rightarrow> int \<Rightarrow> Column" where
  "Column_SetLength c n =
     (if is_inlined c then c\<lparr>fixed_length := n, variable_length := 0\<rparr>
      else c\<lparr>fixed_length := 4, variable_length := n\<rparr>)"

definition Column_make :: "TypeId \<Rightarrow> int \<Rightarrow> string \<Rightarrow> Column res" where
  "Column_make ty n name =
     (let c = Column_SetInlined (Column_default\<lparr>column_type := ty, column_name := name\<rparr>) in
      if is_inlined c \<and> n \<le> 0
      then fail (Thrown EXCEPTION_TYPE_CONSTRAINT ''inline type must pass in column_length'')
      else ok (Column_SetLength c n))"

definition Column_GetLength :: "Column \<Rightarrow> int" where
  "Column_GetLength c = (if is_inlined c then fixed_length c else variable_length c)"

definition Column_eq :: "Column \<Rightarrow> Column \<Rightarrow> bool" where
  "Column_eq c other \<longleftrightarrow>
     (if column_type other \<noteq> column_type c \<or> is_inlined other \<noteq> is_inlined c then False else True)"

definition Column_ToString :: "Column \<Rightarrow> string" where
  "Column_ToString c =
     ''Column['' @ column_name c @ '', '' @ TypeIdToString (column_type c) @ '', '' @
     ''Offset:'' @ to_string (column_offset c) @ '', '' @
     (if is_inlined c then ''FixedLength:'' @ to_string (fixed_length c)
      else ''VarLength:'' @ to_string (variable_length c)) @ '']''"

section \<open>Schemas\<close>

record Schema =
  sch_length :: int
  sch_columns :: "Column list"
  tuple_is_inlined :: bool
  uninlined_columns :: "int list"

definition add32 :: "int \<Rightarrow> int \<Rightarrow> int res" where
  "add32 a b = (if in32 (a + b) then ok (a + b) else fail Undefined_Behaviour)"

text \<open>The loop of the constructor: the columns from \<^verbatim>\<open>index\<close> on are added at their offsets.\<close>

fun Schema_add :: "Column list \<Rightarrow> int \<Rightarrow> int \<Rightarrow> Schema \<Rightarrow> Schema res" where
  "Schema_add [] index off s = ok (s\<lparr>sch_length := off\<rparr>)"
| "Schema_add (c # cs) index off s =
     (let s1 = (if is_inlined c = False
                then s\<lparr>tuple_is_inlined := False, uninlined_columns := uninlined_columns s @ [index]\<rparr>
                else s) in
      bindE (add32 off (fixed_length c)) (\<lambda>off'.
      Schema_add cs (index + 1) off'
        (s1\<lparr>sch_columns := sch_columns s1 @ [c\<lparr>column_offset := off\<rparr>]\<rparr>)))"

definition Schema_make :: "Column list \<Rightarrow> Schema res" where
  "Schema_make cs =
     Schema_add cs 0 0
       \<lparr>sch_length = 0, sch_columns = [], tuple_is_inlined = True, uninlined_columns = []\<rparr>"

definition Schema_GetColumnCount :: "Schema \<Rightarrow> int" where
  "Schema_GetColumnCount s = int (length (sch_columns s))"

fun copy_columns :: "Schema \<Rightarrow> int list \<Rightarrow> Column list res" where
  "copy_columns s [] = ok []"
| "copy_columns s (i # ids) =
     bindE (assertE (i < Schema_GetColumnCount s)) (\<lambda>_.
     bindE (vec_at (sch_columns s) i) (\<lambda>c.
     bindE (copy_columns s ids) (\<lambda>cs. ok (c # cs))))"

definition CopySchema :: "Schema \<Rightarrow> int list \<Rightarrow> Schema res" where
  "CopySchema s ids = bindE (copy_columns s ids) Schema_make"

definition Schema_GetOffset :: "Schema \<Rightarrow> int \<Rightarrow> int res" where
  "Schema_GetOffset s i = bindE (vec_at (sch_columns s) i) (\<lambda>c. ok (column_offset c))"

definition Schema_GetType :: "Schema \<Rightarrow> int \<Rightarrow> TypeId res" where
  "Schema_GetType s i = bindE (vec_at (sch_columns s) i) (\<lambda>c. ok (column_type c))"

definition Schema_IsInlined :: "Schema \<Rightarrow> int \<Rightarrow> bool res" where
  "Schema_IsInlined s i = bindE (vec_at (sch_columns s) i) (\<lambda>c. ok (is_inlined c))"

definition Schema_GetLength :: "Schema \<Rightarrow> int \<Rightarrow> int res" where
  "Schema_GetLength s i = bindE (vec_at (sch_columns s) i) (\<lambda>c. ok (fixed_length c))"

definition Schema_GetVariableLength :: "Schema \<Rightarrow> int \<Rightarrow> int res" where
  "Schema_GetVariableLength s i = bindE (vec_at (sch_columns s) i) (\<lambda>c. ok (variable_length c))"

definition Schema_GetAppropriateLength :: "Schema \<Rightarrow> int \<Rightarrow> int res" where
  "Schema_GetAppropriateLength s i =
     bindE (Schema_IsInlined s i) (\<lambda>inl.
     if inl then Schema_GetLength s i else Schema_GetVariableLength s i)"

fun find_column :: "Column list \<Rightarrow> int \<Rightarrow> string \<Rightarrow> int" where
  "find_column [] i name = - 1"
| "find_column (c # cs) i name = (if column_name c = name then i else find_column cs (i + 1) name)"

definition Schema_GetColumnID :: "Schema \<Rightarrow> string \<Rightarrow> int" where
  "Schema_GetColumnID s name = find_column (sch_columns s) 0 name"

definition Schema_eq :: "Schema \<Rightarrow> Schema \<Rightarrow> bool" where
  "Schema_eq s other \<longleftrightarrow>
     (if Schema_GetColumnCount other \<noteq> Schema_GetColumnCount s \<or>
         tuple_is_inlined other \<noteq> tuple_is_inlined s then False
      else list_all2 Column_eq (sch_columns other) (sch_columns s))"

fun join_columns :: "Column list \<Rightarrow> bool \<Rightarrow> string" where
  "join_columns [] first = ''''"
| "join_columns (c # cs) first =
     (if first then '''' else '', '') @ Column_ToString c @ join_columns cs False"

definition Schema_ToString :: "Schema \<Rightarrow> string" where
  "Schema_ToString s =
     ''Schema['' @ ''NumColumns:'' @ to_string (Schema_GetColumnCount s) @ '', '' @
     ''IsInlined:'' @ to_string (if tuple_is_inlined s then 1 else 0) @ '', '' @
     ''Length:'' @ to_string (sch_length s) @ '']'' @ '' :: ('' @
     join_columns (sch_columns s) True @ '')''"

section \<open>Layout\<close>

text \<open>The offset of the \<^verbatim>\<open>i\<close>-th column is the total fixed length of those before it.\<close>

definition fixed_off :: "Column list \<Rightarrow> nat \<Rightarrow> int" where
  "fixed_off cs i = sum_list (map fixed_length (take i cs))"

lemma fixed_off_0 [simp]: "fixed_off cs 0 = 0"
  by (simp add: fixed_off_def)

lemma fixed_off_Suc: "i < length cs \<Longrightarrow> fixed_off cs (Suc i) = fixed_off cs i + fixed_length (cs ! i)"
  by (simp add: fixed_off_def take_Suc_conv_app_nth)

lemma fixed_off_mono:
  assumes "\<forall>c \<in> set cs. 0 \<le> fixed_length c" and "i \<le> j" and "j \<le> length cs"
  shows "fixed_off cs i \<le> fixed_off cs j"
  using assms(2,3)
proof (induction j rule: dec_induct)
  case (step j)
  then have "fixed_off cs i \<le> fixed_off cs j" and j: "j < length cs" by auto
  moreover have "0 \<le> fixed_length (cs ! j)" using assms(1) j by simp
  ultimately show ?case by (simp add: fixed_off_Suc)
qed simp

lemma Schema_add_correct:
  assumes "\<forall>c \<in> set cs. 0 \<le> fixed_length c" and "0 \<le> off" and "off + fixed_off cs (length cs) < 2147483648"
  shows "Schema_add cs index off s = ok
    \<lparr>sch_length = off + fixed_off cs (length cs),
     sch_columns = sch_columns s @ map (\<lambda>i. (cs ! i)\<lparr>column_offset := off + fixed_off cs i\<rparr>) [0..<length cs],
     tuple_is_inlined = (tuple_is_inlined s \<and> list_all is_inlined cs),
     uninlined_columns = uninlined_columns s @
       map (\<lambda>i. index + int i) (filter (\<lambda>i. \<not> is_inlined (cs ! i)) [0..<length cs])\<rparr>"
  using assms
proof (induction cs arbitrary: index off s)
  case Nil
  then show ?case by (cases s) simp
next
  case (Cons c cs)
  have off: "fixed_off (c # cs) (Suc i) = fixed_length c + fixed_off cs i" for i
    by (simp add: fixed_off_def)
  have "0 \<le> fixed_off cs (length cs)"
    using fixed_off_mono [of cs 0 "length cs"] Cons.prems(1) by simp
  then have "add32 off (fixed_length c) = ok (off + fixed_length c)"
    using Cons.prems off [of "length cs"] by (simp add: add32_def)
  moreover have sh: "[0..<length (c # cs)] = 0 # map Suc [0..<length cs]"
    by (simp add: map_Suc_upt upt_conv_Cons del: upt_Suc)
  ultimately show ?case
    using Cons.IH [of "off + fixed_length c"] Cons.prems off [of "length cs"]
    by (simp add: Let_def sh off filter_map comp_def add.assoc add.commute [of 1] del: upt_Suc)
qed

end
