(* ===== verification/Tuples.thy ===== *)
theory Tuples
  imports Catalog
begin

text \<open>
  Tuples (\<^verbatim>\<open>table/tuple.cpp\<close>): the constructor that serialises a row of values by a schema, the
  access to a column, the stored form of a tuple. The fresh array of the constructor has arbitrary
  content, the argument \<^verbatim>\<open>mem\<close>. The index keys of \<^verbatim>\<open>index/generic_key.h\<close>, which read a column in the
  same way, are at the end.
\<close>

section \<open>Building a tuple\<close>

text \<open>
  Step 1: the size. \<^verbatim>\<open>GetLength() + sizeof(uint32_t)\<close> is a 64-bit sum and the result is cut to
  \<^verbatim>\<open>int32_t\<close>.
\<close>

fun tuple_size_of :: "'d Value list \<Rightarrow> int list \<Rightarrow> int \<Rightarrow> int res" where
  "tuple_size_of vs [] n = ok n"
| "tuple_size_of vs (i # is) n =
     bindE (vec_at vs i) (\<lambda>v.
     bindE (Value_GetLength v) (\<lambda>len. tuple_size_of vs is (int32 (n + uint len + 4))))"

text \<open>Step 2: the columns from \<^verbatim>\<open>i\<close> on are written; \<^verbatim>\<open>offset\<close> is where the next string goes.\<close>

fun tuple_fill :: "'d cpp \<Rightarrow> Schema \<Rightarrow> 'd Value list \<Rightarrow> int \<Rightarrow> int \<Rightarrow> byte list \<Rightarrow> byte list res" where
  "tuple_fill F s [] i offset d = ok d"
| "tuple_fill F s (v # vs) i offset d =
     bindE (Schema_IsInlined s i) (\<lambda>inl.
     bindE (Schema_GetOffset s i) (\<lambda>off.
     if \<not> inl then
       bindE (wr_bytes d off (le_enc 4 offset)) (\<lambda>d1.
       bindE (Value_SerializeTo F v d1 offset) (\<lambda>d2.
       bindE (Value_GetLength v) (\<lambda>len.
       tuple_fill F s vs (i + 1) (int32 (offset + uint len + 4)) d2)))
     else
       bindE (Value_SerializeTo F v d off) (\<lambda>d1. tuple_fill F s vs (i + 1) offset d1)))"

definition Tuple_make :: "'d cpp \<Rightarrow> (nat \<Rightarrow> byte) \<Rightarrow> 'd Value list \<Rightarrow> Schema \<Rightarrow> Tuple res" where
  "Tuple_make F mem vs s =
     bindE (assertE (int (length vs) = Schema_GetColumnCount s)) (\<lambda>_.
     bindE (tuple_size_of vs (uninlined_columns s) (sch_length s)) (\<lambda>n.
     if n < 0 then fail (Std_Exception ''std::bad_array_new_length'')
     else
       bindE (tuple_fill F s vs 0 (sch_length s) (map mem [0..<nat n])) (\<lambda>d.
       ok \<lparr>allocated = True, tup_rid = rid_invalid, tup_size = n, tup_data = d\<rparr>)))"

section \<open>Reading a tuple\<close>

text \<open>
  The position of a column in the data. The pointer \<^verbatim>\<open>data_\<close> is null in a tuple that owns no block and
  refers to none; a block of length zero is not null.
\<close>

definition Tuple_has_data :: "Tuple \<Rightarrow> bool" where
  "Tuple_has_data t \<longleftrightarrow> allocated t \<or> tup_data t \<noteq> []"

definition Tuple_GetDataPtr :: "Tuple \<Rightarrow> Schema \<Rightarrow> int \<Rightarrow> int res" where
  "Tuple_GetDataPtr t s i =
     bindE (assertE (Tuple_has_data t)) (\<lambda>_.
     bindE (Schema_IsInlined s i) (\<lambda>inl.
     bindE (Schema_GetOffset s i) (\<lambda>off.
     if inl then ok off
     else bindE (rd_bytes (tup_data t) off 4) (\<lambda>bs. ok (narrow Int32 (le_dec bs))))))"

definition Tuple_GetValue :: "'d cpp \<Rightarrow> Tuple \<Rightarrow> Schema \<Rightarrow> int \<Rightarrow> 'd Value res" where
  "Tuple_GetValue F t s i =
     bindE (assertE (Tuple_has_data t)) (\<lambda>_.
     bindE (Schema_GetType s i) (\<lambda>ty.
     bindE (Tuple_GetDataPtr t s i) (\<lambda>p. Value_DeserializeFrom F (tup_data t) p ty)))"

definition Tuple_IsNull :: "'d cpp \<Rightarrow> Tuple \<Rightarrow> Schema \<Rightarrow> int \<Rightarrow> bool res" where
  "Tuple_IsNull F t s i = bindE (Tuple_GetValue F t s i) (\<lambda>v. ok (IsNull v))"

fun tuple_print :: "'d cpp \<Rightarrow> Tuple \<Rightarrow> Schema \<Rightarrow> int list \<Rightarrow> bool \<Rightarrow> string res" where
  "tuple_print F t s [] first = ok ''''"
| "tuple_print F t s (i # is) first =
     bindE (Tuple_IsNull F t s i) (\<lambda>nul.
     bindE (if nul then ok ''<NULL>''
            else bindE (Tuple_GetValue F t s i) (\<lambda>v. Value_ToString F v)) (\<lambda>txt.
     bindE (tuple_print F t s is False) (\<lambda>rest.
     ok ((if first then '''' else '', '') @ txt @ rest))))"

definition Tuple_ToString :: "'d cpp \<Rightarrow> Tuple \<Rightarrow> Schema \<Rightarrow> string res" where
  "Tuple_ToString F t s =
     bindE (tuple_print F t s (map int [0..<length (sch_columns s)]) True) (\<lambda>txt.
     ok (''('' @ txt @ '')'' @ '' Tuple size is '' @ to_string (tup_size t)))"

section \<open>The stored form\<close>

definition Tuple_SerializeTo :: "Tuple \<Rightarrow> byte list \<Rightarrow> int \<Rightarrow> byte list res" where
  "Tuple_SerializeTo t d off =
     bindE (wr_bytes d off (le_enc 4 (tup_size t))) (\<lambda>d1.
     bindE (rd_bytes (tup_data t) 0 (tup_size t)) (\<lambda>bs. wr_bytes d1 (off + 4) bs))"

definition Tuple_DeserializeFrom :: "Tuple \<Rightarrow> byte list \<Rightarrow> int \<Rightarrow> Tuple res" where
  "Tuple_DeserializeFrom t d off =
     bindE (rd_bytes d off 4) (\<lambda>h.
     let n = narrow Int32 (le_dec h) in
     if n < 0 then fail (Std_Exception ''std::bad_array_new_length'')
     else bindE (rd_bytes d (off + 4) n) (\<lambda>bs.
       ok (t\<lparr>tup_size := n, tup_data := bs, allocated := True\<rparr>)))"

text \<open>The copy constructor and the assignment: a deep copy of allocated data.\<close>

definition Tuple_copy :: "Tuple \<Rightarrow> Tuple res" where
  "Tuple_copy other =
     (if allocated other
      then bindE (rd_bytes (tup_data other) 0 (tup_size other)) (\<lambda>bs. ok (other\<lparr>tup_data := bs\<rparr>))
      else ok other)"

section \<open>Index keys\<close>

text \<open>\<^verbatim>\<open>GenericKey<KeySize>\<close> is its array of \<^verbatim>\<open>KeySize\<close> bytes.\<close>

definition SetFromKey :: "nat \<Rightarrow> Tuple \<Rightarrow> byte list res" where
  "SetFromKey KeySize t =
     bindE (rd_bytes (tup_data t) 0 (tup_size t)) (\<lambda>bs. wr_bytes (replicate KeySize 0) 0 bs)"

definition SetFromInteger :: "nat \<Rightarrow> int \<Rightarrow> byte list res" where
  "SetFromInteger KeySize key = wr_bytes (replicate KeySize 0) 0 (le_enc 8 key)"

definition GenericKey_ToValue :: "'d cpp \<Rightarrow> byte list \<Rightarrow> Schema \<Rightarrow> int \<Rightarrow> 'd Value res" where
  "GenericKey_ToValue F k s i =
     bindE (Schema_GetType s i) (\<lambda>ty.
     bindE (Schema_IsInlined s i) (\<lambda>inl.
     bindE (Schema_GetOffset s i) (\<lambda>off.
     if inl then Value_DeserializeFrom F k off ty
     else bindE (rd_bytes k off 4) (\<lambda>bs. Value_DeserializeFrom F k (narrow Int32 (le_dec bs)) ty))))"

definition GenericKey_ToString :: "byte list \<Rightarrow> int res" where
  "GenericKey_ToString k = bindE (rd_bytes k 0 8) (\<lambda>bs. ok (narrow Int64 (le_dec bs)))"

fun compare_columns :: "'d cpp \<Rightarrow> Schema \<Rightarrow> byte list \<Rightarrow> byte list \<Rightarrow> int list \<Rightarrow> int res" where
  "compare_columns F s lhs rhs [] = ok 0"
| "compare_columns F s lhs rhs (i # is) =
     bindE (GenericKey_ToValue F lhs s i) (\<lambda>l.
     bindE (GenericKey_ToValue F rhs s i) (\<lambda>r.
     bindE (Value_CompareLessThan F l r) (\<lambda>lt.
     if lt = CMP_TRUE then ok (- 1)
     else
       bindE (Value_CompareGreaterThan F l r) (\<lambda>gt.
       if gt = CMP_TRUE then ok 1 else compare_columns F s lhs rhs is))))"

definition GenericComparator :: "'d cpp \<Rightarrow> Schema \<Rightarrow> byte list \<Rightarrow> byte list \<Rightarrow> int res" where
  "GenericComparator F s lhs rhs = compare_columns F s lhs rhs (map int [0..<length (sch_columns s)])"


section \<open>The layout of a row\<close>

text \<open>
  A column as the constructor of \<^verbatim>\<open>Column\<close> makes it for a type with objects in \<^verbatim>\<open>kTypes\<close>, wide enough
  for its type, and a row of well-formed values that matches the columns and has no NULL string.
\<close>

definition column_ok :: "Column \<Rightarrow> bool" where
  "column_ok c \<longleftrightarrow>
     (is_inlined c \<longleftrightarrow> column_type c \<noteq> VARCHAR) \<and>
     (if is_inlined c
      then (\<exists>n. GetTypeSize (column_type c) = ok n \<and> int n \<le> fixed_length c)
      else fixed_length c = 4)"

definition value_fits :: "'d cpp \<Rightarrow> 'd Value \<Rightarrow> Column \<Rightarrow> bool" where
  "value_fits F v c \<longleftrightarrow> Value_wf F v \<and> v_type v = column_type c \<and> (v_type v = VARCHAR \<longrightarrow> \<not> IsNull v)"

definition row_ok :: "'d cpp \<Rightarrow> 'd Value list \<Rightarrow> Column list \<Rightarrow> bool" where
  "row_ok F vs cs \<longleftrightarrow> double_image F \<and> (\<forall>c \<in> set cs. column_ok c) \<and> list_all2 (value_fits F) vs cs"

definition fo :: "Column list \<Rightarrow> nat \<Rightarrow> nat" where
  "fo cs i = nat (fixed_off cs i)"

definition vlen :: "'d cpp \<Rightarrow> 'd Value list \<Rightarrow> Column list \<Rightarrow> nat \<Rightarrow> nat" where
  "vlen F vs cs i = (if is_inlined (cs ! i) then 0 else length (value_image F (vs ! i)))"

definition vo :: "'d cpp \<Rightarrow> 'd Value list \<Rightarrow> Column list \<Rightarrow> nat \<Rightarrow> nat" where
  "vo F vs cs i = fo cs (length cs) + sum_list (map (vlen F vs cs) [0..<i])"

lemma row_length: "row_ok F vs cs \<Longrightarrow> length vs = length cs"
  by (auto simp: row_ok_def dest: list_all2_lengthD)

lemma row_at:
  assumes "row_ok F vs cs" and "i < length cs"
  shows "column_ok (cs ! i)" and "value_fits F (vs ! i) (cs ! i)" and "double_image F"
  using assms by (auto simp: row_ok_def list_all2_conv_all_nth)

lemma column_fixed_nonneg: "column_ok c \<Longrightarrow> 0 \<le> fixed_length c"
  by (auto simp: column_ok_def split: if_splits)

lemma int_fo:
  assumes "row_ok F vs cs" and "i \<le> length cs"
  shows "int (fo cs i) = fixed_off cs i"
  using fixed_off_mono [of cs 0 i] assms column_fixed_nonneg by (auto simp: fo_def row_ok_def)

lemma fo_Suc:
  assumes "row_ok F vs cs" and "i < length cs"
  shows "fo cs (Suc i) = fo cs i + nat (fixed_length (cs ! i))"
  using int_fo [OF assms(1), of i] int_fo [OF assms(1), of "Suc i"] assms(2)
    column_fixed_nonneg [OF row_at(1) [OF assms]] fixed_off_Suc [OF assms(2)]
  by linarith

lemma fo_mono:
  assumes "row_ok F vs cs" and "i \<le> j" and "j \<le> length cs"
  shows "fo cs i \<le> fo cs j"
  using fixed_off_mono [of cs i j] int_fo [OF assms(1), of i] int_fo [OF assms(1), of j] assms
    column_fixed_nonneg by (auto simp: row_ok_def)

lemma vo_Suc: "vo F vs cs (Suc i) = vo F vs cs i + vlen F vs cs i"
  by (simp add: vo_def)

lemma vo_mono: "i \<le> j \<Longrightarrow> vo F vs cs i \<le> vo F vs cs j"
  by (induction j rule: dec_induct) (simp_all add: vo_Suc)

lemma vo_0: "vo F vs cs 0 = fo cs (length cs)"
  by (simp add: vo_def)

text \<open>The image of a value of an inlined type has the size of the type.\<close>

lemma image_length:
  assumes "Value_wf F v" and "double_image F" and "v_type v \<noteq> VARCHAR"
  shows "GetTypeSize (v_type v) = ok (length (value_image F v))"
  using Value_wf_cases [OF assms(1)] assms(2,3)
  by (cases "v_type v") (auto simp: value_image_def stored_def Value_of_type_def double_image_def)

lemma image_fits:
  assumes "row_ok F vs cs" and "i < length cs" and "is_inlined (cs ! i)"
  shows "int (length (value_image F (vs ! i))) \<le> fixed_length (cs ! i)"
  using row_at [OF assms(1,2)] assms(3) image_length [of F "vs ! i"]
  by (auto simp: column_ok_def value_fits_def)

lemma varchar_image:
  assumes "Value_wf F v" and "v_type v = VARCHAR" and "\<not> IsNull v"
  shows "\<exists>n. Value_GetLength v = ok n \<and> length (value_image F v) = nat (uint n) + 4"
  using Value_wf_cases(7) [OF assms(1,2)] assms(3)
  by (auto simp: IsNull_def Value_of_type_def value_image_def Value_GetLength_def GetInstance_def
      VarlenType_GetLength_def unsigned_of_nat take_bit_nat_eq_self)

lemma row_varchar:
  assumes "row_ok F vs cs" and "i < length cs" and "\<not> is_inlined (cs ! i)"
  shows "\<exists>n. Value_GetLength (vs ! i) = ok n \<and> uint n + 4 = int (vlen F vs cs i)"
  using row_at [OF assms(1,2)] assms(3) varchar_image [of F "vs ! i"]
  by (auto simp: column_ok_def value_fits_def vlen_def)

section \<open>Every column is stored where it is read\<close>

definition cell_stored :: "'d cpp \<Rightarrow> 'd Value list \<Rightarrow> Column list \<Rightarrow> byte list \<Rightarrow> nat \<Rightarrow> bool" where
  "cell_stored F vs cs d j \<longleftrightarrow>
     (let img = value_image F (vs ! j) in
      if is_inlined (cs ! j) then bget d (fo cs j) (length img) = img
      else bget d (fo cs j) 4 = le_enc 4 (int (vo F vs cs j)) \<and> bget d (vo F vs cs j) (length img) = img)"

definition row_filled :: "'d cpp \<Rightarrow> 'd Value list \<Rightarrow> Column list \<Rightarrow> nat \<Rightarrow> byte list \<Rightarrow> bool" where
  "row_filled F vs cs i d \<longleftrightarrow>
     length d = vo F vs cs (length cs) \<and> (\<forall>j < i. cell_stored F vs cs d j)"

text \<open>The two regions of a column, and that they lie below those of the later columns.\<close>

lemma cell_bounds:
  assumes row: "row_ok F vs cs" and j: "j < length cs"
  shows "is_inlined (cs ! j) \<Longrightarrow> fo cs j + length (value_image F (vs ! j)) \<le> fo cs (Suc j)"
    and "\<not> is_inlined (cs ! j) \<Longrightarrow> fo cs j + 4 \<le> fo cs (Suc j)"
    and "\<not> is_inlined (cs ! j) \<Longrightarrow> vo F vs cs j + length (value_image F (vs ! j)) = vo F vs cs (Suc j)"
    and "fo cs (Suc j) \<le> fo cs (length cs)"
    and "fo cs (length cs) \<le> vo F vs cs j"
    and "vo F vs cs (Suc j) \<le> vo F vs cs (length cs)"
proof -
  show "is_inlined (cs ! j) \<Longrightarrow> fo cs j + length (value_image F (vs ! j)) \<le> fo cs (Suc j)"
    using image_fits [OF row j] by (simp add: fo_Suc [OF row j])
  show "\<not> is_inlined (cs ! j) \<Longrightarrow> fo cs j + 4 \<le> fo cs (Suc j)"
    using row_at(1) [OF row j] by (simp add: fo_Suc [OF row j] column_ok_def)
  show "\<not> is_inlined (cs ! j) \<Longrightarrow> vo F vs cs j + length (value_image F (vs ! j)) = vo F vs cs (Suc j)"
    by (simp add: vo_Suc vlen_def)
  show "fo cs (Suc j) \<le> fo cs (length cs)" using fo_mono [OF row, of "Suc j" "length cs"] j by simp
  show "fo cs (length cs) \<le> vo F vs cs j" using vo_mono [of 0 j F vs cs] by (simp add: vo_0)
  show "vo F vs cs (Suc j) \<le> vo F vs cs (length cs)" using vo_mono [of "Suc j" "length cs"] j by simp
qed

lemma cell_stored_fixed:
  assumes row: "row_ok F vs cs" and j: "j < i" "i < length cs" and d: "length d = vo F vs cs (length cs)"
    and w: "fo cs i + length bs \<le> fo cs (Suc i)" and st: "cell_stored F vs cs d j"
  shows "cell_stored F vs cs (bput d (fo cs i) bs) j"
proof -
  have jl: "j < length cs" using j by simp
  have "fo cs (Suc j) \<le> fo cs i" using fo_mono [OF row, of "Suc j" i] j by simp
  moreover have "vo F vs cs j \<le> vo F vs cs (length cs)" using jl by (intro vo_mono) simp
  moreover note cell_bounds [OF row jl] cell_bounds(4,5) [OF row j(2)]
  ultimately show ?thesis
    using st w d unfolding cell_stored_def
    by (auto simp: Let_def bget_bput_other split: if_splits)
qed

lemma cell_stored_var:
  assumes row: "row_ok F vs cs" and j: "j \<le> i" "i < length cs" and d: "length d = vo F vs cs (length cs)"
    and w: "vo F vs cs i + length bs \<le> vo F vs cs (length cs)" and st: "j < i \<Longrightarrow> cell_stored F vs cs d j"
  shows "j < i \<Longrightarrow> cell_stored F vs cs (bput d (vo F vs cs i) bs) j"
proof -
  assume ji: "j < i"
  have jl: "j < length cs" using j by simp
  have "vo F vs cs (Suc j) \<le> vo F vs cs i" using vo_mono [of "Suc j" i] ji by simp
  moreover note cell_bounds [OF row jl] cell_bounds(5) [OF row j(2)]
  ultimately show ?thesis
    using st [OF ji] w d unfolding cell_stored_def
    by (auto simp: Let_def bget_bput_other split: if_splits)
qed

text \<open>What the schema built from the columns answers.\<close>

definition schema_of :: "Column list \<Rightarrow> Schema \<Rightarrow> bool" where
  "schema_of cs s \<longleftrightarrow>
     sch_length s = fixed_off cs (length cs) \<and>
     sch_columns s = map (\<lambda>i. (cs ! i)\<lparr>column_offset := fixed_off cs i\<rparr>) [0..<length cs] \<and>
     uninlined_columns s = map int (filter (\<lambda>i. \<not> is_inlined (cs ! i)) [0..<length cs])"

lemma Schema_make_of:
  assumes "\<forall>c \<in> set cs. 0 \<le> fixed_length c" and "fixed_off cs (length cs) < 2147483648"
  shows "\<exists>s. Schema_make cs = ok s \<and> schema_of cs s"
  using Schema_add_correct [of cs 0 0] assms by (simp add: Schema_make_def schema_of_def)

lemma schema_at:
  assumes "schema_of cs s" and "i < length cs"
  shows "Schema_IsInlined s (int i) = ok (is_inlined (cs ! i))"
    and "Schema_GetOffset s (int i) = ok (fixed_off cs i)"
    and "Schema_GetType s (int i) = ok (column_type (cs ! i))"
  using assms by (simp_all add: schema_of_def Schema_IsInlined_def Schema_GetOffset_def
      Schema_GetType_def vec_at_def)

lemma tuple_size_of_ok:
  assumes row: "row_ok F vs cs" and "\<forall>i \<in> set is. i < length cs \<and> \<not> is_inlined (cs ! i)"
    and "0 \<le> n" and "n + int (sum_list (map (vlen F vs cs) is)) < 2147483648"
  shows "tuple_size_of vs (map int is) n = ok (n + int (sum_list (map (vlen F vs cs) is)))"
  using assms(2-4)
proof (induction "is" arbitrary: n)
  case (Cons i "is")
  obtain w where w: "Value_GetLength (vs ! i) = ok w" "uint w + 4 = int (vlen F vs cs i)"
    using row_varchar [OF row, of i] Cons.prems(1) by auto
  have "int32 (n + uint w + 4) = n + int (vlen F vs cs i)"
    using w(2) Cons.prems(2,3) by (simp add: add.assoc)
  then show ?case
    using Cons.IH [of "n + int (vlen F vs cs i)"] Cons.prems w row_length [OF row]
    by (simp add: vec_at_def add.assoc)
qed simp

lemma sum_vlen_filter:
  "sum_list (map (vlen F vs cs) (filter (\<lambda>i. \<not> is_inlined (cs ! i)) xs)) = sum_list (map (vlen F vs cs) xs)"
  by (induction xs) (auto simp: vlen_def)

lemma fill_inlined:
  assumes row: "row_ok F vs cs" and i: "i < length cs" "is_inlined (cs ! i)"
    and fl: "row_filled F vs cs i d"
  shows "\<exists>d'. Value_SerializeTo F (vs ! i) d (int (fo cs i)) = ok d' \<and> row_filled F vs cs (Suc i) d'"
proof -
  define img where "img = value_image F (vs ! i)"
  have d: "length d = vo F vs cs (length cs)" and st: "\<And>j. j < i \<Longrightarrow> cell_stored F vs cs d j"
    using fl by (auto simp: row_filled_def)
  have w: "fo cs i + length img \<le> fo cs (Suc i)"
    using cell_bounds(1) [OF row i(1) i(2)] by (simp add: img_def)
  have room: "fo cs i + length img \<le> length d"
    using w cell_bounds(4,5,6) [OF row i(1)] vo_mono [of i "Suc i" F vs cs] d by linarith
  have "Value_SerializeTo F (vs ! i) d (int (fo cs i)) = ok (bput d (fo cs i) img)"
    using store_value [of F "vs ! i" "int (fo cs i)" d] row_at [OF row i(1)] room
    by (simp add: value_fits_def img_def)
  moreover have "row_filled F vs cs (Suc i) (bput d (fo cs i) img)"
    unfolding row_filled_def less_Suc_eq
    using cell_stored_fixed [OF row _ i(1) d w st] room i(2)
    by (auto simp: length_bput d cell_stored_def Let_def bget_bput_same simp flip: img_def)
  ultimately show ?thesis by blast
qed

lemma fill_varchar:
  assumes row: "row_ok F vs cs" and i: "i < length cs" "\<not> is_inlined (cs ! i)"
    and fl: "row_filled F vs cs i d"
  shows "\<exists>d1 d2. wr_bytes d (int (fo cs i)) (le_enc 4 (int (vo F vs cs i))) = ok d1 \<and>
    Value_SerializeTo F (vs ! i) d1 (int (vo F vs cs i)) = ok d2 \<and> row_filled F vs cs (Suc i) d2"
proof -
  define img where "img = value_image F (vs ! i)"
  define ptr where "ptr = le_enc 4 (int (vo F vs cs i))"
  define d1 where "d1 = bput d (fo cs i) ptr"
  have d: "length d = vo F vs cs (length cs)" and st: "\<And>j. j < i \<Longrightarrow> cell_stored F vs cs d j"
    using fl by (auto simp: row_filled_def)
  note cb = cell_bounds(2,3) [OF row i(1) i(2), folded img_def] cell_bounds(4,5,6) [OF row i(1)]
  have ptr: "length ptr = 4" by (simp add: ptr_def)
  have w: "fo cs i + length ptr \<le> fo cs (Suc i)" using cb ptr by simp
  have room: "fo cs i + length ptr \<le> vo F vs cs i" "vo F vs cs i + length img \<le> length d"
    using w cb d by linarith+
  have d1: "length d1 = vo F vs cs (length cs)" using room d by (simp add: d1_def length_bput)
  have st1: "cell_stored F vs cs d1 j" if "j < i" for j
    unfolding d1_def by (rule cell_stored_fixed [OF row that i(1) d w st [OF that]])
  have s1: "wr_bytes d (int (fo cs i)) ptr = ok d1" using room by (simp add: d1_def)
  have s2: "Value_SerializeTo F (vs ! i) d1 (int (vo F vs cs i)) = ok (bput d1 (vo F vs cs i) img)"
    using store_value [of F "vs ! i" "int (vo F vs cs i)" d1] row_at [OF row i(1)] room d d1
    by (simp add: value_fits_def img_def)
  have "cell_stored F vs cs (bput d1 (vo F vs cs i) img) j" if "j < i" for j
    using cell_stored_var [OF row _ i(1) d1 _ st1, of j img] that room d by simp
  moreover have "cell_stored F vs cs (bput d1 (vo F vs cs i) img) i"
    using room d d1 ptr i(2)
    by (simp add: cell_stored_def Let_def bget_bput_same bget_bput_other flip: img_def ptr_def)
      (simp add: d1_def bget_bput_same)
  ultimately have "row_filled F vs cs (Suc i) (bput d1 (vo F vs cs i) img)"
    unfolding row_filled_def less_Suc_eq using room d d1 by (auto simp: length_bput)
  then show ?thesis using s1 s2 by (auto simp: ptr_def)
qed

lemma tuple_fill_ok:
  assumes row: "row_ok F vs cs" and s: "schema_of cs s" and small: "vo F vs cs (length cs) < 2147483648"
  shows "i \<le> length cs \<Longrightarrow> row_filled F vs cs i d \<Longrightarrow>
    \<exists>d'. tuple_fill F s (drop i vs) (int i) (int (vo F vs cs i)) d = ok d' \<and>
      row_filled F vs cs (length cs) d'"
proof (induction "length cs - i" arbitrary: i d)
  case 0
  then show ?case using row_length [OF row] by simp
next
  case (Suc k)
  then have i: "i < length cs" by simp
  have dr: "drop i vs = vs ! i # drop (Suc i) vs"
    using i row_length [OF row] by (simp add: Cons_nth_drop_Suc)
  note sch = schema_at [OF s i] int_fo [OF row, of i, symmetric]
  have IH: "row_filled F vs cs (Suc i) e \<Longrightarrow>
      \<exists>d'. tuple_fill F s (drop (Suc i) vs) (int i + 1) (int (vo F vs cs (Suc i))) e = ok d' \<and>
        row_filled F vs cs (length cs) d'" for e
    using Suc.hyps(1) [of "Suc i" e] Suc.hyps(2) i by (simp add: add.commute)
  show ?case
  proof (cases "is_inlined (cs ! i)")
    case True
    obtain e where e: "Value_SerializeTo F (vs ! i) d (int (fo cs i)) = ok e" "row_filled F vs cs (Suc i) e"
      using fill_inlined [OF row i True Suc.prems(2)] by blast
    have "vo F vs cs (Suc i) = vo F vs cs i" using True by (simp add: vo_Suc vlen_def)
    then show ?thesis using IH [OF e(2)] e(1) True i sch by (simp add: dr)
  next
    case False
    obtain d1 d2 where e: "wr_bytes d (int (fo cs i)) (le_enc 4 (int (vo F vs cs i))) = ok d1"
      "Value_SerializeTo F (vs ! i) d1 (int (vo F vs cs i)) = ok d2" "row_filled F vs cs (Suc i) d2"
      using fill_varchar [OF row i False Suc.prems(2)] by blast
    obtain w where w: "Value_GetLength (vs ! i) = ok w" "uint w + 4 = int (vlen F vs cs i)"
      using row_varchar [OF row i False] by blast
    have "int32 (int (vo F vs cs i) + uint w + 4) = int (vo F vs cs (Suc i))"
      using w(2) cell_bounds(6) [OF row i] small by (simp add: vo_Suc add.assoc)
    then show ?thesis using IH [OF e(3)] e(1,2) w(1) False i sch by (simp add: dr)
  qed
qed

lemma bput_same: "bget d off n = bs \<Longrightarrow> off + n \<le> length d \<Longrightarrow> bput d off bs = d"
  by (auto simp: bget_def bput_def) (metis add.commute append_take_drop_id drop_drop)

lemma read_value:
  assumes "value_fits F v c" and "double_image F" and "bget d off (length (value_image F v)) = value_image F v"
    and "off + length (value_image F v) \<le> length d"
  shows "Value_DeserializeFrom F d (int off) (column_type c) = ok v"
  using store_value [of F v "int off" d] bput_same [OF assms(3,4)] assms by (simp add: value_fits_def)

lemma row_nonempty:
  assumes row: "row_ok F vs cs" and i: "i < length cs"
  shows "0 < vo F vs cs (length cs)"
proof (cases "is_inlined (cs ! i)")
  case True
  then have ty: "column_type (cs ! i) \<noteq> VARCHAR" using row_at(1) [OF row i] by (simp add: column_ok_def)
  have "GetTypeSize (column_type (cs ! i)) = ok (length (value_image F (vs ! i)))"
    using image_length [of F "vs ! i"] row_at [OF row i] ty by (simp add: value_fits_def)
  then have "0 < length (value_image F (vs ! i))" using ty by (cases "column_type (cs ! i)") auto
  then show ?thesis using cell_bounds(1) [OF row i True] cell_bounds(4-6) [OF row i] vo_mono [of i "Suc i" F vs cs]
    by linarith
next
  case False
  then show ?thesis using cell_bounds(2) [OF row i False] cell_bounds(4-6) [OF row i] vo_mono [of i "Suc i" F vs cs]
    by linarith
qed

lemma cell_read:
  assumes row: "row_ok F vs cs" and s: "schema_of cs s" and i: "i < length cs"
    and small: "vo F vs cs (length cs) < 2147483648"
    and fl: "row_filled F vs cs (length cs) d" and t: "tup_data t = d"
  shows "Tuple_GetValue F t s (int i) = ok (vs ! i) \<and> GenericKey_ToValue F d s (int i) = ok (vs ! i)"
proof -
  have d: "length d = vo F vs cs (length cs)" and st: "cell_stored F vs cs d i"
    using fl i by (auto simp: row_filled_def)
  then have ne: "d \<noteq> []" using row_nonempty [OF row i] by auto
  note sch = schema_at [OF s i] int_fo [OF row, of i, symmetric]
  note cb = cell_bounds [OF row i] vo_mono [of i "Suc i" F vs cs]
  show ?thesis
  proof (cases "is_inlined (cs ! i)")
    case True
    then have "Value_DeserializeFrom F d (int (fo cs i)) (column_type (cs ! i)) = ok (vs ! i)"
      using st cb d row_at [OF row i] by (intro read_value) (auto simp: cell_stored_def Let_def)
    then show ?thesis
      using True t ne i sch by (simp add: Tuple_GetValue_def Tuple_GetDataPtr_def Tuple_has_data_def GenericKey_ToValue_def)
  next
    case False
    have "Value_DeserializeFrom F d (int (vo F vs cs i)) (column_type (cs ! i)) = ok (vs ! i)"
      using st cb d row_at [OF row i] False by (intro read_value) (auto simp: cell_stored_def Let_def)
    moreover have "rd_bytes d (int (fo cs i)) 4 = ok (le_enc 4 (int (vo F vs cs i)))"
      using st cb d False by (simp add: rd_bytes_def cell_stored_def Let_def)
    moreover have "narrow Int32 (le_dec (le_enc 4 (int (vo F vs cs i)))) = int (vo F vs cs i)"
      using cb small by (intro narrow_le_dec_enc) (auto simp: in_ctype_def)
    ultimately show ?thesis
      using False t ne i sch by (simp add: Tuple_GetValue_def Tuple_GetDataPtr_def Tuple_has_data_def GenericKey_ToValue_def)
  qed
qed

section \<open>Properties\<close>

text \<open>
  C33. A row survives the layout of its tuple. For columns wide enough for their types and a row
  of well-formed values without NULL strings, of total size below 2^31, the schema is built, the
  tuple is built (whatever the fresh memory contained), its size is that of its data, and reading
  any column gives back the value of the row - inlined columns at their offset, strings through
  the stored relative offset; an index key made of the same bytes reads the same values.
\<close>

theorem tuple_roundtrip:
  assumes "row_ok F vs cs" and "vo F vs cs (length cs) < 2147483648"
  shows "\<exists>s t. Schema_make cs = ok s \<and> Tuple_make F mem vs s = ok t \<and>
    tup_size t = int (length (tup_data t)) \<and>
    (\<forall>i < length cs. Tuple_GetValue F t s (int i) = ok (vs ! i) \<and>
       GenericKey_ToValue F (tup_data t) s (int i) = ok (vs ! i))"
proof -
  note row = assms(1)
  define n where "n = vo F vs cs (length cs)"
  have nn: "\<forall>c \<in> set cs. 0 \<le> fixed_length c" using row column_fixed_nonneg by (auto simp: row_ok_def)
  have "int (fo cs (length cs)) < 2147483648"
    using vo_mono [of 0 "length cs" F vs cs] assms(2) by (simp add: vo_0)
  then obtain s where s: "Schema_make cs = ok s" "schema_of cs s"
    using Schema_make_of [OF nn] int_fo [OF row, of "length cs"] by auto
  have len: "sch_length s = int (fo cs (length cs))" "Schema_GetColumnCount s = int (length cs)"
    using s(2) int_fo [OF row, of "length cs"] by (simp_all add: schema_of_def Schema_GetColumnCount_def)
  have "tuple_size_of vs (uninlined_columns s) (sch_length s) = ok (int n)"
    using tuple_size_of_ok [OF row, of "filter (\<lambda>i. \<not> is_inlined (cs ! i)) [0..<length cs]" "sch_length s"]
      s(2) len assms(2)
    by (simp add: schema_of_def sum_vlen_filter n_def vo_def)
  moreover have "row_filled F vs cs 0 (map mem [0..<n])" by (simp add: row_filled_def n_def)
  then obtain d where d: "tuple_fill F s vs 0 (sch_length s) (map mem [0..<n]) = ok d"
    "row_filled F vs cs (length cs) d"
    using tuple_fill_ok [OF row s(2) assms(2), of 0] by (auto simp: vo_0 len)
  moreover define t where "t = \<lparr>allocated = True, tup_rid = rid_invalid, tup_size = int n, tup_data = d\<rparr>"
  ultimately have "Tuple_make F mem vs s = ok t"
    using len row_length [OF row] by (simp add: Tuple_make_def)
  moreover have td: "tup_data t = d" "tup_size t = int (length d)"
    using d(2) by (simp_all add: t_def row_filled_def n_def)
  ultimately show ?thesis
    using s(1) cell_read [OF row s(2) _ assms(2) d(2) td(1)] by (intro exI [of _ s] exI [of _ t]) simp
qed

definition sample_columns :: "Column list" where
  "sample_columns =
     [\<lparr>column_type = INTEGER, fixed_length = 4, variable_length = 0, column_name = ''a'',
       is_inlined = True, column_offset = - 1\<rparr>,
      \<lparr>column_type = VARCHAR, fixed_length = 4, variable_length = 20, column_name = ''b'',
       is_inlined = False, column_offset = - 1\<rparr>]"

theorem tuple_roundtrip_witness:
  "\<exists>s t. Schema_make sample_columns = ok s \<and>
     Tuple_make word_cpp (\<lambda>_. 7) [int_val Int32 5, str_val ''ab''] s = ok t \<and>
     Tuple_GetValue word_cpp t s 0 = ok (int_val Int32 5) \<and>
     Tuple_GetValue word_cpp t s 1 = ok (str_val ''ab'')"
proof -
  have "Value_wf word_cpp (int_val Int32 5)"
    by (simp add: Value_wf_def int_val_def stored_def Value_of_type_def narrow_in_ctype in_ctype_def)
  moreover have "Value_wf word_cpp (str_val ''ab'')" "\<not> IsNull (str_val ''ab'' :: 64 word Value)"
    by (simp_all add: Value_wf_def str_val_def bytes_of_string_def Value_of_type_def IsNull_def
        PELOTON_VALUE_NULL_def)
  ultimately have "row_ok word_cpp [int_val Int32 5, str_val ''ab''] sample_columns"
    by (simp add: row_ok_def double_image_word_cpp sample_columns_def column_ok_def value_fits_def)
  moreover have "vo word_cpp [int_val Int32 5, str_val ''ab''] sample_columns 2 < 2147483648"
    by (simp add: vo_def fo_def fixed_off_def vlen_def sample_columns_def value_image_def
        str_val_def bytes_of_string_def numeral_2_eq_2)
  ultimately show ?thesis
    using tuple_roundtrip [of word_cpp "[int_val Int32 5, str_val ''ab'']" sample_columns "\<lambda>_. 7"]
    by (auto simp: sample_columns_def numeral_2_eq_2 less_Suc_eq all_conj_distrib)
qed

text \<open>
  A NULL string breaks the layout: its length field is 2^32 - 1, so that the size of the tuple
  grows by 3 only, while the 4 bytes of the length are written - one byte past the array.
\<close>

theorem tuple_null_varchar_overflow:
  "bindE (Schema_make [sample_columns ! 1]) (\<lambda>s.
     Tuple_make F mem [(Value_of_type VARCHAR)\<lparr>v_val := VVarlen None\<rparr>] s) = fail Out_Of_Bounds"
  by (simp add: sample_columns_def Schema_make_def add32_def Tuple_make_def Schema_GetColumnCount_def
      vec_at_def Value_GetLength_def GetInstance_def VarlenType_GetLength_def Value_of_type_def
      PELOTON_VALUE_NULL_def int32_def Schema_IsInlined_def Schema_GetOffset_def wr_bytes_def
      Value_SerializeTo_def VarlenType_SerializeTo_def bput_def)

end
