(* ===== verification/Bpt_Page.thy ===== *)
theory Bpt_Page
  imports Transactions
begin

text \<open>
  The pages of the B+ tree (\<^verbatim>\<open>page/b_plus_tree_page.cpp\<close>, \<^verbatim>\<open>page/b_plus_tree_leaf_page.cpp\<close>,
  \<^verbatim>\<open>page/b_plus_tree_internal_page.cpp\<close>) as typed views of a page: the header fields are a record,
  which the leaf and the internal page extend by their arrays. The array \<^verbatim>\<open>array[0]\<close> at the end of
  the object is a list of as many pairs as fit the 512 bytes; an access outside it is a fault. The
  comparator is an argument that may fail, as the comparison of generic keys does. Operations that
  reach further pages through the buffer pool (a parent, the children of a node) are in the theory of
  the tree.
\<close>

section \<open>The common header\<close>

datatype IndexPageType = INVALID_INDEX_PAGE | LEAF_PAGE | INTERNAL_PAGE

datatype OperationType = OpRead | OpInsert | OpDelete

record BPlusTreePage =
  nd_type :: IndexPageType
  nd_lsn :: int
  nd_size :: int
  nd_max :: int
  nd_parent :: int
  nd_id :: int

definition IsLeafPage :: "'m BPlusTreePage_scheme \<Rightarrow> bool" where
  "IsLeafPage p \<longleftrightarrow> nd_type p = LEAF_PAGE"

definition IsRootPage :: "'m BPlusTreePage_scheme \<Rightarrow> bool" where
  "IsRootPage p \<longleftrightarrow> nd_parent p = INVALID_PAGE_ID"

definition SetPageType :: "'m BPlusTreePage_scheme \<Rightarrow> IndexPageType \<Rightarrow> 'm BPlusTreePage_scheme" where
  "SetPageType p ty = p\<lparr>nd_type := ty\<rparr>"

definition SetSize :: "'m BPlusTreePage_scheme \<Rightarrow> int \<Rightarrow> 'm BPlusTreePage_scheme" where
  "SetSize p n = p\<lparr>nd_size := n\<rparr>"

definition IncreaseSize :: "'m BPlusTreePage_scheme \<Rightarrow> int \<Rightarrow> 'm BPlusTreePage_scheme" where
  "IncreaseSize p amount = p\<lparr>nd_size := nd_size p + amount\<rparr>"

definition SetMaxSize :: "'m BPlusTreePage_scheme \<Rightarrow> int \<Rightarrow> 'm BPlusTreePage_scheme" where
  "SetMaxSize p n = p\<lparr>nd_max := n\<rparr>"

text \<open>The maximal size is never negative, so that C++ division is \<^verbatim>\<open>div\<close>.\<close>

definition GetMinSize :: "'m BPlusTreePage_scheme \<Rightarrow> int" where
  "GetMinSize p = (if IsRootPage p then (if IsLeafPage p then 1 else 2) else nd_max p div 2)"

definition SetParentPageId :: "'m BPlusTreePage_scheme \<Rightarrow> int \<Rightarrow> 'm BPlusTreePage_scheme" where
  "SetParentPageId p i = p\<lparr>nd_parent := i\<rparr>"

definition SetPageId :: "'m BPlusTreePage_scheme \<Rightarrow> int \<Rightarrow> 'm BPlusTreePage_scheme" where
  "SetPageId p i = p\<lparr>nd_id := i\<rparr>"

definition SetLSN :: "'m BPlusTreePage_scheme \<Rightarrow> int \<Rightarrow> 'm BPlusTreePage_scheme" where
  "SetLSN p lsn = p\<lparr>nd_lsn := lsn\<rparr>"

definition isSafe :: "'m BPlusTreePage_scheme \<Rightarrow> OperationType \<Rightarrow> bool res" where
  "isSafe p opr =
     (if opr = OpInsert then ok (nd_size p < nd_max p)
      else
        (let min_size = GetMinSize p + 1 in
         if opr = OpDelete then ok (if IsLeafPage p then nd_size p \<ge> min_size else nd_size p > min_size)
         else fail Assertion_Failed))"

lemmas header_defs = IsLeafPage_def IsRootPage_def SetPageType_def SetSize_def IncreaseSize_def
  SetMaxSize_def GetMinSize_def SetParentPageId_def SetPageId_def SetLSN_def

section \<open>Leaf pages\<close>

record ('k, 'v) LeafPage = BPlusTreePage +
  nd_next :: int
  nd_array :: "('k \<times> 'v) list"

record 'k InternalPage = BPlusTreePage +
  nd_children :: "('k \<times> int) list"

text \<open>
  The pairs that fit behind the header: \<^verbatim>\<open>ks\<close> is the size of a key, a value of a leaf is a \<^verbatim>\<open>RID\<close> of
  8 bytes, that of an internal page a page number of 4.
\<close>

definition leaf_capacity :: "nat \<Rightarrow> nat" where
  "leaf_capacity ks = (PAGE_SIZE - 28) div (ks + 8)"

definition internal_capacity :: "nat \<Rightarrow> nat" where
  "internal_capacity ks = (PAGE_SIZE - 24) div (ks + 4)"

definition SetNextPageId :: "('k, 'v) LeafPage \<Rightarrow> int \<Rightarrow> ('k, 'v) LeafPage" where
  "SetNextPageId p i = p\<lparr>nd_next := i\<rparr>"

definition leaf_Init :: "nat \<Rightarrow> int \<Rightarrow> int \<Rightarrow> ('k, 'v) LeafPage \<Rightarrow> ('k, 'v) LeafPage" where
  "leaf_Init ks page_id parent_id p =
     (let p1 = SetSize (SetParentPageId (SetPageType p LEAF_PAGE) parent_id) 0;
          p2 = SetNextPageId (SetPageId p1 page_id) INVALID_PAGE_ID in
      SetMaxSize p2 (int (leaf_capacity ks) - 1))"

text \<open>The binary search between \<^verbatim>\<open>begin\<close> and \<^verbatim>\<open>end\<close>.\<close>

function leaf_search :: "('k \<Rightarrow> 'k \<Rightarrow> int res) \<Rightarrow> ('k \<times> 'v) list \<Rightarrow> 'k \<Rightarrow> int \<Rightarrow> int \<Rightarrow> int res" where
  "leaf_search cmp a key b e =
     (if b \<le> e then
        (let mid = (e - b) div 2 + b in
         bindE (vec_at a mid) (\<lambda>p.
         bindE (cmp (fst p) key) (\<lambda>c.
         if c \<ge> 0 then leaf_search cmp a key b (mid - 1)
         else leaf_search cmp a key (mid + 1) e)))
      else ok (e + 1))"
  by auto
termination
  by (relation "measure (\<lambda>(_, _, _, b, e). nat (e - b + 1))") auto

declare leaf_search.simps [simp del]

definition leaf_KeyIndex :: "('k \<Rightarrow> 'k \<Rightarrow> int res) \<Rightarrow> ('k, 'v) LeafPage \<Rightarrow> 'k \<Rightarrow> int res" where
  "leaf_KeyIndex cmp p key = leaf_search cmp (nd_array p) key 0 (nd_size p - 1)"

definition leaf_KeyAt :: "('k, 'v) LeafPage \<Rightarrow> int \<Rightarrow> 'k res" where
  "leaf_KeyAt p i =
     bindE (assertE (i \<ge> 0 \<and> i < nd_size p)) (\<lambda>_.
     bindE (vec_at (nd_array p) i) (\<lambda>x. ok (fst x)))"

definition leaf_GetItem :: "('k, 'v) LeafPage \<Rightarrow> int \<Rightarrow> ('k \<times> 'v) res" where
  "leaf_GetItem p i = vec_at (nd_array p) i"

text \<open>The loop that moves the entries above \<^verbatim>\<open>index\<close> up by one, from \<^verbatim>\<open>i\<close> downwards.\<close>

function shift_up :: "('k \<times> 'v) list \<Rightarrow> int \<Rightarrow> int \<Rightarrow> ('k \<times> 'v) list res" where
  "shift_up a i index =
     (if i > index then
        bindE (vec_at a (i - 1)) (\<lambda>x. bindE (vec_set a i x) (\<lambda>a'. shift_up a' (i - 1) index))
      else ok a)"
  by auto
termination
  by (relation "measure (\<lambda>(_, i, index). nat (i - index))") auto

declare shift_up.simps [simp del]

definition leaf_Insert ::
  "('k \<Rightarrow> 'k \<Rightarrow> int res) \<Rightarrow> ('k, 'v) LeafPage \<Rightarrow> 'k \<Rightarrow> 'v \<Rightarrow> (('k, 'v) LeafPage \<times> int) res" where
  "leaf_Insert cmp p key val =
     bindE (leaf_KeyIndex cmp p key) (\<lambda>index.
     bindE (assertE (index \<ge> 0)) (\<lambda>_.
     let p1 = IncreaseSize p 1; cur_size = nd_size p1 in
     bindE (shift_up (nd_array p1) (cur_size - 1) index) (\<lambda>a.
     bindE (vec_set a index (key, val)) (\<lambda>a'. ok (p1\<lparr>nd_array := a'\<rparr>, cur_size)))))"

text \<open>The entries of \<^verbatim>\<open>src\<close> from \<^verbatim>\<open>i\<close> on are copied to \<^verbatim>\<open>dst\<close>, \<^verbatim>\<open>n\<close> of them, starting at \<^verbatim>\<open>j\<close>.\<close>

fun copy_entries :: "('k \<times> 'v) list \<Rightarrow> int \<Rightarrow> ('k \<times> 'v) list \<Rightarrow> int \<Rightarrow> nat \<Rightarrow> ('k \<times> 'v) list res" where
  "copy_entries src i dst j 0 = ok dst"
| "copy_entries src i dst j (Suc n) =
     bindE (vec_at src i) (\<lambda>x.
     bindE (vec_set dst j x) (\<lambda>dst'. copy_entries src (i + 1) dst' (j + 1) n))"

definition leaf_MoveHalfTo ::
  "('k, 'v) LeafPage \<Rightarrow> ('k, 'v) LeafPage \<Rightarrow> (('k, 'v) LeafPage \<times> ('k, 'v) LeafPage) res" where
  "leaf_MoveHalfTo p recipient =
     (let total = nd_max p + 1; idx = total div 2 in
      bindE (copy_entries (nd_array p) idx (nd_array recipient) 0 (nat (total - idx))) (\<lambda>a.
      let r1 = SetNextPageId (recipient\<lparr>nd_array := a\<rparr>) (nd_next p);
          p1 = SetNextPageId p (nd_id r1) in
      ok (SetSize p1 idx, SetSize r1 (total - idx))))"

definition leaf_Lookup :: "('k \<Rightarrow> 'k \<Rightarrow> int res) \<Rightarrow> ('k, 'v) LeafPage \<Rightarrow> 'k \<Rightarrow> 'v option res" where
  "leaf_Lookup cmp p key =
     bindE (leaf_KeyIndex cmp p key) (\<lambda>i.
     if i \<ge> 0 \<and> i < nd_size p then
       bindE (vec_at (nd_array p) i) (\<lambda>x.
       bindE (cmp (fst x) key) (\<lambda>c. ok (if c = 0 then Some (snd x) else None)))
     else ok None)"

text \<open>\<^verbatim>\<open>memmove\<close> of \<^verbatim>\<open>n\<close> entries inside the array: the source is read before it is overwritten.\<close>

definition move_entries :: "('k \<times> 'v) list \<Rightarrow> int \<Rightarrow> int \<Rightarrow> int \<Rightarrow> ('k \<times> 'v) list res" where
  "move_entries a dst src n =
     (if n = 0 then ok a
      else if n < 0 \<or> dst < 0 \<or> src < 0 \<or> dst + n > int (length a) \<or> src + n > int (length a)
      then fail Out_Of_Bounds
      else ok (take (nat dst) a @ take (nat n) (drop (nat src) a) @ drop (nat (dst + n)) a))"

definition leaf_RemoveAndDeleteRecord ::
  "('k \<Rightarrow> 'k \<Rightarrow> int res) \<Rightarrow> ('k, 'v) LeafPage \<Rightarrow> 'k \<Rightarrow> (('k, 'v) LeafPage \<times> int) res" where
  "leaf_RemoveAndDeleteRecord cmp p key =
     bindE (leaf_KeyIndex cmp p key) (\<lambda>tar.
     bindE (if tar \<ge> nd_size p then ok True
            else bindE (leaf_KeyAt p tar) (\<lambda>k. bindE (cmp key k) (\<lambda>c. ok (c \<noteq> 0)))) (\<lambda>absent.
     if absent then ok (p, nd_size p)
     else
       bindE (move_entries (nd_array p) tar (tar + 1) (nd_size p - tar - 1)) (\<lambda>a.
       let p1 = IncreaseSize (p\<lparr>nd_array := a\<rparr>) (- 1) in ok (p1, nd_size p1))))"

definition leaf_MoveAllTo ::
  "('k, 'v) LeafPage \<Rightarrow> ('k, 'v) LeafPage \<Rightarrow> (('k, 'v) LeafPage \<times> ('k, 'v) LeafPage) res" where
  "leaf_MoveAllTo p recipient =
     bindE (copy_entries (nd_array p) 0 (nd_array recipient) (nd_size recipient) (nat (nd_size p))) (\<lambda>a.
     let r1 = IncreaseSize (SetNextPageId (recipient\<lparr>nd_array := a\<rparr>) (nd_next p)) (nd_size p) in
     ok (SetSize p 0, r1))"

definition leaf_CopyLastFrom :: "('k, 'v) LeafPage \<Rightarrow> 'k \<times> 'v \<Rightarrow> ('k, 'v) LeafPage res" where
  "leaf_CopyLastFrom p item =
     bindE (assertE (nd_size p < nd_max p)) (\<lambda>_.
     bindE (vec_set (nd_array p) (nd_size p) item) (\<lambda>a. ok (IncreaseSize (p\<lparr>nd_array := a\<rparr>) 1)))"

section \<open>Internal pages\<close>

definition internal_Init :: "nat \<Rightarrow> int \<Rightarrow> int \<Rightarrow> 'k InternalPage \<Rightarrow> 'k InternalPage" where
  "internal_Init ks page_id parent_id p =
     SetMaxSize
       (SetParentPageId (SetPageType (SetPageId (SetSize p 0) page_id) INTERNAL_PAGE) parent_id)
       (int (internal_capacity ks) - 1)"

definition internal_KeyAt :: "'k InternalPage \<Rightarrow> int \<Rightarrow> 'k res" where
  "internal_KeyAt p i = bindE (vec_at (nd_children p) i) (\<lambda>x. ok (fst x))"

definition internal_SetKeyAt :: "'k InternalPage \<Rightarrow> int \<Rightarrow> 'k \<Rightarrow> 'k InternalPage res" where
  "internal_SetKeyAt p i key =
     bindE (vec_at (nd_children p) i) (\<lambda>x.
     bindE (vec_set (nd_children p) i (key, snd x)) (\<lambda>a. ok (p\<lparr>nd_children := a\<rparr>)))"

definition internal_ValueAt :: "'k InternalPage \<Rightarrow> int \<Rightarrow> int res" where
  "internal_ValueAt p i = bindE (vec_at (nd_children p) i) (\<lambda>x. ok (snd x))"

fun value_index_from :: "'k InternalPage \<Rightarrow> int \<Rightarrow> int \<Rightarrow> nat \<Rightarrow> int res" where
  "value_index_from p val i 0 = ok (- 1)"
| "value_index_from p val i (Suc n) =
     bindE (internal_ValueAt p i) (\<lambda>v. if val \<noteq> v then value_index_from p val (i + 1) n else ok i)"

definition internal_ValueIndex :: "'k InternalPage \<Rightarrow> int \<Rightarrow> int res" where
  "internal_ValueIndex p val = value_index_from p val 0 (nat (nd_size p))"

function internal_search :: "('k \<Rightarrow> 'k \<Rightarrow> int res) \<Rightarrow> ('k \<times> int) list \<Rightarrow> 'k \<Rightarrow> int \<Rightarrow> int \<Rightarrow> int res" where
  "internal_search cmp a key b e =
     (if b \<le> e then
        (let mid = (e - b) div 2 + b in
         bindE (vec_at a mid) (\<lambda>p.
         bindE (cmp (fst p) key) (\<lambda>c.
         if c \<le> 0 then internal_search cmp a key (mid + 1) e
         else internal_search cmp a key b (mid - 1))))
      else ok b)"
  by auto
termination
  by (relation "measure (\<lambda>(_, _, _, b, e). nat (e - b + 1))") auto

declare internal_search.simps [simp del]

definition internal_Lookup :: "('k \<Rightarrow> 'k \<Rightarrow> int res) \<Rightarrow> 'k InternalPage \<Rightarrow> 'k \<Rightarrow> int res" where
  "internal_Lookup cmp p key =
     bindE (assertE (nd_size p > 1)) (\<lambda>_.
     bindE (internal_search cmp (nd_children p) key 1 (nd_size p - 1)) (\<lambda>b.
     bindE (vec_at (nd_children p) (b - 1)) (\<lambda>x. ok (snd x))))"

definition internal_PopulateNewRoot ::
  "'k InternalPage \<Rightarrow> int \<Rightarrow> 'k \<Rightarrow> int \<Rightarrow> 'k InternalPage res" where
  "internal_PopulateNewRoot p old_value new_key new_value =
     bindE (vec_at (nd_children p) 0) (\<lambda>x0.
     bindE (vec_set (nd_children p) 0 (fst x0, old_value)) (\<lambda>a.
     bindE (vec_set a 1 (new_key, new_value)) (\<lambda>a'.
     ok (IncreaseSize (p\<lparr>nd_children := a'\<rparr>) 1))))"

definition internal_InsertNodeAfter ::
  "'k InternalPage \<Rightarrow> int \<Rightarrow> 'k \<Rightarrow> int \<Rightarrow> ('k InternalPage \<times> int) res" where
  "internal_InsertNodeAfter p old_value new_key new_value =
     bindE (internal_ValueIndex p old_value) (\<lambda>i.
     let index = i + 1 in
     bindE (assertE (index > 0)) (\<lambda>_.
     let p1 = IncreaseSize p 1; cur_size = nd_size p1 in
     bindE (shift_up (nd_children p1) (cur_size - 1) index) (\<lambda>a.
     bindE (vec_set a index (new_key, new_value)) (\<lambda>a'. ok (p1\<lparr>nd_children := a'\<rparr>, cur_size)))))"

text \<open>The loop of \<^verbatim>\<open>Remove\<close>: entries from \<^verbatim>\<open>i\<close> on move down by one, \<^verbatim>\<open>n\<close> of them.\<close>

fun shift_down :: "('k \<times> 'v) list \<Rightarrow> int \<Rightarrow> nat \<Rightarrow> ('k \<times> 'v) list res" where
  "shift_down a i 0 = ok a"
| "shift_down a i (Suc n) =
     bindE (vec_at a i) (\<lambda>x. bindE (vec_set a (i - 1) x) (\<lambda>a'. shift_down a' (i + 1) n))"

definition internal_Remove :: "'k InternalPage \<Rightarrow> int \<Rightarrow> 'k InternalPage res" where
  "internal_Remove p index =
     bindE (assertE (index \<ge> 0 \<and> index < nd_size p)) (\<lambda>_.
     bindE (shift_down (nd_children p) (index + 1) (nat (nd_size p - (index + 1)))) (\<lambda>a.
     ok (IncreaseSize (p\<lparr>nd_children := a\<rparr>) (- 1))))"

definition internal_RemoveAndReturnOnlyChild :: "'k InternalPage \<Rightarrow> ('k InternalPage \<times> int) res" where
  "internal_RemoveAndReturnOnlyChild p =
     bindE (internal_ValueAt p 0) (\<lambda>ret.
     let p1 = IncreaseSize p (- 1) in
     bindE (assertE (nd_size p1 = 0)) (\<lambda>_. ok (p1, ret)))"

definition internal_CopyLastFrom :: "'k InternalPage \<Rightarrow> 'k \<times> int \<Rightarrow> 'k InternalPage res" where
  "internal_CopyLastFrom p item =
     bindE (assertE (nd_size p + 1 \<le> nd_max p)) (\<lambda>_.
     bindE (vec_set (nd_children p) (nd_size p) item) (\<lambda>a. ok (IncreaseSize (p\<lparr>nd_children := a\<rparr>) 1)))"

end
