(* ===== verification/Bpt_Node.thy ===== *)
theory Bpt_Node
  imports Bpt_Page
begin

text \<open>
  The nodes of a tree in the bytes of a page, which \<^verbatim>\<open>reinterpret_cast\<close> makes of \<^verbatim>\<open>GetData()\<close>: the six
  words of \<^verbatim>\<open>BPlusTreePage\<close>, for a leaf the number of the next leaf, and the array of pairs. Reading a
  view and storing it changes nothing, and a stored node is read back.
\<close>

section \<open>The header\<close>

definition type_view :: "byte list \<Rightarrow> IndexPageType" where
  "type_view d =
     (if get32 d 0 = 1 then LEAF_PAGE else if get32 d 0 = 2 then INTERNAL_PAGE else INVALID_INDEX_PAGE)"

definition type_code :: "IndexPageType \<Rightarrow> int" where
  "type_code ty = (case ty of INVALID_INDEX_PAGE \<Rightarrow> 0 | LEAF_PAGE \<Rightarrow> 1 | INTERNAL_PAGE \<Rightarrow> 2)"

text \<open>A word that is none of the three codes stays as it is.\<close>

definition type_store :: "byte list \<Rightarrow> IndexPageType \<Rightarrow> byte list" where
  "type_store d ty = (if type_view d = ty then d else put32 d 0 (type_code ty))"

definition header_view :: "byte list \<Rightarrow> BPlusTreePage" where
  "header_view d =
     \<lparr>nd_type = type_view d, nd_lsn = get32 d 4, nd_size = get32 d 8, nd_max = get32 d 12,
      nd_parent = get32 d 16, nd_id = get32 d 20\<rparr>"

definition header_store :: "byte list \<Rightarrow> 'm BPlusTreePage_scheme \<Rightarrow> byte list" where
  "header_store d p =
     put32 (put32 (put32 (put32 (put32 (type_store d (nd_type p))
       4 (nd_lsn p)) 8 (nd_size p)) 12 (nd_max p)) 16 (nd_parent p)) 20 (nd_id p)"

section \<open>Arrays of pairs\<close>

text \<open>\<open>cells d off w n\<close> are \<open>n\<close> blocks of \<open>w\<close> bytes from \<open>off\<close> on.\<close>

definition cells :: "byte list \<Rightarrow> nat \<Rightarrow> nat \<Rightarrow> nat \<Rightarrow> byte list list" where
  "cells d off w n = map (\<lambda>i. bget d (off + i * w) w) [0..<n]"

definition leaf_cell :: "nat \<Rightarrow> byte list \<Rightarrow> byte list \<times> RID" where
  "leaf_cell ks b = (take ks b, rid_make (get32 b ks) (get32 b (ks + 4)))"

definition leaf_bytes :: "byte list \<times> RID \<Rightarrow> byte list" where
  "leaf_bytes e = fst e @ enc32 (rid_page (snd e)) @ enc32 (rid_slot (snd e))"

definition internal_cell :: "nat \<Rightarrow> byte list \<Rightarrow> byte list \<times> int" where
  "internal_cell ks b = (take ks b, get32 b ks)"

definition internal_bytes :: "byte list \<times> int \<Rightarrow> byte list" where
  "internal_bytes e = fst e @ enc32 (snd e)"

type_synonym leaf_node = "(byte list, RID) LeafPage"
type_synonym internal_node = "byte list InternalPage"

definition leaf_view :: "nat \<Rightarrow> byte list \<Rightarrow> leaf_node" where
  "leaf_view ks d =
     \<lparr>nd_type = type_view d, nd_lsn = get32 d 4, nd_size = get32 d 8, nd_max = get32 d 12,
      nd_parent = get32 d 16, nd_id = get32 d 20, nd_next = get32 d 24,
      nd_array = map (leaf_cell ks) (cells d 28 (ks + 8) (leaf_capacity ks))\<rparr>"

definition leaf_store :: "byte list \<Rightarrow> leaf_node \<Rightarrow> byte list" where
  "leaf_store d p =
     bput (put32 (header_store d p) 24 (nd_next p)) 28 (concat (map leaf_bytes (nd_array p)))"

definition internal_view :: "nat \<Rightarrow> byte list \<Rightarrow> internal_node" where
  "internal_view ks d =
     \<lparr>nd_type = type_view d, nd_lsn = get32 d 4, nd_size = get32 d 8, nd_max = get32 d 12,
      nd_parent = get32 d 16, nd_id = get32 d 20,
      nd_children = map (internal_cell ks) (cells d 24 (ks + 4) (internal_capacity ks))\<rparr>"

definition internal_store :: "byte list \<Rightarrow> internal_node \<Rightarrow> byte list" where
  "internal_store d p =
     bput (header_store d p) 24 (concat (map internal_bytes (nd_children p)))"

section \<open>What is stored is read back\<close>

text \<open>The nodes that a page can hold: words of 32 bits, full arrays, keys of the size of the index.\<close>

definition header_fits :: "'m BPlusTreePage_scheme \<Rightarrow> bool" where
  "header_fits p \<longleftrightarrow> in32 (nd_lsn p) \<and> in32 (nd_size p) \<and> in32 (nd_max p) \<and> in32 (nd_parent p) \<and> in32 (nd_id p)"

definition leaf_fits :: "nat \<Rightarrow> leaf_node \<Rightarrow> bool" where
  "leaf_fits ks p \<longleftrightarrow> header_fits p \<and> in32 (nd_next p) \<and> length (nd_array p) = leaf_capacity ks \<and>
     list_all (\<lambda>e. length (fst e) = ks \<and> in32 (rid_page (snd e)) \<and> in32 (rid_slot (snd e))) (nd_array p)"

definition internal_fits :: "nat \<Rightarrow> internal_node \<Rightarrow> bool" where
  "internal_fits ks p \<longleftrightarrow> header_fits p \<and> length (nd_children p) = internal_capacity ks \<and>
     list_all (\<lambda>e. length (fst e) = ks \<and> in32 (snd e)) (nd_children p)"

lemma length_concat_cells:
  "list_all (\<lambda>b. length b = w) bs \<Longrightarrow> length (concat bs) = length bs * w"
  by (induction bs) auto

lemma bget_concat_cell:
  "list_all (\<lambda>b. length b = w) bs \<Longrightarrow> i < length bs \<Longrightarrow> bget (concat bs) (i * w) w = bs ! i"
proof (induction bs arbitrary: i)
  case (Cons b bs)
  then show ?case by (cases i) (auto simp: bget_def)
qed simp

lemma bget_shift: "off \<le> length d \<Longrightarrow> bget (drop off d) p n = bget d (off + p) n"
  by (simp add: bget_def add.commute)

lemma cells_bput:
  assumes "list_all (\<lambda>b. length b = w) bs" and "off + length bs * w \<le> length d"
  shows "cells (bput d off (concat bs)) off w (length bs) = bs"
proof (rule nth_equalityI)
  fix i assume "i < length (cells (bput d off (concat bs)) off w (length bs))"
  then have i: "i < length bs" by (simp add: cells_def)
  have le: "i * w + w \<le> length bs * w" using mult_le_mono1 [of "Suc i" "length bs" w] i by simp
  have "bget (bput d off (concat bs)) (off + i * w) w = bget (concat bs) (off + i * w - off) w"
    using assms le by (intro bget_bput_sub) (simp_all add: length_concat_cells)
  then show "cells (bput d off (concat bs)) off w (length bs) ! i = bs ! i"
    using i bget_concat_cell [OF assms(1) i] by (simp add: cells_def)
qed (simp add: cells_def)

lemma bget_drop_cells: "drop (n * w) (bget d off (n * w + w)) = bget d (off + n * w) w"
  by (simp add: bget_def drop_take add.commute)

lemma concat_cells:
  "off + n * w \<le> length d \<Longrightarrow> concat (cells d off w n) = bget d off (n * w)"
proof (induction n)
  case (Suc n)
  then have "concat (cells d off w (Suc n)) = bget d off (n * w) @ bget d (off + n * w) w"
    by (simp add: cells_def)
  also have "\<dots> = bget d off (Suc n * w)"
    by (rule bget_append [symmetric]) simp
  finally show ?case .
qed (simp add: cells_def bget_def)

lemma bput_bget_id: "off + n \<le> length d \<Longrightarrow> bput d off (bget d off n) = d"
  by (rule nth_equalityI) (auto simp: length_bget length_bput nth_bput nth_bget)

lemma word_of_int_byte: "word_of_int (uint b + 256 * x) = (b :: byte)"
proof -
  have "(word_of_int (uint b + 256 * x) :: byte) = word_of_int (uint b) + word_of_int 256 * word_of_int x"
    by (simp only: of_int_add of_int_mult)
  also have "(word_of_int 256 :: byte) = 0" by simp
  finally show ?thesis by simp
qed

lemma byte_div: "(uint (b :: byte) + 256 * x) div 256 = x"
  using uint_bounded [of b] by simp

lemma enc32_dec32:
  assumes "length bs = 4" shows "enc32 (dec32 bs) = bs"
proof -
  obtain a b c e where bs: "bs = [a, b, c, e]"
    using assms by (auto simp: numeral_eq_Suc length_Suc_conv)
  define n where "n = uint a + 256 * uint b + 65536 * uint c + 16777216 * uint e"
  have "int32 n = n + 4294967296 * - ((n + 2147483648) div 4294967296)"
    using minus_mult_div_eq_mod [of "n + 2147483648" 4294967296] by (simp add: int32_def)
  then obtain k where "int32 n = n + 4294967296 * k" by blast
  then have k: "dec32 bs = uint a + 256 * (uint b + 256 * (uint c + 256 * (uint e + 256 * k)))"
    by (simp add: dec32_def bs n_def algebra_simps)
  have div: "i div 65536 = i div 256 div 256" "i div 16777216 = i div 256 div 256 div 256" for i :: int
    using zdiv_zmult2_eq [of 256 i 256] zdiv_zmult2_eq [of 256 i 65536] zdiv_zmult2_eq [of 256 "i div 256" 256]
    by simp_all
  have "enc32 (dec32 bs) = [a, b, c, e]" by (simp only: enc32_def k div byte_div word_of_int_byte)
  then show ?thesis by (simp only: bs)
qed

lemma put32_get32_id: "off + 4 \<le> length d \<Longrightarrow> put32 d off (get32 d off) = d"
  by (simp add: put32_def get32_def enc32_dec32 length_bget bput_bget_id)

lemma leaf_cell_bytes:
  assumes "length (fst e) = ks" and "in32 (rid_page (snd e))" and "in32 (rid_slot (snd e))"
  shows "leaf_cell ks (leaf_bytes e) = e" and "length (leaf_bytes e) = ks + 8"
proof -
  have "get32 (leaf_bytes e) ks = rid_page (snd e)" "get32 (leaf_bytes e) (ks + 4) = rid_slot (snd e)"
    using assms by (simp_all add: leaf_bytes_def get32_def bget_def)
  then show "leaf_cell ks (leaf_bytes e) = e"
    using assms by (cases "snd e") (simp add: leaf_cell_def rid_make_def leaf_bytes_def prod_eq_iff)
  show "length (leaf_bytes e) = ks + 8" using assms by (simp add: leaf_bytes_def)
qed

lemma internal_cell_bytes:
  assumes "length (fst e) = ks" and "in32 (snd e)"
  shows "internal_cell ks (internal_bytes e) = e" and "length (internal_bytes e) = ks + 4"
  using assms by (simp_all add: internal_bytes_def internal_cell_def get32_def bget_def)

lemma capacity_le:
  "28 + leaf_capacity ks * (ks + 8) \<le> PAGE_SIZE" "24 + internal_capacity ks * (ks + 4) \<le> PAGE_SIZE"
  using div_times_less_eq_dividend [of 484 "ks + 8"] div_times_less_eq_dividend [of 488 "ks + 4"]
  by (simp_all add: leaf_capacity_def internal_capacity_def)

lemma type_view_store [simp]: "4 \<le> length d \<Longrightarrow> type_view (type_store d ty) = ty"
  by (auto simp: type_store_def type_view_def type_code_def split: IndexPageType.splits)

lemma length_type_store [simp]: "4 \<le> length d \<Longrightarrow> length (type_store d ty) = length d"
  by (simp add: type_store_def)

lemma length_header_store [simp]: "24 \<le> length d \<Longrightarrow> length (header_store d p) = length d"
  by (simp add: header_store_def)

lemma type_view_cong: "bget d 0 4 = bget d' 0 4 \<Longrightarrow> type_view d = type_view d'"
  by (simp add: type_view_def get32_def)

lemma header_store_other:
  "24 \<le> length d \<Longrightarrow> 24 \<le> off \<Longrightarrow> off + n \<le> length d \<Longrightarrow> bget (header_store d p) off n = bget d off n"
  by (auto simp: header_store_def type_store_def bget_put32_other)

lemma header_store_fields:
  assumes "24 \<le> length d" and "header_fits p"
  shows "type_view (header_store d p) = nd_type p" and "get32 (header_store d p) 4 = nd_lsn p"
    and "get32 (header_store d p) 8 = nd_size p" and "get32 (header_store d p) 12 = nd_max p"
    and "get32 (header_store d p) 16 = nd_parent p" and "get32 (header_store d p) 20 = nd_id p"
proof -
  have "bget (header_store d p) 0 4 = bget (type_store d (nd_type p)) 0 4"
    using assms(1) by (simp add: header_store_def bget_put32_other)
  then have "type_view (header_store d p) = type_view (type_store d (nd_type p))" by (rule type_view_cong)
  then show "type_view (header_store d p) = nd_type p" using assms(1) by simp
qed (use assms in \<open>simp_all add: header_store_def header_fits_def get32_put32_other\<close>)

text \<open>A header stored on a page whose array starts behind it: the array keeps its bytes.\<close>

lemma cells_cong:
  assumes "\<And>p. off \<le> p \<Longrightarrow> p + w \<le> off + n * w \<Longrightarrow> bget d p w = bget d' p w"
  shows "cells d off w n = cells d' off w n"
  unfolding cells_def
proof (rule map_cong [OF refl])
  fix i assume "i \<in> set [0..<n]"
  then have "i * w + w \<le> n * w" using mult_le_mono1 [of "Suc i" n w] by simp
  then show "bget d (off + i * w) w = bget d' (off + i * w) w" by (intro assms) simp_all
qed

lemma header_view_store:
  "24 \<le> length d \<Longrightarrow> header_fits p \<Longrightarrow> header_view (header_store d p) = BPlusTreePage.truncate p"
  by (simp add: header_view_def header_store_fields BPlusTreePage.truncate_def)

theorem leaf_view_store:
  assumes "length d = PAGE_SIZE" and "leaf_fits ks p"
  shows "leaf_view ks (leaf_store d p) = p" and "length (leaf_store d p) = PAGE_SIZE"
proof -
  let ?bs = "map leaf_bytes (nd_array p)" and ?d = "put32 (header_store d p) 24 (nd_next p)"
  have all: "list_all (\<lambda>b. length b = ks + 8) ?bs"
    using assms(2) leaf_cell_bytes(2) by (auto simp: leaf_fits_def list_all_iff)
  have len: "length ?bs = leaf_capacity ks" "28 + length ?bs * (ks + 8) \<le> length ?d"
    using assms capacity_le(1) [of ks] by (simp_all add: leaf_fits_def)
  have fit: "28 + length (concat ?bs) \<le> length ?d" using len length_concat_cells [OF all] by simp
  have hd: "get32 (leaf_store d p) off = get32 ?d off" if "off + 4 \<le> 28" for off
    unfolding leaf_store_def using that fit assms(1) by (intro get32_bput_other) simp_all
  have ty: "type_view (leaf_store d p) = type_view (header_store d p)"
    using hd [of 0] assms(1) by (simp add: type_view_def get32_put32_other)
  have "map (leaf_cell ks) ?bs = nd_array p"
    using assms(2) leaf_cell_bytes(1) by (auto simp: leaf_fits_def list_all_iff intro!: map_idI)
  moreover have "cells (leaf_store d p) 28 (ks + 8) (leaf_capacity ks) = ?bs"
    using cells_bput [OF all len(2)] len(1) by (simp add: leaf_store_def)
  moreover have "header_fits p" "in32 (nd_next p)" using assms(2) by (simp_all add: leaf_fits_def)
  ultimately show "leaf_view ks (leaf_store d p) = p"
    using header_store_fields [of d p] assms(1) ty by (simp add: leaf_view_def hd get32_put32_other)
  show "length (leaf_store d p) = PAGE_SIZE"
    using length_bput [OF fit] assms(1) by (simp add: leaf_store_def)
qed

theorem internal_view_store:
  assumes "length d = PAGE_SIZE" and "internal_fits ks p"
  shows "internal_view ks (internal_store d p) = p" and "length (internal_store d p) = PAGE_SIZE"
proof -
  let ?bs = "map internal_bytes (nd_children p)" and ?d = "header_store d p"
  have all: "list_all (\<lambda>b. length b = ks + 4) ?bs"
    using assms(2) internal_cell_bytes(2) by (auto simp: internal_fits_def list_all_iff)
  have len: "length ?bs = internal_capacity ks" "24 + length ?bs * (ks + 4) \<le> length ?d"
    using assms capacity_le(2) [of ks] by (simp_all add: internal_fits_def)
  have fit: "24 + length (concat ?bs) \<le> length ?d" using len length_concat_cells [OF all] by simp
  have hd: "get32 (internal_store d p) off = get32 ?d off" if "off + 4 \<le> 24" for off
    unfolding internal_store_def using that fit assms(1) by (intro get32_bput_other) simp_all
  have ty: "type_view (internal_store d p) = type_view (header_store d p)"
    using hd [of 0] by (simp add: type_view_def)
  have "map (internal_cell ks) ?bs = nd_children p"
    using assms(2) internal_cell_bytes(1) by (auto simp: internal_fits_def list_all_iff intro!: map_idI)
  moreover have "cells (internal_store d p) 24 (ks + 4) (internal_capacity ks) = ?bs"
    using cells_bput [OF all len(2)] len(1) by (simp add: internal_store_def)
  moreover have "header_fits p" using assms(2) by (simp add: internal_fits_def)
  ultimately show "internal_view ks (internal_store d p) = p"
    using header_store_fields [of d p] assms(1) ty by (simp add: internal_view_def hd)
  show "length (internal_store d p) = PAGE_SIZE"
    using length_bput [OF fit] assms(1) by (simp add: internal_store_def)
qed

lemma leaf_view_header:
  assumes "length d = PAGE_SIZE" and "header_fits p"
  shows "leaf_view ks (header_store d p) =
    (leaf_view ks d)\<lparr>nd_type := nd_type p, nd_lsn := nd_lsn p, nd_size := nd_size p, nd_max := nd_max p,
      nd_parent := nd_parent p, nd_id := nd_id p\<rparr>"
proof -
  have "cells (header_store d p) 28 (ks + 8) (leaf_capacity ks) = cells d 28 (ks + 8) (leaf_capacity ks)"
    using capacity_le(1) [of ks] assms(1) by (intro cells_cong header_store_other) simp_all
  moreover have "get32 (header_store d p) 24 = get32 d 24"
    using assms(1) by (simp add: get32_def header_store_other)
  ultimately show ?thesis
    using header_store_fields [of d p] assms by (simp add: leaf_view_def)
qed

lemma internal_view_header:
  assumes "length d = PAGE_SIZE" and "header_fits p"
  shows "internal_view ks (header_store d p) =
    (internal_view ks d)\<lparr>nd_type := nd_type p, nd_lsn := nd_lsn p, nd_size := nd_size p, nd_max := nd_max p,
      nd_parent := nd_parent p, nd_id := nd_id p\<rparr>"
proof -
  have "cells (header_store d p) 24 (ks + 4) (internal_capacity ks) = cells d 24 (ks + 4) (internal_capacity ks)"
    using capacity_le(2) [of ks] assms(1) by (intro cells_cong header_store_other) simp_all
  then show ?thesis
    using header_store_fields [of d p] assms by (simp add: internal_view_def)
qed

text \<open>The fields of the views agree, and what is read from a page fits it.\<close>

lemma view_fields [simp]:
  "nd_type (leaf_view ks d) = nd_type (header_view d)" "nd_size (leaf_view ks d) = nd_size (header_view d)"
  "nd_max (leaf_view ks d) = nd_max (header_view d)" "nd_parent (leaf_view ks d) = nd_parent (header_view d)"
  "nd_id (leaf_view ks d) = nd_id (header_view d)" "nd_lsn (leaf_view ks d) = nd_lsn (header_view d)"
  "nd_type (internal_view ks d) = nd_type (header_view d)" "nd_size (internal_view ks d) = nd_size (header_view d)"
  "nd_max (internal_view ks d) = nd_max (header_view d)" "nd_parent (internal_view ks d) = nd_parent (header_view d)"
  "nd_id (internal_view ks d) = nd_id (header_view d)" "nd_lsn (internal_view ks d) = nd_lsn (header_view d)"
  by (simp_all add: leaf_view_def internal_view_def header_view_def)

lemma header_view_fits: "header_fits (header_view d)"
  by (simp add: header_fits_def header_view_def get32_in32)

lemma leaf_view_fits:
  assumes "length d = PAGE_SIZE" shows "leaf_fits ks (leaf_view ks d)"
proof -
  have "length (bget d (28 + i * (ks + 8)) (ks + 8)) = ks + 8" if "i < leaf_capacity ks" for i
  proof -
    have "Suc i * (ks + 8) \<le> leaf_capacity ks * (ks + 8)" using that by (intro mult_le_mono1) simp
    then show ?thesis using capacity_le(1) [of ks] assms by (intro length_bget) simp
  qed
  then show ?thesis
    by (auto simp: leaf_fits_def header_fits_def leaf_view_def get32_in32 cells_def leaf_cell_def rid_make_def
        list_all_iff)
qed

lemma internal_view_fits:
  assumes "length d = PAGE_SIZE" shows "internal_fits ks (internal_view ks d)"
proof -
  have "length (bget d (24 + i * (ks + 4)) (ks + 4)) = ks + 4" if "i < internal_capacity ks" for i
  proof -
    have "Suc i * (ks + 4) \<le> internal_capacity ks * (ks + 4)" using that by (intro mult_le_mono1) simp
    then show ?thesis using capacity_le(2) [of ks] assms by (intro length_bget) simp
  qed
  then show ?thesis
    by (auto simp: internal_fits_def header_fits_def internal_view_def get32_in32 cells_def internal_cell_def list_all_iff)
qed

end
