(* ===== verification/Bpt_Tree.thy ===== *)
theory Bpt_Tree
  imports Bpt_Node Buffer_Pool Header_Page Rw_Mutex
begin

text \<open>
  Whole trees (\<^verbatim>\<open>index/b_plus_tree.cpp\<close>) over the buffer pool. The state holds the members of the tree,
  the pool, the latches of the frames and the transaction of the call; an operation is a function
  from the state to an outcome and the next state. Nodes are read and written through the bytes of
  their frames, so that whatever the pool does to a page is visible. One thread runs: a latch that
  it would have to wait for makes it wait for ever (\<^verbatim>\<open>Blocked\<close>).
\<close>

section \<open>State\<close>

text \<open>The parameters of the class: the hash of the page table, the size of keys and their comparator.\<close>

record bpt_env =
  hash_fn :: page_hash
  key_size :: nat
  comparator :: "byte list \<Rightarrow> byte list \<Rightarrow> int res"

record BPlusTree =
  index_name :: "byte list"
  root_page_id :: int
  bpm :: BufferPoolManager
  rwlatch :: "nat \<Rightarrow> rw_mutex"
  mMutex :: rw_mutex
  mRootLockedCnt :: int
  transaction :: "Transaction option"

type_synonym 'a op = "BPlusTree \<Rightarrow> ('a \<times> BPlusTree) res"

section \<open>Sequencing\<close>

definition bindS :: "'a op \<Rightarrow> ('a \<Rightarrow> 'b op) \<Rightarrow> 'b op" where
  "bindS m f s = bindE (m s) (\<lambda>(x, s1). f x s1)"

definition retS :: "'a \<Rightarrow> 'a op" where
  "retS x s = ok (x, s)"

definition liftS :: "'a res \<Rightarrow> 'a op" where
  "liftS r s = bindE r (\<lambda>x. ok (x, s))"

definition getS :: "(BPlusTree \<Rightarrow> 'a) \<Rightarrow> 'a op" where
  "getS f s = ok (f s, s)"

definition modS :: "(BPlusTree \<Rightarrow> BPlusTree) \<Rightarrow> unit op" where
  "modS f s = ok ((), f s)"

definition assertS :: "bool \<Rightarrow> unit op" where
  "assertS b = liftS (assertE b)"

section \<open>Pages\<close>

definition t_FetchPage :: "bpt_env \<Rightarrow> int \<Rightarrow> nat op" where
  "t_FetchPage E pid s = bindE (bp_FetchPage (hash_fn E) pid (bpm s)) (\<lambda>(ptr, b). ok (ptr, s\<lparr>bpm := b\<rparr>))"

definition t_UnpinPage :: "bpt_env \<Rightarrow> int \<Rightarrow> bool \<Rightarrow> bool op" where
  "t_UnpinPage E pid dirty s =
     bindE (bp_UnpinPage (hash_fn E) pid dirty (bpm s)) (\<lambda>(r, b). ok (r, s\<lparr>bpm := b\<rparr>))"

definition t_NewPage :: "bpt_env \<Rightarrow> (nat \<times> int option) op" where
  "t_NewPage E s = bindE (bp_NewPage (hash_fn E) (bpm s)) (\<lambda>(ptr, pid, b). ok ((ptr, pid), s\<lparr>bpm := b\<rparr>))"

definition t_DeletePage :: "bpt_env \<Rightarrow> int \<Rightarrow> bool op" where
  "t_DeletePage E pid s = bindE (bp_DeletePage (hash_fn E) pid (bpm s)) (\<lambda>(r, b). ok (r, s\<lparr>bpm := b\<rparr>))"

text \<open>\<^verbatim>\<open>GetData\<close>, and the three views of the bytes.\<close>

definition t_data :: "nat \<Rightarrow> byte list op" where
  "t_data ptr s = (if ptr = 0 then fail Null_Deref else ok (bp_peek (bpm s) ptr, s))"

definition t_put :: "nat \<Rightarrow> byte list \<Rightarrow> unit op" where
  "t_put ptr d = modS (\<lambda>s. s\<lparr>bpm := bp_poke ptr d (bpm s)\<rparr>)"

definition t_node :: "nat \<Rightarrow> BPlusTreePage op" where
  "t_node ptr = bindS (t_data ptr) (\<lambda>d. retS (header_view d))"

definition t_leaf :: "bpt_env \<Rightarrow> nat \<Rightarrow> leaf_node op" where
  "t_leaf E ptr = bindS (t_data ptr) (\<lambda>d. retS (leaf_view (key_size E) d))"

definition t_internal :: "bpt_env \<Rightarrow> nat \<Rightarrow> internal_node op" where
  "t_internal E ptr = bindS (t_data ptr) (\<lambda>d. retS (internal_view (key_size E) d))"

definition t_set_node :: "nat \<Rightarrow> BPlusTreePage \<Rightarrow> unit op" where
  "t_set_node ptr p = bindS (t_data ptr) (\<lambda>d. t_put ptr (header_store d p))"

definition t_set_leaf :: "nat \<Rightarrow> leaf_node \<Rightarrow> unit op" where
  "t_set_leaf ptr p = bindS (t_data ptr) (\<lambda>d. t_put ptr (leaf_store d p))"

definition t_set_internal :: "nat \<Rightarrow> internal_node \<Rightarrow> unit op" where
  "t_set_internal ptr p = bindS (t_data ptr) (\<lambda>d. t_put ptr (internal_store d p))"

definition t_SetParentPageId :: "nat \<Rightarrow> int \<Rightarrow> unit op" where
  "t_SetParentPageId ptr pid = bindS (t_node ptr) (\<lambda>p. t_set_node ptr (SetParentPageId p pid))"

section \<open>Latches\<close>

definition t_Lock :: "bool \<Rightarrow> nat \<Rightarrow> unit op" where
  "t_Lock exclusive ptr s =
     (if ptr = 0 then fail Null_Deref
      else
        (let (m, q) = (if exclusive then rw_WLock (rwlatch s ptr) else rw_RLock (rwlatch s ptr)) in
         if q = (if exclusive then Writing else Reading) then ok ((), s\<lparr>rwlatch := (rwlatch s)(ptr := m)\<rparr>)
         else fail Blocked))"

definition t_Unlock :: "bool \<Rightarrow> nat \<Rightarrow> unit op" where
  "t_Unlock exclusive ptr s =
     (if ptr = 0 then fail Null_Deref
      else
        (let (m, e) = (if exclusive then rw_WUnlock (rwlatch s ptr) else rw_RUnlock (rwlatch s ptr)) in
         ok ((), s\<lparr>rwlatch := (rwlatch s)(ptr := m)\<rparr>)))"

definition t_UnlockPage :: "bpt_env \<Rightarrow> bool \<Rightarrow> int \<Rightarrow> unit op" where
  "t_UnlockPage E exclusive pid =
     bindS (t_FetchPage E pid) (\<lambda>ptr.
     bindS (t_Unlock exclusive ptr) (\<lambda>_.
     bindS (t_UnpinPage E pid exclusive) (\<lambda>_. retS ())))"

definition LockRootPageId :: "bool \<Rightarrow> unit op" where
  "LockRootPageId exclusive s =
     (let (m, q) = (if exclusive then rw_WLock (mMutex s) else rw_RLock (mMutex s)) in
      if q = (if exclusive then Writing else Reading)
      then ok ((), s\<lparr>mMutex := m, mRootLockedCnt := mRootLockedCnt s + 1\<rparr>)
      else fail Blocked)"

definition TryUnlockRootPageId :: "bool \<Rightarrow> unit op" where
  "TryUnlockRootPageId exclusive s =
     ok ((), if mRootLockedCnt s > 0 then
               (let (m, e) = (if exclusive then rw_WUnlock (mMutex s) else rw_RUnlock (mMutex s)) in
                s\<lparr>mMutex := m, mRootLockedCnt := mRootLockedCnt s - 1\<rparr>)
             else s)"

section \<open>The transaction of a call\<close>

definition t_AddIntoPageSet :: "nat \<Rightarrow> unit op" where
  "t_AddIntoPageSet ptr s =
     (case transaction s of None \<Rightarrow> fail Null_Deref
      | Some t \<Rightarrow> ok ((), s\<lparr>transaction := Some (txn_AddIntoPageSet t ptr)\<rparr>))"

definition t_AddIntoDeletedPageSet :: "int \<Rightarrow> unit op" where
  "t_AddIntoDeletedPageSet pid s =
     (case transaction s of None \<Rightarrow> fail Null_Deref
      | Some t \<Rightarrow> ok ((), s\<lparr>transaction := Some (txn_AddIntoDeletedPageSet t pid)\<rparr>))"

text \<open>The loop of \<^verbatim>\<open>FreePagesInTransaction\<close> over the page set of the transaction.\<close>

fun free_pages :: "bpt_env \<Rightarrow> bool \<Rightarrow> nat list \<Rightarrow> unit op" where
  "free_pages E exclusive [] = retS ()"
| "free_pages E exclusive (ptr # ptrs) =
     bindS (\<lambda>s. liftS (bp_page (bpm s) ptr) s) (\<lambda>pg.
     let cur_pid = page_id pg in
     bindS (t_Unlock exclusive ptr) (\<lambda>_.
     bindS (t_UnpinPage E cur_pid exclusive) (\<lambda>_.
     bindS (getS transaction) (\<lambda>tx.
     case tx of None \<Rightarrow> liftS (fail Null_Deref) | Some t \<Rightarrow>
       bindS (if cur_pid \<in> deleted_page_set t then
                bindS (t_DeletePage E cur_pid) (\<lambda>_.
                modS (\<lambda>s. s\<lparr>transaction := Some (t\<lparr>deleted_page_set := deleted_page_set t - {cur_pid}\<rparr>)\<rparr>))
              else retS ()) (\<lambda>_.
       free_pages E exclusive ptrs)))))"

definition FreePagesInTransaction :: "bpt_env \<Rightarrow> bool \<Rightarrow> int \<Rightarrow> unit op" where
  "FreePagesInTransaction E exclusive cur =
     bindS (TryUnlockRootPageId exclusive) (\<lambda>_.
     bindS (getS transaction) (\<lambda>tx. case tx of
       None \<Rightarrow>
         bindS (assertS (\<not> exclusive \<and> cur \<ge> 0)) (\<lambda>_.
         bindS (t_UnlockPage E False cur) (\<lambda>_.
         bindS (t_UnpinPage E cur False) (\<lambda>_. retS ())))
     | Some t \<Rightarrow>
         bindS (free_pages E exclusive (page_set t)) (\<lambda>_.
         bindS (getS transaction) (\<lambda>tx1. case tx1 of None \<Rightarrow> liftS (fail Null_Deref) | Some t1 \<Rightarrow>
         bindS (assertS (deleted_page_set t1 = {})) (\<lambda>_.
           modS (\<lambda>s. s\<lparr>transaction := Some (t1\<lparr>page_set := []\<rparr>)\<rparr>))))))"

section \<open>Search\<close>

definition IsEmpty :: "bool op" where
  "IsEmpty = getS (\<lambda>s. root_page_id s = INVALID_PAGE_ID)"

definition CrabingProtocalFetchPage :: "bpt_env \<Rightarrow> int \<Rightarrow> OperationType \<Rightarrow> int \<Rightarrow> nat op" where
  "CrabingProtocalFetchPage E pid opr previous =
     (let exclusive = (opr \<noteq> OpRead) in
      bindS (t_FetchPage E pid) (\<lambda>ptr.
      bindS (t_Lock exclusive ptr) (\<lambda>_.
      bindS (t_node ptr) (\<lambda>tree_page.
      bindS (if previous > 0 then (if \<not> exclusive then retS True else liftS (isSafe tree_page opr)) else retS False)
        (\<lambda>free.
      bindS (if free then FreePagesInTransaction E exclusive previous else retS ()) (\<lambda>_.
      bindS (getS transaction) (\<lambda>tx.
      bindS (if tx \<noteq> None then t_AddIntoPageSet ptr else retS ()) (\<lambda>_.
        retS ptr))))))))"

text \<open>
  The descent from the page behind \<^verbatim>\<open>ptr\<close>, which has the number \<^verbatim>\<open>cur\<close>. In a corrupted file the links
  need not lead to a leaf: the fuel bounds the number of pages visited.
\<close>

fun find_leaf :: "bpt_env \<Rightarrow> byte list \<Rightarrow> bool \<Rightarrow> OperationType \<Rightarrow> nat \<Rightarrow> nat \<Rightarrow> int \<Rightarrow> nat op" where
  "find_leaf E key leftMost opr 0 ptr cur = liftS (fail Out_Of_Fuel)"
| "find_leaf E key leftMost opr (Suc fuel) ptr cur =
     bindS (t_node ptr) (\<lambda>p.
     if IsLeafPage p then retS ptr
     else
       bindS (t_internal E ptr) (\<lambda>ip.
       bindS (liftS (if leftMost then internal_ValueAt ip 0 else internal_Lookup (comparator E) ip key)) (\<lambda>nxt.
       bindS (CrabingProtocalFetchPage E nxt opr cur) (\<lambda>ptr'.
         find_leaf E key leftMost opr fuel ptr' nxt))))"

definition FindLeafPage :: "bpt_env \<Rightarrow> nat \<Rightarrow> byte list \<Rightarrow> bool \<Rightarrow> OperationType \<Rightarrow> nat op" where
  "FindLeafPage E fuel key leftMost opr =
     (let exclusive = (opr \<noteq> OpRead) in
      bindS (LockRootPageId exclusive) (\<lambda>_.
      bindS IsEmpty (\<lambda>empty.
      if empty then bindS (TryUnlockRootPageId exclusive) (\<lambda>_. retS 0)
      else
        bindS (getS root_page_id) (\<lambda>root.
        bindS (CrabingProtocalFetchPage E root opr (- 1)) (\<lambda>ptr.
          find_leaf E key leftMost opr fuel ptr root)))))"

text \<open>
  The outcome is the returned Boolean and the vector \<^verbatim>\<open>result\<close>, which \<^verbatim>\<open>resize(1)\<close> brings to one element, its
  first one or an invalid identifier, before \<^verbatim>\<open>Lookup\<close> overwrites that element if it finds the key.
\<close>

definition resize1 :: "RID list \<Rightarrow> RID list" where
  "resize1 result = (case result of [] \<Rightarrow> [rid_invalid] | x # xs \<Rightarrow> [x])"

definition GetValue :: "bpt_env \<Rightarrow> nat \<Rightarrow> byte list \<Rightarrow> RID list \<Rightarrow> (bool \<times> RID list) op" where
  "GetValue E fuel key result =
     bindS (FindLeafPage E fuel key False OpRead) (\<lambda>tar_page.
     if tar_page = 0 then retS (False, result)
     else
       bindS (t_leaf E tar_page) (\<lambda>p.
       bindS (liftS (leaf_Lookup (comparator E) p key)) (\<lambda>ret_val.
       bindS (FreePagesInTransaction E False (nd_id p)) (\<lambda>_.
         retS (ret_val \<noteq> None, case ret_val of Some v \<Rightarrow> [v] | None \<Rightarrow> resize1 result)))))"

section \<open>Insertion\<close>

abbreviation (input) HEADER_PAGE_ID :: int where
  "HEADER_PAGE_ID \<equiv> 0"

definition UpdateRootPageId :: "bpt_env \<Rightarrow> bool \<Rightarrow> unit op" where
  "UpdateRootPageId E insert_record =
     bindS (t_FetchPage E HEADER_PAGE_ID) (\<lambda>ptr.
     bindS (t_data ptr) (\<lambda>d.
     bindS (getS index_name) (\<lambda>name.
     bindS (getS root_page_id) (\<lambda>root.
     bindS (liftS (if insert_record then hp_InsertRecord d name root else hp_UpdateRecord d name root)) (\<lambda>(_, d').
     bindS (t_put ptr d') (\<lambda>_.
     bindS (t_UnpinPage E HEADER_PAGE_ID True) (\<lambda>_. retS ())))))))"

definition StartNewTree :: "bpt_env \<Rightarrow> byte list \<Rightarrow> RID \<Rightarrow> unit op" where
  "StartNewTree E key val =
     bindS (t_NewPage E) (\<lambda>(ptr, pid).
     case pid of None \<Rightarrow> liftS (fail Null_Deref) | Some i \<Rightarrow>
       bindS (t_leaf E ptr) (\<lambda>root.
       bindS (t_set_leaf ptr (leaf_Init (key_size E) i INVALID_PAGE_ID root)) (\<lambda>_.
       bindS (modS (\<lambda>s. s\<lparr>root_page_id := i\<rparr>)) (\<lambda>_.
       bindS (UpdateRootPageId E True) (\<lambda>_.
       bindS (t_leaf E ptr) (\<lambda>root1.
       bindS (liftS (leaf_Insert (comparator E) root1 key val)) (\<lambda>(root2, _).
       bindS (t_set_leaf ptr root2) (\<lambda>_.
       bindS (t_UnpinPage E i True) (\<lambda>_. retS ())))))))))"

text \<open>
  The loop that \<^verbatim>\<open>MoveHalfTo\<close> and \<^verbatim>\<open>MoveAllTo\<close> of internal pages share: the entries of \<^verbatim>\<open>src\<close> from \<^verbatim>\<open>i\<close> on are
  copied to \<^verbatim>\<open>dst\<close> from \<^verbatim>\<open>j\<close> on, \<^verbatim>\<open>n\<close> of them, and their children get the parent \<^verbatim>\<open>recip\<close>.
\<close>

fun move_children :: "bpt_env \<Rightarrow> nat \<Rightarrow> nat \<Rightarrow> int \<Rightarrow> int \<Rightarrow> int \<Rightarrow> nat \<Rightarrow> unit op" where
  "move_children E src dst recip i j 0 = retS ()"
| "move_children E src dst recip i j (Suc n) =
     bindS (t_internal E src) (\<lambda>p.
     bindS (liftS (vec_at (nd_children p) i)) (\<lambda>x.
     bindS (t_internal E dst) (\<lambda>r.
     bindS (liftS (vec_set (nd_children r) j x)) (\<lambda>a.
     bindS (t_set_internal dst (r\<lparr>nd_children := a\<rparr>)) (\<lambda>_.
     bindS (t_FetchPage E (snd x)) (\<lambda>child.
     bindS (t_SetParentPageId child recip) (\<lambda>_.
     bindS (t_UnpinPage E (snd x) True) (\<lambda>_.
       move_children E src dst recip (i + 1) (j + 1) n))))))))"

definition internal_MoveHalfTo :: "bpt_env \<Rightarrow> nat \<Rightarrow> nat \<Rightarrow> unit op" where
  "internal_MoveHalfTo E node recipient =
     bindS (assertS (recipient \<noteq> 0)) (\<lambda>_.
     bindS (t_internal E node) (\<lambda>p.
     let total = nd_max p + 1; mid_index = total div 2 in
     bindS (assertS (nd_size p = total)) (\<lambda>_.
     bindS (t_node recipient) (\<lambda>r.
     bindS (move_children E node recipient (nd_id r) mid_index 0 (nat (total - mid_index))) (\<lambda>_.
     bindS (t_node node) (\<lambda>p1.
     bindS (t_set_node node (SetSize p1 mid_index)) (\<lambda>_.
     bindS (t_node recipient) (\<lambda>r1.
       t_set_node recipient (SetSize r1 (total - mid_index))))))))))"

text \<open>
  The template parameter \<^verbatim>\<open>N\<close> of \<^verbatim>\<open>Split\<close> and of the operations of removal is a flag: true for leaves.
\<close>

definition Split :: "bpt_env \<Rightarrow> bool \<Rightarrow> nat \<Rightarrow> nat op" where
  "Split E is_leaf node =
     bindS (t_NewPage E) (\<lambda>(ptr, pid).
     case pid of None \<Rightarrow> liftS (fail Null_Deref) | Some i \<Rightarrow>
       bindS (t_Lock True ptr) (\<lambda>_.
       bindS (t_AddIntoPageSet ptr) (\<lambda>_.
       bindS (t_node node) (\<lambda>old.
       bindS (if is_leaf then
                bindS (t_leaf E ptr) (\<lambda>q.
                bindS (t_set_leaf ptr (leaf_Init (key_size E) i (nd_parent old) q)) (\<lambda>_.
                bindS (t_leaf E node) (\<lambda>p.
                bindS (t_leaf E ptr) (\<lambda>q1.
                bindS (liftS (leaf_MoveHalfTo p q1)) (\<lambda>(p', q').
                bindS (t_set_leaf node p') (\<lambda>_. t_set_leaf ptr q'))))))
              else
                bindS (t_internal E ptr) (\<lambda>q.
                bindS (t_set_internal ptr (internal_Init (key_size E) i (nd_parent old) q)) (\<lambda>_.
                  internal_MoveHalfTo E node ptr))) (\<lambda>_.
         retS ptr)))))"

text \<open>The recursion goes one level up the tree each time; the fuel bounds its height.\<close>

fun InsertIntoParent :: "bpt_env \<Rightarrow> nat \<Rightarrow> nat \<Rightarrow> byte list \<Rightarrow> nat \<Rightarrow> unit op" where
  "InsertIntoParent E 0 old_node key new_node = liftS (fail Out_Of_Fuel)"
| "InsertIntoParent E (Suc fuel) old_node key new_node =
     bindS (getS transaction) (\<lambda>tx.
     bindS (assertS (old_node \<noteq> 0 \<and> new_node \<noteq> 0 \<and> tx \<noteq> None)) (\<lambda>_.
     bindS (t_node old_node) (\<lambda>old.
     if IsRootPage old then
       bindS (t_NewPage E) (\<lambda>(ptr, pid).
       case pid of None \<Rightarrow> liftS (fail Null_Deref) | Some root \<Rightarrow>
         bindS (modS (\<lambda>s. s\<lparr>root_page_id := root\<rparr>)) (\<lambda>_.
         bindS (t_internal E ptr) (\<lambda>r.
         bindS (t_set_internal ptr (internal_Init (key_size E) root INVALID_PAGE_ID r)) (\<lambda>_.
         bindS (t_internal E ptr) (\<lambda>r1.
         bindS (t_node new_node) (\<lambda>nw.
         bindS (liftS (internal_PopulateNewRoot r1 (nd_id old) key (nd_id nw))) (\<lambda>r2.
         bindS (t_set_internal ptr r2) (\<lambda>_.
         bindS (t_SetParentPageId old_node root) (\<lambda>_.
         bindS (t_SetParentPageId new_node root) (\<lambda>_.
         bindS (UpdateRootPageId E False) (\<lambda>_.
         bindS (t_node ptr) (\<lambda>r3.
         bindS (t_UnpinPage E (nd_id r3) True) (\<lambda>_. retS ())))))))))))))
     else
       (let par_id = nd_parent old in
        bindS (t_FetchPage E par_id) (\<lambda>parent.
        bindS (t_data parent) (\<lambda>_.
        bindS (t_SetParentPageId new_node par_id) (\<lambda>_.
        bindS (t_internal E parent) (\<lambda>p.
        bindS (t_node new_node) (\<lambda>nw.
        bindS (liftS (internal_InsertNodeAfter p (nd_id old) key (nd_id nw))) (\<lambda>(p1, _).
        bindS (t_set_internal parent p1) (\<lambda>_.
        bindS (if nd_size p1 > nd_max p1 then
                 bindS (Split E False parent) (\<lambda>ptr.
                 bindS (t_internal E ptr) (\<lambda>q.
                 bindS (liftS (internal_KeyAt q 0)) (\<lambda>k.
                   InsertIntoParent E fuel parent k ptr)))
               else retS ()) (\<lambda>_.
        bindS (t_UnpinPage E par_id True) (\<lambda>_. retS ())))))))))))))"

definition InsertIntoLeaf :: "bpt_env \<Rightarrow> nat \<Rightarrow> byte list \<Rightarrow> RID \<Rightarrow> bool op" where
  "InsertIntoLeaf E fuel key val =
     bindS (FindLeafPage E fuel key False OpInsert) (\<lambda>leaf_page.
     bindS (t_leaf E leaf_page) (\<lambda>p.
     bindS (liftS (leaf_Lookup (comparator E) p key)) (\<lambda>v.
     if v \<noteq> None then
       bindS (FreePagesInTransaction E True (- 1)) (\<lambda>_. retS False)
     else
       bindS (liftS (leaf_Insert (comparator E) p key val)) (\<lambda>(p1, _).
       bindS (t_set_leaf leaf_page p1) (\<lambda>_.
       bindS (if nd_size p1 > nd_max p1 then
                bindS (Split E True leaf_page) (\<lambda>ptr.
                bindS (t_leaf E ptr) (\<lambda>q.
                bindS (liftS (leaf_KeyAt q 0)) (\<lambda>k.
                  InsertIntoParent E fuel leaf_page k ptr)))
              else retS ()) (\<lambda>_.
       bindS (FreePagesInTransaction E True (- 1)) (\<lambda>_. retS True)))))))"

definition Insert :: "bpt_env \<Rightarrow> nat \<Rightarrow> byte list \<Rightarrow> RID \<Rightarrow> bool op" where
  "Insert E fuel key val =
     bindS (LockRootPageId True) (\<lambda>_.
     bindS IsEmpty (\<lambda>empty.
     if empty then
       bindS (StartNewTree E key val) (\<lambda>_.
       bindS (TryUnlockRootPageId True) (\<lambda>_. retS True))
     else
       bindS (TryUnlockRootPageId True) (\<lambda>_. InsertIntoLeaf E fuel key val)))"

section \<open>Moving entries between siblings\<close>

definition leaf_MoveFirstToEndOf :: "bpt_env \<Rightarrow> nat \<Rightarrow> nat \<Rightarrow> unit op" where
  "leaf_MoveFirstToEndOf E node recipient =
     bindS (t_leaf E node) (\<lambda>p.
     bindS (liftS (leaf_GetItem p 0)) (\<lambda>item.
     let p1 = IncreaseSize p (- 1) in
     bindS (liftS (move_entries (nd_array p1) 0 1 (nd_size p1))) (\<lambda>a.
     bindS (t_set_leaf node (p1\<lparr>nd_array := a\<rparr>)) (\<lambda>_.
     bindS (t_leaf E recipient) (\<lambda>r.
     bindS (liftS (leaf_CopyLastFrom r item)) (\<lambda>r1.
     bindS (t_set_leaf recipient r1) (\<lambda>_.
     bindS (t_FetchPage E (nd_parent p)) (\<lambda>par.
     bindS (t_internal E par) (\<lambda>q.
     bindS (liftS (internal_ValueIndex q (nd_id p))) (\<lambda>i.
     bindS (t_leaf E node) (\<lambda>p2.
     bindS (liftS (vec_at (nd_array p2) 0)) (\<lambda>x.
     bindS (liftS (internal_SetKeyAt q i (fst x))) (\<lambda>q1.
     bindS (t_set_internal par q1) (\<lambda>_.
     bindS (t_UnpinPage E (nd_parent p) True) (\<lambda>_. retS ())))))))))))))))"

definition leaf_CopyFirstFrom :: "bpt_env \<Rightarrow> nat \<Rightarrow> byte list \<times> RID \<Rightarrow> int \<Rightarrow> unit op" where
  "leaf_CopyFirstFrom E node item parentIndex =
     bindS (t_leaf E node) (\<lambda>p.
     bindS (liftS (move_entries (nd_array p) 1 0 (nd_size p))) (\<lambda>a.
     bindS (liftS (vec_set a 0 item)) (\<lambda>a1.
     bindS (t_set_leaf node (IncreaseSize (p\<lparr>nd_array := a1\<rparr>) 1)) (\<lambda>_.
     bindS (t_FetchPage E (nd_parent p)) (\<lambda>par.
     bindS (t_internal E par) (\<lambda>q.
     bindS (liftS (internal_SetKeyAt q parentIndex (fst item))) (\<lambda>q1.
     bindS (t_set_internal par q1) (\<lambda>_.
     bindS (t_UnpinPage E (nd_parent p) True) (\<lambda>_. retS ())))))))))"

definition leaf_MoveLastToFrontOf :: "bpt_env \<Rightarrow> nat \<Rightarrow> nat \<Rightarrow> int \<Rightarrow> unit op" where
  "leaf_MoveLastToFrontOf E node recipient parentIndex =
     bindS (t_leaf E node) (\<lambda>p.
     bindS (liftS (leaf_GetItem p (nd_size p - 1))) (\<lambda>item.
     bindS (t_set_leaf node (IncreaseSize p (- 1))) (\<lambda>_.
       leaf_CopyFirstFrom E recipient item parentIndex)))"

definition internal_MoveAllTo :: "bpt_env \<Rightarrow> nat \<Rightarrow> nat \<Rightarrow> int \<Rightarrow> unit op" where
  "internal_MoveAllTo E node recipient index_in_parent =
     bindS (t_node recipient) (\<lambda>r.
     let start = nd_size r; recip_pageid = nd_id r in
     bindS (t_node node) (\<lambda>p.
     bindS (t_FetchPage E (nd_parent p)) (\<lambda>par.
     bindS (assertS (par \<noteq> 0)) (\<lambda>_.
     bindS (t_internal E par) (\<lambda>q.
     bindS (liftS (internal_KeyAt q index_in_parent)) (\<lambda>k.
     bindS (t_internal E node) (\<lambda>ip.
     bindS (liftS (internal_SetKeyAt ip 0 k)) (\<lambda>ip1.
     bindS (t_set_internal node ip1) (\<lambda>_.
     bindS (t_UnpinPage E (nd_id q) False) (\<lambda>_.
     bindS (move_children E node recipient recip_pageid 0 start (nat (nd_size p))) (\<lambda>_.
     bindS (t_node recipient) (\<lambda>r1.
     bindS (t_set_node recipient (SetSize r1 (start + nd_size p))) (\<lambda>_.
     bindS (assertS (start + nd_size p \<le> nd_max p)) (\<lambda>_.
     bindS (t_node node) (\<lambda>p1.
       t_set_node node (SetSize p1 0))))))))))))))))"

text \<open>
  The child of a moved entry gets a new parent. It is unpinned under the number it carries in its
  own header.
\<close>

definition adopt_child :: "bpt_env \<Rightarrow> int \<Rightarrow> nat \<Rightarrow> unit op" where
  "adopt_child E child_id recipient =
     bindS (t_FetchPage E child_id) (\<lambda>child.
     bindS (assertS (child \<noteq> 0)) (\<lambda>_.
     bindS (t_node recipient) (\<lambda>r.
     bindS (t_SetParentPageId child (nd_id r)) (\<lambda>_.
     bindS (t_node child) (\<lambda>c.
     bindS (t_node recipient) (\<lambda>r1.
     bindS (assertS (nd_parent c = nd_id r1)) (\<lambda>_.
     bindS (t_UnpinPage E (nd_id c) True) (\<lambda>_. retS ()))))))))"

definition internal_MoveFirstToEndOf :: "bpt_env \<Rightarrow> nat \<Rightarrow> nat \<Rightarrow> unit op" where
  "internal_MoveFirstToEndOf E node recipient =
     bindS (t_internal E node) (\<lambda>p.
     bindS (liftS (vec_at (nd_children p) 0)) (\<lambda>pair.
     let p1 = IncreaseSize p (- 1) in
     bindS (liftS (move_entries (nd_children p1) 0 1 (nd_size p1))) (\<lambda>a.
     bindS (t_set_internal node (p1\<lparr>nd_children := a\<rparr>)) (\<lambda>_.
     bindS (t_internal E recipient) (\<lambda>r.
     bindS (liftS (internal_CopyLastFrom r pair)) (\<lambda>r1.
     bindS (t_set_internal recipient r1) (\<lambda>_.
     bindS (adopt_child E (snd pair) recipient) (\<lambda>_.
     bindS (t_internal E node) (\<lambda>p2.
     bindS (t_FetchPage E (nd_parent p2)) (\<lambda>par.
     bindS (t_internal E par) (\<lambda>q.
     bindS (liftS (internal_ValueIndex q (nd_id p2))) (\<lambda>i.
     bindS (liftS (vec_at (nd_children p2) 0)) (\<lambda>x.
     bindS (liftS (internal_SetKeyAt q i (fst x))) (\<lambda>q1.
     bindS (t_set_internal par q1) (\<lambda>_.
     bindS (t_UnpinPage E (nd_parent p2) True) (\<lambda>_. retS ()))))))))))))))))"

definition internal_CopyFirstFrom :: "bpt_env \<Rightarrow> nat \<Rightarrow> byte list \<times> int \<Rightarrow> int \<Rightarrow> unit op" where
  "internal_CopyFirstFrom E node pair parent_index =
     bindS (t_internal E node) (\<lambda>p.
     bindS (assertS (nd_size p + 1 < nd_max p)) (\<lambda>_.
     bindS (liftS (move_entries (nd_children p) 1 0 (nd_size p))) (\<lambda>a.
     bindS (liftS (vec_set a 0 pair)) (\<lambda>a1.
     bindS (t_set_internal node (IncreaseSize (p\<lparr>nd_children := a1\<rparr>) 1)) (\<lambda>_.
     bindS (adopt_child E (snd pair) node) (\<lambda>_.
     bindS (t_internal E node) (\<lambda>p2.
     bindS (t_FetchPage E (nd_parent p2)) (\<lambda>par.
     bindS (t_internal E par) (\<lambda>q.
     bindS (liftS (vec_at (nd_children p2) 0)) (\<lambda>x.
     bindS (liftS (internal_SetKeyAt q parent_index (fst x))) (\<lambda>q1.
     bindS (t_set_internal par q1) (\<lambda>_.
     bindS (t_UnpinPage E (nd_parent p2) True) (\<lambda>_. retS ())))))))))))))"

definition internal_MoveLastToFrontOf :: "bpt_env \<Rightarrow> nat \<Rightarrow> nat \<Rightarrow> int \<Rightarrow> unit op" where
  "internal_MoveLastToFrontOf E node recipient parent_index =
     bindS (t_internal E node) (\<lambda>p.
     bindS (liftS (vec_at (nd_children p) (nd_size p - 1))) (\<lambda>pair.
     bindS (t_set_internal node (IncreaseSize p (- 1))) (\<lambda>_.
       internal_CopyFirstFrom E recipient pair parent_index)))"

section \<open>Removal\<close>

definition AdjustRoot :: "bpt_env \<Rightarrow> nat \<Rightarrow> bool op" where
  "AdjustRoot E old_root =
     bindS (t_node old_root) (\<lambda>p.
     if IsLeafPage p then
       bindS (modS (\<lambda>s. s\<lparr>root_page_id := INVALID_PAGE_ID\<rparr>)) (\<lambda>_.
       bindS (UpdateRootPageId E False) (\<lambda>_. retS True))
     else if nd_size p = 1 then
       bindS (t_internal E old_root) (\<lambda>ip.
       bindS (liftS (internal_RemoveAndReturnOnlyChild ip)) (\<lambda>(ip1, newRootId).
       bindS (t_set_internal old_root ip1) (\<lambda>_.
       bindS (modS (\<lambda>s. s\<lparr>root_page_id := newRootId\<rparr>)) (\<lambda>_.
       bindS (UpdateRootPageId E False) (\<lambda>_.
       bindS (t_FetchPage E newRootId) (\<lambda>ptr.
       bindS (assertS (ptr \<noteq> 0)) (\<lambda>_.
       bindS (t_SetParentPageId ptr INVALID_PAGE_ID) (\<lambda>_.
       bindS (t_UnpinPage E newRootId True) (\<lambda>_. retS True)))))))))
     else retS False)"

text \<open>The sibling and whether it is the right one.\<close>

definition FindLeftSibling :: "bpt_env \<Rightarrow> nat \<Rightarrow> (bool \<times> nat) op" where
  "FindLeftSibling E node =
     bindS (t_node node) (\<lambda>p.
     bindS (t_FetchPage E (nd_parent p)) (\<lambda>par.
     bindS (t_internal E par) (\<lambda>parent.
     bindS (liftS (internal_ValueIndex parent (nd_id p))) (\<lambda>index.
     let siblingIndex = (if index = 0 then index + 1 else index - 1) in
     bindS (liftS (internal_ValueAt parent siblingIndex)) (\<lambda>sib.
     bindS (CrabingProtocalFetchPage E sib OpDelete (- 1)) (\<lambda>sibling.
     bindS (t_node par) (\<lambda>parent1.
     bindS (t_UnpinPage E (nd_id parent1) False) (\<lambda>_.
       retS (index = 0, sibling)))))))))"

definition MoveAllTo :: "bpt_env \<Rightarrow> bool \<Rightarrow> nat \<Rightarrow> nat \<Rightarrow> int \<Rightarrow> unit op" where
  "MoveAllTo E is_leaf node recipient index =
     (if is_leaf then
        bindS (t_leaf E node) (\<lambda>p.
        bindS (t_leaf E recipient) (\<lambda>r.
        bindS (liftS (leaf_MoveAllTo p r)) (\<lambda>(p1, r1).
        bindS (t_set_leaf node p1) (\<lambda>_. t_set_leaf recipient r1))))
      else internal_MoveAllTo E node recipient index)"

definition Redistribute :: "bpt_env \<Rightarrow> bool \<Rightarrow> nat \<Rightarrow> nat \<Rightarrow> int \<Rightarrow> unit op" where
  "Redistribute E is_leaf neighbor_node node index =
     (if index = 0 then
        (if is_leaf then leaf_MoveFirstToEndOf E neighbor_node node
         else internal_MoveFirstToEndOf E neighbor_node node)
      else
        (if is_leaf then leaf_MoveLastToFrontOf E neighbor_node node index
         else internal_MoveLastToFrontOf E neighbor_node node index))"

text \<open>\<^verbatim>\<open>rebalance\<close> is the recursive call for the parent.\<close>

definition Coalesce :: "bpt_env \<Rightarrow> (nat \<Rightarrow> bool op) \<Rightarrow> bool \<Rightarrow> nat \<Rightarrow> nat \<Rightarrow> nat \<Rightarrow> int \<Rightarrow> bool op" where
  "Coalesce E rebalance is_leaf neighbor_node node parent index =
     bindS (MoveAllTo E is_leaf node neighbor_node index) (\<lambda>_.
     bindS (t_node node) (\<lambda>p.
     bindS (t_AddIntoDeletedPageSet (nd_id p)) (\<lambda>_.
     bindS (t_internal E parent) (\<lambda>q.
     bindS (liftS (internal_Remove q index)) (\<lambda>q1.
     bindS (t_set_internal parent q1) (\<lambda>_.
       if nd_size q1 \<le> GetMinSize q1 then rebalance parent else retS False))))))"

fun CoalesceOrRedistribute :: "bpt_env \<Rightarrow> nat \<Rightarrow> bool \<Rightarrow> nat \<Rightarrow> bool op" where
  "CoalesceOrRedistribute E 0 is_leaf node = liftS (fail Out_Of_Fuel)"
| "CoalesceOrRedistribute E (Suc fuel) is_leaf node =
     bindS (t_node node) (\<lambda>p.
     if IsRootPage p then
       bindS (AdjustRoot E node) (\<lambda>delOldRoot.
       bindS (if delOldRoot then bindS (t_node node) (\<lambda>p1. t_AddIntoDeletedPageSet (nd_id p1)) else retS ()) (\<lambda>_.
         retS delOldRoot))
     else
       bindS (FindLeftSibling E node) (\<lambda>(is_r_sibling, nearNode).
       bindS (t_FetchPage E (nd_parent p)) (\<lambda>parent.
       bindS (t_node nearNode) (\<lambda>near.
       if nd_size p + nd_size near \<le> nd_max p then
         (let (node1, near1) = (if is_r_sibling then (nearNode, node) else (node, nearNode)) in
          bindS (t_internal E parent) (\<lambda>q.
          bindS (t_node node1) (\<lambda>p1.
          bindS (liftS (internal_ValueIndex q (nd_id p1))) (\<lambda>remove_index.
          bindS (Coalesce E (CoalesceOrRedistribute E fuel False) is_leaf near1 node1 parent remove_index) (\<lambda>_.
          bindS (t_node parent) (\<lambda>q1.
          bindS (t_UnpinPage E (nd_id q1) True) (\<lambda>_. retS True)))))))
       else
         bindS (t_internal E parent) (\<lambda>q.
         bindS (liftS (internal_ValueIndex q (nd_id p))) (\<lambda>index_in_parent.
         bindS (Redistribute E is_leaf nearNode node index_in_parent) (\<lambda>_.
         bindS (t_node parent) (\<lambda>q1.
         bindS (t_UnpinPage E (nd_id q1) False) (\<lambda>_. retS False)))))))))"

definition Remove :: "bpt_env \<Rightarrow> nat \<Rightarrow> byte list \<Rightarrow> unit op" where
  "Remove E fuel key =
     bindS IsEmpty (\<lambda>empty.
     if empty then retS ()
     else
       bindS (FindLeafPage E fuel key False OpDelete) (\<lambda>tar.
       bindS (t_leaf E tar) (\<lambda>p.
       bindS (liftS (leaf_RemoveAndDeleteRecord (comparator E) p key)) (\<lambda>(p1, cur_size).
       bindS (t_set_leaf tar p1) (\<lambda>_.
       bindS (if cur_size < GetMinSize p1 then bindS (CoalesceOrRedistribute E fuel True tar) (\<lambda>_. retS ())
              else retS ()) (\<lambda>_.
         FreePagesInTransaction E True (- 1)))))))"

section \<open>Iterators\<close>

record IndexIterator =
  mIndex :: int
  mLeafPage :: nat

text \<open>\<^verbatim>\<open>Begin\<close> calls \<^verbatim>\<open>FindLeafPage\<close> without a transaction.\<close>

definition no_transaction :: "'a op \<Rightarrow> 'a op" where
  "no_transaction m s =
     bindE (m (s\<lparr>transaction := None\<rparr>)) (\<lambda>(x, s1). ok (x, s1\<lparr>transaction := transaction s\<rparr>))"

definition bpt_Begin :: "bpt_env \<Rightarrow> nat \<Rightarrow> IndexIterator op" where
  "bpt_Begin E fuel =
     bindS (no_transaction (FindLeafPage E fuel (replicate (key_size E) 0) True OpRead)) (\<lambda>start_leaf.
     bindS (TryUnlockRootPageId False) (\<lambda>_.
       retS \<lparr>mIndex = 0, mLeafPage = start_leaf\<rparr>))"

definition bpt_Begin_key :: "bpt_env \<Rightarrow> nat \<Rightarrow> byte list \<Rightarrow> IndexIterator op" where
  "bpt_Begin_key E fuel key =
     bindS (no_transaction (FindLeafPage E fuel key False OpRead)) (\<lambda>start_leaf.
     bindS (TryUnlockRootPageId False) (\<lambda>_.
     if start_leaf = 0 then retS \<lparr>mIndex = 0, mLeafPage = start_leaf\<rparr>
     else
       bindS (t_leaf E start_leaf) (\<lambda>p.
       bindS (liftS (leaf_KeyIndex (comparator E) p key)) (\<lambda>idx.
         retS \<lparr>mIndex = idx, mLeafPage = start_leaf\<rparr>))))"

definition ii_UnlockAndUnPin :: "bpt_env \<Rightarrow> IndexIterator \<Rightarrow> unit op" where
  "ii_UnlockAndUnPin E it =
     bindS (t_node (mLeafPage it)) (\<lambda>p.
     bindS (t_FetchPage E (nd_id p)) (\<lambda>ptr.
     bindS (t_Unlock False ptr) (\<lambda>_.
     bindS (t_UnpinPage E (nd_id p) False) (\<lambda>_.
     bindS (t_UnpinPage E (nd_id p) False) (\<lambda>_. retS ())))))"

definition ii_delete :: "bpt_env \<Rightarrow> IndexIterator \<Rightarrow> unit op" where
  "ii_delete E it = (if mLeafPage it \<noteq> 0 then ii_UnlockAndUnPin E it else retS ())"

definition ii_isEnd :: "IndexIterator \<Rightarrow> bool" where
  "ii_isEnd it \<longleftrightarrow> mLeafPage it = 0"

definition ii_deref :: "bpt_env \<Rightarrow> IndexIterator \<Rightarrow> (byte list \<times> RID) op" where
  "ii_deref E it = bindS (t_leaf E (mLeafPage it)) (\<lambda>p. liftS (leaf_GetItem p (mIndex it)))"

definition ii_next :: "bpt_env \<Rightarrow> IndexIterator \<Rightarrow> IndexIterator op" where
  "ii_next E it =
     (let it1 = it\<lparr>mIndex := mIndex it + 1\<rparr> in
      bindS (t_leaf E (mLeafPage it1)) (\<lambda>p.
      if mIndex it1 \<ge> nd_size p then
        (let nxt = nd_next p in
         bindS (ii_UnlockAndUnPin E it1) (\<lambda>_.
         if nxt = INVALID_PAGE_ID then retS (it1\<lparr>mLeafPage := 0\<rparr>)
         else
           bindS (t_FetchPage E nxt) (\<lambda>ptr.
           bindS (t_Lock False ptr) (\<lambda>_.
             retS \<lparr>mIndex = 0, mLeafPage = ptr\<rparr>))))
      else retS it1))"

section \<open>Integrity check\<close>

text \<open>The loop over the children; \<^verbatim>\<open>below\<close> is the recursive call.\<close>

fun balanced_loop :: "bpt_env \<Rightarrow> (int \<Rightarrow> int op) \<Rightarrow> nat \<Rightarrow> int \<Rightarrow> nat \<Rightarrow> int \<Rightarrow> int \<Rightarrow> int op" where
  "balanced_loop E below ptr i 0 lst ret = retS ret"
| "balanced_loop E below ptr i (Suc n) lst ret =
     bindS (t_internal E ptr) (\<lambda>p.
     bindS (liftS (internal_ValueAt p i)) (\<lambda>child.
     bindS (below child) (\<lambda>cur.
     if cur \<ge> 0 \<and> lst = - 2 then balanced_loop E below ptr (i + 1) n cur (cur + 1)
     else if lst \<noteq> cur then retS (- 1)
     else balanced_loop E below ptr (i + 1) n lst ret)))"

fun isBalanced :: "bpt_env \<Rightarrow> nat \<Rightarrow> int \<Rightarrow> int op" where
  "isBalanced E 0 pid = liftS (fail Out_Of_Fuel)"
| "isBalanced E (Suc fuel) pid =
     bindS IsEmpty (\<lambda>empty.
     if empty then retS 1
     else
       bindS (t_FetchPage E pid) (\<lambda>ptr.
       bindS (t_node ptr) (\<lambda>node.
       bindS (if \<not> IsLeafPage node
              then balanced_loop E (isBalanced E fuel) ptr 0 (nat (nd_size node)) (- 2) 0
              else retS 0) (\<lambda>ret.
       bindS (t_UnpinPage E pid False) (\<lambda>_. retS ret)))))"

fun leaf_sorted :: "bpt_env \<Rightarrow> leaf_node \<Rightarrow> int \<Rightarrow> nat \<Rightarrow> bool res" where
  "leaf_sorted E p i 0 = ok True"
| "leaf_sorted E p i (Suc n) =
     bindE (leaf_KeyAt p (i - 1)) (\<lambda>a.
     bindE (leaf_KeyAt p i) (\<lambda>b.
     bindE (comparator E a b) (\<lambda>c.
     if c > 0 then ok False else leaf_sorted E p (i + 1) n)))"

text \<open>
  The loop over the children of an internal page; \<^verbatim>\<open>below\<close> is the recursive call, which takes and
  returns the pair \<^verbatim>\<open>out\<close>. Each conjunct is evaluated only if the ones before it hold.
\<close>

type_synonym key_pair = "byte list \<times> byte list"

fun corr_loop ::
  "bpt_env \<Rightarrow> (int \<Rightarrow> key_pair \<Rightarrow> (bool \<times> key_pair) op) \<Rightarrow> internal_node \<Rightarrow> int \<Rightarrow> nat \<Rightarrow>
     key_pair \<Rightarrow> key_pair \<Rightarrow> bool \<Rightarrow> bool op" where
  "corr_loop E below p i 0 left right ret = retS ret"
| "corr_loop E below p i (Suc n) left right ret =
     bindS (if i = 1 \<and> ret then bindS (liftS (internal_ValueAt p 0)) (\<lambda>c. below c left)
            else retS (ret, left)) (\<lambda>(r0, left1).
     bindS (if r0 then bindS (liftS (internal_ValueAt p i)) (\<lambda>c. below c right)
            else retS (r0, right)) (\<lambda>(r1, right1).
     bindS (liftS (if r1 then
                     bindE (internal_KeyAt p i) (\<lambda>k.
                     bindE (comparator E k (snd left1)) (\<lambda>c1.
                     if c1 > 0 then bindE (comparator E k (fst right1)) (\<lambda>c2. ok (c2 \<le> 0)) else ok False))
                   else ok False)) (\<lambda>r2.
     bindS (liftS (if r2 then
                     (if i = 1 then ok True
                      else
                        bindE (internal_KeyAt p (i - 1)) (\<lambda>a.
                        bindE (internal_KeyAt p i) (\<lambda>b.
                        bindE (comparator E a b) (\<lambda>c. ok (c < 0)))))
                   else ok False)) (\<lambda>r3.
     if \<not> r3 then retS False else corr_loop E below p (i + 1) n right1 right1 r3))))"

fun isPageCorr :: "bpt_env \<Rightarrow> nat \<Rightarrow> int \<Rightarrow> key_pair \<Rightarrow> (bool \<times> key_pair) op" where
  "isPageCorr E 0 pid out = liftS (fail Out_Of_Fuel)"
| "isPageCorr E (Suc fuel) pid out =
     bindS IsEmpty (\<lambda>empty.
     if empty then retS (True, out)
     else
       bindS (t_FetchPage E pid) (\<lambda>ptr.
       if ptr = 0 then liftS (fail (Thrown EXCEPTION_TYPE_INDEX ''all page are pinned while isPageCorr''))
       else
         bindS (t_node ptr) (\<lambda>node.
         let sz = nd_size node; fits = (sz \<ge> GetMinSize node \<and> sz \<le> nd_max node) in
         bindS (if IsLeafPage node then
                  bindS (t_leaf E ptr) (\<lambda>p.
                  bindS (liftS (leaf_sorted E p 1 (nat (sz - 1)))) (\<lambda>sorted.
                  bindS (liftS (leaf_KeyAt p 0)) (\<lambda>a.
                  bindS (liftS (leaf_KeyAt p (sz - 1))) (\<lambda>b.
                    retS (fits \<and> sorted, (a, b))))))
                else
                  bindS (t_internal E ptr) (\<lambda>p.
                  let zero = (replicate (key_size E) 0, replicate (key_size E) 0) in
                  bindS (corr_loop E (isPageCorr E fuel) p 1 (nat (sz - 1)) zero zero fits) (\<lambda>ret.
                  bindS (liftS (internal_KeyAt p 0)) (\<lambda>a.
                  bindS (liftS (internal_KeyAt p (sz - 1))) (\<lambda>b.
                    retS (ret, (a, b))))))) (\<lambda>r.
         bindS (t_UnpinPage E pid False) (\<lambda>_. retS r)))))"

definition Check :: "bpt_env \<Rightarrow> nat \<Rightarrow> bool \<Rightarrow> bool \<Rightarrow> bool op" where
  "Check E fuel openCheck forceCheck =
     (if \<not> forceCheck \<and> \<not> openCheck then retS True
      else
        (let zero = (replicate (key_size E) 0, replicate (key_size E) 0) in
         bindS (getS root_page_id) (\<lambda>root.
         bindS (isPageCorr E fuel root zero) (\<lambda>(corr, _).
         bindS (isBalanced E fuel root) (\<lambda>bal.
         bindS (getS (\<lambda>s. bp_CheckAllUnpined (bpm s))) (\<lambda>unpinned.
           retS (corr \<and> bal \<ge> 0 \<and> unpinned)))))))"

end
