(* ===== verification/Pool_Pins.thy ===== *)
theory Pool_Pins
  imports Buffer_Pool
begin

text \<open>
  The buffer pool as the index uses it: several pages are pinned at a time, some more than once, and a
  page may be changed long before it is unpinned as dirty. A state is described by the pins of every
  page and by the set of pages that are changed but not yet marked; the interface \<^verbatim>\<open>pinned_cache\<close> says
  what each call does to this description and to the contents.
\<close>

section \<open>The interface\<close>

text \<open>
  \<open>pool P X s\<close>: a well-formed pool in which page \<open>q\<close> has \<open>P q\<close> pins and only the pages of \<open>X\<close> may differ
  from what an eviction would keep. \<open>at s q t\<close>: page \<open>q\<close> is in frame \<open>t\<close>. \<open>frames s\<close> is the number of frames
  and \<open>upcoming s\<close> the number the next new page gets.
\<close>

locale pinned_cache =
  fixes fetch :: "int \<Rightarrow> 's \<Rightarrow> (nat \<times> 's) res"
    and unpin :: "int \<Rightarrow> bool \<Rightarrow> 's \<Rightarrow> (bool \<times> 's) res"
    and new :: "'s \<Rightarrow> (nat \<times> int option \<times> 's) res"
    and peek :: "'s \<Rightarrow> nat \<Rightarrow> byte list"
    and poke :: "nat \<Rightarrow> byte list \<Rightarrow> 's \<Rightarrow> 's"
    and pool :: "(int \<Rightarrow> int) \<Rightarrow> int set \<Rightarrow> 's \<Rightarrow> bool"
    and at :: "'s \<Rightarrow> int \<Rightarrow> nat \<Rightarrow> bool"
    and frames :: "'s \<Rightarrow> nat"
    and view :: "'s \<Rightarrow> int \<Rightarrow> byte list option"
    and upcoming :: "'s \<Rightarrow> int"
  assumes fetch_law: "pool P X s \<Longrightarrow> pid_ok pid \<Longrightarrow> view s pid = Some d \<Longrightarrow>
      0 < P pid \<or> card {q. 0 < P q} < frames s \<Longrightarrow>
      \<exists>t s'. fetch pid s = Inr (t, s') \<and> t \<noteq> 0 \<and> pool (P(pid := P pid + 1)) X s' \<and> at s' pid t \<and> peek s' t = d \<and>
        (\<forall>q x. view s q = Some x \<longrightarrow> view s' q = Some x) \<and> (\<forall>q u. 0 < P q \<longrightarrow> at s q u \<longrightarrow> at s' q u) \<and>
        (\<forall>q u. at s' q u \<longrightarrow> q \<noteq> pid \<longrightarrow> at s q u) \<and> upcoming s' = upcoming s \<and> frames s' = frames s"
    and unpin_law: "pool P X s \<Longrightarrow> 0 < P pid \<Longrightarrow> dirty \<or> pid \<notin> X \<or> 1 < P pid \<Longrightarrow>
      \<exists>s'. unpin pid dirty s = Inr (True, s') \<and> pool (P(pid := P pid - 1)) (if dirty then X - {pid} else X) s' \<and>
        view s' = view s \<and> at s' = at s \<and> upcoming s' = upcoming s \<and> frames s' = frames s"
    and poke_law: "pool P X s \<Longrightarrow> 0 < P pid \<Longrightarrow> at s pid t \<Longrightarrow> length d = PAGE_SIZE \<Longrightarrow>
      pool P (insert pid X) (poke t d s) \<and> view (poke t d s) = (view s)(pid \<mapsto> d) \<and> at (poke t d s) = at s \<and>
        upcoming (poke t d s) = upcoming s \<and> frames (poke t d s) = frames s"
    and new_law: "pool P X s \<Longrightarrow> pid_ok (upcoming s) \<Longrightarrow> \<not> (\<exists>t. at s (upcoming s) t) \<Longrightarrow> card {q. 0 < P q} < frames s \<Longrightarrow>
      \<exists>t s'. new s = Inr (t, Some (upcoming s), s') \<and> t \<noteq> 0 \<and>
        pool (P(upcoming s := 1)) (insert (upcoming s) X) s' \<and> at s' (upcoming s) t \<and>
        peek s' t = replicate PAGE_SIZE 0 \<and>
        (\<forall>q x. q \<noteq> upcoming s \<longrightarrow> view s q = Some x \<longrightarrow> view s' q = Some x) \<and>
        (\<forall>q u. 0 < P q \<longrightarrow> at s q u \<longrightarrow> at s' q u) \<and> (\<forall>q u. at s' q u \<longrightarrow> q \<noteq> upcoming s \<longrightarrow> at s q u) \<and>
        upcoming s' = int32 (upcoming s + 1) \<and> frames s' = frames s"
    and at_peek: "pool P X s \<Longrightarrow> at s pid t \<Longrightarrow> t \<noteq> 0 \<and> view s pid = Some (peek s t) \<and> length (peek s t) = PAGE_SIZE"
    and at_inj: "pool P X s \<Longrightarrow> at s p t \<Longrightarrow> at s q u \<Longrightarrow> t = u \<longleftrightarrow> p = q"
    and pinned_at: "pool P X s \<Longrightarrow> 0 < P pid \<Longrightarrow> \<exists>t. at s pid t"
begin

text \<open>Fetching a page that is pinned gives its frame once more.\<close>

lemma refetch:
  assumes "pool P X s" and "0 < P pid" and "pid_ok pid" and "at s pid t"
  obtains s' where "fetch pid s = Inr (t, s')" and "pool (P(pid := P pid + 1)) X s'"
    and "\<forall>q x. view s q = Some x \<longrightarrow> view s' q = Some x" and "\<forall>q u. 0 < P q \<longrightarrow> at s q u \<longrightarrow> at s' q u"
    and "upcoming s' = upcoming s" and "frames s' = frames s"
proof -
  have "view s pid = Some (peek s t)" using at_peek [OF assms(1,4)] by simp
  from fetch_law [OF assms(1,3) this] assms(2) obtain u s' where f: "fetch pid s = Inr (u, s')"
    "pool (P(pid := P pid + 1)) X s'" "at s' pid u" "\<forall>q x. view s q = Some x \<longrightarrow> view s' q = Some x"
    "\<forall>q u. 0 < P q \<longrightarrow> at s q u \<longrightarrow> at s' q u" "upcoming s' = upcoming s" "frames s' = frames s"
    by auto
  have "at s' pid t" using f(5) assms(2,4) by simp
  then have "u = t" using at_inj [OF f(2,3)] by simp
  then show thesis using that f(1,2,4-7) by simp
qed

text \<open>Together with the unpin that follows, the pins are as they were.\<close>

lemma fetch_and_unpin:
  assumes "pool P X s" and "0 < P pid" and "pid_ok pid" and "at s pid t"
  obtains s1 s2 where "fetch pid s = Inr (t, s1)" and "unpin pid False s1 = Inr (True, s2)" and "pool P X s2"
    and "\<forall>q x. view s q = Some x \<longrightarrow> view s2 q = Some x" and "\<forall>q u. 0 < P q \<longrightarrow> at s q u \<longrightarrow> at s2 q u"
    and "upcoming s2 = upcoming s" and "frames s2 = frames s"
proof -
  obtain s1 where f: "fetch pid s = Inr (t, s1)" "pool (P(pid := P pid + 1)) X s1"
    "\<forall>q x. view s q = Some x \<longrightarrow> view s1 q = Some x" "\<forall>q u. 0 < P q \<longrightarrow> at s q u \<longrightarrow> at s1 q u"
    "upcoming s1 = upcoming s" "frames s1 = frames s"
    using refetch [OF assms] .
  from unpin_law [OF f(2), of pid False] assms(2) obtain s2 where u: "unpin pid False s1 = Inr (True, s2)" "pool P X s2"
    "view s2 = view s1" "at s2 = at s1" "upcoming s2 = upcoming s1" "frames s2 = frames s1"
    by auto
  show thesis using that [OF f(1) u(1,2)] f(3-6) u(3-6) by simp
qed

end

section \<open>The pool provides it\<close>

definition bp_at :: "page_hash \<Rightarrow> BufferPoolManager \<Rightarrow> int \<Rightarrow> nat \<Rightarrow> bool" where
  "bp_at h s pid t \<longleftrightarrow> eh_lookup h (page_table s) pid = Some t"

definition bp_pins :: "page_hash \<Rightarrow> BufferPoolManager \<Rightarrow> int \<Rightarrow> int" where
  "bp_pins h s pid = (case eh_lookup h (page_table s) pid of None \<Rightarrow> 0 | Some t \<Rightarrow> pin_count (frame s t))"

definition bp_pool :: "page_hash \<Rightarrow> (int \<Rightarrow> int) \<Rightarrow> int set \<Rightarrow> BufferPoolManager \<Rightarrow> bool" where
  "bp_pool h P X s \<longleftrightarrow> bp_good h s \<and> bp_pins h s = P \<and>
     (\<forall>q t. eh_lookup h (page_table s) q = Some t \<longrightarrow> q \<notin> X \<longrightarrow> bp_saved s t)"

definition bp_upcoming :: "BufferPoolManager \<Rightarrow> int" where
  "bp_upcoming s = next_page_id (disk_manager s)"

text \<open>A call that changes one resident frame and the replacer.\<close>

lemma pool_reframe:
  assumes sh: "bp_shape h s xs" and l: "eh_lookup h (page_table s) pid = Some tar"
    and s': "s' = (bp_set s tar p')\<lparr>lru_replacer := r\<rparr>"
  shows "bp_pins h s' = (bp_pins h s)(pid := pin_count p')" and "bp_at h s' = bp_at h s"
    and "bp_upcoming s' = bp_upcoming s"
    and "eh_lookup h (page_table s') q = Some u \<Longrightarrow> frame s' u = (if q = pid then p' else frame s u)"
    and "pool_size s' = pool_size s"
proof -
  have ptr: "bp_ptr s tar" using l shape_lookup [OF sh] by auto
  have fr: "frame s' u = (if u = tar then p' else frame s u)" if "bp_ptr s u" for u
    using frame_set [OF shape_length [OF sh] ptr that] by (simp add: s')
  show at: "bp_at h s' = bp_at h s" and "bp_upcoming s' = bp_upcoming s"
    by (simp_all add: s' bp_at_def bp_upcoming_def fun_eq_iff)
  show fq: "frame s' u = (if q = pid then p' else frame s u)" if q: "eh_lookup h (page_table s') q = Some u" for q u
    using shape_same [OF sh l, of q u] fr [of u] q by (simp add: s')
  show "bp_pins h s' = (bp_pins h s)(pid := pin_count p')"
  proof
    fix q show "bp_pins h s' q = ((bp_pins h s)(pid := pin_count p')) q"
      using fq [of q] l by (cases "eh_lookup h (page_table s) q") (auto simp: bp_pins_def s')
  qed
  show "pool_size s' = pool_size s" by (simp add: s')
qed

lemma bp_poolD:
  assumes "bp_pool h P X s"
  obtains xs where "bp_good h s" and "bp_shape h s xs" and "bp_pins h s = P"
    and "\<And>q t. eh_lookup h (page_table s) q = Some t \<Longrightarrow> q \<notin> X \<Longrightarrow> bp_saved s t"
  using assms bp_good_shape [of h s] unfolding bp_pool_def by blast

lemma pinned_lookup:
  assumes "bp_pool h P X s" and "0 < P pid"
  obtains t where "eh_lookup h (page_table s) pid = Some t" and "pin_count (frame s t) = P pid"
  using assms by (auto simp: bp_pool_def bp_pins_def split: option.splits)

lemma few_pins_avail:
  assumes "bp_pool h P X s" and "card {q. 0 < P q} < pool_size s"
  shows "bp_avail s"
proof (rule ccontr)
  obtain xs where sh: "bp_shape h s xs" and P: "bp_pins h s = P" using assms(1) by (rule bp_poolD)
  assume "\<not> bp_avail s"
  then have pin: "0 < pin_count (frame s t) \<and> page_id (frame s t) \<noteq> INVALID_PAGE_ID" if "bp_ptr s t" for t
    using shape_frame [OF sh that] that by (force simp: bp_avail_def frame_ok_def)
  let ?T = "{t. bp_ptr s t}" and ?f = "\<lambda>t. page_id (frame s t)"
  have T: "?T = {1..pool_size s}" by (auto simp: bp_ptr_def)
  have inj: "inj_on ?f ?T" using shape_inj [OF sh] pin by (intro inj_onI) blast
  have "0 < P (?f t)" if "bp_ptr s t" for t
    using shape_lookup [OF sh, of "?f t" t] pin [OF that] that P by (auto simp: bp_pins_def)
  then have sub: "?f ` ?T \<subseteq> {q. 0 < P q}" by auto
  have "{q. 0 < P q} \<subseteq> ?f ` ?T"
    using P shape_lookup [OF sh] by (force simp: bp_pins_def split: option.splits)
  then have "finite {q. 0 < P q}" using T by (metis finite_atLeastAtMost finite_imageI finite_subset)
  from card_mono [OF this sub] have "pool_size s \<le> card {q. 0 < P q}"
    unfolding card_image [OF inj] unfolding T by simp
  with assms(2) show False by simp
qed

lemma unpin_pins:
  assumes pool: "bp_pool h P X s" and pin: "0 < P pid" and c: "dirty \<or> pid \<notin> X \<or> 1 < P pid"
  shows "\<exists>s'. bp_UnpinPage h pid dirty s = Inr (True, s') \<and>
    bp_pool h (P(pid := P pid - 1)) (if dirty then X - {pid} else X) s' \<and> bp_view h s' = bp_view h s \<and>
    bp_at h s' = bp_at h s \<and> bp_upcoming s' = bp_upcoming s \<and> pool_size s' = pool_size s"
proof -
  obtain xs where good: "bp_good h s" and sh: "bp_shape h s xs" and P: "bp_pins h s = P"
    and sv: "\<And>q t. eh_lookup h (page_table s) q = Some t \<Longrightarrow> q \<notin> X \<Longrightarrow> bp_saved s t"
    using bp_poolD [OF pool] by blast
  obtain tar where l: "eh_lookup h (page_table s) pid = Some tar" "pin_count (frame s tar) = P pid"
    using pinned_lookup [OF pool pin] .
  let ?p = "(frame s tar)\<lparr>is_dirty := is_dirty (frame s tar) \<or> dirty, pin_count := pin_count (frame s tar) - 1\<rparr>"
  have p: "0 < pin_count (frame s tar)" "page_id (frame s tar) = pid" using l pin shape_lookup [OF sh] by auto
  obtain r ys where r: "bp_UnpinPage h pid dirty s = Inr (True, (bp_set s tar ?p)\<lparr>lru_replacer := r\<rparr>)"
    using bp_UnpinPage_pinned [OF sh l(1) p(1) refl] by blast
  let ?s = "(bp_set s tar ?p)\<lparr>lru_replacer := r\<rparr>"
  note rf = pool_reframe [OF sh l(1), where s' = ?s and p' = ?p and r = r, OF refl]
  have "dirty \<or> bp_clean s tar" using c l sv [OF l(1)] by (auto simp: bp_clean_def)
  then have g: "bp_good h ?s" "bp_view h ?s = bp_view h s"
    using bp_unpin_law [OF good, of pid tar dirty] l p r by (auto simp: bp_pinned_def)
  have "bp_saved ?s u" if u: "eh_lookup h (page_table ?s) q = Some u" "q \<notin> (if dirty then X - {pid} else X)" for q u
    using rf(4) [OF u(1)] sv [of q u] u l(1) p(2) by (auto simp: bp_saved_def split: if_splits)
  then have "bp_pool h (P(pid := P pid - 1)) (if dirty then X - {pid} else X) ?s"
    using g(1) rf(1) P l(2) by (simp add: bp_pool_def)
  then show ?thesis using r g(2) rf(2,3,5) by blast
qed

lemma poke_pins:
  assumes pool: "bp_pool h P X s" and pin: "0 < P pid" and at: "bp_at h s pid tar" and d: "length d = PAGE_SIZE"
  shows "bp_pool h P (insert pid X) (bp_poke tar d s) \<and> bp_view h (bp_poke tar d s) = (bp_view h s)(pid \<mapsto> d) \<and>
    bp_at h (bp_poke tar d s) = bp_at h s \<and> bp_upcoming (bp_poke tar d s) = bp_upcoming s \<and>
    pool_size (bp_poke tar d s) = pool_size s"
proof -
  obtain xs where good: "bp_good h s" and sh: "bp_shape h s xs" and P: "bp_pins h s = P"
    and sv: "\<And>q t. eh_lookup h (page_table s) q = Some t \<Longrightarrow> q \<notin> X \<Longrightarrow> bp_saved s t"
    using bp_poolD [OF pool] by blast
  have l: "eh_lookup h (page_table s) pid = Some tar" using at by (simp add: bp_at_def)
  have pt: "pin_count (frame s tar) = P pid" using l P by (auto simp: bp_pins_def)
  let ?p = "(frame s tar)\<lparr>page_data := d\<rparr>"
  have e: "bp_poke tar d s = (bp_set s tar ?p)\<lparr>lru_replacer := lru_replacer s\<rparr>"
    by (simp add: bp_poke_frame bp_set_def)
  note rf = pool_reframe [OF sh l e]
  note g = bp_poke_law [OF good, of pid tar d]
  have "bp_saved (bp_poke tar d s) u"
    if u: "eh_lookup h (page_table (bp_poke tar d s)) q = Some u" "q \<notin> insert pid X" for q u
    using rf(4) [OF u(1)] sv [of q u] u by (auto simp: bp_saved_def e)
  then have "bp_pool h P (insert pid X) (bp_poke tar d s)"
    using g l pin d rf(1) P pt by (auto simp: bp_pool_def bp_pinned_def)
  then show ?thesis using g l pin d pt rf(2,3,5) by (auto simp: bp_pinned_def)
qed

text \<open>A frame with no pins is given to another page: the pinned pages stay where they are.\<close>

lemma reuse_pins:
  assumes pool: "bp_pool h P X s" and good': "bp_good h s'" and sz: "pool_size s' = pool_size s"
    and l': "eh_lookup h (page_table s') pid = Some tar" and new: "eh_lookup h (page_table s) pid = None"
    and tar: "bp_ptr s tar" "pin_count (frame s tar) = 0" "pin_count (frame s' tar) = n"
    and fr: "\<forall>u. bp_ptr s u \<longrightarrow> u \<noteq> tar \<longrightarrow> frame s' u = frame s u"
    and disk: "\<forall>q x. q \<noteq> page_id (frame s tar) \<longrightarrow> disk_page (disk_manager s) q = Some x \<longrightarrow>
      disk_page (disk_manager s') q = Some x"
  shows "bp_pins h s' = P(pid := n)" and "0 < P q \<Longrightarrow> bp_at h s q u \<Longrightarrow> bp_at h s' q u"
    and "eh_lookup h (page_table s') q = Some u \<Longrightarrow> q \<noteq> pid \<Longrightarrow> q \<notin> X \<Longrightarrow> bp_saved s' u"
    and "bp_at h s' q u \<Longrightarrow> q \<noteq> pid \<Longrightarrow> bp_at h s q u"
proof -
  obtain xs where sh: "bp_shape h s xs" and P: "bp_pins h s = P"
    and sv: "\<And>q t. eh_lookup h (page_table s) q = Some t \<Longrightarrow> q \<notin> X \<Longrightarrow> bp_saved s t"
    using bp_poolD [OF pool] by blast
  obtain ys where sh': "bp_shape h s' ys" using bp_good_shape [OF good'] by blast
  have ptr: "bp_ptr s' = bp_ptr s" using sz by (simp add: bp_ptr_def fun_eq_iff)
  have bk: "eh_lookup h (page_table s) q = Some u \<and> frame s' u = frame s u \<and> u \<noteq> tar"
    if q: "eh_lookup h (page_table s') q = Some u" "q \<noteq> pid" for q u
  proof -
    have "u \<noteq> tar" using shape_same(2) [OF sh' l' q(1)] q(2) by simp
    moreover have "bp_ptr s u" "page_id (frame s' u) = q" "q \<noteq> INVALID_PAGE_ID"
      using shape_lookup [OF sh', of q u] q(1) ptr by auto
    ultimately show ?thesis using fr shape_lookup [OF sh, of q u] by simp
  qed
  have forth: "eh_lookup h (page_table s') q = Some u"
    if q: "eh_lookup h (page_table s) q = Some u" "u \<noteq> tar" for q u
    using shape_lookup [OF sh, of q u] shape_lookup [OF sh', of q u] fr q ptr by simp
  have ne: "u \<noteq> tar" if "0 < P q" "eh_lookup h (page_table s) q = Some u" for q u
    using that P tar(2) by (auto simp: bp_pins_def)
  show "bp_at h s q u" if "bp_at h s' q u" "q \<noteq> pid" for q u
    using that bk by (simp add: bp_at_def)
  show "bp_at h s' q u" if "0 < P q" "bp_at h s q u" for q u
    using that forth ne by (simp add: bp_at_def)
  show "bp_pins h s' = P(pid := n)"
  proof
    fix q
    show "bp_pins h s' q = (P(pid := n)) q"
    proof (cases "q = pid")
      case False
      show ?thesis
      proof (cases "eh_lookup h (page_table s') q")
        case None
        then have "eh_lookup h (page_table s) q = Some u \<Longrightarrow> u = tar" for u using forth by fastforce
        then have "bp_pins h s q = 0" using tar(2) by (auto simp: bp_pins_def split: option.splits)
        then show ?thesis using None False P by (simp add: bp_pins_def)
      next
        case (Some u)
        then show ?thesis using bk [OF Some False] False P by (auto simp: bp_pins_def)
      qed
    qed (use l' tar(3) in \<open>simp add: bp_pins_def\<close>)
  qed
  show "bp_saved s' u" if q: "eh_lookup h (page_table s') q = Some u" "q \<noteq> pid" "q \<notin> X" for q u
  proof -
    note b = bk [OF q(1,2)]
    have "bp_saved s u" using sv b q(3) by blast
    moreover have "page_id (frame s u) \<noteq> page_id (frame s tar)"
      using b shape_inj [OF sh _ tar(1), of u] shape_lookup [OF sh, of q u] by auto
    ultimately show ?thesis using b disk by (auto simp: bp_saved_def)
  qed
qed

lemma fetch_pins:
  assumes pool: "bp_pool h P X s" and pid: "pid_ok pid" and v: "bp_view h s pid = Some d"
    and av: "0 < P pid \<or> card {q. 0 < P q} < pool_size s"
  shows "\<exists>t s'. bp_FetchPage h pid s = Inr (t, s') \<and> t \<noteq> 0 \<and> bp_pool h (P(pid := P pid + 1)) X s' \<and>
    bp_at h s' pid t \<and> bp_peek s' t = d \<and> (\<forall>q x. bp_view h s q = Some x \<longrightarrow> bp_view h s' q = Some x) \<and>
    (\<forall>q u. 0 < P q \<longrightarrow> bp_at h s q u \<longrightarrow> bp_at h s' q u) \<and> (\<forall>q u. bp_at h s' q u \<longrightarrow> q \<noteq> pid \<longrightarrow> bp_at h s q u) \<and>
    bp_upcoming s' = bp_upcoming s \<and> pool_size s' = pool_size s"
proof -
  obtain xs where good: "bp_good h s" and sh: "bp_shape h s xs" and P: "bp_pins h s = P"
    and sv: "\<And>q t. eh_lookup h (page_table s) q = Some t \<Longrightarrow> q \<notin> X \<Longrightarrow> bp_saved s t"
    using bp_poolD [OF pool] by blast
  show ?thesis
  proof (cases "eh_lookup h (page_table s) pid")
    case None
    then have "P pid = 0" using P by (auto simp: bp_pins_def)
    then have "bp_avail s" using few_pins_avail [OF pool] av by simp
    moreover have "disk_page (disk_manager s) pid = Some d" using v None by (simp add: bp_view_absent)
    ultimately obtain s' where m: "bp_FetchPage h pid s = Inr (bp_choice s xs, s')" "bp_good h s'"
      "eh_lookup h (page_table s') pid = Some (bp_choice s xs)" "bp_ptr s (bp_choice s xs)" "pool_size s' = pool_size s"
      "frame s' (bp_choice s xs) = \<lparr>page_data = d, page_id = pid, pin_count = 1, is_dirty = False\<rparr>"
      "\<forall>u. bp_ptr s u \<longrightarrow> u \<noteq> bp_choice s xs \<longrightarrow> frame s' u = frame s u"
      "\<forall>q x. bp_view h s q = Some x \<longrightarrow> bp_view h s' q = Some x" "disk_page (disk_manager s') pid = Some d"
      "pin_count (frame s (bp_choice s xs)) = 0"
      "\<forall>q x. q \<noteq> page_id (frame s (bp_choice s xs)) \<longrightarrow> disk_page (disk_manager s) q = Some x \<longrightarrow>
        disk_page (disk_manager s') q = Some x"
      "next_page_id (disk_manager s') = next_page_id (disk_manager s)"
      using bp_FetchPage_miss [OF good sh _ None pid] by blast
    have one: "pin_count (frame s' (bp_choice s xs)) = 1" using m(6) by simp
    note ru = reuse_pins [OF pool m(2,5,3) None m(4,10) one m(7,11)]
    have "bp_saved s' (bp_choice s xs)" using m(6,9) by (simp add: bp_saved_def)
    then have "bp_saved s' u" if "eh_lookup h (page_table s') q = Some u" "q \<notin> X" for q u
      using ru(3) [OF that(1) _ that(2)] that m(3) by (cases "q = pid") auto
    then have "bp_pool h (P(pid := P pid + 1)) X s'"
      using m(2) ru(1) \<open>P pid = 0\<close> by (simp add: bp_pool_def)
    moreover have "bp_choice s xs \<noteq> 0" using m(4) by (simp add: bp_ptr_def)
    moreover have fw: "\<forall>q u. 0 < P q \<longrightarrow> bp_at h s q u \<longrightarrow> bp_at h s' q u"
      and bw: "\<forall>q u. bp_at h s' q u \<longrightarrow> q \<noteq> pid \<longrightarrow> bp_at h s q u" using ru(2,4) by blast+
    moreover have "bp_at h s' pid (bp_choice s xs)" "bp_peek s' (bp_choice s xs) = d" "bp_upcoming s' = bp_upcoming s"
      using m(3,6,12) by (simp_all add: bp_at_def bp_peek_frame bp_upcoming_def)
    ultimately show ?thesis using m(1,5,8) by blast
  next
    case (Some tar)
    let ?p = "(frame s tar)\<lparr>pin_count := pin_count (frame s tar) + 1\<rparr>"
    obtain r where r: "bp_FetchPage h pid s = Inr (tar, (bp_set s tar ?p)\<lparr>lru_replacer := r\<rparr>)"
      using bp_FetchPage_hit [OF sh Some] by blast
    let ?s = "(bp_set s tar ?p)\<lparr>lru_replacer := r\<rparr>"
    note rf = pool_reframe [OF sh Some, where s' = ?s and p' = ?p and r = r, OF refl]
    have g: "bp_good h ?s" "bp_view h ?s = bp_view h s" "bp_peek ?s tar = page_data (frame s tar)"
      using bp_good_hit [OF good Some] r by auto
    have pt: "pin_count (frame s tar) = P pid" "tar \<noteq> 0"
      using Some P shape_lookup [OF sh, of pid tar] by (auto simp: bp_pins_def bp_ptr_def)
    have "bp_saved ?s u" if u: "eh_lookup h (page_table ?s) q = Some u" "q \<notin> X" for q u
      using rf(4) [OF u(1)] sv [of q u] u Some by (auto simp: bp_saved_def split: if_splits)
    then have "bp_pool h (P(pid := P pid + 1)) X ?s"
      using g(1) rf(1) P pt by (simp add: bp_pool_def)
    moreover have "bp_at h ?s pid tar" using Some by (simp add: rf(2) bp_at_def)
    ultimately show ?thesis
      using r g(2,3) rf(2,3,5) pt(2) v Some by (intro exI [of _ tar] exI [of _ ?s]) (simp add: bp_view_resident)
  qed
qed

lemma new_pins:
  assumes pool: "bp_pool h P X s" and pid: "pid_ok (bp_upcoming s)" and fresh: "\<not> (\<exists>t. bp_at h s (bp_upcoming s) t)"
    and av: "card {q. 0 < P q} < pool_size s"
  shows "\<exists>t s'. bp_NewPage h s = Inr (t, Some (bp_upcoming s), s') \<and> t \<noteq> 0 \<and>
    bp_pool h (P(bp_upcoming s := 1)) (insert (bp_upcoming s) X) s' \<and> bp_at h s' (bp_upcoming s) t \<and>
    bp_peek s' t = replicate PAGE_SIZE 0 \<and>
    (\<forall>q x. q \<noteq> bp_upcoming s \<longrightarrow> bp_view h s q = Some x \<longrightarrow> bp_view h s' q = Some x) \<and>
    (\<forall>q u. 0 < P q \<longrightarrow> bp_at h s q u \<longrightarrow> bp_at h s' q u) \<and>
    (\<forall>q u. bp_at h s' q u \<longrightarrow> q \<noteq> bp_upcoming s \<longrightarrow> bp_at h s q u) \<and> bp_upcoming s' = int32 (bp_upcoming s + 1) \<and>
    pool_size s' = pool_size s"
proof -
  let ?i = "bp_upcoming s"
  obtain xs where good: "bp_good h s" and sh: "bp_shape h s xs" using bp_poolD [OF pool] by blast
  have None: "eh_lookup h (page_table s) ?i = None" using fresh by (auto simp: bp_at_def)
  obtain s' where m: "bp_NewPage h s = Inr (bp_choice s xs, Some ?i, s')" "bp_good h s'"
    "eh_lookup h (page_table s') ?i = Some (bp_choice s xs)" "bp_ptr s (bp_choice s xs)" "pool_size s' = pool_size s"
    "frame s' (bp_choice s xs) = \<lparr>page_data = replicate PAGE_SIZE 0, page_id = ?i, pin_count = 1, is_dirty = False\<rparr>"
    "\<forall>u. bp_ptr s u \<longrightarrow> u \<noteq> bp_choice s xs \<longrightarrow> frame s' u = frame s u"
    "\<forall>q x. q \<noteq> ?i \<longrightarrow> bp_view h s q = Some x \<longrightarrow> bp_view h s' q = Some x"
    "pin_count (frame s (bp_choice s xs)) = 0"
    "\<forall>q x. q \<noteq> page_id (frame s (bp_choice s xs)) \<longrightarrow> disk_page (disk_manager s) q = Some x \<longrightarrow>
      disk_page (disk_manager s') q = Some x"
    "next_page_id (disk_manager s') = int32 (?i + 1)"
    using bp_NewPage_fresh [OF good sh few_pins_avail [OF pool av] None pid] by (auto simp: bp_upcoming_def)
  have one: "pin_count (frame s' (bp_choice s xs)) = 1" using m(6) by simp
  note ru = reuse_pins [OF pool m(2,5,3) None m(4,9) one m(7,10)]
  have "bp_pool h (P(?i := 1)) (insert ?i X) s'"
    using m(2) ru(1,3) by (simp add: bp_pool_def)
  moreover have "bp_choice s xs \<noteq> 0" using m(4) by (simp add: bp_ptr_def)
  moreover have fw: "\<forall>q u. 0 < P q \<longrightarrow> bp_at h s q u \<longrightarrow> bp_at h s' q u"
    and bw: "\<forall>q u. bp_at h s' q u \<longrightarrow> q \<noteq> ?i \<longrightarrow> bp_at h s q u" using ru(2,4) by blast+
  moreover have "bp_at h s' ?i (bp_choice s xs)" "bp_peek s' (bp_choice s xs) = replicate PAGE_SIZE 0"
    "bp_upcoming s' = int32 (?i + 1)"
    using m(3,6,11) by (simp_all add: bp_at_def bp_peek_frame bp_upcoming_def)
  ultimately show ?thesis using m(1,5,8) by blast
qed

interpretation pins: pinned_cache "bp_FetchPage h" "bp_UnpinPage h" "bp_NewPage h" bp_peek bp_poke "bp_pool h"
  "bp_at h" pool_size "bp_view h" bp_upcoming for h
proof unfold_locales
  fix P X s pid t assume p: "bp_pool h P X s" and a: "bp_at h s pid t"
  obtain xs where sh: "bp_shape h s xs" using bp_poolD [OF p] by blast
  have "bp_ptr s t" using a shape_lookup [OF sh, of pid t] by (simp add: bp_at_def)
  then show "t \<noteq> 0 \<and> bp_view h s pid = Some (bp_peek s t) \<and> length (bp_peek s t) = PAGE_SIZE"
    using a shape_frame [OF sh] by (simp add: bp_at_def bp_view_resident bp_peek_frame frame_ok_def bp_ptr_def)
next
  fix P X s p q t u assume "bp_pool h P X s" "bp_at h s p t" "bp_at h s q u"
  then show "t = u \<longleftrightarrow> p = q" using shape_same(2) bp_poolD unfolding bp_at_def by metis
next
  fix P X s pid assume "bp_pool h P X s" "0 < P pid"
  then show "\<exists>t. bp_at h s pid t" using pinned_lookup unfolding bp_at_def by blast
qed (rule fetch_pins unpin_pins poke_pins new_pins; assumption)+

lemma at_page:
  assumes "bp_pool h P X s" and "bp_at h s pid t"
  obtains pg where "bp_page s t = Inr pg" and "page_id pg = pid"
proof -
  obtain xs where sh: "bp_shape h s xs" using bp_poolD [OF assms(1)] by blast
  then show thesis
    using that assms(2) bp_page_ptr [OF shape_length [OF sh], of t] shape_lookup [OF sh, of pid t] by (simp add: bp_at_def)
qed

end
