(* ===== verification/Bpt_Hold.thy ===== *)
theory Bpt_Hold
  imports Bpt_Tree Pool_Pins
begin

text \<open>
  What an operation on a tree holds while it runs: the pages it has pinned and latched, in the order
  in which it took them, and the lock of the root. The lemmas give the effect of fetching a page by
  the crabbing protocol and of releasing the pages held so far.
\<close>

section \<open>Evaluating operations\<close>

lemmas op_simps = bindS_def retS_def liftS_def getS_def modS_def assertS_def

text \<open>One step of an operation: the outcome of its first part, and the rest from there.\<close>

lemma bindS_step: "m s = Inr (x, s1) \<Longrightarrow> f x s1 = r \<Longrightarrow> bindS m f s = r"
  by (simp add: bindS_def)

lemma getS_step: "f (g s) s = r \<Longrightarrow> bindS (getS g) f s = r"
  by (simp add: bindS_def getS_def)

lemma liftS_step: "m = Inr x \<Longrightarrow> f x s = r \<Longrightarrow> bindS (liftS m) f s = r"
  by (simp add: bindS_def liftS_def)

lemma assertS_step: "b \<Longrightarrow> f () s = r \<Longrightarrow> bindS (assertS b) f s = r"
  by (simp add: bindS_def assertS_def liftS_def assertE_def)

section \<open>Pages held\<close>

definition latched :: "bool \<Rightarrow> rw_mutex" where
  "latched excl = (if excl then \<lparr>reader_count = 0, writer_entered = True\<rparr>
     else \<lparr>reader_count = 1, writer_entered = False\<rparr>)"

text \<open>
  \<open>held E excl H X s\<close>: exactly the pages of \<open>H\<close> (with their frames) are pinned, once each, and
  latched in the mode \<open>excl\<close>; the pages of \<open>X\<close> are changed but not yet marked as dirty.
\<close>

definition once :: "(int \<times> nat) list \<Rightarrow> int \<Rightarrow> int" where
  "once H q = (if q \<in> fst ` set H then 1 else 0)"

definition held :: "bpt_env \<Rightarrow> bool \<Rightarrow> (int \<times> nat) list \<Rightarrow> int set \<Rightarrow> BPlusTree \<Rightarrow> bool" where
  "held E excl H X s \<longleftrightarrow> distinct (map fst H) \<and>
     bp_pool (hash_fn E) (once H) X (bpm s) \<and>
     (\<forall>x \<in> set H. bp_at (hash_fn E) (bpm s) (fst x) (snd x)) \<and>
     rwlatch s = (\<lambda>u. if u \<in> snd ` set H then latched excl else rw_init)"

lemma heldD:
  assumes "held E excl H X s"
  shows held_distinct: "distinct (map fst H)"
    and held_pool: "bp_pool (hash_fn E) (once H) X (bpm s)"
    and held_at: "(q, t) \<in> set H \<Longrightarrow> bp_at (hash_fn E) (bpm s) q t"
    and held_latch: "rwlatch s = (\<lambda>u. if u \<in> snd ` set H then latched excl else rw_init)"
  using assms by (force simp: held_def)+

lemma once_add: "q \<notin> fst ` set H \<Longrightarrow> (once H)(q := once H q + 1) = once (H @ [(q, t)])"
  by (auto simp: once_def fun_eq_iff)

lemma once_drop: "q \<notin> fst ` set H \<Longrightarrow> (once ((q, t) # H))(q := once ((q, t) # H) q - 1) = once H"
  by (auto simp: once_def fun_eq_iff)

lemma once_card: "card {q. 0 < once H q} \<le> length H"
proof -
  have "{q. 0 < once H q} = fst ` set H" by (auto simp: once_def)
  then show ?thesis using card_image_le [of "set H" fst] card_length [of H] by simp
qed

lemma once_pos: "(q, t) \<in> set H \<Longrightarrow> once H q = 1"
  by (force simp: once_def)

lemma held_frame_unique:
  assumes "held E excl H X s" and "(q, t) \<in> set H" and "(q', t') \<in> set H"
  shows "t = t' \<longleftrightarrow> q = q'"
  using pins.at_inj [OF held_pool [OF assms(1)] held_at [OF assms(1,2)] held_at [OF assms(1,3)]] .

lemma held_data:
  assumes "held E excl H X s" and "(q, t) \<in> set H"
  shows "t_data t s = Inr (bp_peek (bpm s) t, s)" and "bp_view (hash_fn E) (bpm s) q = Some (bp_peek (bpm s) t)"
    and "length (bp_peek (bpm s) t) = PAGE_SIZE" and "t \<noteq> 0"
  using pins.at_peek [OF held_pool [OF assms(1)] held_at [OF assms]] by (simp_all add: t_data_def)

lemma latch_ops [simp]:
  "rw_WLock rw_init = (latched True, Writing)" "rw_RLock rw_init = (latched False, Reading)"
  "fst (rw_WUnlock (latched True)) = rw_init" "fst (rw_RUnlock (latched False)) = rw_init"
  by (simp_all add: rw_WLock_def rw_RLock_def rw_WUnlock_def rw_RUnlock_def rw_drain_def rw_init_def latched_def
      max_readers_def Let_def)

lemma t_Lock_free: "t \<noteq> 0 \<Longrightarrow> rwlatch s t = rw_init \<Longrightarrow> t_Lock excl t s = Inr ((), s\<lparr>rwlatch := (rwlatch s)(t := latched excl)\<rparr>)"
  by (cases excl) (simp_all add: t_Lock_def)

lemma t_Unlock_held:
  "t \<noteq> 0 \<Longrightarrow> rwlatch s t = latched excl \<Longrightarrow> t_Unlock excl t s = Inr ((), s\<lparr>rwlatch := (rwlatch s)(t := rw_init)\<rparr>)"
  using latch_ops(3,4) by (cases excl) (simp_all add: t_Unlock_def case_prod_beta Let_def del: latch_ops)

text \<open>A page that is not held is fetched and latched.\<close>

lemma held_fetch:
  assumes h: "held E excl H X s" and q: "q \<notin> fst ` set H" "pid_ok q" "bp_view (hash_fn E) (bpm s) q = Some d"
    and room: "length H < pool_size (bpm s)"
  obtains t b where "t_FetchPage E q s = Inr (t, s\<lparr>bpm := b\<rparr>)" and "t \<noteq> 0"
    and "t_Lock excl t (s\<lparr>bpm := b\<rparr>) = Inr ((), s\<lparr>bpm := b, rwlatch := (rwlatch s)(t := latched excl)\<rparr>)"
    and "held E excl (H @ [(q, t)]) X (s\<lparr>bpm := b, rwlatch := (rwlatch s)(t := latched excl)\<rparr>)"
    and "\<forall>p x. bp_view (hash_fn E) (bpm s) p = Some x \<longrightarrow> bp_view (hash_fn E) b p = Some x"
    and "pool_size b = pool_size (bpm s)" and "bp_upcoming b = bp_upcoming (bpm s)"
    and "\<forall>p u. bp_at (hash_fn E) b p u \<longrightarrow> p \<noteq> q \<longrightarrow> bp_at (hash_fn E) (bpm s) p u"
proof -
  have "card {p. 0 < once H p} < pool_size (bpm s)" using room once_card [of H] by simp
  then obtain t b where f: "bp_FetchPage (hash_fn E) q (bpm s) = Inr (t, b)" "t \<noteq> 0"
    "bp_pool (hash_fn E) ((once H)(q := once H q + 1)) X b" "bp_at (hash_fn E) b q t" "bp_peek b t = d"
    "\<forall>p x. bp_view (hash_fn E) (bpm s) p = Some x \<longrightarrow> bp_view (hash_fn E) b p = Some x"
    "\<forall>p u. 0 < once H p \<longrightarrow> bp_at (hash_fn E) (bpm s) p u \<longrightarrow> bp_at (hash_fn E) b p u"
    "bp_upcoming b = bp_upcoming (bpm s)" "pool_size b = pool_size (bpm s)"
    "\<forall>p u. bp_at (hash_fn E) b p u \<longrightarrow> p \<noteq> q \<longrightarrow> bp_at (hash_fn E) (bpm s) p u"
    using pins.fetch_law [OF held_pool [OF h] q(2,3)] by blast
  note pool = f(3) [unfolded once_add [OF q(1), of t]]
  have at: "bp_at (hash_fn E) b (fst x) (snd x)" if "x \<in> set H" for x
    using held_at [OF h, of "fst x" "snd x"] f(7) that once_pos [of "fst x" "snd x" H] by simp
  have "t \<notin> snd ` set H"
  proof
    assume "t \<in> snd ` set H"
    then obtain p where p: "(p, t) \<in> set H" by auto
    then have "p = q" using pins.at_inj [OF f(3) at [OF p] f(4)] by simp
    then show False using p q(1) by force
  qed
  then have l: "rwlatch s t = rw_init" using held_latch [OF h] by simp
  have lt: "t_Lock excl t (s\<lparr>bpm := b\<rparr>) = Inr ((), s\<lparr>bpm := b, rwlatch := (rwlatch s)(t := latched excl)\<rparr>)"
    using t_Lock_free [of t "s\<lparr>bpm := b\<rparr>" excl] l f(2) by simp
  have "held E excl (H @ [(q, t)]) X (s\<lparr>bpm := b, rwlatch := (rwlatch s)(t := latched excl)\<rparr>)"
    using held_distinct [OF h] q(1) f(4) pool at held_latch [OF h] by (auto simp: held_def fun_eq_iff)
  with lt f show thesis using that [of t b] by (simp add: t_FetchPage_def)
qed

text \<open>A held page is unlatched and unpinned.\<close>

lemma held_release:
  assumes h: "held E excl ((q, t) # H) X s" and c: "dirty \<or> q \<notin> X"
  obtains b where "t_Unlock excl t s = Inr ((), s\<lparr>rwlatch := (rwlatch s)(t := rw_init)\<rparr>)"
    and "t_UnpinPage E q dirty (s\<lparr>rwlatch := (rwlatch s)(t := rw_init)\<rparr>) =
      Inr (True, s\<lparr>bpm := b, rwlatch := (rwlatch s)(t := rw_init)\<rparr>)"
    and "held E excl H (if dirty then X - {q} else X) (s\<lparr>bpm := b, rwlatch := (rwlatch s)(t := rw_init)\<rparr>)"
    and "bp_view (hash_fn E) b = bp_view (hash_fn E) (bpm s)"
    and "pool_size b = pool_size (bpm s)" and "bp_upcoming b = bp_upcoming (bpm s)"
proof -
  let ?P = "once ((q, t) # H)"
  have q: "?P q = 1" "q \<notin> fst ` set H" using held_distinct [OF h] by (auto simp: once_def)
  obtain b where u: "bp_UnpinPage (hash_fn E) q dirty (bpm s) = Inr (True, b)"
    "bp_pool (hash_fn E) (?P(q := ?P q - 1)) (if dirty then X - {q} else X) b"
    "bp_view (hash_fn E) b = bp_view (hash_fn E) (bpm s)" "bp_at (hash_fn E) b = bp_at (hash_fn E) (bpm s)"
    "bp_upcoming b = bp_upcoming (bpm s)" "pool_size b = pool_size (bpm s)"
    using pins.unpin_law [OF held_pool [OF h], of q dirty] c q(1) by auto
  note pool = u(2) [unfolded once_drop [OF q(2)]]
  have t0: "t \<noteq> 0" using held_data(4) [OF h, of q t] by simp
  have "t \<notin> snd ` set H"
  proof
    assume "t \<in> snd ` set H"
    then obtain p where "(p, t) \<in> set H" by auto
    with held_frame_unique [OF h, of p t q t] q(2) show False by force
  qed
  then have "held E excl H (if dirty then X - {q} else X) (s\<lparr>bpm := b, rwlatch := (rwlatch s)(t := rw_init)\<rparr>)"
    using h u(4) pool by (auto simp: held_def fun_eq_iff)
  moreover have "t_Unlock excl t s = Inr ((), s\<lparr>rwlatch := (rwlatch s)(t := rw_init)\<rparr>)"
    using t_Unlock_held [OF t0, of s excl] held_latch [OF h] by simp
  ultimately show thesis using that [of b] u by (simp add: t_UnpinPage_def)
qed

section \<open>Releasing what is held\<close>

lemma free_pages_held:
  assumes "held E excl (H @ K) X s" and "transaction s = Some t" and "deleted_page_set t = {}"
    and "excl \<or> X \<inter> fst ` set H = {}"
  shows "\<exists>b L. free_pages E excl (map snd H) s = Inr ((), s\<lparr>bpm := b, rwlatch := L\<rparr>) \<and>
    held E excl K (if excl then X - fst ` set H else X) (s\<lparr>bpm := b, rwlatch := L\<rparr>) \<and>
    bp_view (hash_fn E) b = bp_view (hash_fn E) (bpm s) \<and> pool_size b = pool_size (bpm s) \<and>
    bp_upcoming b = bp_upcoming (bpm s)"
  using assms
proof (induction H arbitrary: s X)
  case Nil
  then show ?case by (intro exI [of _ "bpm s"] exI [of _ "rwlatch s"]) (cases excl; simp add: retS_def)
next
  case (Cons x H)
  obtain q u where x: "x = (q, u)" by (cases x)
  have h: "held E excl ((q, u) # H @ K) X s" using Cons.prems(1) x by simp
  have c: "excl \<or> q \<notin> X" using Cons.prems(4) x by auto
  obtain b where r: "t_Unlock excl u s = Inr ((), s\<lparr>rwlatch := (rwlatch s)(u := rw_init)\<rparr>)"
    "t_UnpinPage E q excl (s\<lparr>rwlatch := (rwlatch s)(u := rw_init)\<rparr>) =
      Inr (True, s\<lparr>bpm := b, rwlatch := (rwlatch s)(u := rw_init)\<rparr>)"
    "held E excl (H @ K) (if excl then X - {q} else X) (s\<lparr>bpm := b, rwlatch := (rwlatch s)(u := rw_init)\<rparr>)"
    "bp_view (hash_fn E) b = bp_view (hash_fn E) (bpm s)" "pool_size b = pool_size (bpm s)" "bp_upcoming b = bp_upcoming (bpm s)"
    using held_release [OF h c] .
  obtain pg where pg: "bp_page (bpm s) u = Inr pg" "page_id pg = q"
    using at_page [OF held_pool [OF h] held_at [OF h, of q u]] by auto
  let ?s = "s\<lparr>bpm := b, rwlatch := (rwlatch s)(u := rw_init)\<rparr>"
  have tx: "transaction ?s = Some t" using Cons.prems(2) by simp
  have fr: "excl \<or> (if excl then X - {q} else X) \<inter> fst ` set H = {}" using Cons.prems(4) by auto
  have X: "(if excl then (if excl then X - {q} else X) - fst ` set H else (if excl then X - {q} else X)) =
      (if excl then X - fst ` set (x # H) else X)" using x by auto
  obtain b' L where ih: "free_pages E excl (map snd H) ?s = Inr ((), ?s\<lparr>bpm := b', rwlatch := L\<rparr>)"
    "held E excl K (if excl then X - fst ` set (x # H) else X) (?s\<lparr>bpm := b', rwlatch := L\<rparr>)"
    "bp_view (hash_fn E) b' = bp_view (hash_fn E) b" "pool_size b' = pool_size b" "bp_upcoming b' = bp_upcoming b"
    using Cons.IH [OF r(3) tx Cons.prems(3) fr, unfolded X] by auto
  have "free_pages E excl (map snd (x # H)) s = Inr ((), s\<lparr>bpm := b', rwlatch := L\<rparr>)"
    using pg r(1,2) ih(1) Cons.prems(2,3) x by (simp add: op_simps Let_def)
  then show ?case using ih(2-5) r(4-6) by (intro exI [of _ b'] exI [of _ L]) simp
qed

section \<open>The lock of the root\<close>

definition root_lock :: "bool \<Rightarrow> BPlusTree \<Rightarrow> bool" where
  "root_lock excl s \<longleftrightarrow> mRootLockedCnt s = 0 \<and> mMutex s = rw_init \<or> mRootLockedCnt s = 1 \<and> mMutex s = latched excl"

definition root_free :: "BPlusTree \<Rightarrow> bool" where
  "root_free s \<longleftrightarrow> mRootLockedCnt s = 0 \<and> mMutex s = rw_init"

lemma TryUnlock_root:
  "root_lock excl s \<Longrightarrow> TryUnlockRootPageId excl s = Inr ((), s\<lparr>mMutex := rw_init, mRootLockedCnt := 0\<rparr>)"
  using latch_ops(3,4)
  by (cases excl) (auto simp: root_lock_def TryUnlockRootPageId_def Let_def case_prod_beta simp del: latch_ops)

lemma Lock_root:
  "root_free s \<Longrightarrow> LockRootPageId excl s = Inr ((), s\<lparr>mMutex := latched excl, mRootLockedCnt := 1\<rparr>)"
  by (cases excl) (simp_all add: root_free_def LockRootPageId_def)

text \<open>
  The pages an operation has recorded: those of its transaction, or without a transaction the last
  page, of which only one is held.
\<close>

definition recorded :: "(int \<times> nat) list \<Rightarrow> bool \<Rightarrow> BPlusTree \<Rightarrow> bool" where
  "recorded H excl s \<longleftrightarrow> (case transaction s of
     None \<Rightarrow> \<not> excl \<and> length H \<le> 1
   | Some t \<Rightarrow> page_set t = map snd H \<and> deleted_page_set t = {})"

definition clear_pages :: "Transaction option \<Rightarrow> Transaction option" where
  "clear_pages = map_option (\<lambda>t. t\<lparr>page_set := []\<rparr>)"

lemma held_bpm_cong:
  "held E excl H X s \<Longrightarrow> bpm s' = bpm s \<Longrightarrow> rwlatch s' = rwlatch s \<Longrightarrow> held E excl H X s'"
  by (simp add: held_def)

text \<open>Without a transaction the page is fetched once more to reach its latch.\<close>

lemma held_refetch:
  assumes h: "held E False ((q, t) # K) X s" and q: "pid_ok q" "q \<notin> X"
  obtains b L where "bindS (t_UnlockPage E False q) (\<lambda>_. bindS (t_UnpinPage E q False) (\<lambda>_. retS ())) s =
      Inr ((), s\<lparr>bpm := b, rwlatch := L\<rparr>)"
    and "held E False K X (s\<lparr>bpm := b, rwlatch := L\<rparr>)"
    and "\<forall>p x. bp_view (hash_fn E) (bpm s) p = Some x \<longrightarrow> bp_view (hash_fn E) b p = Some x"
    and "pool_size b = pool_size (bpm s)" and "bp_upcoming b = bp_upcoming (bpm s)"
proof -
  let ?P = "once ((q, t) # K)"
  have P: "?P q = 1" by (simp add: once_def)
  have qK: "q \<notin> fst ` set K" using held_distinct [OF h] by auto
  have P0: "0 < ?P q" and at: "bp_at (hash_fn E) (bpm s) q t" using P held_at [OF h, of q t] by simp_all
  obtain b1 b2 where f: "bp_FetchPage (hash_fn E) q (bpm s) = Inr (t, b1)" "bp_UnpinPage (hash_fn E) q False b1 = Inr (True, b2)"
    and pool2: "bp_pool (hash_fn E) ?P X b2"
    and v2: "\<forall>p x. bp_view (hash_fn E) (bpm s) p = Some x \<longrightarrow> bp_view (hash_fn E) b2 p = Some x"
    and at2: "\<forall>p v. 0 < ?P p \<longrightarrow> bp_at (hash_fn E) (bpm s) p v \<longrightarrow> bp_at (hash_fn E) b2 p v"
    and sz2: "bp_upcoming b2 = bp_upcoming (bpm s)" "pool_size b2 = pool_size (bpm s)"
    using pins.fetch_and_unpin [OF held_pool [OF h] P0 q(1) at] .
  obtain b3 where u3: "bp_UnpinPage (hash_fn E) q False b2 = Inr (True, b3)"
    "bp_pool (hash_fn E) (?P(q := ?P q - 1)) X b3" "bp_view (hash_fn E) b3 = bp_view (hash_fn E) b2"
    "bp_at (hash_fn E) b3 = bp_at (hash_fn E) b2" "bp_upcoming b3 = bp_upcoming b2" "pool_size b3 = pool_size b2"
    using pins.unpin_law [OF pool2, of q False] P q(2) by auto
  let ?L = "(rwlatch s)(t := rw_init)"
  have t0: "t \<noteq> 0" "rwlatch s t = latched False"
    using held_data(4) [OF h, of q t] held_latch [OF h] by simp_all
  have "t \<notin> snd ` set K"
  proof
    assume "t \<in> snd ` set K"
    then obtain p where "(p, t) \<in> set K" by auto
    with held_frame_unique [OF h, of p t q t] qK show False by force
  qed
  moreover have "bp_at (hash_fn E) b3 (fst x) (snd x)" if "x \<in> set K" for x
    using at2 u3(4) held_at [OF h, of "fst x" "snd x"] once_pos [of "fst x" "snd x" "(q, t) # K"] that by simp
  ultimately have "held E False K X (s\<lparr>bpm := b3, rwlatch := ?L\<rparr>)"
    using h u3(2) [unfolded once_drop [OF qK]] by (auto simp: held_def fun_eq_iff)
  moreover have "bindS (t_UnlockPage E False q) (\<lambda>_. bindS (t_UnpinPage E q False) (\<lambda>_. retS ())) s =
      Inr ((), s\<lparr>bpm := b3, rwlatch := ?L\<rparr>)"
    using f u3(1) t_Unlock_held [of t "s\<lparr>bpm := b1\<rparr>" False] t0
    by (simp add: op_simps t_UnlockPage_def t_FetchPage_def t_UnpinPage_def)
  ultimately show thesis using that [where b = b3 and L = ?L] v2 sz2 u3(3,5,6) by simp
qed

text \<open>What stays the same while an operation only reads and moves along the tree.\<close>

definition kept :: "bpt_env \<Rightarrow> BPlusTree \<Rightarrow> BPlusTree \<Rightarrow> bool" where
  "kept E s s' \<longleftrightarrow> index_name s' = index_name s \<and> root_page_id s' = root_page_id s \<and>
     clear_pages (transaction s') = clear_pages (transaction s) \<and>
     pool_size (bpm s') = pool_size (bpm s) \<and> bp_upcoming (bpm s') = bp_upcoming (bpm s) \<and>
     (\<forall>p x. bp_view (hash_fn E) (bpm s) p = Some x \<longrightarrow> bp_view (hash_fn E) (bpm s') p = Some x)"

lemma kept_refl: "kept E s s"
  by (simp add: kept_def)

lemma kept_trans: "kept E s s1 \<Longrightarrow> kept E s1 s2 \<Longrightarrow> kept E s s2"
  by (simp add: kept_def)

lemma clear_pages_idem [simp]: "clear_pages (clear_pages tx) = clear_pages tx"
  by (cases tx) (simp_all add: clear_pages_def)

lemma clear_pages_simps [simp]:
  "clear_pages None = None" "clear_pages (Some t) = Some (t\<lparr>page_set := []\<rparr>)" "clear_pages tx = None \<longleftrightarrow> tx = None"
  "None = clear_pages tx \<longleftrightarrow> tx = None"
  by (auto simp: clear_pages_def)

lemma FreePages_held:
  assumes h: "held E excl (H @ K) X s" and r: "recorded H excl s" and l: "root_lock excl s"
    and n: "transaction s = None \<Longrightarrow> \<exists>t. H = [(cur, t)] \<and> pid_ok cur" and c: "excl \<or> X \<inter> fst ` set H = {}"
  obtains s' where "FreePagesInTransaction E excl cur s = Inr ((), s')"
    and "held E excl K (if excl then X - fst ` set H else X) s'" and "root_free s'" and "recorded [] excl s'"
    and "kept E s s'"
proof -
  let ?s = "s\<lparr>mMutex := rw_init, mRootLockedCnt := 0\<rparr>"
  have h1: "held E excl (H @ K) X ?s" using h by (rule held_bpm_cong) simp_all
  show thesis
  proof (cases "transaction s")
    case None
    then obtain t where H: "H = [(cur, t)]" "pid_ok cur" and e: "\<not> excl" "cur \<notin> X"
      using n r c by (auto simp: recorded_def)
    obtain b L where f: "bindS (t_UnlockPage E False cur) (\<lambda>_. bindS (t_UnpinPage E cur False) (\<lambda>_. retS ())) ?s =
        Inr ((), ?s\<lparr>bpm := b, rwlatch := L\<rparr>)" "held E False K X (?s\<lparr>bpm := b, rwlatch := L\<rparr>)"
      "\<forall>p x. bp_view (hash_fn E) (bpm ?s) p = Some x \<longrightarrow> bp_view (hash_fn E) b p = Some x"
      "pool_size b = pool_size (bpm ?s)" "bp_upcoming b = bp_upcoming (bpm ?s)"
      by (rule held_refetch [of E cur t K X ?s]) (use h1 H e in auto)
    have "FreePagesInTransaction E excl cur s = Inr ((), ?s\<lparr>bpm := b, rwlatch := L\<rparr>)"
      using f(1) e H(2) None TryUnlock_root [OF l] by (simp add: FreePagesInTransaction_def op_simps pid_ok_def)
    then show thesis
      by (rule that) (use f(2-5) e None in \<open>auto simp: root_free_def recorded_def kept_def\<close>)
  next
    case (Some t)
    then have t: "page_set t = map snd H" "deleted_page_set t = {}" using r by (simp_all add: recorded_def)
    obtain b L where f: "free_pages E excl (map snd H) ?s = Inr ((), ?s\<lparr>bpm := b, rwlatch := L\<rparr>)"
      "held E excl K (if excl then X - fst ` set H else X) (?s\<lparr>bpm := b, rwlatch := L\<rparr>)"
      "bp_view (hash_fn E) b = bp_view (hash_fn E) (bpm ?s)" "pool_size b = pool_size (bpm ?s)"
      "bp_upcoming b = bp_upcoming (bpm ?s)"
      using free_pages_held [OF h1 _ t(2) c] Some by auto
    let ?s' = "?s\<lparr>bpm := b, rwlatch := L, transaction := Some (t\<lparr>page_set := []\<rparr>)\<rparr>"
    have "FreePagesInTransaction E excl cur s = Inr ((), ?s')"
      using f(1) t Some TryUnlock_root [OF l] by (simp add: FreePagesInTransaction_def op_simps)
    then show thesis
      by (rule that) (use f(2-5) t Some in \<open>auto simp: root_free_def recorded_def kept_def intro: held_bpm_cong\<close>)
  qed
qed

text \<open>
  One step of the crabbing protocol: the next page is taken, and the pages held so far are released
  if the operation reads or the next page cannot split or shrink.
\<close>

definition lets_go :: "OperationType \<Rightarrow> int \<Rightarrow> byte list \<Rightarrow> bool" where
  "lets_go opr previous d \<longleftrightarrow> previous > 0 \<and> (opr = OpRead \<or> isSafe (header_view d) opr = Inr True)"

lemma isSafe_total: "opr \<noteq> OpRead \<Longrightarrow> \<exists>b. isSafe p opr = Inr b"
  by (cases opr) (simp_all add: isSafe_def Let_def)

lemma Crab_held:
  assumes h: "held E (opr \<noteq> OpRead) H {} s" and r: "recorded H (opr \<noteq> OpRead) s" and l: "root_lock (opr \<noteq> OpRead) s"
    and q: "q \<notin> fst ` set H" "pid_ok q" "bp_view (hash_fn E) (bpm s) q = Some d" and room: "length H < pool_size (bpm s)"
    and p: "H = [] \<and> previous = - 1 \<or> (\<exists>H0 t0. H = H0 @ [(previous, t0)] \<and> 0 < previous \<and> pid_ok previous)"
    and H': "H' = (if lets_go opr previous d then [] else H)"
  obtains t s' where "CrabingProtocalFetchPage E q opr previous s = Inr (t, s')"
    and "held E (opr \<noteq> OpRead) (H' @ [(q, t)]) {} s'" and "recorded (H' @ [(q, t)]) (opr \<noteq> OpRead) s'"
    and "root_lock (opr \<noteq> OpRead) s'" and "kept E s s'"
proof -
  let ?e = "opr \<noteq> OpRead"
  obtain t b where f: "t_FetchPage E q s = Inr (t, s\<lparr>bpm := b\<rparr>)" "t \<noteq> 0"
    "t_Lock ?e t (s\<lparr>bpm := b\<rparr>) = Inr ((), s\<lparr>bpm := b, rwlatch := (rwlatch s)(t := latched ?e)\<rparr>)"
    "held E ?e (H @ [(q, t)]) {} (s\<lparr>bpm := b, rwlatch := (rwlatch s)(t := latched ?e)\<rparr>)"
    "\<forall>p x. bp_view (hash_fn E) (bpm s) p = Some x \<longrightarrow> bp_view (hash_fn E) b p = Some x"
    "pool_size b = pool_size (bpm s)" "bp_upcoming b = bp_upcoming (bpm s)"
    "\<forall>p u. bp_at (hash_fn E) b p u \<longrightarrow> p \<noteq> q \<longrightarrow> bp_at (hash_fn E) (bpm s) p u"
    using held_fetch [OF h q room] .
  let ?s = "s\<lparr>bpm := b, rwlatch := (rwlatch s)(t := latched ?e)\<rparr>"
  have k: "kept E s ?s" using f(5-7) by (simp add: kept_def)
  have dat: "t_data t ?s = Inr (d, ?s)"
    using held_data(1,2) [OF f(4), of q t] f(5) q(3) by auto
  have r1: "recorded H ?e ?s" and l1: "root_lock ?e ?s" using r l by (simp_all add: recorded_def root_lock_def)
  obtain s1 where s1: "(if lets_go opr previous d then FreePagesInTransaction E ?e previous else retS ()) ?s = Inr ((), s1)"
    "held E ?e (H' @ [(q, t)]) {} s1" "recorded H' ?e s1" "root_lock ?e s1" "kept E ?s s1"
  proof (cases "lets_go opr previous d")
    case True
    have n: "\<exists>t. H = [(previous, t)] \<and> pid_ok previous" if "transaction ?s = None"
      using p True r that by (auto simp: recorded_def lets_go_def)
    have c: "?e \<or> {} \<inter> fst ` set H = {}" and X: "(if ?e then {} - fst ` set H else {}) = ({} :: int set)" by simp_all
    obtain s' where
      "FreePagesInTransaction E ?e previous ?s = Inr ((), s')" "held E ?e [(q, t)] {} s'" "root_free s'"
      "recorded [] ?e s'" "kept E ?s s'"
      using FreePages_held [OF f(4) r1 l1 n c, unfolded X] .
    then show thesis using True H' that by (simp add: root_free_def root_lock_def)
  next
    case False
    then show thesis using f(4) r1 l1 H' that [of ?s] by (simp add: retS_def kept_refl)
  qed
  have "recorded (H' @ [(q, t)]) ?e (s1\<lparr>transaction := map_option (\<lambda>x. txn_AddIntoPageSet x t) (transaction s1)\<rparr>)"
    if "transaction s1 \<noteq> None \<or> H' = []"
    using s1(3) that by (auto simp: recorded_def txn_AddIntoPageSet_def split: option.splits)
  moreover have "transaction s1 \<noteq> None \<or> H' = []"
  proof (cases "transaction s1")
    case None
    then have "transaction s = None" using s1(5) k by (simp add: kept_def)
    then have "lets_go opr previous d \<or> H = []" using p r by (auto simp: recorded_def lets_go_def)
    then show ?thesis using H' by auto
  qed simp
  moreover let ?s' = "s1\<lparr>transaction := map_option (\<lambda>x. txn_AddIntoPageSet x t) (transaction s1)\<rparr>"
  have add: "(if transaction s1 \<noteq> None then t_AddIntoPageSet t else retS ()) s1 = Inr ((), ?s')"
    by (cases "transaction s1") (simp_all add: t_AddIntoPageSet_def retS_def)
  have node: "t_node t ?s = Inr (header_view d, ?s)" using dat by (simp add: t_node_def op_simps)
  have go: "(if previous > 0 then (if \<not> ?e then retS True else liftS (isSafe (header_view d) opr)) else retS False) ?s =
      Inr (lets_go opr previous d, ?s)"
    using isSafe_total [of opr "header_view d"] by (auto simp: lets_go_def retS_def liftS_def)
  have "CrabingProtocalFetchPage E q opr previous s = Inr (t, ?s')"
    unfolding CrabingProtocalFetchPage_def Let_def
    by (rule bindS_step, rule f(1), rule bindS_step, rule f(3), rule bindS_step, rule node, rule bindS_step, rule go,
        rule bindS_step, rule s1(1), rule getS_step, rule bindS_step, rule add, simp add: retS_def)
  moreover have "kept E s1 ?s'"
    by (cases "transaction s1") (simp_all add: kept_def txn_AddIntoPageSet_def)
  ultimately show thesis
    using that [of t ?s'] s1(2,4) kept_trans [OF k kept_trans [OF s1(5)]]
    by (simp add: root_lock_def held_bpm_cong)
qed

end
