(* ===== verification/Bpt_Order.thy ===== *)
theory Bpt_Order
  imports Bpt_Page
begin

text \<open>
  What a page of the B+ tree does with a comparator that orders its keys: the binary searches find
  the right position, a leaf page is an ordered map, an internal page sends a key to the child
  whose range contains it. The comparator and its order are the interface \<^verbatim>\<open>key_order\<close>.
\<close>

section \<open>Arrays\<close>

text \<open>The part of an array that is in use, and the shifts that open and close a position.\<close>

lemma shift_up_ok:
  assumes "index \<le> i" and "i < length a"
  shows "shift_up a (int i) (int index) =
    ok (take (Suc index) a @ take (i - index) (drop index a) @ drop (Suc i) a)"
  using assms
proof (induction "i - index" arbitrary: i a)
  case 0
  then show ?case by (simp add: shift_up.simps Suc_leI)
next
  case (Suc n)
  define b where "b = a[i := a ! (i - 1)]"
  have i: "index \<le> i - 1" "i - 1 < length b" "0 < i" "index < i"
    using Suc.hyps(2) Suc.prems by (auto simp: b_def)
  have at: "vec_at a (int i - 1) = ok (a ! (i - 1))" "vec_set a (int i) (a ! (i - 1)) = ok b"
    using i Suc.prems by (auto simp: vec_at_def b_def nat_diff_distrib)
  have pred: "int i - 1 = int (i - 1)" using i by simp
  have "shift_up a (int i) (int index) = shift_up b (int i - 1) (int index)"
    using i at by (subst shift_up.simps) simp
  then have "shift_up a (int i) (int index) = shift_up b (int (i - 1)) (int index)"
    unfolding pred .
  also have "\<dots> = ok (take (Suc index) b @ take (i - 1 - index) (drop index b) @ drop (Suc (i - 1)) b)"
  proof (rule Suc.hyps(1) [OF _ i(1,2)])
    show "n = i - 1 - index" using Suc.hyps(2) by linarith
  qed
  also have "take (Suc index) b @ take (i - 1 - index) (drop index b) @ drop (Suc (i - 1)) b =
    take (Suc index) a @ take (i - index) (drop index a) @ drop (Suc i) a"
  proof -
    have "take (Suc index) b = take (Suc index) a" using i by (simp add: b_def)
    moreover have "take (i - 1 - index) (drop index b) = take (i - 1 - index) (drop index a)"
      using i by (simp add: b_def take_drop)
    moreover have "drop (Suc (i - 1)) b = a ! (i - 1) # drop (Suc i) a"
      using i Suc.prems Cons_nth_drop_Suc [of i b] by (simp add: b_def)
    moreover have "i - index = Suc (i - 1 - index)" using i by simp
    then have "take (i - index) (drop index a) = take (i - 1 - index) (drop index a) @ [a ! (i - 1)]"
      using i Suc.prems by (simp add: take_Suc_conv_app_nth)
    ultimately show ?thesis by simp
  qed
  finally show ?case .
qed

lemma insert_array:
  assumes "index \<le> n" and "n < length a"
  shows "bindE (shift_up a (int n) (int index)) (\<lambda>b. vec_set b (int index) x) =
    ok (take index a @ x # take (n - index) (drop index a) @ drop (Suc n) a)"
proof -
  have "length (take (Suc index) a @ take (n - index) (drop index a) @ drop (Suc n) a) = length a"
    using assms by simp
  moreover have "(take (Suc index) a @ take (n - index) (drop index a) @ drop (Suc n) a)[index := x] =
    take index a @ x # take (n - index) (drop index a) @ drop (Suc n) a"
    using assms list_update_length [of "take index a"]
    by (simp add: take_Suc_conv_app_nth min_absorb2)
  ultimately show ?thesis
    using assms by (simp add: shift_up_ok vec_set_def)
qed

lemma take_insert_array:
  assumes "index \<le> n" and "n < length a"
  shows "take (Suc n) (take index a @ x # take (n - index) (drop index a) @ drop (Suc n) a) =
    take index (take n a) @ x # drop index (take n a)"
  using assms by (auto simp: min_def drop_take Suc_diff_le)

lemma copy_entries_ok:
  assumes "i + n \<le> length src" and "j + n \<le> length dst"
  shows "copy_entries src (int i) dst (int j) n =
    ok (take j dst @ take n (drop i src) @ drop (j + n) dst)"
  using assms
proof (induction n arbitrary: i j dst)
  case (Suc n)
  have "copy_entries src (int i) dst (int j) (Suc n) =
    copy_entries src (int (Suc i)) (dst[j := src ! i]) (int (Suc j)) n"
    using Suc.prems by (simp add: add.commute)
  also have "\<dots> = ok (take (Suc j) (dst[j := src ! i]) @ take n (drop (Suc i) src) @
      drop (Suc j + n) (dst[j := src ! i]))"
    using Suc.IH [of "Suc i" "Suc j" "dst[j := src ! i]"] Suc.prems by simp
  also have "take (Suc j) (dst[j := src ! i]) @ take n (drop (Suc i) src) @
      drop (Suc j + n) (dst[j := src ! i]) =
    take j dst @ take (Suc n) (drop i src) @ drop (j + Suc n) dst"
    using Suc.prems by (simp add: take_Suc_conv_app_nth Cons_nth_drop_Suc [symmetric])
  finally show ?case .
qed simp

section \<open>Pages as ordered maps\<close>

text \<open>
  The entries in use, and the ordered map they stand for when keys are replaced by their ranks. A
  leaf is in order when that list is an ordered map of valid keys.
\<close>

definition entries :: "('k, 'v) LeafPage \<Rightarrow> ('k \<times> 'v) list" where
  "entries p = take (nat (nd_size p)) (nd_array p)"

definition ranked :: "('k \<Rightarrow> 'o) \<Rightarrow> ('k \<times> 'v) list \<Rightarrow> ('o \<times> 'v) list" where
  "ranked rank xs = map (\<lambda>x. (rank (fst x), snd x)) xs"

definition leaf_ok :: "('k \<Rightarrow> bool) \<Rightarrow> ('k \<Rightarrow> 'o::linorder) \<Rightarrow> ('k, 'v) LeafPage \<Rightarrow> bool" where
  "leaf_ok valid rank p \<longleftrightarrow>
     0 \<le> nd_size p \<and> nd_size p \<le> int (length (nd_array p)) \<and>
     (\<forall>x \<in> set (entries p). valid (fst x)) \<and> sm_ok (ranked rank (entries p))"

lemma ranked_simps [simp]:
  "ranked rank [] = []" "ranked rank (x # xs) = (rank (fst x), snd x) # ranked rank xs"
  "ranked rank (xs @ ys) = ranked rank xs @ ranked rank ys"
  "ranked rank (take n xs) = take n (ranked rank xs)"
  "ranked rank (drop n xs) = drop n (ranked rank xs)"
  "length (ranked rank xs) = length xs"
  by (simp_all add: ranked_def take_map drop_map)

lemma ranked_nth [simp]: "i < length xs \<Longrightarrow> ranked rank xs ! i = (rank (fst (xs ! i)), snd (xs ! i))"
  by (simp add: ranked_def)

lemma set_ranked [simp]: "set (ranked rank xs) = (\<lambda>x. (rank (fst x), snd x)) ` set xs"
  by (simp add: ranked_def)

lemma length_entries: "leaf_ok valid rank p \<Longrightarrow> length (entries p) = nat (nd_size p)"
  by (auto simp: leaf_ok_def entries_def)

lemma sm_ok_append:
  "sm_ok (xs @ ys) \<longleftrightarrow> sm_ok xs \<and> sm_ok ys \<and> (\<forall>x \<in> set xs. \<forall>y \<in> set ys. fst x < fst y)"
  by (auto simp: sm_ok_def sorted_wrt_append)

lemma sm_insert_append:
  "\<forall>x \<in> set xs. fst x < k \<Longrightarrow> sm_insert k v (xs @ ys) = xs @ sm_insert k v ys"
  by (induction xs) (auto split: prod.splits)

text \<open>The position of a key decides lookup, insertion and removal in an ordered map.\<close>

lemma sm_position:
  assumes "sm_ok (xs @ ys)" and "\<forall>x \<in> set xs. fst x < k" and "\<forall>y \<in> set ys. k \<le> fst y"
  shows "map_of (xs @ ys) k = (if ys \<noteq> [] \<and> fst (hd ys) = k then Some (snd (hd ys)) else None)"
    and "map_of (xs @ ys) k = None \<Longrightarrow> sm_insert k v (xs @ ys) = xs @ (k, v) # ys"
    and "sm_erase k (xs @ ys) = xs @ (if ys \<noteq> [] \<and> fst (hd ys) = k then tl ys else ys)"
proof -
  have xs: "map_of xs k = None" "filter (\<lambda>p. fst p \<noteq> k) xs = xs"
    using assms(2) by (auto simp: map_of_eq_None_iff filter_id_conv)
  show 1: "map_of (xs @ ys) k = (if ys \<noteq> [] \<and> fst (hd ys) = k then Some (snd (hd ys)) else None)"
  proof (cases ys)
    case (Cons y zs)
    have "\<forall>z \<in> set zs. k < fst z"
      using assms(1,3) Cons by (cases y) (fastforce simp: sm_ok_append sm_ok_Cons)
    then show ?thesis using xs(1) Cons map_of_less_None [of zs k] by (auto simp: map_add_def)
  qed (simp add: xs)
  show "sm_insert k v (xs @ ys) = xs @ (k, v) # ys" if "map_of (xs @ ys) k = None"
  proof (cases ys)
    case Nil
    then show ?thesis using sm_insert_append [OF assms(2), of v "[]"] by simp
  next
    case (Cons y zs)
    then have "k < fst y" using that 1 assms(3) by (auto split: if_splits)
    then show ?thesis using sm_insert_append [OF assms(2), of v ys] Cons by (cases y) auto
  qed
  show "sm_erase k (xs @ ys) = xs @ (if ys \<noteq> [] \<and> fst (hd ys) = k then tl ys else ys)"
  proof (cases ys)
    case (Cons y zs)
    have "\<forall>z \<in> set zs. k \<noteq> fst z"
      using assms(1,3) Cons by (cases y) (fastforce simp: sm_ok_append sm_ok_Cons)
    then have "filter (\<lambda>p. fst p \<noteq> k) zs = zs" by (auto simp: filter_id_conv)
    then show ?thesis using xs(2) Cons by (simp add: sm_erase_def)
  qed (simp add: sm_erase_def xs(2))
qed

text \<open>
  An internal page in order: at least two children, valid and increasing separators (the first key
  is not one). The linear search \<^verbatim>\<open>route\<close> is the reference for the binary one: it moves to the next child
  as long as its separator is not above the key.
\<close>

definition children :: "'k InternalPage \<Rightarrow> ('k \<times> int) list" where
  "children p = take (nat (nd_size p)) (nd_children p)"

definition internal_ok :: "('k \<Rightarrow> bool) \<Rightarrow> ('k \<Rightarrow> 'o::linorder) \<Rightarrow> 'k InternalPage \<Rightarrow> bool" where
  "internal_ok valid rank p \<longleftrightarrow>
     1 < nd_size p \<and> nd_size p \<le> int (length (nd_children p)) \<and>
     (\<forall>x \<in> set (tl (children p)). valid (fst x)) \<and> sm_ok (ranked rank (tl (children p)))"

fun route :: "int \<Rightarrow> ('o::linorder \<times> int) list \<Rightarrow> 'o \<Rightarrow> int" where
  "route c [] k = c"
| "route c ((s, d) # xs) k = (if s \<le> k then route d xs k else c)"

lemma route_position:
  assumes "r \<le> length xs" and "\<forall>i < r. fst (xs ! i) \<le> k" and "r < length xs \<Longrightarrow> k < fst (xs ! r)"
  shows "route c xs k = (if r = 0 then c else snd (xs ! (r - 1)))"
  using assms
proof (induction xs arbitrary: r c)
  case (Cons x xs)
  show ?case
  proof (cases r)
    case 0
    then show ?thesis using Cons.prems(3) by (cases x) auto
  next
    case (Suc n)
    have "fst x \<le> k" using Cons.prems(2) Suc by fastforce
    moreover have "\<forall>i < n. fst (xs ! i) \<le> k" using Cons.prems(2) Suc by fastforce
    ultimately show ?thesis
      using Cons.IH [of n "snd x"] Cons.prems(1,3) Suc by (cases x) (auto simp: nth_Cons')
  qed
qed simp

lemma route_below: "\<forall>x \<in> set xs. k < fst x \<Longrightarrow> route c xs k = c"
  by (cases xs) auto

lemma route_in: "route c xs k = c \<or> route c xs k \<in> snd ` set xs"
  by (induction c xs k rule: route.induct) auto

lemma route_above: "xs \<noteq> [] \<Longrightarrow> fst (hd xs) \<le> k \<Longrightarrow> route c xs k = route c' xs k"
  by (cases xs) auto

text \<open>A separator inserted in order takes over the keys from it on of the child before it.\<close>

lemma route_insert:
  assumes "\<forall>x \<in> set A. fst x < s" and "\<forall>x \<in> set B. s < fst x" and "sm_ok B"
  shows "route c (A @ (s, d) # B) k =
    (if s \<le> k \<and> (\<forall>x \<in> set B. k < fst x) then d else route c (A @ B) k)"
  using assms
proof (induction A arbitrary: c)
  case Nil
  show ?case
  proof (cases B)
    case (Cons b B')
    then have "(\<forall>x \<in> set B. k < fst x) \<longleftrightarrow> k < fst b"
      using Nil.prems(3) by (cases b) (auto simp: sm_ok_Cons)
    then show ?thesis using Cons Nil.prems(2) by (cases b) auto
  qed simp
next
  case (Cons x A)
  then show ?case by (cases x) auto
qed

lemma route_takeover:
  assumes "\<forall>x \<in> set A. fst x < s" and "\<forall>x \<in> set B. s < fst x" and "sm_ok (A @ B)"
    and "old = (if A = [] then c else snd (last A))" and "old \<notin> snd ` set B"
  shows "route c (A @ (s, d) # B) k =
    (if route c (A @ B) k = old \<and> s \<le> k then d else route c (A @ B) k)"
proof -
  have pre: "route c (A @ B) k = route old B k" if "s \<le> k"
    using assms(1,4) that
  proof (induction A arbitrary: c)
    case (Cons x A)
    then show ?case by (cases x) (auto split: if_splits)
  qed simp
  have B: "sm_ok B" using assms(3) by (simp add: sm_ok_append)
  have stay: "route old B k = old \<longleftrightarrow> (\<forall>x \<in> set B. k < fst x)"
  proof
    assume "route old B k = old"
    show "\<forall>x \<in> set B. k < fst x"
    proof (cases B)
      case (Cons b B')
      then have "k < fst b"
        using \<open>route old B k = old\<close> route_in [of "snd b" B' k] assms(5) by (cases b) (auto split: if_splits)
      then show ?thesis using B Cons by (cases b) (auto simp: sm_ok_Cons)
    qed simp
  qed (rule route_below)
  show ?thesis using route_insert [OF assms(1,2) B, of c d k] pre stay by (cases "s \<le> k") simp_all
qed

text \<open>The position of a child and the entry inserted behind it.\<close>

lemma value_index_from_ok:
  assumes "i + n = m" and "m \<le> length (nd_children p)" and "i \<le> j" and "j < m"
    and "snd (nd_children p ! j) = v" and "\<forall>l < j. snd (nd_children p ! l) \<noteq> v"
  shows "value_index_from p v (int i) n = ok (int j)"
  using assms
proof (induction n arbitrary: i)
  case (Suc n)
  have at: "internal_ValueAt p (int i) = ok (snd (nd_children p ! i))"
    using Suc.prems by (simp add: internal_ValueAt_def)
  show ?case
  proof (cases "i = j")
    case True
    then show ?thesis using at Suc.prems(5) by simp
  next
    case False
    then have "value_index_from p v (int (Suc i)) n = ok (int j)"
      using Suc.IH [of "Suc i"] Suc.prems by simp
    moreover have "v \<noteq> snd (nd_children p ! i)" using Suc.prems(3,6) False by (metis le_neq_implies_less)
    ultimately show ?thesis using at by (simp add: add.commute)
  qed
qed simp

lemma InsertNodeAfter_ok:
  assumes "0 \<le> nd_size p" and "nd_size p < int (length (nd_children p))"
    and "children p = A @ (k, old) # B" and "old \<notin> snd ` set A"
  obtains q where "internal_InsertNodeAfter p old key new = ok (q, nd_size p + 1)"
    and "nd_size q = nd_size p + 1" and "children q = A @ (k, old) # (key, new) # B"
    and "length (nd_children q) = length (nd_children p)"
proof -
  define n where "n = length (children p)"
  define j where "j = length A"
  have n: "nd_size p = int n" "n < length (nd_children p)" "children p = take n (nd_children p)"
    using assms(1,2) by (auto simp: n_def children_def)
  have j: "j < n" using assms(3) by (simp add: n_def j_def)
  have at: "nd_children p ! i = children p ! i" if "i < n" for i using that n(3) by (metis nth_take)
  have "snd (nd_children p ! j) = old" using at [OF j] assms(3) by (simp add: j_def)
  moreover have "\<forall>l < j. snd (nd_children p ! l) \<noteq> old"
    using at j assms(3,4) by (auto simp: j_def nth_append)
  ultimately have "internal_ValueIndex p old = ok (int j)"
    using value_index_from_ok [of 0 n n p j old] n j by (simp add: internal_ValueIndex_def)
  moreover define a where "a = take (Suc j) (nd_children p) @ (key, new) #
    take (n - Suc j) (drop (Suc j) (nd_children p)) @ drop (Suc n) (nd_children p)"
  moreover have "bindE (shift_up (nd_children p) (int n) (int (Suc j)))
    (\<lambda>b. vec_set b (int (Suc j)) (key, new)) = ok a"
    using insert_array [of "Suc j" n "nd_children p" "(key, new)"] j n(2) unfolding a_def by simp
  moreover define q where "q = p\<lparr>nd_size := nd_size p + 1, nd_children := a\<rparr>"
  ultimately have "internal_InsertNodeAfter p old key new = ok (q, nd_size p + 1)"
    using n(1) by (simp add: internal_InsertNodeAfter_def IncreaseSize_def Let_def add.commute bindE_assoc [symmetric])
  moreover have "children q = A @ (k, old) # (key, new) # B"
  proof -
    have "children q = take (Suc j) (children p) @ (key, new) # drop (Suc j) (children p)"
      using take_insert_array [of "Suc j" n "nd_children p" "(key, new)"] j n(2) unfolding n(3)
      by (simp add: q_def children_def a_def n(1) nat_add_distrib)
    then show ?thesis by (simp add: assms(3) j_def)
  qed
  moreover have "length a = length (nd_children p)" using j n(2) by (simp add: a_def)
  ultimately show thesis using that [of q] by (simp add: q_def)
qed

section \<open>The comparator\<close>

text \<open>
  A comparator that never fails on the valid keys and orders them by their rank in a linear order.
\<close>

locale key_order =
  fixes cmp :: "'k \<Rightarrow> 'k \<Rightarrow> int res"
    and valid :: "'k \<Rightarrow> bool"
    and rank :: "'k \<Rightarrow> 'o::linorder"
  assumes cmp_rank: "valid a \<Longrightarrow> valid b \<Longrightarrow>
    \<exists>c. cmp a b = ok c \<and> (c < 0 \<longleftrightarrow> rank a < rank b) \<and> (c > 0 \<longleftrightarrow> rank a > rank b)"
begin

lemma cmp_ok:
  assumes "valid a" and "valid b"
  obtains c where "cmp a b = ok c" and "c \<ge> 0 \<longleftrightarrow> rank b \<le> rank a" and "c \<le> 0 \<longleftrightarrow> rank a \<le> rank b"
    and "c = 0 \<longleftrightarrow> rank a = rank b"
  using cmp_rank [OF assms] by (metis leD linorder_less_linear not_le order_less_imp_not_eq)

text \<open>The search of a leaf: the first position whose key is not below the searched one.\<close>

lemma leaf_search_ok:
  assumes "b \<le> e" and "e \<le> n" and "n \<le> length a" and "valid key"
    and "\<forall>i < n. valid (fst (a ! i))"
    and "\<forall>i < n. \<forall>j < n. i \<le> j \<longrightarrow> rank (fst (a ! i)) \<le> rank (fst (a ! j))"
    and "\<forall>i < b. rank (fst (a ! i)) < rank key"
    and "\<forall>i. e \<le> i \<and> i < n \<longrightarrow> rank key \<le> rank (fst (a ! i))"
  shows "\<exists>r. leaf_search cmp a key (int b) (int e - 1) = ok (int r) \<and> r \<le> n \<and>
    (\<forall>i < r. rank (fst (a ! i)) < rank key) \<and>
    (\<forall>i. r \<le> i \<and> i < n \<longrightarrow> rank key \<le> rank (fst (a ! i)))"
  using assms
proof (induction "e - b" arbitrary: b e rule: less_induct)
  case less
  show ?case
  proof (cases "b = e")
    case True
    then show ?thesis using less.prems by (intro exI [of _ e]) (simp add: leaf_search.simps)
  next
    case False
    define m where "m = (e - 1 - b) div 2 + b"
    have m: "b \<le> m" "m < e" using less.prems(1) False by (auto simp: m_def)
    have mid: "(int e - 1 - int b) div 2 + int b = int m"
      using less.prems(1) False by (simp add: m_def of_nat_diff zdiv_int)
    have va: "valid (fst (a ! m))" using less.prems m by simp
    obtain c where c: "cmp (fst (a ! m)) key = ok c" "c \<ge> 0 \<longleftrightarrow> rank key \<le> rank (fst (a ! m))"
      using cmp_ok [OF va less.prems(4)] .
    have unf: "leaf_search cmp a key (int b) (int e - 1) =
      (if c \<ge> 0 then leaf_search cmp a key (int b) (int m - 1)
       else leaf_search cmp a key (int (Suc m)) (int e - 1))"
      using m mid c(1) less.prems by (subst leaf_search.simps) (simp add: add.commute)
    show ?thesis
    proof (cases "c \<ge> 0")
      case True
      have "\<forall>i. m \<le> i \<and> i < n \<longrightarrow> rank key \<le> rank (fst (a ! i))"
        using c(2) True less.prems(2,6) m by (meson le_less_trans less_le_trans order_trans)
      then show ?thesis using less.hyps [of m b] less.prems m unf True by simp
    next
      case False
      have "\<forall>i < Suc m. rank (fst (a ! i)) < rank key"
        using c(2) False less.prems(2,6) m
        by (metis leI le_less_trans less_Suc_eq_le less_le_trans)
      then show ?thesis using less.hyps [of e "Suc m"] less.prems m unf False by simp
    qed
  qed
qed

text \<open>The search of an internal page: the last separator that is not above the key.\<close>

lemma internal_search_ok:
  assumes "1 \<le> b" and "b \<le> e" and "e \<le> n" and "n \<le> length a" and "valid key"
    and "\<forall>i. 1 \<le> i \<and> i < n \<longrightarrow> valid (fst (a ! i))"
    and "\<forall>i j. 1 \<le> i \<and> i \<le> j \<and> j < n \<longrightarrow> rank (fst (a ! i)) \<le> rank (fst (a ! j))"
    and "\<forall>i. 1 \<le> i \<and> i < b \<longrightarrow> rank (fst (a ! i)) \<le> rank key"
    and "\<forall>i. e \<le> i \<and> i < n \<longrightarrow> rank key < rank (fst (a ! i))"
  shows "\<exists>r. internal_search cmp a key (int b) (int e - 1) = ok (int r) \<and> 1 \<le> r \<and> r \<le> n \<and>
    (\<forall>i. 1 \<le> i \<and> i < r \<longrightarrow> rank (fst (a ! i)) \<le> rank key) \<and>
    (\<forall>i. r \<le> i \<and> i < n \<longrightarrow> rank key < rank (fst (a ! i)))"
  using assms
proof (induction "e - b" arbitrary: b e rule: less_induct)
  case less
  show ?case
  proof (cases "b = e")
    case True
    then show ?thesis using less.prems by (intro exI [of _ b]) (simp add: internal_search.simps)
  next
    case False
    define m where "m = (e - 1 - b) div 2 + b"
    have m: "b \<le> m" "m < e" using less.prems(2) False by (auto simp: m_def)
    have mid: "(int e - 1 - int b) div 2 + int b = int m"
      using less.prems(2) False by (simp add: m_def of_nat_diff zdiv_int)
    have va: "valid (fst (a ! m))" using less.prems m by simp
    obtain c where c: "cmp (fst (a ! m)) key = ok c" "c \<le> 0 \<longleftrightarrow> rank (fst (a ! m)) \<le> rank key"
      using cmp_ok [OF va less.prems(5)] .
    have unf: "internal_search cmp a key (int b) (int e - 1) =
      (if c \<le> 0 then internal_search cmp a key (int (Suc m)) (int e - 1)
       else internal_search cmp a key (int b) (int m - 1))"
      using m mid c(1) less.prems by (subst internal_search.simps) (simp add: add.commute)
    show ?thesis
    proof (cases "c \<le> 0")
      case True
      have "\<forall>i. 1 \<le> i \<and> i < Suc m \<longrightarrow> rank (fst (a ! i)) \<le> rank key"
        using c(2) True less.prems(3,7) m by (meson le_less_trans less_Suc_eq_le less_le_trans order_trans)
      then show ?thesis using less.hyps [of e "Suc m"] less.prems m unf True by simp
    next
      case False
      have "\<forall>i. m \<le> i \<and> i < n \<longrightarrow> rank key < rank (fst (a ! i))"
        using c(2) False less.prems(1,7) m by (meson leI less_le_trans order_trans)
      then show ?thesis using less.hyps [of m b] less.prems m unf False by simp
    qed
  qed
qed

section \<open>Leaf pages\<close>

lemma leaf_KeyIndex_ok:
  assumes "leaf_ok valid rank p" and "valid key"
  obtains r where "leaf_KeyIndex cmp p key = ok (int r)" and "r \<le> length (entries p)"
    and "\<forall>x \<in> set (take r (ranked rank (entries p))). fst x < rank key"
    and "\<forall>x \<in> set (drop r (ranked rank (entries p))). rank key \<le> fst x"
proof -
  define n where "n = length (entries p)"
  define a where "a = nd_array p"
  have n: "int n = nd_size p" "n \<le> length a"
    using assms(1) by (auto simp: n_def a_def leaf_ok_def entries_def)
  have at: "entries p ! i = a ! i" if "i < n" for i
    using that n by (simp add: entries_def a_def n_def)
  have "sorted_wrt (<) (map fst (ranked rank (entries p)))"
    using assms(1) by (simp add: leaf_ok_def sm_ok_def)
  then have "\<forall>i < n. \<forall>j < n. i < j \<longrightarrow> rank (fst (a ! i)) < rank (fst (a ! j))"
    using at by (simp add: sorted_wrt_iff_nth_less n_def)
  then have srt: "\<forall>i < n. \<forall>j < n. i \<le> j \<longrightarrow> rank (fst (a ! i)) \<le> rank (fst (a ! j))"
    by (metis le_neq_implies_less order.refl order.strict_implies_order)
  have va: "\<forall>i < n. valid (fst (a ! i))"
    using assms(1) at by (metis leaf_ok_def n_def nth_mem)
  have "\<exists>r. leaf_search cmp a key (int 0) (int n - 1) = ok (int r) \<and> r \<le> n \<and>
      (\<forall>i < r. rank (fst (a ! i)) < rank key) \<and>
      (\<forall>i. r \<le> i \<and> i < n \<longrightarrow> rank key \<le> rank (fst (a ! i)))"
    by (rule leaf_search_ok) (use n(2) assms(2) srt va in auto)
  then obtain r where r: "leaf_search cmp a key (int 0) (int n - 1) = ok (int r)" "r \<le> n"
    "\<forall>i < r. rank (fst (a ! i)) < rank key" "\<forall>i. r \<le> i \<and> i < n \<longrightarrow> rank key \<le> rank (fst (a ! i))"
    by blast
  have "\<forall>x \<in> set (take r (entries p)). rank (fst x) < rank key"
    using r(2,3) at by (simp add: all_set_conv_all_nth n_def)
  moreover have "\<forall>x \<in> set (drop r (entries p)). rank key \<le> rank (fst x)"
    using r(2,4) at by (simp add: all_set_conv_all_nth n_def)
  ultimately show thesis
    using r(1,2) n(1) by (intro that [of r]) (auto simp: leaf_KeyIndex_def a_def n_def ranked_def take_map drop_map)
qed

text \<open>Lookup, insertion and removal are those of the ordered map.\<close>

lemma leaf_Lookup_ok:
  assumes "leaf_ok valid rank p" and "valid key"
  shows "leaf_Lookup cmp p key = ok (map_of (ranked rank (entries p)) (rank key))"
proof -
  obtain r where r: "leaf_KeyIndex cmp p key = ok (int r)" "r \<le> length (entries p)"
    "\<forall>x \<in> set (take r (ranked rank (entries p))). fst x < rank key"
    "\<forall>x \<in> set (drop r (ranked rank (entries p))). rank key \<le> fst x"
    using leaf_KeyIndex_ok [OF assms] .
  have n: "nd_size p = int (length (entries p))" "length (entries p) \<le> length (nd_array p)"
    "entries p = take (length (entries p)) (nd_array p)"
    using assms(1) by (auto simp: leaf_ok_def entries_def)
  have m: "map_of (ranked rank (entries p)) (rank key) =
    (if r < length (entries p) \<and> rank (fst (entries p ! r)) = rank key
     then Some (snd (entries p ! r)) else None)"
    using sm_position(1) [of "take r (ranked rank (entries p))" "drop r (ranked rank (entries p))" "rank key"]
      r(3,4) assms(1) by (simp add: leaf_ok_def hd_drop_conv_nth cong: conj_cong)
  show ?thesis
  proof (cases "r < length (entries p)")
    case True
    have at: "nd_array p ! r = entries p ! r" using True n(3) by (metis nth_take)
    have "valid (fst (entries p ! r))" using assms(1) True by (simp add: leaf_ok_def)
    then obtain c where "cmp (fst (entries p ! r)) key = ok c" "c = 0 \<longleftrightarrow> rank (fst (entries p ! r)) = rank key"
      using cmp_ok [OF _ assms(2)] by metis
    then show ?thesis using m r(1) n(1,2) True at by (simp add: leaf_Lookup_def)
  qed (use m r(1) n(1) in \<open>simp add: leaf_Lookup_def\<close>)
qed

lemma leaf_Insert_ok:
  fixes p :: "('k, 'v) LeafPage"
  assumes "leaf_ok valid rank p" and "valid key" and "length (entries p) < length (nd_array p)"
    and "map_of (ranked rank (entries p)) (rank key) = None"
  obtains a where "leaf_Insert cmp p key v = ok (p\<lparr>nd_size := nd_size p + 1, nd_array := a\<rparr>, nd_size p + 1)"
    and "length a = length (nd_array p)"
    and "leaf_ok valid rank (p\<lparr>nd_size := nd_size p + 1, nd_array := a\<rparr>)"
    and "ranked rank (entries (p\<lparr>nd_size := nd_size p + 1, nd_array := a\<rparr>)) =
      sm_insert (rank key) v (ranked rank (entries p))"
    and "set a \<subseteq> insert (key, v) (set (nd_array p))"
proof -
  obtain r where r: "leaf_KeyIndex cmp p key = ok (int r)" "r \<le> length (entries p)"
    "\<forall>x \<in> set (take r (ranked rank (entries p))). fst x < rank key"
    "\<forall>x \<in> set (drop r (ranked rank (entries p))). rank key \<le> fst x"
    using leaf_KeyIndex_ok [OF assms(1,2)] .
  define n where "n = length (entries p)"
  have n: "nd_size p = int n" "n < length (nd_array p)" "entries p = take n (nd_array p)"
    using assms(1,3) by (auto simp: n_def leaf_ok_def entries_def)
  have rn: "r \<le> n" using r(2) by (simp add: n_def)
  define a where "a = take r (nd_array p) @ (key, v) # take (n - r) (drop r (nd_array p)) @ drop (Suc n) (nd_array p)"
  define q where "q = p\<lparr>nd_size := nd_size p + 1, nd_array := a\<rparr>"
  have "leaf_Insert cmp p key v = ok (q, nd_size p + 1)"
    using r(1) rn n(1,2) insert_array [of r n "nd_array p" "(key, v)"]
    by (simp add: leaf_Insert_def IncreaseSize_def a_def q_def Let_def bindE_assoc [symmetric])
  moreover have la: "length a = length (nd_array p)" using rn n(2) by (simp add: a_def)
  moreover have es: "entries q = take r (entries p) @ (key, v) # drop r (entries p)"
    using take_insert_array [of r n "nd_array p" "(key, v)"] rn n(2) unfolding n(3)
    by (simp add: q_def entries_def a_def nat_add_distrib n(1))
  moreover have ins: "ranked rank (entries q) = sm_insert (rank key) v (ranked rank (entries p))"
    using sm_position(2) [of "take r (ranked rank (entries p))" "drop r (ranked rank (entries p))" "rank key" v]
      r(3,4) assms(1,4) by (simp add: leaf_ok_def es)
  moreover have "leaf_ok valid rank q"
    using assms(1,2) n(1,2) la ins sm_ok_insert [of "ranked rank (entries p)" "rank key" v] es
    by (auto simp: leaf_ok_def q_def dest: in_set_takeD in_set_dropD)
  moreover have "set a \<subseteq> insert (key, v) (set (nd_array p))"
    by (auto simp: a_def dest: in_set_takeD in_set_dropD)
  ultimately show thesis using that [of a] by (simp add: q_def)
qed

lemma leaf_Remove_ok:
  fixes p :: "('k, 'v) LeafPage"
  assumes "leaf_ok valid rank p" and "valid key"
  obtains n a where "leaf_RemoveAndDeleteRecord cmp p key = ok (p\<lparr>nd_size := n, nd_array := a\<rparr>, n)"
    and "length a = length (nd_array p)" and "leaf_ok valid rank (p\<lparr>nd_size := n, nd_array := a\<rparr>)"
    and "ranked rank (entries (p\<lparr>nd_size := n, nd_array := a\<rparr>)) =
      sm_erase (rank key) (ranked rank (entries p))"
    and "set a \<subseteq> set (nd_array p)" and "nd_size p - 1 \<le> n"
proof -
  obtain r where r: "leaf_KeyIndex cmp p key = ok (int r)" "r \<le> length (entries p)"
    "\<forall>x \<in> set (take r (ranked rank (entries p))). fst x < rank key"
    "\<forall>x \<in> set (drop r (ranked rank (entries p))). rank key \<le> fst x"
    using leaf_KeyIndex_ok [OF assms] .
  have n: "nd_size p = int (length (entries p))" "length (entries p) \<le> length (nd_array p)"
    "entries p = take (length (entries p)) (nd_array p)"
    using assms(1) by (auto simp: leaf_ok_def entries_def)
  have tl: "tl (drop r (ranked rank (entries p))) = drop (Suc r) (ranked rank (entries p))"
    by (simp add: drop_Suc tl_drop)
  have er: "sm_erase (rank key) (ranked rank (entries p)) =
    (if r < length (entries p) \<and> rank (fst (entries p ! r)) = rank key
     then ranked rank (take r (entries p) @ drop (Suc r) (entries p)) else ranked rank (entries p))"
    using sm_position(3) [of "take r (ranked rank (entries p))" "drop r (ranked rank (entries p))" "rank key"]
      r(3,4) assms(1) by (simp add: leaf_ok_def hd_drop_conv_nth tl cong: conj_cong)
  consider (absent) "\<not> (r < length (entries p) \<and> rank (fst (entries p ! r)) = rank key)"
    | (present) "r < length (entries p)" "rank (fst (entries p ! r)) = rank key" by blast
  then show thesis
  proof cases
    case absent
    have "leaf_RemoveAndDeleteRecord cmp p key = ok (p, nd_size p)"
    proof (cases "r < length (entries p)")
      case True
      have at: "nd_array p ! r = entries p ! r" using True n(3) by (metis nth_take)
      have "valid (fst (entries p ! r))" using assms(1) True by (simp add: leaf_ok_def)
      then obtain c where "cmp key (fst (entries p ! r)) = ok c" "c \<noteq> 0"
        using cmp_ok [OF assms(2)] absent True by metis
      then show ?thesis using r(1) n(1,2) True at by (simp add: leaf_RemoveAndDeleteRecord_def leaf_KeyAt_def)
    qed (use r(1) n(1) in \<open>simp add: leaf_RemoveAndDeleteRecord_def\<close>)
    then show ?thesis using that [where n = "nd_size p" and a = "nd_array p"] assms(1) absent er by simp
  next
    case present
    define m where "m = length (entries p) - 1"
    define a where "a = take r (nd_array p) @ take (m - r) (drop (Suc r) (nd_array p)) @ drop m (nd_array p)"
    have m: "length (entries p) = Suc m" "r \<le> m" "m < length (nd_array p)"
      using present(1) n(2) by (auto simp: m_def)
    have at: "nd_array p ! r = entries p ! r" using present n(3) by (metis nth_take)
    have "valid (fst (entries p ! r))" using assms(1) present by (simp add: leaf_ok_def)
    then obtain c where c: "cmp key (fst (entries p ! r)) = ok c" "c = 0"
      using cmp_ok [OF assms(2)] present by metis
    have mv: "move_entries (nd_array p) (int r) (int r + 1) (int m - int r) = ok a"
      using m by (auto simp: move_entries_def a_def nat_add_distrib nat_diff_distrib)
    have sz: "nd_size p = 1 + int m" using n(1) m(1) by simp
    have step: "leaf_RemoveAndDeleteRecord cmp p key = ok (p\<lparr>nd_size := int m, nd_array := a\<rparr>, int m)"
      using r(1) sz m at c mv by (simp add: leaf_RemoveAndDeleteRecord_def leaf_KeyAt_def IncreaseSize_def)
    have la: "length a = length (nd_array p)" using m by (simp add: a_def)
    have es: "entries (p\<lparr>nd_size := int m, nd_array := a\<rparr>) = take r (entries p) @ drop (Suc r) (entries p)"
    proof -
      have "entries p = take (Suc m) (nd_array p)" using n(3) m(1) by metis
      then show ?thesis using m(2,3) by (auto simp: entries_def a_def drop_take min_def)
    qed
    have "ranked rank (entries (p\<lparr>nd_size := int m, nd_array := a\<rparr>)) = sm_erase (rank key) (ranked rank (entries p))"
      using present er es by simp
    moreover have "leaf_ok valid rank (p\<lparr>nd_size := int m, nd_array := a\<rparr>)"
      using assms(1) m la calculation sm_ok_erase [of "ranked rank (entries p)"] es
      by (auto simp: leaf_ok_def dest: in_set_takeD in_set_dropD)
    moreover have "set a \<subseteq> set (nd_array p)" by (auto simp: a_def dest: in_set_takeD in_set_dropD)
    ultimately show ?thesis using that [OF step la] sz by simp
  qed
qed

section \<open>Splitting and merging leaves\<close>

text \<open>A full leaf is cut in two: the lower half stays, the upper half goes to the new page.\<close>

lemma leaf_MoveHalfTo_ok:
  assumes "leaf_ok valid rank p" and "nd_size p = nd_max p + 1"
    and "length (nd_array q) = length (nd_array p)"
  obtains p' q' where "leaf_MoveHalfTo p q = ok (p', q')"
    and "leaf_ok valid rank p'" and "leaf_ok valid rank q'"
    and "entries p = entries p' @ entries q'"
    and "nd_size p' = nd_size p div 2" and "nd_size q' = nd_size p - nd_size p div 2"
    and "nd_next p' = nd_id q" and "nd_next q' = nd_next p"
    and "length (nd_array p') = length (nd_array p)" and "length (nd_array q') = length (nd_array p)"
proof -
  define n where "n = length (entries p)"
  define h where "h = n div 2"
  have n: "nd_size p = int n" "n \<le> length (nd_array p)" "entries p = take n (nd_array p)"
    using assms(1) by (auto simp: n_def leaf_ok_def entries_def)
  define b where "b = take (n - h) (drop h (nd_array p)) @ drop (n - h) (nd_array q)"
  define p' where "p' = p\<lparr>nd_next := nd_id q, nd_size := int h\<rparr>"
  define q' where "q' = q\<lparr>nd_array := b, nd_next := nd_next p, nd_size := int (n - h)\<rparr>"
  have h: "h \<le> n" "nat (int n - int h) = n - h" by (auto simp: h_def)
  have "copy_entries (nd_array p) (int h) (nd_array q) 0 (n - h) = ok b"
    using copy_entries_ok [of h "n - h" "nd_array p" 0 "nd_array q"] n(2) h assms(3) by (simp add: b_def)
  moreover have "(nd_max p + 1) div 2 = int h" "nd_max p + 1 = int n"
    using assms(2) n(1) by (simp_all add: h_def zdiv_int)
  ultimately have mv: "leaf_MoveHalfTo p q = ok (p', q')"
    using h by (simp add: leaf_MoveHalfTo_def SetNextPageId_def SetSize_def p'_def q'_def Let_def of_nat_diff)
  have len: "length b = length (nd_array p)" using n(2) h assms(3) by (simp add: b_def)
  have es: "entries p' = take h (entries p)" "entries q' = drop h (entries p)"
    using h n(2,3) by (simp_all add: entries_def p'_def q'_def b_def drop_take min_def)
  have ok: "sm_ok (ranked rank (take h (entries p)))" "sm_ok (ranked rank (drop h (entries p)))"
    using assms(1) sm_ok_append [of "ranked rank (take h (entries p))" "ranked rank (drop h (entries p))"]
    by (simp_all add: leaf_ok_def)
  have "leaf_ok valid rank p'" "leaf_ok valid rank q'"
    using assms(1) es ok h n(1,2) len
    by (auto simp: leaf_ok_def p'_def q'_def dest: in_set_takeD in_set_dropD)
  moreover have "nd_size p' = nd_size p div 2" "nd_size q' = nd_size p - nd_size p div 2"
    using n(1) h by (simp_all add: p'_def q'_def h_def of_nat_diff zdiv_int)
  ultimately show thesis
    using that [OF mv] es len by (simp add: p'_def q'_def)
qed

lemma leaf_MoveAllTo_ok:
  assumes "leaf_ok valid rank p" and "leaf_ok valid rank q"
    and "sm_ok (ranked rank (entries q @ entries p))"
    and "nd_size p + nd_size q \<le> int (length (nd_array q))"
  obtains p' q' where "leaf_MoveAllTo p q = ok (p', q')"
    and "leaf_ok valid rank q'" and "entries q' = entries q @ entries p" and "nd_size p' = 0"
    and "nd_size q' = nd_size q + nd_size p" and "nd_next q' = nd_next p"
    and "length (nd_array q') = length (nd_array q)"
proof -
  define n where "n = length (entries p)"
  define m where "m = length (entries q)"
  have n: "nd_size p = int n" "n \<le> length (nd_array p)" "entries p = take n (nd_array p)"
    using assms(1) by (auto simp: n_def leaf_ok_def entries_def)
  have m: "nd_size q = int m" "m \<le> length (nd_array q)" "entries q = take m (nd_array q)"
    using assms(2) by (auto simp: m_def leaf_ok_def entries_def)
  have nm: "m + n \<le> length (nd_array q)" using assms(4) n(1) m(1) by simp
  define b where "b = take m (nd_array q) @ take n (nd_array p) @ drop (m + n) (nd_array q)"
  define q' where "q' = q\<lparr>nd_array := b, nd_next := nd_next p, nd_size := nd_size q + nd_size p\<rparr>"
  have "leaf_MoveAllTo p q = ok (p\<lparr>nd_size := 0\<rparr>, q')"
    using copy_entries_ok [of 0 n "nd_array p" m "nd_array q"] n m nm
    by (simp add: leaf_MoveAllTo_def SetNextPageId_def SetSize_def IncreaseSize_def q'_def b_def)
  moreover have es: "entries q' = entries q @ entries p"
    using n m nm by (simp add: entries_def q'_def b_def nat_add_distrib)
  moreover have "leaf_ok valid rank q'"
    using assms(1-3) es n(1) m(1) nm by (auto simp: leaf_ok_def q'_def b_def)
  ultimately show thesis using that [of "p\<lparr>nd_size := 0\<rparr>" q'] n m nm by (simp add: q'_def b_def)
qed

section \<open>Internal pages\<close>

lemma internal_Lookup_ok:
  assumes "internal_ok valid rank p" and "valid key"
  shows "internal_Lookup cmp p key =
    ok (route (snd (hd (children p))) (ranked rank (tl (children p))) (rank key))"
proof -
  define n where "n = length (children p)"
  define a where "a = nd_children p"
  have n: "nd_size p = int n" "1 < n" "n \<le> length a" "children p = take n a"
    using assms(1) by (auto simp: n_def a_def internal_ok_def children_def)
  have at: "tl (children p) ! i = a ! Suc i" "i < length (tl (children p))" if "Suc i < n" for i
    using that n by (simp_all add: nth_tl)
  have va: "\<forall>i. 1 \<le> i \<and> i < n \<longrightarrow> valid (fst (a ! i))"
  proof (intro allI impI)
    fix i assume "1 \<le> i \<and> i < n"
    then obtain j where "i = Suc j" "Suc j < n" by (cases i) auto
    then show "valid (fst (a ! i))" using at [of j] assms(1) by (metis internal_ok_def nth_mem)
  qed
  have "sorted_wrt (<) (map fst (ranked rank (tl (children p))))"
    using assms(1) by (simp add: internal_ok_def sm_ok_def)
  then have "\<forall>i j. i < j \<longrightarrow> j < length (tl (children p)) \<longrightarrow>
      rank (fst (tl (children p) ! i)) < rank (fst (tl (children p) ! j))"
    by (simp add: sorted_wrt_iff_nth_less)
  then have less: "rank (fst (a ! Suc i)) < rank (fst (a ! Suc j))" if "i < j" "Suc j < n" for i j
    using that at [of i] at [of j] by (metis Suc_lessD Suc_less_eq less_trans_Suc)
  have srt: "\<forall>i j. 1 \<le> i \<and> i \<le> j \<and> j < n \<longrightarrow> rank (fst (a ! i)) \<le> rank (fst (a ! j))"
  proof (intro allI impI)
    fix i j assume "1 \<le> i \<and> i \<le> j \<and> j < n"
    then obtain i' j' where "i = Suc i'" "j = Suc j'" "i' \<le> j'" "Suc j' < n" by (cases i; cases j) auto
    then show "rank (fst (a ! i)) \<le> rank (fst (a ! j))" using less [of i' j'] by (cases "i' = j'") auto
  qed
  have "\<exists>r. internal_search cmp a key (int 1) (int n - 1) = ok (int r) \<and> 1 \<le> r \<and> r \<le> n \<and>
    (\<forall>i. 1 \<le> i \<and> i < r \<longrightarrow> rank (fst (a ! i)) \<le> rank key) \<and>
    (\<forall>i. r \<le> i \<and> i < n \<longrightarrow> rank key < rank (fst (a ! i)))"
    by (rule internal_search_ok) (use n assms(2) va srt in auto)
  then obtain r where r: "internal_search cmp a key 1 (int n - 1) = ok (int r)" "1 \<le> r" "r \<le> n"
    "\<forall>i. 1 \<le> i \<and> i < r \<longrightarrow> rank (fst (a ! i)) \<le> rank key"
    "\<forall>i. r \<le> i \<and> i < n \<longrightarrow> rank key < rank (fst (a ! i))" by auto
  have lt: "length (tl (children p)) = n - 1" by (simp add: n_def)
  have "route (snd (hd (children p))) (ranked rank (tl (children p))) (rank key) =
    (if r - 1 = 0 then snd (hd (children p)) else snd (ranked rank (tl (children p)) ! (r - 1 - 1)))"
  proof (rule route_position)
    show "r - 1 \<le> length (ranked rank (tl (children p)))" using r(3) lt by simp
    show "\<forall>i < r - 1. fst (ranked rank (tl (children p)) ! i) \<le> rank key"
      using r(3,4) at lt by simp
    show "rank key < fst (ranked rank (tl (children p)) ! (r - 1))"
      if "r - 1 < length (ranked rank (tl (children p)))"
      using that r(2,5) at [of "r - 1"] lt by simp
  qed
  also have "\<dots> = snd (a ! (r - 1))"
  proof (cases "r = 1")
    case True
    then show ?thesis using n by (cases a) auto
  next
    case False
    define m where "m = r - 2"
    have m: "r = Suc (Suc m)" using False r(2) by (simp add: m_def)
    have "Suc m < n" using r(3) m by simp
    from at [OF this] show ?thesis by (simp add: m)
  qed
  finally have "route (snd (hd (children p))) (ranked rank (tl (children p))) (rank key) = snd (a ! (r - 1))" .
  moreover have "vec_at a (int r - 1) = ok (a ! (r - 1))"
    using r(2,3) n(3) by (auto simp: vec_at_def nat_diff_distrib)
  ultimately show ?thesis
    using n(1,2) r(1) by (simp add: internal_Lookup_def a_def)
qed

text \<open>
  After a child was split, the separator of the new page is inserted behind it: exactly the keys
  from the separator on that went to the old child now go to the new one.
\<close>

lemma InsertNodeAfter_routes:
  assumes p: "internal_ok valid rank p" and room: "nd_size p < int (length (nd_children p))"
    and cs: "children p = A @ (k, old) # B" and old: "old \<notin> snd ` set A" "old \<notin> snd ` set B"
    and key: "valid nk" and low: "A \<noteq> [] \<Longrightarrow> rank k < rank nk"
    and high: "B \<noteq> [] \<Longrightarrow> rank nk < rank (fst (hd B))" and q: "valid key"
  obtains p' where "internal_InsertNodeAfter p old nk new = ok (p', nd_size p + 1)"
    and "internal_ok valid rank p'"
    and "internal_Lookup cmp p' key =
      (if internal_Lookup cmp p key = ok old \<and> rank nk \<le> rank key then ok new
       else internal_Lookup cmp p key)"
proof -
  have sz: "0 \<le> nd_size p" "1 < nd_size p" using p by (auto simp: internal_ok_def)
  obtain p' where p': "internal_InsertNodeAfter p old nk new = ok (p', nd_size p + 1)"
    "nd_size p' = nd_size p + 1" "children p' = A @ (k, old) # (nk, new) # B"
    "length (nd_children p') = length (nd_children p)"
    using InsertNodeAfter_ok [OF sz(1) room cs old(1)] .
  define A' where "A' = ranked rank (tl (A @ [(k, old)]))"
  define B' where "B' = ranked rank B"
  define c where "c = snd (hd (children p))"
  have tls: "ranked rank (tl (children p)) = A' @ B'"
    "ranked rank (tl (children p')) = A' @ (rank nk, new) # B'"
    by (cases A; simp add: cs p'(3) A'_def B'_def)+
  have hds: "snd (hd (children p')) = c" by (cases A) (simp_all add: cs p'(3) c_def)
  have okp: "sm_ok (A' @ B')" using p tls(1) by (simp add: internal_ok_def)
  have below: "\<forall>x \<in> set A'. fst x < rank nk"
  proof (cases A)
    case (Cons y ys)
    have "A' = ranked rank ys @ [(rank k, old)]" using Cons by (simp add: A'_def)
    then show ?thesis using okp low Cons by (fastforce simp: sm_ok_append)
  qed (simp add: A'_def)
  have above: "\<forall>x \<in> set B'. rank nk < fst x"
  proof (cases B)
    case (Cons y ys)
    then have "B' = (rank (fst y), snd y) # ranked rank ys" by (simp add: B'_def)
    then show ?thesis using okp high Cons by (fastforce simp: sm_ok_append sm_ok_Cons)
  qed (simp add: B'_def)
  have "sm_ok (A' @ (rank nk, new) # B')"
    using okp below above by (fastforce simp: sm_ok_append sm_ok_Cons)
  moreover have "\<forall>x \<in> set (tl (children p')). valid (fst x)"
    using p key unfolding internal_ok_def cs p'(3) by (cases A) auto
  ultimately have okp': "internal_ok valid rank p'"
    using sz(2) room p'(2,4) tls(2) by (simp add: internal_ok_def)
  have "old = (if A' = [] then c else snd (last A'))"
    by (cases A) (simp_all add: A'_def c_def cs)
  moreover have "old \<notin> snd ` set B'" using old(2) by (auto simp: B'_def image_iff)
  ultimately have "route c (A' @ (rank nk, new) # B') (rank key) =
    (if route c (A' @ B') (rank key) = old \<and> rank nk \<le> rank key then new else route c (A' @ B') (rank key))"
    using route_takeover [OF below above okp] by blast
  then show thesis
    using that [OF p'(1) okp'] internal_Lookup_ok [OF p q] internal_Lookup_ok [OF okp' q] tls hds
    by (simp add: c_def)
qed

end

end
