(* ===== verification/Bpt_Shape.thy ===== *)
theory Bpt_Shape
  imports Bpt_Node Bpt_Order Disk_Manager
begin

text \<open>
  What it means that pages form a B+ tree, and the map it stands for. The pages are given by a view,
  the map from page numbers to bytes that the buffer pool presents; no order of operations and no
  pool is involved here.
\<close>

section \<open>Trees of pages\<close>

text \<open>The child an internal page sends a key to.\<close>

definition routed :: "(byte list \<Rightarrow> 'o::linorder) \<Rightarrow> internal_node \<Rightarrow> 'o \<Rightarrow> int" where
  "routed rank p k = route (snd (hd (children p))) (ranked rank (tl (children p))) k"

text \<open>A page of the tree: not the header page, and it carries its own number.\<close>

definition tree_page :: "(int \<Rightarrow> byte list option) \<Rightarrow> int \<Rightarrow> byte list \<Rightarrow> IndexPageType \<Rightarrow> bool" where
  "tree_page V pid d ty \<longleftrightarrow> V pid = Some d \<and> pid_ok pid \<and> 0 < pid \<and> nd_type (header_view d) = ty \<and>
     nd_id (header_view d) = pid"

text \<open>
  \<open>tree_of valid rank ks V n pid ps m\<close>: from page \<open>pid\<close> down there is a tree of height \<open>n\<close> (all leaves
  are at the same depth) that consists of the pages \<open>ps\<close>, no page occurs twice, the keys of every page
  are in order, every key lies in the leaf that the internal pages send it to, and \<open>m\<close> are the entries
  of the leaves from left to right.
\<close>

inductive tree_of ::
  "(byte list \<Rightarrow> bool) \<Rightarrow> (byte list \<Rightarrow> 'o::linorder) \<Rightarrow> nat \<Rightarrow> (int \<Rightarrow> byte list option) \<Rightarrow>
     nat \<Rightarrow> int \<Rightarrow> int list \<Rightarrow> ('o \<times> RID) list \<Rightarrow> bool"
  for valid rank ks V where
  leaf: "tree_page V pid d LEAF_PAGE \<Longrightarrow> leaf_ok valid rank (leaf_view ks d) \<Longrightarrow>
    m = ranked rank (entries (leaf_view ks d)) \<Longrightarrow> tree_of valid rank ks V 0 pid [pid] m"
| node: "tree_page V pid d INTERNAL_PAGE \<Longrightarrow> internal_ok valid rank (internal_view ks d) \<Longrightarrow>
    map fst kids = map snd (children (internal_view ks d)) \<Longrightarrow>
    (\<And>c cs cm. (c, cs, cm) \<in> set kids \<Longrightarrow> tree_of valid rank ks V n c cs cm) \<Longrightarrow>
    (\<And>c cs cm k v. (c, cs, cm) \<in> set kids \<Longrightarrow> (k, v) \<in> set cm \<Longrightarrow> routed rank (internal_view ks d) k = c) \<Longrightarrow>
    ps = pid # concat (map (fst \<circ> snd) kids) \<Longrightarrow> distinct ps \<Longrightarrow> m = concat (map (snd \<circ> snd) kids) \<Longrightarrow>
    tree_of valid rank ks V (Suc n) pid ps m"

inductive_cases tree_of_leafE: "tree_of valid rank ks V 0 pid ps m"
inductive_cases tree_of_nodeE: "tree_of valid rank ks V (Suc n) pid ps m"

text \<open>The leaf a key belongs to.\<close>

fun leaf_for ::
  "(byte list \<Rightarrow> 'o::linorder) \<Rightarrow> nat \<Rightarrow> (int \<Rightarrow> byte list option) \<Rightarrow> nat \<Rightarrow> int \<Rightarrow> 'o \<Rightarrow> int" where
  "leaf_for rank ks V 0 pid k = pid"
| "leaf_for rank ks V (Suc n) pid k =
     (case V pid of None \<Rightarrow> pid | Some d \<Rightarrow> leaf_for rank ks V n (routed rank (internal_view ks d) k) k)"

section \<open>Lemmas\<close>

lemma route_mem: "route c xs k \<in> insert c (snd ` set xs)"
  by (induction c xs k rule: route.induct) auto

lemma routed_mem:
  assumes "internal_ok valid rank p" shows "routed rank p k \<in> snd ` set (children p)"
proof -
  have "children p \<noteq> []" using assms by (auto simp: internal_ok_def children_def)
  then obtain x xs where x: "children p = x # xs" by (cases "children p") auto
  have "snd ` set (ranked rank xs) = snd ` set xs" by (force simp: ranked_def)
  then show ?thesis using route_mem [of "snd x" "ranked rank xs" k] by (simp add: routed_def x)
qed

lemma tree_of_root: "tree_of valid rank ks V n pid ps m \<Longrightarrow> pid \<in> set ps"
  by (auto elim: tree_of.cases)

lemma tree_of_page:
  assumes "tree_of valid rank ks V n pid ps m" obtains d where "V pid = Some d" and "pid_ok pid" and "0 < pid"
  using assms by (auto elim!: tree_of.cases simp: tree_page_def)

lemma tree_of_distinct: "tree_of valid rank ks V n pid ps m \<Longrightarrow> distinct ps"
  by (auto elim: tree_of.cases)

lemma tree_of_views: "tree_of valid rank ks V n pid ps m \<Longrightarrow> q \<in> set ps \<Longrightarrow> \<exists>d. V q = Some d"
proof (induction rule: tree_of.induct)
  case (node pid d kids n ps m)
  show ?case
  proof (cases "q = pid")
    case False
    then obtain c cs cm where "(c, cs, cm) \<in> set kids" "q \<in> set cs" using node.prems node.hyps(6) by auto
    then show ?thesis using node.IH by blast
  qed (use node.hyps(1) in \<open>simp add: tree_page_def\<close>)
qed (simp add: tree_page_def)

text \<open>A tree depends on its own pages only.\<close>

lemma tree_of_cong:
  assumes "tree_of valid rank ks V n pid ps m" and "\<forall>q \<in> set ps. V' q = V q"
  shows "tree_of valid rank ks V' n pid ps m"
  using assms
proof (induction rule: tree_of.induct)
  case (leaf pid d m)
  then show ?case by (intro tree_of.leaf) (auto simp: tree_page_def)
next
  case (node pid d kids n ps m)
  have "tree_of valid rank ks V' n c cs cm" if "(c, cs, cm) \<in> set kids" for c cs cm
    using node.IH [OF that] node.prems node.hyps(6) that by force
  with node.hyps node.prems show ?case
    by (intro tree_of.node [of V' pid d valid rank ks kids n]) (auto simp: tree_page_def)
qed

text \<open>The child a key is sent to, and the entries that matter for the key.\<close>

lemma map_of_concat_kid:
  assumes "(c, cs, cm) \<in> set kids" and "distinct (map fst kids)"
    and "\<And>c' cs' cm' k v. (c', cs', cm') \<in> set kids \<Longrightarrow> (k, v) \<in> set cm' \<Longrightarrow> f k = c'" and "f k = c"
  shows "map_of (concat (map (snd \<circ> snd) kids)) k = map_of cm k"
  using assms
proof (induction kids)
  case (Cons x kids)
  obtain c' cs' cm' where x: "x = (c', cs', cm')" by (cases x)
  show ?case
  proof (cases "x = (c, cs, cm)")
    case True
    have "k \<notin> fst ` set (concat (map (snd \<circ> snd) kids))"
    proof
      assume "k \<in> fst ` set (concat (map (snd \<circ> snd) kids))"
      then obtain d ds dm v where d: "(d, ds, dm) \<in> set kids" "(k, v) \<in> set dm" by force
      then have "d = c" using Cons.prems(3,4) by (metis list.set_intros(2))
      then show False using d(1) Cons.prems(2) True by force
    qed
    then have "map_of (concat (map (snd \<circ> snd) kids)) k = None" by (simp add: map_of_eq_None_iff)
    then show ?thesis using True by (simp add: map_add_def comp_def split: option.splits)
  next
    case False
    then have in_kids: "(c, cs, cm) \<in> set kids" using Cons.prems(1) by auto
    have "map_of (concat (map (snd \<circ> snd) kids)) k = map_of cm k"
    proof (rule Cons.IH [OF in_kids])
      show "f j = c1" if "(c1, cs1, cm1) \<in> set kids" "(j, v) \<in> set cm1" for c1 cs1 cm1 j v
        using Cons.prems(3) [of c1 cs1 cm1 j v] that by simp
    qed (use Cons.prems(2,4) in simp_all)
    moreover have "map_of cm' k = None"
    proof (rule ccontr)
      assume "map_of cm' k \<noteq> None"
      then obtain v where "(k, v) \<in> set cm'" using map_of_SomeD by fastforce
      then have "c' = c" using Cons.prems(3) [of c' cs' cm' k v] Cons.prems(4) x by simp
      then show False using in_kids Cons.prems(2) x by force
    qed
    ultimately show ?thesis using x by (simp add: map_add_def comp_def split: option.splits)
  qed
qed simp

lemma kids_distinct:
  assumes "\<And>c cs cm. (c, cs, cm) \<in> set kids \<Longrightarrow> c \<in> set cs" and "distinct (concat (map (fst \<circ> snd) kids))"
  shows "distinct (map fst kids)"
  using assms
proof (induction kids)
  case (Cons x kids)
  obtain c cs cm where x: "x = (c, cs, cm)" by (cases x)
  have "c \<notin> fst ` set kids"
  proof
    assume "c \<in> fst ` set kids"
    then obtain cs' cm' where k: "(c, cs', cm') \<in> set kids" by force
    then have "c \<in> set cs'" "c \<in> set cs" using Cons.prems(1) x by auto
    then show False using Cons.prems(2) k x by force
  qed
  moreover have "distinct (map fst kids)" using Cons.IH Cons.prems by auto
  ultimately show ?case using x by simp
qed simp

lemma tree_of_child:
  assumes "tree_of valid rank ks V (Suc n) pid ps m"
  obtains d c cs cm where "tree_page V pid d INTERNAL_PAGE" and "internal_ok valid rank (internal_view ks d)"
    and "routed rank (internal_view ks d) k = c" and "tree_of valid rank ks V n c cs cm"
    and "pid \<in> set ps" and "pid \<notin> set cs" and "set cs \<subseteq> set ps" and "map_of m k = map_of cm k"
    and "leaf_for rank ks V (Suc n) pid k = leaf_for rank ks V n c k"
  using assms
proof (cases rule: tree_of.cases)
  case (node d kids)
  let ?c = "routed rank (internal_view ks d) k"
  have "?c \<in> snd ` set (children (internal_view ks d))" using routed_mem [OF node(2)] .
  then have "?c \<in> fst ` set kids" using node(3) by (metis list.set_map)
  then obtain cs cm where kid: "(?c, cs, cm) \<in> set kids" by force
  have "distinct (map fst kids)"
    using kids_distinct [of kids] tree_of_root node(4,6,7) by fastforce
  then have "map_of m k = map_of cm k"
    using map_of_concat_kid [where f = "routed rank (internal_view ks d)" and k = k, OF kid _ node(5)] node(8) by simp
  moreover have "pid \<notin> set cs" "set cs \<subseteq> set ps" "pid \<in> set ps" using node(6,7) kid by force+
  moreover have "leaf_for rank ks V (Suc n) pid k = leaf_for rank ks V n ?c k"
    using node(1) by (simp add: tree_page_def)
  ultimately show thesis using that [OF node(1,2) refl node(4) [OF kid]] by blast
qed

lemma tree_of_leaf_for:
  assumes "tree_of valid rank ks V n pid ps m"
  obtains d where "tree_page V (leaf_for rank ks V n pid k) d LEAF_PAGE" and "leaf_ok valid rank (leaf_view ks d)"
    and "map_of (ranked rank (entries (leaf_view ks d))) k = map_of m k" and "leaf_for rank ks V n pid k \<in> set ps"
  using assms
proof (induction n arbitrary: pid ps m thesis)
  case 0
  from 0(2) show ?case by (rule tree_of_leafE) (use 0(1) in auto)
next
  case (Suc n)
  obtain d c cs cm where c: "tree_of valid rank ks V n c cs cm" "set cs \<subseteq> set ps" "map_of m k = map_of cm k"
    "leaf_for rank ks V (Suc n) pid k = leaf_for rank ks V n c k"
    using tree_of_child [OF Suc.prems(2), of k] by metis
  show ?case by (rule Suc.IH [OF _ c(1)]) (use c Suc.prems(1) in auto)
qed

text \<open>
  Replacing the leaf of a key by one that has lost keys or gained this key: the tree stays a tree, and
  the map changes where its keys lead to this leaf.
\<close>

lemma replace_kid:
  fixes kids :: "('a \<times> 'b \<times> 'c) list" and cm' :: 'c
  assumes "(c, cs, cm) \<in> set kids" and "distinct (map fst kids)"
  defines "kids' \<equiv> map (\<lambda>x. if fst x = c then (c, cs, cm') else x) kids"
  shows "map fst kids' = map fst kids" and "map (fst \<circ> snd) kids' = map (fst \<circ> snd) kids"
    and "(d, ds, dm) \<in> set kids' \<Longrightarrow> (d, ds, dm) = (c, cs, cm') \<or> d \<noteq> c \<and> (d, ds, dm) \<in> set kids"
    and "(c, cs, cm') \<in> set kids'"
proof -
  have u: "x = (c, cs, cm)" if "x \<in> set kids" "fst x = c" for x
    using assms(1,2) that by (metis eq_key_imp_eq_value fst_conv prod.collapse)
  show "map fst kids' = map fst kids" by (simp add: kids'_def)
  show "map (fst \<circ> snd) kids' = map (fst \<circ> snd) kids" using u by (force simp: kids'_def)
  show "(d, ds, dm) \<in> set kids' \<Longrightarrow> (d, ds, dm) = (c, cs, cm') \<or> d \<noteq> c \<and> (d, ds, dm) \<in> set kids"
    by (auto simp: kids'_def split: if_splits)
  show "(c, cs, cm') \<in> set kids'" using assms(1) by (force simp: kids'_def image_iff)
qed

lemma tree_of_replace:
  assumes "tree_of valid rank ks V n pid ps m" and "lf = leaf_for rank ks V n pid k"
    and "tree_page (V(lf \<mapsto> d')) lf d' LEAF_PAGE" and "leaf_ok valid rank (leaf_view ks d')"
    and "V lf = Some d" and "m' = ranked rank (entries (leaf_view ks d'))"
    and "fst ` set m' \<subseteq> insert k (fst ` set (ranked rank (entries (leaf_view ks d))))"
  shows "\<exists>M. tree_of valid rank ks (V(lf \<mapsto> d')) n pid ps M \<and>
    fst ` set M \<subseteq> insert k (fst ` set m) \<and>
    (\<forall>j. map_of M j = (if leaf_for rank ks V n pid j = lf then map_of m' j else map_of m j))"
  using assms
proof (induction arbitrary: lf rule: tree_of.induct)
  case (leaf pid d0 m)
  then have "lf = pid" "d0 = d" by (auto simp: tree_page_def)
  with leaf show ?case by (intro exI [of _ m'] conjI tree_of.leaf [of _ _ d']) auto
next
  case (node pid d0 kids n ps m)
  let ?r = "routed rank (internal_view ks d0)" and ?V = "V(lf \<mapsto> d')"
  have lfor: "leaf_for rank ks V (Suc n) pid j = leaf_for rank ks V n (?r j) j" for j
    using node.hyps(1) by (simp add: tree_page_def)
  have "?r k \<in> fst ` set kids" using routed_mem [OF node.hyps(2)] node.hyps(3) by (metis list.set_map)
  then obtain cs cm where kid: "(?r k, cs, cm) \<in> set kids" by force
  have lf: "lf = leaf_for rank ks V n (?r k) k" using node.prems(1) lfor by simp
  obtain M where M: "tree_of valid rank ks ?V n (?r k) cs M" "fst ` set M \<subseteq> insert k (fst ` set cm)"
    "\<forall>j. map_of M j = (if leaf_for rank ks V n (?r k) j = lf then map_of m' j else map_of cm j)"
    using node.IH [OF kid lf node.prems(2-6)] by blast
  have own: "leaf_for rank ks V n c j \<in> set cs'" if "(c, cs', cm') \<in> set kids" for c cs' cm' j
    using tree_of_leaf_for [OF node.hyps(4) [OF that], of j] by blast
  have dist: "distinct (map fst kids)"
    using kids_distinct [of kids] tree_of_root node.hyps(4,6,7) by fastforce
  have apart: "set cs1 \<inter> set cs2 = {}" if "(c1, cs1, cm1) \<in> set kids" "(c2, cs2, cm2) \<in> set kids" "c1 \<noteq> c2"
    for c1 cs1 cm1 c2 cs2 cm2
  proof -
    have "distinct (concat (map (fst \<circ> snd) kids))" using node.hyps(6,7) by simp
    then show ?thesis using that
    proof (induction kids)
      case (Cons x kids)
      then show ?case by (cases x) (fastforce simp: comp_def)
    qed simp
  qed
  define kids' where "kids' = map (\<lambda>x. if fst x = ?r k then (?r k, cs, M) else x) kids"
  note rk = replace_kid [OF kid dist, where cm' = M, folded kids'_def]
  have lf_in: "lf \<in> set cs" using own [OF kid, of k] lf by simp
  have pid: "lf \<noteq> pid" using lf_in kid node.hyps(6,7) by force
  have trees: "tree_of valid rank ks ?V n c ds dm" if "(c, ds, dm) \<in> set kids'" for c ds dm
  proof (cases "c = ?r k")
    case True
    then show ?thesis using rk(3) [OF that] M(1) by auto
  next
    case False
    then have old: "(c, ds, dm) \<in> set kids" using rk(3) [OF that] by auto
    then have "lf \<notin> set ds" using apart [OF old kid False] lf_in by auto
    then show ?thesis using tree_of_cong [OF node.hyps(4) [OF old], of ?V] by auto
  qed
  have routes: "?r j = c" if "(c, ds, dm) \<in> set kids'" "(j, v) \<in> set dm" for c ds dm j v
  proof (cases "(c, ds, dm) = (?r k, cs, M)")
    case True
    then have "j = k \<or> j \<in> fst ` set cm" using M(2) that(2) by force
    then show ?thesis using node.hyps(5) [OF kid] True by auto
  next
    case False
    then show ?thesis using rk(3) [OF that(1)] node.hyps(5) that(2) by auto
  qed
  let ?M = "concat (map (snd \<circ> snd) kids')"
  have "tree_of valid rank ks ?V (Suc n) pid ps ?M"
    by (rule tree_of.node [of ?V pid d0 valid rank ks kids' n, OF _ _ _ trees routes])
      (use node.hyps pid rk(1,2) in \<open>auto simp: tree_page_def\<close>)
  moreover have "fst ` set ?M \<subseteq> insert k (fst ` set m)"
  proof
    fix j assume "j \<in> fst ` set ?M"
    then obtain c ds dm v where j: "(c, ds, dm) \<in> set kids'" "(j, v) \<in> set dm" by force
    then have "(c, ds, dm) = (?r k, cs, M) \<or> (c, ds, dm) \<in> set kids" using rk(3) by blast
    then have "j = k \<or> (\<exists>c ds dm v. (c, ds, dm) \<in> set kids \<and> (j, v) \<in> set dm)"
      using M(2) kid j(2) by force
    then show "j \<in> insert k (fst ` set m)" by (force simp: node.hyps(8))
  qed
  moreover have "map_of ?M j = (if leaf_for rank ks V (Suc n) pid j = lf then map_of m' j else map_of m j)" for j
  proof -
    have "?r j \<in> fst ` set kids" using routed_mem [OF node.hyps(2)] node.hyps(3) by (metis list.set_map)
    then obtain ds dm where jk: "(?r j, ds, dm) \<in> set kids" by force
    have m: "map_of m j = map_of dm j"
      using map_of_concat_kid [where f = ?r and k = j, OF jk dist node.hyps(5)] node.hyps(8) by simp
    show ?thesis
    proof (cases "?r j = ?r k")
      case True
      then have "dm = cm" using jk kid dist by (metis eq_key_imp_eq_value Pair_inject)
      moreover have "map_of ?M j = map_of M j"
        using map_of_concat_kid [where f = ?r and k = j, OF rk(4) _ routes] rk(1) dist True by simp
      ultimately show ?thesis using M(3) m lfor True by simp
    next
      case False
      then have jk': "(?r j, ds, dm) \<in> set kids'" using jk by (force simp: kids'_def image_iff)
      have "map_of ?M j = map_of dm j"
        using map_of_concat_kid [where f = ?r and k = j, OF jk' _ routes] rk(1) dist by simp
      moreover have "leaf_for rank ks V n (?r j) j \<noteq> lf" using own [OF jk, of j] apart [OF jk kid False] lf_in by auto
      ultimately show ?thesis using m lfor by simp
    qed
  qed
  ultimately show ?case by blast
qed

end
