(* ===== verification/Bpt_Keys.thy ===== *)
theory Bpt_Keys
  imports Bpt_Order Tuples "HOL-Library.List_Lexorder"
begin

text \<open>
  The keys of an index (\<^verbatim>\<open>index/generic_key.h\<close>) as the comparator of the tree's pages: on keys whose
  columns are integers that are not NULL the comparison is the lexicographic order of the columns,
  so that the interface \<^verbatim>\<open>key_order\<close> is provided and the pages of a tree behave as ordered maps.
\<close>

section \<open>Valid keys and their order\<close>

fun int_of_Val :: "'d Val \<Rightarrow> int" where
  "int_of_Val (VTinyint w) = sint w"
| "int_of_Val (VSmallint w) = sint w"
| "int_of_Val (VInteger w) = sint w"
| "int_of_Val (VBigint w) = sint w"
| "int_of_Val _ = 0"

definition is_int_value :: "'d Value \<Rightarrow> bool" where
  "is_int_value v \<longleftrightarrow>
     list_ex (\<lambda>t. in_sql t (int_of_Val (v_val v)) \<and> v = int_val t (int_of_Val (v_val v)))
       [Int8, Int16, Int32, Int64]"

text \<open>A key is valid for a schema when each of its columns reads as an integer that is not NULL.\<close>

definition key_valid :: "'d cpp \<Rightarrow> Schema \<Rightarrow> byte list \<Rightarrow> bool" where
  "key_valid F s k \<longleftrightarrow>
     list_all (\<lambda>i. case GenericKey_ToValue F k s i of Inr v \<Rightarrow> is_int_value v | Inl _ \<Rightarrow> False)
       (map int [0..<length (sch_columns s)])"

definition column_rank :: "'d cpp \<Rightarrow> Schema \<Rightarrow> byte list \<Rightarrow> int \<Rightarrow> int" where
  "column_rank F s k i =
     (case GenericKey_ToValue F k s i of Inr v \<Rightarrow> int_of_Val (v_val v) | Inl _ \<Rightarrow> 0)"

definition key_rank :: "'d cpp \<Rightarrow> Schema \<Rightarrow> byte list \<Rightarrow> int list" where
  "key_rank F s k = map (column_rank F s k) (map int [0..<length (sch_columns s)])"

lemma is_int_value_cases:
  assumes "is_int_value v"
  obtains t where "in_sql t (int_of_Val (v_val v))" and "v = int_val t (int_of_Val (v_val v))"
  using assms by (auto simp: is_int_value_def)

lemma case_res_ok: "(case r of Inr v \<Rightarrow> P v | Inl _ \<Rightarrow> False) \<longleftrightarrow> (\<exists>v. r = Inr v \<and> P v)"
  by (cases r) auto

lemma compare_columns_ok:
  assumes "\<forall>i \<in> set is. \<exists>v. GenericKey_ToValue F a s i = ok v \<and> is_int_value v"
    and "\<forall>i \<in> set is. \<exists>v. GenericKey_ToValue F b s i = ok v \<and> is_int_value v"
  shows "compare_columns F s a b is =
    ok (if map (column_rank F s a) is < map (column_rank F s b) is then - 1
        else if map (column_rank F s b) is < map (column_rank F s a) is then 1 else 0)"
  using assms
proof (induction "is")
  case (Cons i js)
  obtain u v where u: "GenericKey_ToValue F a s i = ok u" "is_int_value u"
    and v: "GenericKey_ToValue F b s i = ok v" "is_int_value v"
    using Cons.prems by auto
  define x where "x = int_of_Val (v_val u)"
  define y where "y = int_of_Val (v_val v)"
  obtain t where t: "in_sql t x" "u = int_val t x" using is_int_value_cases [OF u(2), folded x_def] .
  obtain t' where t': "in_sql t' y" "v = int_val t' y" using is_int_value_cases [OF v(2), folded y_def] .
  have ranks: "column_rank F s a i = x" "column_rank F s b i = y"
    using u(1) v(1) by (simp_all add: column_rank_def x_def y_def)
  have "Value_CompareLessThan F u v = ok (GetCmpBool (x < y))"
    "Value_CompareGreaterThan F u v = ok (GetCmpBool (y < x))"
    using Value_Compare_int [OF t(1) t'(1), of OpLt F] Value_Compare_int [OF t(1) t'(1), of OpGt F]
    by (simp_all add: t(2) t'(2))
  moreover have "compare_columns F s a b js =
    ok (if map (column_rank F s a) js < map (column_rank F s b) js then - 1
        else if map (column_rank F s b) js < map (column_rank F s a) js then 1 else 0)"
    using Cons.IH Cons.prems by simp
  ultimately show ?case
    using u(1) v(1) ranks by (cases x y rule: linorder_cases) (simp_all add: GetCmpBool_def)
qed simp

interpretation gk: key_order "GenericComparator F s" "key_valid F s" "key_rank F s"
proof
  fix a b assume ab: "key_valid F s a" "key_valid F s b"
  have col: "\<forall>i \<in> set (map int [0..<length (sch_columns s)]).
      \<exists>v. GenericKey_ToValue F k s i = ok v \<and> is_int_value v" if "key_valid F s k" for k
    using that by (simp add: key_valid_def list_all_iff case_res_ok)
  show "\<exists>c. GenericComparator F s a b = ok c \<and> (c < 0 \<longleftrightarrow> key_rank F s a < key_rank F s b) \<and>
      (c > 0 \<longleftrightarrow> key_rank F s a > key_rank F s b)"
    using compare_columns_ok [OF col [OF ab(1)] col [OF ab(2)]]
    unfolding GenericComparator_def key_rank_def by (auto dest: less_asym)
qed

section \<open>Pages of an index\<close>

abbreviation index_leaf_ok :: "'d cpp \<Rightarrow> Schema \<Rightarrow> (byte list, 'v) LeafPage \<Rightarrow> bool" where
  "index_leaf_ok F s p \<equiv> leaf_ok (key_valid F s) (key_rank F s) p"

abbreviation leaf_map :: "'d cpp \<Rightarrow> Schema \<Rightarrow> (byte list, 'v) LeafPage \<Rightarrow> (int list \<times> 'v) list" where
  "leaf_map F s p \<equiv> ranked (key_rank F s) (entries p)"

abbreviation index_internal_ok :: "'d cpp \<Rightarrow> Schema \<Rightarrow> byte list InternalPage \<Rightarrow> bool" where
  "index_internal_ok F s p \<equiv> internal_ok (key_valid F s) (key_rank F s) p"

text \<open>A leaf with no entries, and the keys of an index on one \<^verbatim>\<open>BIGINT\<close> column.\<close>

definition bigint_schema :: Schema where
  "bigint_schema =
     \<lparr>sch_length = 8, sch_columns =
       [\<lparr>column_type = BIGINT, fixed_length = 8, variable_length = 0, column_name = ''a'',
         is_inlined = True, column_offset = 0\<rparr>],
      tuple_is_inlined = True, uninlined_columns = []\<rparr>"

lemma bigint_key:
  assumes "in_sql Int64 n"
  shows "key_valid word_cpp bigint_schema (le_enc 8 n)" and "key_rank word_cpp bigint_schema (le_enc 8 n) = [n]"
proof -
  have wf: "Value_wf word_cpp (int_val Int64 n)"
    using in_sql_not_null [OF assms] narrow_in_ctype [OF in_sql_ctype [OF assms]]
    by (simp add: Value_wf_def int_val_def stored_def Value_of_type_def)
  obtain w where w: "v_val (int_val Int64 n :: 64 word Value) = VBigint w" "sint w = n"
    using GetAs_int_val [OF assms] by (auto split: Val.splits)
  have img: "value_image word_cpp (int_val Int64 n) = le_enc 8 n"
    using w by (simp add: value_image_def)
  have "Value_DeserializeFrom word_cpp (le_enc 8 n) (int 0) BIGINT = ok (int_val Int64 n)"
    using read_value [of word_cpp "int_val Int64 n" "sch_columns bigint_schema ! 0" "le_enc 8 n" 0] wf img
    by (simp add: value_fits_def bigint_schema_def double_image_word_cpp bget_def)
  then have v: "GenericKey_ToValue word_cpp (le_enc 8 n) bigint_schema 0 = ok (int_val Int64 n)"
    by (simp add: GenericKey_ToValue_def Schema_GetType_def Schema_IsInlined_def Schema_GetOffset_def
        bigint_schema_def vec_at_def)
  have "int_of_Val (v_val (int_val Int64 n :: 64 word Value)) = n" using w by simp
  moreover have "[0..<length (sch_columns bigint_schema)] = [0]" by (simp add: bigint_schema_def)
  ultimately show "key_valid word_cpp bigint_schema (le_enc 8 n)" "key_rank word_cpp bigint_schema (le_enc 8 n) = [n]"
    using v assms by (simp_all add: key_valid_def key_rank_def column_rank_def is_int_value_def)
qed

lemma bigint_small: "- 9223372036854775808 < n \<Longrightarrow> n \<le> 9223372036854775807 \<Longrightarrow> in_sql Int64 n"
  by (simp add: in_sql_def)

text \<open>
  C34. A leaf page is an ordered map. For keys whose columns are integers that are not NULL, and a
  leaf in order, Lookup returns what the map holds, Insert of an absent key (with room in the
  array) is the insertion into the map and keeps the order, RemoveAndDeleteRecord is the erasure,
  and both report the new number of entries.
\<close>

theorem leaf_page_refines_map:
  assumes "index_leaf_ok F s p" and "key_valid F s key"
  shows "leaf_Lookup (GenericComparator F s) p key = ok (map_of (leaf_map F s p) (key_rank F s key)) \<and>
    (length (entries p) < length (nd_array p) \<longrightarrow> map_of (leaf_map F s p) (key_rank F s key) = None \<longrightarrow>
      (\<exists>p'. leaf_Insert (GenericComparator F s) p key v = ok (p', nd_size p + 1) \<and>
        index_leaf_ok F s p' \<and> leaf_map F s p' = sm_insert (key_rank F s key) v (leaf_map F s p))) \<and>
    (\<exists>p'. leaf_RemoveAndDeleteRecord (GenericComparator F s) p key = ok (p', nd_size p') \<and>
      index_leaf_ok F s p' \<and> leaf_map F s p' = sm_erase (key_rank F s key) (leaf_map F s p))"
proof (intro conjI impI)
  show "leaf_Lookup (GenericComparator F s) p key = ok (map_of (leaf_map F s p) (key_rank F s key))"
    by (rule gk.leaf_Lookup_ok [OF assms])
  show "\<exists>p'. leaf_Insert (GenericComparator F s) p key v = ok (p', nd_size p + 1) \<and>
      index_leaf_ok F s p' \<and> leaf_map F s p' = sm_insert (key_rank F s key) v (leaf_map F s p)"
    if "length (entries p) < length (nd_array p)" "map_of (leaf_map F s p) (key_rank F s key) = None"
    by (rule gk.leaf_Insert_ok [OF assms that, of v]) blast
  show "\<exists>p'. leaf_RemoveAndDeleteRecord (GenericComparator F s) p key = ok (p', nd_size p') \<and>
      index_leaf_ok F s p' \<and> leaf_map F s p' = sm_erase (key_rank F s key) (leaf_map F s p)"
  proof (rule gk.leaf_Remove_ok [OF assms])
    fix n a
    assume "leaf_RemoveAndDeleteRecord (GenericComparator F s) p key = ok (p\<lparr>nd_size := n, nd_array := a\<rparr>, n)"
      "index_leaf_ok F s (p\<lparr>nd_size := n, nd_array := a\<rparr>)"
      "leaf_map F s (p\<lparr>nd_size := n, nd_array := a\<rparr>) = sm_erase (key_rank F s key) (leaf_map F s p)"
    then show ?thesis by (intro exI [of _ "p\<lparr>nd_size := n, nd_array := a\<rparr>"]) simp
  qed
qed

definition sample_leaf :: "(byte list, int) LeafPage" where
  "sample_leaf =
     \<lparr>nd_type = LEAF_PAGE, nd_lsn = 0, nd_size = 2, nd_max = 3, nd_parent = - 1, nd_id = 7, nd_next = - 1,
      nd_array = [(le_enc 8 3, 30), (le_enc 8 5, 50), ([], 0), ([], 0)]\<rparr>"

lemma sample_leaf_ok: "index_leaf_ok word_cpp bigint_schema sample_leaf"
  "leaf_map word_cpp bigint_schema sample_leaf = [([3], 30), ([5], 50)]"
  "length (entries sample_leaf) = 2"
  using bigint_key [OF bigint_small, of 3] bigint_key [OF bigint_small, of 5]
  by (simp_all add: leaf_ok_def sample_leaf_def entries_def sm_ok_def numeral_2_eq_2)

theorem leaf_page_refines_map_witness:
  "leaf_Lookup (GenericComparator word_cpp bigint_schema) sample_leaf (le_enc 8 5) = ok (Some 50) \<and>
   (\<exists>p'. leaf_Insert (GenericComparator word_cpp bigint_schema) sample_leaf (le_enc 8 4) 40 = ok (p', 3) \<and>
      leaf_map word_cpp bigint_schema p' = [([3], 30), ([4], 40), ([5], 50)])"
proof -
  have "nd_size sample_leaf = 2" "length (nd_array sample_leaf) = 4" by (simp_all add: sample_leaf_def)
  then show ?thesis
    using leaf_page_refines_map [OF sample_leaf_ok(1) bigint_key(1) [OF bigint_small, of 5]]
      leaf_page_refines_map [OF sample_leaf_ok(1) bigint_key(1) [OF bigint_small, of 4], of 40]
      bigint_key(2) [OF bigint_small, of 5] bigint_key(2) [OF bigint_small, of 4]
    by (auto simp: sample_leaf_ok)
qed

text \<open>
  C35. Splitting a child keeps the routing of keys. When a separator is inserted behind the entry of
  the split child (between its separator and the next one), InsertNodeAfter reports the new size
  and keeps the page in order, and afterwards Lookup sends to the new page exactly the keys that
  went to the old child and are not below the separator; every other key goes where it went before.
\<close>

theorem internal_split_routes:
  assumes "index_internal_ok F s p" and "nd_size p < int (length (nd_children p))"
    and "children p = A @ (k, old) # B" and "old \<notin> snd ` set A" and "old \<notin> snd ` set B"
    and "key_valid F s nk" and "A \<noteq> [] \<Longrightarrow> key_rank F s k < key_rank F s nk"
    and "B \<noteq> [] \<Longrightarrow> key_rank F s nk < key_rank F s (fst (hd B))" and "key_valid F s key"
  shows "\<exists>p'. internal_InsertNodeAfter p old nk new = ok (p', nd_size p + 1) \<and> index_internal_ok F s p' \<and>
    internal_Lookup (GenericComparator F s) p' key =
      (if internal_Lookup (GenericComparator F s) p key = ok old \<and> key_rank F s nk \<le> key_rank F s key
       then ok new else internal_Lookup (GenericComparator F s) p key)"
  using gk.InsertNodeAfter_routes [OF assms, of new] by blast

definition sample_internal :: "byte list InternalPage" where
  "sample_internal =
     \<lparr>nd_type = INTERNAL_PAGE, nd_lsn = 0, nd_size = 2, nd_max = 3, nd_parent = - 1, nd_id = 9,
      nd_children = [([], 1), (le_enc 8 5, 2), ([], 0), ([], 0)]\<rparr>"

theorem internal_split_routes_witness:
  "\<exists>p'. internal_InsertNodeAfter sample_internal 2 (le_enc 8 7) 3 = ok (p', 3) \<and>
     internal_Lookup (GenericComparator word_cpp bigint_schema) p' (le_enc 8 8) = ok 3"
proof -
  note key = bigint_key [OF bigint_small]
  have ok: "index_internal_ok word_cpp bigint_schema sample_internal"
    using key [of 5] by (simp add: internal_ok_def sample_internal_def children_def numeral_2_eq_2 sm_ok_def)
  have cs: "children sample_internal = [([], 1)] @ (le_enc 8 5, 2) # []"
    by (simp add: children_def sample_internal_def numeral_2_eq_2)
  have "internal_Lookup (GenericComparator word_cpp bigint_schema) sample_internal (le_enc 8 8) = ok 2"
    using gk.internal_Lookup_ok [OF ok key(1), of 8] key(2) [of 5] key(2) [of 8] by (simp add: cs)
  moreover have "nd_size sample_internal = 2" by (simp add: sample_internal_def)
  ultimately show ?thesis
    using internal_split_routes [OF ok _ cs, of "le_enc 8 7" "le_enc 8 8" 3] key [of 5] key [of 7] key [of 8]
    by (auto simp: sample_internal_def)
qed

text \<open>
  C36. Splitting a leaf and merging it back. An overfull leaf (one entry more than its maximum) is
  split by MoveHalfTo into two leaves in order, the entries of the first all below those of the
  second, of half the entries each and linked in this order; MoveAllTo of the new page back into
  the old one restores its entries, its size and its link.
\<close>

theorem leaf_split_merge:
  assumes "index_leaf_ok F s p" and "nd_size p = nd_max p + 1"
    and "length (nd_array q) = length (nd_array p)"
  shows "\<exists>p1 q1. leaf_MoveHalfTo p q = ok (p1, q1) \<and> index_leaf_ok F s p1 \<and> index_leaf_ok F s q1 \<and>
    entries p = entries p1 @ entries q1 \<and> nd_size p1 = nd_size p div 2 \<and>
    nd_next p1 = nd_id q \<and> nd_next q1 = nd_next p \<and>
    (\<exists>q2 p2. leaf_MoveAllTo q1 p1 = ok (q2, p2) \<and> index_leaf_ok F s p2 \<and>
       entries p2 = entries p \<and> nd_size p2 = nd_size p \<and> nd_next p2 = nd_next p)"
proof -
  obtain p1 q1 where m: "leaf_MoveHalfTo p q = ok (p1, q1)"
    "index_leaf_ok F s p1" "index_leaf_ok F s q1" "entries p = entries p1 @ entries q1"
    "nd_size p1 = nd_size p div 2" "nd_size q1 = nd_size p - nd_size p div 2"
    "nd_next p1 = nd_id q" "nd_next q1 = nd_next p"
    "length (nd_array p1) = length (nd_array p)" "length (nd_array q1) = length (nd_array p)"
    using gk.leaf_MoveHalfTo_ok [OF assms] .
  have sorted: "sm_ok (leaf_map F s p1 @ leaf_map F s q1)"
    using assms(1) by (simp add: leaf_ok_def m(4))
  have "nd_size q1 + nd_size p1 \<le> int (length (nd_array p1))"
    using assms(1) m(5,6,9) by (simp add: leaf_ok_def)
  then obtain q2 p2 where "leaf_MoveAllTo q1 p1 = ok (q2, p2)" "index_leaf_ok F s p2"
    "entries p2 = entries p1 @ entries q1" "nd_size p2 = nd_size p1 + nd_size q1" "nd_next p2 = nd_next q1"
    using gk.leaf_MoveAllTo_ok [OF m(3,2)] sorted by (metis ranked_simps(3))
  then show ?thesis using m by auto
qed

theorem leaf_split_merge_witness:
  "\<exists>p1 q1. leaf_MoveHalfTo (sample_leaf\<lparr>nd_max := 1\<rparr>) (sample_leaf\<lparr>nd_id := 8\<rparr>) = ok (p1, q1) \<and>
     nd_size p1 = 1 \<and> nd_next p1 = 8 \<and>
     (\<exists>q2 p2. leaf_MoveAllTo q1 p1 = ok (q2, p2) \<and> nd_size p2 = 2)"
proof -
  have "index_leaf_ok word_cpp bigint_schema (sample_leaf\<lparr>nd_max := 1\<rparr>)"
    using sample_leaf_ok(1) by (simp add: leaf_ok_def entries_def)
  from leaf_split_merge [OF this, of "sample_leaf\<lparr>nd_id := 8\<rparr>"] show ?thesis
    by (auto simp: sample_leaf_def)
qed

end
