(* ===== verification/Bpt_Index.thy ===== *)
theory Bpt_Index
  imports Bpt_Tree Bpt_Keys
begin

text \<open>
  The index of a table (\<^verbatim>\<open>index/index.h\<close>, \<^verbatim>\<open>index/b_plus_tree_index.cpp\<close>): a tree whose keys are the bytes
  of key tuples, compared by the key schema.
\<close>

record IndexMetadata =
  im_name :: "byte list"
  im_table_name :: "byte list"
  im_key_attrs :: "int list"
  im_key_schema :: Schema

definition IndexMetadata_make ::
  "byte list \<Rightarrow> byte list \<Rightarrow> Schema \<Rightarrow> int list \<Rightarrow> IndexMetadata res" where
  "IndexMetadata_make nm table_name tuple_schema key_attrs =
     bindE (CopySchema tuple_schema key_attrs) (\<lambda>s.
       ok \<lparr>im_name = nm, im_table_name = table_name, im_key_attrs = key_attrs, im_key_schema = s\<rparr>)"

definition GetIndexColumnCount :: "IndexMetadata \<Rightarrow> int" where
  "GetIndexColumnCount m = int (length (im_key_attrs m))"

text \<open>The class \<^verbatim>\<open>BPlusTreeIndex<GenericKey<ks>, RID, GenericComparator<ks>>\<close>.\<close>

definition index_env :: "'d cpp \<Rightarrow> page_hash \<Rightarrow> nat \<Rightarrow> IndexMetadata \<Rightarrow> bpt_env" where
  "index_env F h ks m = \<lparr>hash_fn = h, key_size = ks, comparator = GenericComparator F (im_key_schema m)\<rparr>"

definition BPlusTreeIndex_make :: "IndexMetadata \<Rightarrow> BufferPoolManager \<Rightarrow> int \<Rightarrow> BPlusTree" where
  "BPlusTreeIndex_make m pool root =
     \<lparr>index_name = im_name m, root_page_id = root, bpm = pool, rwlatch = (\<lambda>_. rw_init), mMutex = rw_init,
      mRootLockedCnt = 0, transaction = None\<rparr>"

definition InsertEntry :: "bpt_env \<Rightarrow> nat \<Rightarrow> Tuple \<Rightarrow> RID \<Rightarrow> unit op" where
  "InsertEntry E fuel key rid =
     bindS (liftS (SetFromKey (key_size E) key)) (\<lambda>index_key.
     bindS (Insert E fuel index_key rid) (\<lambda>_. retS ()))"

definition DeleteEntry :: "bpt_env \<Rightarrow> nat \<Rightarrow> Tuple \<Rightarrow> unit op" where
  "DeleteEntry E fuel key =
     bindS (liftS (SetFromKey (key_size E) key)) (\<lambda>index_key. Remove E fuel index_key)"

text \<open>\<^verbatim>\<open>ScanKey\<close> drops the Boolean that \<^verbatim>\<open>GetValue\<close> returns: its outcome is the vector alone.\<close>

definition ScanKey :: "bpt_env \<Rightarrow> nat \<Rightarrow> Tuple \<Rightarrow> RID list \<Rightarrow> RID list op" where
  "ScanKey E fuel key result =
     bindS (liftS (SetFromKey (key_size E) key)) (\<lambda>index_key.
     bindS (GetValue E fuel index_key result) (\<lambda>(_, result1). retS result1))"

end
