(* ===== verification/Bpt_Search.thy ===== *)
theory Bpt_Search
  imports Bpt_Hold Bpt_Shape Bpt_Index
begin

text \<open>
  The search of a tree of any height through the buffer pool: the descent with the crabbing protocol
  reaches the leaf of the key and holds the pages it must, and a lookup answers from the map the tree
  stands for and leaves no page pinned or latched. The comparator of the tree is only known by its
  order (the interface \<open>tree_index\<close>, which the comparator of the index of a table satisfies).
\<close>

section \<open>Trees at rest\<close>

text \<open>
  Between two operations: no page is pinned or latched, the root is not locked, and the transaction
  of the call, if there is one, has no pages.
\<close>

definition at_rest :: "bpt_env \<Rightarrow> BPlusTree \<Rightarrow> bool" where
  "at_rest E s \<longleftrightarrow> held E False [] {} s \<and> recorded [] False s \<and> root_free s"

text \<open>\<open>stores E valid rank n m s\<close>: the tree of \<open>s\<close> is well formed, of height \<open>n\<close>, and has the entries \<open>m\<close>.\<close>

definition stores ::
  "bpt_env \<Rightarrow> (byte list \<Rightarrow> bool) \<Rightarrow> (byte list \<Rightarrow> 'o::linorder) \<Rightarrow> nat \<Rightarrow> ('o \<times> RID) list \<Rightarrow> BPlusTree \<Rightarrow> bool" where
  "stores E valid rank n m s \<longleftrightarrow>
     root_page_id s = INVALID_PAGE_ID \<and> m = [] \<or>
     (\<exists>ps. tree_of valid rank (key_size E) (bp_view (hash_fn E) (bpm s)) n (root_page_id s) ps m)"

lemma tree_stores:
  "tree_of valid rank (key_size E) (bp_view (hash_fn E) (bpm s)) n (root_page_id s) ps m \<Longrightarrow> stores E valid rank n m s"
  by (auto simp: stores_def)

lemma held_none: "held E excl [] X s \<longleftrightarrow> held E excl' [] X s"
  by (simp add: held_def)

lemma kept_tree:
  assumes "kept E s s'" and "tree_of valid rank ks (bp_view (hash_fn E) (bpm s)) n pid ps m"
  shows "tree_of valid rank ks (bp_view (hash_fn E) (bpm s')) n pid ps m"
proof (rule tree_of_cong [OF assms(2)])
  show "\<forall>q \<in> set ps. bp_view (hash_fn E) (bpm s') q = bp_view (hash_fn E) (bpm s) q"
    using tree_of_views [OF assms(2)] assms(1) by (metis kept_def)
qed

lemma kept_stores: "kept E s s' \<Longrightarrow> stores E valid rank n m s \<Longrightarrow> stores E valid rank n m s'"
  using kept_tree [of E s s' valid rank "key_size E" n "root_page_id s"] unfolding stores_def
  by (metis kept_def)

text \<open>The vector after a lookup that found \<open>r\<close>: an empty index leaves it as it was.\<close>

definition lookup_result :: "int \<Rightarrow> RID option \<Rightarrow> RID list \<Rightarrow> RID list" where
  "lookup_result root r result =
     (case r of Some v \<Rightarrow> [v] | None \<Rightarrow> if root = INVALID_PAGE_ID then result else resize1 result)"

section \<open>The descent\<close>

locale tree_index = key_order "comparator E" valid rank
  for E :: bpt_env and valid :: "byte list \<Rightarrow> bool" and rank :: "byte list \<Rightarrow> 'o::linorder"
begin

lemma find_leaf_down:
  assumes "tree_of valid rank (key_size E) V n pid ps m" and "valid key"
    and "held E (opr \<noteq> OpRead) (H @ [(pid, t)]) {} s" and "recorded (H @ [(pid, t)]) (opr \<noteq> OpRead) s"
    and "root_lock (opr \<noteq> OpRead) s" and "fst ` set H \<inter> set ps = {}"
    and "\<forall>p d. V p = Some d \<longrightarrow> bp_view (hash_fn E) (bpm s) p = Some d" and "n < fuel"
    and "length H + (if opr = OpRead then min n 1 else n) < pool_size (bpm s)"
  shows "\<exists>H' t' s'. find_leaf E key False opr fuel t pid s = Inr (t', s') \<and>
    held E (opr \<noteq> OpRead) (H' @ [(leaf_for rank (key_size E) V n pid (rank key), t')]) {} s' \<and>
    recorded (H' @ [(leaf_for rank (key_size E) V n pid (rank key), t')]) (opr \<noteq> OpRead) s' \<and>
    root_lock (opr \<noteq> OpRead) s' \<and> kept E s s'"
  using assms
proof (induction n arbitrary: pid ps m H t s fuel)
  case 0
  from 0(1) obtain d where d: "tree_page V pid d LEAF_PAGE" by (rule tree_of_leafE)
  obtain f where f: "fuel = Suc f" using 0 by (cases fuel) auto
  have "t_data t s = Inr (d, s)"
    using held_data(1,2) [OF 0(3), of pid t] d 0(7) by (auto simp: tree_page_def)
  then have "find_leaf E key False opr fuel t pid s = Inr (t, s)"
    using d f by (simp add: t_node_def op_simps tree_page_def IsLeafPage_def)
  with 0(3-5) show ?case by (intro exI [of _ H] exI [of _ t] exI [of _ s]) (simp add: kept_refl)
next
  case (Suc n)
  obtain f where f: "fuel = Suc f" using Suc.prems by (cases fuel) auto
  obtain d c cs cm where d: "tree_page V pid d INTERNAL_PAGE" "internal_ok valid rank (internal_view (key_size E) d)"
    "routed rank (internal_view (key_size E) d) (rank key) = c" "tree_of valid rank (key_size E) V n c cs cm"
    "pid \<in> set ps" "pid \<notin> set cs" "set cs \<subseteq> set ps"
    "leaf_for rank (key_size E) V (Suc n) pid (rank key) = leaf_for rank (key_size E) V n c (rank key)"
    using tree_of_child [OF Suc.prems(1), of "rank key"] by metis
  have dat: "t_data t s = Inr (d, s)" and pid: "pid_ok pid" "0 < pid"
    using held_data(1,2) [OF Suc.prems(3), of pid t] d Suc.prems(7) by (auto simp: tree_page_def)
  obtain d' where c: "V c = Some d'" "pid_ok c" using tree_of_page [OF d(4)] .
  have new: "c \<notin> fst ` set (H @ [(pid, t)])" using tree_of_root [OF d(4)] d(6,7) Suc.prems(6) by auto
  have room: "length (H @ [(pid, t)]) < pool_size (bpm s)" using Suc.prems(9) by (simp split: if_splits)
  define H1 where "H1 = (if lets_go opr pid d' then [] else H @ [(pid, t)])"
  have p: "H @ [(pid, t)] = [] \<and> pid = - 1 \<or> (\<exists>H0 t0. H @ [(pid, t)] = H0 @ [(pid, t0)] \<and> 0 < pid \<and> pid_ok pid)"
    using pid by blast
  have view: "bp_view (hash_fn E) (bpm s) c = Some d'" using c Suc.prems(7) by simp
  obtain u s1 where s1: "CrabingProtocalFetchPage E c opr pid s = Inr (u, s1)"
    "held E (opr \<noteq> OpRead) (H1 @ [(c, u)]) {} s1" "recorded (H1 @ [(c, u)]) (opr \<noteq> OpRead) s1"
    "root_lock (opr \<noteq> OpRead) s1" "kept E s s1"
    using Crab_held [OF Suc.prems(3-5) new c(2) view room p H1_def] .
  have H1: "fst ` set H1 \<inter> set cs = {}" using Suc.prems(6) d(6,7) by (auto simp: H1_def)
  have V1: "\<forall>p d. V p = Some d \<longrightarrow> bp_view (hash_fn E) (bpm s1) p = Some d" and ps1: "pool_size (bpm s1) = pool_size (bpm s)"
    using s1(5) Suc.prems(7) by (simp_all add: kept_def)
  have "opr = OpRead \<Longrightarrow> H1 = []" using pid by (simp add: H1_def lets_go_def)
  then have room1: "length H1 + (if opr = OpRead then min n 1 else n) < pool_size (bpm s1)"
    using Suc.prems(9) ps1 by (auto simp: H1_def split: if_splits)
  have "n < f" using Suc.prems(8) f by simp
  from Suc.IH [OF d(4) Suc.prems(2) s1(2-4) H1 V1 this room1] obtain H' t' s' where ih:
    "find_leaf E key False opr f u c s1 = Inr (t', s')"
    "held E (opr \<noteq> OpRead) (H' @ [(leaf_for rank (key_size E) V n c (rank key), t')]) {} s'"
    "recorded (H' @ [(leaf_for rank (key_size E) V n c (rank key), t')]) (opr \<noteq> OpRead) s'"
    "root_lock (opr \<noteq> OpRead) s'" "kept E s1 s'"
    by blast
  have "internal_Lookup (comparator E) (internal_view (key_size E) d) key = Inr c"
    using internal_Lookup_ok [OF d(2) Suc.prems(2)] d(3) by (simp add: routed_def)
  then have "find_leaf E key False opr fuel t pid s = Inr (t', s')"
    using d(1) f dat s1(1) ih(1) by (simp add: t_node_def t_internal_def op_simps tree_page_def IsLeafPage_def)
  then show ?case using ih(2-5) kept_trans [OF s1(5) ih(5)] d(8) by metis
qed

text \<open>From the root: the leaf of the key is found, pinned and latched.\<close>

lemma FindLeafPage_ok:
  assumes tree: "tree_of valid rank (key_size E) (bp_view (hash_fn E) (bpm s)) n (root_page_id s) ps m"
    and key: "valid key" and rest: "at_rest E s" and tx: "opr = OpRead \<or> transaction s \<noteq> None"
    and fuel: "n < fuel" and room: "(if opr = OpRead then min n 1 else n) < pool_size (bpm s)"
    and lf: "lf = leaf_for rank (key_size E) (bp_view (hash_fn E) (bpm s)) n (root_page_id s) (rank key)"
  obtains H t s' where "FindLeafPage E fuel key False opr s = Inr (t, s')"
    and "held E (opr \<noteq> OpRead) (H @ [(lf, t)]) {} s'" and "recorded (H @ [(lf, t)]) (opr \<noteq> OpRead) s'"
    and "root_lock (opr \<noteq> OpRead) s'" and "kept E s s'"
proof -
  let ?e = "opr \<noteq> OpRead" and ?V = "bp_view (hash_fn E) (bpm s)"
  let ?s = "s\<lparr>mMutex := latched ?e, mRootLockedCnt := 1\<rparr>"
  obtain d where d: "?V (root_page_id s) = Some d" "pid_ok (root_page_id s)" "0 < root_page_id s"
    using tree_of_page [OF tree] .
  have h: "held E ?e [] {} ?s" "recorded [] ?e ?s" "root_lock ?e ?s"
    using rest tx held_none [of E False "{}" s ?e]
    by (auto simp: at_rest_def recorded_def root_lock_def held_def split: option.splits)
  have k: "kept E s ?s" by (simp add: kept_def)
  have v: "bp_view (hash_fn E) (bpm ?s) (root_page_id s) = Some d" and r0: "length [] < pool_size (bpm ?s)"
    and q: "root_page_id s \<notin> fst ` set []"
    using d(1) room by (simp_all split: if_splits)
  have p: "[] = [] \<and> - 1 = (- 1 :: int) \<or>
      (\<exists>H0 t0. [] = H0 @ [(- 1 :: int, t0 :: nat)] \<and> 0 < (- 1 :: int) \<and> pid_ok (- 1))" by simp
  have H': "[] = (if lets_go opr (- 1) d then [] else [] :: (int \<times> nat) list)" by simp
  obtain t s1 where s1: "CrabingProtocalFetchPage E (root_page_id s) opr (- 1) ?s = Inr (t, s1)"
    "held E ?e ([] @ [(root_page_id s, t)]) {} s1" "recorded ([] @ [(root_page_id s, t)]) ?e s1" "root_lock ?e s1" "kept E ?s s1"
    using Crab_held [OF h q d(2) v r0 p H'] .
  have k1: "kept E s s1" using kept_trans [OF k s1(5)] .
  have V1: "\<forall>p d. ?V p = Some d \<longrightarrow> bp_view (hash_fn E) (bpm s1) p = Some d"
    and room1: "length ([] :: (int \<times> nat) list) + (if opr = OpRead then min n 1 else n) < pool_size (bpm s1)"
    and q1: "fst ` set [] \<inter> set ps = {}"
    using k1 room by (simp_all add: kept_def)
  from find_leaf_down [OF tree key s1(2-4) q1 V1 fuel room1, folded lf] obtain H t' s' where f:
    "find_leaf E key False opr fuel t (root_page_id s) s1 = Inr (t', s')"
    "held E ?e (H @ [(lf, t')]) {} s'" "recorded (H @ [(lf, t')]) ?e s'" "root_lock ?e s'" "kept E s1 s'"
    by blast
  have lock: "LockRootPageId ?e s = Inr ((), ?s)" using Lock_root rest by (simp add: at_rest_def)
  have "FindLeafPage E fuel key False opr s = Inr (t', s')"
    using lock s1(1) f(1) d(3) by (simp add: FindLeafPage_def Let_def IsEmpty_def op_simps)
  then show thesis using that f(2-4) kept_trans [OF k1 f(5)] by blast
qed

lemma FindLeafPage_empty:
  assumes "root_page_id s = INVALID_PAGE_ID" and "at_rest E s"
  shows "FindLeafPage E fuel key False opr s = Inr (0, s)"
proof -
  let ?e = "opr \<noteq> OpRead" and ?s = "s\<lparr>mMutex := latched (opr \<noteq> OpRead), mRootLockedCnt := 1\<rparr>"
  have lock: "LockRootPageId ?e s = Inr ((), ?s)" using Lock_root assms(2) by (simp add: at_rest_def)
  have "s\<lparr>mMutex := rw_init, mRootLockedCnt := 0\<rparr> = s" using assms(2) by (simp add: at_rest_def root_free_def)
  then have "TryUnlockRootPageId ?e ?s = Inr ((), s)" using TryUnlock_root [of ?e ?s] by (simp add: root_lock_def)
  then show ?thesis using lock assms(1) by (simp add: FindLeafPage_def Let_def IsEmpty_def op_simps)
qed

lemma GetValue_ok:
  fixes result :: "RID list"
  assumes st: "stores E valid rank n m s" and rest: "at_rest E s" and key: "valid key" and fuel: "n < fuel"
    and room: "2 \<le> pool_size (bpm s)"
  shows "\<exists>s'. GetValue E fuel key result s =
      Inr ((map_of m (rank key) \<noteq> None, lookup_result (root_page_id s) (map_of m (rank key)) result), s') \<and> at_rest E s' \<and> stores E valid rank n m s' \<and>
    kept E s s'"
proof (cases "root_page_id s = INVALID_PAGE_ID")
  case True
  then have "m = []" using st tree_of_page by (fastforce simp: stores_def)
  then show ?thesis
    using FindLeafPage_empty [OF True rest] rest st by (simp add: GetValue_def lookup_result_def True op_simps kept_refl)
next
  case False
  let ?V = "bp_view (hash_fn E) (bpm s)"
  define lf where "lf = leaf_for rank (key_size E) ?V n (root_page_id s) (rank key)"
  obtain ps where tree: "tree_of valid rank (key_size E) ?V n (root_page_id s) ps m" using st False by (auto simp: stores_def)
  have rd: "OpRead = OpRead \<or> transaction s \<noteq> None" "(if OpRead = OpRead then min n 1 else n) < pool_size (bpm s)"
    using room by simp_all
  obtain H t s1 where f: "FindLeafPage E fuel key False OpRead s = Inr (t, s1)"
    "held E (OpRead \<noteq> OpRead) (H @ [(lf, t)]) {} s1" "recorded (H @ [(lf, t)]) (OpRead \<noteq> OpRead) s1"
    "root_lock (OpRead \<noteq> OpRead) s1" "kept E s s1"
    using FindLeafPage_ok [OF tree key rest rd(1) fuel rd(2) lf_def] .
  obtain d where d: "tree_page ?V lf d LEAF_PAGE" "leaf_ok valid rank (leaf_view (key_size E) d)"
    "map_of (ranked rank (entries (leaf_view (key_size E) d))) (rank key) = map_of m (rank key)"
    using tree_of_leaf_for [OF tree, of "rank key"] unfolding lf_def by metis
  have dat: "t_data t s1 = Inr (d, s1)" "t \<noteq> 0"
    using held_data(1,2,4) [OF f(2), of lf t] d(1) f(5) by (auto simp: tree_page_def kept_def)
  have id: "nd_id (leaf_view (key_size E) d) = lf" "pid_ok lf" using d(1) by (simp_all add: tree_page_def)
  have n: "\<exists>t'. H @ [(lf, t)] = [(lf, t')] \<and> pid_ok lf" if "transaction s1 = None"
    using f(3) that id(2) by (simp add: recorded_def)
  have hh: "held E False ((H @ [(lf, t)]) @ []) {} s1" and c: "False \<or> {} \<inter> fst ` set (H @ [(lf, t)]) = {}"
    and X: "(if False then {} - fst ` set (H @ [(lf, t)]) else {}) = ({} :: int set)"
    and r1: "recorded (H @ [(lf, t)]) False s1" and l1: "root_lock False s1"
    using f by simp_all
  obtain s2 where s2: "FreePagesInTransaction E False lf s1 = Inr ((), s2)" "held E False [] {} s2" "root_free s2"
    "recorded [] False s2" "kept E s1 s2"
    using FreePages_held [OF hh r1 l1 n c, unfolded X] .
  have "GetValue E fuel key result s =
      Inr ((map_of m (rank key) \<noteq> None, lookup_result (root_page_id s) (map_of m (rank key)) result), s2)"
    using f(1) dat s2(1) id(1) leaf_Lookup_ok [OF d(2) key] d(3)
    by (simp add: GetValue_def t_leaf_def lookup_result_def False op_simps)
  moreover have k: "kept E s s2" using kept_trans [OF f(5) s2(5)] .
  ultimately show ?thesis using s2(2-4) kept_stores [OF k st] by (simp add: at_rest_def)
qed

end

interpretation ix: tree_index "index_env F h ks im" "key_valid F (im_key_schema im)" "key_rank F (im_key_schema im)"
proof
  fix a b assume "key_valid F (im_key_schema im) a" "key_valid F (im_key_schema im) b"
  then show "\<exists>c. comparator (index_env F h ks im) a b = ok c \<and>
      (c < 0 \<longleftrightarrow> key_rank F (im_key_schema im) a < key_rank F (im_key_schema im) b) \<and>
      (c > 0 \<longleftrightarrow> key_rank F (im_key_schema im) b < key_rank F (im_key_schema im) a)"
    using gk.cmp_rank by (simp add: index_env_def)
qed

end
