(* ===== verification/Bpt_Update.thy ===== *)
theory Bpt_Update
  imports Bpt_Search
begin

text \<open>
  Insertion and removal through the whole stack where no page has to be split or merged: the leaf of
  the key is changed in its frame, the pages held are released as dirty, and the tree stands for the
  updated map afterwards, whatever its height.
\<close>

section \<open>Writing a held leaf\<close>

lemma held_put:
  assumes h: "held E excl H X s" and q: "(q, t) \<in> set H" and d: "length d = PAGE_SIZE"
  shows "held E excl H (insert q X) (s\<lparr>bpm := bp_poke t d (bpm s)\<rparr>)"
    and "bp_view (hash_fn E) (bp_poke t d (bpm s)) = (bp_view (hash_fn E) (bpm s))(q \<mapsto> d)"
    and "bp_upcoming (bp_poke t d (bpm s)) = bp_upcoming (bpm s)"
    and "pool_size (bp_poke t d (bpm s)) = pool_size (bpm s)"
proof -
  have P: "0 < once H q" using once_pos [OF q] by simp
  note p = pins.poke_law [OF held_pool [OF h] P held_at [OF h q] d]
  show "held E excl H (insert q X) (s\<lparr>bpm := bp_poke t d (bpm s)\<rparr>)"
    using h p by (simp add: held_def)
qed (use pins.poke_law [OF held_pool [OF h] _ held_at [OF h q] d] once_pos [OF q] in auto)

lemma capacity_in32: "0 \<le> n \<Longrightarrow> n \<le> int (leaf_capacity ks) \<Longrightarrow> in32 n"
proof -
  assume "0 \<le> n" "n \<le> int (leaf_capacity ks)"
  moreover have "leaf_capacity ks \<le> 484" using div_le_dividend [of 484 "ks + 8"] by (simp add: leaf_capacity_def)
  ultimately show ?thesis by simp
qed

text \<open>A leaf with another array still fits its page.\<close>

lemma leaf_fits_update:
  assumes "leaf_fits ks p" and "leaf_ok valid rank (p\<lparr>nd_size := n, nd_array := a\<rparr>)" and "length a = length (nd_array p)"
    and "set a \<subseteq> insert e (set (nd_array p))"
    and "e \<in> set (nd_array p) \<or> length (fst e) = ks \<and> in32 (rid_page (snd e)) \<and> in32 (rid_slot (snd e))"
  shows "leaf_fits ks (p\<lparr>nd_size := n, nd_array := a\<rparr>)"
proof -
  have "in32 n" using assms(1-3) capacity_in32 [of n ks] by (simp add: leaf_ok_def leaf_fits_def)
  then show ?thesis using assms(1,3-5) by (auto simp: leaf_fits_def header_fits_def list_all_iff)
qed

section \<open>Replacing the leaf of a key\<close>

text \<open>Everything but the bytes of one page stays as it was.\<close>

definition kept_but :: "bpt_env \<Rightarrow> int \<Rightarrow> BPlusTree \<Rightarrow> BPlusTree \<Rightarrow> bool" where
  "kept_but E q s s' \<longleftrightarrow> index_name s' = index_name s \<and> root_page_id s' = root_page_id s \<and>
     clear_pages (transaction s') = clear_pages (transaction s) \<and>
     pool_size (bpm s') = pool_size (bpm s) \<and> bp_upcoming (bpm s') = bp_upcoming (bpm s) \<and>
     (\<forall>p x. p \<noteq> q \<longrightarrow> bp_view (hash_fn E) (bpm s) p = Some x \<longrightarrow> bp_view (hash_fn E) (bpm s') p = Some x)"

text \<open>The leaf of a key allows the operation to work in place, as the crabbing protocol judges it.\<close>

definition in_place ::
  "bpt_env \<Rightarrow> (byte list \<Rightarrow> 'o::linorder) \<Rightarrow> OperationType \<Rightarrow> nat \<Rightarrow> byte list \<Rightarrow> BPlusTree \<Rightarrow> bool" where
  "in_place E rank opr n key s \<longleftrightarrow>
     (let V = bp_view (hash_fn E) (bpm s) in
      case V (leaf_for rank (key_size E) V n (root_page_id s) (rank key)) of
        None \<Rightarrow> False
      | Some d \<Rightarrow> isSafe (header_view d) opr = ok True \<and> nd_max (header_view d) \<le> int (leaf_capacity (key_size E)))"

lemma kept_kept_but: "kept E s s' \<Longrightarrow> kept_but E q s s'"
  by (simp add: kept_def kept_but_def)

text \<open>An operation that changes nothing releases what it holds.\<close>

lemma release_ok:
  assumes s1: "kept E s s1" "held E True H {} s1" "recorded H True s1" "root_lock True s1"
  obtains s2 where "FreePagesInTransaction E True (- 1) s1 = Inr ((), s2)" and "at_rest E s2" and "kept E s s2"
proof -
  have tx: "transaction s1 \<noteq> None" using s1(3) by (auto simp: recorded_def split: option.splits)
  have n: "\<exists>t'. H = [(- 1, t')] \<and> pid_ok (- 1)" if "transaction s1 = None" using that tx by simp
  have h: "held E True (H @ []) {} s1" and c: "True \<or> {} \<inter> fst ` set H = {}"
    and X: "(if True then {} - fst ` set H else {}) = ({} :: int set)"
    using s1(2) by simp_all
  obtain s2 where s2: "FreePagesInTransaction E True (- 1) s1 = Inr ((), s2)" "held E True [] {} s2" "root_free s2"
    "recorded [] True s2" "kept E s1 s2"
    using FreePages_held [OF h s1(3,4) n c, unfolded X] .
  have "at_rest E s2"
    using s2(2-4) held_none [of E True "{}" s2 False] by (auto simp: at_rest_def recorded_def split: option.splits)
  then show thesis using that s2(1) kept_trans [OF s1(1) s2(5)] by blast
qed

text \<open>The tree of a state on the pages \<open>ps\<close>.\<close>

definition rooted ::
  "bpt_env \<Rightarrow> (byte list \<Rightarrow> bool) \<Rightarrow> (byte list \<Rightarrow> 'o::linorder) \<Rightarrow> nat \<Rightarrow> int list \<Rightarrow> ('o \<times> RID) list \<Rightarrow> BPlusTree \<Rightarrow> bool" where
  "rooted E valid rank n ps m s \<longleftrightarrow>
     tree_of valid rank (key_size E) (bp_view (hash_fn E) (bpm s)) n (root_page_id s) ps m"

lemma rooted_stores: "rooted E valid rank n ps m s \<Longrightarrow> stores E valid rank n m s"
  unfolding rooted_def by (rule tree_stores)

context tree_index
begin

lemma put_leaf_ok:
  assumes tree: "tree_of valid rank (key_size E) (bp_view (hash_fn E) (bpm s)) n (root_page_id s) ps m"
    and lf: "lf = leaf_for rank (key_size E) (bp_view (hash_fn E) (bpm s)) n (root_page_id s) k"
    and d: "bp_view (hash_fn E) (bpm s) lf = Some d"
    and s1: "kept E s s1" "held E True (H @ [(lf, t)]) {} s1" "recorded (H @ [(lf, t)]) True s1" "root_lock True s1"
    and p: "leaf_fits (key_size E) p" "leaf_ok valid rank p" "nd_type p = LEAF_PAGE" "nd_id p = lf"
    and keys: "fst ` set (ranked rank (entries p)) \<subseteq> insert k (fst ` set (ranked rank (entries (leaf_view (key_size E) d))))"
  obtains s2 s3 M where "t_set_leaf t p s1 = Inr ((), s2)" and "FreePagesInTransaction E True (- 1) s2 = Inr ((), s3)"
    and "at_rest E s3" and "rooted E valid rank n ps M s3" and "kept_but E lf s s3"
    and "\<forall>j. map_of M j = (if leaf_for rank (key_size E) (bp_view (hash_fn E) (bpm s)) n (root_page_id s) j = lf
      then map_of (ranked rank (entries p)) j else map_of m j)"
proof -
  let ?V = "bp_view (hash_fn E) (bpm s)"
  have d1: "bp_view (hash_fn E) (bpm s1) lf = Some d" using s1(1) d by (simp add: kept_def)
  have dat: "t_data t s1 = Inr (d, s1)" "length d = PAGE_SIZE"
    using held_data(1-3) [OF s1(2), of lf t] d1 by auto
  define d' where "d' = leaf_store d p"
  have d': "leaf_view (key_size E) d' = p" "length d' = PAGE_SIZE"
    using leaf_view_store [OF dat(2) p(1)] by (simp_all add: d'_def)
  let ?s2 = "s1\<lparr>bpm := bp_poke t d' (bpm s1)\<rparr>"
  have put: "t_set_leaf t p s1 = Inr ((), ?s2)" using dat(1) by (simp add: t_set_leaf_def t_put_def op_simps d'_def)
  have at: "(lf, t) \<in> set (H @ [(lf, t)])" by simp
  note hp = held_put [OF s1(2) at d'(2)]
  have h2: "held E True ((H @ [(lf, t)]) @ []) {lf} ?s2" using hp(1) by simp
  have tx: "transaction s1 \<noteq> None" using s1(3) by (auto simp: recorded_def split: option.splits)
  have n2: "\<exists>t'. H @ [(lf, t)] = [(- 1, t')] \<and> pid_ok (- 1)" if "transaction ?s2 = None" using that tx by simp
  have r2: "recorded (H @ [(lf, t)]) True ?s2" and l2: "root_lock True ?s2" and c2: "True \<or> {lf} \<inter> fst ` set (H @ [(lf, t)]) = {}"
    and X: "(if True then {lf} - fst ` set (H @ [(lf, t)]) else {lf}) = {}"
    using s1(3,4) by (simp_all add: recorded_def root_lock_def)
  obtain s3 where s3: "FreePagesInTransaction E True (- 1) ?s2 = Inr ((), s3)" "held E True [] {} s3" "root_free s3"
    "recorded [] True s3" "kept E ?s2 s3"
    using FreePages_held [OF h2 r2 l2 n2 c2, unfolded X] .
  have rest: "at_rest E s3"
    using s3(2-4) held_none [of E True "{}" s3 False] by (auto simp: at_rest_def recorded_def split: option.splits)
  let ?V1 = "bp_view (hash_fn E) (bpm s1)"
  have lfpage: "tree_page (?V(lf \<mapsto> d')) lf d' LEAF_PAGE"
  proof -
    obtain e where "tree_page ?V lf e LEAF_PAGE" using tree_of_leaf_for [OF tree, of k] lf by metis
    moreover have "nd_type (header_view d') = LEAF_PAGE" "nd_id (header_view d') = lf"
      using arg_cong [OF d'(1), of nd_type] arg_cong [OF d'(1), of nd_id] p(3,4) by simp_all
    ultimately show ?thesis by (simp add: tree_page_def)
  qed
  from tree_of_replace [OF tree lf lfpage _ d refl] obtain M where
    M: "tree_of valid rank (key_size E) (?V(lf \<mapsto> d')) n (root_page_id s) ps M"
    "\<forall>j. map_of M j = (if leaf_for rank (key_size E) ?V n (root_page_id s) j = lf
      then map_of (ranked rank (entries p)) j else map_of m j)"
    using keys p(2) d'(1) by blast
  have keep: "bp_view (hash_fn E) (bpm s3) q = Some x" if "(?V(lf \<mapsto> d')) q = Some x" for q x
    using s3(5) hp(2) s1(1) that by (auto simp: kept_def split: if_splits)
  have root: "root_page_id s3 = root_page_id s" using s1(1) s3(5) by (simp add: kept_def)
  have "tree_of valid rank (key_size E) (bp_view (hash_fn E) (bpm s3)) n (root_page_id s) ps M"
  proof (rule tree_of_cong [OF M(1)], rule ballI)
    fix q assume "q \<in> set ps"
    then obtain x where "(?V(lf \<mapsto> d')) q = Some x" using tree_of_views [OF M(1)] by blast
    then show "bp_view (hash_fn E) (bpm s3) q = (?V(lf \<mapsto> d')) q" using keep by simp
  qed
  then have "rooted E valid rank n ps M s3" using root by (simp add: rooted_def)
  moreover have "kept_but E lf s s3"
    using keep root s1(1) s3(5) hp(3,4) by (simp add: kept_def kept_but_def)
  ultimately show thesis using that [OF put s3(1) rest] M(2) by blast
qed


text \<open>The leaf of the key as an operation that changes it finds it.\<close>

lemma leaf_taken:
  assumes tree: "tree_of valid rank (key_size E) (bp_view (hash_fn E) (bpm s)) n (root_page_id s) ps m"
    and rest: "at_rest E s" and tx: "transaction s \<noteq> None" and key: "valid key"
    and fuel: "n < fuel" and room: "n < pool_size (bpm s)" and opr: "opr \<noteq> OpRead"
    and lf: "lf = leaf_for rank (key_size E) (bp_view (hash_fn E) (bpm s)) n (root_page_id s) (rank key)"
  obtains H t s1 d where "FindLeafPage E fuel key False opr s = Inr (t, s1)" and "kept E s s1"
    and "held E True (H @ [(lf, t)]) {} s1" and "recorded (H @ [(lf, t)]) True s1" and "root_lock True s1"
    and "tree_page (bp_view (hash_fn E) (bpm s)) lf d LEAF_PAGE" and "leaf_ok valid rank (leaf_view (key_size E) d)"
    and "t_leaf E t s1 = Inr (leaf_view (key_size E) d, s1)" and "length d = PAGE_SIZE"
    and "\<forall>j. leaf_for rank (key_size E) (bp_view (hash_fn E) (bpm s)) n (root_page_id s) j = lf \<longrightarrow>
      map_of (ranked rank (entries (leaf_view (key_size E) d))) j = map_of m j"
proof -
  let ?V = "bp_view (hash_fn E) (bpm s)"
  have op: "opr = OpRead \<or> transaction s \<noteq> None" "(if opr = OpRead then min n 1 else n) < pool_size (bpm s)"
    using tx room opr by simp_all
  obtain H t s1 where f: "FindLeafPage E fuel key False opr s = Inr (t, s1)"
    "held E (opr \<noteq> OpRead) (H @ [(lf, t)]) {} s1" "recorded (H @ [(lf, t)]) (opr \<noteq> OpRead) s1"
    "root_lock (opr \<noteq> OpRead) s1" "kept E s s1"
    using FindLeafPage_ok [OF tree key(1) rest op(1) fuel op(2) lf] .
  have s1: "held E True (H @ [(lf, t)]) {} s1" "recorded (H @ [(lf, t)]) True s1" "root_lock True s1"
    using f(2-4) opr by simp_all
  obtain d where d: "tree_page ?V lf d LEAF_PAGE" "leaf_ok valid rank (leaf_view (key_size E) d)"
    using tree_of_leaf_for [OF tree, of "rank key"] unfolding lf by metis
  have dv: "?V lf = Some d" using d(1) by (simp add: tree_page_def)
  have look: "map_of (ranked rank (entries (leaf_view (key_size E) d))) j = map_of m j"
    if "leaf_for rank (key_size E) ?V n (root_page_id s) j = lf" for j
    using tree_of_leaf_for [OF tree, of j] that dv by (metis option.inject tree_page_def)
  have dat: "t_leaf E t s1 = Inr (leaf_view (key_size E) d, s1)" "length d = PAGE_SIZE"
    using held_data(1-3) [OF s1(1), of lf t] dv f(5) by (auto simp: kept_def t_leaf_def op_simps)
  show thesis using that [OF f(1,5) s1 d dat] look by blast
qed

lemma Insert_in_place:
  assumes tree: "tree_of valid rank (key_size E) (bp_view (hash_fn E) (bpm s)) n (root_page_id s) ps m"
    and rest: "at_rest E s" and tx: "transaction s \<noteq> None"
    and key: "valid key" "length key = key_size E" and v: "in32 (rid_page v)" "in32 (rid_slot v)"
    and fuel: "n < fuel" and room: "n < pool_size (bpm s)"
    and place: "map_of m (rank key) = None \<Longrightarrow> in_place E rank OpInsert n key s"
    and lf: "lf = leaf_for rank (key_size E) (bp_view (hash_fn E) (bpm s)) n (root_page_id s) (rank key)"
  shows "\<exists>s' M. InsertIntoLeaf E fuel key v s = Inr (map_of m (rank key) = None, s') \<and> at_rest E s' \<and>
    rooted E valid rank n ps M s' \<and>
    map_of M = (if map_of m (rank key) = None then (map_of m)(rank key \<mapsto> v) else map_of m) \<and> kept_but E lf s s'"
proof -
  let ?V = "bp_view (hash_fn E) (bpm s)"
  have op: "OpInsert \<noteq> OpRead" by simp
  obtain H t s1 d where f: "FindLeafPage E fuel key False OpInsert s = Inr (t, s1)" and k: "kept E s s1"
    and s1: "held E True (H @ [(lf, t)]) {} s1" "recorded (H @ [(lf, t)]) True s1" "root_lock True s1"
    and d: "tree_page ?V lf d LEAF_PAGE" "leaf_ok valid rank (leaf_view (key_size E) d)"
    and dat: "t_leaf E t s1 = Inr (leaf_view (key_size E) d, s1)" "length d = PAGE_SIZE"
    and look: "\<forall>j. leaf_for rank (key_size E) ?V n (root_page_id s) j = lf \<longrightarrow>
      map_of (ranked rank (entries (leaf_view (key_size E) d))) j = map_of m j"
    using leaf_taken [OF tree rest tx key(1) fuel room op lf] .
  have dv: "?V lf = Some d" using d(1) by (simp add: tree_page_def)
  let ?p = "leaf_view (key_size E) d"
  have lk: "leaf_Lookup (comparator E) ?p key = Inr (map_of m (rank key))"
    using leaf_Lookup_ok [OF d(2) key(1)] spec [OF look, of "rank key"] lf by simp
  show ?thesis
  proof (cases "map_of m (rank key)")
    case (Some w)
    obtain s2 where s2: "FreePagesInTransaction E True (- 1) s1 = Inr ((), s2)" "at_rest E s2" "kept E s s2"
      using release_ok [OF k s1] .
    have "InsertIntoLeaf E fuel key v s = Inr (False, s2)"
      using f dat(1) lk s2(1) Some by (simp add: InsertIntoLeaf_def op_simps)
    moreover have "rooted E valid rank n ps m s2"
      using kept_tree [OF s2(3) tree] s2(3) by (simp add: rooted_def kept_def)
    ultimately show ?thesis using s2(2) kept_kept_but [OF s2(3)] Some by auto
  next
    case None
    have sz: "nd_size ?p < nd_max ?p" "nd_max ?p \<le> int (length (nd_array ?p))"
      using place [OF None] dv leaf_view_fits [OF dat(2), of "key_size E"]
      by (auto simp: in_place_def Let_def lf isSafe_def leaf_fits_def)
    have free: "length (entries ?p) < length (nd_array ?p)" using length_entries [OF d(2)] sz d(2) by (auto simp: leaf_ok_def)
    have new: "map_of (ranked rank (entries ?p)) (rank key) = None" using spec [OF look, of "rank key"] None lf by simp
    obtain a where a: "leaf_Insert (comparator E) ?p key v = ok (?p\<lparr>nd_size := nd_size ?p + 1, nd_array := a\<rparr>, nd_size ?p + 1)"
      "length a = length (nd_array ?p)" "leaf_ok valid rank (?p\<lparr>nd_size := nd_size ?p + 1, nd_array := a\<rparr>)"
      "ranked rank (entries (?p\<lparr>nd_size := nd_size ?p + 1, nd_array := a\<rparr>)) = sm_insert (rank key) v (ranked rank (entries ?p))"
      "set a \<subseteq> insert (key, v) (set (nd_array ?p))"
      using leaf_Insert_ok [OF d(2) key(1) free new] .
    define q where "q = ?p\<lparr>nd_size := nd_size ?p + 1, nd_array := a\<rparr>"
    have q: "leaf_fits (key_size E) q" "leaf_ok valid rank q" "nd_type q = LEAF_PAGE" "nd_id q = lf"
      using leaf_fits_update [OF leaf_view_fits [OF dat(2)] a(3,2,5)] a(3) d(1) key(2) v
      by (simp_all add: q_def tree_page_def)
    have m: "map_of (ranked rank (entries q)) = (map_of (ranked rank (entries ?p)))(rank key \<mapsto> v)"
      using a(4) new map_of_sm_insert [of "ranked rank (entries ?p)" "rank key" v] d(2) by (simp add: q_def leaf_ok_def)
    then have keys: "fst ` set (ranked rank (entries q)) \<subseteq> insert (rank key) (fst ` set (ranked rank (entries ?p)))"
      by (metis dom_fun_upd dom_map_of_conv_image_fst option.distinct(1) subset_refl)
    obtain s2 s3 M where s3: "t_set_leaf t q s1 = Inr ((), s2)" "FreePagesInTransaction E True (- 1) s2 = Inr ((), s3)"
      "at_rest E s3" "rooted E valid rank n ps M s3" "kept_but E lf s s3"
      "\<forall>j. map_of M j = (if leaf_for rank (key_size E) ?V n (root_page_id s) j = lf
        then map_of (ranked rank (entries q)) j else map_of m j)"
      using put_leaf_ok [OF tree lf dv k s1 q keys] .
    have "nd_size q \<le> nd_max q" "leaf_Insert (comparator E) ?p key v = Inr (q, nd_size ?p + 1)"
      using sz(1) a(1) by (simp_all add: q_def)
    then have "InsertIntoLeaf E fuel key v s = Inr (True, s3)"
      using f dat(1) lk s3(1,2) None by (simp add: InsertIntoLeaf_def op_simps)
    moreover have "map_of M = (map_of m)(rank key \<mapsto> v)"
      using s3(6) look m by (auto simp: fun_eq_iff lf)
    ultimately show ?thesis using s3(3-5) None by auto
  qed
qed

lemma Remove_in_place:
  assumes tree: "tree_of valid rank (key_size E) (bp_view (hash_fn E) (bpm s)) n (root_page_id s) ps m"
    and rest: "at_rest E s" and tx: "transaction s \<noteq> None" and key: "valid key"
    and fuel: "n < fuel" and room: "n < pool_size (bpm s)" and place: "in_place E rank OpDelete n key s"
    and lf: "lf = leaf_for rank (key_size E) (bp_view (hash_fn E) (bpm s)) n (root_page_id s) (rank key)"
  shows "\<exists>s' M. Remove E fuel key s = Inr ((), s') \<and> at_rest E s' \<and> rooted E valid rank n ps M s' \<and>
    map_of M = (map_of m)(rank key := None) \<and> kept_but E lf s s'"
proof -
  let ?V = "bp_view (hash_fn E) (bpm s)"
  have op: "OpDelete \<noteq> OpRead" by simp
  obtain H t s1 d where f: "FindLeafPage E fuel key False OpDelete s = Inr (t, s1)" and k: "kept E s s1"
    and s1: "held E True (H @ [(lf, t)]) {} s1" "recorded (H @ [(lf, t)]) True s1" "root_lock True s1"
    and d: "tree_page ?V lf d LEAF_PAGE" "leaf_ok valid rank (leaf_view (key_size E) d)"
    and dat: "t_leaf E t s1 = Inr (leaf_view (key_size E) d, s1)" "length d = PAGE_SIZE"
    and look: "\<forall>j. leaf_for rank (key_size E) ?V n (root_page_id s) j = lf \<longrightarrow>
      map_of (ranked rank (entries (leaf_view (key_size E) d))) j = map_of m j"
    using leaf_taken [OF tree rest tx key fuel room op lf] .
  have dv: "?V lf = Some d" using d(1) by (simp add: tree_page_def)
  let ?p = "leaf_view (key_size E) d"
  obtain c a where a: "leaf_RemoveAndDeleteRecord (comparator E) ?p key = ok (?p\<lparr>nd_size := c, nd_array := a\<rparr>, c)"
    "length a = length (nd_array ?p)" "leaf_ok valid rank (?p\<lparr>nd_size := c, nd_array := a\<rparr>)"
    "ranked rank (entries (?p\<lparr>nd_size := c, nd_array := a\<rparr>)) = sm_erase (rank key) (ranked rank (entries ?p))"
    "set a \<subseteq> set (nd_array ?p)" "nd_size ?p - 1 \<le> c"
    using leaf_Remove_ok [OF d(2) key] .
  define q where "q = ?p\<lparr>nd_size := c, nd_array := a\<rparr>"
  have sz: "GetMinSize ?p + 1 \<le> nd_size ?p"
    using place dv d(1) by (auto simp: in_place_def Let_def lf isSafe_def IsLeafPage_def tree_page_def GetMinSize_def IsRootPage_def)
  moreover have "GetMinSize q = GetMinSize ?p" by (simp add: q_def GetMinSize_def IsRootPage_def IsLeafPage_def)
  ultimately have min: "\<not> c < GetMinSize q" using a(6) by linarith
  have "leaf_fits (key_size E) q"
  proof (cases "nd_array ?p")
    case Nil
    then show ?thesis using leaf_fits_update [OF leaf_view_fits [OF dat(2)] a(3,2), of "(replicate (key_size E) 0, rid_make 0 0)"] a(5)
      by (auto simp: q_def rid_make_def)
  next
    case (Cons x xs)
    then show ?thesis using leaf_fits_update [OF leaf_view_fits [OF dat(2)] a(3,2), of x] a(5) by (auto simp: q_def)
  qed
  then have q: "leaf_fits (key_size E) q" "leaf_ok valid rank q" "nd_type q = LEAF_PAGE" "nd_id q = lf"
    using a(3) d(1) by (simp_all add: q_def tree_page_def)
  have m: "map_of (ranked rank (entries q)) = (map_of (ranked rank (entries ?p)))(rank key := None)"
    using a(4) map_of_sm_erase by (simp add: q_def)
  have keys: "fst ` set (ranked rank (entries q)) \<subseteq> insert (rank key) (fst ` set (ranked rank (entries ?p)))"
    using a(4) by (auto simp: q_def sm_erase_def simp del: set_ranked)
  obtain s2 s3 M where s3: "t_set_leaf t q s1 = Inr ((), s2)" "FreePagesInTransaction E True (- 1) s2 = Inr ((), s3)"
    "at_rest E s3" "rooted E valid rank n ps M s3" "kept_but E lf s s3"
    "\<forall>j. map_of M j = (if leaf_for rank (key_size E) ?V n (root_page_id s) j = lf
      then map_of (ranked rank (entries q)) j else map_of m j)"
    using put_leaf_ok [OF tree lf dv k s1 q keys] .
  have rem: "leaf_RemoveAndDeleteRecord (comparator E) ?p key = Inr (q, c)" using a(1) by (simp add: q_def)
  have "root_page_id s \<noteq> - 1" using tree_of_page [OF tree] by fastforce
  then have "Remove E fuel key s = Inr ((), s3)"
    using f dat(1) rem s3(1,2) min by (simp add: Remove_def IsEmpty_def op_simps)
  moreover have "map_of M = (map_of m)(rank key := None)"
    using s3(6) look m by (auto simp: fun_eq_iff lf)
  ultimately show ?thesis using s3(3-5) by auto
qed

end

end
