(* ===== verification/Bpt_Start.thy ===== *)
theory Bpt_Start
  imports Bpt_Update
begin

text \<open>
  The first insertion into an index: a new leaf becomes the root, and the header page of the file
  records its number under the name of the index. No page is latched here, so the lemmas count pins
  only.
\<close>

section \<open>The record of the root\<close>

lemma UpdateRootPageId_ok:
  assumes pool: "bp_pool (hash_fn E) P X (bpm s)" and hdr: "bp_view (hash_fn E) (bpm s) HEADER_PAGE_ID = Some hp"
    and P: "P HEADER_PAGE_ID = 0" "HEADER_PAGE_ID \<notin> X" and room: "card {q. 0 < P q} < pool_size (bpm s)"
    and rec: "(if ins then hp_InsertRecord hp (index_name s) (root_page_id s)
      else hp_UpdateRecord hp (index_name s) (root_page_id s)) = Inr (r, hp')" and len: "length hp' = PAGE_SIZE"
  obtains b where "UpdateRootPageId E ins s = Inr ((), s\<lparr>bpm := b\<rparr>)" and "bp_pool (hash_fn E) P X b"
    and "bp_view (hash_fn E) b HEADER_PAGE_ID = Some hp'"
    and "\<forall>q x. q \<noteq> HEADER_PAGE_ID \<longrightarrow> bp_view (hash_fn E) (bpm s) q = Some x \<longrightarrow> bp_view (hash_fn E) b q = Some x"
    and "\<forall>q u. 0 < P q \<longrightarrow> bp_at (hash_fn E) (bpm s) q u \<longrightarrow> bp_at (hash_fn E) b q u"
    and "bp_upcoming b = bp_upcoming (bpm s)" and "pool_size b = pool_size (bpm s)"
proof -
  let ?h = "hash_fn E"
  have h0: "pid_ok HEADER_PAGE_ID" by (simp add: pid_ok_def)
  obtain t b1 where f: "bp_FetchPage ?h HEADER_PAGE_ID (bpm s) = Inr (t, b1)" "t \<noteq> 0"
    "bp_pool ?h (P(HEADER_PAGE_ID := 1)) X b1" "bp_at ?h b1 HEADER_PAGE_ID t" "bp_peek b1 t = hp"
    "\<forall>q x. bp_view ?h (bpm s) q = Some x \<longrightarrow> bp_view ?h b1 q = Some x"
    "\<forall>q u. 0 < P q \<longrightarrow> bp_at ?h (bpm s) q u \<longrightarrow> bp_at ?h b1 q u"
    "bp_upcoming b1 = bp_upcoming (bpm s)" "pool_size b1 = pool_size (bpm s)"
    using pins.fetch_law [OF pool h0 hdr] room P(1) by auto
  let ?b2 = "bp_poke t hp' b1"
  have b2: "bp_pool ?h (P(HEADER_PAGE_ID := 1)) (insert HEADER_PAGE_ID X) ?b2"
    "bp_view ?h ?b2 = (bp_view ?h b1)(HEADER_PAGE_ID \<mapsto> hp')" "bp_at ?h ?b2 = bp_at ?h b1"
    "bp_upcoming ?b2 = bp_upcoming b1" "pool_size ?b2 = pool_size b1"
    using pins.poke_law [OF f(3) _ f(4) len] by simp_all
  obtain b3 where u: "bp_UnpinPage ?h HEADER_PAGE_ID True ?b2 = Inr (True, b3)"
    "bp_pool ?h ((P(HEADER_PAGE_ID := 1))(HEADER_PAGE_ID := 0)) (insert HEADER_PAGE_ID X - {HEADER_PAGE_ID}) b3"
    "bp_view ?h b3 = bp_view ?h ?b2" "bp_at ?h b3 = bp_at ?h ?b2" "bp_upcoming b3 = bp_upcoming ?b2" "pool_size b3 = pool_size ?b2"
    using pins.unpin_law [OF b2(1), of HEADER_PAGE_ID True] by auto
  have e: "(P(HEADER_PAGE_ID := 1))(HEADER_PAGE_ID := 0) = P" "insert HEADER_PAGE_ID X - {HEADER_PAGE_ID} = X"
    using P by (auto simp: fun_eq_iff)
  have "UpdateRootPageId E ins s = Inr ((), s\<lparr>bpm := b3\<rparr>)"
    using f(1,2,5) rec u(1)
    by (cases ins) (simp_all add: UpdateRootPageId_def t_FetchPage_def t_data_def t_put_def t_UnpinPage_def op_simps)
  then show thesis
    by (rule that) (use f u b2 e in \<open>simp_all\<close>)
qed

section \<open>A leaf becomes the root\<close>

text \<open>The fresh leaf on a page of zeros.\<close>

definition blank :: "byte list" where
  "blank = replicate PAGE_SIZE 0"

definition fresh_leaf :: "nat \<Rightarrow> int \<Rightarrow> leaf_node" where
  "fresh_leaf ks i = leaf_Init ks i INVALID_PAGE_ID (leaf_view ks blank)"

lemma fresh_leaf_fields [simp]:
  "nd_type (fresh_leaf ks i) = LEAF_PAGE" "nd_id (fresh_leaf ks i) = i" "nd_size (fresh_leaf ks i) = 0"
  "nd_max (fresh_leaf ks i) = int (leaf_capacity ks) - 1" "nd_parent (fresh_leaf ks i) = INVALID_PAGE_ID"
  "nd_array (fresh_leaf ks i) = nd_array (leaf_view ks blank)" "entries (fresh_leaf ks i) = []"
  by (simp_all add: fresh_leaf_def leaf_Init_def Let_def header_defs SetNextPageId_def entries_def)

lemma fresh_leaf_fits: "pid_ok i \<Longrightarrow> leaf_fits ks (fresh_leaf ks i)"
  using leaf_view_fits [of blank ks] capacity_in32 [of "int (leaf_capacity ks)" ks]
  by (auto simp: fresh_leaf_def leaf_Init_def Let_def header_defs SetNextPageId_def leaf_fits_def header_fits_def
      blank_def pid_ok_def)

lemma fresh_leaf_ok: "leaf_ok valid rank (fresh_leaf ks i)"
  by (simp add: leaf_ok_def sm_ok_def)

context tree_index
begin

lemma StartNewTree_ok:
  assumes pool: "bp_pool (hash_fn E) (\<lambda>_. 0) {} (bpm s)" and i: "i = bp_upcoming (bpm s)" "pid_ok i" "0 < i"
    and new: "\<not> (\<exists>t. bp_at (hash_fn E) (bpm s) i t)" and room: "2 \<le> pool_size (bpm s)"
    and hdr: "bp_view (hash_fn E) (bpm s) HEADER_PAGE_ID = Some hp"
    and rec: "hp_InsertRecord hp (index_name s) i = Inr (r, hp')" "length hp' = PAGE_SIZE"
    and key: "valid key" "length key = key_size E" and v: "in32 (rid_page v)" "in32 (rid_slot v)"
    and cap: "0 < leaf_capacity (key_size E)"
  obtains b d where "StartNewTree E key v s = Inr ((), s\<lparr>bpm := b, root_page_id := i\<rparr>)"
    and "bp_pool (hash_fn E) (\<lambda>_. 0) {} b" and "bp_view (hash_fn E) b HEADER_PAGE_ID = Some hp'"
    and "bp_view (hash_fn E) b i = Some d" and "tree_page (bp_view (hash_fn E) b) i d LEAF_PAGE"
    and "leaf_ok valid rank (leaf_view (key_size E) d)" and "ranked rank (entries (leaf_view (key_size E) d)) = [(rank key, v)]"
    and "\<forall>q x. q \<noteq> HEADER_PAGE_ID \<and> q \<noteq> i \<longrightarrow> bp_view (hash_fn E) (bpm s) q = Some x \<longrightarrow> bp_view (hash_fn E) b q = Some x"
    and "pool_size b = pool_size (bpm s)" and "bp_upcoming b = int32 (i + 1)"
proof -
  let ?h = "hash_fn E" and ?ks = "key_size E"
  let ?P = "(\<lambda>_. 0 :: int)(i := 1)"
  have c0: "card {q. (0 :: int) < (\<lambda>_ :: int. 0 :: int) q} = 0" by simp
  obtain t b1 where n: "bp_NewPage ?h (bpm s) = Inr (t, Some i, b1)" "t \<noteq> 0" "bp_pool ?h ?P {i} b1"
    "bp_at ?h b1 i t" "bp_peek b1 t = blank"
    "\<forall>q x. q \<noteq> i \<longrightarrow> bp_view ?h (bpm s) q = Some x \<longrightarrow> bp_view ?h b1 q = Some x"
    "bp_upcoming b1 = int32 (i + 1)" "pool_size b1 = pool_size (bpm s)"
    using pins.new_law [OF pool] i(1,2) new room by (auto simp: blank_def)
  have lb: "length blank = PAGE_SIZE" by (simp add: blank_def)
  define d1 where "d1 = leaf_store blank (fresh_leaf ?ks i)"
  have d1: "leaf_view ?ks d1 = fresh_leaf ?ks i" "length d1 = PAGE_SIZE"
    using leaf_view_store [OF lb fresh_leaf_fits [OF i(2)]] by (simp_all add: d1_def)
  let ?b2 = "bp_poke t d1 b1"
  have b2: "bp_pool ?h ?P {i} ?b2" "bp_view ?h ?b2 = (bp_view ?h b1)(i \<mapsto> d1)" "bp_at ?h ?b2 = bp_at ?h b1"
    "bp_upcoming ?b2 = bp_upcoming b1" "pool_size ?b2 = pool_size b1"
    using pins.poke_law [OF n(3) _ n(4) d1(2)] by simp_all
  let ?s2 = "s\<lparr>bpm := ?b2, root_page_id := i\<rparr>"
  have P: "?P HEADER_PAGE_ID = 0" "HEADER_PAGE_ID \<notin> {i}" "{q. 0 < ?P q} = {i}" using i(3) by auto
  have v2: "bp_view ?h (bpm ?s2) HEADER_PAGE_ID = Some hp" using b2(2) n(6) hdr i(3) by simp
  have r2: "card {q. 0 < ?P q} < pool_size (bpm ?s2)" using P(3) room b2(5) n(8) by simp
  have rec2: "(if True then hp_InsertRecord hp (index_name ?s2) (root_page_id ?s2)
      else hp_UpdateRecord hp (index_name ?s2) (root_page_id ?s2)) = Inr (r, hp')" using rec(1) by simp
  have pool2: "bp_pool ?h ?P {i} (bpm ?s2)" using b2(1) by simp
  obtain b3 where u: "UpdateRootPageId E True ?s2 = Inr ((), ?s2\<lparr>bpm := b3\<rparr>)" "bp_pool ?h ?P {i} b3"
    "bp_view ?h b3 HEADER_PAGE_ID = Some hp'"
    "\<forall>q x. q \<noteq> HEADER_PAGE_ID \<longrightarrow> bp_view ?h (bpm ?s2) q = Some x \<longrightarrow> bp_view ?h b3 q = Some x"
    "\<forall>q u. 0 < ?P q \<longrightarrow> bp_at ?h (bpm ?s2) q u \<longrightarrow> bp_at ?h b3 q u"
    "bp_upcoming b3 = bp_upcoming (bpm ?s2)" "pool_size b3 = pool_size (bpm ?s2)"
    using UpdateRootPageId_ok [OF pool2 v2 P(1,2) r2 rec2 rec(2)] .
  have at3: "bp_at ?h b3 i t" using u(5) b2(3) n(4) by simp
  have pk3: "bp_peek b3 t = d1" using pins.at_peek [OF u(2) at3] u(4) b2(2) i(3) by simp
  have free: "length (entries (fresh_leaf ?ks i)) < length (nd_array (fresh_leaf ?ks i))"
    using cap leaf_view_fits [OF lb, of ?ks] by (simp add: leaf_fits_def)
  have none: "map_of (ranked rank (entries (fresh_leaf ?ks i))) (rank key) = None" by simp
  obtain a where a: "leaf_Insert (comparator E) (fresh_leaf ?ks i) key v =
      ok ((fresh_leaf ?ks i)\<lparr>nd_size := nd_size (fresh_leaf ?ks i) + 1, nd_array := a\<rparr>, nd_size (fresh_leaf ?ks i) + 1)"
    "length a = length (nd_array (fresh_leaf ?ks i))"
    "leaf_ok valid rank ((fresh_leaf ?ks i)\<lparr>nd_size := nd_size (fresh_leaf ?ks i) + 1, nd_array := a\<rparr>)"
    "ranked rank (entries ((fresh_leaf ?ks i)\<lparr>nd_size := nd_size (fresh_leaf ?ks i) + 1, nd_array := a\<rparr>)) =
      sm_insert (rank key) v (ranked rank (entries (fresh_leaf ?ks i)))"
    "set a \<subseteq> insert (key, v) (set (nd_array (fresh_leaf ?ks i)))"
    using leaf_Insert_ok [OF fresh_leaf_ok key(1) free none] .
  define q where "q = (fresh_leaf ?ks i)\<lparr>nd_size := 1, nd_array := a\<rparr>"
  have q: "leaf_Insert (comparator E) (fresh_leaf ?ks i) key v = Inr (q, 1)" "leaf_ok valid rank q"
    "ranked rank (entries q) = [(rank key, v)]" "nd_type q = LEAF_PAGE" "nd_id q = i"
    using a(1,3,4) by (simp_all add: q_def)
  have "leaf_fits ?ks q"
    using leaf_fits_update [OF fresh_leaf_fits [OF i(2)] a(3,2,5)] key(2) v by (simp add: q_def)
  then have d: "leaf_view ?ks (leaf_store d1 q) = q" "length (leaf_store d1 q) = PAGE_SIZE"
    using leaf_view_store [OF d1(2)] by simp_all
  let ?d = "leaf_store d1 q" and ?b4 = "bp_poke t (leaf_store d1 q) b3"
  have b4: "bp_pool ?h ?P {i} ?b4" "bp_view ?h ?b4 = (bp_view ?h b3)(i \<mapsto> ?d)"
    "bp_upcoming ?b4 = bp_upcoming b3" "pool_size ?b4 = pool_size b3"
    using pins.poke_law [OF u(2) _ at3 d(2)] by simp_all
  obtain b5 where f: "bp_UnpinPage ?h i True ?b4 = Inr (True, b5)" "bp_pool ?h (?P(i := 0)) {} b5"
    "bp_view ?h b5 = bp_view ?h ?b4" "bp_upcoming b5 = bp_upcoming ?b4" "pool_size b5 = pool_size ?b4"
    using pins.unpin_law [OF b4(1), of i True] by auto
  have P0: "?P(i := 0) = (\<lambda>_. 0)" by (simp add: fun_eq_iff)
  have "StartNewTree E key v s = Inr ((), s\<lparr>bpm := b5, root_page_id := i\<rparr>)"
    using n(1,2,5) u(1) pk3 d1(1) q(1) f(1)
    by (simp add: StartNewTree_def t_NewPage_def t_leaf_def t_data_def t_set_leaf_def t_put_def t_UnpinPage_def op_simps
        d1_def fresh_leaf_def)
  moreover have "tree_page (bp_view ?h b5) i ?d LEAF_PAGE"
    using arg_cong [OF d(1), of nd_type] arg_cong [OF d(1), of nd_id] q(4,5) f(3) b4(2) i(2,3) by (simp add: tree_page_def)
  ultimately show thesis
    using that [of b5 ?d] f(2-5) P0 b4 u(3,4,6,7) b2(2,4,5) n(6-8) q(2,3) d(1) i(3) by simp
qed

end

end
