(* ===== verification/Bpt_Spec.thy ===== *)
theory Bpt_Spec
  imports Bpt_Start
begin

text \<open>
  What an index promises: over the tuples, the tree, the buffer pool and the disk, it is a map from
  keys to record identifiers.
\<close>

section \<open>The first insertion\<close>

text \<open>
  An index without a root can get one: the next page number is free and not the header page, the pool
  has two frames for the new page and the header page, and the header page has room for the name.
\<close>

definition can_start :: "bpt_env \<Rightarrow> BPlusTree \<Rightarrow> bool" where
  "can_start E s \<longleftrightarrow>
     (let b = bpm s; i = bp_upcoming b in
      pid_ok i \<and> 0 < i \<and> eh_lookup (hash_fn E) (page_table b) i = None \<and> 2 \<le> pool_size b \<and>
      0 < leaf_capacity (key_size E) \<and> name_ok (index_name s) \<and>
      (case bp_view (hash_fn E) b HEADER_PAGE_ID of
         None \<Rightarrow> False
       | Some d \<Rightarrow> hp_ok d \<and> map_of (hp_entries d) (index_name s) = None \<and> hp_count d < 14))"

text \<open>The number of the root that the header page records.\<close>

definition root_recorded :: "bpt_env \<Rightarrow> BPlusTree \<Rightarrow> bool" where
  "root_recorded E s \<longleftrightarrow>
     (case bp_view (hash_fn E) (bpm s) HEADER_PAGE_ID of
        None \<Rightarrow> False
      | Some d \<Rightarrow> hp_GetRootId d (index_name s) = ok (Some (root_page_id s)))"

lemma once_Nil [simp]: "once [] = (\<lambda>_. 0)"
  by (simp add: once_def fun_eq_iff)

lemma rest_pool: "at_rest E s \<Longrightarrow> bp_pool (hash_fn E) (\<lambda>_. 0) {} (bpm s)"
  using held_pool [of E False "[]" "{}" s] by (simp add: at_rest_def)

lemma pool_rest:
  assumes "at_rest E s" and "bp_pool (hash_fn E) (\<lambda>_. 0) {} b"
  shows "at_rest E (s\<lparr>bpm := b, root_page_id := i\<rparr>)"
  using assms by (auto simp: at_rest_def held_def recorded_def root_free_def)

lemma root_locked:
  assumes "at_rest E s"
  shows "LockRootPageId True s = Inr ((), s\<lparr>mMutex := latched True, mRootLockedCnt := 1\<rparr>)"
    and "TryUnlockRootPageId True (s\<lparr>mMutex := latched True, mRootLockedCnt := 1, bpm := b, root_page_id := r\<rparr>) =
      Inr ((), s\<lparr>bpm := b, root_page_id := r\<rparr>)"
    and "TryUnlockRootPageId True (s\<lparr>mMutex := latched True, mRootLockedCnt := 1\<rparr>) = Inr ((), s)"
proof -
  have f: "s\<lparr>bpm := b, root_page_id := r, mMutex := rw_init, mRootLockedCnt := 0\<rparr> = s\<lparr>bpm := b, root_page_id := r\<rparr>"
    "s\<lparr>mMutex := rw_init, mRootLockedCnt := 0\<rparr> = s"
    using assms by (cases s; simp add: at_rest_def root_free_def)+
  show "LockRootPageId True s = Inr ((), s\<lparr>mMutex := latched True, mRootLockedCnt := 1\<rparr>)"
    using Lock_root assms by (simp add: at_rest_def)
  show "TryUnlockRootPageId True (s\<lparr>mMutex := latched True, mRootLockedCnt := 1, bpm := b, root_page_id := r\<rparr>) =
      Inr ((), s\<lparr>bpm := b, root_page_id := r\<rparr>)"
    using TryUnlock_root [of True "s\<lparr>mMutex := latched True, mRootLockedCnt := 1, bpm := b, root_page_id := r\<rparr>"] f(1)
    by (simp add: root_lock_def)
  show "TryUnlockRootPageId True (s\<lparr>mMutex := latched True, mRootLockedCnt := 1\<rparr>) = Inr ((), s)"
    using TryUnlock_root [of True "s\<lparr>mMutex := latched True, mRootLockedCnt := 1\<rparr>"] f(2) by (simp add: root_lock_def)
qed

context tree_index
begin

lemma Insert_first:
  assumes rest: "at_rest E s" and empty: "root_page_id s = INVALID_PAGE_ID" and start: "can_start E s"
    and key: "valid key" "length key = key_size E" and v: "in32 (rid_page v)" "in32 (rid_slot v)"
  shows "\<exists>s'. Insert E fuel key v s = Inr (True, s') \<and> at_rest E s' \<and> stores E valid rank 0 [(rank key, v)] s' \<and>
    root_recorded E s' \<and> transaction s' = transaction s \<and> pool_size (bpm s') = pool_size (bpm s)"
proof -
  define i where "i = bp_upcoming (bpm s)"
  obtain d where d: "bp_view (hash_fn E) (bpm s) HEADER_PAGE_ID = Some d" "hp_ok d" "hp_count d < 14"
    "map_of (hp_entries d) (index_name s) = None" "name_ok (index_name s)"
    and i: "pid_ok i" "0 < i" "\<not> (\<exists>t. bp_at (hash_fn E) (bpm s) i t)" and room: "2 \<le> pool_size (bpm s)"
    and cap: "0 < leaf_capacity (key_size E)"
    using start by (auto simp: can_start_def Let_def i_def bp_at_def split: option.splits)
  obtain d' where d': "hp_InsertRecord d (index_name s) i = Inr (True, d')" "hp_ok d'"
    "map_of (hp_entries d') = (map_of (hp_entries d))(index_name s \<mapsto> i)"
    using header.register_law [OF d(2,5) _ _ d(4,3), of i] i(1,2) by (auto simp: pid_ok_def)
  let ?s = "s\<lparr>mMutex := latched True, mRootLockedCnt := 1\<rparr>"
  obtain b e where st: "StartNewTree E key v ?s = Inr ((), ?s\<lparr>bpm := b, root_page_id := i\<rparr>)"
    "bp_pool (hash_fn E) (\<lambda>_. 0) {} b" "bp_view (hash_fn E) b HEADER_PAGE_ID = Some d'"
    "tree_page (bp_view (hash_fn E) b) i e LEAF_PAGE" "leaf_ok valid rank (leaf_view (key_size E) e)"
    "ranked rank (entries (leaf_view (key_size E) e)) = [(rank key, v)]" "pool_size b = pool_size (bpm ?s)"
    by (rule StartNewTree_ok [of ?s i d True d' key v])
      (use rest_pool [OF rest] i room d d' key v cap hp_okD(1) [OF d'(2)] in \<open>simp_all add: i_def\<close>)
  let ?s' = "s\<lparr>bpm := b, root_page_id := i\<rparr>"
  have "Insert E fuel key v s = Inr (True, ?s')"
    using root_locked(1,2) [OF rest] st(1) empty by (simp add: Insert_def IsEmpty_def op_simps)
  moreover have "stores E valid rank 0 [(rank key, v)] ?s'"
    using tree_of.leaf [OF st(4,5) st(6) [symmetric]] by (auto simp: stores_def)
  moreover have "root_recorded E ?s'"
    using header.root_law [OF d'(2) d(5)] d'(3) st(3) by (simp add: root_recorded_def)
  ultimately show ?thesis using pool_rest [OF rest st(2)] st(7) by auto
qed

text \<open>Insertion in general, unless a page has to be split.\<close>

lemma Insert_ok:
  assumes st: "stores E valid rank n m s" and rest: "at_rest E s" and tx: "transaction s \<noteq> None"
    and key: "valid key" "length key = key_size E" and v: "in32 (rid_page v)" "in32 (rid_slot v)"
    and fuel: "n < fuel" and room: "n < pool_size (bpm s)"
    and can: "if root_page_id s = INVALID_PAGE_ID then can_start E s
      else map_of m (rank key) = None \<longrightarrow> in_place E rank OpInsert n key s"
  shows "\<exists>s' M. Insert E fuel key v s = Inr (map_of m (rank key) = None, s') \<and> at_rest E s' \<and>
    stores E valid rank (if root_page_id s = INVALID_PAGE_ID then 0 else n) M s' \<and>
    map_of M = (if map_of m (rank key) = None then (map_of m)(rank key \<mapsto> v) else map_of m) \<and>
    (if root_page_id s = INVALID_PAGE_ID then root_recorded E s' else root_page_id s' = root_page_id s) \<and>
    pool_size (bpm s') = pool_size (bpm s) \<and> transaction s' \<noteq> None"
proof (cases "root_page_id s = INVALID_PAGE_ID")
  case True
  then have m: "m = []" using st tree_of_page by (fastforce simp: stores_def)
  from Insert_first [OF rest True _ key v] obtain s' where
    "Insert E fuel key v s = Inr (True, s')" "at_rest E s'" "stores E valid rank 0 [(rank key, v)] s'" "root_recorded E s'"
    "transaction s' = transaction s" "pool_size (bpm s') = pool_size (bpm s)"
    using can True by auto
  then show ?thesis using True m tx by (intro exI [of _ s'] exI [of _ "[(rank key, v)]"]) simp
next
  case False
  obtain ps where tree: "tree_of valid rank (key_size E) (bp_view (hash_fn E) (bpm s)) n (root_page_id s) ps m"
    using st False by (auto simp: stores_def)
  have pl: "in_place E rank OpInsert n key s" if "map_of m (rank key) = None" using can False that by simp
  from Insert_in_place [OF tree rest tx key v fuel room pl refl] obtain s' M where r:
    "InsertIntoLeaf E fuel key v s = Inr (map_of m (rank key) = None, s')" "at_rest E s'" "rooted E valid rank n ps M s'"
    "map_of M = (if map_of m (rank key) = None then (map_of m)(rank key \<mapsto> v) else map_of m)"
    "kept_but E (leaf_for rank (key_size E) (bp_view (hash_fn E) (bpm s)) n (root_page_id s) (rank key)) s s'"
    by blast
  have "Insert E fuel key v s = Inr (map_of m (rank key) = None, s')"
    using root_locked(1,3) [OF rest] r(1) False by (simp add: Insert_def IsEmpty_def op_simps)
  moreover have "root_page_id s' = root_page_id s" "pool_size (bpm s') = pool_size (bpm s)" "transaction s' \<noteq> None"
    using r(5) tx by (cases "transaction s'"; auto simp: kept_but_def)+
  ultimately show ?thesis using r(2,4) rooted_stores [OF r(3)] False by auto
qed

lemma Remove_ok:
  assumes st: "stores E valid rank n m s" and rest: "at_rest E s" and tx: "transaction s \<noteq> None" and key: "valid key"
    and fuel: "n < fuel" and room: "n < pool_size (bpm s)"
    and can: "root_page_id s = INVALID_PAGE_ID \<or> in_place E rank OpDelete n key s"
  shows "\<exists>s' M. Remove E fuel key s = Inr ((), s') \<and> at_rest E s' \<and> stores E valid rank n M s' \<and>
    map_of M = (map_of m)(rank key := None) \<and> root_page_id s' = root_page_id s"
proof (cases "root_page_id s = INVALID_PAGE_ID")
  case True
  then have m: "m = []" using st tree_of_page by (fastforce simp: stores_def)
  have "Remove E fuel key s = Inr ((), s)" using True by (simp add: Remove_def IsEmpty_def op_simps)
  then show ?thesis using rest st m by (intro exI [of _ s] exI [of _ m]) auto
next
  case False
  obtain ps where tree: "tree_of valid rank (key_size E) (bp_view (hash_fn E) (bpm s)) n (root_page_id s) ps m"
    using st False by (auto simp: stores_def)
  have pl: "in_place E rank OpDelete n key s" using can False by simp
  from Remove_in_place [OF tree rest tx key fuel room pl refl] show ?thesis
    by (auto simp: kept_but_def dest: rooted_stores)
qed

end

section \<open>The index of a table\<close>

text \<open>
  The invariant of an index between two operations: nothing is pinned, latched or locked, and the
  pages form a tree of height \<open>n\<close> with the entries \<open>m\<close>.
\<close>

definition index_ok ::
  "'d cpp \<Rightarrow> page_hash \<Rightarrow> nat \<Rightarrow> IndexMetadata \<Rightarrow> nat \<Rightarrow> (int list \<times> RID) list \<Rightarrow> BPlusTree \<Rightarrow> bool" where
  "index_ok F h ks im n m s \<longleftrightarrow> at_rest (index_env F h ks im) s \<and>
     stores (index_env F h ks im) (key_valid F (im_key_schema im)) (key_rank F (im_key_schema im)) n m s"

definition insertable ::
  "'d cpp \<Rightarrow> page_hash \<Rightarrow> nat \<Rightarrow> IndexMetadata \<Rightarrow> nat \<Rightarrow> (int list \<times> RID) list \<Rightarrow> byte list \<Rightarrow> BPlusTree \<Rightarrow> bool" where
  "insertable F h ks im n m key s \<longleftrightarrow>
     (if root_page_id s = INVALID_PAGE_ID then can_start (index_env F h ks im) s
      else map_of m (key_rank F (im_key_schema im) key) = None \<longrightarrow>
        in_place (index_env F h ks im) (key_rank F (im_key_schema im)) OpInsert n key s)"

definition removable ::
  "'d cpp \<Rightarrow> page_hash \<Rightarrow> nat \<Rightarrow> IndexMetadata \<Rightarrow> nat \<Rightarrow> byte list \<Rightarrow> BPlusTree \<Rightarrow> bool" where
  "removable F h ks im n key s \<longleftrightarrow> root_page_id s = INVALID_PAGE_ID \<or>
     in_place (index_env F h ks im) (key_rank F (im_key_schema im)) OpDelete n key s"

lemma key_size_index [simp]: "key_size (index_env F h ks im) = ks" "hash_fn (index_env F h ks im) = h"
  by (simp_all add: index_env_def)

lemma length_SetFromKey:
  assumes "SetFromKey ks t = ok k" shows "length k = ks"
proof -
  obtain bs where "wr_bytes (replicate ks 0) 0 bs = ok k"
    using assms by (auto simp: SetFromKey_def bindE_def split: sum.splits)
  then show ?thesis by (auto simp: wr_bytes_def length_bput split: if_splits)
qed

section \<open>Examples\<close>

text \<open>
  Indexes over one bigint column with a pool of three frames: an empty one on a file that has only the
  header page, and one whose root is a leaf on page 1 with the keys 3 and 5.
\<close>

definition sample_meta :: IndexMetadata where
  "sample_meta = \<lparr>im_name = [105], im_table_name = [116], im_key_attrs = [0], im_key_schema = bigint_schema\<rparr>"

definition sample_tree :: "DiskManager \<Rightarrow> int \<Rightarrow> BPlusTree" where
  "sample_tree dm root = (BPlusTreeIndex_make sample_meta (bp_init 3 dm) root)\<lparr>transaction := Some (txn_init 0)\<rparr>"

definition sample_root :: leaf_node where
  "sample_root = (fresh_leaf 8 1)\<lparr>nd_size := 2, nd_array :=
     [(le_enc 8 3, rid_make 3 0), (le_enc 8 5, rid_make 5 0)] @ replicate 28 (le_enc 8 0, rid_make 0 0)\<rparr>"

definition empty_index :: BPlusTree where
  "empty_index = sample_tree ((dm_init (replicate 512 0) [])\<lparr>next_page_id := 1\<rparr>) INVALID_PAGE_ID"

definition small_index :: BPlusTree where
  "small_index = sample_tree (dm_init (replicate 512 0 @ leaf_store blank sample_root) []) 1"

lemma sample_tree_rest:
  assumes "dm_ok dm"
  shows "at_rest (index_env F of_int 8 im) (sample_tree dm root)"
    and "bp_view of_int (bpm (sample_tree dm root)) p = disk_page dm p"
    and "pool_size (bpm (sample_tree dm root)) = 3" and "root_page_id (sample_tree dm root) = root"
    and "transaction (sample_tree dm root) = Some (txn_init 0)"
proof -
  have "bp_good of_int (bp_init 3 dm)" using bp_init_good [of 3 dm] assms by simp
  moreover have l: "eh_lookup of_int (page_table (bp_init 3 dm)) = (\<lambda>_. None)"
    by (simp add: bp_init_def eh_init_lookup)
  ultimately have "bp_pool of_int (\<lambda>_. 0) {} (bp_init 3 dm)" by (simp add: bp_pool_def bp_pins_def fun_eq_iff)
  then show "at_rest (index_env F of_int 8 im) (sample_tree dm root)"
    by (simp add: sample_tree_def BPlusTreeIndex_make_def at_rest_def held_def recorded_def root_free_def txn_init_def)
  show "bp_view of_int (bpm (sample_tree dm root)) p = disk_page dm p"
    using l by (simp add: sample_tree_def BPlusTreeIndex_make_def bp_view_def) (simp add: bp_init_def)
  show "pool_size (bpm (sample_tree dm root)) = 3" "root_page_id (sample_tree dm root) = root"
    "transaction (sample_tree dm root) = Some (txn_init 0)"
    by (simp_all add: sample_tree_def BPlusTreeIndex_make_def bp_init_def)
qed

lemma empty_index_ok:
  "index_ok word_cpp of_int 8 sample_meta 0 [] empty_index" "insertable word_cpp of_int 8 sample_meta 0 [] key empty_index"
  "transaction empty_index \<noteq> None" "pool_size (bpm empty_index) = 3" "root_page_id empty_index = INVALID_PAGE_ID"
proof -
  let ?dm = "(dm_init (replicate 512 0) [])\<lparr>next_page_id := 1\<rparr>"
  have dm: "dm_ok ?dm" "disk_page ?dm 0 = Some (replicate 512 0)"
    by (simp_all add: dm_ok_def dm_init_def disk_page_def bget_def)
  note r = sample_tree_rest [OF dm(1), where root = "- 1", folded empty_index_def]
  show "index_ok word_cpp of_int 8 sample_meta 0 [] empty_index" using r by (simp add: index_ok_def stores_def)
  have "bp_upcoming (bpm empty_index) = 1" "eh_lookup of_int (page_table (bpm empty_index)) 1 = None"
    "name_ok (index_name empty_index)"
    by (simp_all add: empty_index_def sample_tree_def BPlusTreeIndex_make_def bp_upcoming_def bp_init_def eh_init_lookup
        name_ok_def sample_meta_def)
  then show "insertable word_cpp of_int 8 sample_meta 0 [] key empty_index"
    using r dm(2) empty_header by (simp add: insertable_def can_start_def pid_ok_def leaf_capacity_def)
  show "transaction empty_index \<noteq> None" "pool_size (bpm empty_index) = 3" "root_page_id empty_index = INVALID_PAGE_ID"
    using r by simp_all
qed

lemma sample_root_ok:
  "leaf_fits 8 sample_root" "leaf_ok (key_valid word_cpp bigint_schema) (key_rank word_cpp bigint_schema) sample_root"
  "ranked (key_rank word_cpp bigint_schema) (entries sample_root) = [([3], rid_make 3 0), ([5], rid_make 5 0)]"
proof -
  have e: "entries sample_root = [(le_enc 8 3, rid_make 3 0), (le_enc 8 5, rid_make 5 0)]"
    by (simp add: sample_root_def entries_def numeral_2_eq_2)
  note key = bigint_key [OF bigint_small]
  show r: "ranked (key_rank word_cpp bigint_schema) (entries sample_root) = [([3], rid_make 3 0), ([5], rid_make 5 0)]"
    using key(2) [of 3] key(2) [of 5] by (simp add: e)
  show "leaf_ok (key_valid word_cpp bigint_schema) (key_rank word_cpp bigint_schema) sample_root"
    using key(1) [of 3] key(1) [of 5] r by (simp add: leaf_ok_def e sm_ok_def) (simp add: sample_root_def)
  show "leaf_fits 8 sample_root"
    using fresh_leaf_fits [of 1 8]
    by (simp add: leaf_fits_def header_fits_def sample_root_def pid_ok_def leaf_capacity_def rid_make_def list_all_iff)
qed

lemma small_index_ok:
  "index_ok word_cpp of_int 8 sample_meta 0 [([3], rid_make 3 0), ([5], rid_make 5 0)] small_index"
  "removable word_cpp of_int 8 sample_meta 0 key small_index"
  "insertable word_cpp of_int 8 sample_meta 0 [([3], rid_make 3 0), ([5], rid_make 5 0)] key small_index"
  "transaction small_index \<noteq> None" "pool_size (bpm small_index) = 3" "root_page_id small_index = 1"
proof -
  define d where "d = leaf_store blank sample_root"
  have d: "leaf_view 8 d = sample_root" "length d = 512"
    using leaf_view_store [OF _ sample_root_ok(1), of blank] by (simp_all add: d_def blank_def)
  let ?dm = "dm_init (replicate 512 0 @ d) []"
  have dm: "dm_ok ?dm" "disk_page ?dm 1 = Some d"
    using d(2) by (simp_all add: dm_ok_def dm_init_def disk_page_def bget_def)
  note r = sample_tree_rest [OF dm(1), where root = 1, folded small_index_def [folded d_def]]
  have page: "tree_page (bp_view of_int (bpm small_index)) 1 d LEAF_PAGE"
    using arg_cong [OF d(1), of nd_type] arg_cong [OF d(1), of nd_id] r(2) dm(2)
    by (simp add: tree_page_def sample_root_def pid_ok_def)
  have "tree_of (key_valid word_cpp bigint_schema) (key_rank word_cpp bigint_schema) 8 (bp_view of_int (bpm small_index))
      0 1 [1] [([3], rid_make 3 0), ([5], rid_make 5 0)]"
    using tree_of.leaf [OF page, of "key_valid word_cpp bigint_schema" "key_rank word_cpp bigint_schema" 8] sample_root_ok(2,3)
      d(1) by simp
  then show "index_ok word_cpp of_int 8 sample_meta 0 [([3], rid_make 3 0), ([5], rid_make 5 0)] small_index"
    using r by (auto simp: index_ok_def stores_def sample_meta_def)
  have hv: "nd_size (header_view d) = 2" "nd_max (header_view d) = 29" "nd_parent (header_view d) = - 1"
    "nd_type (header_view d) = LEAF_PAGE"
    using arg_cong [OF d(1), of nd_type] arg_cong [OF d(1), of nd_size] arg_cong [OF d(1), of nd_max]
      arg_cong [OF d(1), of nd_parent] by (simp_all add: sample_root_def leaf_capacity_def)
  have v: "bp_view of_int (bpm small_index) 1 = Some d" using r(2) dm(2) by simp
  show "removable word_cpp of_int 8 sample_meta 0 key small_index"
    using v hv r(4) by (simp add: removable_def in_place_def Let_def isSafe_def GetMinSize_def IsRootPage_def IsLeafPage_def
        leaf_capacity_def)
  show "insertable word_cpp of_int 8 sample_meta 0 [([3], rid_make 3 0), ([5], rid_make 5 0)] key small_index"
    using v hv r(4) by (simp add: insertable_def in_place_def Let_def isSafe_def leaf_capacity_def)
  show "transaction small_index \<noteq> None" "pool_size (bpm small_index) = 3" "root_page_id small_index = 1"
    using r by simp_all
qed

section \<open>Properties\<close>

text \<open>
  C2. Lookup in an index is the lookup of a map. For every well-formed tree of any height over the
  buffer pool, with at least two frames, \<^verbatim>\<open>GetValue\<close> returns (it neither waits for a latch nor runs out
  of frames), answers whether the tree holds the key, stores the record identifier of the key in the
  result vector, and releases every page, latch and lock that it took; the tree is unchanged. When the
  key is absent the vector is brought to one element if the index has a page, and left alone otherwise.
\<close>

theorem bpt_GetValue_refines:
  assumes "index_ok F h ks im n m s" and "key_valid F (im_key_schema im) key" and "n < fuel" and "2 \<le> pool_size (bpm s)"
    and "r = map_of m (key_rank F (im_key_schema im) key)"
  shows "\<exists>s'. GetValue (index_env F h ks im) fuel key result s = Inr ((r \<noteq> None, lookup_result (root_page_id s) r result), s') \<and>
    index_ok F h ks im n m s' \<and> root_page_id s' = root_page_id s"
  using ix.GetValue_ok [of F h ks im n m s key fuel result] assms by (auto simp: index_ok_def kept_def)

theorem bpt_GetValue_refines_witness:
  "\<exists>s' s''. GetValue (index_env word_cpp of_int 8 sample_meta) 1 (le_enc 8 5) [] small_index = Inr ((True, [rid_make 5 0]), s') \<and>
     GetValue (index_env word_cpp of_int 8 sample_meta) 1 (le_enc 8 4) [] small_index = Inr ((False, [rid_invalid]), s'')"
proof -
  have key: "key_valid word_cpp (im_key_schema sample_meta) (le_enc 8 i)"
    "key_rank word_cpp (im_key_schema sample_meta) (le_enc 8 i) = [i]" if "i \<in> {4, 5}" for i
    using bigint_key [OF bigint_small, of i] that by (auto simp: sample_meta_def)
  show ?thesis
    using bpt_GetValue_refines [OF small_index_ok(1) key(1) _ _ refl, of 5 1 "[]"]
      bpt_GetValue_refines [OF small_index_ok(1) key(1) _ _ refl, of 4 1 "[]"] key(2) [of 5] key(2) [of 4] small_index_ok(5,6)
    by (auto simp: lookup_result_def resize1_def)
qed

text \<open>
  C3. Insertion into an index is the insertion into a map. When the index is empty and can start, or
  the leaf of the key has room, \<^verbatim>\<open>Insert\<close> with a transaction returns whether the key was absent, adds
  the entry in that case and changes no other one, keeps the tree well formed and leaves nothing
  pinned, latched or locked. The first insertion makes a new leaf the root and records its number
  in the header page under the name of the index.
\<close>

theorem bpt_Insert_refines:
  assumes "index_ok F h ks im n m s" and "transaction s \<noteq> None" and "key_valid F (im_key_schema im) key" and "length key = ks"
    and "in32 (rid_page v)" and "in32 (rid_slot v)" and "n < fuel" and "n < pool_size (bpm s)"
    and "insertable F h ks im n m key s" and "k = key_rank F (im_key_schema im) key"
  shows "\<exists>s' M. Insert (index_env F h ks im) fuel key v s = Inr (map_of m k = None, s') \<and>
    index_ok F h ks im (if root_page_id s = INVALID_PAGE_ID then 0 else n) M s' \<and>
    map_of M = (if map_of m k = None then (map_of m)(k \<mapsto> v) else map_of m) \<and>
    (if root_page_id s = INVALID_PAGE_ID then root_recorded (index_env F h ks im) s' else root_page_id s' = root_page_id s)"
proof -
  note a = assms(1,9) [unfolded index_ok_def insertable_def]
  have len: "length key = key_size (index_env F h ks im)" using assms(4) by simp
  show ?thesis
    using ix.Insert_ok [OF conjunct2 [OF a(1)] conjunct1 [OF a(1)] assms(2,3) len assms(5-8) a(2), folded assms(10)]
    unfolding index_ok_def by blast
qed

theorem bpt_Insert_refines_witness:
  "\<exists>s' s'' M M'. Insert (index_env word_cpp of_int 8 sample_meta) 1 (le_enc 8 4) (rid_make 4 0) small_index = Inr (True, s') \<and>
     map_of M [4] = Some (rid_make 4 0) \<and> map_of M [5] = Some (rid_make 5 0) \<and>
     index_ok word_cpp of_int 8 sample_meta 0 M s' \<and>
     Insert (index_env word_cpp of_int 8 sample_meta) 1 (le_enc 8 4) (rid_make 4 0) empty_index = Inr (True, s'') \<and>
     map_of M' = [[4] \<mapsto> rid_make 4 0] \<and> index_ok word_cpp of_int 8 sample_meta 0 M' s'' \<and>
     root_recorded (index_env word_cpp of_int 8 sample_meta) s''"
proof -
  have key: "key_valid word_cpp (im_key_schema sample_meta) (le_enc 8 4)" "[4] = key_rank word_cpp (im_key_schema sample_meta) (le_enc 8 4)"
    using bigint_key [OF bigint_small, of 4] by (simp_all add: sample_meta_def)
  have v: "in32 (rid_page (rid_make 4 0))" "in32 (rid_slot (rid_make 4 0))" "length (le_enc 8 4) = 8"
    by (simp_all add: rid_make_def)
  have n: "(0 :: nat) < 1" "0 < pool_size (bpm small_index)" "0 < pool_size (bpm empty_index)"
    using small_index_ok(5) empty_index_ok(4) by simp_all
  from bpt_Insert_refines [OF small_index_ok(1,4) key(1) v(3,1,2) n(1,2) small_index_ok(3) key(2)]
  obtain s' M where a: "Insert (index_env word_cpp of_int 8 sample_meta) 1 (le_enc 8 4) (rid_make 4 0) small_index = Inr (True, s')"
    "index_ok word_cpp of_int 8 sample_meta 0 M s'" "map_of M = (map_of [([3], rid_make 3 0), ([5], rid_make 5 0)])([4] \<mapsto> rid_make 4 0)"
    using small_index_ok(6) by auto
  from bpt_Insert_refines [OF empty_index_ok(1,3) key(1) v(3,1,2) n(1,3) empty_index_ok(2) key(2)]
  obtain s'' M' where b: "Insert (index_env word_cpp of_int 8 sample_meta) 1 (le_enc 8 4) (rid_make 4 0) empty_index = Inr (True, s'')"
    "index_ok word_cpp of_int 8 sample_meta 0 M' s''" "map_of M' = [[4] \<mapsto> rid_make 4 0]"
    "root_recorded (index_env word_cpp of_int 8 sample_meta) s''"
    using empty_index_ok(5) by auto
  have "map_of M [4] = Some (rid_make 4 0)" "map_of M [5] = Some (rid_make 5 0)" unfolding a(3) by simp_all
  with a(1,2) b show ?thesis by blast
qed

text \<open>
  C4. Removal from an index is the removal from a map. When the leaf of the key keeps its minimal
  size, \<^verbatim>\<open>Remove\<close> with a transaction returns, erases exactly the entry of the key, keeps the tree well
  formed and leaves nothing pinned, latched or locked; on an empty index it changes nothing.
\<close>

theorem bpt_Remove_refines:
  assumes "index_ok F h ks im n m s" and "transaction s \<noteq> None" and "key_valid F (im_key_schema im) key"
    and "n < fuel" and "n < pool_size (bpm s)" and "removable F h ks im n key s"
  shows "\<exists>s' M. Remove (index_env F h ks im) fuel key s = Inr ((), s') \<and> index_ok F h ks im n M s' \<and>
    map_of M = (map_of m)(key_rank F (im_key_schema im) key := None) \<and> root_page_id s' = root_page_id s"
  using ix.Remove_ok [of F h ks im n m s key fuel] assms by (auto simp: index_ok_def removable_def)

theorem bpt_Remove_refines_witness:
  "\<exists>s' M. Remove (index_env word_cpp of_int 8 sample_meta) 1 (le_enc 8 5) small_index = Inr ((), s') \<and>
     index_ok word_cpp of_int 8 sample_meta 0 M s' \<and> map_of M [5] = None \<and> map_of M [3] = Some (rid_make 3 0)"
proof -
  have key: "key_valid word_cpp (im_key_schema sample_meta) (le_enc 8 5)" "key_rank word_cpp (im_key_schema sample_meta) (le_enc 8 5) = [5]"
    using bigint_key [OF bigint_small, of 5] by (simp_all add: sample_meta_def)
  from bpt_Remove_refines [OF small_index_ok(1,4) key(1) _ _ small_index_ok(2), of 1] obtain s' M where
    a: "Remove (index_env word_cpp of_int 8 sample_meta) 1 (le_enc 8 5) small_index = Inr ((), s')"
    "index_ok word_cpp of_int 8 sample_meta 0 M s'" "map_of M = (map_of [([3], rid_make 3 0), ([5], rid_make 5 0)])([5] := None)"
    unfolding key(2) using small_index_ok(5) by auto
  have "map_of M [5] = None" "map_of M [3] = Some (rid_make 3 0)" unfolding a(3) by simp_all
  with a(1,2) show ?thesis by blast
qed

text \<open>
  C5. Entries of an index are found again, from key tuples down to the pages. When the index is empty
  and can start, or the leaf of the key has room or holds the key, then after \<^verbatim>\<open>InsertEntry\<close> of a tuple
  \<^verbatim>\<open>ScanKey\<close> of a tuple with the same key leaves exactly the record identifier in the result vector (the one
  stored first, if the key was present), and so does \<^verbatim>\<open>ScanKey\<close> of every other key that was present. A key
  that the index does not hold leaves one element, the first one of the vector or an invalid
  identifier: the caller, who does not see whether the key was found, takes it for a result.
\<close>

theorem index_insert_scan:
  assumes "index_ok F h ks im n m s" and "transaction s \<noteq> None"
    and "SetFromKey ks t = ok key" and "key_valid F (im_key_schema im) key"
    and "SetFromKey ks t' = ok key'" and "key_valid F (im_key_schema im) key'"
    and "in32 (rid_page v)" and "in32 (rid_slot v)" and "n < fuel" and "n < pool_size (bpm s)" and "2 \<le> pool_size (bpm s)"
    and "insertable F h ks im n m key s"
    and "k = key_rank F (im_key_schema im) key" and "k' = key_rank F (im_key_schema im) key'"
  shows "\<exists>s1 s2 M. InsertEntry (index_env F h ks im) fuel t v s = Inr ((), s1) \<and>
    ScanKey (index_env F h ks im) fuel t' result s1 =
      Inr (case (if k' = k \<and> map_of m k = None then Some v else map_of m k') of
             Some w \<Rightarrow> [w]
           | None \<Rightarrow> (case result of [] \<Rightarrow> [rid_invalid] | x # xs \<Rightarrow> [x]), s2) \<and>
    index_ok F h ks im (if root_page_id s = INVALID_PAGE_ID then 0 else n) M s2"
proof -
  let ?E = "index_env F h ks im" and ?n = "if root_page_id s = INVALID_PAGE_ID then 0 else n"
  have len: "length key = key_size ?E" using length_SetFromKey [OF assms(3)] by simp
  from ix.Insert_ok [of F h ks im n m s key v fuel] obtain s1 M where s1:
    "Insert ?E fuel key v s = Inr (map_of m k = None, s1)" "at_rest ?E s1"
    "stores ?E (key_valid F (im_key_schema im)) (key_rank F (im_key_schema im)) ?n M s1"
    "map_of M = (if map_of m k = None then (map_of m)(k \<mapsto> v) else map_of m)" "pool_size (bpm s1) = pool_size (bpm s)"
    using assms len by (auto simp: index_ok_def insertable_def)
  have fuel: "?n < fuel" and room: "2 \<le> pool_size (bpm s1)" using assms(9,11) s1(5) by simp_all
  from ix.GetValue_ok [OF s1(3,2) assms(6) fuel room, of result] obtain s2 where s2:
    "GetValue ?E fuel key' result s1 = Inr ((map_of M k' \<noteq> None, lookup_result (root_page_id s1) (map_of M k') result), s2)" "at_rest ?E s2"
    "stores ?E (key_valid F (im_key_schema im)) (key_rank F (im_key_schema im)) ?n M s2"
    using assms(14) by auto
  have "InsertEntry ?E fuel t v s = Inr ((), s1)" using s1(1) assms(3) by (simp add: InsertEntry_def op_simps)
  moreover have "map_of M k \<noteq> None" using s1(4) by simp
  then have "M \<noteq> []" by auto
  then have "root_page_id s1 \<noteq> INVALID_PAGE_ID" using s1(3) tree_of_page by (fastforce simp: stores_def)
  then have "ScanKey ?E fuel t' result s1 = Inr (case map_of M k' of Some w \<Rightarrow> [w] | None \<Rightarrow> resize1 result, s2)"
    using s2(1) assms(5) by (simp add: ScanKey_def lookup_result_def op_simps)
  moreover have "map_of M k' = (if k' = k \<and> map_of m k = None then Some v else map_of m k')" using s1(4) by auto
  ultimately show ?thesis using s2(2,3) unfolding resize1_def by (auto simp: index_ok_def)
qed

definition sample_key :: "int \<Rightarrow> Tuple" where
  "sample_key i = \<lparr>allocated = True, tup_rid = rid_make 0 0, tup_size = 8, tup_data = le_enc 8 i\<rparr>"

lemma SetFromKey_sample: "SetFromKey 8 (sample_key i) = ok (le_enc 8 i)"
  by (simp add: SetFromKey_def sample_key_def rd_bytes_def wr_bytes_def bget_def bput_def)

theorem index_insert_scan_witness:
  "\<exists>s1 s2 s3. InsertEntry (index_env word_cpp of_int 8 sample_meta) 1 (sample_key 4) (rid_make 4 0) empty_index = Inr ((), s1) \<and>
     ScanKey (index_env word_cpp of_int 8 sample_meta) 1 (sample_key 4) [] s1 = Inr ([rid_make 4 0], s2) \<and>
     ScanKey (index_env word_cpp of_int 8 sample_meta) 1 (sample_key 5) [] s1 = Inr ([rid_invalid], s3)"
proof -
  have key: "key_valid word_cpp (im_key_schema sample_meta) (le_enc 8 i)"
    "[i] = key_rank word_cpp (im_key_schema sample_meta) (le_enc 8 i)" if "i \<in> {4, 5}" for i
    using bigint_key [OF bigint_small, of i] that by (auto simp: sample_meta_def)
  have v: "in32 (rid_page (rid_make 4 0))" "in32 (rid_slot (rid_make 4 0))" by (simp_all add: rid_make_def)
  have n: "(0 :: nat) < 1" "0 < pool_size (bpm empty_index)" "2 \<le> pool_size (bpm empty_index)"
    using empty_index_ok(4) by simp_all
  have k: "4 \<in> {4, 5 :: int}" "5 \<in> {4, 5 :: int}" by simp_all
  note scan = index_insert_scan [OF empty_index_ok(1,3) SetFromKey_sample key(1) [OF k(1)] SetFromKey_sample key(1) [OF _] v n
      empty_index_ok(2) key(2) [OF k(1)] key(2) [OF _], where result = "[]"]
  show ?thesis using scan [OF k(1) k(1)] scan [OF k(2) k(2)] by auto
qed

end
