(* ===== verification/Bpt_Split.thy ===== *)
theory Bpt_Split
  imports Bpt_Spec
begin

text \<open>
  The first split of a tree, step by step through the pool: a full root leaf is cut in two, and a new
  internal page becomes the root. The new root has two children, but its size says that it has one.
\<close>

section \<open>Frames that are pinned\<close>

text \<open>\<open>pinned E P X s q t d\<close>: the page \<open>q\<close> lies in the frame \<open>t\<close>, is pinned and has the bytes \<open>d\<close>.\<close>

definition pinned ::
  "bpt_env \<Rightarrow> (int \<Rightarrow> int) \<Rightarrow> int set \<Rightarrow> BPlusTree \<Rightarrow> int \<Rightarrow> nat \<Rightarrow> byte list \<Rightarrow> bool" where
  "pinned E P X s q t d \<longleftrightarrow> bp_pool (hash_fn E) P X (bpm s) \<and> 0 < P q \<and> bp_at (hash_fn E) (bpm s) q t \<and>
     bp_view (hash_fn E) (bpm s) q = Some d"

lemma pinned_read:
  assumes "pinned E P X s q t d"
  shows "t_data t s = Inr (d, s)" and "t_node t s = Inr (header_view d, s)"
    and "t_leaf E t s = Inr (leaf_view (key_size E) d, s)" and "t_internal E t s = Inr (internal_view (key_size E) d, s)"
    and "t \<noteq> 0" and "length d = PAGE_SIZE"
proof -
  have "t \<noteq> 0 \<and> bp_view (hash_fn E) (bpm s) q = Some (bp_peek (bpm s) t) \<and> length (bp_peek (bpm s) t) = PAGE_SIZE"
    using pins.at_peek assms unfolding pinned_def by blast
  then show r: "t_data t s = Inr (d, s)" and "t \<noteq> 0" and "length d = PAGE_SIZE"
    using assms by (simp_all add: pinned_def t_data_def)
  show "t_node t s = Inr (header_view d, s)"
    "t_leaf E t s = Inr (leaf_view (key_size E) d, s)" "t_internal E t s = Inr (internal_view (key_size E) d, s)"
    using r by (simp_all add: t_node_def t_leaf_def t_internal_def op_simps)
qed

text \<open>Writing a pinned frame.\<close>

definition put :: "nat \<Rightarrow> byte list \<Rightarrow> BPlusTree \<Rightarrow> BPlusTree" where
  "put t d s = s\<lparr>bpm := bp_poke t d (bpm s)\<rparr>"

lemma pinned_write:
  assumes "pinned E P X s q t d" and "length d' = PAGE_SIZE"
  shows "t_put t d' s = Inr ((), put t d' s)" and "pinned E P (insert q X) (put t d' s) q t d'"
    and "pinned E P X s p u e \<Longrightarrow> p \<noteq> q \<Longrightarrow> pinned E P (insert q X) (put t d' s) p u e"
    and "bp_view (hash_fn E) (bpm (put t d' s)) = (bp_view (hash_fn E) (bpm s))(q \<mapsto> d')"
    and "bp_at (hash_fn E) (bpm (put t d' s)) = bp_at (hash_fn E) (bpm s)"
    and "bp_upcoming (bpm (put t d' s)) = bp_upcoming (bpm s)" and "pool_size (bpm (put t d' s)) = pool_size (bpm s)"
proof -
  have p: "bp_pool (hash_fn E) P X (bpm s)" "0 < P q" "bp_at (hash_fn E) (bpm s) q t"
    using assms(1) by (simp_all add: pinned_def)
  note w = pins.poke_law [OF p assms(2)]
  show "t_put t d' s = Inr ((), put t d' s)" by (simp add: t_put_def modS_def put_def)
  show "pinned E P (insert q X) (put t d' s) q t d'" using p w by (simp add: pinned_def put_def)
  show "pinned E P X s p u e \<Longrightarrow> p \<noteq> q \<Longrightarrow> pinned E P (insert q X) (put t d' s) p u e"
    using w by (simp add: pinned_def put_def)
  show "bp_view (hash_fn E) (bpm (put t d' s)) = (bp_view (hash_fn E) (bpm s))(q \<mapsto> d')"
    "bp_at (hash_fn E) (bpm (put t d' s)) = bp_at (hash_fn E) (bpm s)"
    "bp_upcoming (bpm (put t d' s)) = bp_upcoming (bpm s)" "pool_size (bpm (put t d' s)) = pool_size (bpm s)"
    using w by (simp_all add: put_def)
qed

lemma pinned_set:
  assumes "pinned E P X s q t d"
  shows "t_set_leaf t p s = Inr ((), put t (leaf_store d p) s)"
    and "t_set_internal t ip s = Inr ((), put t (internal_store d ip) s)"
    and "t_set_node t n s = Inr ((), put t (header_store d n) s)"
    and "t_SetParentPageId t i s = Inr ((), put t (header_store d (SetParentPageId (header_view d) i)) s)"
  using pinned_read(1,2) [OF assms]
  by (simp_all add: t_set_leaf_def t_set_internal_def t_set_node_def t_SetParentPageId_def t_put_def op_simps put_def)

lemma held_pinned:
  assumes "held E excl H X s" and "(q, t) \<in> set H" and "bp_view (hash_fn E) (bpm s) q = Some d"
  shows "pinned E (once H) X s q t d"
  using held_pool [OF assms(1)] held_at [OF assms(1,2)] once_pos [OF assms(2)] assms(3) by (simp add: pinned_def)

section \<open>A new page that is held\<close>

lemma held_new:
  assumes h: "held E excl H X s" and i: "i = bp_upcoming (bpm s)" "pid_ok i"
    and new: "\<not> (\<exists>t. bp_at (hash_fn E) (bpm s) i t)" and room: "length H < pool_size (bpm s)"
  obtains u b where "t_NewPage E s = Inr ((u, Some i), s\<lparr>bpm := b\<rparr>)" and "u \<noteq> 0"
    and "t_Lock excl u (s\<lparr>bpm := b\<rparr>) = Inr ((), s\<lparr>bpm := b, rwlatch := (rwlatch s)(u := latched excl)\<rparr>)"
    and "held E excl (H @ [(i, u)]) (insert i X) (s\<lparr>bpm := b, rwlatch := (rwlatch s)(u := latched excl)\<rparr>)"
    and "bp_view (hash_fn E) b i = Some blank"
    and "\<forall>p x. p \<noteq> i \<longrightarrow> bp_view (hash_fn E) (bpm s) p = Some x \<longrightarrow> bp_view (hash_fn E) b p = Some x"
    and "\<forall>p u. bp_at (hash_fn E) b p u \<longrightarrow> p \<noteq> i \<longrightarrow> bp_at (hash_fn E) (bpm s) p u"
    and "pool_size b = pool_size (bpm s)" and "bp_upcoming b = int32 (i + 1)"
proof -
  have "card {p. 0 < once H p} < pool_size (bpm s)" using room once_card [of H] by simp
  with pins.new_law [OF held_pool [OF h]] i new obtain u b where
    f: "bp_NewPage (hash_fn E) (bpm s) = Inr (u, Some i, b)" "u \<noteq> 0" "bp_pool (hash_fn E) ((once H)(i := 1)) (insert i X) b"
    "bp_at (hash_fn E) b i u" "bp_peek b u = blank"
    "\<forall>p x. p \<noteq> i \<longrightarrow> bp_view (hash_fn E) (bpm s) p = Some x \<longrightarrow> bp_view (hash_fn E) b p = Some x"
    "\<forall>p u. 0 < once H p \<longrightarrow> bp_at (hash_fn E) (bpm s) p u \<longrightarrow> bp_at (hash_fn E) b p u"
    "\<forall>p u. bp_at (hash_fn E) b p u \<longrightarrow> p \<noteq> i \<longrightarrow> bp_at (hash_fn E) (bpm s) p u"
    "bp_upcoming b = int32 (i + 1)" "pool_size b = pool_size (bpm s)"
    unfolding blank_def by blast
  have iH: "i \<notin> fst ` set H" using held_at [OF h] new by force
  have P: "(once H)(i := 1) = once (H @ [(i, u)])" using once_add [OF iH, of u] iH by (simp add: once_def)
  have at: "bp_at (hash_fn E) b (fst x) (snd x)" if "x \<in> set H" for x
    using held_at [OF h, of "fst x" "snd x"] f(7) that once_pos [of "fst x" "snd x" H] by simp
  have "u \<notin> snd ` set H"
  proof
    assume "u \<in> snd ` set H"
    then obtain p where p: "(p, u) \<in> set H" by auto
    then have "p = i" using pins.at_inj [OF f(3) at [OF p] f(4)] by simp
    then show False using p iH by force
  qed
  then have l: "rwlatch s u = rw_init" using held_latch [OF h] by simp
  have lt: "t_Lock excl u (s\<lparr>bpm := b\<rparr>) = Inr ((), s\<lparr>bpm := b, rwlatch := (rwlatch s)(u := latched excl)\<rparr>)"
    using t_Lock_free [of u "s\<lparr>bpm := b\<rparr>" excl] l f(2) by simp
  have "held E excl (H @ [(i, u)]) (insert i X) (s\<lparr>bpm := b, rwlatch := (rwlatch s)(u := latched excl)\<rparr>)"
    using held_distinct [OF h] iH f(3,4) P at held_latch [OF h] by (auto simp: held_def fun_eq_iff)
  moreover have "bp_view (hash_fn E) b i = Some blank" using pins.at_peek [OF f(3,4)] f(5) by simp
  ultimately show thesis using that [of u b] lt f by (simp add: t_NewPage_def)
qed

section \<open>Moving half of a leaf\<close>

lemma copy_entries_elems:
  "copy_entries src i dst j n = ok a \<Longrightarrow> set a \<subseteq> set src \<union> set dst"
proof (induction n arbitrary: i j dst)
  case (Suc n)
  obtain x b where x: "vec_at src i = ok x" "vec_set dst j x = ok b" "copy_entries src (i + 1) b (j + 1) n = ok a"
    using Suc.prems by (auto simp: bindE_def split: sum.splits)
  have "set b \<subseteq> set src \<union> set dst"
    using x(1,2) set_update_subset_insert [of dst "nat j" x]
    by (auto simp: vec_at_def vec_set_def split: if_splits)
  then show ?case using Suc.IH [OF x(3)] by auto
qed simp

lemma leaf_MoveHalfTo_fits:
  assumes "leaf_MoveHalfTo p q = ok (p', q')" and "leaf_fits ks p" and "leaf_fits ks q"
    and "leaf_ok valid rank p'" and "leaf_ok valid rank q'" and "length (nd_array q') = length (nd_array q)"
  shows "leaf_fits ks p'" and "leaf_fits ks q'" and "nd_id p' = nd_id p" and "nd_id q' = nd_id q"
    and "nd_parent p' = nd_parent p" and "nd_type p' = nd_type p" and "nd_type q' = nd_type q"
proof -
  obtain a where a: "copy_entries (nd_array p) ((nd_max p + 1) div 2) (nd_array q) 0 (nat (nd_max p + 1 - (nd_max p + 1) div 2)) = ok a"
    "p' = p\<lparr>nd_next := nd_id q, nd_size := (nd_max p + 1) div 2\<rparr>"
    "q' = q\<lparr>nd_array := a, nd_next := nd_next p, nd_size := nd_max p + 1 - (nd_max p + 1) div 2\<rparr>"
    using assms(1) by (auto simp: leaf_MoveHalfTo_def Let_def SetNextPageId_def SetSize_def bindE_def split: sum.splits)
  note el = copy_entries_elems [OF a(1)]
  have len: "length a = length (nd_array q)" using assms(6) a(3) by simp
  have sz: "in32 (nd_size p')" "in32 (nd_size q')"
    using assms(2-5) capacity_in32 [of "nd_size p'" ks] capacity_in32 [of "nd_size q'" ks] len
    by (auto simp: leaf_ok_def leaf_fits_def a(2,3))
  show "leaf_fits ks p'" "leaf_fits ks q'"
    using assms(2,3) sz el len by (auto simp: leaf_fits_def header_fits_def a(2,3) list_all_iff)
  show "nd_id p' = nd_id p" "nd_id q' = nd_id q" "nd_parent p' = nd_parent p" "nd_type p' = nd_type p" "nd_type q' = nd_type q"
    by (simp_all add: a(2,3))
qed

section \<open>What a step leaves alone\<close>

text \<open>Pages outside \<open>Q\<close> keep their bytes, and none of them enters the pool.\<close>

definition onward :: "bpt_env \<Rightarrow> int set \<Rightarrow> BPlusTree \<Rightarrow> BPlusTree \<Rightarrow> bool" where
  "onward E Q s s' \<longleftrightarrow> index_name s' = index_name s \<and> pool_size (bpm s') = pool_size (bpm s) \<and>
     (\<forall>p x. p \<notin> Q \<longrightarrow> bp_view (hash_fn E) (bpm s) p = Some x \<longrightarrow> bp_view (hash_fn E) (bpm s') p = Some x) \<and>
     (\<forall>p u. bp_at (hash_fn E) (bpm s') p u \<longrightarrow> p \<notin> Q \<longrightarrow> bp_at (hash_fn E) (bpm s) p u)"

lemma onward_trans: "onward E Q s s1 \<Longrightarrow> onward E Q s1 s2 \<Longrightarrow> onward E Q s s2"
  by (auto simp: onward_def)

lemma onward_mono: "onward E Q s s' \<Longrightarrow> Q \<subseteq> Q' \<Longrightarrow> onward E Q' s s'"
  unfolding onward_def by blast

lemma onward_put: "pinned E P X s q t d \<Longrightarrow> length d' = PAGE_SIZE \<Longrightarrow> q \<in> Q \<Longrightarrow> onward E Q s (put t d' s)"
  using pinned_write(4,5,7) [of E P X s q t d d'] by (auto simp: onward_def put_def)

lemma held_put':
  assumes "held E excl H X s" and "(q, t) \<in> set H" and "length d = PAGE_SIZE"
  shows "held E excl H (insert q X) (put t d s)"
  using held_put(1) [OF assms] by (simp add: put_def)

lemma put_fields [simp]:
  "root_page_id (put t d s) = root_page_id s" "mMutex (put t d s) = mMutex s" "mRootLockedCnt (put t d s) = mRootLockedCnt s"
  "transaction (put t d s) = transaction s" "index_name (put t d s) = index_name s" "rwlatch (put t d s) = rwlatch s"
  by (simp_all add: put_def)

section \<open>Finding a root that is a leaf\<close>

lemma FindLeafPage_root:
  assumes rest: "at_rest E s" and tx: "transaction s = Some T"
    and page: "tree_page (bp_view (hash_fn E) (bpm s)) (root_page_id s) d LEAF_PAGE" and room: "0 < pool_size (bpm s)"
  obtains t s1 where "FindLeafPage E (Suc f) key False OpInsert s = Inr (t, s1)"
    and "held E True [(root_page_id s, t)] {} s1" and "recorded [(root_page_id s, t)] True s1" and "root_lock True s1"
    and "bp_view (hash_fn E) (bpm s1) (root_page_id s) = Some d" and "onward E {root_page_id s} s s1"
    and "bp_upcoming (bpm s1) = bp_upcoming (bpm s)" and "root_page_id s1 = root_page_id s"
proof -
  let ?r = "root_page_id s" and ?s = "s\<lparr>mMutex := latched True, mRootLockedCnt := 1\<rparr>"
  have r: "?r \<noteq> INVALID_PAGE_ID" "pid_ok ?r" "bp_view (hash_fn E) (bpm s) ?r = Some d" "nd_type (header_view d) = LEAF_PAGE"
    using page by (auto simp: tree_page_def)
  have h: "held E True [] {} ?s" and T: "page_set T = []" "deleted_page_set T = {}"
    using rest tx held_none [of E False "{}" s True] by (auto simp: at_rest_def recorded_def held_def)
  have v: "bp_view (hash_fn E) (bpm ?s) ?r = Some d" "length [] < pool_size (bpm ?s)" "?r \<notin> fst ` set []"
    using r(3) room by simp_all
  obtain t b where f: "t_FetchPage E ?r ?s = Inr (t, ?s\<lparr>bpm := b\<rparr>)" "t \<noteq> 0"
    "t_Lock True t (?s\<lparr>bpm := b\<rparr>) = Inr ((), ?s\<lparr>bpm := b, rwlatch := (rwlatch ?s)(t := latched True)\<rparr>)"
    "held E True ([] @ [(?r, t)]) {} (?s\<lparr>bpm := b, rwlatch := (rwlatch ?s)(t := latched True)\<rparr>)"
    "\<forall>p x. bp_view (hash_fn E) (bpm ?s) p = Some x \<longrightarrow> bp_view (hash_fn E) b p = Some x"
    "pool_size b = pool_size (bpm ?s)" "bp_upcoming b = bp_upcoming (bpm ?s)"
    "\<forall>p u. bp_at (hash_fn E) b p u \<longrightarrow> p \<noteq> ?r \<longrightarrow> bp_at (hash_fn E) (bpm ?s) p u"
    using held_fetch [OF h v(3) r(2) v(1,2)] .
  define s0 where "s0 = ?s\<lparr>bpm := b, rwlatch := (rwlatch ?s)(t := latched True)\<rparr>"
  define s1 where "s1 = s0\<lparr>transaction := Some (txn_AddIntoPageSet T t)\<rparr>"
  have h0: "held E True [(?r, t)] {} s0" using f(4) by (simp add: s0_def)
  have h1: "held E True [(?r, t)] {} s1" using h0 by (rule held_bpm_cong) (simp_all add: s1_def)
  have v1: "bp_view (hash_fn E) (bpm s1) ?r = Some d" "bp_view (hash_fn E) (bpm s0) ?r = Some d"
    using f(5) r(3) by (simp_all add: s1_def s0_def)
  have at: "(?r, t) \<in> set [(?r, t)]" by simp
  note n0 = pinned_read(2) [OF held_pinned [OF h0 at v1(2)]] and n1 = pinned_read(2) [OF held_pinned [OF h1 at v1(1)]]
  have add: "t_AddIntoPageSet t s0 = Inr ((), s1)" "transaction s0 \<noteq> None"
    using tx by (simp_all add: t_AddIntoPageSet_def s1_def s0_def)
  have crab: "CrabingProtocalFetchPage E ?r OpInsert (- 1) ?s = Inr (t, s1)"
    using f(1,3) n0 add by (simp add: CrabingProtocalFetchPage_def op_simps s0_def)
  have "LockRootPageId True s = Inr ((), ?s)" using Lock_root rest by (simp add: at_rest_def)
  then have "FindLeafPage E (Suc f) key False OpInsert s = Inr (t, s1)"
    using crab n1 r(1,4) by (simp add: FindLeafPage_def Let_def IsEmpty_def op_simps IsLeafPage_def)
  moreover have "recorded [(?r, t)] True s1"
    using T by (simp add: recorded_def s1_def txn_AddIntoPageSet_def)
  moreover have "root_lock True s1" by (simp add: root_lock_def s1_def s0_def)
  moreover have "onward E {?r} s s1" using f(5,6,8) by (simp add: onward_def s1_def s0_def)
  ultimately show thesis using that h1 v1(1) f(7) by (simp add: s1_def s0_def)
qed

section \<open>Splitting a leaf\<close>

context tree_index
begin

lemma Split_leaf:
  assumes h: "held E True [(r, t)] X s" and rec: "recorded [(r, t)] True s" and v: "bp_view (hash_fn E) (bpm s) r = Some d"
    and p: "p = leaf_view (key_size E) d" "leaf_ok valid rank p" "nd_size p = nd_max p + 1" "nd_parent p = INVALID_PAGE_ID"
      "0 < nd_size p"
    and i: "i = bp_upcoming (bpm s)" "pid_ok i" and new: "\<not> (\<exists>t. bp_at (hash_fn E) (bpm s) i t)"
    and room: "1 < pool_size (bpm s)"
  obtains u s' d1 d2 where "Split E True t s = Inr (u, s')" and "held E True [(r, t), (i, u)] (insert i (insert r X)) s'"
    and "recorded [(r, t), (i, u)] True s'" and "bp_view (hash_fn E) (bpm s') r = Some d1"
    and "bp_view (hash_fn E) (bpm s') i = Some d2"
    and "nd_id (header_view d1) = nd_id p" and "nd_parent (header_view d1) = INVALID_PAGE_ID"
    and "nd_id (header_view d2) = i" and "leaf_ok valid rank (leaf_view (key_size E) d2)" and "0 < nd_size (header_view d2)"
    and "onward E {r, i} s s'" and "bp_upcoming (bpm s') = int32 (i + 1)" and "mMutex s' = mMutex s"
    and "mRootLockedCnt s' = mRootLockedCnt s" and "root_page_id s' = root_page_id s"
proof -
  let ?h = "hash_fn E" and ?ks = "key_size E" and ?H = "[(r, t), (i, u)] :: (int \<times> nat) list" and ?Q = "{r, i}"
  have r1: "length [(r, t)] < pool_size (bpm s)" using room by simp
  obtain u b where n: "t_NewPage E s = Inr ((u, Some i), s\<lparr>bpm := b\<rparr>)" "u \<noteq> 0"
    "t_Lock True u (s\<lparr>bpm := b\<rparr>) = Inr ((), s\<lparr>bpm := b, rwlatch := (rwlatch s)(u := latched True)\<rparr>)"
    "held E True ([(r, t)] @ [(i, u)]) (insert i X) (s\<lparr>bpm := b, rwlatch := (rwlatch s)(u := latched True)\<rparr>)"
    "bp_view ?h b i = Some blank"
    "\<forall>p x. p \<noteq> i \<longrightarrow> bp_view ?h (bpm s) p = Some x \<longrightarrow> bp_view ?h b p = Some x"
    "\<forall>p u. bp_at ?h b p u \<longrightarrow> p \<noteq> i \<longrightarrow> bp_at ?h (bpm s) p u"
    "pool_size b = pool_size (bpm s)" "bp_upcoming b = int32 (i + 1)"
    using held_new [OF h i new r1] .
  have ri: "r \<noteq> i" using held_at [OF h, of r t] new by auto
  obtain T where T: "transaction s = Some T" "page_set T = [t]" "deleted_page_set T = {}"
    using rec by (auto simp: recorded_def split: option.splits)
  define s2 where "s2 = s\<lparr>bpm := b, rwlatch := (rwlatch s)(u := latched True)\<rparr>"
  define s3 where "s3 = s2\<lparr>transaction := Some (txn_AddIntoPageSet T u)\<rparr>"
  have add: "t_AddIntoPageSet u s2 = Inr ((), s3)" using T by (simp add: t_AddIntoPageSet_def s2_def s3_def)
  let ?H = "[(r, t), (i, u)]"
  have at: "(r, t) \<in> set ?H" "(i, u) \<in> set ?H" by simp_all
  have h3: "held E True ?H (insert i X) s3"
    by (rule held_bpm_cong [OF n(4) [simplified append_Cons append_Nil]]) (simp_all add: s3_def s2_def)
  have v3: "bp_view ?h (bpm s3) r = Some d" "bp_view ?h (bpm s3) i = Some blank"
    using n(5,6) v ri by (simp_all add: s3_def s2_def)
  note pr3 = held_pinned [OF h3 at(1) v3(1)] and pi3 = held_pinned [OF h3 at(2) v3(2)]
  have lb: "length blank = PAGE_SIZE" by (simp add: blank_def)
  define e1 where "e1 = leaf_store blank (fresh_leaf ?ks i)"
  have e1: "leaf_view ?ks e1 = fresh_leaf ?ks i" "length e1 = PAGE_SIZE"
    using leaf_view_store [OF lb fresh_leaf_fits [OF i(2)]] by (simp_all add: e1_def)
  define s4 where "s4 = put u e1 s3"
  note pi4 = pinned_write(2) [OF pi3 e1(2), folded s4_def] and pr4 = pinned_write(3) [OF pi3 e1(2) pr3 ri, folded s4_def]
  have fp: "leaf_fits ?ks p" "length (nd_array (fresh_leaf ?ks i)) = length (nd_array p)"
    using leaf_view_fits [of d ?ks] leaf_view_fits [OF lb, of ?ks] pinned_read(6) [OF pr3] p(1) by (simp_all add: leaf_fits_def)
  obtain p' q' where m: "leaf_MoveHalfTo p (fresh_leaf ?ks i) = ok (p', q')" "leaf_ok valid rank p'" "leaf_ok valid rank q'"
    "entries p = entries p' @ entries q'" "nd_size p' = nd_size p div 2" "nd_size q' = nd_size p - nd_size p div 2"
    "nd_next p' = nd_id (fresh_leaf ?ks i)" "nd_next q' = nd_next p"
    "length (nd_array p') = length (nd_array p)" "length (nd_array q') = length (nd_array p)"
    using leaf_MoveHalfTo_ok [OF p(2,3) fp(2)] .
  note mf = leaf_MoveHalfTo_fits [OF m(1) fp(1) fresh_leaf_fits [OF i(2)] m(2,3)]
  have mf: "leaf_fits ?ks p'" "leaf_fits ?ks q'" "nd_id p' = nd_id p" "nd_id q' = i" "nd_parent p' = INVALID_PAGE_ID"
    using mf m(10) fp(2) p(4) by simp_all
  define d1 where "d1 = leaf_store d p'"
  have d1: "leaf_view ?ks d1 = p'" "length d1 = PAGE_SIZE"
    using leaf_view_store [OF pinned_read(6) [OF pr3] mf(1)] by (simp_all add: d1_def)
  define s5 where "s5 = put t d1 s4"
  note pr5 = pinned_write(2) [OF pr4 d1(2), folded s5_def] and pi5 = pinned_write(3) [OF pr4 d1(2) pi4 ri [symmetric], folded s5_def]
  define d2 where "d2 = leaf_store e1 q'"
  have d2: "leaf_view ?ks d2 = q'" "length d2 = PAGE_SIZE"
    using leaf_view_store [OF e1(2) mf(2)] by (simp_all add: d2_def)
  define s6 where "s6 = put u d2 s5"
  have a: "t_Lock True u (s\<lparr>bpm := b\<rparr>) = Inr ((), s2)" "t_node t s3 = Inr (header_view d, s3)"
    "t_leaf E u s3 = Inr (leaf_view ?ks blank, s3)" "t_leaf E t s4 = Inr (p, s4)" "t_leaf E u s4 = Inr (fresh_leaf ?ks i, s4)"
    using n(3) pinned_read(2) [OF pr3] pinned_read(3) [OF pi3] pinned_read(3) [OF pr4] pinned_read(3) [OF pi4] p(1) e1(1)
    by (simp_all add: s2_def)
  have st: "t_set_leaf u (leaf_Init ?ks i (nd_parent (header_view d)) (leaf_view ?ks blank)) s3 = Inr ((), s4)"
    "t_set_leaf t p' s4 = Inr ((), s5)" "t_set_leaf u q' s5 = Inr ((), s6)"
    using pinned_set(1) [OF pi3] pinned_set(1) [OF pr4] pinned_set(1) [OF pi5] p(1,4)
    by (simp_all add: fresh_leaf_def e1_def s4_def d1_def s5_def d2_def s6_def)
  have mv: "bindS (t_leaf E u) (\<lambda>q. bindS (t_set_leaf u (leaf_Init ?ks i (nd_parent (header_view d)) q)) (\<lambda>_.
      bindS (t_leaf E t) (\<lambda>p. bindS (t_leaf E u) (\<lambda>q1. bindS (liftS (leaf_MoveHalfTo p q1)) (\<lambda>(p', q').
      bindS (t_set_leaf t p') (\<lambda>_. t_set_leaf u q')))))) s3 = Inr ((), s6)"
    by (rule bindS_step, rule a(3), rule bindS_step, rule st(1), rule bindS_step, rule a(4), rule bindS_step, rule a(5),
        rule liftS_step, rule m(1), simp only: prod.case, rule bindS_step, rule st(2), rule st(3))
  have "Split E True t s = Inr (u, s6)"
    unfolding Split_def
    by (rule bindS_step, rule n(1), simp only: prod.case option.case, rule bindS_step, rule a(1), rule bindS_step, rule add,
        rule bindS_step, rule a(2), rule bindS_step, simp only: if_True, rule mv, simp add: retS_def)
  moreover have "held E True ?H (insert i (insert r X)) s6"
    using held_put' [OF held_put' [OF held_put' [OF h3 at(2) e1(2)] at(1) d1(2)] at(2) d2(2)]
    by (simp add: s4_def [symmetric] s5_def [symmetric] s6_def [symmetric] insert_commute)
  moreover have "onward E ?Q s s3" using n(6-8) by (auto simp: onward_def s3_def s2_def)
  then have "onward E ?Q s s6"
    using onward_trans onward_put [OF pi3 e1(2)] onward_put [OF pr4 d1(2)] onward_put [OF pi5 d2(2)]
    unfolding s4_def [symmetric] s5_def [symmetric] s6_def [symmetric] by (metis insertCI)
  moreover have "bp_view ?h (bpm s6) r = Some d1" "bp_view ?h (bpm s6) i = Some d2"
    using pinned_write(2) [OF pi5 d2(2)] pinned_write(3) [OF pi5 d2(2) pr5 ri] by (simp_all add: pinned_def s6_def)
  moreover have "recorded ?H True s6"
    using T by (simp add: recorded_def s6_def s5_def s4_def s3_def txn_AddIntoPageSet_def)
  moreover have "bp_upcoming (bpm s6) = int32 (i + 1)"
    using pinned_write(6) [OF pi3 e1(2)] pinned_write(6) [OF pr4 d1(2)] pinned_write(6) [OF pi5 d2(2)] n(9)
    by (simp add: s6_def [symmetric] s5_def [symmetric] s4_def [symmetric]) (simp add: s3_def s2_def)
  moreover have "nd_id (header_view d1) = nd_id p" "nd_parent (header_view d1) = INVALID_PAGE_ID"
    "nd_id (header_view d2) = i" "0 < nd_size (header_view d2)"
    using arg_cong [OF d1(1), of nd_id] arg_cong [OF d1(1), of nd_parent] arg_cong [OF d2(1), of nd_id]
      arg_cong [OF d2(1), of nd_size] mf m(6) p(5) by simp_all
  moreover have "leaf_ok valid rank (leaf_view ?ks d2)" using m(3) d2(1) by simp
  ultimately show thesis
    using that [of u s6 d1 d2] by (simp add: s6_def s5_def s4_def s3_def s2_def)
qed

end

section \<open>A new root\<close>

definition fresh_root :: "nat \<Rightarrow> int \<Rightarrow> internal_node" where
  "fresh_root ks j = internal_Init ks j INVALID_PAGE_ID (internal_view ks blank)"

lemma fresh_root_fields:
  "nd_size (fresh_root ks j) = 0" "nd_id (fresh_root ks j) = j" "nd_type (fresh_root ks j) = INTERNAL_PAGE"
  "nd_children (fresh_root ks j) = nd_children (internal_view ks blank)"
  by (simp_all add: fresh_root_def internal_Init_def header_defs)

lemma fresh_root_fits: "pid_ok j \<Longrightarrow> internal_fits ks (fresh_root ks j)"
proof -
  assume "pid_ok j"
  moreover have "internal_capacity ks \<le> 488" using div_le_dividend [of 488 "ks + 4"] by (simp add: internal_capacity_def)
  ultimately show ?thesis
    using internal_view_fits [of blank ks]
    by (auto simp: fresh_root_def internal_Init_def header_defs internal_fits_def header_fits_def blank_def pid_ok_def)
qed

text \<open>The two children are stored, but the size becomes 1.\<close>

lemma PopulateNewRoot_fresh:
  assumes "pid_ok j" and "1 < internal_capacity ks" and "in32 a" and "in32 c" and "length k = ks"
  obtains r where "internal_PopulateNewRoot (fresh_root ks j) a k c = ok r" and "internal_fits ks r" and "nd_size r = 1"
    and "nd_id r = j" and "nd_type r = INTERNAL_PAGE"
proof -
  let ?c = "nd_children (fresh_root ks j)"
  have f: "internal_fits ks (fresh_root ks j)" using fresh_root_fits [OF assms(1)] .
  have l: "length ?c = internal_capacity ks" using f by (simp add: internal_fits_def)
  define a' where "a' = ?c[0 := (fst (?c ! 0), a), 1 := (k, c)]"
  define r where "r = (fresh_root ks j)\<lparr>nd_children := a', nd_size := 1\<rparr>"
  have pop: "internal_PopulateNewRoot (fresh_root ks j) a k c = ok r"
    using assms(2) l fresh_root_fields(1) [of ks j]
    by (simp add: internal_PopulateNewRoot_def vec_at_def vec_set_def IncreaseSize_def r_def a'_def)
  have "set a' \<subseteq> {(fst (?c ! 0), a), (k, c)} \<union> set ?c"
    using set_update_subset_insert [of "?c[0 := (fst (?c ! 0), a)]" 1 "(k, c)"] set_update_subset_insert [of ?c 0 "(fst (?c ! 0), a)"]
    by (auto simp: a'_def)
  moreover have "?c ! 0 \<in> set ?c" using l assms(2) by simp
  moreover have "length a' = internal_capacity ks" by (simp add: a'_def l)
  ultimately have "internal_fits ks r"
    using f assms(3-5) by (auto simp: r_def internal_fits_def header_fits_def list_all_iff)
  then show thesis using that [OF pop] by (simp add: r_def fresh_root_fields)
qed

lemma InsertIntoParent_root:
  assumes h: "held E True [(r, t), (i, u)] X s" and tx: "transaction s \<noteq> None" and X: "X \<subseteq> {r, i}"
    and v: "bp_view (hash_fn E) (bpm s) r = Some d1" "bp_view (hash_fn E) (bpm s) i = Some d2"
    and d: "nd_parent (header_view d1) = INVALID_PAGE_ID" "nd_id (header_view d1) = r" "nd_id (header_view d2) = i"
    and ids: "pid_ok r" "pid_ok i" "0 < r" "0 < i"
    and j: "j = bp_upcoming (bpm s)" "pid_ok j" "0 < j" and new: "\<not> (\<exists>t. bp_at (hash_fn E) (bpm s) j t)"
    and room: "4 \<le> pool_size (bpm s)" and cap: "1 < internal_capacity (key_size E)" and key: "length k = key_size E"
    and hdr: "bp_view (hash_fn E) (bpm s) HEADER_PAGE_ID = Some hp"
    and rec: "hp_UpdateRecord hp (index_name s) j = Inr (c, hp')" "length hp' = PAGE_SIZE"
  obtains s' e where "InsertIntoParent E (Suc f) t k u s = Inr ((), s')" and "held E True [(r, t), (i, u)] (insert r (insert i X)) s'"
    and "root_page_id s' = j" and "bp_view (hash_fn E) (bpm s') j = Some e" and "nd_type (header_view e) = INTERNAL_PAGE"
    and "nd_size (header_view e) = 1" and "transaction s' = transaction s" and "mMutex s' = mMutex s"
    and "mRootLockedCnt s' = mRootLockedCnt s" and "pool_size (bpm s') = pool_size (bpm s)"
proof -
  let ?h = "hash_fn E" and ?ks = "key_size E" and ?H = "[(r, t), (i, u)]"
  let ?P = "(once ?H)(j := 1)"
  have at: "(r, t) \<in> set ?H" "(i, u) \<in> set ?H" by simp_all
  have ne: "j \<noteq> r" "j \<noteq> i" "r \<noteq> i" using held_at [OF h at(1)] held_at [OF h at(2)] new held_distinct [OF h] by auto
  have "card {p. 0 < once ?H p} < pool_size (bpm s)" using once_card [of ?H] room by simp
  with pins.new_law [OF held_pool [OF h]] j new obtain w b1 where
    n: "bp_NewPage ?h (bpm s) = Inr (w, Some j, b1)" "bp_pool ?h ?P (insert j X) b1"
    "bp_at ?h b1 j w" "bp_peek b1 w = blank" "\<forall>p x. p \<noteq> j \<longrightarrow> bp_view ?h (bpm s) p = Some x \<longrightarrow> bp_view ?h b1 p = Some x"
    "\<forall>p u. 0 < once ?H p \<longrightarrow> bp_at ?h (bpm s) p u \<longrightarrow> bp_at ?h b1 p u" "pool_size b1 = pool_size (bpm s)"
    unfolding blank_def by blast
  define s1 where "s1 = s\<lparr>bpm := b1, root_page_id := j\<rparr>"
  let ?X = "insert j X"
  have pw1: "pinned E ?P ?X s1 j w blank"
    using n(2-4) pins.at_peek [OF n(2,3)] by (simp add: pinned_def s1_def)
  have pr1: "pinned E ?P ?X s1 r t d1" "pinned E ?P ?X s1 i u d2"
    using n(2,5,6) v held_at [OF h at(1)] held_at [OF h at(2)] ne by (auto simp: pinned_def s1_def once_def)
  have lb: "length blank = PAGE_SIZE" by (simp add: blank_def)
  define e1 where "e1 = internal_store blank (fresh_root ?ks j)"
  have e1: "internal_view ?ks e1 = fresh_root ?ks j" "length e1 = PAGE_SIZE"
    using internal_view_store [OF lb fresh_root_fits [OF j(2)]] by (simp_all add: e1_def)
  define s2 where "s2 = put w e1 s1"
  note pw2 = pinned_write(2) [OF pw1 e1(2), folded s2_def, unfolded insert_absorb2]
    and pr2 = pinned_write(3) [OF pw1 e1(2) pr1(1) ne(1) [symmetric], folded s2_def, unfolded insert_absorb2]
      pinned_write(3) [OF pw1 e1(2) pr1(2) ne(2) [symmetric], folded s2_def, unfolded insert_absorb2]
  obtain rt where rt: "internal_PopulateNewRoot (fresh_root ?ks j) r k i = ok rt" "internal_fits ?ks rt" "nd_size rt = 1"
    "nd_id rt = j" "nd_type rt = INTERNAL_PAGE"
    by (rule PopulateNewRoot_fresh [OF j(2) cap, of r i k]) (use ids key in \<open>auto simp: pid_ok_def\<close>)
  define e where "e = internal_store e1 rt"
  have e: "internal_view ?ks e = rt" "length e = PAGE_SIZE"
    using internal_view_store [OF e1(2) rt(2)] by (simp_all add: e_def)
  define s3 where "s3 = put w e s2"
  note pw3 = pinned_write(2) [OF pw2 e(2), folded s3_def, unfolded insert_absorb2]
    and pr3 = pinned_write(3) [OF pw2 e(2) pr2(1) ne(1) [symmetric], folded s3_def, unfolded insert_absorb2]
      pinned_write(3) [OF pw2 e(2) pr2(2) ne(2) [symmetric], folded s3_def, unfolded insert_absorb2]
  define f1 where "f1 = header_store d1 (SetParentPageId (header_view d1) j)"
  define f2 where "f2 = header_store d2 (SetParentPageId (header_view d2) j)"
  have f: "length f1 = PAGE_SIZE" "length f2 = PAGE_SIZE"
    using pinned_read(6) [OF pr1(1)] pinned_read(6) [OF pr1(2)] by (simp_all add: f1_def f2_def)
  define s4 where "s4 = put t f1 s3"
  note pw4 = pinned_write(3) [OF pr3(1) f(1) pw3 ne(1), folded s4_def]
    and pr4 = pinned_write(2) [OF pr3(1) f(1), folded s4_def] pinned_write(3) [OF pr3(1) f(1) pr3(2) ne(3) [symmetric], folded s4_def]
  define s5 where "s5 = put u f2 s4"
  note pw5 = pinned_write(3) [OF pr4(2) f(2) pw4 ne(2), folded s5_def]
    and pr5 = pinned_write(2) [OF pr4(2) f(2), folded s5_def] pinned_write(3) [OF pr4(2) f(2) pr4(1) ne(3), folded s5_def]
  have b5: "bp_view ?h (bpm s5) HEADER_PAGE_ID = Some hp" "pool_size (bpm s5) = pool_size (bpm s)" "root_page_id s5 = j"
    "index_name s5 = index_name s" "transaction s5 = transaction s" "mMutex s5 = mMutex s" "mRootLockedCnt s5 = mRootLockedCnt s"
    "rwlatch s5 = rwlatch s"
    using pinned_write(4,7) [OF pw1 e1(2)] pinned_write(4,7) [OF pw2 e(2)] pinned_write(4,7) [OF pr3(1) f(1)]
      pinned_write(4,7) [OF pr4(2) f(2)] hdr n(5,7) ids(3,4) j(3)
    by (simp_all add: s5_def [symmetric] s4_def [symmetric] s3_def [symmetric] s2_def [symmetric])
      (simp_all add: s5_def s4_def s3_def s2_def s1_def)
  let ?X5 = "insert i (insert r ?X)"
  have pool5: "bp_pool ?h ?P ?X5 (bpm s5)" using pr5(1) by (simp add: pinned_def)
  have P: "?P HEADER_PAGE_ID = 0" "HEADER_PAGE_ID \<notin> ?X5" using ids(3,4) j(3) X by (auto simp: once_def)
  have "{q. 0 < ?P q} \<subseteq> {j, r, i}" by (auto simp: once_def)
  then have "card {q. 0 < ?P q} \<le> card {j, r, i}" by (intro card_mono) auto
  also have "\<dots> \<le> 3" by (simp add: card_insert_if)
  finally have room5: "card {q. 0 < ?P q} < pool_size (bpm s5)" using room b5(2) by simp
  have rec5: "(if False then hp_InsertRecord hp (index_name s5) (root_page_id s5)
      else hp_UpdateRecord hp (index_name s5) (root_page_id s5)) = Inr (c, hp')" using rec(1) b5(3,4) by simp
  obtain b6 where u: "UpdateRootPageId E False s5 = Inr ((), s5\<lparr>bpm := b6\<rparr>)" "bp_pool ?h ?P ?X5 b6"
    "bp_view ?h b6 HEADER_PAGE_ID = Some hp'"
    "\<forall>q x. q \<noteq> HEADER_PAGE_ID \<longrightarrow> bp_view ?h (bpm s5) q = Some x \<longrightarrow> bp_view ?h b6 q = Some x"
    "\<forall>q u. 0 < ?P q \<longrightarrow> bp_at ?h (bpm s5) q u \<longrightarrow> bp_at ?h b6 q u"
    "bp_upcoming b6 = bp_upcoming (bpm s5)" "pool_size b6 = pool_size (bpm s5)"
    using UpdateRootPageId_ok [OF pool5 b5(1) P room5 rec5 rec(2)] .
  define s6 where "s6 = s5\<lparr>bpm := b6\<rparr>"
  have pw6: "pinned E ?P ?X5 s6 j w e" using pw5 u(2,4,5) j(3) by (auto simp: pinned_def s6_def)
  have pr6: "bp_at ?h b6 r t" "bp_at ?h b6 i u" using pr5 u(5) by (auto simp: pinned_def)
  obtain b7 where x: "bp_UnpinPage ?h j True b6 = Inr (True, b7)" "bp_pool ?h (?P(j := 0)) (?X5 - {j}) b7"
    "bp_view ?h b7 = bp_view ?h b6" "bp_at ?h b7 = bp_at ?h b6" "pool_size b7 = pool_size b6"
    using pins.unpin_law [OF u(2), of j True] by auto
  define s7 where "s7 = s6\<lparr>bpm := b7\<rparr>"
  have P7: "?P(j := 0) = once ?H" "?X5 - {j} = insert r (insert i X)" using ne X by (auto simp: once_def fun_eq_iff)
  have h7: "held E True ?H (insert r (insert i X)) s7"
    using x(2,4) P7 pr6 held_distinct [OF h] held_latch [OF h] b5(8) by (simp add: held_def s7_def s6_def)
  have hv: "nd_id (header_view e) = j" "nd_type (header_view e) = INTERNAL_PAGE" "nd_size (header_view e) = 1"
    using arg_cong [OF e(1), of nd_id] arg_cong [OF e(1), of nd_type] arg_cong [OF e(1), of nd_size] rt(3-5) by simp_all
  have v7: "bp_view ?h (bpm s7) j = Some e" using pw6 x(3) by (simp add: pinned_def s7_def s6_def)
  have rd: "t_node t s = Inr (header_view d1, s)" "t_internal E w s1 = Inr (internal_view ?ks blank, s1)"
    "t_internal E w s2 = Inr (fresh_root ?ks j, s2)" "t_node u s2 = Inr (header_view d2, s2)" "t_node w s6 = Inr (header_view e, s6)"
    using pinned_read(2) [OF held_pinned [OF h at(1) v(1)]] pinned_read(4) [OF pw1] pinned_read(4) [OF pw2] e1(1)
      pinned_read(2) [OF pr2(2)] pinned_read(2) [OF pw6] by simp_all
  have wr: "t_set_internal w (internal_Init ?ks j INVALID_PAGE_ID (internal_view ?ks blank)) s1 = Inr ((), s2)"
    "t_set_internal w rt s2 = Inr ((), s3)" "t_SetParentPageId t j s3 = Inr ((), s4)" "t_SetParentPageId u j s4 = Inr ((), s5)"
    using pinned_set(2) [OF pw1] pinned_set(2) [OF pw2] pinned_set(4) [OF pr3(1)] pinned_set(4) [OF pr4(2)]
    by (simp_all add: fresh_root_def e1_def s2_def e_def s3_def f1_def s4_def f2_def s5_def)
  have nw: "t_NewPage E s = Inr ((w, Some j), s\<lparr>bpm := b1\<rparr>)" "modS (\<lambda>s. s\<lparr>root_page_id := j\<rparr>) (s\<lparr>bpm := b1\<rparr>) = Inr ((), s1)"
    "UpdateRootPageId E False s5 = Inr ((), s6)" "t_UnpinPage E (nd_id (header_view e)) True s6 = Inr (True, s7)"
    using n(1) u(1) x(1) hv(1) by (simp_all add: t_NewPage_def modS_def s1_def s6_def t_UnpinPage_def s7_def)
  have pop: "internal_PopulateNewRoot (fresh_root ?ks j) (nd_id (header_view d1)) k (nd_id (header_view d2)) = Inr rt"
    using rt(1) d(2,3) by simp
  have root: "IsRootPage (header_view d1)" using d(1) by (simp add: IsRootPage_def)
  have ok: "t \<noteq> 0 \<and> u \<noteq> 0 \<and> transaction s \<noteq> None" using pinned_read(5) [OF pr1(1)] pinned_read(5) [OF pr1(2)] tx by simp
  have "InsertIntoParent E (Suc f) t k u s = Inr ((), s7)"
    unfolding InsertIntoParent.simps
    by (rule getS_step, rule assertS_step, rule ok, rule bindS_step, rule rd(1), simp only: root if_True,
        rule bindS_step, rule nw(1), simp only: prod.case option.case, rule bindS_step, rule nw(2), rule bindS_step, rule rd(2),
        rule bindS_step, rule wr(1), rule bindS_step, rule rd(3), rule bindS_step, rule rd(4), rule liftS_step, rule pop,
        rule bindS_step, rule wr(2), rule bindS_step, rule wr(3), rule bindS_step, rule wr(4), rule bindS_step, rule nw(3),
        rule bindS_step, rule rd(5), rule bindS_step, rule nw(4), simp only: retS_def)
  then show thesis
    using that [of s7 e] h7 hv v7 b5 x(5) u(7) by (simp add: s7_def s6_def)
qed

section \<open>The tree after its first split\<close>

lemma GetValue_small_root:
  assumes rest: "at_rest E s" and v: "bp_view (hash_fn E) (bpm s) (root_page_id s) = Some e"
    and r: "pid_ok (root_page_id s)" and e: "nd_type (header_view e) = INTERNAL_PAGE" "nd_size (header_view e) \<le> 1"
    and room: "0 < pool_size (bpm s)"
  shows "GetValue E (Suc f) key result s = Inl Assertion_Failed"
proof -
  let ?s = "s\<lparr>mMutex := latched False, mRootLockedCnt := 1\<rparr>"
  have h: "held E (OpRead \<noteq> OpRead) [] {} ?s" "recorded [] (OpRead \<noteq> OpRead) ?s" "root_lock (OpRead \<noteq> OpRead) ?s"
    using rest by (auto simp: at_rest_def recorded_def root_lock_def held_def split: option.splits)
  have q: "root_page_id s \<notin> fst ` set []" "bp_view (hash_fn E) (bpm ?s) (root_page_id s) = Some e" "length [] < pool_size (bpm ?s)"
    using v room by simp_all
  have p: "[] = [] \<and> - 1 = (- 1 :: int) \<or>
      (\<exists>H0 t0. [] = H0 @ [(- 1 :: int, t0 :: nat)] \<and> 0 < (- 1 :: int) \<and> pid_ok (- 1))" by simp
  have H': "[] = (if lets_go OpRead (- 1) e then [] else [] :: (int \<times> nat) list)" by simp
  obtain t s1 where s1: "CrabingProtocalFetchPage E (root_page_id s) OpRead (- 1) ?s = Inr (t, s1)"
    "held E (OpRead \<noteq> OpRead) ([] @ [(root_page_id s, t)]) {} s1"
    "recorded ([] @ [(root_page_id s, t)]) (OpRead \<noteq> OpRead) s1" "root_lock (OpRead \<noteq> OpRead) s1" "kept E ?s s1"
    using Crab_held [OF h q(1) r q(2,3) p H'] .
  have "(root_page_id s, t) \<in> set ([] @ [(root_page_id s, t)])" "bp_view (hash_fn E) (bpm s1) (root_page_id s) = Some e"
    using s1(5) v by (simp_all add: kept_def)
  note rd = pinned_read(2,4) [OF held_pinned [OF s1(2) this]]
  have "internal_Lookup (comparator E) (internal_view (key_size E) e) key = Inl Assertion_Failed"
    using e(2) by (simp add: internal_Lookup_def assertE_def)
  then have "find_leaf E key False OpRead (Suc f) t (root_page_id s) s1 = Inl Assertion_Failed"
    using rd e(1) by (simp add: op_simps IsLeafPage_def)
  moreover have "LockRootPageId False s = Inr ((), ?s)" using Lock_root rest by (simp add: at_rest_def)
  moreover have "root_page_id s \<noteq> - 1" using r by (simp add: pid_ok_def)
  ultimately show ?thesis using s1(1) by (simp add: GetValue_def FindLeafPage_def Let_def IsEmpty_def op_simps)
qed

text \<open>
  The root is a full leaf, the next two page numbers are free, four frames are enough for the pages of
  the split and the header page, and the header page has a record of the index.
\<close>

definition root_full :: "bpt_env \<Rightarrow> BPlusTree \<Rightarrow> bool" where
  "root_full E s \<longleftrightarrow>
     (let b = bpm s; r = root_page_id s; i = bp_upcoming b; h = hash_fn E in
      0 < r \<and> r < i \<and> pid_ok (i + 1) \<and> eh_lookup h (page_table b) i = None \<and> eh_lookup h (page_table b) (i + 1) = None \<and>
      4 \<le> pool_size b \<and> 1 < internal_capacity (key_size E) \<and> name_ok (index_name s) \<and>
      (case bp_view h b HEADER_PAGE_ID of
         None \<Rightarrow> False | Some hp \<Rightarrow> hp_ok hp \<and> map_of (hp_entries hp) (index_name s) \<noteq> None) \<and>
      (case bp_view h b r of
         None \<Rightarrow> False
       | Some d \<Rightarrow> nd_size (header_view d) = nd_max (header_view d) \<and> nd_parent (header_view d) = INVALID_PAGE_ID \<and>
           nd_max (header_view d) < int (leaf_capacity (key_size E))))"

context tree_index
begin

text \<open>The leaf takes the new entry, one more than its maximum.\<close>

lemma full_leaf_grown:
  assumes tree: "tree_of valid rank (key_size E) (bp_view (hash_fn E) (bpm s)) 0 r ps m" and r: "r = root_page_id s"
    and rest: "at_rest E s" and tx: "transaction s \<noteq> None" and key: "valid key" "length key = key_size E"
    and w: "in32 (rid_page w)" "in32 (rid_slot w)" and new: "map_of m (rank key) = None" and full: "root_full E s"
  obtains t s1 p q c s2 d1 where "FindLeafPage E (Suc f) key False OpInsert s = Inr (t, s1)" and "t_leaf E t s1 = Inr (p, s1)"
    and "leaf_Lookup (comparator E) p key = Inr None" and "leaf_Insert (comparator E) p key w = Inr (q, c)"
    and "t_set_leaf t q s1 = Inr ((), s2)" and "held E True [(r, t)] {r} s2" and "recorded [(r, t)] True s2"
    and "root_lock True s2" and "bp_view (hash_fn E) (bpm s2) r = Some d1" and "leaf_view (key_size E) d1 = q"
    and "leaf_ok valid rank q" and "nd_size q = nd_max q + 1" and "nd_parent q = INVALID_PAGE_ID" and "nd_id q = r" and "0 < nd_size q"
    and "onward E {r} s s2" and "bp_upcoming (bpm s2) = bp_upcoming (bpm s)"
proof -
  let ?h = "hash_fn E" and ?ks = "key_size E"
  obtain d where page: "tree_page (bp_view ?h (bpm s)) r d LEAF_PAGE" and okd: "leaf_ok valid rank (leaf_view ?ks d)"
    and m: "m = ranked rank (entries (leaf_view ?ks d))" using tree by (rule tree_of_leafE)
  let ?p = "leaf_view ?ks d"
  have dv: "bp_view ?h (bpm s) r = Some d" "nd_id ?p = r" using page by (simp_all add: tree_page_def)
  have room: "0 < pool_size (bpm s)"
    and sz: "nd_size ?p = nd_max ?p" "nd_parent ?p = INVALID_PAGE_ID" "nd_max ?p < int (leaf_capacity ?ks)"
    using full dv(1) r by (auto simp: root_full_def Let_def split: option.splits)
  obtain T where T: "transaction s = Some T" using tx by auto
  obtain t s1 where s1: "FindLeafPage E (Suc f) key False OpInsert s = Inr (t, s1)" "held E True [(r, t)] {} s1"
    "recorded [(r, t)] True s1" "root_lock True s1" "bp_view ?h (bpm s1) r = Some d" "onward E {r} s s1"
    "bp_upcoming (bpm s1) = bp_upcoming (bpm s)" "root_page_id s1 = r"
    using FindLeafPage_root [OF rest T _ room, folded r, OF page] .
  have at: "(r, t) \<in> set [(r, t)]" by simp
  note p1 = held_pinned [OF s1(2) at s1(5)]
  have fits: "leaf_fits ?ks ?p" "length d = PAGE_SIZE" using leaf_view_fits [of d] pinned_read(6) [OF p1] by simp_all
  have free: "length (entries ?p) < length (nd_array ?p)" using length_entries [OF okd] sz okd fits(1)
    by (auto simp: leaf_ok_def leaf_fits_def)
  have none: "map_of (ranked rank (entries ?p)) (rank key) = None" using new m by simp
  have lk: "leaf_Lookup (comparator E) ?p key = Inr None" using leaf_Lookup_ok [OF okd key(1)] none by simp
  obtain a where a: "leaf_Insert (comparator E) ?p key w = ok (?p\<lparr>nd_size := nd_size ?p + 1, nd_array := a\<rparr>, nd_size ?p + 1)"
    "length a = length (nd_array ?p)" "leaf_ok valid rank (?p\<lparr>nd_size := nd_size ?p + 1, nd_array := a\<rparr>)"
    "ranked rank (entries (?p\<lparr>nd_size := nd_size ?p + 1, nd_array := a\<rparr>)) = sm_insert (rank key) w (ranked rank (entries ?p))"
    "set a \<subseteq> insert (key, w) (set (nd_array ?p))"
    using leaf_Insert_ok [OF okd key(1) free none] .
  define q where "q = ?p\<lparr>nd_size := nd_size ?p + 1, nd_array := a\<rparr>"
  have q: "leaf_fits ?ks q" "leaf_ok valid rank q" "nd_size q = nd_max q + 1" "nd_parent q = INVALID_PAGE_ID" "nd_id q = r" "0 < nd_size q"
    using leaf_fits_update [OF fits(1) a(3,2,5)] a(3) sz dv(2) key(2) w okd by (simp_all add: q_def leaf_ok_def)
  define d1 where "d1 = leaf_store d q"
  have d1: "leaf_view ?ks d1 = q" "length d1 = PAGE_SIZE" using leaf_view_store [OF fits(2) q(1)] by (simp_all add: d1_def)
  define s2 where "s2 = put t d1 s1"
  have "held E True [(r, t)] {r} s2" using held_put' [OF s1(2) at d1(2)] by (simp add: s2_def)
  moreover have "onward E {r} s s2" using onward_trans [OF s1(6) onward_put [OF p1 d1(2)]] by (simp add: s2_def)
  moreover have "bp_view ?h (bpm s2) r = Some d1" "bp_upcoming (bpm s2) = bp_upcoming (bpm s)"
    using pinned_write(4,6) [OF p1 d1(2)] s1(7) by (simp_all add: s2_def)
  moreover have "recorded [(r, t)] True s2" "root_lock True s2" using s1(3,4) by (simp_all add: s2_def recorded_def root_lock_def)
  moreover have "t_set_leaf t q s1 = Inr ((), s2)" using pinned_set(1) [OF p1] by (simp add: s2_def d1_def)
  ultimately show thesis using that [OF s1(1) pinned_read(3) [OF p1] lk a(1)] d1(1) q(2-6) by (simp add: q_def)
qed

lemma Insert_splits_root:
  assumes tree: "tree_of valid rank (key_size E) (bp_view (hash_fn E) (bpm s)) 0 r ps m" and r: "r = root_page_id s"
    and rest: "at_rest E s" and tx: "transaction s \<noteq> None" and key: "valid key" "length key = key_size E"
    and w: "in32 (rid_page w)" "in32 (rid_slot w)" and new: "map_of m (rank key) = None" and full: "root_full E s"
  shows "\<exists>s' e. Insert E (Suc f) key w s = Inr (True, s') \<and> at_rest E s' \<and> pid_ok (root_page_id s') \<and>
    bp_view (hash_fn E) (bpm s') (root_page_id s') = Some e \<and> nd_type (header_view e) = INTERNAL_PAGE \<and>
    nd_size (header_view e) \<le> 1 \<and> 0 < pool_size (bpm s')"
proof -
  let ?h = "hash_fn E" and ?ks = "key_size E"
  define i where "i = bp_upcoming (bpm s)"
  obtain hp where hp: "bp_view ?h (bpm s) HEADER_PAGE_ID = Some hp" "hp_ok hp" "map_of (hp_entries hp) (index_name s) \<noteq> None"
    "name_ok (index_name s)"
    and i: "0 < r" "r < i" "pid_ok (i + 1)" "\<not> (\<exists>t. bp_at ?h (bpm s) i t)" "\<not> (\<exists>t. bp_at ?h (bpm s) (i + 1) t)"
    and room: "4 \<le> pool_size (bpm s)" and cap: "1 < internal_capacity ?ks"
    using full by (auto simp: root_full_def Let_def r i_def bp_at_def split: option.splits)
  have pids: "pid_ok i" "pid_ok r" "0 < i" "0 < i + 1" "int32 (i + 1) = i + 1" "in32 (i + 1)"
    using i(1-3) by (auto simp: pid_ok_def)
  obtain t s1 p q c s2 d1 where s1: "FindLeafPage E (Suc f) key False OpInsert s = Inr (t, s1)" "t_leaf E t s1 = Inr (p, s1)"
    "leaf_Lookup (comparator E) p key = Inr None" "leaf_Insert (comparator E) p key w = Inr (q, c)" "t_set_leaf t q s1 = Inr ((), s2)"
    and s2: "held E True [(r, t)] {r} s2" "recorded [(r, t)] True s2" "root_lock True s2" "bp_view ?h (bpm s2) r = Some d1"
      "leaf_view ?ks d1 = q"
    and q: "leaf_ok valid rank q" "nd_size q = nd_max q + 1" "nd_parent q = INVALID_PAGE_ID" "nd_id q = r" "0 < nd_size q"
    and on2: "onward E {r} s s2" and up2: "bp_upcoming (bpm s2) = i"
    using full_leaf_grown [OF tree r rest tx key w new full, folded i_def] .
  have new2: "\<not> (\<exists>t. bp_at ?h (bpm s2) i t)"
    using i(2,4) on2 unfolding onward_def by (metis less_irrefl singletonD)
  have room2: "1 < pool_size (bpm s2)" using room on2 by (simp add: onward_def)
  obtain u s3 e1 e2 where s3: "Split E True t s2 = Inr (u, s3)" "held E True [(r, t), (i, u)] (insert i (insert r {r})) s3"
    "recorded [(r, t), (i, u)] True s3" "bp_view ?h (bpm s3) r = Some e1" "bp_view ?h (bpm s3) i = Some e2"
    "nd_id (header_view e1) = nd_id q" "nd_parent (header_view e1) = INVALID_PAGE_ID"
    "nd_id (header_view e2) = i" "leaf_ok valid rank (leaf_view ?ks e2)" "0 < nd_size (header_view e2)"
    "onward E {r, i} s2 s3" "bp_upcoming (bpm s3) = int32 (i + 1)" "mMutex s3 = mMutex s2"
    "mRootLockedCnt s3 = mRootLockedCnt s2" "root_page_id s3 = root_page_id s2"
    using Split_leaf [OF s2(1,2,4) s2(5) [symmetric] q(1-3,5) up2 [symmetric] pids(1) new2 room2] .
  have on3: "onward E {r, i} s s3" using onward_trans [OF onward_mono [OF on2] s3(11)] by simp
  have at3: "(i, u) \<in> set [(r, t), (i, u)]" by simp
  note pu = held_pinned [OF s3(2) at3 s3(5)]
  have fq: "leaf_fits ?ks (leaf_view ?ks e2)" using leaf_view_fits pinned_read(6) [OF pu] by simp
  define k where "k = fst (nd_array (leaf_view ?ks e2) ! 0)"
  have ne: "0 < length (nd_array (leaf_view ?ks e2))" using s3(9,10) by (auto simp: leaf_ok_def)
  have k: "leaf_KeyAt (leaf_view ?ks e2) 0 = Inr k" using ne s3(10) by (simp add: leaf_KeyAt_def vec_at_def k_def)
  have lk: "length k = ?ks" using nth_mem [OF ne] fq unfolding k_def leaf_fits_def list_all_iff by blast
  have hdr3: "bp_view ?h (bpm s3) HEADER_PAGE_ID = Some hp" "index_name s3 = index_name s" "4 \<le> pool_size (bpm s3)"
    using on3 hp(1) room i(1,2) pids(3) by (auto simp: onward_def)
  have "i + 1 \<notin> {r, i}" using i(2) by simp
  then have new3: "\<not> (\<exists>t. bp_at ?h (bpm s3) (i + 1) t)" using on3 i(5) unfolding onward_def by blast
  obtain hp' where hp': "hp_UpdateRecord hp (index_name s3) (i + 1) = Inr (True, hp')" "hp_ok hp'"
    using header.change_law [OF hp(2,4) pids(6) hp(3)] hdr3(2) by auto
  have tx3: "transaction s3 \<noteq> None" using s3(3) by (auto simp: recorded_def split: option.splits)
  have j: "i + 1 = bp_upcoming (bpm s3)" using s3(12) pids(5) by simp
  obtain s4 e where s4: "InsertIntoParent E (Suc f) t k u s3 = Inr ((), s4)"
    "held E True [(r, t), (i, u)] (insert r (insert i (insert i (insert r {r})))) s4" "root_page_id s4 = i + 1"
    "bp_view ?h (bpm s4) (i + 1) = Some e" "nd_type (header_view e) = INTERNAL_PAGE" "nd_size (header_view e) = 1"
    "transaction s4 = transaction s3" "mMutex s4 = mMutex s3" "mRootLockedCnt s4 = mRootLockedCnt s3" "pool_size (bpm s4) = pool_size (bpm s3)"
    by (rule InsertIntoParent_root [OF s3(2) tx3 _ s3(4,5,7) _ s3(8) pids(2,1) i(1) pids(3) j i(3) pids(4) new3 hdr3(3) cap lk hdr3(1) hp'(1)
        hp_okD(1) [OF hp'(2)]]) (use s3(6) q(4) in auto)
  let ?X = "insert r (insert i (insert i (insert r {r})))" and ?H = "[(r, t), (i, u)]"
  have f4: "held E True (?H @ []) ?X s4" "recorded ?H True s4" "root_lock True s4" "True \<or> ?X \<inter> fst ` set ?H = {}"
    "(if True then ?X - fst ` set ?H else ?X) = {}"
    using s4(2,7-9) s3(3,13,14) s2(3) by (auto simp: recorded_def root_lock_def)
  have n4: "\<exists>t'. ?H = [(- 1, t')] \<and> pid_ok (- 1)" if "transaction s4 = None" using that tx3 s4(7) by simp
  obtain s5 where s5: "FreePagesInTransaction E True (- 1) s4 = Inr ((), s5)" "held E True [] {} s5" "root_free s5" "recorded [] True s5"
    "kept E s4 s5"
    using FreePages_held [OF f4(1-3) n4 f4(4), unfolded f4(5)] .
  have rest5: "at_rest E s5"
    using s5(2-4) held_none [of E True "{}" s5 False] by (auto simp: at_rest_def recorded_def split: option.splits)
  have big: "nd_max q < nd_size q" using q(2) by simp
  have "InsertIntoLeaf E (Suc f) key w s = Inr (True, s5)"
    using s1 s3(1) pinned_read(3) [OF pu] k s4(1) s5(1) big by (simp add: InsertIntoLeaf_def op_simps)
  then have "Insert E (Suc f) key w s = Inr (True, s5)"
    using root_locked(1,3) [OF rest] i(1) by (simp add: Insert_def IsEmpty_def op_simps r [symmetric])
  moreover have "root_page_id s5 = i + 1" "bp_view ?h (bpm s5) (i + 1) = Some e" "0 < pool_size (bpm s5)"
    using s5(5) s4(3,4,10) hdr3(3) by (simp_all add: kept_def)
  ultimately show ?thesis using rest5 i(3) s4(5,6) by auto
qed

end

section \<open>Example\<close>

text \<open>A root with two entries that has no room for a third, and a header page that records it.\<close>

definition full_leaf :: leaf_node where
  "full_leaf = sample_root\<lparr>nd_max := 2\<rparr>"

definition full_index :: "byte list \<Rightarrow> BPlusTree" where
  "full_index hp = (BPlusTreeIndex_make sample_meta
     (bp_init 4 ((dm_init (hp @ leaf_store blank full_leaf) [])\<lparr>next_page_id := 2\<rparr>)) 1)\<lparr>transaction := Some (txn_init 0)\<rparr>"

lemma full_index_ok:
  obtains hp where
    "index_ok word_cpp of_int 8 sample_meta 0 [([3], rid_make 3 0), ([5], rid_make 5 0)] (full_index hp)"
    "root_full (index_env word_cpp of_int 8 sample_meta) (full_index hp)" "transaction (full_index hp) \<noteq> None"
    "root_page_id (full_index hp) = 1"
proof -
  obtain hp where hp: "hp_ok hp" "map_of (hp_entries hp) = [[105] \<mapsto> 1]"
    using header.register_law [OF empty_header(1), of "[105]" 1] by (auto simp: name_ok_def empty_header)
  have len: "length hp = 512" using hp_okD(1) [OF hp(1)] by simp
  define d where "d = leaf_store blank full_leaf"
  have fl: "leaf_fits 8 full_leaf" "entries full_leaf = entries sample_root"
    "leaf_ok (key_valid word_cpp bigint_schema) (key_rank word_cpp bigint_schema) full_leaf"
    using sample_root_ok(1,2) by (simp_all add: full_leaf_def leaf_fits_def header_fits_def leaf_ok_def entries_def)
  have d: "leaf_view 8 d = full_leaf" "length d = 512"
    using leaf_view_store [OF _ fl(1), of blank] by (simp_all add: d_def blank_def)
  let ?dm = "(dm_init (hp @ d) [])\<lparr>next_page_id := 2\<rparr>" and ?s = "full_index hp"
  have dm: "dm_ok ?dm" "disk_page ?dm 1 = Some d" "disk_page ?dm 0 = Some hp"
    using d(2) len by (simp_all add: dm_ok_def dm_init_def disk_page_def bget_def)
  have l: "eh_lookup of_int (page_table (bp_init 4 ?dm)) = (\<lambda>_. None)" by (simp add: bp_init_def eh_init_lookup)
  have b: "bpm ?s = bp_init 4 ?dm" by (simp add: full_index_def BPlusTreeIndex_make_def d_def)
  have "bp_pool of_int (\<lambda>_. 0) {} (bp_init 4 ?dm)"
    using bp_init_good [of 4 ?dm] dm(1) l by (simp add: bp_pool_def bp_pins_def fun_eq_iff)
  then have rest: "at_rest (index_env word_cpp of_int 8 sample_meta) ?s"
    using b by (simp add: at_rest_def held_def recorded_def root_free_def)
      (simp add: full_index_def BPlusTreeIndex_make_def txn_init_def)
  have "bp_view of_int (bpm ?s) p = disk_page ?dm p" for p using l b by (simp add: bp_view_def) (simp add: bp_init_def)
  then have v: "bp_view of_int (bpm ?s) 1 = Some d" "bp_view of_int (bpm ?s) 0 = Some hp" using dm(2,3) by simp_all
  have hv: "nd_type (header_view d) = LEAF_PAGE" "nd_id (header_view d) = 1" "nd_size (header_view d) = 2"
    "nd_max (header_view d) = 2" "nd_parent (header_view d) = - 1"
    using arg_cong [OF d(1), of nd_type] arg_cong [OF d(1), of nd_id] arg_cong [OF d(1), of nd_size]
      arg_cong [OF d(1), of nd_max] arg_cong [OF d(1), of nd_parent]
    by (simp_all add: full_leaf_def sample_root_def)
  have page: "tree_page (bp_view of_int (bpm ?s)) 1 d LEAF_PAGE" using v hv by (simp add: tree_page_def pid_ok_def)
  have "tree_of (key_valid word_cpp bigint_schema) (key_rank word_cpp bigint_schema) 8 (bp_view of_int (bpm ?s))
      0 1 [1] [([3], rid_make 3 0), ([5], rid_make 5 0)]"
    using tree_of.leaf [OF page, of "key_valid word_cpp bigint_schema" "key_rank word_cpp bigint_schema" 8]
      sample_root_ok(3) fl(2,3) d(1) by simp
  moreover have f: "root_page_id ?s = 1" "transaction ?s \<noteq> None" "index_name ?s = [105]"
    by (simp_all add: full_index_def BPlusTreeIndex_make_def sample_meta_def)
  ultimately have "index_ok word_cpp of_int 8 sample_meta 0 [([3], rid_make 3 0), ([5], rid_make 5 0)] ?s"
    using rest by (auto simp: index_ok_def stores_def sample_meta_def)
  moreover have "bp_upcoming (bpm ?s) = 2" "pool_size (bpm ?s) = 4" using b by (simp_all add: bp_upcoming_def bp_init_def)
  then have "root_full (index_env word_cpp of_int 8 sample_meta) ?s"
    using v f hv hp l b by (simp add: root_full_def Let_def pid_ok_def internal_capacity_def leaf_capacity_def name_ok_def)
  ultimately show thesis using that f(1,2) by blast
qed

section \<open>Property\<close>

text \<open>
  C6. The first split makes an index unsearchable. When the root is a full leaf, \<^verbatim>\<open>Insert\<close> of a new key
  succeeds and leaves nothing pinned, latched or locked, but the new root that \<^verbatim>\<open>PopulateNewRoot\<close> fills has
  two children and the size 1: from then on every lookup stops at the assertion \<^verbatim>\<open>GetSize() > 1\<close> of
  \<^verbatim>\<open>Lookup\<close>, whatever the key.
\<close>

theorem root_split_unsearchable:
  assumes "index_ok F h ks im 0 m s" and "transaction s \<noteq> None" and "root_page_id s \<noteq> INVALID_PAGE_ID"
    and "key_valid F (im_key_schema im) key" and "length key = ks" and "in32 (rid_page v)" and "in32 (rid_slot v)"
    and "map_of m (key_rank F (im_key_schema im) key) = None" and "root_full (index_env F h ks im) s"
  shows "\<exists>s'. Insert (index_env F h ks im) (Suc fuel) key v s = Inr (True, s') \<and> at_rest (index_env F h ks im) s' \<and>
    (\<forall>fuel' key' result. GetValue (index_env F h ks im) (Suc fuel') key' result s' = Inl Assertion_Failed)"
proof -
  obtain ps where tree: "tree_of (key_valid F (im_key_schema im)) (key_rank F (im_key_schema im)) (key_size (index_env F h ks im))
      (bp_view (hash_fn (index_env F h ks im)) (bpm s)) 0 (root_page_id s) ps m"
    using assms(1,3) by (auto simp: index_ok_def stores_def)
  have rest: "at_rest (index_env F h ks im) s" and len: "length key = key_size (index_env F h ks im)"
    using assms(1,5) by (simp_all add: index_ok_def)
  from ix.Insert_splits_root [OF tree refl rest assms(2,4) len assms(6-9), of fuel] show ?thesis
    using GetValue_small_root by blast
qed

theorem root_split_unsearchable_witness:
  "\<exists>s s'. Insert (index_env word_cpp of_int 8 sample_meta) 1 (le_enc 8 4) (rid_make 4 0) s = Inr (True, s') \<and>
     GetValue (index_env word_cpp of_int 8 sample_meta) 1 (le_enc 8 5) [] s' = Inl Assertion_Failed"
proof -
  obtain hp where s: "index_ok word_cpp of_int 8 sample_meta 0 [([3], rid_make 3 0), ([5], rid_make 5 0)] (full_index hp)"
    "root_full (index_env word_cpp of_int 8 sample_meta) (full_index hp)" "transaction (full_index hp) \<noteq> None"
    "root_page_id (full_index hp) = 1"
    by (rule full_index_ok)
  have key: "key_valid word_cpp (im_key_schema sample_meta) (le_enc 8 4)"
    "map_of [([3], rid_make 3 0), ([5], rid_make 5 0)] (key_rank word_cpp (im_key_schema sample_meta) (le_enc 8 4)) = None"
    using bigint_key [OF bigint_small, of 4] by (simp_all add: sample_meta_def)
  have v: "in32 (rid_page (rid_make 4 0))" "in32 (rid_slot (rid_make 4 0))" "length (le_enc 8 4) = 8" "root_page_id (full_index hp) \<noteq> - 1"
    using s(4) by (simp_all add: rid_make_def)
  from root_split_unsearchable [OF s(1,3) v(4) key(1) v(3,1,2) key(2) s(2), of 0] obtain s' where
    "Insert (index_env word_cpp of_int 8 sample_meta) 1 (le_enc 8 4) (rid_make 4 0) (full_index hp) = Inr (True, s')"
    "GetValue (index_env word_cpp of_int 8 sample_meta) 1 (le_enc 8 5) [] s' = Inl Assertion_Failed"
    unfolding One_nat_def by blast
  then show ?thesis by blast
qed

end
