(* ===== verification/Pool_Client.thy ===== *)
theory Pool_Client
  imports Buffer_Pool
begin

text \<open>
  The buffer pool as its clients use it between operations: no page is pinned. In such a state every
  page with a content can be fetched, and fetching, changing and unpinning it leads back to such a
  state. The interface \<^verbatim>\<open>idle_cache\<close> extends \<^verbatim>\<open>page_cache\<close> by these laws; the pool provides it.
\<close>

locale idle_cache = page_cache +
  fixes rest :: "'a \<Rightarrow> bool"
    and address :: "int \<Rightarrow> bool"
  assumes rest_invar: "rest s \<Longrightarrow> invar s"
    and rest_fetchable: "rest s \<Longrightarrow> address pid \<Longrightarrow> view s pid = Some d \<Longrightarrow> fetchable s pid"
    and full_page: "rest s \<Longrightarrow> view s pid = Some d \<Longrightarrow> length d = PAGE_SIZE"
    and pinned_peek: "invar s \<Longrightarrow> pinned s pid tar \<Longrightarrow> view s pid = Some (peek s tar)"
    and poke_peek: "poke tar (peek s tar) s = s"
    and rest_unpin: "rest s \<Longrightarrow> fetch pid s = Inr (tar, s1) \<Longrightarrow> tar \<noteq> 0 \<Longrightarrow> invar s1 \<Longrightarrow>
      pinned s1 pid tar \<Longrightarrow> length d = PAGE_SIZE \<Longrightarrow> unpin pid b (poke tar d s1) = Inr (True, s2) \<Longrightarrow> invar s2 \<Longrightarrow> rest s2"
begin

lemma idle_read:
  assumes "rest s" and "address pid" and "view s pid = Some d"
  obtains tar s1 s2 where "fetch pid s = Inr (tar, s1)" and "tar \<noteq> 0" and "peek s1 tar = d"
    and "poke tar d s1 = s1" and "unpin pid False s1 = Inr (True, s2)" and "rest s2"
    and "\<forall>q x. view s q = Some x \<longrightarrow> view s2 q = Some x"
proof -
  obtain tar s1 where f: "fetch pid s = Inr (tar, s1)" "tar \<noteq> 0" "invar s1" "pinned s1 pid tar" "clean s1 tar"
    "peek s1 tar = d" "\<forall>q x. view s q = Some x \<longrightarrow> view s1 q = Some x"
    using fetch_law [OF rest_invar [OF assms(1)] rest_fetchable [OF assms] assms(3)] by blast
  obtain s2 where u: "unpin pid False s1 = Inr (True, s2)" "invar s2" "view s2 = view s1"
    using unpin_law [OF f(3,4), of False] f(5) by blast
  have p: "poke tar d s1 = s1" using poke_peek [of tar s1] f(6) by simp
  moreover have "rest s2" using rest_unpin [OF assms(1) f(1-4) full_page [OF assms(1,3)], of False s2] u p by simp
  ultimately show thesis using that f u by simp
qed

lemma idle_write:
  assumes "rest s" and "address pid" and "view s pid = Some d" and "length d' = PAGE_SIZE"
  obtains tar s1 s2 where "fetch pid s = Inr (tar, s1)" and "tar \<noteq> 0" and "peek s1 tar = d"
    and "peek (poke tar d' s1) tar = d'" and "unpin pid True (poke tar d' s1) = Inr (True, s2)" and "rest s2" and "view s2 pid = Some d'"
    and "\<forall>q x. q \<noteq> pid \<longrightarrow> view s q = Some x \<longrightarrow> view s2 q = Some x"
proof -
  obtain tar s1 where f: "fetch pid s = Inr (tar, s1)" "tar \<noteq> 0" "invar s1" "pinned s1 pid tar"
    "peek s1 tar = d" "\<forall>q x. view s q = Some x \<longrightarrow> view s1 q = Some x"
    using fetch_law [OF rest_invar [OF assms(1)] rest_fetchable [OF assms(1-3)] assms(3)] by blast
  note p = poke_law [OF f(3,4) assms(4)]
  then obtain s2 where u: "unpin pid True (poke tar d' s1) = Inr (True, s2)" "invar s2"
    "view s2 = view (poke tar d' s1)"
    using unpin_law [of "poke tar d' s1" pid tar True] by blast
  have "rest s2" using rest_unpin [OF assms(1) f(1-4) assms(4) u(1,2)] .
  moreover have "peek (poke tar d' s1) tar = d'" using pinned_peek [of "poke tar d' s1" pid tar] p by simp
  ultimately show thesis using that [OF f(1,2,5) _ u(1)] u(3) p f(6) by simp
qed

end

definition bp_rest :: "page_hash \<Rightarrow> BufferPoolManager \<Rightarrow> bool" where
  "bp_rest h s \<longleftrightarrow> bp_good h s \<and> 0 < pool_size s \<and> (\<forall>tar. bp_ptr s tar \<longrightarrow> pin_count (frame s tar) = 0)"

text \<open>Fetching pins one frame and changes no other; unpinning releases it.\<close>

lemma GetVictimPage_pages:
  assumes "bp_GetVictimPage s = Inr (tar, s')"
  shows "pages s' = pages s" and "pool_size s' = pool_size s"
proof -
  obtain t s1 where
    a: "(case free_list s of
          [] \<Rightarrow> if lru_Size (lru_replacer s) = 0 then ok (0, s)
                else bindE (lru_Victim (lru_replacer s)) (\<lambda>(v, r).
                       ok (case v of None \<Rightarrow> 0 | Some t \<Rightarrow> t, s\<lparr>lru_replacer := r\<rparr>))
        | tar # rest \<Rightarrow>
            bindE (bp_page s tar) (\<lambda>p.
            bindE (assertE (page_id p = INVALID_PAGE_ID)) (\<lambda>_.
              ok (tar, s\<lparr>free_list := rest\<rparr>)))) = Inr (t, s1)"
    and b: "(if t \<noteq> 0 then bindE (bp_page s1 t) (\<lambda>p. bindE (assertE (pin_count p = 0)) (\<lambda>_. ok (t, s1)))
        else ok (t, s1)) = Inr (tar, s')"
    using assms unfolding bp_GetVictimPage_def bindE_eq_Inr by (elim exE conjE, split prod.splits) blast
  have "s' = s1" using b by (auto simp: bindE_eq_Inr split: if_splits)
  moreover have "pages s1 = pages s \<and> pool_size s1 = pool_size s"
    using a by (cases "free_list s") (auto simp: bindE_eq_Inr split: if_splits)
  ultimately show "pages s' = pages s" "pool_size s' = pool_size s" by simp_all
qed

lemma bp_evict_pages:
  assumes "bp_evict h pid tar s = Inr s'"
  shows "pages s' = pages s" and "pool_size s' = pool_size s"
  using assms unfolding bp_evict_def bindE_eq_Inr by (auto simp: bindE_eq_Inr)

lemma FetchPage_pages:
  assumes "bp_FetchPage h pid s = Inr (tar, s')" and "tar \<noteq> 0"
  shows "\<exists>p. pages s' = (pages s)[tar - 1 := p] \<and> pool_size s' = pool_size s \<and>
    pin_count p \<in> {1, pin_count (pages s ! (tar - 1)) + 1}"
proof -
  obtain f where f: "eh_Find h (page_table s) pid = Inr f"
    using assms(1) by (auto simp: bp_FetchPage_def bindE_eq_Inr)
  show ?thesis
  proof (cases f)
    case None
    obtain s1 s2 p dm d where v: "bp_GetVictimPage s = Inr (tar, s1)" and e: "bp_evict h pid tar s1 = Inr s2"
      and s': "s' = bp_set (s2\<lparr>disk_manager := dm\<rparr>) tar
        (p\<lparr>page_data := d, pin_count := 1, is_dirty := False, page_id := pid\<rparr>)"
      using assms f None by (auto simp: bp_FetchPage_def bindE_eq_Inr split: if_splits)
    show ?thesis
      using GetVictimPage_pages [OF v] bp_evict_pages [OF e]
      by (intro exI [of _ "p\<lparr>page_data := d, pin_count := 1, is_dirty := False, page_id := pid\<rparr>"])
        (simp add: s' bp_set_def)
  next
    case (Some t)
    then obtain p r where "bp_page s t = Inr p" "t = tar"
      "s' = (bp_set s t (p\<lparr>pin_count := pin_count p + 1\<rparr>))\<lparr>lru_replacer := r\<rparr>"
      using assms f by (auto simp: bp_FetchPage_def bindE_eq_Inr)
    then show ?thesis using assms(2) by (auto simp: bp_set_def bp_page_def nth_res_eq_Inr)
  qed
qed

lemma UnpinPage_pages:
  assumes "bp_UnpinPage h pid b s = Inr (True, s')"
  shows "\<exists>tar p. eh_Find h (page_table s) pid = Inr (Some tar) \<and> pages s' = (pages s)[tar - 1 := p] \<and>
    pool_size s' = pool_size s \<and> pin_count p = pin_count (pages s ! (tar - 1)) - 1"
proof -
  obtain f where f: "eh_Find h (page_table s) pid = Inr f"
    using assms(1) by (auto simp: bp_UnpinPage_def bindE_eq_Inr)
  then obtain t where t: "f = Some t" using assms by (cases f) (auto simp: bp_UnpinPage_def)
  obtain p where p: "bp_page s t = Inr p" using assms f t by (auto simp: bp_UnpinPage_def bindE_eq_Inr)
  define q where "q = p\<lparr>is_dirty := is_dirty p \<or> b, pin_count := pin_count p - 1\<rparr>"
  have "pages s' = (pages s)[t - 1 := q] \<and> pool_size s' = pool_size s"
    using assms f t p by (auto simp: bp_UnpinPage_def bindE_eq_Inr Let_def bp_set_def q_def split: if_splits)
  then show ?thesis using f t p by (auto simp: q_def bp_page_def nth_res_eq_Inr split: if_splits)
qed

lemma rest_after:
  assumes rest: "bp_rest h s" and f: "bp_FetchPage h pid s = Inr (tar, s1)" and t: "tar \<noteq> 0"
    and good1: "bp_good h s1" and pin1: "bp_pinned h s1 pid tar"
    and u: "bp_UnpinPage h pid b (bp_poke tar d s1) = Inr (True, s2)" and good: "bp_good h s2"
  shows "bp_rest h s2"
proof -
  have sz: "0 < pool_size s" "length (pages s) = pool_size s"
    and idle: "\<And>t. bp_ptr s t \<Longrightarrow> pin_count (frame s t) = 0"
    using rest bp_good_shape [of h s] by (auto simp: bp_rest_def bp_shape_def)
  obtain p where p: "pages s1 = (pages s)[tar - 1 := p]" "pool_size s1 = pool_size s"
    "pin_count p \<in> {1, pin_count (pages s ! (tar - 1)) + 1}"
    using FetchPage_pages [OF f t] by blast
  have "eh_ok h (page_table s1)" using good1 bp_good_shape [OF good1] shape_table by blast
  then have "eh_Find h (page_table (bp_poke tar d s1)) pid = Inr (Some tar)"
    using eh_Find_correct [of h "page_table s1" pid] pin1 by (simp add: bp_pinned_def bp_poke_def bp_set_def)
  then obtain q where q: "pages s2 = (pages (bp_poke tar d s1))[tar - 1 := q]"
    "pool_size s2 = pool_size s" "pin_count q = pin_count (pages (bp_poke tar d s1) ! (tar - 1)) - 1"
    using UnpinPage_pages [OF u] p(2) by (auto simp: bp_poke_def bp_set_def)
  have before: "pin_count (pages s ! i) = 0" if "i < pool_size s" for i
    using idle [of "Suc i"] that by (simp add: bp_ptr_def frame_def)
  have mid: "pin_count (pages (bp_poke tar d s1) ! i) = (if i = tar - 1 then 1 else 0)" if "i < pool_size s" for i
    using that p sz before by (auto simp: bp_poke_def bp_set_def nth_list_update)
  have "length (pages (bp_poke tar d s1)) = pool_size s" using p sz by (simp add: bp_poke_def bp_set_def)
  then have "pin_count (pages s2 ! i) = 0" if "i < pool_size s" for i
    using q mid that by (cases "i = tar - 1") (auto simp: nth_list_update)
  then show ?thesis
    using good sz q(2) by (auto simp: bp_rest_def bp_ptr_def frame_def)
qed

lemma bp_poke_peek: "bp_poke tar (bp_peek s tar) s = s"
  by (simp add: bp_poke_def bp_peek_def bp_set_def)

lemma bp_view_full:
  assumes "bp_good h s" and "bp_view h s pid = Some d"
  shows "length d = PAGE_SIZE"
proof -
  obtain xs where sh: "bp_shape h s xs" using bp_good_shape [OF assms(1)] by blast
  show "length d = PAGE_SIZE"
  proof (cases "eh_lookup h (page_table s) pid")
    case None
    then have "disk_page (disk_manager s) pid = Some d" using assms(2) by (simp add: bp_view_def)
    then show ?thesis by (rule length_disk_page)
  next
    case (Some tar)
    then have "bp_ptr s tar" "page_id (frame s tar) = pid" "pid \<noteq> INVALID_PAGE_ID"
      using shape_lookup [OF sh] by auto
    then show ?thesis
      using shape_frame [OF sh, of tar] Some assms(2) by (auto simp: frame_ok_def bp_view_def)
  qed
qed

interpretation pool: idle_cache "bp_FetchPage h" "bp_UnpinPage h" bp_peek bp_poke "bp_good h"
  "bp_fetchable h" "bp_pinned h" bp_clean "bp_view h" "bp_rest h" pid_ok for h
proof unfold_locales
  show "bp_good h s" if "bp_rest h s" for s using that by (simp add: bp_rest_def)
  show "length d = PAGE_SIZE" if "bp_rest h s" "bp_view h s pid = Some d" for s pid d
    using bp_view_full [of h s pid d] that by (simp add: bp_rest_def)
  show "bp_view h s pid = Some (bp_peek s tar)" if "bp_good h s" "bp_pinned h s pid tar" for s pid tar
    using that by (simp add: bp_pinned_def bp_view_def bp_peek_frame)
  show "bp_fetchable h s pid" if "bp_rest h s" "pid_ok pid" "bp_view h s pid = Some d" for s pid d
  proof -
    have "bp_ptr s 1" using that(1) by (simp add: bp_rest_def bp_ptr_def)
    then have "bp_avail s" using that(1) by (auto simp: bp_rest_def bp_avail_def)
    then show ?thesis using that(2) by (simp add: bp_fetchable_def)
  qed
qed (rule bp_poke_peek rest_after; assumption)+

end
