(* ===== verification/Table_Heap.thy ===== *)
theory Table_Heap
  imports Pool_Client Table_Page_Spec
begin

text \<open>
  Tables (\<^verbatim>\<open>table/table_heap.cpp\<close>): a list of table pages in the buffer pool, linked by their page
  numbers; their iterators (\<^verbatim>\<open>table/table_iterator.cpp\<close>) and the transaction manager
  (\<^verbatim>\<open>concurrency/transaction_manager.cpp\<close>), which applies or undoes what a transaction wrote. The state
  is the buffer pool, and an operation fetches a page, runs the operation of the table page on the
  bytes of its frame and unpins it. \<^verbatim>\<open>lg\<close> is \<^verbatim>\<open>ENABLE_LOGGING\<close>, \<^verbatim>\<open>tbl\<close> the number of the table in write
  records. Page latches are not represented: an operation runs alone.
\<close>

section \<open>Operations of a table\<close>

definition txn_write :: "Transaction \<Rightarrow> RID \<Rightarrow> WType \<Rightarrow> Tuple \<Rightarrow> nat \<Rightarrow> Transaction" where
  "txn_write txn rid ty old tbl =
     txn\<lparr>write_set := write_set txn @ [\<lparr>wr_rid = rid, wr_type = ty, wr_tuple = old, wr_table = tbl\<rparr>]\<rparr>"

text \<open>The constructor that creates a table; the result is its first page.\<close>

definition th_create :: "page_hash \<Rightarrow> BufferPoolManager \<Rightarrow> (int \<times> BufferPoolManager) res" where
  "th_create h s =
     bindE (bp_NewPage h s) (\<lambda>(ptr, pid, s1).
     bindE (assertE (ptr \<noteq> 0)) (\<lambda>_.
     case pid of None \<Rightarrow> fail Null_Deref | Some first_page_id \<Rightarrow>
       bindE (tp_Init (bp_peek s1 ptr) first_page_id (int PAGE_SIZE) (- 1)) (\<lambda>d.
       bindE (bp_UnpinPage h first_page_id True (bp_poke ptr d s1)) (\<lambda>(_, s2).
         ok (first_page_id, s2)))))"

text \<open>
  The loop of \<^verbatim>\<open>InsertTuple\<close> at the page behind \<^verbatim>\<open>ptr\<close>. It follows the links of the pages, which need
  not end in a corrupted file: the fuel bounds the number of pages visited.
\<close>

fun th_insert_loop ::
  "page_hash \<Rightarrow> bool \<Rightarrow> LockManager \<Rightarrow> Tuple \<Rightarrow> nat \<Rightarrow> nat \<Rightarrow> RID \<Rightarrow> Transaction \<Rightarrow> BufferPoolManager \<Rightarrow>
     (bool \<times> RID \<times> Transaction \<times> BufferPoolManager) res" where
  "th_insert_loop h lg lm t 0 ptr rid txn s = fail Out_Of_Fuel"
| "th_insert_loop h lg lm t (Suc fuel) ptr rid txn s =
     bindE (tp_InsertTuple lg lm (bp_peek s ptr) t rid txn) (\<lambda>(inserted, rid1, d).
     let s1 = bp_poke ptr d s in
     bindE (tp_GetPageId (bp_peek s1 ptr)) (\<lambda>cur_id.
     if inserted then
       bindE (bp_UnpinPage h cur_id True s1) (\<lambda>(_, s2). ok (True, rid1, txn, s2))
     else
       bindE (tp_GetNextPageId (bp_peek s1 ptr)) (\<lambda>next_page_id.
       if next_page_id \<noteq> INVALID_PAGE_ID then
         bindE (bp_UnpinPage h cur_id False s1) (\<lambda>(_, s2).
         bindE (bp_FetchPage h next_page_id s2) (\<lambda>(ptr', s3).
         if ptr' = 0 then fail Null_Deref
         else th_insert_loop h lg lm t fuel ptr' rid1 txn s3))
       else
         bindE (bp_NewPage h s1) (\<lambda>(ptr', pid, s2).
         case pid of
           None \<Rightarrow>
             bindE (bp_UnpinPage h cur_id False s2) (\<lambda>(_, s3).
               ok (False, rid1, txn_SetState txn ABORTED, s3))
         | Some new_id \<Rightarrow>
             bindE (tp_SetNextPageId (bp_peek s2 ptr) new_id) (\<lambda>dc.
             let s3 = bp_poke ptr dc s2 in
             bindE (tp_Init (bp_peek s3 ptr') new_id (int PAGE_SIZE) cur_id) (\<lambda>dn.
             let s4 = bp_poke ptr' dn s3 in
             bindE (bp_UnpinPage h cur_id True s4) (\<lambda>(_, s5).
               th_insert_loop h lg lm t fuel ptr' rid1 txn s5)))))))"

definition th_InsertTuple ::
  "page_hash \<Rightarrow> bool \<Rightarrow> LockManager \<Rightarrow> nat \<Rightarrow> int \<Rightarrow> nat \<Rightarrow> Tuple \<Rightarrow> RID \<Rightarrow> Transaction \<Rightarrow>
     BufferPoolManager \<Rightarrow> (bool \<times> RID \<times> Transaction \<times> BufferPoolManager) res" where
  "th_InsertTuple h lg lm tbl first_page_id fuel t rid txn s =
     (if tup_size t + 32 > int PAGE_SIZE then ok (False, rid, txn_SetState txn ABORTED, s)
      else
        bindE (bp_FetchPage h first_page_id s) (\<lambda>(ptr, s1).
        if ptr = 0 then ok (False, rid, txn_SetState txn ABORTED, s1)
        else
          bindE (th_insert_loop h lg lm t fuel ptr rid txn s1) (\<lambda>(done, rid1, txn1, s2).
          if done then ok (True, rid1, txn_write txn1 rid1 INSERT tuple_dummy tbl, s2)
          else ok (False, rid1, txn1, s2))))"

definition th_MarkDelete ::
  "page_hash \<Rightarrow> bool \<Rightarrow> LockManager \<Rightarrow> nat \<Rightarrow> RID \<Rightarrow> Transaction \<Rightarrow> BufferPoolManager \<Rightarrow>
     (bool \<times> Transaction \<times> BufferPoolManager) res" where
  "th_MarkDelete h lg lm tbl rid txn s =
     bindE (bp_FetchPage h (rid_page rid) s) (\<lambda>(ptr, s1).
     if ptr = 0 then ok (False, txn_SetState txn ABORTED, s1)
     else
       bindE (tp_MarkDelete lg lm (bp_peek s1 ptr) rid txn) (\<lambda>(_, d, txn1).
       let s2 = bp_poke ptr d s1 in
       bindE (tp_GetPageId (bp_peek s2 ptr)) (\<lambda>pid.
       bindE (bp_UnpinPage h pid True s2) (\<lambda>(_, s3).
         ok (True, txn_write txn1 rid DELETE tuple_dummy tbl, s3)))))"

definition th_UpdateTuple ::
  "page_hash \<Rightarrow> bool \<Rightarrow> LockManager \<Rightarrow> nat \<Rightarrow> Tuple \<Rightarrow> RID \<Rightarrow> Transaction \<Rightarrow> BufferPoolManager \<Rightarrow>
     (bool \<times> Transaction \<times> BufferPoolManager) res" where
  "th_UpdateTuple h lg lm tbl t rid txn s =
     bindE (bp_FetchPage h (rid_page rid) s) (\<lambda>(ptr, s1).
     if ptr = 0 then ok (False, txn_SetState txn ABORTED, s1)
     else
       bindE (tp_UpdateTuple lg lm (bp_peek s1 ptr) t tuple_dummy rid txn) (\<lambda>(is_updated, old_tuple, d, txn1).
       let s2 = bp_poke ptr d s1 in
       bindE (tp_GetPageId (bp_peek s2 ptr)) (\<lambda>pid.
       bindE (bp_UnpinPage h pid is_updated s2) (\<lambda>(_, s3).
         ok (is_updated,
             if is_updated \<and> txn_state txn1 \<noteq> ABORTED then txn_write txn1 rid UPDATE old_tuple tbl else txn1,
             s3)))))"

text \<open>The call \<^verbatim>\<open>lock_manager_->Unlock(txn, rid)\<close> is one of the stubs and changes nothing.\<close>

definition th_ApplyDelete ::
  "page_hash \<Rightarrow> bool \<Rightarrow> LockManager \<Rightarrow> RID \<Rightarrow> Transaction \<Rightarrow> BufferPoolManager \<Rightarrow> BufferPoolManager res" where
  "th_ApplyDelete h lg lm rid txn s =
     bindE (bp_FetchPage h (rid_page rid) s) (\<lambda>(ptr, s1).
     bindE (assertE (ptr \<noteq> 0)) (\<lambda>_.
     bindE (tp_ApplyDelete lg (bp_peek s1 ptr) rid txn) (\<lambda>d.
     let unlocked = Unlock lm txn rid; s2 = bp_poke ptr d s1 in
     bindE (tp_GetPageId (bp_peek s2 ptr)) (\<lambda>pid.
     bindE (bp_UnpinPage h pid True s2) (\<lambda>(_, s3). ok s3)))))"

definition th_RollbackDelete ::
  "page_hash \<Rightarrow> bool \<Rightarrow> RID \<Rightarrow> Transaction \<Rightarrow> BufferPoolManager \<Rightarrow> BufferPoolManager res" where
  "th_RollbackDelete h lg rid txn s =
     bindE (bp_FetchPage h (rid_page rid) s) (\<lambda>(ptr, s1).
     bindE (assertE (ptr \<noteq> 0)) (\<lambda>_.
     bindE (tp_RollbackDelete lg (bp_peek s1 ptr) rid txn) (\<lambda>d.
     let s2 = bp_poke ptr d s1 in
     bindE (tp_GetPageId (bp_peek s2 ptr)) (\<lambda>pid.
     bindE (bp_UnpinPage h pid True s2) (\<lambda>(_, s3). ok s3)))))"

definition th_GetTuple ::
  "page_hash \<Rightarrow> bool \<Rightarrow> LockManager \<Rightarrow> RID \<Rightarrow> Tuple \<Rightarrow> Transaction \<Rightarrow> BufferPoolManager \<Rightarrow>
     (bool \<times> Tuple \<times> Transaction \<times> BufferPoolManager) res" where
  "th_GetTuple h lg lm rid t txn s =
     bindE (bp_FetchPage h (rid_page rid) s) (\<lambda>(ptr, s1).
     if ptr = 0 then ok (False, t, txn_SetState txn ABORTED, s1)
     else
       bindE (tp_GetTuple lg lm (bp_peek s1 ptr) rid t txn) (\<lambda>(res, t1, txn1).
       bindE (bp_UnpinPage h (rid_page rid) False s1) (\<lambda>(_, s2). ok (res, t1, txn1, s2))))"

definition DeleteTableHeap :: bool where
  "DeleteTableHeap = True"

section \<open>Iterators\<close>

text \<open>The end of the iteration, and the comparison of iterators, which is that of packed identifiers.\<close>

definition ti_end :: RID where
  "ti_end = rid_make INVALID_PAGE_ID (- 1)"

definition ti_eq :: "RID \<Rightarrow> RID \<Rightarrow> bool" where
  "ti_eq a b \<longleftrightarrow> rid_Get a = rid_Get b"

text \<open>
  An iterator is its tuple with the identifier in it. \<^verbatim>\<open>Tuple(rid)\<close> leaves size and data
  uninitialised; here they are empty until \<^verbatim>\<open>GetTuple\<close> fills them.
\<close>

definition ti_make ::
  "page_hash \<Rightarrow> bool \<Rightarrow> LockManager \<Rightarrow> RID \<Rightarrow> Transaction \<Rightarrow> BufferPoolManager \<Rightarrow>
     (Tuple \<times> Transaction \<times> BufferPoolManager) res" where
  "ti_make h lg lm rid txn s =
     (let t = tuple_dummy\<lparr>tup_rid := rid\<rparr> in
      if rid_page rid \<noteq> INVALID_PAGE_ID
      then bindE (th_GetTuple h lg lm rid t txn s) (\<lambda>(_, t1, txn1, s1). ok (t1, txn1, s1))
      else ok (t, txn, s))"

definition ti_deref :: "Tuple \<Rightarrow> Tuple res" where
  "ti_deref t = bindE (assertE (\<not> ti_eq (tup_rid t) ti_end)) (\<lambda>_. ok t)"

definition th_begin ::
  "page_hash \<Rightarrow> bool \<Rightarrow> LockManager \<Rightarrow> int \<Rightarrow> Transaction \<Rightarrow> BufferPoolManager \<Rightarrow>
     (Tuple \<times> Transaction \<times> BufferPoolManager) res" where
  "th_begin h lg lm first_page_id txn s =
     bindE (bp_FetchPage h first_page_id s) (\<lambda>(ptr, s1).
     if ptr = 0 then fail Null_Deref
     else
       bindE (tp_GetFirstTupleRid (bp_peek s1 ptr) rid_invalid) (\<lambda>(_, rid).
       bindE (bp_UnpinPage h first_page_id False s1) (\<lambda>(_, s2). ti_make h lg lm rid txn s2)))"

fun ti_next_page ::
  "page_hash \<Rightarrow> nat \<Rightarrow> nat \<Rightarrow> RID \<Rightarrow> BufferPoolManager \<Rightarrow> (nat \<times> RID \<times> BufferPoolManager) res" where
  "ti_next_page h 0 ptr rid s = fail Out_Of_Fuel"
| "ti_next_page h (Suc fuel) ptr rid s =
     bindE (tp_GetNextPageId (bp_peek s ptr)) (\<lambda>next_id.
     if next_id = INVALID_PAGE_ID then ok (ptr, rid, s)
     else
       bindE (bp_FetchPage h next_id s) (\<lambda>(ptr', s1).
       bindE (tp_GetPageId (bp_peek s1 ptr)) (\<lambda>cur_id.
       bindE (bp_UnpinPage h cur_id False s1) (\<lambda>(_, s2).
       if ptr' = 0 then fail Null_Deref
       else
         bindE (tp_GetFirstTupleRid (bp_peek s2 ptr') rid) (\<lambda>(found, rid1).
         if found then ok (ptr', rid1, s2) else ti_next_page h fuel ptr' rid1 s2)))))"

definition ti_next ::
  "page_hash \<Rightarrow> bool \<Rightarrow> LockManager \<Rightarrow> nat \<Rightarrow> Tuple \<Rightarrow> Transaction \<Rightarrow> BufferPoolManager \<Rightarrow>
     (Tuple \<times> Transaction \<times> BufferPoolManager) res" where
  "ti_next h lg lm fuel t txn s =
     bindE (bp_FetchPage h (rid_page (tup_rid t)) s) (\<lambda>(ptr, s1).
     if ptr = 0 then fail Null_Deref
     else
       bindE (tp_GetNextTupleRid (bp_peek s1 ptr) (tup_rid t) rid_invalid) (\<lambda>(found, rid).
       bindE (if found then ok (ptr, rid, s1) else ti_next_page h fuel ptr rid s1) (\<lambda>(ptr1, rid1, s2).
       let t1 = t\<lparr>tup_rid := rid1\<rparr> in
       bindE (if \<not> ti_eq rid1 ti_end
              then bindE (th_GetTuple h lg lm rid1 t1 txn s2) (\<lambda>(_, t2, txn2, s3). ok (t2, txn2, s3))
              else ok (t1, txn, s2)) (\<lambda>(t2, txn2, s3).
       bindE (tp_GetPageId (bp_peek s3 ptr1)) (\<lambda>cur_id.
       bindE (bp_UnpinPage h cur_id False s3) (\<lambda>(_, s4). ok (t2, txn2, s4)))))))"

section \<open>The transaction manager\<close>

text \<open>The next transaction number is an atomic \<^verbatim>\<open>int32_t\<close>, whose increment wraps.\<close>

record TransactionManager =
  next_txn_id :: int

definition tm_init :: TransactionManager where
  "tm_init = \<lparr>next_txn_id = 0\<rparr>"

definition tm_Begin :: "TransactionManager \<Rightarrow> Transaction \<times> TransactionManager" where
  "tm_Begin m = (txn_init (next_txn_id m), m\<lparr>next_txn_id := int32 (next_txn_id m + 1)\<rparr>)"

definition pop_back :: "Transaction \<Rightarrow> Transaction" where
  "pop_back txn = txn\<lparr>write_set := butlast (write_set txn)\<rparr>"

text \<open>
  The loops that empty the write set from its back. Each iteration removes one record; an iteration
  of the second loop could only run forever if undoing an update recorded a write, so the fuel is
  the number of records.
\<close>

fun tm_commit_loop ::
  "page_hash \<Rightarrow> bool \<Rightarrow> LockManager \<Rightarrow> nat \<Rightarrow> Transaction \<Rightarrow> BufferPoolManager \<Rightarrow>
     (Transaction \<times> BufferPoolManager) res" where
  "tm_commit_loop h lg lm fuel txn s =
     (if write_set txn = [] then ok (txn, s)
      else
        (case fuel of 0 \<Rightarrow> fail Out_Of_Fuel | Suc n \<Rightarrow>
          (let item = last (write_set txn) in
           bindE (if wr_type item = DELETE then th_ApplyDelete h lg lm (wr_rid item) txn s else ok s) (\<lambda>s1.
             tm_commit_loop h lg lm n (pop_back txn) s1))))"

text \<open>Releasing the locks calls the stub \<^verbatim>\<open>Unlock\<close> for every locked identifier, which changes nothing.\<close>

definition tm_Commit ::
  "page_hash \<Rightarrow> bool \<Rightarrow> LockManager \<Rightarrow> Transaction \<Rightarrow> BufferPoolManager \<Rightarrow>
     (Transaction \<times> BufferPoolManager) res" where
  "tm_Commit h lg lm txn s =
     tm_commit_loop h lg lm (length (write_set txn)) (txn_SetState txn COMMITTED) s"

fun tm_abort_loop ::
  "page_hash \<Rightarrow> bool \<Rightarrow> LockManager \<Rightarrow> nat \<Rightarrow> Transaction \<Rightarrow> BufferPoolManager \<Rightarrow>
     (Transaction \<times> BufferPoolManager) res" where
  "tm_abort_loop h lg lm fuel txn s =
     (if write_set txn = [] then ok (txn, s)
      else
        (case fuel of 0 \<Rightarrow> fail Out_Of_Fuel | Suc n \<Rightarrow>
          (let item = last (write_set txn) in
           bindE (case wr_type item of
                    DELETE \<Rightarrow> bindE (th_RollbackDelete h lg (wr_rid item) txn s) (\<lambda>s1. ok (txn, s1))
                  | INSERT \<Rightarrow> bindE (th_ApplyDelete h lg lm (wr_rid item) txn s) (\<lambda>s1. ok (txn, s1))
                  | UPDATE \<Rightarrow>
                      bindE (th_UpdateTuple h lg lm (wr_table item) (wr_tuple item) (wr_rid item) txn s)
                        (\<lambda>(_, txn1, s1). ok (txn1, s1))) (\<lambda>(txn1, s1).
             tm_abort_loop h lg lm n (pop_back txn1) s1))))"

definition tm_Abort ::
  "page_hash \<Rightarrow> bool \<Rightarrow> LockManager \<Rightarrow> Transaction \<Rightarrow> BufferPoolManager \<Rightarrow>
     (Transaction \<times> BufferPoolManager) res" where
  "tm_Abort h lg lm txn s =
     tm_abort_loop h lg lm (length (write_set txn)) (txn_SetState txn ABORTED) s"

declare tm_commit_loop.simps [simp del] tm_abort_loop.simps [simp del]

end
