(* ===== verification/Heap_Spec.thy ===== *)
theory Heap_Spec
  imports Table_Heap
begin

text \<open>
  What a table promises: its content is a map from record identifiers to stored tuples, and every
  operation is the update of this map it stands for, through the buffer pool and whatever pages it
  evicts. Undoing a transaction restores the map.
\<close>

section \<open>The content of a table\<close>

text \<open>
  \<open>th_ok h ps s\<close>: no page is pinned and the pages \<open>ps\<close> are well-formed table pages that carry their
  own numbers. \<open>th_content\<close> is the slot behind an identifier: the size field (negative for a tuple
  marked as deleted) and the bytes.
\<close>

definition th_ok :: "page_hash \<Rightarrow> int list \<Rightarrow> BufferPoolManager \<Rightarrow> bool" where
  "th_ok h ps s \<longleftrightarrow> bp_rest h s \<and>
     (\<forall>pid \<in> set ps. pid_ok pid \<and>
        (case bp_view h s pid of None \<Rightarrow> False | Some d \<Rightarrow> tp_wf d \<and> fst (tp_links d) = pid))"

definition th_content :: "page_hash \<Rightarrow> int list \<Rightarrow> BufferPoolManager \<Rightarrow> RID \<Rightarrow> slot" where
  "th_content h ps s rid =
     (if rid_page rid \<in> set ps then
        (case bp_view h s (rid_page rid) of None \<Rightarrow> None | Some d \<Rightarrow>
           if 0 \<le> rid_slot rid \<and> nat (rid_slot rid) < tp_n d then tp_slots d ! nat (rid_slot rid) else None)
      else None)"

text \<open>The page a table page is linked to.\<close>

definition page_next :: "page_hash \<Rightarrow> BufferPoolManager \<Rightarrow> int \<Rightarrow> int" where
  "page_next h s p = (case bp_view h s p of None \<Rightarrow> INVALID_PAGE_ID | Some d \<Rightarrow> snd (snd (tp_links d)))"

lemma th_ok_page:
  assumes "th_ok h ps s" and "pid \<in> set ps"
  obtains d where "bp_view h s pid = Some d" and "tp_wf d" and "fst (tp_links d) = pid" and "pid_ok pid"
  using assms by (force simp: th_ok_def split: option.splits)

lemma th_ok_rest: "th_ok h ps s \<Longrightarrow> bp_rest h s"
  by (simp add: th_ok_def)

lemma th_content_at:
  assumes "th_ok h ps s" and "th_content h ps s rid = Some (sz, bs)"
  obtains d k where "rid_page rid \<in> set ps" and "bp_view h s (rid_page rid) = Some d" and "tp_wf d"
    and "fst (tp_links d) = rid_page rid" and "pid_ok (rid_page rid)" and "rid_slot rid = int k" and "k < tp_n d"
    and "tp_slot d k = Some (sz, bs)"
proof -
  have p: "rid_page rid \<in> set ps" using assms(2) by (auto simp: th_content_def split: if_splits)
  obtain d where d: "bp_view h s (rid_page rid) = Some d" "tp_wf d" "fst (tp_links d) = rid_page rid" "pid_ok (rid_page rid)"
    using th_ok_page [OF assms(1) p] .
  have "0 \<le> rid_slot rid" "nat (rid_slot rid) < tp_n d" "tp_slots d ! nat (rid_slot rid) = Some (sz, bs)"
    using assms(2) p d(1) by (auto simp: th_content_def split: if_splits)
  then show thesis using that [OF p d, of "nat (rid_slot rid)"] by (simp add: tp_slots_nth)
qed

text \<open>Replacing one page by a page with the same links keeps the table; its content changes there.\<close>

lemma th_ok_update:
  assumes "th_ok h ps s" and "bp_rest h s'" and "bp_view h s' pid = Some d'" and "tp_wf d'" and "fst (tp_links d') = pid"
    and "\<forall>q x. q \<noteq> pid \<longrightarrow> bp_view h s q = Some x \<longrightarrow> bp_view h s' q = Some x"
  shows "th_ok h ps s'"
  unfolding th_ok_def
proof (intro conjI ballI)
  fix q assume q: "q \<in> set ps"
  obtain d where d: "bp_view h s q = Some d" "tp_wf d" "fst (tp_links d) = q" "pid_ok q"
    using th_ok_page [OF assms(1) q] .
  show "pid_ok q" by (fact d)
  show "case bp_view h s' q of None \<Rightarrow> False | Some d \<Rightarrow> tp_wf d \<and> fst (tp_links d) = q"
    using assms d by (cases "q = pid") auto
qed (fact assms)

lemma th_content_update:
  assumes "th_ok h ps s" and "rid_page rid \<in> set ps" and "bp_view h s (rid_page rid) = Some d"
    and "bp_view h s' (rid_page rid) = Some d'" and "rid_slot rid = int k"
    and "k < tp_n d \<and> tp_slots d' = (tp_slots d)[k := x] \<or> k = tp_n d \<and> tp_slots d' = tp_slots d @ [x]"
    and "\<forall>q x. q \<noteq> rid_page rid \<longrightarrow> bp_view h s q = Some x \<longrightarrow> bp_view h s' q = Some x"
  shows "th_content h ps s' = (th_content h ps s)(rid := x)"
proof
  fix r :: RID
  have n: "tp_n d' = (if k = tp_n d then Suc (tp_n d) else tp_n d)"
    using assms(6) by (auto dest: arg_cong [of _ _ length])
  have nth: "tp_slots d' ! i = (if i = k then x else tp_slots d ! i)" if "i < tp_n d'" for i
    using assms(6) that n by (auto simp: nth_append nth_list_update less_Suc_eq)
  have eq: "r = rid \<longleftrightarrow> rid_page r = rid_page rid \<and> rid_slot r = int k"
    using assms(5) by (cases r, cases rid) auto
  show "th_content h ps s' r = ((th_content h ps s)(rid := x)) r"
  proof (cases "rid_page r = rid_page rid")
    case True
    then show ?thesis
      using assms(2-6) n nth eq by (auto simp: th_content_def)
  next
    case False
    then have "rid_page r \<in> set ps \<Longrightarrow> bp_view h s' (rid_page r) = bp_view h s (rid_page r)"
      using assms(7) th_ok_page [OF assms(1), of "rid_page r"] by metis
    then show ?thesis using False eq by (simp add: th_content_def)
  qed
qed

text \<open>Pages that do not belong to a table keep their content.\<close>

definition others_kept :: "page_hash \<Rightarrow> int list \<Rightarrow> BufferPoolManager \<Rightarrow> BufferPoolManager \<Rightarrow> bool" where
  "others_kept h ps s s' \<longleftrightarrow> (\<forall>q x. q \<notin> set ps \<longrightarrow> bp_view h s q = Some x \<longrightarrow> bp_view h s' q = Some x)"

lemma others_kept_trans: "others_kept h ps s s1 \<Longrightarrow> others_kept h ps s1 s2 \<Longrightarrow> others_kept h ps s s2"
  by (simp add: others_kept_def)

section \<open>Operations\<close>

text \<open>The shape of every operation that writes a page: fetch, change, unpin as dirty.\<close>

lemma th_write_page:
  assumes "th_ok h ps s" and "rid_page rid \<in> set ps" and "bp_view h s (rid_page rid) = Some d"
    and "tp_wf d" and "tp_wf d'" and "tp_links d' = tp_links d" and "rid_slot rid = int k"
    and "k < tp_n d \<and> tp_slots d' = (tp_slots d)[k := x] \<or> k = tp_n d \<and> tp_slots d' = tp_slots d @ [x]"
  obtains ptr s1 s2 where "bp_FetchPage h (rid_page rid) s = Inr (ptr, s1)" and "ptr \<noteq> 0" and "bp_peek s1 ptr = d"
    and "bp_peek (bp_poke ptr d' s1) ptr = d'" and "tp_GetPageId d' = Inr (rid_page rid)"
    and "bp_UnpinPage h (rid_page rid) True (bp_poke ptr d' s1) = Inr (True, s2)" and "th_ok h ps s2"
    and "th_content h ps s2 = (th_content h ps s)(rid := x)"
    and "\<forall>q \<in> set ps. page_next h s2 q = page_next h s q" and "others_kept h ps s s2"
proof -
  have pid: "fst (tp_links d) = rid_page rid" "pid_ok (rid_page rid)"
    using th_ok_page [OF assms(1,2)] assms(3) by auto
  obtain ptr s1 s2 where w: "bp_FetchPage h (rid_page rid) s = Inr (ptr, s1)" "ptr \<noteq> 0" "bp_peek s1 ptr = d"
    "bp_peek (bp_poke ptr d' s1) ptr = d'" "bp_UnpinPage h (rid_page rid) True (bp_poke ptr d' s1) = Inr (True, s2)"
    "bp_rest h s2" "bp_view h s2 (rid_page rid) = Some d'"
    "\<forall>q x. q \<noteq> rid_page rid \<longrightarrow> bp_view h s q = Some x \<longrightarrow> bp_view h s2 q = Some x"
    using pool.idle_write [OF th_ok_rest [OF assms(1)] pid(2) assms(3) tp_wfD(1) [OF assms(5)]] .
  moreover have "tp_GetPageId d' = Inr (rid_page rid)" using tp_get(3) [OF tp_wfD(1) [OF assms(5)]] assms(6) pid by simp
  moreover have "th_ok h ps s2"
    using th_ok_update [OF assms(1) w(6,7) assms(5) _ w(8)] assms(6) pid by simp
  moreover have "th_content h ps s2 = (th_content h ps s)(rid := x)"
    using th_content_update [OF assms(1-3) w(7) assms(7,8) w(8)] .
  moreover have "page_next h s2 q = page_next h s q" if q: "q \<in> set ps" for q
  proof -
    obtain x where "bp_view h s q = Some x" using th_ok_page [OF assms(1) q] .
    then show ?thesis using w(7,8) assms(3,6) by (cases "q = rid_page rid") (auto simp: page_next_def)
  qed
  moreover have "others_kept h ps s s2" using w(8) assms(2) unfolding others_kept_def by metis
  ultimately show thesis using that by blast
qed

lemma th_MarkDelete_ok:
  assumes "th_ok h ps s" and "th_content h ps s rid = Some (sz, bs)" and "0 < sz"
  obtains s' where "th_MarkDelete h False lm tbl rid txn s = Inr (True, txn_write txn rid DELETE tuple_dummy tbl, s')"
    and "th_ok h ps s'" and "th_content h ps s' = (th_content h ps s)(rid := Some (- sz, bs))"
    and "\<forall>q \<in> set ps. page_next h s' q = page_next h s q"
proof -
  obtain d k where d: "rid_page rid \<in> set ps" "bp_view h s (rid_page rid) = Some d" "tp_wf d"
    "fst (tp_links d) = rid_page rid" "pid_ok (rid_page rid)" "rid_slot rid = int k" "k < tp_n d" "tp_slot d k = Some (sz, bs)"
    using th_content_at [OF assms(1,2)] .
  note m = tp_MarkDelete_live [OF d(3,7,6,8) assms(3), of lm txn] and fl = tp_flip [OF d(3,7,8)]
  show thesis
    by (rule th_write_page [OF assms(1) d(1-3), of "set_size d k (- sz)" k "Some (- sz, bs)"])
      (use fl d(6,7) m in \<open>auto simp: th_MarkDelete_def Let_def intro: that\<close>)
qed

lemma th_RollbackDelete_ok:
  assumes "th_ok h ps s" and "th_content h ps s rid = Some (sz, bs)" and "sz < 0"
  obtains s' where "th_RollbackDelete h False rid txn s = Inr s'"
    and "th_ok h ps s'" and "th_content h ps s' = (th_content h ps s)(rid := Some (- sz, bs))"
proof -
  obtain d k where d: "rid_page rid \<in> set ps" "bp_view h s (rid_page rid) = Some d" "tp_wf d"
    "fst (tp_links d) = rid_page rid" "pid_ok (rid_page rid)" "rid_slot rid = int k" "k < tp_n d" "tp_slot d k = Some (sz, bs)"
    using th_content_at [OF assms(1,2)] .
  note m = tp_RollbackDelete_marked [OF d(3,7,6,8) assms(3), of txn] and fl = tp_flip [OF d(3,7,8)]
  show thesis
    by (rule th_write_page [OF assms(1) d(1-3), of "set_size d k (- sz)" k "Some (- sz, bs)"])
      (use fl d(6,7) m in \<open>auto simp: th_RollbackDelete_def Let_def intro: that\<close>)
qed

lemma th_ApplyDelete_ok:
  assumes "th_ok h ps s" and "th_content h ps s rid = Some (sz, bs)"
  obtains s' where "th_ApplyDelete h False lm rid txn s = Inr s'"
    and "th_ok h ps s'" and "th_content h ps s' = (th_content h ps s)(rid := None)"
proof -
  obtain d k where d: "rid_page rid \<in> set ps" "bp_view h s (rid_page rid) = Some d" "tp_wf d"
    "fst (tp_links d) = rid_page rid" "pid_ok (rid_page rid)" "rid_slot rid = int k" "k < tp_n d" "tp_slot d k = Some (sz, bs)"
    using th_content_at [OF assms] .
  obtain d' where d': "tp_ApplyDelete False d rid txn = Inr d'" "tp_wf d'" "tp_slots d' = (tp_slots d)[k := None]"
    "tp_links d' = tp_links d"
    using tp_ApplyDelete_slots [OF d(3,7,6,8), of txn] by blast
  show thesis
    by (rule th_write_page [OF assms(1) d(1-3) d'(2,4) d(6), of None])
      (use d(7) d' in \<open>auto simp: th_ApplyDelete_def Let_def intro: that\<close>)
qed

lemma th_GetTuple_ok:
  assumes "th_ok h ps s" and "th_content h ps s rid = Some (sz, bs)" and "0 < sz"
  obtains s' where "th_GetTuple h False lm rid t txn s =
      Inr (True, \<lparr>allocated = True, tup_rid = rid, tup_size = sz, tup_data = bs\<rparr>, txn, s')"
    and "th_ok h ps s'" and "th_content h ps s' = th_content h ps s"
    and "\<forall>q x. bp_view h s q = Some x \<longrightarrow> bp_view h s' q = Some x"
proof -
  obtain d k where d: "rid_page rid \<in> set ps" "bp_view h s (rid_page rid) = Some d" "tp_wf d"
    "fst (tp_links d) = rid_page rid" "pid_ok (rid_page rid)" "rid_slot rid = int k" "k < tp_n d" "tp_slot d k = Some (sz, bs)"
    using th_content_at [OF assms(1,2)] .
  obtain ptr s1 s2 where w: "bp_FetchPage h (rid_page rid) s = Inr (ptr, s1)" "ptr \<noteq> 0" "bp_peek s1 ptr = d"
    "bp_UnpinPage h (rid_page rid) False s1 = Inr (True, s2)"
    "bp_rest h s2" "\<forall>q x. bp_view h s q = Some x \<longrightarrow> bp_view h s2 q = Some x"
    using pool.idle_read [OF th_ok_rest [OF assms(1)] d(5,2)] by metis
  have "th_ok h ps s2" using th_ok_update [OF assms(1) w(5) _ d(3,4)] w(6) d(2) by blast
  moreover have "th_content h ps s2 = (th_content h ps s)(rid := Some (sz, bs))"
    using th_content_update [OF assms(1) d(1,2) _ d(6), of s2 d "Some (sz, bs)"] w(6) d(2,7,8)
    by (metis list_update_id tp_slots_nth)
  ultimately show thesis
    using that [of s2] w tp_GetTuple_off [OF d(3,7,6), of lm t txn] d(8) assms
    by (simp add: th_GetTuple_def fun_upd_idem)
qed

section \<open>Insertion along the chain of pages\<close>

definition page_room :: "page_hash \<Rightarrow> BufferPoolManager \<Rightarrow> int \<Rightarrow> int \<Rightarrow> bool" where
  "page_room h s n p \<longleftrightarrow> (case bp_view h s p of None \<Rightarrow> False | Some d \<Rightarrow> tp_room d n)"

fun th_chain :: "page_hash \<Rightarrow> BufferPoolManager \<Rightarrow> int list \<Rightarrow> bool" where
  "th_chain h s [] \<longleftrightarrow> True"
| "th_chain h s [p] \<longleftrightarrow> page_next h s p = INVALID_PAGE_ID"
| "th_chain h s (p # q # qs) \<longleftrightarrow> page_next h s p = q \<and> th_chain h s (q # qs)"

lemma th_chain_cong:
  "\<forall>p \<in> set ps. page_next h s' p = page_next h s p \<Longrightarrow> th_chain h s' ps = th_chain h s ps"
  by (induction h s ps rule: th_chain.induct) auto

lemma tp_GetNextPageId_links: "length d = PAGE_SIZE \<Longrightarrow> tp_GetNextPageId d = Inr (snd (snd (tp_links d)))"
  using rd32_in [of 12 d] by (simp add: tp_GetNextPageId_def tp_links_def)

lemma th_same_views:
  assumes "th_ok h ps s" and "bp_rest h s'" and "\<forall>q x. bp_view h s q = Some x \<longrightarrow> bp_view h s' q = Some x"
  shows "th_ok h ps s'" and "th_content h ps s' = th_content h ps s"
    and "p \<in> set ps \<Longrightarrow> page_next h s' p = page_next h s p"
    and "p \<in> set ps \<Longrightarrow> page_room h s' n p = page_room h s n p"
proof -
  have v: "bp_view h s' q = bp_view h s q" if "q \<in> set ps" for q
    using th_ok_page [OF assms(1) that] assms(3) by metis
  show "th_ok h ps s'" using assms(1,2) v by (auto simp: th_ok_def)
  show "th_content h ps s' = th_content h ps s" using v by (auto simp: th_content_def fun_eq_iff)
  show "p \<in> set ps \<Longrightarrow> page_next h s' p = page_next h s p" using v by (simp add: page_next_def)
  show "p \<in> set ps \<Longrightarrow> page_room h s' n p = page_room h s n p" using v by (simp add: page_room_def)
qed

definition tuple_fits :: "Tuple \<Rightarrow> bool" where
  "tuple_fits t \<longleftrightarrow> 0 < tup_size t \<and> tup_size t = int (length (tup_data t)) \<and> tup_size t + 32 \<le> 512"

text \<open>A page with room takes the tuple.\<close>

lemma th_insert_here:
  assumes ok: "th_ok h ps s" and p: "p \<in> set ps" and room: "page_room h s (tup_size t) p" and t: "tuple_fits t"
  obtains ptr s1 s2 k where "bp_FetchPage h p s = Inr (ptr, s1)" and "ptr \<noteq> 0"
    and "th_insert_loop h False lm t (Suc fuel) ptr rid txn s1 = Inr (True, rid_make p k, txn, s2)"
    and "th_ok h ps s2" and "th_content h ps s (rid_make p k) = None"
    and "th_content h ps s2 = (th_content h ps s)(rid_make p k := Some (tup_size t, tup_data t))"
    and "\<forall>q \<in> set ps. page_next h s2 q = page_next h s q" and "others_kept h ps s s2"
proof -
  obtain d where d: "bp_view h s p = Some d" "tp_wf d" "fst (tp_links d) = p" "pid_ok p"
    using th_ok_page [OF ok p] .
  define k where "k = tp_target d"
  define d' where "d' = tp_insert_at d k (tup_data t)"
  have rm: "tp_room d (tup_size t)" using room d(1) by (simp add: page_room_def)
  have sz: "0 < tup_size t" "tup_size t = int (length (tup_data t))" and bs: "tup_data t \<noteq> []"
    using t by (auto simp: tuple_fits_def)
  have ins: "tp_InsertTuple False lm d t rid txn = Inr (True, rid_make p (int k), d')"
    using tp_InsertTuple_fits [OF d(2) sz rm, of lm rid txn] d(3) by (simp add: d'_def k_def)
  have k: "k < tp_n d \<and> tp_size d k = 0 \<or> k = tp_n d" using tp_target_cases [of d] by (auto simp: k_def)
  have room': "int (length (tup_data t)) + (if k = tp_n d then 8 else 0) \<le> tp_F d - 24 - tp_C d * 8"
    using rm sz(2) by (simp add: tp_room_def k_def)
  have d': "tp_wf d'" "tp_slots d' = (if k = tp_n d then tp_slots d @ [Some (tup_size t, tup_data t)]
      else (tp_slots d)[k := Some (tup_size t, tup_data t)])"
    using tp_insert_at_slots [OF d(2) _ _ bs, of k] k room' sz(2) by (auto simp: d'_def)
  have lk: "tp_links d' = tp_links d"
    using tp_insert_at_fields(4) [OF d(2) _ bs room' d'_def] k by auto
  have "th_content h ps s (rid_make p (int k)) = None"
    using k p d(1) by (auto simp: th_content_def rid_make_def tp_slots_nth tp_slot_def)
  moreover obtain ptr s1 s2 where w: "bp_FetchPage h p s = Inr (ptr, s1)" "ptr \<noteq> 0" "bp_peek s1 ptr = d"
    "bp_peek (bp_poke ptr d' s1) ptr = d'" "tp_GetPageId d' = Inr p"
    "bp_UnpinPage h p True (bp_poke ptr d' s1) = Inr (True, s2)" "th_ok h ps s2"
    "th_content h ps s2 = (th_content h ps s)(rid_make p (int k) := Some (tup_size t, tup_data t))"
    "\<forall>q \<in> set ps. page_next h s2 q = page_next h s q" "others_kept h ps s s2"
    using th_write_page [of h ps s "rid_make p (int k)" d d' k "Some (tup_size t, tup_data t)"] ok p d(1,2) d' lk k
    by (auto simp: rid_make_def split: if_splits)
  ultimately show thesis using that [of ptr s1 "int k" s2] ins by (simp add: Let_def)
qed

lemma th_insert_from:
  assumes "th_ok h all s" and "set (p # qs) \<subseteq> set all" and "th_chain h s (p # qs)"
    and "\<exists>q \<in> set (p # qs). page_room h s (tup_size t) q" and "tuple_fits t" and "length (p # qs) \<le> fuel"
  shows "\<exists>ptr s1 q k s2. bp_FetchPage h p s = Inr (ptr, s1) \<and> ptr \<noteq> 0 \<and> q \<in> set (p # qs) \<and>
    th_insert_loop h False lm t fuel ptr rid txn s1 = Inr (True, rid_make q k, txn, s2) \<and>
    th_ok h all s2 \<and> th_content h all s (rid_make q k) = None \<and>
    th_content h all s2 = (th_content h all s)(rid_make q k := Some (tup_size t, tup_data t)) \<and>
    (\<forall>q \<in> set all. page_next h s2 q = page_next h s q) \<and> others_kept h all s s2"
  using assms
proof (induction qs arbitrary: p s fuel rid)
  case Nil
  then obtain n where n: "fuel = Suc n" by (cases fuel) auto
  have p: "p \<in> set all" "page_room h s (tup_size t) p" using Nil.prems by auto
  show ?case
    by (rule th_insert_here [OF Nil.prems(1) p Nil.prems(5), where fuel = n and lm = lm and rid = rid and txn = txn])
      (force simp: n simp del: th_insert_loop.simps)
next
  case (Cons q qs)
  then obtain n where n: "fuel = Suc n" by (cases fuel) auto
  have p: "p \<in> set all" "q \<in> set all" using Cons.prems by auto
  show ?case
  proof (cases "page_room h s (tup_size t) p")
    case True
    show ?thesis
      by (rule th_insert_here [OF Cons.prems(1) p(1) True Cons.prems(5), where fuel = n and lm = lm and rid = rid and txn = txn])
        (force simp: n simp del: th_insert_loop.simps)
  next
    case False
    obtain d where d: "bp_view h s p = Some d" "tp_wf d" "fst (tp_links d) = p" "pid_ok p"
      using th_ok_page [OF Cons.prems(1) p(1)] .
    obtain rid1 where ins: "tp_InsertTuple False lm d t rid txn = Inr (False, rid1, d)"
      using tp_InsertTuple_full [OF d(2), of t lm rid txn] Cons.prems(5) False d(1)
      by (auto simp: tuple_fits_def page_room_def)
    obtain ptr s1 s2 where w: "bp_FetchPage h p s = Inr (ptr, s1)" "ptr \<noteq> 0" "bp_peek s1 ptr = d"
      "bp_poke ptr d s1 = s1" "bp_UnpinPage h p False s1 = Inr (True, s2)" "bp_rest h s2"
      "\<forall>q x. bp_view h s q = Some x \<longrightarrow> bp_view h s2 q = Some x"
      using pool.idle_read [OF th_ok_rest [OF Cons.prems(1)] d(4,1)] .
    note same = th_same_views [OF Cons.prems(1) w(6,7)]
    obtain dq where q: "bp_view h s q = Some dq" "pid_ok q" using th_ok_page [OF Cons.prems(1) p(2)] .
    have nx: "tp_GetNextPageId d = Inr q" "tp_GetPageId d = Inr p" "q \<noteq> INVALID_PAGE_ID"
      using Cons.prems(3) d(1,3) q(2) tp_GetNextPageId_links [OF tp_wfD(1) [OF d(2)]] tp_get(3) [OF tp_wfD(1) [OF d(2)]]
      by (auto simp: page_next_def pid_ok_def)
    have ch: "th_chain h s2 (q # qs)"
      using th_chain_cong [of "q # qs" h s2 s] Cons.prems(2,3) same(3) by auto
    have rm: "\<exists>r \<in> set (q # qs). page_room h s2 (tup_size t) r"
      using Cons.prems(2,4) same(4) False by auto
    have sb: "set (q # qs) \<subseteq> set all" and ln: "length (q # qs) \<le> n" using Cons.prems(2,6) n by auto
    from Cons.IH [OF same(1) sb ch rm Cons.prems(5) ln, of rid1]
    obtain ptr2 s3 r k s4 where IH: "bp_FetchPage h q s2 = Inr (ptr2, s3)" "ptr2 \<noteq> 0" "r \<in> set (q # qs)"
      "th_insert_loop h False lm t n ptr2 rid1 txn s3 = Inr (True, rid_make r k, txn, s4)"
      "th_ok h all s4" "th_content h all s2 (rid_make r k) = None"
      "th_content h all s4 = (th_content h all s2)(rid_make r k := Some (tup_size t, tup_data t))"
      "\<forall>q \<in> set all. page_next h s4 q = page_next h s2 q" "others_kept h all s2 s4"
      by blast
    have ok: "others_kept h all s s4"
      using others_kept_trans [OF _ IH(9), of s] w(7) by (simp add: others_kept_def)
    have "th_insert_loop h False lm t fuel ptr rid txn s1 = Inr (True, rid_make r k, txn, s4)"
      using n ins w(3-5) nx IH(1,2,4) by (simp add: Let_def)
    then show ?thesis
      by (intro exI [of _ ptr] exI [of _ s1] exI [of _ r] exI [of _ k] exI [of _ s4])
        (use w(1,2) IH(3,5-8) same(2,3) ok in simp)
  qed
qed

lemma th_InsertTuple_ok:
  assumes "th_ok h ps s" and "ps \<noteq> []" and "th_chain h s ps"
    and "\<exists>q \<in> set ps. page_room h s (tup_size t) q" and "tuple_fits t" and "length ps \<le> fuel"
  obtains rid s' where "th_InsertTuple h False lm tbl (hd ps) fuel t rid0 txn s =
      Inr (True, rid, txn_write txn rid INSERT tuple_dummy tbl, s')"
    and "th_ok h ps s'" and "th_chain h s' ps" and "rid_page rid \<in> set ps" and "th_content h ps s rid = None"
    and "th_content h ps s' = (th_content h ps s)(rid := Some (tup_size t, tup_data t))" and "others_kept h ps s s'"
proof -
  obtain p qs where ps: "ps = p # qs" using assms(2) by (cases ps) auto
  have "set (p # qs) \<subseteq> set ps" "th_chain h s (p # qs)" "\<exists>q \<in> set (p # qs). page_room h s (tup_size t) q"
    "length (p # qs) \<le> fuel"
    using assms ps by auto
  from th_insert_from [OF assms(1) this(1-3) assms(5) this(4), of lm rid0 txn]
  obtain ptr s1 q k s2 where i: "bp_FetchPage h p s = Inr (ptr, s1)" "ptr \<noteq> 0" "q \<in> set (p # qs)"
    "th_insert_loop h False lm t fuel ptr rid0 txn s1 = Inr (True, rid_make q k, txn, s2)" "th_ok h ps s2"
    "th_content h ps s (rid_make q k) = None"
    "th_content h ps s2 = (th_content h ps s)(rid_make q k := Some (tup_size t, tup_data t))"
    "\<forall>q \<in> set ps. page_next h s2 q = page_next h s q" "others_kept h ps s s2"
    by blast
  have "th_InsertTuple h False lm tbl (hd ps) fuel t rid0 txn s =
      Inr (True, rid_make q k, txn_write txn (rid_make q k) INSERT tuple_dummy tbl, s2)"
    using i(1,2,4) assms(5) by (simp add: th_InsertTuple_def ps tuple_fits_def)
  moreover have "th_chain h s2 ps" using th_chain_cong [OF i(8)] assms(3) by simp
  ultimately show thesis using that [of "rid_make q k" s2] i(3,5-7,9) ps by (simp add: rid_make_def)
qed

section \<open>Transactions on a table\<close>

text \<open>
  What a transaction did: insertions for which some page of the table has room, and deletions of
  live tuples, in any order. \<open>fuel\<close> bounds the pages an insertion visits.
\<close>

inductive th_run ::
  "page_hash \<Rightarrow> LockManager \<Rightarrow> nat \<Rightarrow> nat \<Rightarrow> int list \<Rightarrow> Transaction \<times> BufferPoolManager \<Rightarrow>
     Transaction \<times> BufferPoolManager \<Rightarrow> bool"
  for h lm tbl fuel ps c where
  start: "th_run h lm tbl fuel ps c c"
| put: "th_run h lm tbl fuel ps c (txn, s) \<Longrightarrow> tuple_fits t \<Longrightarrow> \<exists>q \<in> set ps. page_room h s (tup_size t) q \<Longrightarrow>
    th_InsertTuple h False lm tbl (hd ps) fuel t rid0 txn s = Inr (b, rid, txn', s') \<Longrightarrow>
    th_run h lm tbl fuel ps c (txn', s')"
| del: "th_run h lm tbl fuel ps c (txn, s) \<Longrightarrow> th_content h ps s rid = Some (sz, bs) \<Longrightarrow> 0 < sz \<Longrightarrow>
    th_MarkDelete h False lm tbl rid txn s = Inr (b, txn', s') \<Longrightarrow>
    th_run h lm tbl fuel ps c (txn', s')"

text \<open>One record of the write set is undone: the last write is taken back.\<close>

lemma abort_insert:
  assumes "th_ok h ps s" and "th_content h ps s rid = Some (sz, bs)"
    and "txn = txn_write txn0 rid INSERT tuple_dummy tbl"
  obtains s' where "tm_abort_loop h False lm (Suc n) txn s = tm_abort_loop h False lm n txn0 s'"
    and "th_ok h ps s'" and "th_content h ps s' = (th_content h ps s)(rid := None)"
  by (rule th_ApplyDelete_ok [OF assms(1,2), of lm txn])
    (use that assms(3) in \<open>simp add: tm_abort_loop.simps [of _ _ _ "Suc n"] txn_write_def pop_back_def\<close>)

lemma abort_delete:
  assumes "th_ok h ps s" and "th_content h ps s rid = Some (sz, bs)" and "sz < 0"
    and "txn = txn_write txn0 rid DELETE tuple_dummy tbl"
  obtains s' where "tm_abort_loop h False lm (Suc n) txn s = tm_abort_loop h False lm n txn0 s'"
    and "th_ok h ps s'" and "th_content h ps s' = (th_content h ps s)(rid := Some (- sz, bs))"
  by (rule th_RollbackDelete_ok [OF assms(1-3), of txn])
    (use that assms(4) in \<open>simp add: tm_abort_loop.simps [of _ _ _ "Suc n"] txn_write_def pop_back_def\<close>)

text \<open>Undoing in the state the run has reached, or in any other state with the same content.\<close>

lemma th_run_undone:
  assumes "th_run h lm tbl fuel ps (txn0, s0) c" and "write_set txn0 = []" and "ps \<noteq> []"
    and "th_ok h ps s0" and "th_chain h s0 ps" and "length ps \<le> fuel" and "c = (txn, s)"
  shows "th_ok h ps s \<and> th_chain h s ps \<and>
    (\<forall>u st. th_ok h ps u \<longrightarrow> th_content h ps u = th_content h ps s \<longrightarrow>
      (\<exists>txn' s'. tm_abort_loop h False lm (length (write_set txn)) (txn_SetState txn st) u = Inr (txn', s') \<and>
        txn_state txn' = st \<and> write_set txn' = [] \<and> th_ok h ps s' \<and>
        th_content h ps s' = th_content h ps s0))"
  using assms(1,7)
proof (induction arbitrary: txn s rule: th_run.induct)
  case start
  then show ?case
    using assms(2,4,5) by (simp add: tm_abort_loop.simps txn_SetState_def)
next
  case (put txn1 s1 t rid0 b rid txn2 s2)
  note IH = put.IH [OF refl]
  obtain rid' s' where i: "th_InsertTuple h False lm tbl (hd ps) fuel t rid0 txn1 s1 =
      Inr (True, rid', txn_write txn1 rid' INSERT tuple_dummy tbl, s')"
    "th_ok h ps s'" "th_chain h s' ps" "rid_page rid' \<in> set ps" "th_content h ps s1 rid' = None"
    "th_content h ps s' = (th_content h ps s1)(rid' := Some (tup_size t, tup_data t))"
    by (rule th_InsertTuple_ok [OF conjunct1 [OF IH] assms(3) _ put.hyps(3,2) assms(6)]) (use IH in simp)
  then have eq: "rid' = rid" "txn = txn_write txn1 rid INSERT tuple_dummy tbl" "s = s'"
    using put.hyps(4) put.prems by auto
  show ?case
  proof (intro conjI allI impI)
    fix u st assume u: "th_ok h ps u" "th_content h ps u = th_content h ps s"
    then have c: "th_content h ps u rid = Some (tup_size t, tup_data t)" using i(6) eq by simp
    obtain u' where u': "tm_abort_loop h False lm (Suc (length (write_set txn1))) (txn_SetState txn st) u =
        tm_abort_loop h False lm (length (write_set txn1)) (txn_SetState txn1 st) u'"
      "th_ok h ps u'" "th_content h ps u' = (th_content h ps u)(rid := None)"
      using abort_insert [OF u(1) c, of "txn_SetState txn st" "txn_SetState txn1 st" tbl lm "length (write_set txn1)"]
      by (auto simp: eq(2) txn_write_def txn_SetState_def)
    have "th_content h ps u' = th_content h ps s1"
      using u'(3) u(2) i(5,6) eq by (simp add: fun_upd_idem)
    then show "\<exists>txn' s'. tm_abort_loop h False lm (length (write_set txn)) (txn_SetState txn st) u = Inr (txn', s') \<and>
        txn_state txn' = st \<and> write_set txn' = [] \<and> th_ok h ps s' \<and> th_content h ps s' = th_content h ps s0"
      using IH u'(1,2) by (simp add: eq(2) txn_write_def)
  qed (use i eq in simp_all)
next
  case (del txn1 s1 rid sz bs b txn2 s2)
  note IH = del.IH [OF refl]
  obtain s' where i: "th_MarkDelete h False lm tbl rid txn1 s1 =
      Inr (True, txn_write txn1 rid DELETE tuple_dummy tbl, s')"
    "th_ok h ps s'" "th_content h ps s' = (th_content h ps s1)(rid := Some (- sz, bs))"
    "\<forall>q \<in> set ps. page_next h s' q = page_next h s1 q"
    using th_MarkDelete_ok [OF conjunct1 [OF IH] del.hyps(2,3)] by blast
  then have eq: "txn = txn_write txn1 rid DELETE tuple_dummy tbl" "s = s'" using del.hyps(4) del.prems by auto
  show ?case
  proof (intro conjI allI impI)
    fix u st assume u: "th_ok h ps u" "th_content h ps u = th_content h ps s"
    then have c: "th_content h ps u rid = Some (- sz, bs)" "- sz < 0" using i(3) eq del.hyps(3) by simp_all
    obtain u' where u': "tm_abort_loop h False lm (Suc (length (write_set txn1))) (txn_SetState txn st) u =
        tm_abort_loop h False lm (length (write_set txn1)) (txn_SetState txn1 st) u'"
      "th_ok h ps u'" "th_content h ps u' = (th_content h ps u)(rid := Some (sz, bs))"
      using abort_delete [OF u(1) c, of "txn_SetState txn st" "txn_SetState txn1 st" tbl lm "length (write_set txn1)"]
      by (auto simp: eq(1) txn_write_def txn_SetState_def)
    have "th_content h ps u' = th_content h ps s1"
      using u'(3) u(2) i(3) del.hyps(2) eq by (simp add: fun_upd_idem)
    then show "\<exists>txn' s'. tm_abort_loop h False lm (length (write_set txn)) (txn_SetState txn st) u = Inr (txn', s') \<and>
        txn_state txn' = st \<and> write_set txn' = [] \<and> th_ok h ps s' \<and> th_content h ps s' = th_content h ps s0"
      using IH u'(1,2) by (simp add: eq(1) txn_write_def)
  qed (use i eq IH th_chain_cong [OF i(4)] in simp_all)
qed

section \<open>A table of one page\<close>

lemma tp_Init_fresh:
  assumes "length b = PAGE_SIZE" and "in32 p" and "in32 q"
  obtains d where "tp_Init b p 512 q = Inr d" and "tp_wf d" and "tp_slots d = []" and "tp_F d = 512"
    and "tp_links d = (p, q, INVALID_PAGE_ID)"
proof -
  define d0 where "d0 = put32 (put32 (put32 b 0 p) 8 q) 12 (- 1)"
  have l: "length d0 = 512" using assms(1) by (simp add: d0_def)
  have i: "tp_Init b p 512 q = Inr (set_C (set_F d0 512) 0)"
    using wr32_in [of 0 b p] wr32_in [of 8 "put32 b 0 p" q] wr32_in [of 12 "put32 (put32 b 0 p) 8 q" "- 1"] l assms(1)
    by (simp add: tp_Init_def tp_SetPrevPageId_def tp_SetNextPageId_def page_simps d0_def)
  have f: "tp_F (set_C (set_F d0 512) 0) = 512" "tp_C (set_C (set_F d0 512) 0) = 0"
    using l by (simp_all add: page_simps)
  then have "tp_wf (set_C (set_F d0 512) 0)" "tp_slots (set_C (set_F d0 512) 0) = []"
    using l by (auto simp: tp_wf_def tp_n_def page_simps tp_slots_def)
  moreover have "tp_links (set_C (set_F d0 512) 0) = (p, q, INVALID_PAGE_ID)"
    using assms l by (simp add: tp_links_def set_C_def set_F_def get32_put32_other d0_def)
  ultimately show thesis using that i f(1) by blast
qed

lemma one_page_table:
  obtains s where "th_ok of_int [0] s" and "th_chain of_int s [0]" and "page_room of_int s 3 0"
    and "th_content of_int [0] s = (\<lambda>_. None)"
proof -
  obtain d where d: "tp_wf d" "tp_slots d = []" "tp_F d = 512" "tp_links d = (0, - 1, INVALID_PAGE_ID)"
    using tp_Init_fresh [of "replicate 512 0" 0 "- 1"] by auto
  define s where "s = bp_init 2 (dm_init d [])"
  have l: "length d = 512" "tp_n d = 0" using tp_wfD(1) [OF d(1)] arg_cong [OF d(2), of length] by simp_all
  have v: "bp_view of_int s 0 = Some d"
    using l by (simp add: s_def bp_view_def bp_init_def eh_init_lookup disk_page_def dm_init_def bget_def)
  have "bp_good of_int s" using l by (simp add: s_def bp_init_good dm_ok_def dm_init_def)
  moreover have "pin_count (frame s t) = 0" if "bp_ptr s t" for t
    using init_frame [of 2 "dm_init d []" t] that by (simp add: s_def new_frame_def)
  ultimately have "bp_rest of_int s" by (simp add: bp_rest_def s_def bp_init_def)
  then have "th_ok of_int [0] s" using v d by (simp add: th_ok_def pid_ok_def)
  moreover have "th_chain of_int s [0]" using v d by (simp add: page_next_def)
  moreover have "page_room of_int s 3 0" using v empty_page_room [OF l(2) d(3,1)] by (simp add: page_room_def)
  moreover have "th_content of_int [0] s = (\<lambda>_. None)" using v l by (auto simp: th_content_def fun_eq_iff)
  ultimately show thesis by (rule that)
qed

section \<open>Properties\<close>

text \<open>
  C7. Insertion and lookup through the whole stack. When some page of the table has room, insertion
  finds one along the chain of pages, stores the tuple under a fresh identifier and records the write
  in the transaction; every other tuple of the table keeps its place and its bytes, and a lookup by
  the returned identifier gives back the tuple.
\<close>

theorem th_insert_get:
  assumes "th_ok h ps s" and "ps \<noteq> []" and "th_chain h s ps"
    and "\<exists>q \<in> set ps. page_room h s (tup_size t) q" and "tuple_fits t" and "length ps \<le> fuel"
  shows "\<exists>rid txn1 s1 s2. th_InsertTuple h False lm tbl (hd ps) fuel t rid0 txn s = Inr (True, rid, txn1, s1) \<and>
    txn1 = txn_write txn rid INSERT tuple_dummy tbl \<and>
    th_content h ps s rid = None \<and>
    th_content h ps s1 = (th_content h ps s)(rid := Some (tup_size t, tup_data t)) \<and>
    th_GetTuple h False lm rid t0 txn1 s1 =
      Inr (True, \<lparr>allocated = True, tup_rid = rid, tup_size = tup_size t, tup_data = tup_data t\<rparr>, txn1, s2) \<and>
    th_ok h ps s2 \<and> th_content h ps s2 = th_content h ps s1"
proof -
  obtain rid s1 where i: "th_InsertTuple h False lm tbl (hd ps) fuel t rid0 txn s =
      Inr (True, rid, txn_write txn rid INSERT tuple_dummy tbl, s1)"
    "th_ok h ps s1" "th_content h ps s rid = None"
    "th_content h ps s1 = (th_content h ps s)(rid := Some (tup_size t, tup_data t))"
    using th_InsertTuple_ok [OF assms, of lm tbl rid0 txn] by blast
  have "0 < tup_size t" using assms(5) unfolding tuple_fits_def by blast
  moreover have "th_content h ps s1 rid = Some (tup_size t, tup_data t)" using i(4) by simp
  ultimately obtain s2 where "th_GetTuple h False lm rid t0 (txn_write txn rid INSERT tuple_dummy tbl) s1 =
      Inr (True, \<lparr>allocated = True, tup_rid = rid, tup_size = tup_size t, tup_data = tup_data t\<rparr>,
        txn_write txn rid INSERT tuple_dummy tbl, s2)" "th_ok h ps s2" "th_content h ps s2 = th_content h ps s1"
    using th_GetTuple_ok [OF i(2), of rid _ _ lm t0 "txn_write txn rid INSERT tuple_dummy tbl"] by metis
  with i show ?thesis by blast
qed

theorem th_insert_get_witness:
  "\<exists>s rid txn s1 s2. th_InsertTuple of_int False \<lparr>strict_2PL = True\<rparr> 7 0 1 sample_tuple rid_invalid (txn_init 0) s =
      Inr (True, rid, txn, s1) \<and>
    th_GetTuple of_int False \<lparr>strict_2PL = True\<rparr> rid tuple_dummy txn s1 =
      Inr (True, \<lparr>allocated = True, tup_rid = rid, tup_size = 3, tup_data = [1, 2, 3]\<rparr>, txn, s2)"
proof -
  obtain s where s: "th_ok of_int [0] s" "th_chain of_int s [0]" "page_room of_int s 3 0" by (rule one_page_table)
  then have "\<exists>q \<in> set [0]. page_room of_int s (tup_size sample_tuple) q" "tuple_fits sample_tuple"
    by (simp_all add: tuple_fits_def)
  from th_insert_get [OF s(1) _ s(2) this, of 1 "\<lparr>strict_2PL = True\<rparr>" 7 rid_invalid "txn_init 0" tuple_dummy]
  show ?thesis by simp blast
qed

text \<open>
  C8. Atomicity. When a transaction has made insertions, each at a moment when a page of the table had
  room for the tuple, and deletions, each of a tuple that was live at that moment, in any number and
  order, then aborting it returns, leaves the transaction aborted with an empty write set, and
  restores the content of the table: every identifier has the tuple and the mark it had when the
  transaction began. Updates, insertions that add a page to the table, and deletions of a slot that is
  marked or does not exist are not covered; the last are recorded in the write set although the page
  refuses them (\<^verbatim>\<open>table/table_heap.cpp:95\<close>), so that the abort would undo what was never done.
\<close>

theorem th_abort_restores:
  assumes "th_run h lm tbl fuel ps (txn0, s0) (txn, s)" and "write_set txn0 = []" and "ps \<noteq> []"
    and "th_ok h ps s0" and "th_chain h s0 ps" and "length ps \<le> fuel"
  shows "\<exists>txn' s'. tm_Abort h False lm txn s = Inr (txn', s') \<and> txn_state txn' = ABORTED \<and>
    write_set txn' = [] \<and> th_ok h ps s' \<and> th_content h ps s' = th_content h ps s0"
  using th_run_undone [OF assms refl] by (simp add: tm_Abort_def)

theorem th_abort_restores_witness:
  "\<exists>s0 txn s txn' s'. th_run of_int \<lparr>strict_2PL = True\<rparr> 7 1 [0] (txn_init 0, s0) (txn, s) \<and>
    length (write_set txn) = 2 \<and> tm_Abort of_int False \<lparr>strict_2PL = True\<rparr> txn s = Inr (txn', s') \<and>
    th_content of_int [0] s' = (\<lambda>_. None)"
proof -
  let ?lm = "\<lparr>strict_2PL = True\<rparr>"
  obtain s0 where s0: "th_ok of_int [0] s0" "th_chain of_int s0 [0]" "page_room of_int s0 3 0"
    "th_content of_int [0] s0 = (\<lambda>_. None)"
    by (rule one_page_table)
  have t: "tuple_fits sample_tuple" "\<exists>q \<in> set [0]. page_room of_int s0 (tup_size sample_tuple) q"
    using s0(3) by (simp_all add: tuple_fits_def)
  obtain rid s1 where i: "th_InsertTuple of_int False ?lm 7 (hd [0]) 1 sample_tuple rid_invalid (txn_init 0) s0 =
      Inr (True, rid, txn_write (txn_init 0) rid INSERT tuple_dummy 7, s1)" "th_ok of_int [0] s1"
    "th_content of_int [0] s1 = (th_content of_int [0] s0)(rid := Some (3, [1, 2, 3]))"
    by (rule th_InsertTuple_ok [OF s0(1) _ s0(2) t(2,1), of 1 ?lm 7 rid_invalid "txn_init 0"]) simp_all
  have c: "th_content of_int [0] s1 rid = Some (3, [1, 2, 3])" using i(3) by simp
  let ?txn1 = "txn_write (txn_init 0) rid INSERT tuple_dummy 7"
  let ?txn2 = "txn_write ?txn1 rid DELETE tuple_dummy 7"
  obtain s2 where m: "th_MarkDelete of_int False ?lm 7 rid ?txn1 s1 = Inr (True, ?txn2, s2)"
    using th_MarkDelete_ok [OF i(2) c, of ?lm 7 ?txn1] by auto
  have r: "th_run of_int ?lm 7 1 [0] (txn_init 0, s0) (?txn2, s2)"
    using th_run.del [OF th_run.put [OF th_run.start t i(1)] c _ m] by simp
  have w: "write_set (txn_init 0) = []" "length (write_set ?txn2) = 2" by (simp_all add: txn_init_def txn_write_def)
  from th_abort_restores [OF r w(1) _ s0(1,2)] obtain txn' s' where
    "tm_Abort of_int False ?lm ?txn2 s2 = Inr (txn', s')" "th_content of_int [0] s' = (\<lambda>_. None)"
    unfolding s0(4) by auto
  with r w(2) show ?thesis by blast
qed

end
