(* ===== verification/Statements.thy ===== *)
theory Statements
  imports Bpt_Index
begin

text \<open>
  The statements that declare a table and its index (\<^verbatim>\<open>vtable/virtual_table.cpp\<close>, with the string
  helpers of \<^verbatim>\<open>include/common/string_utility.h\<close>): their parsers, and the choice of the key size of an
  index. Strings are lists of characters, and the position \<^verbatim>\<open>npos\<close> is \<^const>\<open>None\<close>.
\<close>

section \<open>Strings\<close>

definition LTrim :: "string \<Rightarrow> string" where
  "LTrim s = dropWhile is_space s"

definition RTrim :: "string \<Rightarrow> string" where
  "RTrim s = rev (dropWhile is_space (rev s))"

definition Trim :: "string \<Rightarrow> string" where
  "Trim s = RTrim (LTrim s)"

text \<open>
  The loop of \<^verbatim>\<open>Split\<close>: \<^verbatim>\<open>getline\<close> reads up to the next delimiter and drops it; it fails when no
  character is left, so that there is no empty item behind a final delimiter.
\<close>

function split_lines :: "string \<Rightarrow> char \<Rightarrow> string list" where
  "split_lines s delim =
     (if s = [] then []
      else
        (let item = takeWhile (\<lambda>c. c \<noteq> delim) s
         in Trim item # split_lines (drop (Suc (length item)) s) delim))"
  by pat_completeness auto

termination split_lines
  by (relation "measure (\<lambda>(s, delim). length s)") auto

declare split_lines.simps [simp del]

definition StringUtility_Split :: "string \<Rightarrow> char \<Rightarrow> string list" where
  "StringUtility_Split s delim = split_lines s delim"

text \<open>\<^verbatim>\<open>find_first_of\<close> for one character, and \<^verbatim>\<open>substr(n + 1)\<close>, where \<^verbatim>\<open>npos + 1\<close> is \<^verbatim>\<open>0\<close>.\<close>

fun find_first_of :: "string \<Rightarrow> char \<Rightarrow> nat option" where
  "find_first_of [] c = None"
| "find_first_of (x # xs) c = (if x = c then Some 0 else map_option Suc (find_first_of xs c))"

definition substr_to :: "string \<Rightarrow> nat option \<Rightarrow> string" where
  "substr_to s n = (case n of None \<Rightarrow> s | Some i \<Rightarrow> take i s)"

definition substr_after :: "string \<Rightarrow> nat option \<Rightarrow> string" where
  "substr_after s n = (case n of None \<Rightarrow> s | Some i \<Rightarrow> drop (Suc i) s)"

section \<open>The columns of a table\<close>

definition type_of_name :: "string \<Rightarrow> TypeId" where
  "type_of_name name =
     (if name = ''bool'' \<or> name = ''boolean'' then BOOLEAN
      else if name = ''tinyint'' then TINYINT
      else if name = ''smallint'' then SMALLINT
      else if name = ''int'' \<or> name = ''integer'' then INTEGER
      else if name = ''bigint'' then BIGINT
      else if name = ''double'' \<or> name = ''float'' then DECIMAL
      else if name = ''varchar'' \<or> name = ''char'' then VARCHAR
      else INVALID)"

text \<open>\<^verbatim>\<open>std::stoi\<close> with its exceptions.\<close>

definition stoi_res :: "string \<Rightarrow> int res" where
  "stoi_res s =
     (case stoi s of
        Parsed z \<Rightarrow> ok z
      | Parse_Invalid \<Rightarrow> fail (Std_Exception ''std::invalid_argument'')
      | Parse_Range \<Rightarrow> fail (Std_Exception ''std::out_of_range''))"

text \<open>One round of the loop: the name and the type of a column, and the length of a string.\<close>

definition parse_column :: "string \<Rightarrow> Column res" where
  "parse_column t =
     (let n = find_first_of t (CHR '' '');
          cname = substr_to t n;
          ctype = substr_after t n;
          m = find_first_of ctype (CHR ''('')
      in bindE (if m \<noteq> None
                then bindE (stoi_res (substr_after ctype m)) (\<lambda>z. ok (z, substr_to ctype m))
                else ok (0, ctype)) (\<lambda>(len, ctype).
         let ty = type_of_name ctype in
         if ty = INVALID
         then fail (Thrown EXCEPTION_TYPE_UNKNOWN_TYPE ''unknown type for create table'')
         else if ty = VARCHAR
         then Column_make ty (if len = 0 then 32 else len) cname
         else bindE (GetTypeSize ty) (\<lambda>sz. Column_make ty (int sz) cname)))"

fun parse_columns :: "string list \<Rightarrow> Column list res" where
  "parse_columns [] = ok []"
| "parse_columns (t # tok) =
     bindE (parse_column t) (\<lambda>c. bindE (parse_columns tok) (\<lambda>cs. ok (c # cs)))"

definition ParseCreateStatement :: "string \<Rightarrow> Schema res" where
  "ParseCreateStatement sql_base =
     bindE (parse_columns (StringUtility_Split (map to_lower sql_base) (CHR '',''))) Schema_make"

section \<open>The index of a table\<close>

text \<open>The names of tables and indexes are stored as bytes.\<close>

definition name_bytes :: "string \<Rightarrow> byte list" where
  "name_bytes s = map of_char s"

fun index_columns :: "Schema \<Rightarrow> string list \<Rightarrow> int list" where
  "index_columns schema [] = []"
| "index_columns schema (t # tok) =
     (let column_id = Schema_GetColumnID schema (Trim t) in
      if column_id \<noteq> - 1 then column_id # index_columns schema tok else index_columns schema tok)"

definition ParseIndexStatement :: "string \<Rightarrow> string \<Rightarrow> Schema \<Rightarrow> IndexMetadata res" where
  "ParseIndexStatement sql_base table_name schema =
     (let sql = map to_lower sql_base; n = find_first_of sql (CHR '' '') in
      bindE (assertE (n \<noteq> None)) (\<lambda>_.
        let key_attrs = index_columns schema (StringUtility_Split (substr_after sql n) (CHR '','')) in
        if int (length key_attrs) > Schema_GetColumnCount schema
        then fail (Thrown EXCEPTION_TYPE_INDEX ''can't create index, format error'')
        else IndexMetadata_make (name_bytes (substr_to sql n)) (name_bytes table_name) schema key_attrs))"

text \<open>
  \<^verbatim>\<open>ConstructIndex\<close> chooses the class \<^verbatim>\<open>BPlusTreeIndex<GenericKey<ks>, ...>\<close> by the length of a key, at 16
  bytes for every string; the result is \<^verbatim>\<open>ks\<close> with the index.
\<close>

definition index_key_size :: "Schema \<Rightarrow> nat res" where
  "index_key_size key_schema =
     bindE (add32 (sch_length key_schema) (16 * int (length (uninlined_columns key_schema)))) (\<lambda>n.
       ok (if n \<le> 4 then 4 else if n \<le> 8 then 8 else if n \<le> 16 then 16 else if n \<le> 32 then 32 else 64))"

definition ConstructIndex :: "IndexMetadata \<Rightarrow> BufferPoolManager \<Rightarrow> int \<Rightarrow> (nat \<times> BPlusTree) res" where
  "ConstructIndex metadata pool root_id =
     bindE (index_key_size (im_key_schema metadata)) (\<lambda>ks. ok (ks, BPlusTreeIndex_make metadata pool root_id))"

section \<open>Declarations and their text\<close>

text \<open>
  A declaration is the name of a column, its type and, for a string, its length. A name has no blank
  and no comma and is in lower case.
\<close>

type_synonym decl = "string \<times> TypeId \<times> int"

fun type_word :: "TypeId \<Rightarrow> string" where
  "type_word BOOLEAN = ''boolean''"
| "type_word TINYINT = ''tinyint''"
| "type_word SMALLINT = ''smallint''"
| "type_word INTEGER = ''integer''"
| "type_word BIGINT = ''bigint''"
| "type_word DECIMAL = ''double''"
| "type_word VARCHAR = ''varchar''"
| "type_word _ = ''''"

fun decl_text :: "decl \<Rightarrow> string" where
  "decl_text (nm, ty, n) =
     nm @ '' '' @ type_word ty @ (if ty = VARCHAR then ''('' @ to_string n @ '')'' else '''')"

fun decls_text :: "decl list \<Rightarrow> string" where
  "decls_text [] = ''''"
| "decls_text [d] = decl_text d"
| "decls_text (d # ds) = decl_text d @ '', '' @ decls_text ds"

definition word_ok :: "string \<Rightarrow> bool" where
  "word_ok nm \<longleftrightarrow> nm \<noteq> [] \<and> list_all (\<lambda>c. to_lower c = c \<and> \<not> is_space c \<and> c \<noteq> CHR '','') nm"

fun decl_ok :: "decl \<Rightarrow> bool" where
  "decl_ok (nm, ty, n) \<longleftrightarrow>
     word_ok nm \<and> ty \<noteq> INVALID \<and> ty \<noteq> TIMESTAMP \<and> (ty = VARCHAR \<longrightarrow> 0 < n \<and> n < 2147483648)"

fun decl_column :: "decl \<Rightarrow> Column" where
  "decl_column (nm, ty, n) =
     \<lparr>column_type = ty,
      fixed_length = (if ty = VARCHAR then 4 else case GetTypeSize ty of Inl _ \<Rightarrow> 0 | Inr k \<Rightarrow> int k),
      variable_length = (if ty = VARCHAR then n else 0), column_name = nm, is_inlined = (ty \<noteq> VARCHAR),
      column_offset = - 1\<rparr>"

section \<open>Splitting\<close>

lemma split_lines_Cons:
  assumes "delim \<notin> set x"
  shows "split_lines (x @ delim # rest) delim = Trim x # split_lines rest delim"
proof -
  have "takeWhile (\<lambda>c. c \<noteq> delim) (x @ delim # rest) = x"
    using assms by (subst takeWhile_append2) auto
  then show ?thesis by (subst split_lines.simps) (simp add: Let_def)
qed

lemma split_lines_last:
  assumes "delim \<notin> set x" and "x \<noteq> []"
  shows "split_lines x delim = [Trim x]"
proof -
  have "takeWhile (\<lambda>c. c \<noteq> delim) x = x" using assms(1) by (auto simp: takeWhile_eq_all_conv)
  then show ?thesis using assms(2) split_lines.simps [of "[]" delim]
    by (subst split_lines.simps) (simp only: Let_def, simp)
qed

lemma Trim_id:
  assumes "x \<noteq> []" and "\<not> is_space (hd x)" and "\<not> is_space (last x)"
  shows "Trim x = x" and "Trim (CHR '' '' # x) = x"
proof -
  have "dropWhile is_space x = x" "dropWhile is_space (rev x) = rev x"
    using assms by (simp_all add: dropWhile_eq_self_iff hd_rev)
  moreover have "is_space (CHR '' '')" by (simp add: is_space_def)
  ultimately show "Trim x = x" "Trim (CHR '' '' # x) = x" by (simp_all add: Trim_def LTrim_def RTrim_def)
qed

lemma find_first_of_append: "c \<notin> set x \<Longrightarrow> find_first_of (x @ c # r) c = Some (length x)"
  by (induction x) auto

lemma to_string_pos:
  assumes "0 < n"
  shows "to_string n = digits (nat n)" and "c \<in> set (to_string n) \<Longrightarrow> is_digit c"
  using assms digits_all [of c "nat n"] by (simp_all add: to_string_def)

lemma stoi_length:
  assumes "0 < n" and "n < 2147483648"
  shows "stoi (to_string n @ '')'') = Parsed n"
proof -
  have d: "\<forall>c \<in> set (digits (nat n)). is_digit c" using digits_all by blast
  have "takeWhile is_digit (digits (nat n) @ '')'') = digits (nat n)"
    using d by (subst takeWhile_append2) (auto simp: is_digit_def)
  then have u: "unsigned_prefix (digits (nat n) @ '')'') = Some n"
    using assms(1) by (simp add: unsigned_prefix_def num_of_digits)
  obtain c cs where ds: "digits (nat n) = c # cs" by (meson digits_not_Nil list.exhaust)
  then have "strto (digits (nat n) @ '')'') = Some n"
    using u d is_digit_facts [of c] by (simp add: strto_def)
  then show ?thesis using assms to_string_pos(1) [OF assms(1)] by (simp add: stoi_def sto_def in_ctype_def)
qed

section \<open>Parsing a declaration\<close>

lemma word_okD:
  assumes "word_ok nm"
  shows "nm \<noteq> []" and "c \<in> set nm \<Longrightarrow> c \<noteq> CHR '' ''" and "c \<in> set nm \<Longrightarrow> c \<noteq> CHR '',''" and "\<not> is_space (hd nm)"
proof -
  have sp: "is_space (CHR '' '')" by (simp add: is_space_def)
  show "nm \<noteq> []" using assms by (simp add: word_ok_def)
  show "c \<in> set nm \<Longrightarrow> c \<noteq> CHR '' ''" "c \<in> set nm \<Longrightarrow> c \<noteq> CHR '',''" "\<not> is_space (hd nm)"
    using assms sp by (auto simp: word_ok_def list_all_iff)
qed

lemma parse_decl:
  assumes "decl_ok (nm, ty, n)"
  shows "parse_column (decl_text (nm, ty, n)) = ok (decl_column (nm, ty, n))"
proof -
  have w: "word_ok nm" and t: "ty \<noteq> INVALID" "ty \<noteq> TIMESTAMP" "ty = VARCHAR \<Longrightarrow> 0 < n \<and> n < 2147483648"
    using assms by auto
  have f: "find_first_of (decl_text (nm, ty, n)) (CHR '' '') = Some (length nm)"
    using word_okD(2) [OF w] find_first_of_append [of "CHR '' ''" nm] by auto
  show ?thesis
  proof (cases "ty = VARCHAR")
    case True
    with t(3) have "stoi (to_string n @ '')'') = Parsed n" "n \<noteq> 0" using stoi_length by auto
    then show ?thesis
      using f True by (simp add: parse_column_def substr_to_def substr_after_def stoi_res_def type_of_name_def
          Column_make_def Column_SetInlined_def Column_default_def Column_SetLength_def Let_def)
  next
    case False
    then show ?thesis
      using f t(1,2) by (cases ty) (simp_all add: parse_column_def substr_to_def substr_after_def type_of_name_def
          Column_make_def Column_SetInlined_def Column_default_def Column_SetLength_def Let_def)
  qed
qed

lemma decl_text_shape:
  assumes "decl_ok d"
  shows "decl_text d \<noteq> []" and "CHR '','' \<notin> set (decl_text d)"
    and "\<not> is_space (hd (decl_text d))" and "\<not> is_space (last (decl_text d))"
proof -
  obtain nm ty n where d: "d = (nm, ty, n)" by (metis prod_cases3)
  have w: "word_ok nm" and t: "ty \<noteq> INVALID" "ty \<noteq> TIMESTAMP" "ty = VARCHAR \<Longrightarrow> 0 < n"
    using assms d by auto
  have c: "CHR '','' \<notin> set (to_string n)" if "0 < n"
    using to_string_pos(2) [OF that, of "CHR '',''"] by (auto simp: is_digit_def)
  show "decl_text d \<noteq> []" by (simp add: d)
  show "\<not> is_space (hd (decl_text d))" using word_okD(1,4) [OF w] by (simp add: d)
  show "CHR '','' \<notin> set (decl_text d)" "\<not> is_space (last (decl_text d))"
    using t c word_okD(3) [OF w, of "CHR '',''"] by (cases ty; auto simp: d is_space_def)+
qed

lemma split_decls:
  "list_all decl_ok ds \<Longrightarrow> split_lines (decls_text ds) (CHR '','') = map decl_text ds \<and>
     (ds \<noteq> [] \<longrightarrow> split_lines (CHR '' '' # decls_text ds) (CHR '','') = map decl_text ds)"
proof (induction ds rule: decls_text.induct)
  case 1
  then show ?case by (simp add: split_lines.simps)
next
  case (2 d)
  then have d: "decl_ok d" by simp
  then show ?case
    using split_lines_last [of "CHR '',''" "decl_text d"] split_lines_last [of "CHR '',''" "CHR '' '' # decl_text d"]
      decl_text_shape [OF d] Trim_id [of "decl_text d"] by simp
next
  case (3 d e ds)
  then have d: "decl_ok d" and r: "split_lines (CHR '' '' # decls_text (e # ds)) (CHR '','') = map decl_text (e # ds)" by auto
  have "decls_text (d # e # ds) = decl_text d @ CHR '','' # CHR '' '' # decls_text (e # ds)" by simp
  then show ?case
    using split_lines_Cons [of "CHR '',''" "decl_text d"] split_lines_Cons [of "CHR '',''" "CHR '' '' # decl_text d"]
      decl_text_shape [OF d] Trim_id [of "decl_text d"] r by (simp del: decls_text.simps)
qed

lemma parse_decls: "list_all decl_ok ds \<Longrightarrow> parse_columns (map decl_text ds) = ok (map decl_column ds)"
proof (induction ds)
  case (Cons d ds)
  then show ?case using parse_decl by (cases d) (simp del: decl_text.simps decl_column.simps decl_ok.simps)
qed simp

lemma decl_column_ok: "decl_ok d \<Longrightarrow> column_ok (decl_column d)"
  by (cases d; cases "fst (snd d)") (auto simp: column_ok_def)

section \<open>Properties\<close>



text \<open>
  A declaration without a blank is read twice, as the name and as the type, because \<^verbatim>\<open>npos + 1\<close> is
  \<^verbatim>\<open>0\<close>; a second blank before the type makes the type unknown.
\<close>

lemma parse_column_without_blank: "parse_column ''integer'' = ok (decl_column (''integer'', INTEGER, 0))"
  by (simp add: parse_column_def substr_to_def substr_after_def type_of_name_def
      Column_make_def Column_SetInlined_def Column_default_def Column_SetLength_def Let_def)

lemma parse_column_two_blanks:
  "parse_column ''a  integer'' = fail (Thrown EXCEPTION_TYPE_UNKNOWN_TYPE ''unknown type for create table'')"
  by (simp add: parse_column_def substr_to_def substr_after_def type_of_name_def Let_def)

end
