(* ===== verification/Virtual_Table.thy ===== *)
theory Virtual_Table
  imports Statements Heap_Spec
begin

text \<open>
  The tables that SQLite sees (\<^verbatim>\<open>vtable/virtual_table.cpp\<close>, \<^verbatim>\<open>include/vtable/virtual_table.h\<close>): the
  storage engine, a table as a heap with an index over the same buffer pool, cursors, and the
  callbacks of the module.

  SQLite itself is a parameter: the accessors of its values and the answer to the declaration of a
  table (record \<^verbatim>\<open>sqlite\<close>). The global objects \<^verbatim>\<open>storage_engine_\<close> and \<^verbatim>\<open>global_transaction_\<close> are the
  record \<^verbatim>\<open>StorageEngine\<close>, which every callback receives and returns; the index keeps its root and its
  locks and works on the pool and the transaction it is handed.
\<close>

section \<open>State\<close>

record ('q, 'd) sqlite =
  sqlite3_value_int :: "'q \<Rightarrow> int"
  sqlite3_value_int64 :: "'q \<Rightarrow> 64 word"
  sqlite3_value_double :: "'q \<Rightarrow> 'd"
  sqlite3_value_text :: "'q \<Rightarrow> string option"
  sqlite3_value_is_null :: "'q \<Rightarrow> bool"
  sqlite3_declare_vtab :: "string \<Rightarrow> bool"

text \<open>
  What the operations need besides: the hash function of the page table, the arithmetic of \<^verbatim>\<open>double\<close>, the
  content of fresh memory, and the bound on the pages that a walk visits.
\<close>

record 'd vt_env =
  ve_hash :: page_hash
  ve_cpp :: "'d cpp"
  ve_mem :: "nat \<Rightarrow> byte"
  ve_fuel :: nat

record StorageEngine =
  buffer_pool_manager :: BufferPoolManager
  lock_manager :: LockManager
  transaction_manager :: TransactionManager
  global_transaction :: "Transaction option"

record TableIndex =
  ix_key_size :: nat
  ix_meta :: IndexMetadata
  ix_tree :: BPlusTree

text \<open>The heap of a table is the number of its first page; \<^verbatim>\<open>vt_number\<close> stands for its address.\<close>

record VirtualTable =
  vt_schema :: Schema
  vt_first_page :: int
  vt_index :: "TableIndex option"
  vt_number :: nat

text \<open>An iterator keeps the transaction it was opened with, here by its number.\<close>

record Cursor =
  cur_results :: "RID list"
  cur_offset :: int
  cur_iterator :: Tuple
  cur_txn :: "int option"
  is_index_scan :: bool

section \<open>The storage engine\<close>

abbreviation BUFFER_POOL_SIZE :: nat where
  "BUFFER_POOL_SIZE \<equiv> 10"

definition StorageEngine_make :: "byte list \<Rightarrow> byte list \<Rightarrow> StorageEngine" where
  "StorageEngine_make db lg =
     \<lparr>buffer_pool_manager = bp_init BUFFER_POOL_SIZE (dm_init db lg), lock_manager = \<lparr>strict_2PL = True\<rparr>,
      transaction_manager = tm_init, global_transaction = None\<rparr>"

text \<open>
  The entry point of the module, for a database file with content \<^verbatim>\<open>db\<close> if it exists. A new file gets
  its header page.
\<close>

definition sqlite3_vtable_init :: "'d vt_env \<Rightarrow> byte list option \<Rightarrow> byte list \<Rightarrow> StorageEngine res" where
  "sqlite3_vtable_init V file lg =
     (case file of
        Some db \<Rightarrow> ok (StorageEngine_make db lg)
      | None \<Rightarrow>
          (let e = StorageEngine_make [] lg in
           bindE (bp_NewPage (ve_hash V) (buffer_pool_manager e)) (\<lambda>(ptr, pid, p1).
           bindE (assertE (pid = Some HEADER_PAGE_ID)) (\<lambda>_.
           bindE (bp_UnpinPage (ve_hash V) HEADER_PAGE_ID True p1) (\<lambda>(_, p2).
             ok (e\<lparr>buffer_pool_manager := p2\<rparr>))))))"

section \<open>Transactions\<close>

definition VtabBegin :: "StorageEngine \<Rightarrow> StorageEngine" where
  "VtabBegin e =
     (let (txn, tm) = tm_Begin (transaction_manager e)
      in e\<lparr>transaction_manager := tm, global_transaction := Some txn\<rparr>)"

definition VtabCommit :: "'d vt_env \<Rightarrow> StorageEngine \<Rightarrow> StorageEngine res" where
  "VtabCommit V e =
     (case global_transaction e of
        None \<Rightarrow> ok e
      | Some txn \<Rightarrow>
          bindE (tm_Commit (ve_hash V) False (lock_manager e) txn (buffer_pool_manager e)) (\<lambda>(_, p).
            ok (e\<lparr>buffer_pool_manager := p, global_transaction := None\<rparr>)))"

text \<open>
  An operation of the heap with the pointer \<^verbatim>\<open>GetTransaction()\<close>. Without logging the heap only writes
  through this pointer, so that an operation with a null pointer fails exactly when it changes the
  transaction.
\<close>

definition with_txn ::
  "Transaction option \<Rightarrow> (Transaction \<Rightarrow> ('a \<times> Transaction \<times> BufferPoolManager) res) \<Rightarrow>
     ('a \<times> Transaction option \<times> BufferPoolManager) res" where
  "with_txn txn f =
     (case txn of
        Some t \<Rightarrow> bindE (f t) (\<lambda>(x, t1, p). ok (x, Some t1, p))
      | None \<Rightarrow> bindE (f (txn_init 0)) (\<lambda>(x, t1, p).
          if t1 = txn_init 0 then ok (x, None, p) else fail Null_Deref))"

section \<open>The operations of a table\<close>

definition vt_InsertTuple ::
  "'d vt_env \<Rightarrow> VirtualTable \<Rightarrow> Tuple \<Rightarrow> RID \<Rightarrow> StorageEngine \<Rightarrow> (bool \<times> RID \<times> StorageEngine) res" where
  "vt_InsertTuple V vt t rid e =
     bindE (with_txn (global_transaction e) (\<lambda>txn.
       bindE (th_InsertTuple (ve_hash V) False (lock_manager e) (vt_number vt) (vt_first_page vt) (ve_fuel V) t rid txn
                (buffer_pool_manager e)) (\<lambda>(b, rid1, txn1, p). ok ((b, rid1), txn1, p)))) (\<lambda>((b, rid1), txn1, p).
     ok (b, rid1, e\<lparr>global_transaction := txn1, buffer_pool_manager := p\<rparr>))"

definition vt_DeleteTuple ::
  "'d vt_env \<Rightarrow> VirtualTable \<Rightarrow> RID \<Rightarrow> StorageEngine \<Rightarrow> (bool \<times> StorageEngine) res" where
  "vt_DeleteTuple V vt rid e =
     bindE (with_txn (global_transaction e) (\<lambda>txn.
       th_MarkDelete (ve_hash V) False (lock_manager e) (vt_number vt) rid txn (buffer_pool_manager e))) (\<lambda>(b, txn1, p).
     ok (b, e\<lparr>global_transaction := txn1, buffer_pool_manager := p\<rparr>))"

definition vt_UpdateTuple ::
  "'d vt_env \<Rightarrow> VirtualTable \<Rightarrow> Tuple \<Rightarrow> RID \<Rightarrow> StorageEngine \<Rightarrow> (bool \<times> StorageEngine) res" where
  "vt_UpdateTuple V vt t rid e =
     bindE (with_txn (global_transaction e) (\<lambda>txn.
       th_UpdateTuple (ve_hash V) False (lock_manager e) (vt_number vt) t rid txn (buffer_pool_manager e))) (\<lambda>(b, txn1, p).
     ok (b, e\<lparr>global_transaction := txn1, buffer_pool_manager := p\<rparr>))"

text \<open>\<^verbatim>\<open>table_heap_->GetTuple(rid, tuple, GetTransaction())\<close> on a new \<^verbatim>\<open>Tuple(rid)\<close>.\<close>

definition vt_GetTuple :: "'d vt_env \<Rightarrow> RID \<Rightarrow> StorageEngine \<Rightarrow> (Tuple \<times> StorageEngine) res" where
  "vt_GetTuple V rid e =
     bindE (with_txn (global_transaction e) (\<lambda>txn.
       bindE (th_GetTuple (ve_hash V) False (lock_manager e) rid (tuple_dummy\<lparr>tup_rid := rid\<rparr>) txn
                (buffer_pool_manager e)) (\<lambda>(b, t, txn1, p). ok ((b, t), txn1, p)))) (\<lambda>((b, t), txn1, p).
     ok (t, e\<lparr>global_transaction := txn1, buffer_pool_manager := p\<rparr>))"

text \<open>An operation of the index on the pool of the engine, with the given transaction.\<close>

definition ix_env :: "'d vt_env \<Rightarrow> TableIndex \<Rightarrow> bpt_env" where
  "ix_env V ix = index_env (ve_cpp V) (ve_hash V) (ix_key_size ix) (ix_meta ix)"

definition run_index ::
  "'d vt_env \<Rightarrow> (bpt_env \<Rightarrow> 'a op) \<Rightarrow> Transaction option \<Rightarrow> TableIndex \<Rightarrow> BufferPoolManager \<Rightarrow>
     ('a \<times> Transaction option \<times> TableIndex \<times> BufferPoolManager) res" where
  "run_index V f txn ix p =
     bindE (f (ix_env V ix) ((ix_tree ix)\<lparr>bpm := p, transaction := txn\<rparr>)) (\<lambda>(x, t).
       ok (x, transaction t, ix\<lparr>ix_tree := t\<rparr>, bpm t))"

fun key_values :: "'d vt_env \<Rightarrow> Schema \<Rightarrow> Tuple \<Rightarrow> int list \<Rightarrow> 'd Value list res" where
  "key_values V schema t [] = ok []"
| "key_values V schema t (i # attrs) =
     bindE (Tuple_GetValue (ve_cpp V) t schema i) (\<lambda>v.
     bindE (key_values V schema t attrs) (\<lambda>vs. ok (v # vs)))"

definition key_tuple :: "'d vt_env \<Rightarrow> Schema \<Rightarrow> TableIndex \<Rightarrow> Tuple \<Rightarrow> Tuple res" where
  "key_tuple V schema ix t =
     bindE (key_values V schema t (im_key_attrs (ix_meta ix))) (\<lambda>vs.
       Tuple_make (ve_cpp V) (ve_mem V) vs (im_key_schema (ix_meta ix)))"

definition vt_InsertEntry ::
  "'d vt_env \<Rightarrow> VirtualTable \<Rightarrow> Tuple \<Rightarrow> RID \<Rightarrow> StorageEngine \<Rightarrow> (VirtualTable \<times> StorageEngine) res" where
  "vt_InsertEntry V vt t rid e =
     (case vt_index vt of
        None \<Rightarrow> ok (vt, e)
      | Some ix \<Rightarrow>
          bindE (key_tuple V (vt_schema vt) ix t) (\<lambda>key.
          bindE (run_index V (\<lambda>E. InsertEntry E (ve_fuel V) key rid) (global_transaction e) ix (buffer_pool_manager e))
            (\<lambda>(_, txn1, ix1, p).
          ok (vt\<lparr>vt_index := Some ix1\<rparr>, e\<lparr>global_transaction := txn1, buffer_pool_manager := p\<rparr>))))"

definition vt_DeleteEntry ::
  "'d vt_env \<Rightarrow> VirtualTable \<Rightarrow> RID \<Rightarrow> StorageEngine \<Rightarrow> (VirtualTable \<times> StorageEngine) res" where
  "vt_DeleteEntry V vt rid e =
     (case vt_index vt of
        None \<Rightarrow> ok (vt, e)
      | Some ix \<Rightarrow>
          bindE (vt_GetTuple V rid e) (\<lambda>(deleted_tuple, e1).
          bindE (key_tuple V (vt_schema vt) ix deleted_tuple) (\<lambda>key.
          bindE (run_index V (\<lambda>E. DeleteEntry E (ve_fuel V) key) (global_transaction e1) ix (buffer_pool_manager e1))
            (\<lambda>(_, txn1, ix1, p).
          ok (vt\<lparr>vt_index := Some ix1\<rparr>, e1\<lparr>global_transaction := txn1, buffer_pool_manager := p\<rparr>)))))"

section \<open>Rows from SQLite\<close>

text \<open>
  One round of the loop of \<^verbatim>\<open>ConstructTuple\<close>. The default case keeps the value of the round before; a
  text that is a null pointer cannot be made a \<^verbatim>\<open>std::string\<close>.
\<close>

definition column_value :: "('q, 'd) sqlite \<Rightarrow> 'd vt_env \<Rightarrow> TypeId \<Rightarrow> 'q \<Rightarrow> 'd Value \<Rightarrow> 'd Value res" where
  "column_value Q V ty a v =
     (if ty = BOOLEAN \<or> ty = INTEGER \<or> ty = SMALLINT \<or> ty = TINYINT then Value_int32 ty (sqlite3_value_int Q a)
      else if ty = BIGINT then Value_int64 ty (sint (sqlite3_value_int64 Q a))
      else if ty = DECIMAL then Value_double (ve_cpp V) ty (sqlite3_value_double Q a)
      else if ty = VARCHAR
      then (case sqlite3_value_text Q a of None \<Rightarrow> fail Null_Deref | Some s \<Rightarrow> Value_string ty s)
      else ok v)"

fun row_values ::
  "('q, 'd) sqlite \<Rightarrow> 'd vt_env \<Rightarrow> Schema \<Rightarrow> 'q list \<Rightarrow> nat list \<Rightarrow> 'd Value \<Rightarrow> 'd Value list res" where
  "row_values Q V schema argv [] v = ok []"
| "row_values Q V schema argv (i # is) v =
     bindE (Schema_GetType schema (int i)) (\<lambda>ty.
     bindE (nth_res argv i) (\<lambda>a.
     bindE (column_value Q V ty a v) (\<lambda>v1.
     bindE (row_values Q V schema argv is v1) (\<lambda>vs. ok (v1 # vs)))))"

definition ConstructTuple :: "('q, 'd) sqlite \<Rightarrow> 'd vt_env \<Rightarrow> Schema \<Rightarrow> 'q list \<Rightarrow> Tuple res" where
  "ConstructTuple Q V schema argv =
     bindE (row_values Q V schema argv [0..<length (sch_columns schema)] (Value_of_type INVALID)) (\<lambda>vs.
       Tuple_make (ve_cpp V) (ve_mem V) vs schema)"

section \<open>Creating and opening tables\<close>

text \<open>\<^verbatim>\<open>substr(1, size - 2)\<close>, which drops the quotes; it throws on an empty string.\<close>

definition unquoted :: "string \<Rightarrow> string res" where
  "unquoted s =
     (if s = [] then fail (Std_Exception ''std::out_of_range'') else ok (take (length s - 2) (drop 1 s)))"

text \<open>The constructor of \<^verbatim>\<open>VirtualTable\<close>: a new table is created in a transaction of its own.\<close>

definition VirtualTable_make ::
  "'d vt_env \<Rightarrow> Schema \<Rightarrow> TableIndex option \<Rightarrow> nat \<Rightarrow> int \<Rightarrow> StorageEngine \<Rightarrow> (VirtualTable \<times> StorageEngine) res" where
  "VirtualTable_make V schema ix number first_page_id e =
     (if first_page_id \<noteq> INVALID_PAGE_ID
      then ok (\<lparr>vt_schema = schema, vt_first_page = first_page_id, vt_index = ix, vt_number = number\<rparr>, e)
      else
        (let (txn, tm) = tm_Begin (transaction_manager e) in
         bindE (th_create (ve_hash V) (buffer_pool_manager e)) (\<lambda>(first, p1).
         bindE (tm_Commit (ve_hash V) False (lock_manager e) txn p1) (\<lambda>(_, p2).
           ok (\<lparr>vt_schema = schema, vt_first_page = first, vt_index = ix, vt_number = number\<rparr>,
               e\<lparr>transaction_manager := tm, buffer_pool_manager := p2\<rparr>)))))"

definition make_index ::
  "string \<Rightarrow> string \<Rightarrow> Schema \<Rightarrow> (IndexMetadata \<Rightarrow> int res) \<Rightarrow> BufferPoolManager \<Rightarrow> TableIndex res" where
  "make_index index_string table_name schema root p =
     bindE (unquoted index_string) (\<lambda>sql.
     bindE (ParseIndexStatement sql table_name schema) (\<lambda>m.
     bindE (root m) (\<lambda>index_root_id.
     bindE (ConstructIndex m p index_root_id) (\<lambda>(ks, t).
       ok \<lparr>ix_key_size = ks, ix_meta = m, ix_tree = t\<rparr>))))"

text \<open>
  \<^verbatim>\<open>argv\<close> has the names of the module, the database and the table, then the declarations of the columns
  and optionally that of the index. The header page stays pinned until the end.
\<close>

definition VtabCreate ::
  "('q, 'd) sqlite \<Rightarrow> 'd vt_env \<Rightarrow> nat \<Rightarrow> string list \<Rightarrow> StorageEngine \<Rightarrow> (VirtualTable \<times> StorageEngine) res" where
  "VtabCreate Q V number argv e =
     bindE (bp_FetchPage (ve_hash V) HEADER_PAGE_ID (buffer_pool_manager e)) (\<lambda>(ptr, p0).
     bindE (assertE (length argv \<ge> 4)) (\<lambda>_.
     bindE (unquoted (argv ! 3)) (\<lambda>schema_string.
     bindE (ParseCreateStatement schema_string) (\<lambda>schema.
     bindE (if length argv > 4
            then bindE (make_index (argv ! 4) (argv ! 2) schema (\<lambda>_. ok INVALID_PAGE_ID) p0) (\<lambda>ix. ok (Some ix))
            else ok None) (\<lambda>ix.
     bindE (VirtualTable_make V schema ix number INVALID_PAGE_ID (e\<lparr>buffer_pool_manager := p0\<rparr>)) (\<lambda>(vt, e1).
     if ptr = 0 then fail Null_Deref
     else
       let p1 = buffer_pool_manager e1 in
       bindE (hp_InsertRecord (bp_peek p1 ptr) (name_bytes (argv ! 2)) (vt_first_page vt)) (\<lambda>(_, d).
       bindE (bp_UnpinPage (ve_hash V) HEADER_PAGE_ID True (bp_poke ptr d p1)) (\<lambda>(_, p2).
       bindE (assertE (sqlite3_declare_vtab Q (''CREATE TABLE X('' @ schema_string @ '');''))) (\<lambda>_.
         ok (vt, e1\<lparr>buffer_pool_manager := p2\<rparr>))))))))))"

text \<open>A root that the header page does not have leaves the variable for it uninitialised.\<close>

definition header_root :: "byte list \<Rightarrow> byte list \<Rightarrow> int res" where
  "header_root d nm =
     bindE (hp_GetRootId d nm) (\<lambda>r. case r of None \<Rightarrow> fail Undefined_Behaviour | Some root_id \<Rightarrow> ok root_id)"

definition VtabConnect ::
  "('q, 'd) sqlite \<Rightarrow> 'd vt_env \<Rightarrow> nat \<Rightarrow> string list \<Rightarrow> StorageEngine \<Rightarrow> (VirtualTable \<times> StorageEngine) res" where
  "VtabConnect Q V number argv e =
     bindE (assertE (length argv \<ge> 4)) (\<lambda>_.
     bindE (unquoted (argv ! 3)) (\<lambda>schema_string.
     bindE (ParseCreateStatement schema_string) (\<lambda>schema.
     bindE (bp_FetchPage (ve_hash V) HEADER_PAGE_ID (buffer_pool_manager e)) (\<lambda>(ptr, p0).
     if ptr = 0 then fail Null_Deref
     else
       bindE (header_root (bp_peek p0 ptr) (name_bytes (argv ! 2))) (\<lambda>table_root_id.
       bindE (if length argv > 4
              then bindE (make_index (argv ! 4) (argv ! 2) schema
                     (\<lambda>m. header_root (bp_peek p0 ptr) (im_name m)) p0) (\<lambda>ix. ok (Some ix))
              else ok None) (\<lambda>ix.
       bindE (VirtualTable_make V schema ix number table_root_id (e\<lparr>buffer_pool_manager := p0\<rparr>)) (\<lambda>(vt, e1).
       bindE (assertE (sqlite3_declare_vtab Q (''CREATE TABLE X('' @ schema_string @ '');''))) (\<lambda>_.
       bindE (bp_UnpinPage (ve_hash V) HEADER_PAGE_ID False (buffer_pool_manager e1)) (\<lambda>(_, p1).
         ok (vt, e1\<lparr>buffer_pool_manager := p1\<rparr>))))))))))"

section \<open>Choosing the index\<close>

text \<open>The fields of \<^verbatim>\<open>sqlite3_index_info\<close> that the callback reads; \<^verbatim>\<open>argvIndex\<close> of each constraint and \<^verbatim>\<open>idxNum\<close> it writes.\<close>

record index_constraint =
  usable :: bool
  iColumn :: int
  op_is_eq :: bool

fun best_index_loop ::
  "int list \<Rightarrow> index_constraint list \<Rightarrow> nat \<Rightarrow> nat \<Rightarrow> int list \<Rightarrow> nat \<times> bool \<times> int list" where
  "best_index_loop key_attrs [] i counter usage = (counter, True, usage)"
| "best_index_loop key_attrs (c # cs) i counter usage =
     (if \<not> usable c then best_index_loop key_attrs cs (Suc i) counter usage
      else if iColumn c \<in> set key_attrs then
        (if \<not> op_is_eq c then (counter, False, usage)
         else best_index_loop key_attrs cs (Suc i) (Suc counter) (usage[i := int i + 1]))
      else best_index_loop key_attrs cs (Suc i) counter usage)"

definition VtabBestIndex :: "VirtualTable \<Rightarrow> index_constraint list \<Rightarrow> int list \<times> int \<Rightarrow> int list \<times> int" where
  "VtabBestIndex vt cs info =
     (case vt_index vt of
        None \<Rightarrow> info
      | Some ix \<Rightarrow>
          (let key_attrs = im_key_attrs (ix_meta ix) in
           if length cs \<noteq> length key_attrs then info
           else
             (let (counter, scan, usage) = best_index_loop key_attrs cs 0 0 (fst info)
              in (usage, if counter = length key_attrs \<and> scan then 1 else snd info))))"

section \<open>Cursors\<close>

definition VtabOpen :: "'d vt_env \<Rightarrow> VirtualTable \<Rightarrow> StorageEngine \<Rightarrow> (Cursor \<times> StorageEngine) res" where
  "VtabOpen V vt e0 =
     (let e = (if global_transaction e0 = None then VtabBegin e0 else e0) in
      bindE (with_txn (global_transaction e) (\<lambda>txn.
        th_begin (ve_hash V) False (lock_manager e) (vt_first_page vt) txn (buffer_pool_manager e))) (\<lambda>(it, txn1, p).
      ok (\<lparr>cur_results = [], cur_offset = 0, cur_iterator = it,
           cur_txn = map_option txn_id txn1, is_index_scan = False\<rparr>,
          e\<lparr>global_transaction := txn1, buffer_pool_manager := p\<rparr>)))"

definition VtabClose :: "'d vt_env \<Rightarrow> StorageEngine \<Rightarrow> StorageEngine res" where
  "VtabClose V e = VtabCommit V e"

text \<open>The scan of a cursor has no transaction; that of the engine is not touched.\<close>

definition VtabFilter ::
  "('q, 'd) sqlite \<Rightarrow> 'd vt_env \<Rightarrow> int \<Rightarrow> 'q list \<Rightarrow> VirtualTable \<Rightarrow> Cursor \<Rightarrow> StorageEngine \<Rightarrow>
     (VirtualTable \<times> Cursor \<times> StorageEngine) res" where
  "VtabFilter Q V idxNum argv vt cur e =
     (if idxNum = 1 then
        (case vt_index vt of
           None \<Rightarrow> fail Null_Deref
         | Some ix \<Rightarrow>
             bindE (ConstructTuple Q V (im_key_schema (ix_meta ix)) argv) (\<lambda>scan_tuple.
             bindE (run_index V (\<lambda>E. ScanKey E (ve_fuel V) scan_tuple (cur_results cur)) None ix (buffer_pool_manager e))
               (\<lambda>(results, _, ix1, p).
             ok (vt\<lparr>vt_index := Some ix1\<rparr>, cur\<lparr>is_index_scan := True, cur_results := results\<rparr>,
                 e\<lparr>buffer_pool_manager := p\<rparr>))))
      else ok (vt, cur, e))"

text \<open>
  An iterator calls the heap with the transaction it was opened with. Once that one is gone the
  pointer dangles, which shows only when the heap writes through it.
\<close>

definition VtabNext :: "'d vt_env \<Rightarrow> Cursor \<Rightarrow> StorageEngine \<Rightarrow> (Cursor \<times> StorageEngine) res" where
  "VtabNext V cur e =
     (if is_index_scan cur then ok (cur\<lparr>cur_offset := cur_offset cur + 1\<rparr>, e)
      else
        (let txn = (if map_option txn_id (global_transaction e) = cur_txn cur then global_transaction e else None) in
         bindE (with_txn txn (\<lambda>txn.
           ti_next (ve_hash V) False (lock_manager e) (ve_fuel V) (cur_iterator cur) txn (buffer_pool_manager e)))
           (\<lambda>(it, txn1, p).
         ok (cur\<lparr>cur_iterator := it\<rparr>,
             e\<lparr>buffer_pool_manager := p,
               global_transaction := (if txn = None then global_transaction e else txn1)\<rparr>))))"

definition VtabEof :: "Cursor \<Rightarrow> bool" where
  "VtabEof cur =
     (if is_index_scan cur then cur_offset cur = int (length (cur_results cur))
      else ti_eq (tup_rid (cur_iterator cur)) ti_end)"

definition VtabRowid :: "Cursor \<Rightarrow> 64 word res" where
  "VtabRowid cur =
     (if is_index_scan cur
      then bindE (vec_at (cur_results cur) (cur_offset cur)) (\<lambda>r. ok (rid_Get r))
      else bindE (ti_deref (cur_iterator cur)) (\<lambda>t. ok (rid_Get (tup_rid t))))"

definition GetCurrentValue ::
  "'d vt_env \<Rightarrow> Schema \<Rightarrow> int \<Rightarrow> Cursor \<Rightarrow> StorageEngine \<Rightarrow> ('d Value \<times> StorageEngine) res" where
  "GetCurrentValue V schema column cur e =
     (if is_index_scan cur then
        bindE (vec_at (cur_results cur) (cur_offset cur)) (\<lambda>rid.
        bindE (vt_GetTuple V rid e) (\<lambda>(t, e1).
        bindE (Tuple_GetValue (ve_cpp V) t schema column) (\<lambda>v. ok (v, e1))))
      else
        bindE (ti_deref (cur_iterator cur)) (\<lambda>t.
        bindE (Tuple_GetValue (ve_cpp V) t schema column) (\<lambda>v. ok (v, e))))"

text \<open>What the callback hands to SQLite: a text ends at its first zero byte.\<close>

datatype 'd sqlite_result =
    Result_Int int
  | Result_Int64 int
  | Result_Double 'd
  | Result_Text "byte list option"
  | Result_Error

definition c_text :: "byte list option \<Rightarrow> byte list option res" where
  "c_text d =
     (case d of
        None \<Rightarrow> ok None
      | Some bs \<Rightarrow> if 0 \<in> set bs then ok (Some (takeWhile (\<lambda>b. b \<noteq> 0) bs)) else fail Out_Of_Bounds)"

definition result_of :: "TypeId \<Rightarrow> 'd Value \<Rightarrow> 'd sqlite_result res" where
  "result_of ty v =
     (case ty of
        TINYINT \<Rightarrow> bindE (GetAs_int Int8 v) (\<lambda>i. ok (Result_Int i))
      | BOOLEAN \<Rightarrow> bindE (GetAs_int Int8 v) (\<lambda>i. ok (Result_Int i))
      | SMALLINT \<Rightarrow> bindE (GetAs_int Int16 v) (\<lambda>i. ok (Result_Int i))
      | INTEGER \<Rightarrow> bindE (GetAs_int Int32 v) (\<lambda>i. ok (Result_Int i))
      | BIGINT \<Rightarrow> bindE (GetAs_int Int64 v) (\<lambda>i. ok (Result_Int64 i))
      | DECIMAL \<Rightarrow> bindE (GetAs_double v) (\<lambda>d. ok (Result_Double d))
      | VARCHAR \<Rightarrow> bindE (Value_GetData v) (\<lambda>d. bindE (c_text d) (\<lambda>t. ok (Result_Text t)))
      | _ \<Rightarrow> ok Result_Error)"

definition VtabColumn ::
  "'d vt_env \<Rightarrow> VirtualTable \<Rightarrow> int \<Rightarrow> Cursor \<Rightarrow> StorageEngine \<Rightarrow> ('d sqlite_result \<times> StorageEngine) res" where
  "VtabColumn V vt i cur e =
     bindE (Schema_GetType (vt_schema vt) i) (\<lambda>ty.
     bindE (GetCurrentValue V (vt_schema vt) i cur e) (\<lambda>(v, e1).
     bindE (result_of ty v) (\<lambda>r. ok (r, e1))))"

section \<open>Changing rows\<close>

definition VtabUpdate ::
  "('q, 'd) sqlite \<Rightarrow> 'd vt_env \<Rightarrow> 'q list \<Rightarrow> VirtualTable \<Rightarrow> StorageEngine \<Rightarrow> (VirtualTable \<times> StorageEngine) res" where
  "VtabUpdate Q V argv vt e =
     (if length argv = 1 then
        (let rid = rid_unpack (sqlite3_value_int64 Q (argv ! 0)) in
         bindE (vt_DeleteEntry V vt rid e) (\<lambda>(vt1, e1).
         bindE (vt_DeleteTuple V vt1 rid e1) (\<lambda>(_, e2). ok (vt1, e2))))
      else if length argv > 1 \<and> sqlite3_value_is_null Q (argv ! 0) then
        bindE (ConstructTuple Q V (vt_schema vt) (drop 2 argv)) (\<lambda>t.
        bindE (vt_InsertTuple V vt t rid_invalid e) (\<lambda>(_, rid, e1).
          vt_InsertEntry V vt t rid e1))
      else if length argv > 1 \<and> \<not> sqlite3_value_is_null Q (argv ! 0) then
        bindE (ConstructTuple Q V (vt_schema vt) (drop 2 argv)) (\<lambda>t.
        let rid = rid_unpack (sqlite3_value_int64 Q (argv ! 0)) in
        bindE (vt_DeleteEntry V vt rid e) (\<lambda>(vt1, e1).
        bindE (vt_UpdateTuple V vt1 t rid e1) (\<lambda>(updated, e2).
        bindE (if updated then ok (rid, e2)
               else
                 bindE (vt_DeleteTuple V vt1 rid e2) (\<lambda>(_, e3).
                 bindE (vt_InsertTuple V vt1 t rid e3) (\<lambda>(_, rid1, e4). ok (rid1, e4)))) (\<lambda>(rid1, e5).
          vt_InsertEntry V vt1 t rid1 e5))))
      else ok (vt, e))"

end
