(* ===== verification/Virtual_Table_Spec.thy ===== *)
theory Virtual_Table_Spec
  imports Virtual_Table Bpt_Spec
begin

text \<open>
  What a table promises to SQLite: heap and index work on one buffer pool without disturbing each
  other, so that a row that is inserted is found again through the index. The cases in which the
  callbacks do not do what SQLite expects are stated as well.
\<close>

section \<open>One pool for heap and index\<close>

text \<open>The heap and the tree describe a pool at rest in two ways.\<close>

lemma bp_rest_pool: "bp_rest h s \<longleftrightarrow> 0 < pool_size s \<and> bp_pool h (\<lambda>_. 0) {} s"
proof (cases "bp_good h s")
  case True
  obtain xs where sh: "bp_shape h s xs" using bp_good_shape [OF True] by blast
  have sync: "bp_sync s" using True by (simp add: bp_good_def)
  show ?thesis
  proof (intro iffI conjI)
    assume r: "bp_rest h s"
    show "0 < pool_size s" using r by (simp add: bp_rest_def)
    have "bp_pins h s pid = 0" for pid
      using r shape_lookup [OF sh] by (auto simp: bp_pins_def bp_rest_def split: option.splits)
    moreover have "bp_saved s t" if "eh_lookup h (page_table s) q = Some t" for q t
      using r sync shape_lookup [OF sh, of q t] that by (auto simp: bp_sync_def bp_rest_def)
    ultimately show "bp_pool h (\<lambda>_. 0) {} s" using True by (simp add: bp_pool_def fun_eq_iff)
  next
    assume p: "0 < pool_size s \<and> bp_pool h (\<lambda>_. 0) {} s"
    have "pin_count (frame s t) = 0" if t: "bp_ptr s t" for t
    proof (cases "page_id (frame s t) = INVALID_PAGE_ID")
      case True
      then show ?thesis using shape_frame [OF sh t] by (simp add: frame_ok_def)
    next
      case False
      then have "eh_lookup h (page_table s) (page_id (frame s t)) = Some t" using shape_lookup [OF sh] t by blast
      moreover have "bp_pins h s (page_id (frame s t)) = 0" using p by (simp add: bp_pool_def)
      ultimately show ?thesis by (simp add: bp_pins_def)
    qed
    then show "bp_rest h s" using p True by (simp add: bp_rest_def)
  qed
qed (simp add: bp_rest_def bp_pool_def)

lemma FetchPage_size:
  assumes "bp_FetchPage h pid s = Inr (tar, s')"
  shows "pool_size s' = pool_size s"
proof (cases "tar = 0")
  case False
  then show ?thesis using FetchPage_pages [OF assms] by blast
next
  case True
  obtain f where f: "eh_Find h (page_table s) pid = Inr f"
    using assms by (auto simp: bp_FetchPage_def bindE_eq_Inr)
  show ?thesis
  proof (cases f)
    case None
    then have "bp_GetVictimPage s = Inr (0, s')"
      using assms f True by (auto simp: bp_FetchPage_def bindE_eq_Inr split: if_splits)
    then show ?thesis by (rule GetVictimPage_pages(2))
  next
    case (Some t)
    then show ?thesis using assms f by (auto simp: bp_FetchPage_def bindE_eq_Inr bp_set_def)
  qed
qed

lemma UnpinPage_size: "bp_UnpinPage h pid b s = Inr (r, s') \<Longrightarrow> pool_size s' = pool_size s"
  by (auto simp: bp_UnpinPage_def bindE_eq_Inr Let_def bp_set_def split: option.splits if_splits)

lemma NewPage_size: "bp_NewPage h s = Inr (tar, pid, s') \<Longrightarrow> pool_size s' = pool_size s"
  by (auto simp: bp_NewPage_def bindE_eq_Inr bp_set_def split: if_splits prod.splits
      dest!: GetVictimPage_pages(2) bp_evict_pages(2))

lemma bp_poke_size [simp]: "pool_size (bp_poke t d s) = pool_size s"
  by (simp add: bp_poke_def bp_set_def)

lemma th_insert_loop_size:
  "th_insert_loop h lg lm t fuel ptr rid txn s = Inr (b, rid', txn', s') \<Longrightarrow> pool_size s' = pool_size s"
proof (induction fuel arbitrary: ptr rid txn s)
  case (Suc fuel)
  from Suc.prems show ?case
    by (auto simp: bindE_eq_Inr Let_def split: if_splits option.splits
        dest!: Suc.IH FetchPage_size UnpinPage_size NewPage_size)
qed simp

lemma th_InsertTuple_size:
  "th_InsertTuple h lg lm tbl first fuel t rid txn s = Inr (b, rid', txn', s') \<Longrightarrow> pool_size s' = pool_size s"
  by (auto simp: th_InsertTuple_def bindE_eq_Inr split: if_splits dest!: FetchPage_size th_insert_loop_size)

section \<open>A table with an index\<close>

text \<open>
  The invariant of a table between two callbacks: the heap on the pages \<open>ps\<close>, the tree of height \<open>n\<close>
  with the entries \<open>m\<close> on the pages \<open>ts\<close>, nothing pinned, latched or locked, and a transaction that holds
  no page.
\<close>

definition txn_clean :: "Transaction option \<Rightarrow> bool" where
  "txn_clean txn \<longleftrightarrow> (case txn of None \<Rightarrow> True | Some t \<Rightarrow> page_set t = [] \<and> deleted_page_set t = {})"

abbreviation ix_valid :: "'d vt_env \<Rightarrow> TableIndex \<Rightarrow> byte list \<Rightarrow> bool" where
  "ix_valid V ix \<equiv> key_valid (ve_cpp V) (im_key_schema (ix_meta ix))"

abbreviation ix_rank :: "'d vt_env \<Rightarrow> TableIndex \<Rightarrow> byte list \<Rightarrow> int list" where
  "ix_rank V ix \<equiv> key_rank (ve_cpp V) (im_key_schema (ix_meta ix))"

abbreviation ix_state :: "TableIndex \<Rightarrow> Transaction option \<Rightarrow> BufferPoolManager \<Rightarrow> BPlusTree" where
  "ix_state ix txn p \<equiv> (ix_tree ix)\<lparr>bpm := p, transaction := txn\<rparr>"

definition table_ok ::
  "'d vt_env \<Rightarrow> int list \<Rightarrow> int list \<Rightarrow> nat \<Rightarrow> (int list \<times> RID) list \<Rightarrow> VirtualTable \<Rightarrow> TableIndex \<Rightarrow> StorageEngine \<Rightarrow> bool" where
  "table_ok V ps ts n m vt ix e \<longleftrightarrow>
     vt_index vt = Some ix \<and> ps \<noteq> [] \<and> vt_first_page vt = hd ps \<and> set ps \<inter> set ts = {} \<and>
     th_ok (ve_hash V) ps (buffer_pool_manager e) \<and> th_chain (ve_hash V) (buffer_pool_manager e) ps \<and>
     rooted (ix_env V ix) (ix_valid V ix) (ix_rank V ix) n ts m (ix_state ix None (buffer_pool_manager e)) \<and>
     rwlatch (ix_tree ix) = (\<lambda>_. rw_init) \<and> root_free (ix_tree ix) \<and> txn_clean (global_transaction e)"

lemma ix_env_fields [simp]: "hash_fn (ix_env V ix) = ve_hash V" "key_size (ix_env V ix) = ix_key_size ix"
  "comparator (ix_env V ix) = GenericComparator (ve_cpp V) (im_key_schema (ix_meta ix))"
  by (simp_all add: ix_env_def index_env_def)

lemma rooted_txn: "rooted E valid rank n ts m (s\<lparr>transaction := x\<rparr>) = rooted E valid rank n ts m s"
  by (simp add: rooted_def)

text \<open>The index may start on the pool of the engine.\<close>

lemma table_at_rest:
  assumes "table_ok V ps ts n m vt ix e" and "txn_clean txn"
  shows "at_rest (ix_env V ix) (ix_state ix txn (buffer_pool_manager e))"
proof -
  have "bp_pool (ve_hash V) (\<lambda>_. 0) {} (buffer_pool_manager e)"
    using assms(1) bp_rest_pool th_ok_rest unfolding table_ok_def by blast
  then show ?thesis
    using assms by (auto simp: at_rest_def held_def recorded_def root_free_def table_ok_def txn_clean_def split: option.splits)
qed

text \<open>
  The invariant holds again when the heap has changed only its own pages, or the index only its own
  pages.
\<close>

lemma rooted_same_views:
  assumes "rooted E valid rank n ts m s" and "hash_fn E = h" and "root_page_id s' = root_page_id s"
    and "\<forall>q x. q \<in> set ts \<longrightarrow> bp_view h (bpm s) q = Some x \<longrightarrow> bp_view h (bpm s') q = Some x"
  shows "rooted E valid rank n ts m s'"
  unfolding rooted_def
proof (rule tree_of_cong [where V = "bp_view h (bpm s)"])
  show "tree_of valid rank (key_size E) (bp_view h (bpm s)) n (root_page_id s') ts m"
    using assms(1-3) by (simp add: rooted_def)
  then show "\<forall>q \<in> set ts. bp_view (hash_fn E) (bpm s') q = bp_view h (bpm s) q"
    using tree_of_views assms(2,4) by metis
qed

lemma leaf_for_cong:
  assumes "tree_of valid rank ks V n pid ts m" and "\<forall>q \<in> set ts. V' q = V q"
  shows "leaf_for rank ks V' n pid k = leaf_for rank ks V n pid k"
  using assms
proof (induction n arbitrary: pid ts m)
  case (Suc n)
  obtain d c cs cm where c: "tree_page V pid d INTERNAL_PAGE" "routed rank (internal_view ks d) k = c"
    "tree_of valid rank ks V n c cs cm" "pid \<in> set ts" "set cs \<subseteq> set ts"
    using tree_of_child [OF Suc.prems(1), of k] by metis
  have "leaf_for rank ks V' n c k = leaf_for rank ks V n c k" using Suc.IH [OF c(3)] c(5) Suc.prems(2) by blast
  then show ?case using c(1,2,4) Suc.prems(2) by (simp add: tree_page_def)
qed simp

lemma in_place_same_views:
  assumes "rooted E valid rank n ts m s" and "root_page_id s' = root_page_id s"
    and "\<forall>q \<in> set ts. bp_view (hash_fn E) (bpm s') q = bp_view (hash_fn E) (bpm s) q"
  shows "in_place E rank opr n key s' = in_place E rank opr n key s"
proof -
  note tree = assms(1) [unfolded rooted_def]
  have "leaf_for rank (key_size E) (bp_view (hash_fn E) (bpm s)) n (root_page_id s) (rank key) \<in> set ts"
    using tree_of_leaf_for [OF tree, of "rank key"] by blast
  then show ?thesis using leaf_for_cong [OF tree assms(3), of "rank key"] assms(2,3) by (simp add: in_place_def Let_def)
qed

text \<open>A table whose pool has changed on the pages of the heap.\<close>

lemma tree_views_kept:
  assumes "table_ok V ps ts n m vt ix e" and "others_kept (ve_hash V) ps (buffer_pool_manager e) p"
  shows "\<forall>q \<in> set ts. bp_view (ve_hash V) p q = bp_view (ve_hash V) (buffer_pool_manager e) q"
proof
  fix q assume q: "q \<in> set ts"
  then have "q \<notin> set ps" using assms(1) by (auto simp: table_ok_def)
  moreover obtain d where "bp_view (ve_hash V) (buffer_pool_manager e) q = Some d"
    using tree_of_views q assms(1) by (fastforce simp: table_ok_def rooted_def)
  ultimately show "bp_view (ve_hash V) p q = bp_view (ve_hash V) (buffer_pool_manager e) q"
    using assms(2) by (simp add: others_kept_def)
qed

lemma table_heap_changed:
  assumes ok: "table_ok V ps ts n m vt ix e" and "th_ok (ve_hash V) ps p" and "th_chain (ve_hash V) p ps"
    and kept: "others_kept (ve_hash V) ps (buffer_pool_manager e) p" and "txn_clean txn"
  shows "table_ok V ps ts n m vt ix (e\<lparr>global_transaction := txn, buffer_pool_manager := p\<rparr>)"
proof -
  have "rooted (ix_env V ix) (ix_valid V ix) (ix_rank V ix) n ts m (ix_state ix None (buffer_pool_manager e))"
    using ok by (simp add: table_ok_def)
  then have "rooted (ix_env V ix) (ix_valid V ix) (ix_rank V ix) n ts m (ix_state ix None p)"
    by (rule rooted_same_views) (use tree_views_kept [OF ok kept] in auto)
  then show ?thesis using assms by (simp add: table_ok_def)
qed

lemma rid_bounds:
  assumes "th_ok h ps s" and "th_content h ps s rid = Some (sz, bs)"
  shows "in32 (rid_page rid)" and "in32 (rid_slot rid)"
proof -
  obtain d k where "pid_ok (rid_page rid)" "rid_slot rid = int k" "k < tp_n d" "tp_wf d"
    using th_content_at [OF assms] by metis
  then show "in32 (rid_page rid)" "in32 (rid_slot rid)" using tp_wfD(5) [of d] by (auto simp: pid_ok_def)
qed

text \<open>Inserting a tuple into the heap.\<close>

lemma vt_InsertTuple_ok:
  assumes ok: "table_ok V ps ts n m vt ix e" and tx: "global_transaction e = Some txn"
    and t: "tuple_fits t" and room: "\<exists>q \<in> set ps. page_room (ve_hash V) (buffer_pool_manager e) (tup_size t) q"
    and fuel: "length ps \<le> ve_fuel V"
  obtains rid p where "vt_InsertTuple V vt t rid0 e =
      Inr (True, rid, e\<lparr>global_transaction := Some (txn_write txn rid INSERT tuple_dummy (vt_number vt)), buffer_pool_manager := p\<rparr>)"
    and "table_ok V ps ts n m vt ix
      (e\<lparr>global_transaction := Some (txn_write txn rid INSERT tuple_dummy (vt_number vt)), buffer_pool_manager := p\<rparr>)"
    and "th_content (ve_hash V) ps (buffer_pool_manager e) rid = None"
    and "th_content (ve_hash V) ps p = (th_content (ve_hash V) ps (buffer_pool_manager e))(rid := Some (tup_size t, tup_data t))"
    and "others_kept (ve_hash V) ps (buffer_pool_manager e) p" and "pool_size p = pool_size (buffer_pool_manager e)"
    and "in32 (rid_page rid)" and "in32 (rid_slot rid)"
proof -
  let ?h = "ve_hash V" and ?p = "buffer_pool_manager e"
  have a: "th_ok ?h ps ?p" "ps \<noteq> []" "th_chain ?h ?p ps" "vt_first_page vt = hd ps" "txn_clean (Some txn)"
    using ok tx by (auto simp: table_ok_def)
  obtain rid p where i: "th_InsertTuple ?h False (lock_manager e) (vt_number vt) (hd ps) (ve_fuel V) t rid0 txn ?p =
      Inr (True, rid, txn_write txn rid INSERT tuple_dummy (vt_number vt), p)"
    "th_ok ?h ps p" "th_chain ?h p ps" "th_content ?h ps ?p rid = None"
    "th_content ?h ps p = (th_content ?h ps ?p)(rid := Some (tup_size t, tup_data t))" "others_kept ?h ps ?p p"
    by (rule th_InsertTuple_ok [OF a(1-3) room t fuel])
  have r: "th_content ?h ps p rid = Some (tup_size t, tup_data t)" using i(5) by simp
  have c: "txn_clean (Some (txn_write txn rid INSERT tuple_dummy (vt_number vt)))"
    using a(5) by (simp add: txn_clean_def txn_write_def)
  show thesis
    by (rule that [OF _ table_heap_changed [OF ok i(2,3,6) c] i(4-6) th_InsertTuple_size [OF i(1)] rid_bounds [OF i(2) r]])
      (use i(1) tx a(4) in \<open>simp add: vt_InsertTuple_def with_txn_def\<close>)
qed

text \<open>A table whose pool has changed on the pages of the tree.\<close>

lemma table_index_changed:
  assumes ok: "table_ok V ps ts n m vt ix e"
    and tree: "rooted (ix_env V ix) (ix_valid V ix) (ix_rank V ix) n ts M t" and rest: "at_rest (ix_env V ix) t"
    and kept: "\<forall>q x. q \<in> set ps \<longrightarrow> bp_view (ve_hash V) (buffer_pool_manager e) q = Some x \<longrightarrow> bp_view (ve_hash V) (bpm t) q = Some x"
    and sz: "pool_size (bpm t) = pool_size (buffer_pool_manager e)"
    and e': "buffer_pool_manager e' = bpm t" "txn_clean (global_transaction e')"
  shows "table_ok V ps ts n M (vt\<lparr>vt_index := Some (ix\<lparr>ix_tree := t\<rparr>)\<rparr>) (ix\<lparr>ix_tree := t\<rparr>) e'"
    and "th_content (ve_hash V) ps (bpm t) = th_content (ve_hash V) ps (buffer_pool_manager e)"
proof -
  let ?h = "ve_hash V" and ?p = "buffer_pool_manager e"
  have a: "th_ok ?h ps ?p" "th_chain ?h ?p ps" using ok by (simp_all add: table_ok_def)
  have v: "bp_view ?h (bpm t) q = bp_view ?h ?p q" if "q \<in> set ps" for q
    using th_ok_page [OF a(1) that] kept that by metis
  have "bp_rest ?h (bpm t)"
    using rest_pool [OF rest] th_ok_rest [OF a(1)] sz by (simp add: bp_rest_pool)
  then have "th_ok ?h ps (bpm t)" using a(1) v by (auto simp: th_ok_def)
  moreover have "th_chain ?h (bpm t) ps" using th_chain_cong [of ps ?h "bpm t" ?p] v a(2) by (simp add: page_next_def)
  moreover have "rooted (ix_env V (ix\<lparr>ix_tree := t\<rparr>)) (ix_valid V ix) (ix_rank V ix) n ts M (t\<lparr>transaction := None\<rparr>)"
    using tree by (simp add: rooted_txn ix_env_def)
  moreover have "t\<lparr>bpm := bpm t, transaction := None\<rparr> = t\<lparr>transaction := None\<rparr>" by simp
  moreover have "rwlatch t = (\<lambda>_. rw_init)" "root_free t" using rest by (auto simp: at_rest_def held_def)
  ultimately show "table_ok V ps ts n M (vt\<lparr>vt_index := Some (ix\<lparr>ix_tree := t\<rparr>)\<rparr>) (ix\<lparr>ix_tree := t\<rparr>) e'"
    using ok e' by (simp add: table_ok_def)
  show "th_content ?h ps (bpm t) = th_content ?h ps ?p" using v by (auto simp: th_content_def fun_eq_iff)
qed

lemma at_rest_clean: "at_rest E s \<Longrightarrow> txn_clean (transaction s)"
  by (auto simp: at_rest_def recorded_def txn_clean_def split: option.splits)

lemma clear_pages_clean: "txn_clean a \<Longrightarrow> txn_clean b \<Longrightarrow> clear_pages a = clear_pages b \<Longrightarrow> a = b"
proof -
  have "clear_pages x = x" if "txn_clean x" for x
  proof (cases x)
    case (Some t)
    then show ?thesis using that by (cases t) (simp add: clear_pages_def txn_clean_def)
  qed (simp add: clear_pages_def)
  then show "txn_clean a \<Longrightarrow> txn_clean b \<Longrightarrow> clear_pages a = clear_pages b \<Longrightarrow> a = b" by simp
qed

text \<open>Inserting the entry of a row into the index.\<close>

lemma vt_InsertEntry_ok:
  assumes ok: "table_ok V ps ts n m vt ix e" and tx: "global_transaction e = Some txn"
    and key: "key_tuple V (vt_schema vt) ix t = ok kt" "SetFromKey (ix_key_size ix) kt = ok key" "ix_valid V ix key"
    and rid: "in32 (rid_page rid)" "in32 (rid_slot rid)"
    and fuel: "n < ve_fuel V" and room: "n < pool_size (buffer_pool_manager e)"
    and new: "map_of m (ix_rank V ix key) = None"
    and place: "in_place (ix_env V ix) (ix_rank V ix) OpInsert n key (ix_state ix None (buffer_pool_manager e))"
  obtains t1 M where "vt_InsertEntry V vt t rid e = Inr (vt\<lparr>vt_index := Some (ix\<lparr>ix_tree := t1\<rparr>)\<rparr>, e\<lparr>buffer_pool_manager := bpm t1\<rparr>)"
    and "table_ok V ps ts n M (vt\<lparr>vt_index := Some (ix\<lparr>ix_tree := t1\<rparr>)\<rparr>) (ix\<lparr>ix_tree := t1\<rparr>) (e\<lparr>buffer_pool_manager := bpm t1\<rparr>)"
    and "map_of M = (map_of m)(ix_rank V ix key \<mapsto> rid)"
    and "th_content (ve_hash V) ps (bpm t1) = th_content (ve_hash V) ps (buffer_pool_manager e)"
    and "pool_size (bpm t1) = pool_size (buffer_pool_manager e)"
proof -
  let ?E = "ix_env V ix" and ?p = "buffer_pool_manager e" and ?v = "ix_valid V ix" and ?r = "ix_rank V ix"
  let ?s = "ix_state ix (Some txn) ?p"
  have cl: "txn_clean (Some txn)" and ix: "vt_index vt = Some ix" using ok tx by (simp_all add: table_ok_def)
  have "rooted ?E ?v ?r n ts m (ix_state ix None ?p)" using ok by (simp add: table_ok_def)
  then have tree: "rooted ?E ?v ?r n ts m ?s" by (simp add: rooted_def)
  have rest: "at_rest ?E ?s" using table_at_rest [OF ok cl] .
  have pl: "in_place ?E ?r OpInsert n key ?s" using place by (simp add: in_place_def)
  have len: "length key = key_size ?E" using length_SetFromKey [OF key(2)] by simp
  define lf where "lf = leaf_for ?r (key_size ?E) (bp_view (hash_fn ?E) (bpm ?s)) n (root_page_id ?s) (?r key)"
  have lf: "lf \<in> set ts" using tree_of_leaf_for [OF tree [unfolded rooted_def], of "?r key"] unfolding lf_def by blast
  have n: "transaction ?s \<noteq> None" "n < pool_size (bpm ?s)" using room by simp_all
  from ix.Insert_in_place [OF tree [unfolded rooted_def ix_env_def] rest [unfolded ix_env_def] n(1) key(3) len [unfolded ix_env_def] rid
      fuel n(2) pl [unfolded ix_env_def] lf_def [unfolded ix_env_def]]
  obtain t1 M where i: "InsertIntoLeaf ?E (ve_fuel V) key rid ?s = Inr (True, t1)" "at_rest ?E t1" "rooted ?E ?v ?r n ts M t1"
    "map_of M = (map_of m)(?r key \<mapsto> rid)" "kept_but ?E lf ?s t1"
    using new unfolding ix_env_def [symmetric] by auto
  have "root_page_id ?s \<noteq> INVALID_PAGE_ID" using tree_of_page [OF tree [unfolded rooted_def]] by fastforce
  then have "Insert ?E (ve_fuel V) key rid ?s = Inr (True, t1)"
    using root_locked(1,3) [OF rest] i(1) by (simp add: Insert_def IsEmpty_def op_simps)
  then have run: "InsertEntry ?E (ve_fuel V) kt rid ?s = Inr ((), t1)" using key(2) by (simp add: InsertEntry_def op_simps)
  have tx1: "transaction t1 = Some txn"
    using clear_pages_clean [OF at_rest_clean [OF i(2)] cl] i(5) by (simp add: kept_but_def)
  have sz: "pool_size (bpm t1) = pool_size ?p" using i(5) by (simp add: kept_but_def)
  have kp: "\<forall>q x. q \<in> set ps \<longrightarrow> bp_view (ve_hash V) ?p q = Some x \<longrightarrow> bp_view (ve_hash V) (bpm t1) q = Some x"
    using i(5) lf ok by (fastforce simp: kept_but_def table_ok_def)
  have e1: "e\<lparr>global_transaction := Some txn, buffer_pool_manager := bpm t1\<rparr> = e\<lparr>buffer_pool_manager := bpm t1\<rparr>"
    using tx by simp
  have e2: "buffer_pool_manager (e\<lparr>buffer_pool_manager := bpm t1\<rparr>) = bpm t1" "txn_clean (global_transaction (e\<lparr>buffer_pool_manager := bpm t1\<rparr>))"
    using tx cl by simp_all
  note ch = table_index_changed [OF ok i(3,2) kp sz e2]
  show thesis
    by (rule that [OF _ ch(1) i(4) ch(2) sz]) (use ix key(1) run tx tx1 in \<open>simp add: vt_InsertEntry_def run_index_def\<close>)
qed

text \<open>A scan through the index.\<close>

lemma VtabFilter_ok:
  assumes ok: "table_ok V ps ts n m vt ix e"
    and key: "ConstructTuple Q V (im_key_schema (ix_meta ix)) argv = ok kt" "SetFromKey (ix_key_size ix) kt = ok key" "ix_valid V ix key"
    and fuel: "n < ve_fuel V" and room: "2 \<le> pool_size (buffer_pool_manager e)"
  obtains t1 where "VtabFilter Q V 1 argv vt cur e = Inr (vt\<lparr>vt_index := Some (ix\<lparr>ix_tree := t1\<rparr>)\<rparr>,
      cur\<lparr>is_index_scan := True, 
        cur_results := (case map_of m (ix_rank V ix key) of Some w \<Rightarrow> [w] | None \<Rightarrow> resize1 (cur_results cur))\<rparr>,
      e\<lparr>buffer_pool_manager := bpm t1\<rparr>)"
    and "table_ok V ps ts n m (vt\<lparr>vt_index := Some (ix\<lparr>ix_tree := t1\<rparr>)\<rparr>) (ix\<lparr>ix_tree := t1\<rparr>) (e\<lparr>buffer_pool_manager := bpm t1\<rparr>)"
    and "th_content (ve_hash V) ps (bpm t1) = th_content (ve_hash V) ps (buffer_pool_manager e)"
proof -
  let ?E = "ix_env V ix" and ?p = "buffer_pool_manager e" and ?v = "ix_valid V ix" and ?r = "ix_rank V ix"
  let ?s = "ix_state ix None ?p"
  have cl: "txn_clean None" and ix: "vt_index vt = Some ix" using ok by (simp_all add: table_ok_def txn_clean_def)
  have tree: "rooted ?E ?v ?r n ts m ?s" using ok by (simp add: table_ok_def)
  have rest: "at_rest ?E ?s" using table_at_rest [OF ok cl] .
  have sz2: "2 \<le> pool_size (bpm ?s)" using room by simp
  from ix.GetValue_ok [OF rooted_stores [OF tree, unfolded ix_env_def] rest [unfolded ix_env_def] key(3) fuel sz2, of "cur_results cur"]
  obtain t1 where g: "GetValue ?E (ve_fuel V) key (cur_results cur) ?s =
      Inr ((map_of m (?r key) \<noteq> None, lookup_result (root_page_id ?s) (map_of m (?r key)) (cur_results cur)), t1)"
    "at_rest ?E t1" "kept ?E ?s t1"
    unfolding ix_env_def [symmetric] by blast
  have tree1: "rooted ?E ?v ?r n ts m t1"
    using kept_tree [OF g(3) tree [unfolded rooted_def]] g(3) by (simp add: rooted_def kept_def)
  have "root_page_id ?s \<noteq> INVALID_PAGE_ID" using tree_of_page [OF tree [unfolded rooted_def]] by fastforce
  then have run: "ScanKey ?E (ve_fuel V) kt (cur_results cur) ?s = 
      Inr (case map_of m (?r key) of Some w \<Rightarrow> [w] | None \<Rightarrow> resize1 (cur_results cur), t1)"
    using g(1) key(2) by (simp add: ScanKey_def lookup_result_def op_simps)
  have sz: "pool_size (bpm t1) = pool_size ?p" using g(3) by (simp add: kept_def)
  have kp: "\<forall>q x. q \<in> set ps \<longrightarrow> bp_view (ve_hash V) ?p q = Some x \<longrightarrow> bp_view (ve_hash V) (bpm t1) q = Some x"
    using g(3) by (simp add: kept_def)
  have e2: "buffer_pool_manager (e\<lparr>buffer_pool_manager := bpm t1\<rparr>) = bpm t1" "txn_clean (global_transaction (e\<lparr>buffer_pool_manager := bpm t1\<rparr>))"
    using ok by (simp_all add: table_ok_def)
  note ch = table_index_changed [OF ok tree1 g(2) kp sz e2]
  show thesis
    by (rule that [OF _ ch]) (use ix key(1) run in \<open>simp add: VtabFilter_def run_index_def\<close>)
qed

text \<open>Reading a column of the row a scan has found.\<close>

lemma Tuple_GetValue_data:
  assumes v: "Tuple_GetValue F t s i = ok v" and t': "tup_data t' = tup_data t" "allocated t'"
  shows "Tuple_GetValue F t' s i = ok v"
proof -
  have "Tuple_has_data t" using v by (auto simp: Tuple_GetValue_def bindE_eq_Inr assertE_def split: if_splits)
  moreover have "Tuple_has_data t'" using t'(2) by (simp add: Tuple_has_data_def)
  ultimately show ?thesis using v t'(1) by (simp add: Tuple_GetValue_def Tuple_GetDataPtr_def cong: if_cong)
qed

lemma VtabColumn_ok:
  assumes ok: "table_ok V ps ts n m vt ix e"
    and cur: "is_index_scan cur" "cur_results cur = [rid]" "cur_offset cur = 0"
    and t: "th_content (ve_hash V) ps (buffer_pool_manager e) rid = Some (sz, tup_data t)" "0 < sz"
    and col: "Schema_GetType (vt_schema vt) i = ok ty" "Tuple_GetValue (ve_cpp V) t (vt_schema vt) i = ok v"
  obtains e1 where "VtabColumn V vt i cur e = bindE (result_of ty v) (\<lambda>r. ok (r, e1))"
    and "table_ok V ps ts n m vt ix e1"
proof -
  let ?h = "ve_hash V" and ?p = "buffer_pool_manager e"
  define txn where "txn = (case global_transaction e of None \<Rightarrow> txn_init 0 | Some x \<Rightarrow> x)"
  have a: "th_ok ?h ps ?p" "th_chain ?h ?p ps" "txn_clean (global_transaction e)" using ok by (simp_all add: table_ok_def)
  obtain p where g: "th_GetTuple ?h False (lock_manager e) rid (tuple_dummy\<lparr>tup_rid := rid\<rparr>) txn ?p =
      Inr (True, \<lparr>allocated = True, tup_rid = rid, tup_size = sz, tup_data = tup_data t\<rparr>, txn, p)" "th_ok ?h ps p"
    "\<forall>q x. bp_view ?h ?p q = Some x \<longrightarrow> bp_view ?h p q = Some x"
    by (rule th_GetTuple_ok [OF a(1) t])
  let ?t = "\<lparr>allocated = True, tup_rid = rid, tup_size = sz, tup_data = tup_data t\<rparr>" and ?e = "e\<lparr>buffer_pool_manager := p\<rparr>"
  have get: "vt_GetTuple V rid e = Inr (?t, ?e)"
    using g(1) by (cases "global_transaction e") (auto simp: vt_GetTuple_def with_txn_def txn_def)
  have "Tuple_GetValue (ve_cpp V) ?t (vt_schema vt) i = ok v"
    by (rule Tuple_GetValue_data [OF col(2)]) simp_all
  then have col: "VtabColumn V vt i cur e = bindE (result_of ty v) (\<lambda>r. ok (r, ?e))"
    using cur get col(1) by (simp add: VtabColumn_def GetCurrentValue_def vec_at_def)
  have "th_chain ?h p ps" using th_chain_cong [of ps ?h p ?p] th_same_views(3) [OF a(1) th_ok_rest [OF g(2)] g(3)] a(2) by blast
  then have "table_ok V ps ts n m vt ix (e\<lparr>global_transaction := global_transaction e, buffer_pool_manager := p\<rparr>)"
    using table_heap_changed [OF ok g(2) _ _ a(3)] g(3) by (simp add: others_kept_def)
  then have "table_ok V ps ts n m vt ix ?e" by simp
  with col show thesis by (rule that)
qed

section \<open>Properties\<close>

text \<open>
  \<open>vt_room\<close> collects the bounds: the fuel, and the frames that the descent of the tree takes.
  \<open>row_insertable\<close>: the tuple \<open>t\<close> with the index key \<open>key\<close> fits on a page of the heap, the key is new and
  its leaf has room.
\<close>

definition vt_room :: "'d vt_env \<Rightarrow> int list \<Rightarrow> nat \<Rightarrow> StorageEngine \<Rightarrow> bool" where
  "vt_room V ps n e \<longleftrightarrow> length ps \<le> ve_fuel V \<and> n < ve_fuel V \<and> n < pool_size (buffer_pool_manager e) \<and>
     2 \<le> pool_size (buffer_pool_manager e)"

definition row_insertable ::
  "'d vt_env \<Rightarrow> int list \<Rightarrow> nat \<Rightarrow> (int list \<times> RID) list \<Rightarrow> VirtualTable \<Rightarrow> TableIndex \<Rightarrow> Tuple \<Rightarrow> byte list \<Rightarrow> StorageEngine \<Rightarrow> bool" where
  "row_insertable V ps n m vt ix t key e \<longleftrightarrow>
     tuple_fits t \<and> (\<exists>q \<in> set ps. page_room (ve_hash V) (buffer_pool_manager e) (tup_size t) q) \<and>
     bindE (key_tuple V (vt_schema vt) ix t) (SetFromKey (ix_key_size ix)) = ok key \<and>
     ix_valid V ix key \<and> map_of m (ix_rank V ix key) = None \<and>
     in_place (ix_env V ix) (ix_rank V ix) OpInsert n key (ix_state ix None (buffer_pool_manager e))"

lemma insert_row:
  assumes ok: "table_ok V ps ts n m vt ix e" and tx: "global_transaction e \<noteq> None" and room: "vt_room V ps n e"
    and argv: "length argv > 1" "sqlite3_value_is_null Q (argv ! 0)"
    and t: "ConstructTuple Q V (vt_schema vt) (drop 2 argv) = ok t" and row: "row_insertable V ps n m vt ix t key e"
  obtains rid t1 e1 M where "VtabUpdate Q V argv vt e = Inr (vt\<lparr>vt_index := Some (ix\<lparr>ix_tree := t1\<rparr>)\<rparr>, e1)"
    and "table_ok V ps ts n M (vt\<lparr>vt_index := Some (ix\<lparr>ix_tree := t1\<rparr>)\<rparr>) (ix\<lparr>ix_tree := t1\<rparr>) e1"
    and "map_of M = (map_of m)(ix_rank V ix key \<mapsto> rid)"
    and "th_content (ve_hash V) ps (buffer_pool_manager e) rid = None"
    and "th_content (ve_hash V) ps (buffer_pool_manager e1) =
      (th_content (ve_hash V) ps (buffer_pool_manager e))(rid := Some (tup_size t, tup_data t))"
    and "vt_room V ps n e1"
proof -
  obtain txn where txn: "global_transaction e = Some txn" using tx by blast
  obtain kt where key: "key_tuple V (vt_schema vt) ix t = ok kt" "SetFromKey (ix_key_size ix) kt = ok key"
    using row by (auto simp: row_insertable_def bindE_eq_Inr)
  have r: "tuple_fits t" "\<exists>q \<in> set ps. page_room (ve_hash V) (buffer_pool_manager e) (tup_size t) q" "ix_valid V ix key"
    "map_of m (ix_rank V ix key) = None"
    "in_place (ix_env V ix) (ix_rank V ix) OpInsert n key (ix_state ix None (buffer_pool_manager e))"
    using row by (simp_all add: row_insertable_def)
  have b: "length ps \<le> ve_fuel V" "n < ve_fuel V" "n < pool_size (buffer_pool_manager e)" using room by (simp_all add: vt_room_def)
  obtain rid p where i: "vt_InsertTuple V vt t rid_invalid e =
      Inr (True, rid, e\<lparr>global_transaction := Some (txn_write txn rid INSERT tuple_dummy (vt_number vt)), buffer_pool_manager := p\<rparr>)"
    "table_ok V ps ts n m vt ix
      (e\<lparr>global_transaction := Some (txn_write txn rid INSERT tuple_dummy (vt_number vt)), buffer_pool_manager := p\<rparr>)"
    "th_content (ve_hash V) ps (buffer_pool_manager e) rid = None"
    "th_content (ve_hash V) ps p = (th_content (ve_hash V) ps (buffer_pool_manager e))(rid := Some (tup_size t, tup_data t))"
    "others_kept (ve_hash V) ps (buffer_pool_manager e) p" "pool_size p = pool_size (buffer_pool_manager e)"
    "in32 (rid_page rid)" "in32 (rid_slot rid)"
    by (rule vt_InsertTuple_ok [OF ok txn r(1,2) b(1)])
  let ?e = "e\<lparr>global_transaction := Some (txn_write txn rid INSERT tuple_dummy (vt_number vt)), buffer_pool_manager := p\<rparr>"
  have tr: "rooted (ix_env V ix) (ix_valid V ix) (ix_rank V ix) n ts m (ix_state ix None (buffer_pool_manager e))"
    using ok by (simp add: table_ok_def)
  have pl: "in_place (ix_env V ix) (ix_rank V ix) OpInsert n key (ix_state ix None (buffer_pool_manager ?e))"
    using in_place_same_views [OF tr, of "ix_state ix None p"] tree_views_kept [OF ok i(5)] r(5) by simp
  have tx2: "global_transaction ?e = Some (txn_write txn rid INSERT tuple_dummy (vt_number vt))" "n < pool_size (buffer_pool_manager ?e)"
    using b(3) i(6) by simp_all
  obtain t1 M where j: "vt_InsertEntry V vt t rid ?e = Inr (vt\<lparr>vt_index := Some (ix\<lparr>ix_tree := t1\<rparr>)\<rparr>, ?e\<lparr>buffer_pool_manager := bpm t1\<rparr>)"
    "table_ok V ps ts n M (vt\<lparr>vt_index := Some (ix\<lparr>ix_tree := t1\<rparr>)\<rparr>) (ix\<lparr>ix_tree := t1\<rparr>) (?e\<lparr>buffer_pool_manager := bpm t1\<rparr>)"
    "map_of M = (map_of m)(ix_rank V ix key \<mapsto> rid)"
    "th_content (ve_hash V) ps (bpm t1) = th_content (ve_hash V) ps (buffer_pool_manager ?e)"
    "pool_size (bpm t1) = pool_size (buffer_pool_manager ?e)"
    by (rule vt_InsertEntry_ok [OF i(2) tx2(1) key r(3) i(7,8) b(2) tx2(2) r(4) pl])
  show thesis
    by (rule that [OF _ j(2,3) i(3)]) (use argv t i(1,4,6) j(1,4,5) room in \<open>simp_all add: VtabUpdate_def vt_room_def\<close>)
qed

text \<open>
  C1. A row that SQL inserts is found through the index. On a table with a non-empty index, inside a
  transaction, when the row fits on a page of the table, its key is new and the leaf of the key has
  room: the insertion callback returns and keeps the table well formed, and a new cursor that scans the
  index with values of the same key is not at its end, has the identifier of the row, and delivers every
  column with the value that the row was built from.
\<close>

theorem vtab_insert_select:
  assumes "table_ok V ps ts n m vt ix e" and "global_transaction e \<noteq> None" and "vt_room V ps n e"
    and "length argv > 1" and "sqlite3_value_is_null Q (argv ! 0)"
    and "ConstructTuple Q V (vt_schema vt) (drop 2 argv) = ok t" and "row_insertable V ps n m vt ix t key e"
    and "bindE (ConstructTuple Q V (im_key_schema (ix_meta ix)) kargv) (SetFromKey (ix_key_size ix)) = ok key'"
    and "ix_valid V ix key'" and "ix_rank V ix key' = ix_rank V ix key"
    and "cur_results cur = []" and "cur_offset cur = 0"
    and "Schema_GetType (vt_schema vt) i = ok ty" and "Tuple_GetValue (ve_cpp V) t (vt_schema vt) i = ok v"
  shows "\<exists>vt1 e1 vt2 cur2 e2 e3 rid ix3 M.
    VtabUpdate Q V argv vt e = Inr (vt1, e1) \<and>
    th_content (ve_hash V) ps (buffer_pool_manager e) rid = None \<and>
    th_content (ve_hash V) ps (buffer_pool_manager e1) =
      (th_content (ve_hash V) ps (buffer_pool_manager e))(rid := Some (tup_size t, tup_data t)) \<and>
    VtabFilter Q V 1 kargv vt1 cur e1 = Inr (vt2, cur2, e2) \<and> \<not> VtabEof cur2 \<and>
    VtabRowid cur2 = Inr (rid_Get rid) \<and>
    VtabColumn V vt2 i cur2 e2 = bindE (result_of ty v) (\<lambda>r. ok (r, e3)) \<and>
    table_ok V ps ts n M vt2 ix3 e3 \<and> map_of M = (map_of m)(ix_rank V ix key \<mapsto> rid)"
proof -
  obtain rid t1 e1 M where u: "VtabUpdate Q V argv vt e = Inr (vt\<lparr>vt_index := Some (ix\<lparr>ix_tree := t1\<rparr>)\<rparr>, e1)"
    "table_ok V ps ts n M (vt\<lparr>vt_index := Some (ix\<lparr>ix_tree := t1\<rparr>)\<rparr>) (ix\<lparr>ix_tree := t1\<rparr>) e1"
    "map_of M = (map_of m)(ix_rank V ix key \<mapsto> rid)"
    "th_content (ve_hash V) ps (buffer_pool_manager e) rid = None"
    "th_content (ve_hash V) ps (buffer_pool_manager e1) =
      (th_content (ve_hash V) ps (buffer_pool_manager e))(rid := Some (tup_size t, tup_data t))" "vt_room V ps n e1"
    by (rule insert_row [OF assms(1-7)])
  let ?ix1 = "ix\<lparr>ix_tree := t1\<rparr>" and ?vt1 = "vt\<lparr>vt_index := Some (ix\<lparr>ix_tree := t1\<rparr>)\<rparr>"
  obtain kt where k: "ConstructTuple Q V (im_key_schema (ix_meta ?ix1)) kargv = ok kt" "SetFromKey (ix_key_size ?ix1) kt = ok key'"
    "ix_valid V ?ix1 key'" "n < ve_fuel V" "2 \<le> pool_size (buffer_pool_manager e1)"
    using assms(8,9) u(6) by (auto simp: bindE_eq_Inr vt_room_def)
  let ?cur2 = "cur\<lparr>is_index_scan := True, cur_results := [rid]\<rparr>"
  obtain t2 where f: "VtabFilter Q V 1 kargv ?vt1 cur e1 =
      Inr (?vt1\<lparr>vt_index := Some (?ix1\<lparr>ix_tree := t2\<rparr>)\<rparr>, ?cur2, e1\<lparr>buffer_pool_manager := bpm t2\<rparr>)"
    "table_ok V ps ts n M (?vt1\<lparr>vt_index := Some (?ix1\<lparr>ix_tree := t2\<rparr>)\<rparr>) (?ix1\<lparr>ix_tree := t2\<rparr>) (e1\<lparr>buffer_pool_manager := bpm t2\<rparr>)"
    "th_content (ve_hash V) ps (bpm t2) = th_content (ve_hash V) ps (buffer_pool_manager e1)"
    by (rule VtabFilter_ok [OF u(2) k, of cur]) (use u(3) assms(10) in auto)
  let ?vt2 = "?vt1\<lparr>vt_index := Some (?ix1\<lparr>ix_tree := t2\<rparr>)\<rparr>" and ?e2 = "e1\<lparr>buffer_pool_manager := bpm t2\<rparr>"
  have c: "is_index_scan ?cur2" "cur_results ?cur2 = [rid]" "cur_offset ?cur2 = 0"
    "th_content (ve_hash V) ps (buffer_pool_manager ?e2) rid = Some (tup_size t, tup_data t)" "0 < tup_size t"
    "Schema_GetType (vt_schema ?vt2) i = ok ty" "Tuple_GetValue (ve_cpp V) t (vt_schema ?vt2) i = ok v"
    using f(3) u(5) assms(7,12-14) by (auto simp: row_insertable_def tuple_fits_def)
  obtain e3 where g: "VtabColumn V ?vt2 i ?cur2 ?e2 = bindE (result_of ty v) (\<lambda>r. ok (r, e3))"
    "table_ok V ps ts n M ?vt2 (?ix1\<lparr>ix_tree := t2\<rparr>) e3"
    by (rule VtabColumn_ok [OF f(2) c])
  have "\<not> VtabEof ?cur2" "VtabRowid ?cur2 = Inr (rid_Get rid)"
    using assms(12) by (simp_all add: VtabEof_def VtabRowid_def vec_at_def)
  then show ?thesis using u(1,3-5) f(1) g by blast
qed

text \<open>
  C39. A scan for a key that the index does not hold delivers a row that does not exist: on a table with
  a non-empty index the cursor is not at its end, and the identifier of its row is the packed invalid
  one, all bits set.
\<close>

theorem vtab_absent_key_row:
  assumes "table_ok V ps ts n m vt ix e" and "vt_room V ps n e"
    and "bindE (ConstructTuple Q V (im_key_schema (ix_meta ix)) kargv) (SetFromKey (ix_key_size ix)) = ok key"
    and "ix_valid V ix key" and "map_of m (ix_rank V ix key) = None"
    and "cur_results cur = []" and "cur_offset cur = 0"
  shows "\<exists>vt1 cur1 e1. VtabFilter Q V 1 kargv vt cur e = Inr (vt1, cur1, e1) \<and>
    \<not> VtabEof cur1 \<and> VtabRowid cur1 = Inr (- 1)"
proof -
  obtain kt where k: "ConstructTuple Q V (im_key_schema (ix_meta ix)) kargv = ok kt" "SetFromKey (ix_key_size ix) kt = ok key"
    "n < ve_fuel V" "2 \<le> pool_size (buffer_pool_manager e)"
    using assms(2,3) by (auto simp: bindE_eq_Inr vt_room_def)
  let ?cur1 = "cur\<lparr>is_index_scan := True, cur_results := [rid_invalid]\<rparr>"
  obtain t1 where "VtabFilter Q V 1 kargv vt cur e =
      Inr (vt\<lparr>vt_index := Some (ix\<lparr>ix_tree := t1\<rparr>)\<rparr>, ?cur1, e\<lparr>buffer_pool_manager := bpm t1\<rparr>)"
    by (rule VtabFilter_ok [OF assms(1) k(1,2) assms(4) k(3,4), of cur]) (use assms(5,6) in \<open>auto simp: resize1_def\<close>)
  moreover have "rid_Get rid_invalid = - 1" by (simp add: rid_Get_def rid_invalid_def)
  then have "\<not> VtabEof ?cur1" "VtabRowid ?cur1 = Inr (- 1)"
    using assms(7) by (simp_all add: VtabEof_def VtabRowid_def vec_at_def)
  ultimately show ?thesis by blast
qed

text \<open>
  A cursor that is scanned again is not rewound: \<^verbatim>\<open>VtabFilter\<close> does not reset the offset, so that after the
  row of the first scan has been read the second scan is at its end at once, although the index holds
  the key.
\<close>

theorem vtab_rescan_at_end:
  assumes "table_ok V ps ts n m vt ix e" and "vt_room V ps n e"
    and "bindE (ConstructTuple Q V (im_key_schema (ix_meta ix)) kargv) (SetFromKey (ix_key_size ix)) = ok key"
    and "ix_valid V ix key" and "map_of m (ix_rank V ix key) = Some rid"
    and "is_index_scan cur" and "cur_results cur = [rid0]" and "cur_offset cur = 0"
  shows "\<exists>cur1 vt2 cur2 e2. VtabNext V cur e = Inr (cur1, e) \<and>
    VtabFilter Q V 1 kargv vt cur1 e = Inr (vt2, cur2, e2) \<and> cur_results cur2 = [rid] \<and> VtabEof cur2"
proof -
  obtain kt where k: "ConstructTuple Q V (im_key_schema (ix_meta ix)) kargv = ok kt" "SetFromKey (ix_key_size ix) kt = ok key"
    "n < ve_fuel V" "2 \<le> pool_size (buffer_pool_manager e)"
    using assms(2,3) by (auto simp: bindE_eq_Inr vt_room_def)
  let ?cur = "cur\<lparr>cur_offset := 1\<rparr>"
  have "VtabNext V cur e = Inr (?cur, e)" using assms(6,8) by (simp add: VtabNext_def)
  moreover obtain t1 where "VtabFilter Q V 1 kargv vt ?cur e = Inr (vt\<lparr>vt_index := Some (ix\<lparr>ix_tree := t1\<rparr>)\<rparr>,
      ?cur\<lparr>is_index_scan := True, cur_results := [rid]\<rparr>, e\<lparr>buffer_pool_manager := bpm t1\<rparr>)"
    by (rule VtabFilter_ok [OF assms(1) k(1,2) assms(4) k(3,4), of ?cur]) (use assms(5) in auto)
  moreover have "VtabEof (?cur\<lparr>is_index_scan := True, cur_results := [rid]\<rparr>)" by (simp add: VtabEof_def)
  moreover have "cur_results (?cur\<lparr>is_index_scan := True, cur_results := [rid]\<rparr>) = [rid]" by simp
  ultimately show ?thesis by blast
qed

section \<open>The choice of the index\<close>

definition key_constraint :: "int list \<Rightarrow> index_constraint \<Rightarrow> bool" where
  "key_constraint key_attrs c \<longleftrightarrow> usable c \<and> iColumn c \<in> set key_attrs \<and> op_is_eq c"

lemma best_index_count:
  "best_index_loop key_attrs cs i counter usage = (k, scan, u) \<Longrightarrow> k \<le> counter + length cs"
  by (induction key_attrs cs i counter usage rule: best_index_loop.induct) (fastforce split: if_splits)+

lemma best_index_all:
  "list_all (key_constraint key_attrs) cs \<Longrightarrow> i + length cs \<le> length usage \<Longrightarrow>
     best_index_loop key_attrs cs i counter usage =
       (counter + length cs, True,
        map (\<lambda>j. if i \<le> j \<and> j < i + length cs then int j + 1 else usage ! j) [0..<length usage])"
proof (induction key_attrs cs i counter usage rule: best_index_loop.induct)
  case (1 key_attrs i counter usage)
  then show ?case by (auto intro: nth_equalityI)
next
  case (2 key_attrs c cs i counter usage)
  then show ?case by (auto simp: key_constraint_def nth_list_update intro!: map_cong)
qed

lemma best_index_not_all:
  "best_index_loop key_attrs cs i counter usage = (k, True, u) \<Longrightarrow> \<not> list_all (key_constraint key_attrs) cs \<Longrightarrow>
     k < counter + length cs"
proof (induction key_attrs cs i counter usage rule: best_index_loop.induct)
  case (2 key_attrs c cs i counter usage)
  then show ?case
    using best_index_count [of key_attrs cs "Suc i" counter usage k True u]
    by (auto simp: key_constraint_def split: if_splits)
qed simp

text \<open>
  The index is chosen exactly when there are as many constraints as key columns and every one of
  them is a usable equality on a key column; the value of the \<open>j\<close>-th constraint is then the \<open>j\<close>-th argument of
  the scan. The scan takes its \<open>j\<close>-th argument for the \<open>j\<close>-th key column, whatever column the constraint
  names: constraints in another order, or two on one column, are looked up under a wrong key.
\<close>

theorem best_index_chosen:
  assumes "vt_index vt = Some ix" and "key_attrs = im_key_attrs (ix_meta ix)" and "length usage = length cs"
    and "VtabBestIndex vt cs (usage, 0) = (usage', idxNum)"
  shows "(idxNum = 1 \<longleftrightarrow> length cs = length key_attrs \<and> list_all (key_constraint key_attrs) cs) \<and>
    (idxNum = 1 \<longrightarrow> usage' = map (\<lambda>j. int j + 1) [0..<length cs])"
proof (cases "length cs = length key_attrs \<and> list_all (key_constraint key_attrs) cs")
  case True
  then have "best_index_loop key_attrs cs 0 0 usage = (length key_attrs, True, map (\<lambda>j. int j + 1) [0..<length cs])"
    using best_index_all [of key_attrs cs 0 usage 0] assms(3) by simp
  then show ?thesis using True assms by (auto simp: VtabBestIndex_def Let_def)
next
  case False
  obtain k scan u where l: "best_index_loop key_attrs cs 0 0 usage = (k, scan, u)" by (metis prod_cases3)
  have "\<not> (k = length key_attrs \<and> scan)" if "length cs = length key_attrs"
    using best_index_not_all [of key_attrs cs 0 0 usage k u] l False that by (cases scan) auto
  then have "idxNum = 0" using assms l by (auto simp: VtabBestIndex_def Let_def split: if_splits)
  then show ?thesis using False by auto
qed

section \<open>Example\<close>

text \<open>
  A table of one bigint column that is indexed: the tree is the leaf on page 1 with the keys 3 and 5, the
  heap the empty page 2. The values of SQLite are optional integers.
\<close>

definition sample_sqlite :: "(int option, 64 word) sqlite" where
  "sample_sqlite =
     \<lparr>sqlite3_value_int = (\<lambda>q. case q of None \<Rightarrow> 0 | Some i \<Rightarrow> int32 i),
      sqlite3_value_int64 = (\<lambda>q. case q of None \<Rightarrow> 0 | Some i \<Rightarrow> of_int i), sqlite3_value_double = (\<lambda>_. 0),
      sqlite3_value_text = (\<lambda>_. None), sqlite3_value_is_null = (\<lambda>q. q = None), sqlite3_declare_vtab = (\<lambda>_. True)\<rparr>"

definition sample_env :: "64 word vt_env" where
  "sample_env = \<lparr>ve_hash = of_int, ve_cpp = word_cpp, ve_mem = (\<lambda>_. 0), ve_fuel = 1\<rparr>"

definition sample_index :: TableIndex where
  "sample_index = \<lparr>ix_key_size = 8, ix_meta = sample_meta, ix_tree = small_index\<rparr>"

definition sample_table :: VirtualTable where
  "sample_table = \<lparr>vt_schema = bigint_schema, vt_first_page = 2, vt_index = Some sample_index, vt_number = 7\<rparr>"

definition sample_cursor :: Cursor where
  "sample_cursor = \<lparr>cur_results = [], cur_offset = 0, cur_iterator = tuple_dummy, cur_txn = Some 0, is_index_scan = False\<rparr>"

abbreviation sample_row :: "int \<Rightarrow> Tuple" where
  "sample_row i \<equiv> \<lparr>allocated = True, tup_rid = rid_invalid, tup_size = 8, tup_data = le_enc 8 i\<rparr>"

lemma small_index_fields: "root_page_id small_index = 1" "rwlatch small_index = (\<lambda>_. rw_init)" "root_free small_index"
  by (simp_all add: small_index_def sample_tree_def BPlusTreeIndex_make_def root_free_def)

lemma sample_table_ok:
  obtains e where
    "table_ok sample_env [2] [1] 0 [([3], rid_make 3 0), ([5], rid_make 5 0)] sample_table sample_index e"
    and "global_transaction e \<noteq> None" and "vt_room sample_env [2] 0 e"
    and "page_room of_int (buffer_pool_manager e) 8 2"
    and "in_place (ix_env sample_env sample_index) (key_rank word_cpp bigint_schema) OpInsert 0 key
      (ix_state sample_index None (buffer_pool_manager e))"
proof -
  define d where "d = leaf_store blank sample_root"
  have d: "leaf_view 8 d = sample_root" "length d = 512"
    using leaf_view_store [OF _ sample_root_ok(1), of blank] by (simp_all add: d_def blank_def)
  obtain d2 where d2: "tp_wf d2" "tp_slots d2 = []" "tp_F d2 = 512" "tp_links d2 = (2, - 1, INVALID_PAGE_ID)"
    using tp_Init_fresh [of "replicate 512 0" 2 "- 1"] by auto
  have l: "length d2 = 512" "tp_n d2 = 0" using tp_wfD(1) [OF d2(1)] arg_cong [OF d2(2), of length] by simp_all
  define dm where "dm = dm_init (replicate 512 0 @ d @ d2) []"
  define e where "e = \<lparr>buffer_pool_manager = bp_init 3 dm, lock_manager = \<lparr>strict_2PL = True\<rparr>, transaction_manager = tm_init,
    global_transaction = Some (txn_init 0)\<rparr>"
  have dm: "dm_ok dm" "disk_page dm 1 = Some d" "disk_page dm 2 = Some d2"
    using d(2) l by (simp_all add: dm_def dm_ok_def dm_init_def disk_page_def bget_def)
  have b: "buffer_pool_manager e = bpm (sample_tree dm 1)" "pool_size (buffer_pool_manager e) = 3"
    using sample_tree_rest(3) [OF dm(1)] by (simp_all add: e_def sample_tree_def BPlusTreeIndex_make_def)
  note r = sample_tree_rest [OF dm(1), where root = 1, folded b(1)]
  have v: "bp_view of_int (buffer_pool_manager e) 1 = Some d" "bp_view of_int (buffer_pool_manager e) 2 = Some d2"
    using r(2) dm by simp_all
  have page: "tree_page (bp_view of_int (buffer_pool_manager e)) 1 d LEAF_PAGE"
    using arg_cong [OF d(1), of nd_type] arg_cong [OF d(1), of nd_id] v(1)
    by (simp add: tree_page_def sample_root_def pid_ok_def)
  have "tree_of (key_valid word_cpp bigint_schema) (key_rank word_cpp bigint_schema) 8 (bp_view of_int (buffer_pool_manager e))
      0 1 [1] [([3], rid_make 3 0), ([5], rid_make 5 0)]"
    using tree_of.leaf [OF page, of "key_valid word_cpp bigint_schema" "key_rank word_cpp bigint_schema" 8] sample_root_ok(2,3)
      d(1) by simp
  then have tree: "rooted (ix_env sample_env sample_index) (key_valid word_cpp bigint_schema) (key_rank word_cpp bigint_schema) 0 [1]
      [([3], rid_make 3 0), ([5], rid_make 5 0)] (ix_state sample_index None (buffer_pool_manager e))"
    by (simp add: rooted_def sample_env_def sample_index_def small_index_fields)
  have "bp_rest of_int (buffer_pool_manager e)"
    using rest_pool [OF r(1)] b by (simp add: bp_rest_pool)
  then have "th_ok of_int [2] (buffer_pool_manager e)" "th_chain of_int (buffer_pool_manager e) [2]"
    using v(2) d2 by (simp_all add: th_ok_def pid_ok_def page_next_def)
  then have ok: "table_ok sample_env [2] [1] 0 [([3], rid_make 3 0), ([5], rid_make 5 0)] sample_table sample_index e"
    using tree small_index_fields
    by (simp add: table_ok_def sample_env_def sample_table_def sample_index_def sample_meta_def txn_clean_def)
      (simp add: e_def txn_init_def)
  have room: "page_room of_int (buffer_pool_manager e) 8 2"
    using v(2) tp_wfD(2) [OF d2(1)] l(2) d2(3) by (simp add: page_room_def tp_room_def)
  have hv: "nd_size (header_view d) = 2" "nd_max (header_view d) = 29" "nd_parent (header_view d) = - 1"
    "nd_type (header_view d) = LEAF_PAGE"
    using arg_cong [OF d(1), of nd_type] arg_cong [OF d(1), of nd_size] arg_cong [OF d(1), of nd_max]
      arg_cong [OF d(1), of nd_parent] by (simp_all add: sample_root_def leaf_capacity_def)
  have place: "in_place (ix_env sample_env sample_index) (key_rank word_cpp bigint_schema) OpInsert 0 key
      (ix_state sample_index None (buffer_pool_manager e))"
    using v(1) hv by (simp add: in_place_def Let_def isSafe_def leaf_capacity_def sample_env_def sample_index_def small_index_fields)
  show thesis
    by (rule that [OF ok _ _ room place]) (use b(2) in \<open>simp_all add: e_def vt_room_def sample_env_def\<close>)
qed

lemma sample_row_ok:
  assumes "in_sql Int64 n"
  shows "ConstructTuple sample_sqlite sample_env bigint_schema [Some n] = ok (sample_row n)"
    and "SetFromKey 8 (sample_row n) = ok (le_enc 8 n)"
    and "Tuple_GetValue word_cpp (sample_row n) bigint_schema 0 = ok (int_val Int64 n)"
    and "key_tuple sample_env bigint_schema sample_index (sample_row n) = ok (sample_row n)"
proof -
  have wf: "Value_wf word_cpp (int_val Int64 n)"
    using in_sql_not_null [OF assms] narrow_in_ctype [OF in_sql_ctype [OF assms]]
    by (simp add: Value_wf_def int_val_def stored_def Value_of_type_def)
  obtain w where w: "v_val (int_val Int64 n :: 64 word Value) = VBigint w" "sint w = n"
    using GetAs_int_val [OF assms] by (auto split: Val.splits)
  have img: "value_image word_cpp (int_val Int64 n) = le_enc 8 n"
    using w by (simp add: value_image_def)
  have fits: "value_fits word_cpp (int_val Int64 n) (sch_columns bigint_schema ! 0)"
    using wf by (simp add: value_fits_def bigint_schema_def)
  have rd: "Value_DeserializeFrom word_cpp (le_enc 8 n) 0 BIGINT = ok (int_val Int64 n)"
    using read_value [OF fits, of "le_enc 8 n" 0] img by (simp add: bigint_schema_def double_image_word_cpp bget_def)
  then show get: "Tuple_GetValue word_cpp (sample_row n) bigint_schema 0 = ok (int_val Int64 n)"
    by (simp add: Tuple_GetValue_def Tuple_GetDataPtr_def Tuple_has_data_def Schema_GetType_def Schema_IsInlined_def
        Schema_GetOffset_def bigint_schema_def vec_at_def)
  have "Value_SerializeTo word_cpp (int_val Int64 n) (map (\<lambda>_. 0) [0..<8]) 0 = ok (le_enc 8 n)"
    using store_value [of word_cpp "int_val Int64 n" 0 "map (\<lambda>_. 0) [0..<8]"] wf img
    by (simp add: double_image_word_cpp bput_def)
  then have make: "Tuple_make word_cpp (\<lambda>_. 0) [int_val Int64 n] bigint_schema = ok (sample_row n)"
    by (simp add: Tuple_make_def Schema_GetColumnCount_def Schema_IsInlined_def
        Schema_GetOffset_def bigint_schema_def vec_at_def)
  have s: "sint (word_of_int n :: 64 word) = n" using w by (simp add: value_simps)
  then have "(Value_int64 BIGINT (sint (of_int n :: 64 word)) :: 64 word Value res) = ok (int_val Int64 n)"
    using in_sql_not_null [OF assms] by (simp add: value_simps)
  then show "ConstructTuple sample_sqlite sample_env bigint_schema [Some n] = ok (sample_row n)"
    using make by (simp add: ConstructTuple_def sample_sqlite_def sample_env_def bigint_schema_def Schema_GetType_def vec_at_def
        column_value_def nth_res_def)
  show "key_tuple sample_env bigint_schema sample_index (sample_row n) = ok (sample_row n)"
    using get make by (simp add: key_tuple_def sample_env_def sample_index_def sample_meta_def)
  show "SetFromKey 8 (sample_row n) = ok (le_enc 8 n)"
    by (simp add: SetFromKey_def rd_bytes_def wr_bytes_def bget_def bput_def)
qed

lemma sample_row_insertable:
  assumes "in_sql Int64 n" and "n \<noteq> 3" and "n \<noteq> 5" and "page_room of_int (buffer_pool_manager e) 8 2"
    and "in_place (ix_env sample_env sample_index) (key_rank word_cpp bigint_schema) OpInsert 0 (le_enc 8 n)
      (ix_state sample_index None (buffer_pool_manager e))"
  shows "row_insertable sample_env [2] 0 [([3], rid_make 3 0), ([5], rid_make 5 0)] sample_table sample_index (sample_row n)
    (le_enc 8 n) e"
  using sample_row_ok [OF assms(1)] bigint_key [OF assms(1)] assms(2-5)
  by (simp add: row_insertable_def tuple_fits_def sample_table_def) (simp add: sample_index_def sample_env_def sample_meta_def)

theorem vtab_insert_select_witness:
  "\<exists>e vt1 e1 vt2 cur2 e2 e3 rid.
     VtabUpdate sample_sqlite sample_env [None, None, Some 4] sample_table e = Inr (vt1, e1) \<and>
     VtabFilter sample_sqlite sample_env 1 [Some 4] vt1 sample_cursor e1 = Inr (vt2, cur2, e2) \<and> \<not> VtabEof cur2 \<and>
     VtabRowid cur2 = Inr (rid_Get rid) \<and> VtabColumn sample_env vt2 0 cur2 e2 = Inr (Result_Int64 4, e3)"
proof -
  obtain e where e: "table_ok sample_env [2] [1] 0 [([3], rid_make 3 0), ([5], rid_make 5 0)] sample_table sample_index e"
    "global_transaction e \<noteq> None" "vt_room sample_env [2] 0 e" "page_room of_int (buffer_pool_manager e) 8 2"
    "in_place (ix_env sample_env sample_index) (key_rank word_cpp bigint_schema) OpInsert 0 (le_enc 8 4)
      (ix_state sample_index None (buffer_pool_manager e))"
    by (rule sample_table_ok)
  have n: "in_sql Int64 4" by (simp add: bigint_small)
  note row = sample_row_ok [OF n] and key = bigint_key [OF n]
  have ins: "row_insertable sample_env [2] 0 [([3], rid_make 3 0), ([5], rid_make 5 0)] sample_table sample_index (sample_row 4)
      (le_enc 8 4) e"
    by (rule sample_row_insertable [OF n _ _ e(4,5)]) simp_all
  have fields: "vt_schema sample_table = bigint_schema" "im_key_schema (ix_meta sample_index) = bigint_schema"
    "ix_key_size sample_index = 8" "ve_cpp sample_env = word_cpp" "cur_results sample_cursor = []" "cur_offset sample_cursor = 0"
    "sqlite3_value_is_null sample_sqlite ([None, None, Some 4] ! 0)" "Schema_GetType bigint_schema 0 = ok BIGINT"
    by (simp_all add: sample_table_def sample_index_def sample_meta_def sample_env_def sample_cursor_def sample_sqlite_def
        Schema_GetType_def bigint_schema_def vec_at_def)
  have "result_of BIGINT (int_val Int64 4 :: 64 word Value) = ok (Result_Int64 4)"
    using GetAs_int_val [OF n, where ?'a = "64 word"] by (simp add: result_of_def)
  then show ?thesis
    using vtab_insert_select [OF e(1-3) _ fields(7) _ ins, of "[Some 4]" "le_enc 8 4" sample_cursor 0 BIGINT "int_val Int64 4"]
      row key fields by fastforce
qed

theorem vtab_absent_key_row_witness:
  "\<exists>e vt1 cur1 e1. VtabFilter sample_sqlite sample_env 1 [Some 4] sample_table sample_cursor e = Inr (vt1, cur1, e1) \<and>
     \<not> VtabEof cur1 \<and> VtabRowid cur1 = Inr (- 1)"
proof -
  obtain e where e: "table_ok sample_env [2] [1] 0 [([3], rid_make 3 0), ([5], rid_make 5 0)] sample_table sample_index e"
    "vt_room sample_env [2] 0 e"
    by (rule sample_table_ok)
  have n: "in_sql Int64 4" by (simp add: bigint_small)
  show ?thesis
    using vtab_absent_key_row [OF e, of sample_sqlite "[Some 4]" "le_enc 8 4" sample_cursor] sample_row_ok [OF n] bigint_key [OF n]
    by (auto simp: sample_index_def sample_meta_def sample_env_def sample_cursor_def)
qed

theorem best_index_chosen_witness:
  "VtabBestIndex sample_table [\<lparr>usable = True, iColumn = 0, op_is_eq = True\<rparr>] ([0], 0) = ([1], 1) \<and>
   snd (VtabBestIndex sample_table [\<lparr>usable = True, iColumn = 0, op_is_eq = False\<rparr>] ([0], 0)) = 0"
proof -
  have f: "vt_index sample_table = Some sample_index" "[0] = im_key_attrs (ix_meta sample_index)"
    by (simp_all add: sample_table_def sample_index_def sample_meta_def)
  have "fst (VtabBestIndex sample_table [\<lparr>usable = True, iColumn = 0, op_is_eq = b\<rparr>] ([0], 0)) = [1] \<and>
      snd (VtabBestIndex sample_table [\<lparr>usable = True, iColumn = 0, op_is_eq = b\<rparr>] ([0], 0)) = 1" if b for b
    using best_index_chosen [OF f _ prod.collapse [symmetric], of "[0]" "[\<lparr>usable = True, iColumn = 0, op_is_eq = b\<rparr>]"] that
    by (simp add: key_constraint_def)
  moreover have "VtabBestIndex sample_table [\<lparr>usable = True, iColumn = 0, op_is_eq = False\<rparr>] ([0], 0) = ([0], 0)"
    using f(1) f(2) [symmetric] by (simp add: VtabBestIndex_def)
  ultimately show ?thesis by (simp add: prod_eq_iff)
qed

end
