(* ===== verification/Spec2Isabelle.thy ===== *)
theory Spec2Isabelle
  imports Buffer_Pool Header_Page Table_Page_Spec Type_Store Rw_Mutex Tuples Bpt_Split Heap_Spec Virtual_Table_Spec
begin

text \<open>
  Verification of \<^verbatim>\<open>scudb\<close>, the disk-based storage engine of \<^verbatim>\<open>src/Homework3_2022/src\<close> (paths below are
  relative to that directory).

  \<^bold>\<open>The program.\<close> A disk manager reads and writes pages of 512 bytes. A buffer pool caches them in
  frames, which it finds with an extendible hash table and replaces with an LRU list. On the pages
  lie: the header page (the roots of the indexes), the table pages (slotted pages of tuples) and the
  nodes of B+ trees, whose keys are tuples of an index schema. A tuple is a row of SQL values laid
  out by a schema; the values have the types of \<^verbatim>\<open>type/\<close>. Transactions record what they wrote so that
  an abort can undo it; a readers-writer mutex protects pages and tree roots. SQLite reaches the engine
  through the callbacks of a virtual table: statements that declare a table and its index, rows that
  are inserted, changed and deleted, and cursors over the heap or the index of a table.

  \<^bold>\<open>The model.\<close> An operation is a function on explicit state. A C++ routine returns a value of
  \<^verbatim>\<open>fault + 'a\<close>: a failed assertion, a null or out-of-range access, undefined behaviour and a thrown
  exception are results, so that a theorem that an operation returns \<^verbatim>\<open>ok\<close> shows that none of them
  happens. Asserts are on. Pages are lists of 512 bytes and integers keep their width where it
  matters: words for hashes, bytes, counters and stored members, \<^verbatim>\<open>int\<close> with explicit 32-bit bounds or
  wrap-around elsewhere. Objects with pointers (the list of the replacer, the shared buckets) are
  stores indexed by natural numbers. Loops are structural or have a termination proof, with these
  exceptions, which run on fuel: the split loop of the hash table (32 rounds are enough for every
  call that returns, since a bucket cannot be deeper than 31 bits), the loops that follow the links
  of table pages (as many rounds as the table has pages are enough, C7), the loops over a write
  set (as many as it has records, C8) and the descent of a tree (more rounds than the tree is high
  are enough, C2--C4).

  \<^bold>\<open>Theories.\<close>
  \<^item> \<^verbatim>\<open>Scudb_Exception\<close> (\<^verbatim>\<open>include/common/exception.h\<close>) and \<^verbatim>\<open>Scudb_Prelude\<close>: outcomes and their
    sequencing, arrays with bounds, \<^verbatim>\<open>std::map\<close> as an ordered list, bit lemmas.
  \<^item> \<^verbatim>\<open>Extendible_Hash\<close> (\<^verbatim>\<open>hash/extendible_hash.cpp\<close>): refines a finite map; insertions return
    unless too many keys agree in their low bits, and keep the value of a key that is present (C11, C12); interface \<^verbatim>\<open>hash_table\<close>.
  \<^item> \<^verbatim>\<open>Lru_Replacer\<close> (\<^verbatim>\<open>buffer/lru_replacer.cpp\<close>): the linked list at pointer level refines a list
    ordered by recency, and its destructor leaves no cycle of owners (C13, C14, C38); interface \<^verbatim>\<open>replacer\<close>.
  \<^item> \<^verbatim>\<open>Page_Bytes\<close>, \<^verbatim>\<open>Disk_Manager\<close> (\<^verbatim>\<open>disk/disk_manager.cpp\<close>): little-endian fields; pages and the
    log are read back as written, a short read disables every later write (C15, C16); interface
    \<^verbatim>\<open>page_store\<close>.
  \<^item> \<^verbatim>\<open>Buffer_Pool\<close> (\<^verbatim>\<open>buffer/buffer_pool_manager.cpp\<close>): the pool refines a map from page numbers to
    contents through fetching, changing, unpinning, eviction and write-back (C9, C10, C17--C19); interface
    \<^verbatim>\<open>page_cache\<close>, proved over the interfaces of hash table, replacer and disk.
  \<^item> \<^verbatim>\<open>Header_Page\<close> (\<^verbatim>\<open>page/header_page.cpp\<close>): the last root recorded for an index is found, and the 15th
    record overflows the page (C20, C21); deletion is exact; interface \<^verbatim>\<open>root_directory\<close>.
  \<^item> \<^verbatim>\<open>Transactions\<close> (\<^verbatim>\<open>common/rid.h\<close>, \<^verbatim>\<open>concurrency/transaction.h\<close>, \<^verbatim>\<open>concurrency/lock_manager.cpp\<close>):
    record identifiers and their packing, transactions, the stubs of the lock manager.
  \<^item> \<^verbatim>\<open>Table_Page\<close>, \<^verbatim>\<open>Table_Page_Moves\<close>, \<^verbatim>\<open>Table_Page_Spec\<close> (\<^verbatim>\<open>page/table_page.cpp\<close>): a well-formed page is
    a list of slots; every operation is the list operation it stands for, and the cases in which
    it is not are stated (C22--C25); interface \<^verbatim>\<open>tuple_page\<close>.
  \<^item> \<^verbatim>\<open>Type_Value\<close>, \<^verbatim>\<open>Type_Text\<close>, \<^verbatim>\<open>Type_Convert\<close>, \<^verbatim>\<open>Type_Compare\<close>, \<^verbatim>\<open>Type_Arith\<close> (\<^verbatim>\<open>type/*.cpp\<close>): values and
    all operations of all types; \<^verbatim>\<open>Type_Spec\<close> and \<^verbatim>\<open>Type_Store\<close>: exact arithmetic (overflow of 32- and 64-bit
    results is reported only where the compiler wraps it), comparison, NULL, serialisation, casts, string order (C26--C31). Arithmetic and text of
    \<^verbatim>\<open>double\<close> are a parameter (record \<^verbatim>\<open>cpp\<close>); \<^verbatim>\<open>word_cpp\<close> is an instance.
  \<^item> \<^verbatim>\<open>Rw_Mutex\<close> (\<^verbatim>\<open>include/common/rwmutex.h\<close>): the monitor as a step relation of any number of threads;
    mutual exclusion and no lost wake-up by invariant, and every request is served (C32, C37).
  \<^item> \<^verbatim>\<open>Catalog\<close>, \<^verbatim>\<open>Tuples\<close> (\<^verbatim>\<open>catalog/\<close>, \<^verbatim>\<open>table/tuple.cpp\<close>, \<^verbatim>\<open>index/generic_key.h\<close>): schemas, the layout of
    tuples and index keys; a row is read back from its tuple (C33).
  \<^item> \<^verbatim>\<open>Bpt_Page\<close>, \<^verbatim>\<open>Bpt_Order\<close>, \<^verbatim>\<open>Bpt_Keys\<close> (\<^verbatim>\<open>page/b_plus_tree_*.cpp\<close>): the nodes of the B+ tree as typed
    views of a page; with a comparator that orders the keys (interface \<^verbatim>\<open>key_order\<close>, provided by
    the comparator of integer index keys) a leaf is an ordered map, an internal page sends a key
    to its child, and splitting keeps both (C34--C36). \<^verbatim>\<open>Bpt_Node\<close>: the nodes in the bytes of a page;
    what is stored is read back.
  \<^item> \<^verbatim>\<open>Bpt_Tree\<close>, \<^verbatim>\<open>Bpt_Index\<close> (\<^verbatim>\<open>index/*.cpp\<close>, the operations of \<^verbatim>\<open>page/b_plus_tree_*.cpp\<close> that reach other
    pages): trees over the buffer pool with latches and the page set of a transaction, iterators,
    the integrity check, and the index on key tuples. Descent and recursion run on fuel, which
    bounds the height of the tree.
  \<^item> \<^verbatim>\<open>Pool_Pins\<close>: the buffer pool while pages are pinned (interface \<^verbatim>\<open>pinned_cache\<close>: how often each page
    is pinned, and which pages are changed but not yet marked dirty). \<^verbatim>\<open>Bpt_Hold\<close>: what an operation on a
    tree holds (pins, latches, the lock of the root, the page set of its transaction), and the effect of
    the crabbing protocol on it. \<^verbatim>\<open>Bpt_Shape\<close>: pages that form a B+ tree of any height, and the map they
    stand for. \<^verbatim>\<open>Bpt_Search\<close>, \<^verbatim>\<open>Bpt_Update\<close>, \<^verbatim>\<open>Bpt_Start\<close>: descent, lookup, changes of one leaf and the first
    insertion, proved in the interface \<^verbatim>\<open>tree_index\<close> (an extension of \<^verbatim>\<open>key_order\<close>), which the comparator
    of an index provides. \<^verbatim>\<open>Bpt_Spec\<close>: over tuples, tree, pool and disk an index is a map from keys to
    record identifiers (C2--C5), as long as no page is split or merged. \<^verbatim>\<open>Bpt_Split\<close>: the first split
    step by step through the pool; the new root it makes cannot be searched (C6), so no well-formed
    tree comes out of a split. Splits and merges of single pages are in C34--C36.
  \<^item> \<^verbatim>\<open>Pool_Client\<close>: the buffer pool between operations, when nothing is pinned (interface \<^verbatim>\<open>idle_cache\<close>,
    an extension of \<^verbatim>\<open>page_cache\<close>). \<^verbatim>\<open>Table_Heap\<close> (\<^verbatim>\<open>table/table_heap.cpp\<close>, \<^verbatim>\<open>table/table_iterator.cpp\<close>,
    \<^verbatim>\<open>concurrency/transaction_manager.cpp\<close>): tables as chains of pages, iterators, commit and abort.
    \<^verbatim>\<open>Heap_Spec\<close>: a table is a map from identifiers to tuples; insertion and lookup (C7), and an
    abort of insertions into pages with room and deletions of live tuples restores the map
    (C8), over the interface \<^verbatim>\<open>idle_cache\<close> and the lemmas of table pages.
  \<^item> \<^verbatim>\<open>Statements\<close> (\<^verbatim>\<open>include/common/string_utility.h\<close>, the parsers of \<^verbatim>\<open>vtable/virtual_table.cpp\<close>): a statement
    that declares columns is read as it is written (C40). \<^verbatim>\<open>Virtual_Table\<close> (\<^verbatim>\<open>vtable/virtual_table.cpp\<close>,
    \<^verbatim>\<open>include/vtable/virtual_table.h\<close>): the engine, tables, cursors and the callbacks; the values of SQLite are a
    parameter (record \<^verbatim>\<open>sqlite\<close>). \<^verbatim>\<open>Virtual_Table_Spec\<close>: heap and index share one pool without disturbing each
    other, so that a row that is inserted is found through the index with all its columns, while a scan
    for an absent key delivers a row that does not exist (C1, C39); when the index is chosen, and that a
    second scan of a cursor is not rewound.

  \<^bold>\<open>Not modelled.\<close> Latching inside the components but the tree (each operation is one step; the mutex
  itself is modelled), operating system failures, destructors but those of the index iterator and the replacer, debugging
  output and test input from files, the logging stubs, the callback that disconnects a table, and the vendored SQLite.
\<close>

end
